(* ===== verification/Rust_Prelude.thy ===== *)
theory Rust_Prelude
  imports Main "HOL-Library.Word" "HOL-Library.Monad_Syntax" "HOL-Library.Sublist" "HOL-Library.Code_Target_Nat"
begin

text \<open>
  What the components share: machine integers with Rust's saturating arithmetic, clock values,
  results and panics, and Rust strings as sequences of Unicode scalar values with byte offsets.

  \<^item> \<open>u32\<close>, \<open>u64\<close>: fixed-width words; \<open>saturating_add\<close>, \<open>saturating_sub\<close> are the methods of
    the same names.
  \<^item> An operation that may panic returns an \<open>option\<close>, and \<open>None\<close> is the panic; an operation that
    returns a \<open>Result\<close> is a sum with the error on the left.
  \<^item> A \<open>char\<close> is its code point; a \<open>str\<close> is the list of its characters. Byte offsets are recovered
    with \<open>blen\<close>, and slicing by byte range (\<open>str_slice\<close>, \<open>str_from\<close>, \<open>str_upto\<close>) panics out of
    range and off a character boundary, as Rust does.
\<close>

named_theorems len_simps \<open>byte lengths of strings\<close>
named_theorems trim_simps \<open>facts on trimming\<close>
named_theorems rust_defs \<open>definitions of the standard-library operations, for evaluation\<close>

section \<open>Machine integers and clocks\<close>

type_synonym u8 = "8 word"
type_synonym u32 = "32 word"
type_synonym u64 = "64 word"

text \<open>Instants and durations are counted in nanoseconds from an arbitrary origin.\<close>

type_synonym instant = nat
type_synonym duration = nat

definition saturating_add :: "'a::len word \<Rightarrow> 'a word \<Rightarrow> 'a word" where
  "saturating_add a b = (let s = a + b in if s < a then - 1 else s)"

definition saturating_sub :: "'a::len word \<Rightarrow> 'a word \<Rightarrow> 'a word" where
  "saturating_sub a b = (if a < b then 0 else a - b)"

text \<open>\<open>Instant::saturating_duration_since\<close>: zero when the instant is not later.\<close>

definition saturating_duration_since :: "instant \<Rightarrow> instant \<Rightarrow> duration" where
  "saturating_duration_since until now = until - now"

lemma unat_less: "unat a < 2 ^ LENGTH('a)"
  for a :: "'a::len word"
  by simp

lemma unat_max_word: "unat (- 1 :: 'a::len word) = 2 ^ LENGTH('a) - 1"
  by (simp add: unsigned_minus_1_eq_mask mask_eq_exp_minus_1)

lemma word_overflow_iff: "a + b < a \<longleftrightarrow> 2 ^ LENGTH('a) \<le> unat a + unat b"
  for a b :: "'a::len word"
proof (cases "unat a + unat b < 2 ^ LENGTH('a)")
  case True
  then show ?thesis by (simp add: word_less_nat_alt unat_word_ariths)
next
  case False
  have "unat a + unat b - 2 ^ LENGTH('a) < 2 ^ LENGTH('a)"
    using unat_less [of a] unat_less [of b] by linarith
  with False have "(unat a + unat b) mod 2 ^ LENGTH('a) = unat a + unat b - 2 ^ LENGTH('a)"
    by (simp add: le_mod_geq)
  moreover have "unat a + unat b - 2 ^ LENGTH('a) < unat a"
    using False unat_less [of b] by linarith
  ultimately show ?thesis
    using False by (simp add: word_less_nat_alt unat_word_ariths)
qed

lemma unat_saturating_add:
  "unat (saturating_add a b) = min (unat a + unat b) (2 ^ LENGTH('a) - 1)"
  for a b :: "'a::len word"
  by (auto simp: saturating_add_def Let_def word_overflow_iff unat_word_ariths unat_max_word)

lemma unat_saturating_sub: "unat (saturating_sub a b) = unat a - unat b"
  for a b :: "'a::len word"
  by (auto simp: saturating_sub_def word_less_nat_alt unat_sub_if')

lemma saturating_add_mono: "a \<le> saturating_add a b"
  for a b :: "'a::len word"
proof -
  have "unat a \<le> 2 ^ LENGTH('a) - 1"
    using unat_less [of a] by linarith
  then show ?thesis by (simp add: word_le_nat_alt unat_saturating_add)
qed

lemma saturating_add_one_gt: "a < - 1 \<Longrightarrow> a < saturating_add a 1"
  for a :: "'a::len word"
  using unat_less [of a] by (simp add: word_less_nat_alt unat_saturating_add unat_max_word)

section \<open>Characters and strings\<close>

type_synonym rchar = nat
type_synonym rstr = "rchar list"

text \<open>A string literal of the source, all of whose literals modelled here are ASCII.\<close>

definition lit :: "string \<Rightarrow> rstr" where
  [rust_defs]: "lit s = map of_char s"

text \<open>The characters the shell scanners distinguish, by code point.\<close>

abbreviation (input) c_tab :: rchar where "c_tab \<equiv> 9"
abbreviation (input) c_newline :: rchar where "c_newline \<equiv> 10"
abbreviation (input) c_return :: rchar where "c_return \<equiv> 13"
abbreviation (input) c_space :: rchar where "c_space \<equiv> 32"
abbreviation (input) c_bang :: rchar where "c_bang \<equiv> 33"
abbreviation (input) c_dquote :: rchar where "c_dquote \<equiv> 34"
abbreviation (input) c_hash :: rchar where "c_hash \<equiv> 35"
abbreviation (input) c_dollar :: rchar where "c_dollar \<equiv> 36"
abbreviation (input) c_amp :: rchar where "c_amp \<equiv> 38"
abbreviation (input) c_squote :: rchar where "c_squote \<equiv> 39"
abbreviation (input) c_lparen :: rchar where "c_lparen \<equiv> 40"
abbreviation (input) c_rparen :: rchar where "c_rparen \<equiv> 41"
abbreviation (input) c_star :: rchar where "c_star \<equiv> 42"
abbreviation (input) c_plus :: rchar where "c_plus \<equiv> 43"
abbreviation (input) c_minus :: rchar where "c_minus \<equiv> 45"
abbreviation (input) c_dot :: rchar where "c_dot \<equiv> 46"
abbreviation (input) c_slash :: rchar where "c_slash \<equiv> 47"
abbreviation (input) c_colon :: rchar where "c_colon \<equiv> 58"
abbreviation (input) c_semi :: rchar where "c_semi \<equiv> 59"
abbreviation (input) c_lt :: rchar where "c_lt \<equiv> 60"
abbreviation (input) c_eq :: rchar where "c_eq \<equiv> 61"
abbreviation (input) c_gt :: rchar where "c_gt \<equiv> 62"
abbreviation (input) c_question :: rchar where "c_question \<equiv> 63"
abbreviation (input) c_lbracket :: rchar where "c_lbracket \<equiv> 91"
abbreviation (input) c_backslash :: rchar where "c_backslash \<equiv> 92"
abbreviation (input) c_rbracket :: rchar where "c_rbracket \<equiv> 93"
abbreviation (input) c_underscore :: rchar where "c_underscore \<equiv> 95"
abbreviation (input) c_backtick :: rchar where "c_backtick \<equiv> 96"
abbreviation (input) c_lbrace :: rchar where "c_lbrace \<equiv> 123"
abbreviation (input) c_pipe :: rchar where "c_pipe \<equiv> 124"
abbreviation (input) c_rbrace :: rchar where "c_rbrace \<equiv> 125"
abbreviation (input) c_tilde :: rchar where "c_tilde \<equiv> 126"

definition is_ascii_digit :: "rchar \<Rightarrow> bool" where
  [rust_defs]: "is_ascii_digit c = (48 \<le> c \<and> c \<le> 57)"

definition is_ascii_uppercase :: "rchar \<Rightarrow> bool" where
  [rust_defs]: "is_ascii_uppercase c = (65 \<le> c \<and> c \<le> 90)"

definition is_ascii_alphabetic :: "rchar \<Rightarrow> bool" where
  [rust_defs]: "is_ascii_alphabetic c = (65 \<le> c \<and> c \<le> 90 \<or> 97 \<le> c \<and> c \<le> 122)"

definition is_ascii_alphanumeric :: "rchar \<Rightarrow> bool" where
  [rust_defs]: "is_ascii_alphanumeric c = (is_ascii_alphabetic c \<or> is_ascii_digit c)"

definition is_ascii_hexdigit :: "rchar \<Rightarrow> bool" where
  [rust_defs]: "is_ascii_hexdigit c =
     (is_ascii_digit c \<or> 65 \<le> c \<and> c \<le> 70 \<or> 97 \<le> c \<and> c \<le> 102)"

definition is_ascii_whitespace :: "rchar \<Rightarrow> bool" where
  [rust_defs]: "is_ascii_whitespace c = (c = 9 \<or> c = 10 \<or> c = 12 \<or> c = 13 \<or> c = 32)"

text \<open>\<open>char::is_whitespace\<close>: the Unicode property \<open>White_Space\<close>.\<close>

definition is_whitespace :: "rchar \<Rightarrow> bool" where
  [rust_defs]: "is_whitespace c =
     (9 \<le> c \<and> c \<le> 13 \<or> c = 32 \<or> c = 0x85 \<or> c = 0xA0 \<or> c = 0x1680 \<or>
      0x2000 \<le> c \<and> c \<le> 0x200A \<or> c = 0x2028 \<or> c = 0x2029 \<or> c = 0x202F \<or> c = 0x205F \<or> c = 0x3000)"

subsection \<open>Byte lengths and slices\<close>

definition len_utf8 :: "rchar \<Rightarrow> nat" where
  [rust_defs]: "len_utf8 c = (if c < 0x80 then 1 else if c < 0x800 then 2 else if c < 0x10000 then 3 else 4)"

definition blen :: "rstr \<Rightarrow> nat" where
  "blen s = sum_list (map len_utf8 s)"

lemma len_utf8_pos [simp]: "0 < len_utf8 c"
  by (simp add: len_utf8_def)

lemma len_utf8_ascii: "c < 0x80 \<Longrightarrow> len_utf8 c = 1"
  by (simp add: len_utf8_def)

lemma blen_Nil [simp, len_simps]: "blen [] = 0"
  and blen_Cons [simp, len_simps]: "blen (c # s) = len_utf8 c + blen s"
  and blen_append [simp, len_simps]: "blen (s @ t) = blen s + blen t"
  by (simp_all add: blen_def)

lemma blen_eq_0 [simp]: "blen s = 0 \<longleftrightarrow> s = []"
  by (cases s) auto

lemma blen_pos: "s \<noteq> [] \<Longrightarrow> 0 < blen s"
  by (cases s) auto

lemma blen_ascii: "\<forall>c \<in> set s. c < 0x80 \<Longrightarrow> blen s = length s"
  by (induction s) (auto simp: len_utf8_ascii)

lemma length_le_blen: "length s \<le> blen s"
proof (induction s)
  case (Cons c s)
  have "1 \<le> len_utf8 c" by (simp add: Suc_leI)
  with Cons show ?case by simp
qed simp

text \<open>\<open>&s[n..]\<close>, \<open>&s[..n]\<close> and \<open>&s[a..b]\<close>; \<open>None\<close> is the panic.\<close>

fun str_from :: "rstr \<Rightarrow> nat \<Rightarrow> rstr option" where
  "str_from [] n = (if n = 0 then Some [] else None)"
| "str_from (c # s) n =
     (if n = 0 then Some (c # s)
      else if len_utf8 c \<le> n then str_from s (n - len_utf8 c) else None)"

fun str_upto :: "rstr \<Rightarrow> nat \<Rightarrow> rstr option" where
  "str_upto [] n = (if n = 0 then Some [] else None)"
| "str_upto (c # s) n =
     (if n = 0 then Some []
      else if len_utf8 c \<le> n then map_option ((#) c) (str_upto s (n - len_utf8 c)) else None)"

definition str_slice :: "rstr \<Rightarrow> nat \<Rightarrow> nat \<Rightarrow> rstr option" where
  [rust_defs]: "str_slice s a b =
     (if a \<le> b then Option.bind (str_upto s b) (\<lambda>p. str_from p a) else None)"

lemma str_from_0 [simp]: "str_from s 0 = Some s"
  by (cases s) auto

lemma str_from_append [simp]: "str_from (p @ q) (blen p) = Some q"
  by (induction p) auto

lemma str_upto_append [simp]: "str_upto (p @ q) (blen p) = Some p"
  by (induction p) (cases q; auto)+

lemma str_upto_blen [simp]: "str_upto p (blen p) = Some p"
  using str_upto_append [of p "[]"] by simp

lemma str_slice_append [simp]: "str_slice (p @ m @ q) (blen p) (blen p + blen m) = Some m"
proof -
  have "str_upto ((p @ m) @ q) (blen (p @ m)) = Some (p @ m)"
    by (rule str_upto_append)
  then show ?thesis by (simp add: str_slice_def)
qed

lemma str_from_Some: "str_from s n = Some q \<Longrightarrow> \<exists>p. s = p @ q \<and> n = blen p"
proof (induction s n arbitrary: q rule: str_from.induct)
  case (2 c s n)
  show ?case
  proof (cases "n = 0")
    case True
    with "2.prems" show ?thesis by (intro exI [of _ "[]"]) simp
  next
    case False
    with "2.prems" have le: "len_utf8 c \<le> n" and "str_from s (n - len_utf8 c) = Some q"
      by (auto split: if_splits)
    with "2.IH" False obtain p where "s = p @ q" "n - len_utf8 c = blen p" by blast
    with le show ?thesis by (intro exI [of _ "c # p"]) simp
  qed
qed (auto split: if_splits)

lemma str_upto_Some: "str_upto s n = Some p \<Longrightarrow> \<exists>q. s = p @ q \<and> n = blen p"
proof (induction s n arbitrary: p rule: str_upto.induct)
  case (2 c s n)
  show ?case
  proof (cases "n = 0")
    case True
    with "2.prems" show ?thesis by simp
  next
    case False
    with "2.prems" obtain p' where le: "len_utf8 c \<le> n" and p: "p = c # p'"
      and "str_upto s (n - len_utf8 c) = Some p'"
      by (auto split: if_splits)
    with "2.IH" False obtain q where "s = p' @ q" "n - len_utf8 c = blen p'" by blast
    with le p show ?thesis by simp
  qed
qed (auto split: if_splits)

subsection \<open>Trimming, prefixes, suffixes\<close>

definition trim_start :: "rstr \<Rightarrow> rstr" where
  [rust_defs]: "trim_start s = dropWhile is_whitespace s"

definition trim_end :: "rstr \<Rightarrow> rstr" where
  [rust_defs]: "trim_end s = rev (dropWhile is_whitespace (rev s))"

definition trim :: "rstr \<Rightarrow> rstr" where
  [rust_defs]: "trim s = trim_end (trim_start s)"

text \<open>\<open>trim_end_matches\<close> and \<open>trim_start_matches\<close> with a character predicate.\<close>

definition trim_end_matches :: "(rchar \<Rightarrow> bool) \<Rightarrow> rstr \<Rightarrow> rstr" where
  [rust_defs]: "trim_end_matches P s = rev (dropWhile P (rev s))"

definition trim_start_matches :: "(rchar \<Rightarrow> bool) \<Rightarrow> rstr \<Rightarrow> rstr" where
  [rust_defs]: "trim_start_matches P s = dropWhile P s"

fun strip_prefix :: "rstr \<Rightarrow> rstr \<Rightarrow> rstr option" where
  "strip_prefix s [] = Some s"
| "strip_prefix [] (p # ps) = None"
| "strip_prefix (c # s) (p # ps) = (if c = p then strip_prefix s ps else None)"

definition starts_with :: "rstr \<Rightarrow> rstr \<Rightarrow> bool" where
  [rust_defs]: "starts_with s p = (strip_prefix s p \<noteq> None)"

definition strip_suffix :: "rstr \<Rightarrow> rstr \<Rightarrow> rstr option" where
  [rust_defs]: "strip_suffix s p = map_option rev (strip_prefix (rev s) (rev p))"

definition ends_with :: "rstr \<Rightarrow> rstr \<Rightarrow> bool" where
  [rust_defs]: "ends_with s p = (strip_suffix s p \<noteq> None)"

lemma strip_prefix_Some_iff: "strip_prefix s p = Some t \<longleftrightarrow> s = p @ t"
  by (induction s p rule: strip_prefix.induct) auto

lemma starts_with_iff: "starts_with s p \<longleftrightarrow> (\<exists>t. s = p @ t)"
proof -
  have "starts_with s p \<longleftrightarrow> (\<exists>t. strip_prefix s p = Some t)"
    by (auto simp: starts_with_def)
  then show ?thesis by (simp add: strip_prefix_Some_iff)
qed

lemma strip_suffix_Some_iff: "strip_suffix s p = Some t \<longleftrightarrow> s = t @ p"
proof -
  have "strip_suffix s p = Some t \<longleftrightarrow> rev s = rev p @ rev t"
    by (auto simp: strip_suffix_def strip_prefix_Some_iff)
  also have "\<dots> \<longleftrightarrow> s = t @ p"
    by (metis rev_append rev_rev_ident)
  finally show ?thesis .
qed

lemma ends_with_iff: "ends_with s p \<longleftrightarrow> (\<exists>t. s = t @ p)"
proof -
  have "ends_with s p \<longleftrightarrow> (\<exists>t. strip_suffix s p = Some t)"
    by (auto simp: ends_with_def)
  then show ?thesis by (simp add: strip_suffix_Some_iff)
qed

lemma trim_start_split: "\<exists>w. s = w @ trim_start s \<and> (\<forall>c \<in> set w. is_whitespace c)"
  unfolding trim_start_def
  by (rule exI [of _ "takeWhile is_whitespace s"]) (auto dest: set_takeWhileD)

lemma trim_end_split: "\<exists>w. s = trim_end s @ w \<and> (\<forall>c \<in> set w. is_whitespace c)"
proof -
  have "s = rev (dropWhile is_whitespace (rev s)) @ rev (takeWhile is_whitespace (rev s))"
    by (metis rev_append rev_rev_ident takeWhile_dropWhile_id)
  then show ?thesis unfolding trim_end_def
    by (intro exI [of _ "rev (takeWhile is_whitespace (rev s))"]) (auto dest: set_takeWhileD)
qed

lemma trim_split:
  obtains w w' where "s = w @ trim s @ w'"
    and "\<forall>c \<in> set w. is_whitespace c" and "\<forall>c \<in> set w'. is_whitespace c"
proof -
  obtain w where w: "s = w @ trim_start s" "\<forall>c \<in> set w. is_whitespace c"
    using trim_start_split by blast
  obtain w' where w': "trim_start s = trim s @ w'" "\<forall>c \<in> set w'. is_whitespace c"
    using trim_end_split [of "trim_start s"] unfolding trim_def by blast
  from w w' that show ?thesis by metis
qed

lemma trim_Nil_iff [trim_simps]: "trim s = [] \<longleftrightarrow> (\<forall>c \<in> set s. is_whitespace c)"
proof
  assume "trim s = []"
  with trim_split [of s] show "\<forall>c \<in> set s. is_whitespace c"
    by (metis UnE append_Nil set_append)
next
  assume "\<forall>c \<in> set s. is_whitespace c"
  then have "trim_start s = []" by (simp add: trim_start_def)
  then show "trim s = []" by (simp add: trim_def trim_end_def)
qed

lemma length_trim_start [trim_simps]: "length (trim_start s) \<le> length s"
  by (simp add: trim_start_def length_dropWhile_le)

lemma length_trim_end [trim_simps]: "length (trim_end s) \<le> length s"
  unfolding trim_end_def by (metis length_dropWhile_le length_rev)

lemma length_trim [trim_simps]: "length (trim s) \<le> length s"
  unfolding trim_def using length_trim_end length_trim_start le_trans by blast

lemma hd_trim_start: "trim_start s \<noteq> [] \<Longrightarrow> \<not> is_whitespace (hd (trim_start s))"
  unfolding trim_start_def by (rule hd_dropWhile)

lemma trim_end_id: "s = [] \<or> \<not> is_whitespace (last s) \<Longrightarrow> trim_end s = s"
  by (cases s rule: rev_cases) (auto simp: trim_end_def)

lemma last_trim_end: "trim_end s \<noteq> [] \<Longrightarrow> \<not> is_whitespace (last (trim_end s))"
  unfolding trim_end_def by (metis hd_dropWhile last_rev rev_is_Nil_conv)

lemma hd_trim: "trim s \<noteq> [] \<Longrightarrow> \<not> is_whitespace (hd (trim s))"
  unfolding trim_def
  by (metis append_is_Nil_conv hd_append2 hd_trim_start trim_end_split)

lemma trim_id: "s = [] \<or> \<not> is_whitespace (hd s) \<and> \<not> is_whitespace (last s) \<Longrightarrow> trim s = s"
  by (cases s) (auto simp: trim_def trim_start_def trim_end_id)

lemma trim_idem [simp]: "trim (trim s) = trim s"
proof (cases "trim s = []")
  case False
  then have "\<not> is_whitespace (last (trim s))"
    unfolding trim_def by (rule last_trim_end)
  with False hd_trim show ?thesis by (blast intro: trim_id)
next
  case True
  then show ?thesis using trim_id [of "[]"] by simp
qed

text \<open>A character that is not white survives trimming where it stands.\<close>

lemma trim_covers:
  assumes "m = m1 @ c # m2" and "\<not> is_whitespace c"
  obtains w w' where "m = w @ trim m @ w'" and "length w \<le> length m1"
    and "length m1 < length w + length (trim m)"
proof -
  obtain w w' where m: "m = w @ trim m @ w'"
    and w: "\<forall>c \<in> set w. is_whitespace c" and w': "\<forall>c \<in> set w'. is_whitespace c"
    by (rule trim_split)
  have c: "m ! length m1 = c" and len: "length m1 < length m"
    using assms(1) by simp_all
  have "length w \<le> length m1"
  proof (rule ccontr)
    assume "\<not> length w \<le> length m1"
    then have lt: "length m1 < length w" by simp
    then have "m ! length m1 = w ! length m1"
      by (subst m) (simp add: nth_append)
    with lt w c assms(2) show False by (metis nth_mem)
  qed
  moreover have "length m1 < length w + length (trim m)"
  proof (rule ccontr)
    assume far: "\<not> length m1 < length w + length (trim m)"
    let ?i = "length m1 - length (w @ trim m)"
    have "?i < length w'"
      using far len m by (metis add.assoc add_diff_inverse_nat length_append nat_add_left_cancel_less)
    moreover have "m ! length m1 = w' ! ?i"
    proof -
      have "\<not> length m1 < length (w @ trim m)" using far by simp
      then have "((w @ trim m) @ w') ! length m1 = w' ! ?i" by (simp only: nth_append if_False)
      with m show ?thesis by simp
    qed
    ultimately show False using w' c assms(2) by (metis nth_mem)
  qed
  ultimately show ?thesis using m that by blast
qed

subsection \<open>Splitting, joining, replacing, searching\<close>

text \<open>\<open>split_whitespace\<close>: the maximal runs of non-white characters.\<close>

fun split_ws_from :: "rstr \<Rightarrow> rstr \<Rightarrow> rstr list" where
  "split_ws_from cur [] = (if cur = [] then [] else [cur])"
| "split_ws_from cur (c # s) =
     (if is_whitespace c then (if cur = [] then split_ws_from [] s else cur # split_ws_from [] s)
      else split_ws_from (cur @ [c]) s)"

definition split_whitespace :: "rstr \<Rightarrow> rstr list" where
  [rust_defs]: "split_whitespace s = split_ws_from [] s"

fun join :: "rstr \<Rightarrow> rstr list \<Rightarrow> rstr" where
  "join sep [] = []"
| "join sep [w] = w"
| "join sep (w # ws) = w @ sep @ join sep ws"

text \<open>\<open>split\<close> on a character predicate: always at least one piece.\<close>

fun split_on :: "(rchar \<Rightarrow> bool) \<Rightarrow> rstr \<Rightarrow> rstr list" where
  "split_on P [] = [[]]"
| "split_on P (c # s) =
     (if P c then [] # split_on P s
      else (case split_on P s of [] \<Rightarrow> [[c]] | w # ws \<Rightarrow> (c # w) # ws))"

text \<open>\<open>split_once\<close> on a character predicate.\<close>

fun split_once :: "(rchar \<Rightarrow> bool) \<Rightarrow> rstr \<Rightarrow> (rstr \<times> rstr) option" where
  "split_once P [] = None"
| "split_once P (c # s) =
     (if P c then Some ([], s) else map_option (\<lambda>(a, b). (c # a, b)) (split_once P s))"

text \<open>\<open>str::replace\<close> with a non-empty pattern, left to right without overlaps.\<close>

function replace_all :: "rstr \<Rightarrow> rstr \<Rightarrow> rstr \<Rightarrow> rstr" where
  "replace_all pat to [] = []"
| "replace_all pat to (c # s) =
     (if pat \<noteq> [] \<and> starts_with (c # s) pat
      then to @ replace_all pat to (drop (length pat) (c # s))
      else c # replace_all pat to s)"
  by pat_completeness auto
termination
  by (relation "measure (\<lambda>(pat, to, s). length s)") (auto simp: neq_Nil_conv)

text \<open>\<open>str::find\<close> of a substring: the byte offset of its first occurrence.\<close>

fun str_find :: "rstr \<Rightarrow> rstr \<Rightarrow> nat option" where
  "str_find [] pat = (if pat = [] then Some 0 else None)"
| "str_find (c # s) pat =
     (if starts_with (c # s) pat then Some 0
      else map_option (\<lambda>n. len_utf8 c + n) (str_find s pat))"

lemma str_find_Some: "str_find s pat = Some n \<Longrightarrow> \<exists>p q. s = p @ pat @ q \<and> n = blen p"
proof (induction s arbitrary: n)
  case Nil
  then show ?case by (auto split: if_splits)
next
  case (Cons c s)
  show ?case
  proof (cases "starts_with (c # s) pat")
    case True
    with Cons.prems show ?thesis by (auto simp: starts_with_iff intro: exI [of _ "[]"])
  next
    case False
    with Cons.prems obtain m where "str_find s pat = Some m" "n = len_utf8 c + m" by auto
    with Cons.IH obtain p q where "s = p @ pat @ q" "n = len_utf8 c + blen p" by blast
    then show ?thesis by (intro exI [of _ "c # p"] exI [of _ q]) simp
  qed
qed

text \<open>\<open>str::contains\<close> with a substring.\<close>

definition str_contains :: "rstr \<Rightarrow> rstr \<Rightarrow> bool" where
  [rust_defs]: "str_contains s pat = (str_find s pat \<noteq> None)"

text \<open>\<open>split_inclusive\<close> at newlines: the pieces keep their newline, and none is empty.\<close>

fun split_inclusive :: "rstr \<Rightarrow> rstr list" where
  "split_inclusive [] = []"
| "split_inclusive (c # s) =
     (if c = c_newline then [c] # split_inclusive s
      else (case split_inclusive s of
              [] \<Rightarrow> [[c]]
            | l # ls \<Rightarrow> (c # l) # ls))"

lemma split_inclusive_concat: "concat (split_inclusive s) = s"
  by (induction s) (auto split: list.splits)

lemma split_inclusive_nonempty: "[] \<notin> set (split_inclusive s)"
  by (induction s) (auto split: list.splits)

text \<open>\<open>str::lines\<close>: the lines without their ends, of one or two characters.\<close>

definition str_lines :: "rstr \<Rightarrow> rstr list" where
  "str_lines s = map (\<lambda>l. case strip_suffix l [c_newline] of
       None \<Rightarrow> l
     | Some l' \<Rightarrow> (case strip_suffix l' [c_return] of Some l'' \<Rightarrow> l'' | None \<Rightarrow> l')) (split_inclusive s)"

text \<open>\<open>Path::file_name\<close> of an absolute path: its last component, where empty and \<open>.\<close> components do
  not count, unless that component is \<open>..\<close>.\<close>

definition file_name :: "rstr \<Rightarrow> rstr option" where
  "file_name program =
     (let components = filter (\<lambda>c. c \<noteq> [] \<and> c \<noteq> [c_dot]) (split_on (\<lambda>c. c = c_slash) program)
      in if components = [] \<or> last components = [c_dot, c_dot] then None
         else Some (last components))"

subsection \<open>UTF-8 bytes\<close>

text \<open>\<open>str::as_bytes\<close>: the UTF-8 encoding.\<close>

definition utf8_encode :: "rchar \<Rightarrow> nat list" where
  [rust_defs]: "utf8_encode c =
     (if c < 0x80 then [c]
      else if c < 0x800 then [0xC0 + c div 64, 0x80 + c mod 64]
      else if c < 0x10000 then [0xE0 + c div 4096, 0x80 + c div 64 mod 64, 0x80 + c mod 64]
      else [0xF0 + c div 262144, 0x80 + c div 4096 mod 64, 0x80 + c div 64 mod 64, 0x80 + c mod 64])"

definition as_bytes :: "rstr \<Rightarrow> nat list" where
  "as_bytes s = concat (map utf8_encode s)"

lemma as_bytes_Nil [simp]: "as_bytes [] = []"
  and as_bytes_Cons [simp]: "as_bytes (c # s) = utf8_encode c @ as_bytes s"
  and as_bytes_append [simp]: "as_bytes (s @ t) = as_bytes s @ as_bytes t"
  by (simp_all add: as_bytes_def)

lemma length_utf8_encode [simp]: "length (utf8_encode c) = len_utf8 c"
  by (simp add: utf8_encode_def len_utf8_def)

lemma length_as_bytes [len_simps]: "length (as_bytes s) = blen s"
  by (induction s) auto

lemma utf8_encode_ascii: "c < 0x80 \<Longrightarrow> utf8_encode c = [c]"
  by (simp add: utf8_encode_def)

lemma utf8_encode_wide: "\<not> c < 0x80 \<Longrightarrow> b \<in> set (utf8_encode c) \<Longrightarrow> 0x80 \<le> b"
  by (auto simp: utf8_encode_def split: if_splits)

section \<open>Results\<close>

lemma map_sum_Inr: "map_sum f g x = Inr y \<longleftrightarrow> (\<exists>z. x = Inr z \<and> y = g z)"
  by (cases x) auto

lemma map_sum_Inl: "map_sum f g x = Inl y \<longleftrightarrow> (\<exists>z. x = Inl z \<and> y = f z)"
  by (cases x) auto

section \<open>Iterators over calls that may panic\<close>

text \<open>\<open>Iterator::any\<close>: stops at the first element that satisfies the predicate, or panics.\<close>

fun any_m :: "('a \<Rightarrow> bool option) \<Rightarrow> 'a list \<Rightarrow> bool option" where
  "any_m f [] = Some False"
| "any_m f (x # xs) = do { b \<leftarrow> f x; if b then Some True else any_m f xs }"

text \<open>\<open>Iterator::map\<close> collected into a vector.\<close>

fun map_m :: "('a \<Rightarrow> 'b option) \<Rightarrow> 'a list \<Rightarrow> 'b list option" where
  "map_m f [] = Some []"
| "map_m f (x # xs) = do { y \<leftarrow> f x; ys \<leftarrow> map_m f xs; Some (y # ys) }"

lemma any_m_Some:
  "any_m f xs = Some b \<Longrightarrow> (\<And>x. x \<in> set xs \<Longrightarrow> f x \<noteq> None) \<Longrightarrow> b \<longleftrightarrow> (\<exists>x \<in> set xs. f x = Some True)"
  by (induction xs) (auto split: Option.bind_splits if_splits)

lemma any_m_False: "any_m f xs = Some False \<Longrightarrow> x \<in> set xs \<Longrightarrow> f x = Some False"
  by (induction xs) (auto split: Option.bind_splits if_splits)

lemma any_m_True: "any_m f xs = Some True \<Longrightarrow> \<exists>x \<in> set xs. f x = Some True"
  by (induction xs) (auto split: Option.bind_splits if_splits)

lemma any_m_total: "(\<And>x. x \<in> set xs \<Longrightarrow> f x \<noteq> None) \<Longrightarrow> \<exists>b. any_m f xs = Some b"
  by (induction xs) (auto split: Option.bind_splits)

lemma any_m_eq: "(\<And>x. x \<in> set xs \<Longrightarrow> f x \<noteq> None) \<Longrightarrow> any_m f xs = Some (\<exists>x \<in> set xs. f x = Some True)"
proof (induction xs)
  case (Cons x xs)
  then obtain b where "f x = Some b" by force
  with Cons show ?case by auto
qed simp

lemma any_m_pure [simp]: "any_m (\<lambda>x. Some (P x)) xs = Some (\<exists>x \<in> set xs. P x)"
  by (induction xs) auto

lemma map_m_Some_iff: "map_m f xs = Some ys \<longleftrightarrow> list_all2 (\<lambda>x y. f x = Some y) xs ys"
  by (induction xs arbitrary: ys) (auto simp: list_all2_Cons1 bind_eq_Some_conv)

lemma map_m_in: "map_m f xs = Some ys \<Longrightarrow> y \<in> set ys \<Longrightarrow> \<exists>x \<in> set xs. f x = Some y"
  by (induction xs arbitrary: ys) (auto split: bind_splits)

lemma map_m_total: "(\<And>x. x \<in> set xs \<Longrightarrow> f x \<noteq> None) \<Longrightarrow> \<exists>ys. map_m f xs = Some ys"
  by (induction xs) (auto split: Option.bind_splits)

lemma map_m_pure [simp]: "map_m (\<lambda>x. Some (f x)) xs = Some (map f xs)"
  by (induction xs) auto

section \<open>Reachable states and invariants\<close>

text \<open>
  The components with state are transition systems; the states a run can reach, and the contract
  every inductive invariant meets, are stated once here and interpreted by each of them.
\<close>

inductive reachable :: "('s \<Rightarrow> bool) \<Rightarrow> ('s \<Rightarrow> 's \<Rightarrow> bool) \<Rightarrow> 's \<Rightarrow> bool"
  for start step where
  reach_start: "start s \<Longrightarrow> reachable start step s"
| reach_step: "reachable start step s \<Longrightarrow> step s t \<Longrightarrow> reachable start step t"

locale inductive_invariant =
  fixes start :: "'s \<Rightarrow> bool"
    and step :: "'s \<Rightarrow> 's \<Rightarrow> bool"
    and holds :: "'s \<Rightarrow> bool"
  assumes holds_start: "start s \<Longrightarrow> holds s"
    and holds_step: "holds s \<Longrightarrow> step s t \<Longrightarrow> holds t"
begin

lemma holds_reachable: "reachable start step s \<Longrightarrow> holds s"
  by (induction rule: reachable.induct) (auto intro: holds_start holds_step)

lemma holds_steps: "step\<^sup>*\<^sup>* s t \<Longrightarrow> holds s \<Longrightarrow> holds t"
  by (induction rule: rtranclp_induct) (auto intro: holds_step)

end

end
