(* ===== verification/Decimal.thy ===== *)
theory Decimal
  imports Rust_Prelude
begin

text \<open>
  Unsigned decimal numbers as the standard library prints and parses them: \<open>format!\<close> of a
  \<open>usize\<close>, and \<open>str::parse::<usize>\<close>, which accepts one leading plus sign and rejects the empty
  string, any other character and numbers of more than 64 bits.
\<close>

fun show_nat :: "nat \<Rightarrow> rstr" where
  "show_nat n = (if n < 10 then [48 + n] else show_nat (n div 10) @ [48 + n mod 10])"

declare show_nat.simps [simp del]

definition digits_value :: "rstr \<Rightarrow> nat" where
  "digits_value s = foldl (\<lambda>a c. 10 * a + (c - 48)) 0 s"

definition parse_usize :: "rstr \<Rightarrow> nat option" where
  "parse_usize s =
     (let digits = (case s of c # cs \<Rightarrow> if c = c_plus then cs else s | [] \<Rightarrow> s)
      in if digits = [] \<or> \<not> list_all is_ascii_digit digits \<or> digits_value digits \<ge> 2 ^ 64 then None
         else Some (digits_value digits))"

lemma digits_value_append [simp]: "digits_value (s @ [c]) = 10 * digits_value s + (c - 48)"
  by (simp add: digits_value_def)

lemma show_nat_digits: "list_all is_ascii_digit (show_nat n) \<and> show_nat n \<noteq> []"
proof (induction n rule: show_nat.induct)
  case (1 n)
  then show ?case
    by (cases "n < 10") (simp_all add: show_nat.simps [of n] is_ascii_digit_def)
qed

lemma digits_value_show [simp]: "digits_value (show_nat n) = n"
proof (induction n rule: show_nat.induct)
  case (1 n)
  then show ?case
    by (cases "n < 10") (simp_all add: show_nat.simps [of n], simp add: digits_value_def)
qed

lemma show_nat_no: "\<not> is_ascii_digit c \<Longrightarrow> c \<notin> set (show_nat n)"
  using show_nat_digits [of n] by (auto simp: list_all_iff)

lemma length_show_mono: "m \<le> n \<Longrightarrow> length (show_nat m) \<le> length (show_nat n)"
proof (induction n arbitrary: m rule: show_nat.induct)
  case (1 n)
  show ?case
  proof (cases "m < 10")
    case True
    then show ?thesis using show_nat_digits [of n] by (cases "show_nat n") (auto simp: show_nat.simps [of m])
  next
    case False
    with "1.prems" have "\<not> n < 10" "m div 10 \<le> n div 10" by (auto intro: div_le_mono)
    with "1.IH" False show ?thesis by (simp add: show_nat.simps [of m] show_nat.simps [of n])
  qed
qed

lemma length_show: "n < 10 ^ Suc k \<Longrightarrow> length (show_nat n) \<le> Suc k"
proof (induction k arbitrary: n)
  case (Suc k)
  then have "n div 10 < 10 ^ Suc k" by (simp add: div_less_iff_less_mult mult.commute)
  from Suc.IH [OF this] show ?case by (simp add: show_nat.simps [of n])
qed (simp add: show_nat.simps)

lemma length_show_64: "n < 2 ^ 64 \<Longrightarrow> length (show_nat n) \<le> 20"
  using length_show [of n 19] by simp

lemma blen_show: "blen (show_nat n) = length (show_nat n)"
  using show_nat_digits [of n] by (intro blen_ascii) (auto simp: list_all_iff is_ascii_digit_def)

lemma parse_show: "n < 2 ^ 64 \<Longrightarrow> parse_usize (show_nat n) = Some n"
proof -
  assume n: "n < 2 ^ 64"
  obtain c cs where s: "show_nat n = c # cs" using show_nat_digits [of n] by (cases "show_nat n") auto
  then have "c \<noteq> c_plus" using show_nat_digits [of n] by (auto simp: is_ascii_digit_def)
  then show ?thesis using n show_nat_digits [of n] digits_value_show [of n] s
    by (simp add: parse_usize_def)
qed

lemma parse_show_Some: "parse_usize (show_nat n) = Some m \<Longrightarrow> m = n"
proof -
  assume a: "parse_usize (show_nat n) = Some m"
  obtain c cs where s: "show_nat n = c # cs" using show_nat_digits [of n] by (cases "show_nat n") auto
  then have "c \<noteq> c_plus" using show_nat_digits [of n] by (auto simp: is_ascii_digit_def)
  then show ?thesis using a digits_value_show [of n] s
    by (simp add: parse_usize_def split: if_splits)
qed

end
