(* ===== verification/Memory_Circuit.thy ===== *)
theory Memory_Circuit
  imports Decimal "HOL-Library.Multiset"
begin

text \<open>
  The circuit breaker in front of the memory engine (\<open>crates/hzr-memory/src/circuit.rs\<close>) and the
  client calls that use it (\<open>client.rs\<close>, \<open>http_transport.rs\<close>, \<open>error.rs\<close>, \<open>config.rs\<close>).

  The breaker's state sits behind a mutex, so each of its operations is one atomic step. The
  client calls take a permit, talk to the engine and report the outcome, and calls interleave:
  \<open>circuit_step\<close> is that interleaving, with the permits in flight as a multiset. Engine replies and
  the command-line fallback are not under the repository's control and are arguments.
\<close>

section \<open>The breaker\<close>

datatype circuit_status = StatusClosed | StatusOpen | StatusHalfOpen

record circuit_snapshot =
  status :: circuit_status
  consecutive_failures :: u32
  retry_after :: "duration option"

datatype circuit_state =
    Closed u32 u64
  | Open instant u64
  | HalfOpen u64

datatype circuit_permit = CircuitPermit (generation: u64)

record circuit_breaker =
  threshold :: u32
  reset_timeout :: duration
  breaker_state :: circuit_state

text \<open>The errors of the memory client; errors of other libraries are carried as their text.\<close>

datatype (plugins only: code size) memory_error =
    InvalidConfig rstr
  | DataDirectoryUnavailable
  | MemoryIo rstr rstr rstr
  | BinaryUnavailable rstr rstr
  | VersionProbeTimeout duration
  | VersionProbeFailed int rstr
  | InvalidVersionOutput rstr
  | VersionMismatch rstr rstr
  | ChecksumMismatch rstr rstr
  | ChecksumTask rstr
  | SupervisorLockHeld rstr
  | ProcessSpawn rstr
  | ProcessExited int
  | StartupTimeout rstr duration
  | ProcessControl rstr
  | NotProcessOwner
  | OwnershipUncertain rstr
  | HttpTimeout rstr duration
  | HttpRequest rstr rstr
  | HttpStatus rstr nat rstr
  | Protocol rstr rstr
  | UnexpectedResponse rstr rstr
  | ResponseTooLarge rstr nat
  | CircuitOpen duration
  | CliTimeout rstr duration
  | CliFailed rstr int rstr
  | InvalidRequest rstr
  | Database rstr
  | SnapshotUnavailable
  | McpUnavailable
  | McpTimeout rstr duration
  | McpIo rstr rstr
  | McpProtocol rstr rstr
  | McpRemote rstr int rstr
  | McpTool rstr rstr
  | UnsupportedTransport rstr rstr

definition circuit_new :: "u32 \<Rightarrow> duration \<Rightarrow> circuit_breaker" where
  "circuit_new th timeout = \<lparr>threshold = th, reset_timeout = timeout, breaker_state = Closed 0 0\<rparr>"

text \<open>\<open>now\<close> is read before the lock is taken, so it may lag behind the clock.\<close>

definition before_request ::
  "instant \<Rightarrow> circuit_breaker \<Rightarrow> (memory_error + circuit_permit) \<times> circuit_breaker" where
  "before_request now cb =
     (case breaker_state cb of
        Closed _ g \<Rightarrow> (Inr (CircuitPermit g), cb)
      | Open until g \<Rightarrow>
          if until \<le> now then (Inr (CircuitPermit g), cb\<lparr>breaker_state := HalfOpen g\<rparr>)
          else (Inl (CircuitOpen (saturating_duration_since until now)), cb)
      | HalfOpen _ \<Rightarrow> (Inl (CircuitOpen (reset_timeout cb)), cb))"

definition record_success :: "circuit_permit \<Rightarrow> circuit_breaker \<Rightarrow> circuit_breaker" where
  "record_success p cb =
     (case breaker_state cb of
        Closed f g \<Rightarrow> if g = generation p then cb\<lparr>breaker_state := Closed 0 g\<rparr> else cb
      | HalfOpen g \<Rightarrow>
          if g = generation p then cb\<lparr>breaker_state := Closed 0 (saturating_add g 1)\<rparr> else cb
      | Open _ _ \<Rightarrow> cb)"

text \<open>\<open>Instant::now()\<close> is read under the lock here.\<close>

definition record_failure :: "instant \<Rightarrow> circuit_permit \<Rightarrow> circuit_breaker \<Rightarrow> circuit_breaker" where
  "record_failure now p cb =
     (case breaker_state cb of
        Closed f g \<Rightarrow>
          if g = generation p then
            (let f' = saturating_add f 1
             in if threshold cb \<le> f'
                then cb\<lparr>breaker_state := Open (now + reset_timeout cb) (saturating_add g 1)\<rparr>
                else cb\<lparr>breaker_state := Closed f' g\<rparr>)
          else cb
      | HalfOpen g \<Rightarrow>
          if g = generation p
          then cb\<lparr>breaker_state := Open (now + reset_timeout cb) (saturating_add g 1)\<rparr>
          else cb
      | Open _ _ \<Rightarrow> cb)"

definition circuit_snapshot_of :: "instant \<Rightarrow> circuit_breaker \<Rightarrow> circuit_snapshot" where
  "circuit_snapshot_of now cb =
     (case breaker_state cb of
        Closed f _ \<Rightarrow> \<lparr>status = StatusClosed, consecutive_failures = f, retry_after = None\<rparr>
      | Open until _ \<Rightarrow>
          \<lparr>status = StatusOpen, consecutive_failures = threshold cb,
           retry_after = Some (saturating_duration_since until now)\<rparr>
      | HalfOpen _ \<Rightarrow>
          \<lparr>status = StatusHalfOpen, consecutive_failures = threshold cb, retry_after = None\<rparr>)"

section \<open>The client calls\<close>

datatype ip_addr = V4 u8 u8 u8 u8 | V6 "128 word"

text \<open>\<open>IpAddr::is_loopback\<close>: 127.0.0.0/8, or ::1.\<close>

fun is_loopback :: "ip_addr \<Rightarrow> bool" where
  "is_loopback (V4 a _ _ _) = (a = 127)"
| "is_loopback (V6 a) = (a = 1)"

text \<open>How an address is printed: four numbers, or eight hexadecimal groups with the first longest run of at least
  two zero groups left out, an IPv4-mapped address with its last four numbers.\<close>

fun show_hex :: "nat \<Rightarrow> rstr" where
  "show_hex n = (let d = n mod 16; c = (if d < 10 then 48 + d else 87 + d)
     in if n < 16 then [c] else show_hex (n div 16) @ [c])"

declare show_hex.simps [simp del]

definition show_v4 :: "nat list \<Rightarrow> rstr" where
  "show_v4 bs = join (lit ''.'') (map show_nat bs)"

definition segments_of :: "128 word \<Rightarrow> nat list" where
  "segments_of a = map (\<lambda>i. unat a div 2 ^ (16 * (7 - i)) mod 2 ^ 16) [0..<8]"

fun longest_zeros :: "nat \<Rightarrow> nat list \<Rightarrow> nat \<times> nat \<Rightarrow> nat \<times> nat \<Rightarrow> nat \<times> nat" where
  "longest_zeros i [] longest current = longest"
| "longest_zeros i (s # segments) longest current =
     (if s = 0
      then (let current' = (if snd current = 0 then i else fst current, snd current + 1)
            in longest_zeros (Suc i) segments (if snd longest < snd current' then current' else longest) current')
      else longest_zeros (Suc i) segments longest (0, 0))"

definition show_v6 :: "nat list \<Rightarrow> rstr" where
  "show_v6 segments =
     (let groups = (\<lambda>ss. join (lit '':'') (map show_hex ss)); (start, len) = longest_zeros 0 segments (0, 0) (0, 0)
      in if take 6 segments = [0, 0, 0, 0, 0, 0xFFFF]
         then lit ''::ffff:'' @ show_v4 (concat (map (\<lambda>s. [s div 256, s mod 256]) (drop 6 segments)))
         else if 1 < len then groups (take start segments) @ lit ''::'' @ groups (drop (start + len) segments)
         else groups segments)"

fun show_ip :: "ip_addr \<Rightarrow> rstr" where
  "show_ip (V4 a b c d) = show_v4 [unat a, unat b, unat c, unat d]"
| "show_ip (V6 a) = show_v6 (segments_of a)"

lemma show_ip_samples:
  "show_ip (V4 10 0 0 200) = lit ''10.0.0.200''"
  "show_ip (V6 0) = lit ''::''"
  "show_ip (V6 0x20010DB8000000000001000000000001) = lit ''2001:db8::1:0:0:1''"
  "show_ip (V6 0x00000000000000000000FFFF0A000001) = lit ''::ffff:10.0.0.1''"
  by code_simp+

datatype icm_transport = StdioMcp | Http

record icm_config =
  executable :: rstr
  data_root :: rstr
  bind_ip :: ip_addr
  bind_port :: "16 word"
  expected_executable_sha256 :: "rstr option"
  startup_timeout :: duration
  request_timeout :: duration
  cli_timeout :: duration
  shutdown_timeout :: duration
  circuit_failure_threshold :: u32
  circuit_reset_timeout :: duration
  cli_fallback :: bool
  embeddings :: bool
  transport :: icm_transport

abbreviation seconds :: "nat \<Rightarrow> duration" where
  "seconds n \<equiv> n * 1000000000"

definition from_data_root :: "rstr \<Rightarrow> rstr \<Rightarrow> icm_config" where
  "from_data_root exe root =
     \<lparr>executable = exe, data_root = root, bind_ip = V4 127 0 0 1, bind_port = 11435,
      expected_executable_sha256 = None, startup_timeout = seconds 120,
      request_timeout = seconds 10, cli_timeout = seconds 30, shutdown_timeout = seconds 5,
      circuit_failure_threshold = 3, circuit_reset_timeout = seconds 20, cli_fallback = True,
      embeddings = False, transport = StdioMcp\<rparr>"

text \<open>The first zero timeout, in the order the loop visits them.\<close>

fun first_zero_timeout :: "(rstr \<times> duration) list \<Rightarrow> rstr option" where
  "first_zero_timeout [] = None"
| "first_zero_timeout ((name, d) # rest) = (if d = 0 then Some name else first_zero_timeout rest)"

definition icm_validate :: "icm_config \<Rightarrow> memory_error + unit" where
  "icm_validate c =
     (if executable c = [] then Inl (InvalidConfig (lit ''ICM executable must not be empty''))
      else if data_root c = [] then Inl (InvalidConfig (lit ''HZR data root must not be empty''))
      else if \<not> is_loopback (bind_ip c) then Inl (InvalidConfig (lit ''ICM must bind to loopback, got '' @ show_ip (bind_ip c)))
      else if bind_port c = 0
        then Inl (InvalidConfig (lit ''ICM bind port must be fixed and non-zero''))
      else case first_zero_timeout
          [(lit ''startup_timeout'', startup_timeout c), (lit ''request_timeout'', request_timeout c),
           (lit ''cli_timeout'', cli_timeout c), (lit ''shutdown_timeout'', shutdown_timeout c),
           (lit ''circuit_reset_timeout'', circuit_reset_timeout c)] of
        Some name \<Rightarrow> Inl (InvalidConfig (name @ lit '' must be non-zero''))
      | None \<Rightarrow>
          if circuit_failure_threshold c = 0
          then Inl (InvalidConfig (lit ''circuit_failure_threshold must be non-zero''))
          else case expected_executable_sha256 c of
            Some checksum \<Rightarrow>
              if blen checksum \<noteq> 64 \<or> \<not> list_all is_ascii_hexdigit (as_bytes checksum)
              then Inl (InvalidConfig
                (lit ''expected_executable_sha256 must contain 64 hexadecimal characters''))
              else Inr ()
          | None \<Rightarrow> Inr ())"

datatype attempt_error =
    Connect rstr
  | Timeout
  | Request rstr
  | Status nat rstr
  | Decode rstr
  | TooLarge nat

text \<open>\<open>StatusCode::is_server_error\<close> is 500 to 599.\<close>

fun affects_availability :: "attempt_error \<Rightarrow> bool" where
  "affects_availability (Status code _) = (500 \<le> code \<and> code < 600)"
| "affects_availability _ = True"

definition safe_recall_fallback :: "attempt_error \<Rightarrow> bool" where
  "safe_recall_fallback e = affects_availability e"

fun safe_store_fallback :: "attempt_error \<Rightarrow> bool" where
  "safe_store_fallback (Connect _) = True"
| "safe_store_fallback _ = False"

fun into_public :: "rstr \<Rightarrow> duration \<Rightarrow> attempt_error \<Rightarrow> memory_error" where
  "into_public op t (Connect src) = HttpRequest op src"
| "into_public op t (Request src) = HttpRequest op src"
| "into_public op t Timeout = HttpTimeout op t"
| "into_public op t (Status code body) = HttpStatus op code body"
| "into_public op t (Decode src) = Protocol op src"
| "into_public op t (TooLarge limit) = ResponseTooLarge op limit"

definition mcp_availability_failure :: "memory_error \<Rightarrow> bool" where
  "mcp_availability_failure e =
     (case e of
        McpUnavailable \<Rightarrow> True
      | McpTimeout _ _ \<Rightarrow> True
      | McpIo _ _ \<Rightarrow> True
      | McpProtocol _ _ \<Rightarrow> True
      | _ \<Rightarrow> False)"

datatype importance = Critical | High | Medium | Low

record recall_request =
  recall_query :: rstr
  recall_topic :: "rstr option"
  recall_limit :: nat
  recall_keyword :: "rstr option"
  recall_project :: "rstr option"

definition new_recall_request :: "rstr \<Rightarrow> recall_request" where
  "new_recall_request query =
     \<lparr>recall_query = query, recall_topic = None, recall_limit = 5, recall_keyword = None,
      recall_project = None\<rparr>"

record store_request =
  store_topic :: rstr
  store_content :: rstr
  store_importance :: importance
  store_keywords :: "rstr list"
  store_raw :: "rstr option"

definition new_store_request :: "rstr \<Rightarrow> rstr \<Rightarrow> store_request" where
  "new_store_request topic content =
     \<lparr>store_topic = topic, store_content = content, store_importance = Medium, store_keywords = [],
      store_raw = None\<rparr>"

definition validate_recall :: "recall_request \<Rightarrow> memory_error + unit" where
  "validate_recall r =
     (if trim (recall_query r) = [] then Inl (InvalidRequest (lit ''recall query must not be empty''))
      else if \<not> (1 \<le> recall_limit r \<and> recall_limit r \<le> 100)
        then Inl (InvalidRequest (lit ''recall limit must be between 1 and 100''))
      else Inr ())"

definition validate_store :: "store_request \<Rightarrow> memory_error + unit" where
  "validate_store r =
     (if trim (store_topic r) = [] then Inl (InvalidRequest (lit ''store topic must not be empty''))
      else if trim (store_content r) = []
        then Inl (InvalidRequest (lit ''store content must not be empty''))
      else Inr ())"

text \<open>
  What follows the engine's reply in \<open>recall\<close>: report to the breaker, then answer, fall back to the
  command line (\<open>cli\<close>, its result) or return the error.
\<close>

definition recall_complete ::
  "icm_config \<Rightarrow> instant \<Rightarrow> circuit_permit \<Rightarrow> attempt_error + 'r list \<Rightarrow> memory_error + 'r list \<Rightarrow>
   circuit_breaker \<Rightarrow> (memory_error + 'r list) \<times> circuit_breaker" where
  "recall_complete cfg now permit reply cli cb =
     (case reply of
        Inr records \<Rightarrow> (Inr records, record_success permit cb)
      | Inl e \<Rightarrow>
          (let cb' = if affects_availability e then record_failure now permit cb else cb
           in if safe_recall_fallback e \<and> cli_fallback cfg then (cli, cb')
              else (Inl (into_public (lit ''recall'') (request_timeout cfg) e), cb')))"

definition recall ::
  "icm_config \<Rightarrow> instant \<Rightarrow> instant \<Rightarrow> recall_request \<Rightarrow> attempt_error + 'r list \<Rightarrow>
   memory_error + 'r list \<Rightarrow> circuit_breaker \<Rightarrow> (memory_error + 'r list) \<times> circuit_breaker" where
  "recall cfg asked answered req reply cli cb =
     (case validate_recall req of
        Inl e \<Rightarrow> (Inl e, cb)
      | Inr _ \<Rightarrow>
          if transport cfg = StdioMcp then (cli, cb)
          else case before_request asked cb of
            (Inl e, cb') \<Rightarrow> (if cli_fallback cfg then cli else Inl e, cb')
          | (Inr permit, cb') \<Rightarrow> recall_complete cfg answered permit reply cli cb')"

datatype memory_transport = TransportHttp | TransportStdioMcp | TransportCli

record 'r store_receipt =
  receipt_transport :: memory_transport
  receipt_memory :: "'r option"

definition store_mcp ::
  "icm_config \<Rightarrow> instant \<Rightarrow> instant \<Rightarrow> memory_error + unit \<Rightarrow> memory_error + 'r store_receipt \<Rightarrow>
   circuit_breaker \<Rightarrow> (memory_error + 'r store_receipt) \<times> circuit_breaker" where
  "store_mcp cfg asked answered reply cli cb =
     (case before_request asked cb of
        (Inl e, cb') \<Rightarrow> (if cli_fallback cfg then cli else Inl e, cb')
      | (Inr permit, cb') \<Rightarrow>
          (case reply of
             Inr _ \<Rightarrow>
               (Inr \<lparr>receipt_transport = TransportStdioMcp, receipt_memory = None\<rparr>,
                record_success permit cb')
           | Inl e \<Rightarrow>
               (let cb'' = if mcp_availability_failure e then record_failure answered permit cb' else cb'
                in if e = McpUnavailable \<and> cli_fallback cfg then (cli, cb'') else (Inl e, cb''))))"

definition store ::
  "(nat \<Rightarrow> rstr) \<Rightarrow> icm_config \<Rightarrow> instant \<Rightarrow> instant \<Rightarrow> store_request \<Rightarrow> memory_error + unit \<Rightarrow>
   attempt_error + 'r list \<Rightarrow> memory_error + 'r store_receipt \<Rightarrow>
   circuit_breaker \<Rightarrow> (memory_error + 'r store_receipt) \<times> circuit_breaker" where
  "store received cfg asked answered req mcp_reply reply cli cb =
     (case validate_store req of
        Inl e \<Rightarrow> (Inl e, cb)
      | Inr _ \<Rightarrow>
          if transport cfg = StdioMcp then store_mcp cfg asked answered mcp_reply cli cb
          else case before_request asked cb of
            (Inl e, cb') \<Rightarrow> (if cli_fallback cfg then cli else Inl e, cb')
          | (Inr permit, cb') \<Rightarrow>
              (case reply of
                 Inr records \<Rightarrow>
                   (if length records \<noteq> 1
                    then Inl (UnexpectedResponse (lit ''store'') (received (length records)))
                    else Inr \<lparr>receipt_transport = TransportHttp, receipt_memory = Some (last records)\<rparr>,
                    record_success permit cb')
               | Inl e \<Rightarrow>
                   (let cb'' = if affects_availability e then record_failure answered permit cb' else cb'
                    in if safe_store_fallback e \<and> cli_fallback cfg then (cli, cb'')
                       else (Inl (into_public (lit ''store'') (request_timeout cfg) e), cb''))))"

section \<open>Concurrent calls\<close>

record circuit_sys =
  breaker :: circuit_breaker
  clock :: instant
  inflight :: "circuit_permit multiset"

text \<open>
  One step of the calls running against a breaker. A call that ended without reporting (an error
  that does not affect availability, or a dropped future) is \<open>abandon\<close>.
\<close>

inductive circuit_step :: "circuit_sys \<Rightarrow> circuit_sys \<Rightarrow> bool" where
  tick: "clock s \<le> now \<Longrightarrow> circuit_step s (s\<lparr>clock := now\<rparr>)"
| admit: "now \<le> clock s \<Longrightarrow> before_request now (breaker s) = (Inr p, cb) \<Longrightarrow>
     circuit_step s (s\<lparr>breaker := cb, inflight := add_mset p (inflight s)\<rparr>)"
| refuse: "now \<le> clock s \<Longrightarrow> before_request now (breaker s) = (Inl e, cb) \<Longrightarrow>
     circuit_step s (s\<lparr>breaker := cb\<rparr>)"
| succeed: "p \<in># inflight s \<Longrightarrow>
     circuit_step s (s\<lparr>breaker := record_success p (breaker s), inflight := inflight s - {#p#}\<rparr>)"
| fail: "p \<in># inflight s \<Longrightarrow>
     circuit_step s (s\<lparr>breaker := record_failure (clock s) p (breaker s),
                       inflight := inflight s - {#p#}\<rparr>)"
| abandon: "p \<in># inflight s \<Longrightarrow> circuit_step s (s\<lparr>inflight := inflight s - {#p#}\<rparr>)"

definition circuit_start :: "circuit_sys \<Rightarrow> bool" where
  "circuit_start s \<longleftrightarrow> (\<exists>th timeout. breaker s = circuit_new th timeout) \<and> inflight s = {#}"

fun state_generation :: "circuit_state \<Rightarrow> u64" where
  "state_generation (Closed _ g) = g"
| "state_generation (Open _ g) = g"
| "state_generation (HalfOpen g) = g"

section \<open>Facts on single operations\<close>

lemma circuit_new_sel [simp]:
  "threshold (circuit_new th timeout) = th" "reset_timeout (circuit_new th timeout) = timeout"
  "breaker_state (circuit_new th timeout) = Closed 0 0"
  by (simp_all add: circuit_new_def)

lemmas breaker_defs = before_request_def record_success_def record_failure_def

lemma stale_permit_ignored:
  assumes "generation p \<noteq> state_generation (breaker_state cb)"
  shows "record_success p cb = cb" and "record_failure now p cb = cb"
  using assms by (auto simp: breaker_defs split: circuit_state.splits)

lemma breaker_parameters [simp]:
  "threshold (record_success p cb) = threshold cb"
  "threshold (record_failure now p cb) = threshold cb"
  "threshold (snd (before_request now cb)) = threshold cb"
  "reset_timeout (record_success p cb) = reset_timeout cb"
  "reset_timeout (record_failure now p cb) = reset_timeout cb"
  "reset_timeout (snd (before_request now cb)) = reset_timeout cb"
  by (auto simp: breaker_defs Let_def split: circuit_state.splits)

lemma before_request_generation:
  "before_request now cb = (r, cb') \<Longrightarrow>
   state_generation (breaker_state cb') = state_generation (breaker_state cb)"
  by (auto simp: before_request_def split: circuit_state.splits if_splits)

lemma before_request_permit:
  "before_request now cb = (Inr p, cb') \<Longrightarrow> generation p = state_generation (breaker_state cb)"
  by (auto simp: before_request_def split: circuit_state.splits if_splits)

lemma before_request_refused_unchanged: "before_request now cb = (Inl e, cb') \<Longrightarrow> cb' = cb"
  by (auto simp: before_request_def split: circuit_state.splits if_splits)

lemma before_request_HalfOpen:
  "breaker_state cb = HalfOpen g \<Longrightarrow>
   before_request now cb = (Inl (CircuitOpen (reset_timeout cb)), cb)"
  by (simp add: before_request_def)

lemma record_generation_le:
  "state_generation (breaker_state cb) \<le> state_generation (breaker_state (record_success p cb))"
  "state_generation (breaker_state cb) \<le> state_generation (breaker_state (record_failure now p cb))"
  by (auto simp: breaker_defs Let_def saturating_add_mono split: circuit_state.splits)

text \<open>The generation only grows, so a run that has not reached its last value never has.\<close>

lemma circuit_step_generation_le:
  "circuit_step s t \<Longrightarrow>
   state_generation (breaker_state (breaker s)) \<le> state_generation (breaker_state (breaker t))"
  by (induction rule: circuit_step.induct)
    (auto simp: record_generation_le dest: before_request_generation)

section \<open>The invariant of concurrent calls\<close>

text \<open>
  Up to the last generation: no permit is younger than the breaker, none is current while it is
  open, at most one (the probe) is current while it is half-open, and a closed breaker has counted
  fewer failures than its threshold.
\<close>

abbreviation current_permits :: "circuit_sys \<Rightarrow> circuit_permit multiset" where
  "current_permits s \<equiv>
     filter_mset (\<lambda>p. generation p = state_generation (breaker_state (breaker s))) (inflight s)"

definition permits_wf :: "circuit_sys \<Rightarrow> bool" where
  "permits_wf s \<longleftrightarrow>
     (\<forall>p \<in># inflight s. generation p \<le> state_generation (breaker_state (breaker s))) \<and>
     (case breaker_state (breaker s) of
        Closed f _ \<Rightarrow> f = 0 \<or> f < threshold (breaker s)
      | Open _ _ \<Rightarrow> current_permits s = {#}
      | HalfOpen _ \<Rightarrow> size (current_permits s) \<le> 1)"

definition circuit_inv :: "circuit_sys \<Rightarrow> bool" where
  "circuit_inv s \<longleftrightarrow> state_generation (breaker_state (breaker s)) = - 1 \<or> permits_wf s"

lemma filter_none_above:
  assumes "\<forall>p \<in># M. generation p \<le> g" and "g < g'"
  shows "filter_mset (\<lambda>p. generation p = g') M = {#}"
  using assms by (fastforce simp: filter_mset_eq_mempty_iff)

lemma permits_wf_admit:
  assumes "permits_wf s" and "before_request now (breaker s) = (Inr p, cb)"
  shows "permits_wf (s\<lparr>breaker := cb, inflight := add_mset p (inflight s)\<rparr>)"
  using assms
  by (auto simp: permits_wf_def before_request_def split: circuit_state.splits if_splits)

lemma permits_wf_clock [simp]: "permits_wf (s\<lparr>clock := now\<rparr>) = permits_wf s"
  by (simp add: permits_wf_def split: circuit_state.splits)

lemma permits_wf_shrink:
  assumes "permits_wf s"
  shows "permits_wf (s\<lparr>inflight := inflight s - {#p#}\<rparr>)"
proof -
  let ?cur = "\<lambda>M. filter_mset (\<lambda>q. generation q = state_generation (breaker_state (breaker s))) M"
  have "?cur (inflight s - {#p#}) \<subseteq># ?cur (inflight s)"
    by (intro multiset_filter_mono diff_subset_eq_self)
  then have "size (?cur (inflight s - {#p#})) \<le> size (?cur (inflight s))"
    and "?cur (inflight s) = {#} \<Longrightarrow> ?cur (inflight s - {#p#}) = {#}"
    by (rule size_mset_mono, metis subset_mset.le_zero_eq)
  with assms show ?thesis
    by (cases "breaker_state (breaker s)")
      (auto simp: permits_wf_def dest: in_diffD simp del: filter_diff_mset)
qed

lemma permits_wf_generation_step:
  assumes wf: "permits_wf s" and gen: "state_generation (breaker_state (breaker s)) < - 1"
    and st: "breaker_state cb = Open until (saturating_add g 1) \<or>
             breaker_state cb = Closed 0 (saturating_add g 1)"
    and g: "g = state_generation (breaker_state (breaker s))"
  shows "permits_wf (s\<lparr>breaker := cb, inflight := inflight s - {#p#}\<rparr>)"
proof -
  have lt: "g < saturating_add g 1"
    using gen g by (simp add: saturating_add_one_gt)
  have le: "\<forall>q \<in># inflight s - {#p#}. generation q \<le> g"
    using wf g by (auto simp: permits_wf_def dest: in_diffD)
  with lt have "\<forall>q \<in># inflight s - {#p#}. generation q \<le> saturating_add g 1"
    by (meson le_less order_trans)
  with st filter_none_above [OF le lt] show ?thesis
    by (auto simp: permits_wf_def)
qed

lemma permits_wf_succeed:
  assumes wf: "permits_wf s" and gen: "state_generation (breaker_state (breaker s)) < - 1"
  shows "permits_wf (s\<lparr>breaker := record_success p (breaker s), inflight := inflight s - {#p#}\<rparr>)"
proof (cases "generation p = state_generation (breaker_state (breaker s))")
  case False
  then show ?thesis using permits_wf_shrink [OF wf, of p] by (simp add: stale_permit_ignored)
next
  case True
  show ?thesis
  proof (cases "breaker_state (breaker s)")
    case (HalfOpen g)
    with True wf gen show ?thesis
      by (intro permits_wf_generation_step [where g = g and until = 0])
        (auto simp: record_success_def)
  qed (use True wf permits_wf_shrink [OF wf, of p] in
      \<open>auto simp: record_success_def permits_wf_def dest: in_diffD\<close>)
qed

lemma permits_wf_fail:
  assumes wf: "permits_wf s" and gen: "state_generation (breaker_state (breaker s)) < - 1"
  shows "permits_wf (s\<lparr>breaker := record_failure now p (breaker s), inflight := inflight s - {#p#}\<rparr>)"
proof (cases "generation p = state_generation (breaker_state (breaker s))")
  case False
  then show ?thesis using permits_wf_shrink [OF wf, of p] by (simp add: stale_permit_ignored)
next
  case True
  show ?thesis
  proof (cases "breaker_state (breaker s)")
    case (HalfOpen g)
    with True wf gen show ?thesis
      by (intro permits_wf_generation_step [where g = g and until = "now + reset_timeout (breaker s)"])
        (auto simp: record_failure_def)
  next
    case (Closed f g)
    show ?thesis
    proof (cases "threshold (breaker s) \<le> saturating_add f 1")
      case t: True
      with Closed True wf gen show ?thesis
        by (intro permits_wf_generation_step [where g = g and until = "now + reset_timeout (breaker s)"])
          (auto simp: record_failure_def)
    next
      case f: False
      with Closed True wf show ?thesis
        by (auto simp: record_failure_def permits_wf_def dest: in_diffD)
    qed
  qed (use True wf permits_wf_shrink [OF wf, of p] in
      \<open>auto simp: record_failure_def permits_wf_def dest: in_diffD\<close>)
qed

interpretation circuit: inductive_invariant circuit_start circuit_step circuit_inv
proof unfold_locales
  fix s assume "circuit_start s"
  then show "circuit_inv s"
    by (auto simp: circuit_start_def circuit_inv_def permits_wf_def circuit_new_def)
next
  fix s t assume inv: "circuit_inv s" and step: "circuit_step s t"
  show "circuit_inv t"
  proof (cases "state_generation (breaker_state (breaker t)) = - 1")
    case False
    then have "state_generation (breaker_state (breaker t)) < - 1"
      by (simp add: word_order.not_eq_extremum)
    with circuit_step_generation_le [OF step]
    have gen: "state_generation (breaker_state (breaker s)) < - 1" by simp
    with inv have wf: "permits_wf s" by (auto simp: circuit_inv_def)
    from step have "permits_wf t"
    proof cases
      case (refuse now e cb)
      then have "cb = breaker s" by (blast dest: before_request_refused_unchanged)
      with refuse wf show ?thesis by simp
    qed (use wf gen in \<open>simp_all add: permits_wf_admit permits_wf_succeed permits_wf_fail
          permits_wf_shrink\<close>)
    then show ?thesis by (simp add: circuit_inv_def)
  qed (simp add: circuit_inv_def)
qed

section \<open>Properties\<close>

text \<open>C10: In every reachable state of concurrent client calls whose generation counter has not
  saturated, a half-open breaker has at most one probe in flight.\<close>

theorem circuit_at_most_one_probe:
  assumes "reachable circuit_start circuit_step s"
    and "breaker_state (breaker s) = HalfOpen g" and "g \<noteq> - 1"
  shows "size (filter_mset (\<lambda>p. generation p = g) (inflight s)) \<le> 1"
  using circuit.holds_reachable [OF assms(1)] assms(2,3)
  by (simp add: circuit_inv_def permits_wf_def)

definition sys_at :: "circuit_breaker \<Rightarrow> instant \<Rightarrow> circuit_permit multiset \<Rightarrow> circuit_sys" where
  "sys_at cb t M = \<lparr>breaker = cb, clock = t, inflight = M\<rparr>"

lemma sys_at_sel [simp]:
  "breaker (sys_at cb t M) = cb" "clock (sys_at cb t M) = t" "inflight (sys_at cb t M) = M"
  by (simp_all add: sys_at_def)

lemma sys_at_admit:
  "now \<le> t \<Longrightarrow> before_request now cb = (Inr p, cb') \<Longrightarrow>
   circuit_step (sys_at cb t M) (sys_at cb' t (add_mset p M))"
  using circuit_step.admit [of now "sys_at cb t M" p cb'] by (simp add: sys_at_def)

lemma sys_at_fail:
  "p \<in># M \<Longrightarrow> circuit_step (sys_at cb t M) (sys_at (record_failure t p cb) t (M - {#p#}))"
  using circuit_step.fail [of p "sys_at cb t M"] by (simp add: sys_at_def)

lemma sys_at_tick: "t \<le> now \<Longrightarrow> circuit_step (sys_at cb t M) (sys_at cb now M)"
  using circuit_step.tick [of "sys_at cb t M" now] by (simp add: sys_at_def)

text \<open>A run to a half-open breaker: one call fails at threshold one, and the next is the probe.\<close>

abbreviation probe_breaker :: circuit_breaker where
  "probe_breaker \<equiv> \<lparr>threshold = 1, reset_timeout = 5, breaker_state = HalfOpen 1\<rparr>"

lemma probe_reachable:
  "reachable circuit_start circuit_step (sys_at probe_breaker 5 {#CircuitPermit 1#})"
proof -
  let ?closed = "circuit_new 1 5"
  let ?open = "\<lparr>threshold = 1, reset_timeout = 5, breaker_state = Open 5 1\<rparr>"
  have "reachable circuit_start circuit_step (sys_at ?closed 0 {#})"
    by (rule reach_start) (auto simp: circuit_start_def)
  then have "reachable circuit_start circuit_step (sys_at ?closed 0 {#CircuitPermit 0#})"
    by (rule reach_step) (rule sys_at_admit [of 0], simp_all add: before_request_def circuit_new_def)
  then have "reachable circuit_start circuit_step (sys_at ?open 0 {#})"
    by (rule reach_step)
      (use sys_at_fail [of "CircuitPermit 0" "{#CircuitPermit 0#}" ?closed 0] in
        \<open>simp add: record_failure_def circuit_new_def saturating_add_def\<close>)
  then have "reachable circuit_start circuit_step (sys_at ?open 5 {#})"
    by (rule reach_step) (rule sys_at_tick, simp)
  then show ?thesis
    by (rule reach_step) (rule sys_at_admit [of 5], simp_all add: before_request_def)
qed

theorem circuit_at_most_one_probe_witness:
  "size (filter_mset (\<lambda>p. generation p = 1) {#CircuitPermit 1#}) \<le> 1"
  using circuit_at_most_one_probe [OF probe_reachable, of 1] by simp

lemma saturating_add_of_nat:
  assumes "n < unat th"
  shows "saturating_add (of_nat n) 1 = (of_nat (Suc n) :: u32)"
    and "th \<le> of_nat (Suc n) \<longleftrightarrow> Suc n = unat (th :: u32)"
proof -
  have n: "Suc n < 2 ^ 32"
    using assms unat_less [of th] by simp
  then have [simp]: "unat (of_nat n :: u32) = n" "unat (of_nat (Suc n) :: u32) = Suc n"
    by (simp_all add: unat_of_nat del: of_nat_Suc)
  show "saturating_add (of_nat n) 1 = (of_nat (Suc n) :: u32)"
    using n by (simp add: word_unat_eq_iff unat_saturating_add del: of_nat_Suc)
  show "th \<le> of_nat (Suc n) \<longleftrightarrow> Suc n = unat th"
    using assms by (auto simp: word_le_nat_alt simp del: of_nat_Suc)
qed

lemma record_failure_Closed:
  assumes "breaker_state cb = Closed f g"
  shows "breaker_state (record_failure now (CircuitPermit g) cb) =
    (if threshold cb \<le> saturating_add f 1 then Open (now + reset_timeout cb) (saturating_add g 1)
     else Closed (saturating_add f 1) g)"
  using assms by (simp add: record_failure_def Let_def)

lemma foldl_record_failure_parameters [simp]:
  "threshold (foldl (\<lambda>cb t. record_failure t p cb) cb ts) = threshold cb"
  "reset_timeout (foldl (\<lambda>cb t. record_failure t p cb) cb ts) = reset_timeout cb"
  by (induction ts arbitrary: cb) auto

text \<open>From a new breaker, failures reported with current permits keep it closed and counted
  until the threshold is reached; the failure that reaches it opens the breaker until the reset
  timeout after that failure.\<close>

lemma circuit_opens_at_threshold:
  assumes "0 < th" and "length ts \<le> unat th"
  shows "breaker_state (foldl (\<lambda>cb t. record_failure t (CircuitPermit 0) cb)
           (circuit_new th timeout) ts) =
         (if length ts < unat th then Closed (of_nat (length ts)) 0
          else Open (last ts + timeout) 1)"
  using assms(2)
proof (induction ts rule: rev_induct)
  case Nil
  with assms(1) show ?case by (simp add: word_less_nat_alt)
next
  case (snoc t ts)
  then have n: "length ts < unat th" by simp
  let ?cb = "foldl (\<lambda>cb t. record_failure t (CircuitPermit 0) cb) (circuit_new th timeout) ts"
  have closed: "breaker_state ?cb = Closed (of_nat (length ts)) 0"
    using snoc.IH n by simp
  have par: "threshold ?cb = th" "reset_timeout ?cb = timeout"
    by simp_all
  have "saturating_add 0 1 = (1 :: u64)" by (simp add: saturating_add_def)
  with n show ?case
    by (auto simp: record_failure_Closed [OF closed] par saturating_add_of_nat simp del: of_nat_Suc)
qed

lemma circuit_opens_at_threshold_witness:
  "breaker_state (foldl (\<lambda>cb t. record_failure t (CircuitPermit 0) cb)
     (circuit_new 2 20) [7, 9]) = Open 29 1"
  using circuit_opens_at_threshold [of 2 "[7, 9]" 20] by simp

text \<open>While the breaker is open a request is refused with the remaining time and changes
  nothing; once the reset timeout has passed one request is admitted as the probe and every request
  after it is refused until the probe reports.\<close>

lemma circuit_open_then_single_probe:
  assumes "breaker_state cb = Open until g"
  shows "before_request now cb =
      (if now < until then (Inl (CircuitOpen (until - now)), cb)
       else (Inr (CircuitPermit g), cb\<lparr>breaker_state := HalfOpen g\<rparr>)) \<and>
    (until \<le> now \<longrightarrow> fst (before_request later (snd (before_request now cb))) =
      Inl (CircuitOpen (reset_timeout cb)))"
  using assms by (simp add: before_request_def saturating_duration_since_def not_less)

lemma circuit_open_then_single_probe_witness:
  "let cb = \<lparr>threshold = 3, reset_timeout = 20, breaker_state = Open 29 1\<rparr>
   in fst (before_request 9 cb) = Inl (CircuitOpen 20) \<and>
      fst (before_request 40 (snd (before_request 29 cb))) = Inl (CircuitOpen 20)"
  using circuit_open_then_single_probe
      [of "\<lparr>threshold = 3, reset_timeout = 20, breaker_state = Open 29 1\<rparr>" 29 1 9 0]
    circuit_open_then_single_probe
      [of "\<lparr>threshold = 3, reset_timeout = 20, breaker_state = Open 29 1\<rparr>" 29 1 29 40]
  by (auto simp: Let_def)

text \<open>Half-open with nobody left to report: no step leaves it, and every request is refused.\<close>

definition probe_lost :: "u64 \<Rightarrow> circuit_breaker \<Rightarrow> circuit_sys \<Rightarrow> bool" where
  "probe_lost g cb s \<longleftrightarrow> breaker s = cb \<and> breaker_state cb = HalfOpen g \<and>
     (\<forall>p \<in># inflight s. generation p \<noteq> g)"

lemma probe_lost_step:
  assumes "probe_lost g cb s" and "circuit_step s t"
  shows "probe_lost g cb t"
  using assms(2,1)
proof cases
  case (succeed p)
  with assms(1) show ?thesis
    by (auto simp: probe_lost_def stale_permit_ignored dest: in_diffD)
next
  case (fail p)
  with assms(1) show ?thesis
    by (auto simp: probe_lost_def stale_permit_ignored dest: in_diffD)
qed (auto simp: probe_lost_def before_request_HalfOpen dest: in_diffD)

interpretation probe_lost: inductive_invariant "probe_lost g cb" circuit_step "probe_lost g cb"
  for g cb
  by unfold_locales (auto intro: probe_lost_step)

text \<open>C35: A probe answered by an HTTP status outside 500--599 reports nothing, so the breaker stays
  half-open: whatever calls follow, at whatever time, every request to the engine is refused.\<close>

theorem recall_client_error_wedges_breaker:
  assumes "transport cfg = Http" and "validate_recall req = Inr ()"
    and "breaker_state cb = Open until g" and "until \<le> asked"
    and "code < 500 \<or> 600 \<le> code"
    and "breaker s = snd (recall cfg asked answered req (Inl (Status code body)) cli cb)"
    and "\<forall>p \<in># inflight s. generation p \<noteq> g"
    and "circuit_step\<^sup>*\<^sup>* s t"
  shows "before_request now (breaker t) = (Inl (CircuitOpen (reset_timeout cb)), breaker t)"
proof -
  let ?cb = "cb\<lparr>breaker_state := HalfOpen g\<rparr>"
  have "before_request asked cb = (Inr (CircuitPermit g), ?cb)"
    using assms(3,4) by (simp add: before_request_def)
  moreover have "\<not> affects_availability (Status code body)"
    using assms(5) by auto
  ultimately have "breaker s = ?cb"
    using assms(1,2,6)
    by (simp add: recall_def recall_complete_def safe_recall_fallback_def Let_def del: affects_availability.simps)
  with assms(7) have "probe_lost g ?cb s" by (simp add: probe_lost_def)
  with assms(8) have "probe_lost g ?cb t" by (rule probe_lost.holds_steps)
  then show ?thesis by (auto simp: probe_lost_def before_request_def)
qed

theorem recall_client_error_wedges_breaker_witness:
  "before_request 1000
     (snd (recall ((from_data_root (lit ''icm'') (lit ''/d''))\<lparr>transport := Http\<rparr>) 30 31
       (new_recall_request (lit ''q'')) (Inl (Status 404 []) :: attempt_error + nat list)
       (Inr []) \<lparr>threshold = 3, reset_timeout = 20, breaker_state = Open 29 1\<rparr>)) =
   (Inl (CircuitOpen 20), \<lparr>threshold = 3, reset_timeout = 20, breaker_state = HalfOpen 1\<rparr>)"
proof -
  let ?cfg = "(from_data_root (lit ''icm'') (lit ''/d''))\<lparr>transport := Http\<rparr>"
  let ?req = "(new_recall_request (lit ''q''))"
  let ?cb = "\<lparr>threshold = 3, reset_timeout = 20, breaker_state = Open 29 1\<rparr>"
  let ?after = "snd (recall ?cfg 30 31 ?req (Inl (Status 404 []) :: attempt_error + nat list) (Inr []) ?cb)"
  have req: "validate_recall ?req = Inr ()"
    by (simp add: validate_recall_def new_recall_request_def rust_defs)
  have "before_request 1000 (breaker (sys_at ?after 31 {#})) =
      (Inl (CircuitOpen (reset_timeout ?cb)), breaker (sys_at ?after 31 {#}))"
    by (rule recall_client_error_wedges_breaker [where cfg = ?cfg and req = ?req and cb = ?cb
          and until = 29 and g = 1 and asked = 30 and answered = 31 and code = 404 and body = "[]"
          and cli = "Inr []" and s = "sys_at ?after 31 {#}", OF _ req]) simp_all
  moreover have "?after = ?cb\<lparr>breaker_state := HalfOpen 1\<rparr>"
    by (simp add: recall_def req before_request_def recall_complete_def safe_recall_fallback_def)
  ultimately show ?thesis by simp
qed

end
