(* ===== verification/Shell_Lexer.thy ===== *)
theory Shell_Lexer
  imports Rust_Prelude
begin

text \<open>
  The shell tokenizer of the command gate (\<open>fork-core/rtk/src/discover/lexer.rs\<close>, \<open>tokenize_inner\<close>).

  The loop's mutable locals are the record \<open>lex_state\<close>; each arm of its \<open>match\<close> is a definition that
  takes the characters still to come (the peekable iterator) and returns the new state and what is
  left of them. The contract proved is \<open>tiles\<close>: the tokens, at their byte offsets, and white space
  between them are exactly the input.
\<close>

section \<open>Tokens\<close>

datatype pipe_kind = PipeStdout | PipeStdoutAndStderr

datatype token_kind = Arg | Operator | Pipe pipe_kind | Redirect | Shellism

record parsed_token =
  tok_kind :: token_kind
  tok_value :: rstr
  tok_offset :: nat

abbreviation token :: "token_kind \<Rightarrow> rstr \<Rightarrow> nat \<Rightarrow> parsed_token" where
  "token k v n \<equiv> \<lparr>tok_kind = k, tok_value = v, tok_offset = n\<rparr>"

definition tok_end :: "parsed_token \<Rightarrow> nat" where
  "tok_end t = tok_offset t + blen (tok_value t)"

section \<open>The tokenizer's loop\<close>

record lex_state =
  lx_tokens :: "parsed_token list"
  lx_current :: rstr
  lx_start :: nat
  lx_pos :: nat
  lx_quote :: "rchar option"
  lx_escaped :: bool

definition lex_init :: lex_state where
  "lex_init = \<lparr>lx_tokens = [], lx_current = [], lx_start = 0, lx_pos = 0, lx_quote = None,
     lx_escaped = False\<rparr>"

definition flush_arg :: "lex_state \<Rightarrow> lex_state" where
  "flush_arg st =
     (if lx_current st = [] then st
      else st\<lparr>lx_tokens := lx_tokens st @ [token Arg (lx_current st) (lx_start st)],
              lx_current := []\<rparr>)"

text \<open>Push a token that starts at the current position and reaches to the position after it.\<close>

definition emit_token :: "token_kind \<Rightarrow> rstr \<Rightarrow> lex_state \<Rightarrow> lex_state" where
  "emit_token k v st =
     st\<lparr>lx_tokens := lx_tokens st @ [token k v (lx_pos st)],
        lx_pos := lx_pos st + blen v, lx_start := lx_pos st + blen v\<rparr>"

definition is_name_start :: "rchar \<Rightarrow> bool" where
  "is_name_start c = (is_ascii_alphabetic c \<or> c = c_underscore)"

definition is_name_char :: "rchar \<Rightarrow> bool" where
  "is_name_char c = (is_ascii_alphanumeric c \<or> c = c_underscore)"

definition lex_dollar :: "rstr \<Rightarrow> lex_state \<Rightarrow> lex_state \<times> rstr" where
  "lex_dollar rest st =
     (let st = flush_arg st
      in if rest \<noteq> [] \<and> is_name_start (hd rest)
         then (emit_token Arg (c_dollar # takeWhile is_name_char rest) st,
               dropWhile is_name_char rest)
         else (emit_token Shellism [c_dollar] st, rest))"

definition lex_pipe :: "rstr \<Rightarrow> lex_state \<Rightarrow> lex_state \<times> rstr" where
  "lex_pipe rest st =
     (let st = flush_arg st
      in if rest \<noteq> [] \<and> hd rest = c_pipe
         then (emit_token Operator [c_pipe, c_pipe] st, tl rest)
         else if rest \<noteq> [] \<and> hd rest = c_amp
         then (emit_token (Pipe PipeStdoutAndStderr) [c_pipe, c_amp] st, tl rest)
         else (emit_token (Pipe PipeStdout) [c_pipe] st, rest))"

definition lex_amp :: "rstr \<Rightarrow> lex_state \<Rightarrow> lex_state \<times> rstr" where
  "lex_amp rest st =
     (let st = flush_arg st
      in if rest \<noteq> [] \<and> hd rest = c_amp
         then (emit_token Operator [c_amp, c_amp] st, tl rest)
         else if rest \<noteq> [] \<and> hd rest = c_gt
         then (let more = tl rest
               in if more \<noteq> [] \<and> hd more = c_gt
                  then (emit_token Redirect [c_amp, c_gt, c_gt] st, tl more)
                  else (emit_token Redirect [c_amp, c_gt] st, more))
         else (emit_token Shellism [c_amp] st, rest))"

definition is_fd_char :: "rchar \<Rightarrow> bool" where
  "is_fd_char c = (is_ascii_digit c \<or> c = c_minus)"

text \<open>What follows a \<open>>\<close>: an optional second one, then an optional \<open>&\<close> with its descriptor.\<close>

definition redirect_tail :: "rstr \<Rightarrow> rstr \<times> rstr" where
  "redirect_tail rest =
     (let (v, rest) = if rest \<noteq> [] \<and> hd rest = c_gt then ([c_gt], tl rest) else ([], rest)
      in if rest \<noteq> [] \<and> hd rest = c_amp
         then (v @ c_amp # takeWhile is_fd_char (tl rest), dropWhile is_fd_char (tl rest))
         else (v, rest))"

definition lex_gt :: "rstr \<Rightarrow> lex_state \<Rightarrow> lex_state \<times> rstr" where
  "lex_gt rest st =
     (let fd = lx_current st \<noteq> [] \<and> list_all is_ascii_digit (lx_current st);
          fd_prefix = if fd then lx_current st else [];
          st = if fd then st\<lparr>lx_current := []\<rparr> else flush_arg st;
          redir_start = if fd then lx_start st else lx_pos st;
          (tail, rest') = redirect_tail rest;
          pos = lx_pos st + len_utf8 c_gt + blen tail
      in (st\<lparr>lx_tokens := lx_tokens st @ [token Redirect (fd_prefix @ c_gt # tail) redir_start],
             lx_pos := pos, lx_start := pos\<rparr>, rest'))"

definition lex_lt :: "rstr \<Rightarrow> lex_state \<Rightarrow> lex_state \<times> rstr" where
  "lex_lt rest st =
     (let st = flush_arg st
      in if rest \<noteq> [] \<and> hd rest = c_lt
         then (emit_token Redirect [c_lt, c_lt] st, tl rest)
         else (emit_token Redirect [c_lt] st, rest))"

text \<open>White space ends a word; anything else extends it.\<close>

definition lex_whitespace :: "rchar \<Rightarrow> lex_state \<Rightarrow> lex_state" where
  "lex_whitespace c st =
     (let st = flush_arg st; pos = lx_pos st + len_utf8 c in st\<lparr>lx_pos := pos, lx_start := pos\<rparr>)"

definition lex_push :: "rchar \<Rightarrow> lex_state \<Rightarrow> lex_state" where
  "lex_push c st =
     st\<lparr>lx_start := (if lx_current st = [] then lx_pos st else lx_start st),
        lx_current := lx_current st @ [c], lx_pos := lx_pos st + len_utf8 c\<rparr>"

definition is_shellism :: "rchar \<Rightarrow> bool" where
  "is_shellism c = (c = c_star \<or> c = c_question \<or> c = c_backtick \<or> c = c_lparen \<or> c = c_rparen \<or>
     c = c_lbrace \<or> c = c_rbrace \<or> c = c_bang)"

text \<open>The unquoted characters: the arms of the \<open>match\<close>, in its order.\<close>

definition lex_plain :: "bool \<Rightarrow> rchar \<Rightarrow> rstr \<Rightarrow> lex_state \<Rightarrow> lex_state \<times> rstr" where
  "lex_plain emit_newline c rest st =
     (if c = c_dollar then lex_dollar rest st
      else if is_shellism c then (emit_token Shellism [c] (flush_arg st), rest)
      else if c = c_pipe then lex_pipe rest st
      else if c = c_semi then (emit_token Operator [c_semi] (flush_arg st), rest)
      else if c = c_amp then lex_amp rest st
      else if c = c_gt then lex_gt rest st
      else if c = c_lt then lex_lt rest st
      else if c = c_newline \<and> emit_newline
        then (emit_token Operator [c_newline] (flush_arg st), rest)
      else if c = c_return \<and> emit_newline \<and> rest \<noteq> [] \<and> hd rest = c_newline
        then (emit_token Operator [c_newline] (flush_arg st), rest)
      else if is_whitespace c then (lex_whitespace c st, rest)
      else (lex_push c st, rest))"

text \<open>One turn of the loop: escapes and quotes first.\<close>

definition lex_step :: "bool \<Rightarrow> rchar \<Rightarrow> rstr \<Rightarrow> lex_state \<Rightarrow> lex_state \<times> rstr" where
  "lex_step emit_newline c rest st =
     (if lx_escaped st
        then (st\<lparr>lx_current := lx_current st @ [c_backslash, c], lx_pos := lx_pos st + len_utf8 c,
                 lx_escaped := False\<rparr>, rest)
      else if c = c_backslash \<and> lx_quote st \<noteq> Some c_squote
        then (st\<lparr>lx_escaped := True,
                 lx_start := (if lx_current st = [] then lx_pos st else lx_start st),
                 lx_pos := lx_pos st + len_utf8 c\<rparr>, rest)
      else case lx_quote st of
        Some q \<Rightarrow>
          (st\<lparr>lx_quote := (if c = q then None else Some q), lx_current := lx_current st @ [c],
              lx_pos := lx_pos st + len_utf8 c\<rparr>, rest)
      | None \<Rightarrow>
          if c = c_squote \<or> c = c_dquote then ((lex_push c st)\<lparr>lx_quote := Some c\<rparr>, rest)
          else lex_plain emit_newline c rest st)"

lemma redirect_tail_split: "redirect_tail rest = (v, rest') \<Longrightarrow> rest = v @ rest'"
  by (cases rest; cases "tl rest") (auto simp: redirect_tail_def split: if_splits)

lemma hd_tl_eq: "xs \<noteq> [] \<and> hd xs = x \<longleftrightarrow> xs = x # tl xs"
  by (cases xs) auto

lemma dropWhile_split: "\<exists>v. xs = v @ dropWhile P xs"
  by (metis takeWhile_dropWhile_id)

lemma lex_plain_rest: "lex_plain em c rest st = (st', rest') \<Longrightarrow> \<exists>v. rest = v @ rest'"
  by (auto simp: lex_plain_def lex_dollar_def lex_pipe_def lex_amp_def lex_gt_def lex_lt_def Let_def
      hd_tl_eq dropWhile_split intro: exI [of _ "[]"] exI [of _ "[_]"] exI [of _ "[_, _]"]
      dest!: redirect_tail_split split: if_splits prod.splits)

lemma lex_step_rest: "lex_step em c rest st = (st', rest') \<Longrightarrow> \<exists>v. rest = v @ rest'"
  by (auto simp: lex_step_def dest: lex_plain_rest split: if_splits option.splits)

lemma lex_step_length: "length (snd (lex_step em c rest st)) \<le> length rest"
  by (cases "lex_step em c rest st") (auto dest: lex_step_rest)

function tokenize_loop :: "bool \<Rightarrow> lex_state \<Rightarrow> rstr \<Rightarrow> lex_state" where
  "tokenize_loop emit_newline st [] = st"
| "tokenize_loop emit_newline st (c # rest) =
     (let (st', rest') = lex_step emit_newline c rest st
      in tokenize_loop emit_newline st' rest')"
  by pat_completeness auto
termination
  by (relation "measure (\<lambda>(em, st, rest). length rest)")
    (auto simp: less_Suc_eq_le case_prod_beta lex_step_length)

definition tokenize_inner :: "rstr \<Rightarrow> bool \<Rightarrow> parsed_token list" where
  "tokenize_inner input emit_newline =
     (let st = tokenize_loop emit_newline lex_init input;
          st = if lx_escaped st then st\<lparr>lx_current := lx_current st @ [c_backslash]\<rparr> else st
      in lx_tokens (flush_arg st))"

definition tokenize :: "rstr \<Rightarrow> parsed_token list" where
  "tokenize input = tokenize_inner input False"

definition tokenize_with_newlines :: "rstr \<Rightarrow> parsed_token list" where
  "tokenize_with_newlines input = tokenize_inner input True"

lemmas lexer_defs = tokenize_def tokenize_with_newlines_def tokenize_inner_def lex_init_def
  lex_step_def lex_plain_def lex_dollar_def lex_pipe_def lex_amp_def lex_gt_def lex_lt_def
  lex_whitespace_def lex_push_def is_shellism_def redirect_tail_def is_fd_char_def is_name_char_def
  is_name_start_def emit_token_def flush_arg_def

section \<open>Tokens tile the input\<close>

text \<open>
  \<open>tiles crlf n ts s\<close>: the text \<open>s\<close>, which starts at byte \<open>n\<close>, is the tokens \<open>ts\<close> at their
  offsets with white space around them. A token's text is its value and, unless it is an operator,
  starts with a character that is not white; with \<open>crlf\<close>, the carriage return of a CRLF pair may
  stand for a newline token.
\<close>

definition token_text :: "bool \<Rightarrow> parsed_token \<Rightarrow> rstr \<Rightarrow> bool" where
  "token_text crlf t src \<longleftrightarrow> src \<noteq> [] \<and> (tok_kind t \<noteq> Operator \<longrightarrow> \<not> is_whitespace (hd src)) \<and>
     (tok_value t = src \<or>
      crlf \<and> src = [c_return] \<and> tok_value t = [c_newline] \<and> tok_kind t = Operator)"

inductive tiles :: "bool \<Rightarrow> nat \<Rightarrow> parsed_token list \<Rightarrow> rstr \<Rightarrow> bool" for crlf where
  tiles_gap: "\<forall>c \<in> set w. is_whitespace c \<Longrightarrow> tiles crlf n [] w"
| tiles_token: "\<forall>c \<in> set w. is_whitespace c \<Longrightarrow> token_text crlf t src \<Longrightarrow> tok_offset t = n + blen w \<Longrightarrow>
     tiles crlf (n + blen w + blen src) ts s \<Longrightarrow> tiles crlf n (t # ts) (w @ src @ s)"

inductive_cases tiles_NilE: "tiles crlf n [] s"
inductive_cases tiles_ConsE: "tiles crlf n (t # ts) s"

lemma tiles_space_left:
  "tiles crlf (n + blen v) ts s \<Longrightarrow> \<forall>c \<in> set v. is_whitespace c \<Longrightarrow> tiles crlf n ts (v @ s)"
proof (erule tiles.cases, goal_cases)
  case (1 w m)
  then show ?case by (auto intro!: tiles_gap)
next
  case (2 w t src m ts' s')
  have "tiles crlf n (t # ts') ((v @ w) @ src @ s')"
    using 2 by (intro tiles_token) (auto simp: add.assoc)
  with 2 show ?case by simp
qed

lemma tiles_append:
  "tiles crlf n ts s \<Longrightarrow> tiles crlf (n + blen s) us u \<Longrightarrow> tiles crlf n (ts @ us) (s @ u)"
proof (induction n ts s arbitrary: us u rule: tiles.induct)
  case (tiles_gap w n)
  then show ?case by (simp add: tiles_space_left)
next
  case (tiles_token w t src n ts s)
  then have "tiles crlf (n + blen w + blen src) (ts @ us) (s @ u)"
    by (simp add: add.assoc)
  with tiles_token show ?case
    using tiles.tiles_token [of w crlf t src n "ts @ us" "s @ u"] by simp
qed

lemma tiles_snoc_gap: "tiles crlf n ts s \<Longrightarrow> is_whitespace c \<Longrightarrow> tiles crlf n ts (s @ [c])"
  using tiles_append [of crlf n ts s "[]" "[c]"] by (simp add: tiles_gap)

lemma tiles_snoc_token:
  assumes "tiles crlf n ts s" and "token_text crlf t src" and "tok_offset t = n + blen s"
  shows "tiles crlf n (ts @ [t]) (s @ src)"
proof -
  have "tiles crlf (n + blen s) [t] ([] @ src @ [])"
    by (rule tiles_token) (use assms in \<open>auto intro: tiles_gap\<close>)
  with assms(1) tiles_append show ?thesis by fastforce
qed

section \<open>The loop's invariant\<close>

text \<open>The word being read, with a backslash that still waits for its character.\<close>

definition pending :: "lex_state \<Rightarrow> rstr" where
  "pending st = lx_current st @ (if lx_escaped st then [c_backslash] else [])"

definition lex_inv :: "bool \<Rightarrow> rstr \<Rightarrow> lex_state \<Rightarrow> bool" where
  "lex_inv crlf consumed st \<longleftrightarrow> lx_pos st = blen consumed \<and>
     (\<exists>p. consumed = p @ pending st \<and> tiles crlf 0 (lx_tokens st) p \<and>
          (pending st \<noteq> [] \<longrightarrow> lx_start st = blen p \<and> \<not> is_whitespace (hd (pending st)))) \<and>
     (lx_quote st \<noteq> None \<longrightarrow> lx_current st \<noteq> [])"

abbreviation unquoted :: "lex_state \<Rightarrow> bool" where
  "unquoted st \<equiv> \<not> lx_escaped st \<and> lx_quote st = None"

lemma lex_inv_init: "lex_inv crlf [] lex_init"
  by (simp add: lex_inv_def lex_init_def pending_def tiles_gap)

text \<open>Between words: all that was consumed is tiled.\<close>

definition flushed :: "bool \<Rightarrow> rstr \<Rightarrow> lex_state \<Rightarrow> bool" where
  "flushed crlf consumed st \<longleftrightarrow> lx_pos st = blen consumed \<and> lx_current st = [] \<and> unquoted st \<and>
     tiles crlf 0 (lx_tokens st) consumed"

lemma flush_arg_flushed:
  assumes "lex_inv crlf consumed st" and "unquoted st"
  shows "flushed crlf consumed (flush_arg st)"
  using assms tiles_snoc_token
  by (fastforce simp: lex_inv_def flushed_def flush_arg_def pending_def token_text_def)

lemma flushed_lex_inv: "flushed crlf consumed st \<Longrightarrow> lex_inv crlf consumed st"
  by (auto simp: flushed_def lex_inv_def pending_def)

lemma emit_token_flushed:
  assumes "flushed crlf consumed st" and "v \<noteq> []" and "k \<noteq> Operator \<Longrightarrow> \<not> is_whitespace (hd v)"
  shows "flushed crlf (consumed @ v) (emit_token k v st)"
  using assms by (auto simp: flushed_def emit_token_def token_text_def intro: tiles_snoc_token)

lemma emit_crlf_flushed:
  assumes "flushed True consumed st"
  shows "flushed True (consumed @ [c_return]) (emit_token Operator [c_newline] st)"
  using assms
  by (auto simp: flushed_def emit_token_def token_text_def len_utf8_def intro: tiles_snoc_token)

lemma lex_push_inv:
  assumes "lex_inv crlf consumed st" and "\<not> lx_escaped st" and "\<not> is_whitespace c"
  shows "lex_inv crlf (consumed @ [c]) (lex_push c st)"
  using assms by (auto simp: lex_inv_def lex_push_def pending_def)

lemma lex_whitespace_inv:
  assumes "lex_inv crlf consumed st" and "unquoted st" and "is_whitespace c"
  shows "lex_inv crlf (consumed @ [c]) (lex_whitespace c st)"
proof -
  have "flushed crlf consumed (flush_arg st)"
    using assms by (simp add: flush_arg_flushed)
  with assms(3) show ?thesis
    by (auto simp: lex_inv_def flushed_def lex_whitespace_def pending_def Let_def
        intro: tiles_snoc_gap)
qed

text \<open>
  An arm is right on \<open>c\<close> when it consumes a prefix \<open>v\<close> of what follows and the invariant then holds
  of \<open>c # v\<close> as well.
\<close>

definition arm_ok ::
  "bool \<Rightarrow> rstr \<Rightarrow> rchar \<Rightarrow> rstr \<Rightarrow> lex_state \<times> rstr \<Rightarrow> bool" where
  "arm_ok crlf consumed c rest r \<longleftrightarrow>
     (\<exists>v. rest = v @ snd r \<and> lex_inv crlf (consumed @ c # v) (fst r))"

lemma arm_emit:
  assumes "lex_inv crlf consumed st" and "unquoted st" and "rest = v @ rest'"
    and "k \<noteq> Operator \<Longrightarrow> \<not> is_whitespace c"
  shows "arm_ok crlf consumed c rest (emit_token k (c # v) (flush_arg st), rest')"
  using emit_token_flushed [OF flush_arg_flushed [OF assms(1,2)], of "c # v" k] assms(3,4)
  by (auto simp: arm_ok_def intro: flushed_lex_inv)

lemma arm_emit_alone:
  assumes "lex_inv crlf consumed st" and "unquoted st" and "k \<noteq> Operator \<Longrightarrow> \<not> is_whitespace c"
  shows "arm_ok crlf consumed c rest (emit_token k [c] (flush_arg st), rest)"
  by (rule arm_emit [OF assms(1,2)]) (use assms(3) in simp_all)

lemma arm_dollar:
  assumes "lex_inv crlf consumed st" and "unquoted st"
  shows "arm_ok crlf consumed c_dollar rest (lex_dollar rest st)"
  by (auto simp: lex_dollar_def Let_def intro!: arm_emit assms simp: is_whitespace_def)

lemma arm_pipe:
  assumes "lex_inv crlf consumed st" and "unquoted st"
  shows "arm_ok crlf consumed c_pipe rest (lex_pipe rest st)"
  by (auto simp: lex_pipe_def Let_def hd_tl_eq intro!: arm_emit assms simp: is_whitespace_def)

lemma arm_amp:
  assumes "lex_inv crlf consumed st" and "unquoted st"
  shows "arm_ok crlf consumed c_amp rest (lex_amp rest st)"
  by (cases rest; cases "tl rest") (auto simp: lex_amp_def Let_def intro!: arm_emit assms simp: is_whitespace_def)

lemma arm_lt:
  assumes "lex_inv crlf consumed st" and "unquoted st"
  shows "arm_ok crlf consumed c_lt rest (lex_lt rest st)"
  by (auto simp: lex_lt_def Let_def hd_tl_eq intro!: arm_emit assms simp: is_whitespace_def)

text \<open>A redirect takes a number just before it as its descriptor.\<close>

lemma arm_gt_fd:
  assumes inv: "lex_inv crlf consumed st" and esc: "unquoted st" and cur: "lx_current st \<noteq> []"
    and tail: "redirect_tail rest = (v, rest')"
  shows "arm_ok crlf consumed c_gt rest
    (st\<lparr>lx_current := [],
        lx_tokens := lx_tokens st @ [token Redirect (lx_current st @ c_gt # v) (lx_start st)],
        lx_pos := lx_pos st + len_utf8 c_gt + blen v, lx_start := lx_pos st + len_utf8 c_gt + blen v\<rparr>,
     rest')"
proof -
  obtain p where p: "consumed = p @ lx_current st" "tiles crlf 0 (lx_tokens st) p"
      "lx_start st = blen p" and pos: "lx_pos st = blen consumed"
    using inv esc cur by (auto simp: lex_inv_def pending_def)
  have hd: "\<not> is_whitespace (hd (lx_current st @ c_gt # v))"
    using inv esc cur by (auto simp: lex_inv_def pending_def)
  have "tiles crlf 0 (lx_tokens st @ [token Redirect (lx_current st @ c_gt # v) (lx_start st)])
      (p @ (lx_current st @ c_gt # v))"
    by (rule tiles_snoc_token) (use p hd in \<open>auto simp: token_text_def\<close>)
  with p pos esc redirect_tail_split [OF tail] show ?thesis
    by (auto simp: arm_ok_def lex_inv_def pending_def)
qed

lemma arm_gt:
  assumes inv: "lex_inv crlf consumed st" and esc: "unquoted st"
  shows "arm_ok crlf consumed c_gt rest (lex_gt rest st)"
proof -
  obtain v rest' where tail: "redirect_tail rest = (v, rest')" by fastforce
  show ?thesis
  proof (cases "lx_current st \<noteq> [] \<and> list_all is_ascii_digit (lx_current st)")
    case True
    with arm_gt_fd [OF inv esc _ tail] show ?thesis by (simp add: lex_gt_def tail Let_def)
  next
    case False
    then have "lex_gt rest st = (emit_token Redirect (c_gt # v) (flush_arg st), rest')"
      by (auto simp: lex_gt_def tail emit_token_def Let_def)
    moreover have "arm_ok crlf consumed c_gt rest (emit_token Redirect (c_gt # v) (flush_arg st), rest')"
      by (rule arm_emit [OF inv esc redirect_tail_split [OF tail]]) (simp add: is_whitespace_def)
    ultimately show ?thesis by simp
  qed
qed

lemma arm_newline:
  assumes "lex_inv True consumed st" and "unquoted st"
  shows "arm_ok True consumed c_return rest (emit_token Operator [c_newline] (flush_arg st), rest)"
  using emit_crlf_flushed [OF flush_arg_flushed [OF assms]]
  by (auto simp: arm_ok_def intro: flushed_lex_inv)

lemma is_shellism_not_whitespace: "is_shellism c \<Longrightarrow> \<not> is_whitespace c"
  by (auto simp: is_shellism_def is_whitespace_def)

lemma arm_plain:
  assumes "lex_inv em consumed st" and "unquoted st"
  shows "arm_ok em consumed c rest (lex_plain em c rest st)"
proof -
  have "arm_ok em consumed c rest (lex_whitespace c st, rest)" if "is_whitespace c"
    using that assms by (auto simp: arm_ok_def intro: lex_whitespace_inv)
  moreover have "arm_ok em consumed c rest (lex_push c st, rest)" if "\<not> is_whitespace c"
    using that assms by (auto simp: arm_ok_def intro: lex_push_inv)
  moreover have "arm_ok em consumed c rest (emit_token Shellism [c] (flush_arg st), rest)"
    if "is_shellism c"
    using that assms by (intro arm_emit_alone) (auto dest: is_shellism_not_whitespace)
  moreover have "arm_ok em consumed c rest (emit_token Operator [c] (flush_arg st), rest)"
    using assms by (intro arm_emit_alone) auto
  ultimately show ?thesis
    using arm_dollar [OF assms] arm_pipe [OF assms] arm_amp [OF assms] arm_lt [OF assms]
      arm_gt [OF assms] arm_newline [of consumed st rest] assms
    unfolding lex_plain_def by auto
qed

lemma arm_step:
  assumes inv: "lex_inv em consumed st"
  shows "arm_ok em consumed c rest (lex_step em c rest st)"
proof (cases "lx_escaped st")
  case True
  with inv show ?thesis
    by (auto simp: lex_step_def arm_ok_def lex_inv_def pending_def hd_append split: if_splits)
next
  case False
  have push: "lex_inv em (consumed @ [c]) ((lex_push c st)\<lparr>lx_quote := q\<rparr>)"
    if "c = c_squote \<or> c = c_dquote" for q
    using that lex_push_inv [OF inv False, of c] by (auto simp: lex_inv_def lex_push_def pending_def is_whitespace_def)
  show ?thesis
  proof (cases "c = c_backslash \<and> lx_quote st \<noteq> Some c_squote")
    case esc: True
    with inv False show ?thesis
      by (auto simp: lex_step_def arm_ok_def lex_inv_def pending_def hd_append is_whitespace_def
          split: if_splits)
  next
    case noesc: False
    show ?thesis
    proof (cases "lx_quote st")
      case None
      with inv False noesc push show ?thesis
        by (auto simp: lex_step_def arm_plain) (auto simp: arm_ok_def)
    next
      case (Some q)
      with inv False noesc show ?thesis
        by (auto simp: lex_step_def arm_ok_def lex_inv_def pending_def)
    qed
  qed
qed

lemma tokenize_loop_inv:
  "lex_inv em consumed st \<Longrightarrow> lex_inv em (consumed @ rest) (tokenize_loop em st rest)"
proof (induction em st rest arbitrary: consumed rule: tokenize_loop.induct)
  case (2 em st c rest)
  obtain st' rest' where step: "lex_step em c rest st = (st', rest')" by fastforce
  with arm_step [OF "2.prems", of c rest] obtain v
    where "rest = v @ rest'" and "lex_inv em (consumed @ c # v) st'"
    by (auto simp: arm_ok_def)
  with "2.IH" [OF step [symmetric] refl] step show ?case by fastforce
qed simp

theorem tokenize_inner_tiles: "tiles em 0 (tokenize_inner s em) s"
proof -
  let ?st = "tokenize_loop em lex_init s"
  have inv: "lex_inv em s ?st"
    using tokenize_loop_inv [OF lex_inv_init, of em s] by simp
  define st where "st = (if lx_escaped ?st then ?st\<lparr>lx_current := lx_current ?st @ [c_backslash]\<rparr> else ?st)"
  from inv obtain p where p: "s = p @ lx_current st" "tiles em 0 (lx_tokens st) p"
      "lx_current st \<noteq> [] \<Longrightarrow> lx_start st = blen p \<and> \<not> is_whitespace (hd (lx_current st))"
    by (auto simp: lex_inv_def pending_def st_def split: if_splits)
  have "tiles em 0 (lx_tokens (flush_arg st)) s"
  proof (cases "lx_current st = []")
    case False
    then have "tiles em 0 (lx_tokens st @ [token Arg (lx_current st) (lx_start st)]) (p @ lx_current st)"
      using p by (intro tiles_snoc_token) (auto simp: token_text_def)
    with False p(1) show ?thesis by (simp add: flush_arg_def)
  qed (use p in \<open>simp add: flush_arg_def\<close>)
  then show ?thesis by (simp add: tokenize_inner_def st_def Let_def)
qed

section \<open>The lexer contract\<close>

lemma token_text_blen: "token_text crlf t src \<Longrightarrow> blen src = blen (tok_value t)"
  by (auto simp: token_text_def len_utf8_def)

lemma tiles_member:
  "tiles crlf n ts s \<Longrightarrow> t \<in> set ts \<Longrightarrow>
   \<exists>p src q. s = p @ src @ q \<and> token_text crlf t src \<and> tok_offset t = n + blen p"
proof (induction n ts s rule: tiles.induct)
  case (tiles_token w t' src n ts s)
  show ?case
  proof (cases "t = t'")
    case True
    with tiles_token show ?thesis by blast
  next
    case False
    with tiles_token obtain p src' q where
      "s = p @ src' @ q" "token_text crlf t src'" "tok_offset t = n + blen w + blen src + blen p"
      by auto
    then show ?thesis
      by (intro exI [of _ "w @ src @ p"] exI [of _ src'] exI [of _ q]) simp
  qed
qed simp

lemma tiles_offsets_ge: "tiles crlf n ts s \<Longrightarrow> t \<in> set ts \<Longrightarrow> n \<le> tok_offset t"
  by (auto dest: tiles_member)

lemma tiles_ordered: "tiles crlf n ts s \<Longrightarrow> sorted_wrt (\<lambda>t u. tok_end t \<le> tok_offset u) ts"
proof (induction n ts s rule: tiles.induct)
  case (tiles_token w t src n ts s)
  then show ?case
    by (auto simp: tok_end_def dest!: token_text_blen dest: tiles_offsets_ge)
qed simp

text \<open>What the scanners of the gate rely on: the tokens of any input tile it.\<close>

locale tiling_lexer =
  fixes lex :: "rstr \<Rightarrow> parsed_token list" and crlf :: bool
  assumes lex_tiles: "tiles crlf 0 (lex s) s"
begin

lemma token_in_input:
  "t \<in> set (lex s) \<Longrightarrow> \<exists>p src q. s = p @ src @ q \<and> token_text crlf t src \<and> tok_offset t = blen p"
  using tiles_member [OF lex_tiles] by fastforce

lemma token_slice:
  assumes "t \<in> set (lex s)"
  shows "\<exists>src. str_slice s (tok_offset t) (tok_end t) = Some src \<and> token_text crlf t src"
proof -
  obtain p src q where src: "s = p @ src @ q" "token_text crlf t src" "tok_offset t = blen p"
    using token_in_input [OF assms] by blast
  then have "str_slice s (tok_offset t) (tok_end t) = Some src"
    using str_slice_append [of p src q] token_text_blen [OF src(2)] by (simp add: tok_end_def)
  with src(2) show ?thesis by blast
qed

lemma token_from:
  assumes "t \<in> set (lex s)"
  shows "\<exists>q. str_from s (tok_offset t) = Some q" and "\<exists>p. str_upto s (tok_offset t) = Some p"
  using token_in_input [OF assms] str_from_append str_upto_append by fastforce+

lemma tokens_ordered: "sorted_wrt (\<lambda>t u. tok_end t \<le> tok_offset u) (lex s)"
  by (rule tiles_ordered [OF lex_tiles])

end

interpretation words: tiling_lexer tokenize False
  by unfold_locales (simp add: tokenize_def tokenize_inner_tiles)

interpretation lines: tiling_lexer tokenize_with_newlines True
  by unfold_locales (simp add: tokenize_with_newlines_def tokenize_inner_tiles)

section \<open>Properties\<close>

text \<open>The tokenizer loses and invents nothing: the tokens of a command, each at its byte offset
  and with its value as its source text, together with white space between them are exactly the
  command.\<close>

lemma tokenize_tiles_input: "tiles False 0 (tokenize s) s"
  by (rule words.lex_tiles)

text \<open>Slicing a command at a token's byte range never panics and gives back the token's value,
  and the tokens do not overlap and come in the order of their offsets.\<close>

lemma tokenize_slices:
  "list_all (\<lambda>t. str_slice s (tok_offset t) (tok_end t) = Some (tok_value t)) (tokenize s) \<and>
   sorted_wrt (\<lambda>t u. tok_end t \<le> tok_offset u) (tokenize s)"
  using words.token_slice words.tokens_ordered by (fastforce simp: token_text_def list_all_iff)

lemma tokenize_loop_single_quoted:
  assumes "\<forall>c \<in> set w. c \<noteq> c_squote"
    and "lx_quote st = Some c_squote" and "\<not> lx_escaped st"
  shows "tokenize_loop em st (w @ rest) =
    tokenize_loop em (st\<lparr>lx_current := lx_current st @ w, lx_pos := lx_pos st + blen w\<rparr>) rest"
  using assms
proof (induction w arbitrary: st)
  case (Cons c w)
  then show ?case by (cases st) (simp add: lex_step_def add.assoc)
qed simp

text \<open>Whatever stands between single quotes (operators, pipes, redirects, substitutions,
  backslashes) is one argument token.\<close>

lemma single_quoted_text_is_one_token:
  assumes "\<forall>c \<in> set w. c \<noteq> c_squote"
  shows "tokenize_inner (c_squote # w @ [c_squote]) em = [token Arg (c_squote # w @ [c_squote]) 0]"
  by (simp add: tokenize_inner_def lex_init_def lex_step_def lex_push_def Let_def
      tokenize_loop_single_quoted [OF assms] flush_arg_def)

lemma single_quoted_text_is_one_token_witness:
  "tokenize_inner (c_squote # lit ''a; rm -rf $(b) > c'' @ [c_squote]) True =
     [token Arg (c_squote # lit ''a; rm -rf $(b) > c'' @ [c_squote]) 0]"
  by (rule single_quoted_text_is_one_token) (simp add: lit_def)

end
