(* ===== verification/Shell_Segments.thy ===== *)
theory Shell_Segments
  imports Shell_Lexer
begin

text \<open>
  What the gate builds on the tokenizer (the rest of \<open>fork-core/rtk/src/discover/lexer.rs\<close>): word
  spans, the \<open>sh -c\<close> wrapper parser, the substitution and redirect tests, the two segmenters and
  \<open>shell_split\<close>. Slices by byte range may panic, so these definitions return an \<open>option\<close>; that they
  return is proved where it holds, and the one place where it does not is the unbalanced quote of
  \<open>unquote_word\<close>.
\<close>

section \<open>Words\<close>

text \<open>Adjacent argument tokens are one word; the span covers it as written.\<close>

fun word_spans_loop :: "parsed_token list \<Rightarrow> (nat \<times> nat) list \<Rightarrow> nat option \<Rightarrow> (nat \<times> nat) list" where
  "word_spans_loop [] spans previous_end = spans"
| "word_spans_loop (t # ts) spans previous_end =
     (if \<not> (tok_kind t = Arg \<or> tok_kind t = Shellism) then word_spans_loop ts spans None
      else let e = tok_end t;
               spans' = if spans \<noteq> [] \<and> previous_end = Some (tok_offset t)
                        then butlast spans @ [(fst (last spans), e)]
                        else spans @ [(tok_offset t, e)]
           in word_spans_loop ts spans' (Some e))"

definition shell_word_spans :: "rstr \<Rightarrow> (nat \<times> nat) list" where
  "shell_word_spans input = word_spans_loop (tokenize input) [] None"

section \<open>Shell wrappers\<close>

record shell_command_payload =
  payload_command :: rstr
  payload_range :: "nat \<times> nat"
  payload_quote :: "rchar option"

datatype shell_wrapper_parse =
    NotWrapper
  | Parsed shell_command_payload
  | Ambiguous

definition replace_in :: "shell_command_payload \<Rightarrow> rstr \<Rightarrow> rstr \<Rightarrow> rstr option" where
  "replace_in self invocation rewritten =
     (let replacement = (case payload_quote self of
        Some q \<Rightarrow> [q] @ rewritten @ [q]
      | None \<Rightarrow> [c_squote] @
          replace_all [c_squote] [c_squote, c_backslash, c_squote, c_squote] rewritten @ [c_squote])
      in do {
        front \<leftarrow> str_upto invocation (fst (payload_range self));
        after \<leftarrow> str_from invocation (snd (payload_range self));
        Some (front @ replacement @ after)
      })"

definition is_quote :: "rchar \<Rightarrow> bool" where
  "is_quote c = (c = c_squote \<or> c = c_dquote)"

text \<open>The inner \<open>None\<close> is the function's \<open>None\<close>; the outer one is the panic of \<open>&value[1..0]\<close>.\<close>

definition unquote_word :: "rstr \<Rightarrow> rstr option option" where
  "unquote_word value =
     (let bs = as_bytes value
      in if bs = [] then Some (Some value)
         else if is_quote (hd bs) \<and> hd bs = last bs
         then map_option Some (str_slice value 1 (blen value - 1))
         else if is_quote (hd bs) \<or> is_quote (last bs) then Some None
         else Some (Some value))"

definition is_shell_program :: "rstr \<Rightarrow> bool option" where
  "is_shell_program value = do {
     w \<leftarrow> unquote_word value;
     Some (case w of
        None \<Rightarrow> False
      | Some v \<Rightarrow> last (split_on (\<lambda>c. c = c_slash) v) \<in>
          {lit ''sh'', lit ''bash'', lit ''dash'', lit ''ksh'', lit ''zsh''})
   }"

text \<open>The quote state after a scan of the bytes: single, double, escaped.\<close>

fun quote_scan :: "nat list \<Rightarrow> bool \<Rightarrow> bool \<Rightarrow> bool \<Rightarrow> bool \<times> bool \<times> bool" where
  "quote_scan [] single double escaped = (single, double, escaped)"
| "quote_scan (b # bs) single double escaped =
     (if escaped then quote_scan bs single double False
      else if b = c_backslash \<and> \<not> single then quote_scan bs single double True
      else if b = c_squote \<and> \<not> double then quote_scan bs (\<not> single) double False
      else if b = c_dquote \<and> \<not> single then quote_scan bs single (\<not> double) False
      else quote_scan bs single double False)"

definition quotes_balanced :: "rstr \<Rightarrow> bool" where
  "quotes_balanced input =
     (case quote_scan (as_bytes input) False False False of
        (single, double, escaped) \<Rightarrow> \<not> single \<and> \<not> double \<and> \<not> escaped)"

text \<open>A short option cluster with a \<open>c\<close>: \<open>-c\<close>, \<open>-lc\<close>, \<open>-ec\<close>, \<dots>\<close>

definition is_command_flag :: "rstr \<Rightarrow> bool" where
  "is_command_flag value =
     (starts_with value [c_minus] \<and> \<not> starts_with value [c_minus, c_minus] \<and> 99 \<in> set (tl value))"

definition word_is_command_flag :: "parsed_token \<Rightarrow> bool option" where
  "word_is_command_flag t = do {
     w \<leftarrow> unquote_word (tok_value t);
     Some (case w of None \<Rightarrow> False | Some v \<Rightarrow> is_command_flag v)
   }"

text \<open>The option loop: a verdict of its own, or the tokens after the \<open>-c\<close> word, or the end.\<close>

datatype wrapper_scan = ScanReturn shell_wrapper_parse | ScanFlag "parsed_token list" | ScanEnd

fun scan_wrapper_options :: "parsed_token list \<Rightarrow> wrapper_scan option" where
  "scan_wrapper_options [] = Some ScanEnd"
| "scan_wrapper_options (t # ts) = do {
     w \<leftarrow> unquote_word (tok_value t);
     (case w of
        None \<Rightarrow> Some (ScanReturn Ambiguous)
      | Some value \<Rightarrow>
          if is_command_flag value then Some (ScanFlag ts)
          else if value \<in> {lit ''-O'', lit ''+O'', lit ''--rcfile'', lit ''--init-file''}
          then (case ts of [] \<Rightarrow> Some (ScanReturn Ambiguous) | _ # ts' \<Rightarrow> scan_wrapper_options ts')
          else if \<not> (starts_with value [c_minus] \<or> starts_with value [c_plus]) \<or>
                  value = lit ''--''
          then do {
            later \<leftarrow> any_m word_is_command_flag ts;
            Some (ScanReturn (if later then Ambiguous else NotWrapper))
          }
          else scan_wrapper_options ts)
   }"

definition wrapper_payload :: "rstr \<Rightarrow> parsed_token \<Rightarrow> shell_wrapper_parse option" where
  "wrapper_payload input t = do {
     raw \<leftarrow> str_slice input (tok_offset t) (tok_offset t + blen (tok_value t));
     (if raw \<noteq> [] \<and> is_quote (hd raw) \<and> hd raw = last raw
      then do {
        command \<leftarrow> str_slice raw (len_utf8 (hd raw)) (blen raw - len_utf8 (last raw));
        Some (Parsed \<lparr>payload_command = command,
                payload_range = (tok_offset t, tok_offset t + blen (tok_value t)),
                payload_quote = Some (hd raw)\<rparr>)
      }
      else if raw \<noteq> [] \<and> (is_quote (hd raw) \<or> is_quote (last raw)) then Some Ambiguous
      else Some (Parsed \<lparr>payload_command = raw,
                   payload_range = (tok_offset t, tok_offset t + blen (tok_value t)),
                   payload_quote = None\<rparr>))
   }"

definition parse_shell_command_wrapper :: "rstr \<Rightarrow> shell_wrapper_parse option" where
  "parse_shell_command_wrapper input =
     (case tokenize input of
        [] \<Rightarrow> Some NotWrapper
      | program # rest \<Rightarrow> do {
          shell \<leftarrow> (if tok_kind program \<noteq> Arg then Some False
                    else is_shell_program (tok_value program));
          (if \<not> shell then Some NotWrapper
           else if \<not> quotes_balanced input \<or> (\<exists>t \<in> set (program # rest). tok_kind t \<noteq> Arg)
           then Some Ambiguous
           else do {
             scan \<leftarrow> scan_wrapper_options rest;
             (case scan of
                ScanReturn r \<Rightarrow> Some r
              | ScanEnd \<Rightarrow> Some NotWrapper
              | ScanFlag after \<Rightarrow>
                  (case after of [] \<Rightarrow> Some Ambiguous | payload # _ \<Rightarrow> wrapper_payload input payload))
           })
        })"

section \<open>Substitutions and redirects\<close>

text \<open>The quote state after a byte that is not an escape.\<close>

definition toggle_single :: "nat \<Rightarrow> bool \<Rightarrow> bool \<Rightarrow> bool" where
  "toggle_single b in_single in_double = (if b = c_squote \<and> \<not> in_double then \<not> in_single else in_single)"

definition toggle_double :: "nat \<Rightarrow> bool \<Rightarrow> bool \<Rightarrow> bool" where
  "toggle_double b in_single in_double = (if b = c_dquote \<and> \<not> in_single then \<not> in_double else in_double)"

text \<open>The arms that answer \<open>true\<close>: a backtick, \<open>$(\<close>, or an unquoted \<open><(\<close> or \<open>>(\<close>.\<close>

definition substitution_at :: "nat \<Rightarrow> nat list \<Rightarrow> bool \<Rightarrow> bool \<Rightarrow> bool" where
  "substitution_at b bs in_single in_double =
     (b = c_backtick \<and> \<not> in_single \<or>
      b = c_dollar \<and> \<not> in_single \<and> bs \<noteq> [] \<and> hd bs = c_lparen \<or>
      (b = c_lt \<or> b = c_gt) \<and> \<not> in_single \<and> \<not> in_double \<and> bs \<noteq> [] \<and> hd bs = c_lparen)"

fun substitution_scan :: "nat list \<Rightarrow> bool \<Rightarrow> bool \<Rightarrow> bool" where
  "substitution_scan [] in_single in_double = False"
| "substitution_scan (b # bs) in_single in_double =
     (if b = c_backslash \<and> \<not> in_single
        then (case bs of [] \<Rightarrow> False | _ # bs' \<Rightarrow> substitution_scan bs' in_single in_double)
      else if substitution_at b bs in_single in_double then True
      else substitution_scan bs (toggle_single b in_single in_double)
             (toggle_double b in_single in_double))"

definition contains_substitution :: "rstr \<Rightarrow> bool" where
  "contains_substitution cmd = substitution_scan (as_bytes cmd) False False"

text \<open>The redirect \<open>t\<close> and the tokens after it.\<close>

definition redirect_has_file_target :: "parsed_token \<Rightarrow> parsed_token list \<Rightarrow> bool option" where
  "redirect_has_file_target t after =
     (if starts_with (trim_start_matches is_ascii_digit (tok_value t)) [c_lt, c_lt] then Some True
      else do {
        dup \<leftarrow> (case str_find (tok_value t) [c_gt, c_amp] of
                  None \<Rightarrow> Some False
                | Some pos \<Rightarrow> do {
                    tail \<leftarrow> str_from (tok_value t) (pos + 2);
                    Some (tail \<noteq> [] \<and> list_all is_fd_char tail)
                  });
        Some (if dup then False
              else case after of
                [] \<Rightarrow> True
              | next # _ \<Rightarrow> tok_kind next = Arg \<longrightarrow> tok_value next \<noteq> lit ''/dev/null'')
      })"

fun any_file_redirect :: "parsed_token list \<Rightarrow> bool option" where
  "any_file_redirect [] = Some False"
| "any_file_redirect (t # ts) = do {
     hit \<leftarrow> (if tok_kind t = Redirect then redirect_has_file_target t ts else Some False);
     if hit then Some True else any_file_redirect ts
   }"

definition contains_unattestable_construct :: "rstr \<Rightarrow> bool option" where
  "contains_unattestable_construct cmd =
     (if contains_substitution cmd then Some True else any_file_redirect (tokenize cmd))"

definition is_stdout_redirect :: "rstr \<Rightarrow> bool" where
  "is_stdout_redirect r = (starts_with r [c_gt] \<or> starts_with r (lit ''1>'') \<or> starts_with r (lit ''&>''))"

fun any_stdout_redirect :: "parsed_token list \<Rightarrow> bool option" where
  "any_stdout_redirect [] = Some False"
| "any_stdout_redirect (t # ts) = do {
     file \<leftarrow> (if tok_kind t = Redirect then redirect_has_file_target t ts else Some False);
     if file \<and> is_stdout_redirect (tok_value t) then Some True else any_stdout_redirect ts
   }"

definition has_stdout_file_redirect :: "rstr \<Rightarrow> bool option" where
  "has_stdout_file_redirect cmd = any_stdout_redirect (tokenize cmd)"

section \<open>Segments\<close>

record seg_state =
  sg_results :: "rstr list"
  sg_start :: nat
  sg_end :: "nat option"
  sg_seen_word :: bool
  sg_skip_operand :: bool

definition is_boundary :: "parsed_token \<Rightarrow> bool" where
  "is_boundary t =
     (case tok_kind t of
        Operator \<Rightarrow> True
      | Pipe _ \<Rightarrow> True
      | Shellism \<Rightarrow> tok_value t \<in> {[c_amp], [c_lparen], [c_rparen]}
      | _ \<Rightarrow> False)"

text \<open>Close the segment that ends at \<open>e\<close>: empty ones are dropped.\<close>

definition push_segment :: "rstr \<Rightarrow> nat \<Rightarrow> nat \<Rightarrow> rstr list \<Rightarrow> rstr list option" where
  "push_segment text a e results = do {
     s \<leftarrow> str_slice text a e;
     Some (if trim s = [] then results else results @ [trim s])
   }"

fun segment_step :: "rstr \<Rightarrow> parsed_token \<Rightarrow> parsed_token list \<Rightarrow> seg_state \<Rightarrow> seg_state option" where
  "segment_step text t after st =
     (if is_boundary t then do {
        results \<leftarrow> push_segment text (sg_start st) (case sg_end st of Some e \<Rightarrow> e | None \<Rightarrow> tok_offset t)
          (sg_results st);
        Some \<lparr>sg_results = results, sg_start = tok_end t, sg_end = None, sg_seen_word = False,
              sg_skip_operand = False\<rparr>
      }
      else if tok_kind t = Redirect \<and> \<not> sg_seen_word st \<and> sg_end st = None then do {
        file \<leftarrow> redirect_has_file_target t after;
        Some (st\<lparr>sg_skip_operand := file \<and> after \<noteq> [] \<and> tok_kind (hd after) = Arg,
                 sg_start := tok_end t\<rparr>)
      }
      else if sg_skip_operand st \<and> tok_kind t = Arg
      then Some (st\<lparr>sg_skip_operand := False, sg_start := tok_end t\<rparr>)
      else if tok_kind t = Redirect \<and> sg_end st = None then Some (st\<lparr>sg_end := Some (tok_offset t)\<rparr>)
      else if sg_end st = None \<and> tok_kind t \<noteq> Redirect then Some (st\<lparr>sg_seen_word := True\<rparr>)
      else Some st)"

declare segment_step.simps [simp del]

fun segment_loop :: "rstr \<Rightarrow> parsed_token list \<Rightarrow> seg_state \<Rightarrow> rstr list option" where
  "segment_loop text [] st =
     push_segment text (sg_start st) (case sg_end st of Some e \<Rightarrow> e | None \<Rightarrow> blen text) (sg_results st)"
| "segment_loop text (t # ts) st = do { st' \<leftarrow> segment_step text t ts st; segment_loop text ts st' }"

definition seg_init :: seg_state where
  "seg_init = \<lparr>sg_results = [], sg_start = 0, sg_end = None, sg_seen_word = False,
     sg_skip_operand = False\<rparr>"

definition split_for_permissions :: "rstr \<Rightarrow> rstr list option" where
  "split_for_permissions cmd =
     (let trimmed = trim cmd
      in if trimmed = [] then Some []
         else segment_loop trimmed (tokenize_inner trimmed True) seg_init)"

fun operator_loop ::
  "rstr \<Rightarrow> bool \<Rightarrow> parsed_token list \<Rightarrow> nat \<Rightarrow> rstr list \<Rightarrow> rstr list option" where
  "operator_loop text stop_at_pipe [] seg_start results =
     do { s \<leftarrow> str_from text seg_start; Some (if trim s = [] then results else results @ [trim s]) }"
| "operator_loop text stop_at_pipe (t # ts) seg_start results =
     (case tok_kind t of
        Operator \<Rightarrow> do {
          results' \<leftarrow> push_segment text seg_start (tok_offset t) results;
          operator_loop text stop_at_pipe ts (tok_end t) results'
        }
      | Pipe _ \<Rightarrow> do {
          results' \<leftarrow> push_segment text seg_start (tok_offset t) results;
          if stop_at_pipe then Some results'
          else operator_loop text stop_at_pipe ts (tok_end t) results'
        }
      | _ \<Rightarrow> operator_loop text stop_at_pipe ts seg_start results)"

definition split_on_operators :: "rstr \<Rightarrow> bool \<Rightarrow> rstr list option" where
  "split_on_operators cmd stop_at_pipe =
     (let trimmed = trim cmd
      in if trimmed = [] then Some []
         else operator_loop trimmed stop_at_pipe (tokenize trimmed) 0 [])"

definition is_split_space :: "rchar \<Rightarrow> bool \<Rightarrow> bool \<Rightarrow> bool" where
  "is_split_space c in_single in_double = ((c = c_space \<or> c = c_tab) \<and> \<not> in_single \<and> \<not> in_double)"

definition is_split_quote :: "rchar \<Rightarrow> bool \<Rightarrow> bool \<Rightarrow> bool" where
  "is_split_quote c in_single in_double =
     (c = c_squote \<and> \<not> in_double \<or> c = c_dquote \<and> \<not> in_single)"

fun shell_split_loop :: "rstr \<Rightarrow> rstr list \<Rightarrow> rstr \<Rightarrow> bool \<Rightarrow> bool \<Rightarrow> rstr list" where
  "shell_split_loop [] tokens current in_single in_double =
     (if current = [] then tokens else tokens @ [current])"
| "shell_split_loop (c # cs) tokens current in_single in_double =
     (if c = c_backslash \<and> \<not> in_single
        then (case cs of
                [] \<Rightarrow> (if current = [] then tokens else tokens @ [current])
              | next # cs' \<Rightarrow> shell_split_loop cs' tokens (current @ [next]) in_single in_double)
      else if is_split_space c in_single in_double
        then shell_split_loop cs (if current = [] then tokens else tokens @ [current]) []
               in_single in_double
      else shell_split_loop cs tokens
             (if is_split_quote c in_single in_double then current else current @ [c])
             (toggle_single c in_single in_double) (toggle_double c in_single in_double))"

definition shell_split :: "rstr \<Rightarrow> rstr list" where
  "shell_split input = shell_split_loop input [] [] False False"

section \<open>The scanners return\<close>

lemma redirect_has_file_target_total: "\<exists>b. redirect_has_file_target t ts = Some b"
proof (cases "str_find (tok_value t) [c_gt, c_amp]")
  case (Some pos)
  then obtain p q where v: "tok_value t = (p @ [c_gt, c_amp]) @ q" and pos: "pos = blen p"
    by (auto dest!: str_find_Some)
  have "pos + 2 = blen (p @ [c_gt, c_amp])"
    by (simp add: pos len_utf8_def)
  then have "str_from (tok_value t) (pos + 2) = Some q"
    unfolding v by (metis str_from_append)
  with Some show ?thesis by (auto simp: redirect_has_file_target_def)
qed (auto simp: redirect_has_file_target_def)

lemma any_file_redirect_total: "\<exists>b. any_file_redirect ts = Some b"
proof (induction ts)
  case (Cons t ts)
  with redirect_has_file_target_total [of t ts] show ?case by auto
qed auto

lemma any_stdout_redirect_total: "\<exists>b. any_stdout_redirect ts = Some b"
proof (induction ts)
  case (Cons t ts)
  with redirect_has_file_target_total [of t ts] show ?case by auto
qed auto

text \<open>
  The segmenter's position: \<open>pre\<close> is the text before the tokens that remain, the segment started
  inside it, and a recorded end is inside it too.  An operand is skipped only as the very next token,
  and only while no end is recorded.
\<close>

definition seg_ok :: "rstr \<Rightarrow> parsed_token list \<Rightarrow> seg_state \<Rightarrow> bool" where
  "seg_ok pre ts st \<longleftrightarrow>
     (sg_skip_operand st \<longrightarrow> sg_end st = None \<and> (\<exists>u us. ts = u # us \<and> tok_kind u = Arg)) \<and>
     (\<exists>a b. pre = a @ b \<and> sg_start st = blen a \<and>
        (\<forall>e. sg_end st = Some e \<longrightarrow> (\<exists>b1 b2. b = b1 @ b2 \<and> e = blen a + blen b1)))"

lemma push_segment_slice:
  assumes "text = a @ m @ z"
  shows "push_segment text (blen a) (blen a + blen m) results =
    Some (if trim m = [] then results else results @ [trim m])"
  by (simp add: push_segment_def assms)

lemma tiles_Cons_split:
  assumes "tiles crlf n (t # ts) rem"
  obtains w src s where "rem = w @ src @ s" and "\<forall>c \<in> set w. is_whitespace c"
    and "token_text crlf t src" and "tok_offset t = n + blen w"
    and "tok_end t = n + blen (w @ src)" and "tiles crlf (n + blen (w @ src)) ts s"
proof -
  from assms obtain w src s where *: "rem = w @ src @ s" "\<forall>c \<in> set w. is_whitespace c"
    "token_text crlf t src" "tok_offset t = n + blen w" "tiles crlf (n + blen (w @ src)) ts s"
    by (elim tiles_ConsE) (auto simp: add.assoc)
  moreover from * have "tok_end t = n + blen (w @ src)"
    by (simp add: tok_end_def token_text_blen [OF *(3)])
  ultimately show ?thesis using that by blast
qed

text \<open>Segments are cut out of the text, trimmed and not empty.\<close>

definition segment_of :: "rstr \<Rightarrow> rstr \<Rightarrow> bool" where
  "segment_of text seg \<longleftrightarrow> seg \<noteq> [] \<and> trim seg = seg \<and> (\<exists>p q. text = p @ seg @ q)"

lemma segment_of_trim: "text = a @ m @ z \<Longrightarrow> trim m \<noteq> [] \<Longrightarrow> segment_of text (trim m)"
  unfolding segment_of_def by (metis append_assoc trim_idem trim_split)

lemma seg_ok_fresh:
  "\<lbrakk>sg_start st = blen pre; sg_end st = None;
    sg_skip_operand st \<Longrightarrow> \<exists>u us. ts = u # us \<and> tok_kind u = Arg\<rbrakk> \<Longrightarrow> seg_ok pre ts st"
  unfolding seg_ok_def by (intro conjI exI [of _ pre] exI [of _ "[]"]) auto

lemma seg_ok_keep:
  assumes "seg_ok pre us st" "sg_start st' = sg_start st" "sg_end st' = sg_end st"
    "\<not> sg_skip_operand st'"
  shows "seg_ok (pre @ q) ts st'"
proof -
  obtain a b where ab: "pre = a @ b" "sg_start st = blen a"
    and se: "\<And>e. sg_end st = Some e \<Longrightarrow> \<exists>b1 b2. b = b1 @ b2 \<and> e = blen a + blen b1"
    using assms(1) by (auto simp: seg_ok_def)
  have "\<exists>b1 b2. b @ q = b1 @ b2 \<and> e = blen a + blen b1" if "sg_end st = Some e" for e
    using se [OF that] by force
  with ab assms show ?thesis
    unfolding seg_ok_def by (intro conjI exI [of _ a] exI [of _ "b @ q"]) auto
qed

lemma seg_ok_mark:
  assumes "seg_ok pre us st" "sg_start st' = sg_start st" "sg_end st' = Some (blen (pre @ w))"
    "\<not> sg_skip_operand st'"
  shows "seg_ok (pre @ w @ q) ts st'"
proof -
  obtain a b where ab: "pre = a @ b" "sg_start st = blen a"
    using assms(1) by (auto simp: seg_ok_def)
  then have "\<exists>b1 b2. b @ w @ q = b1 @ b2 \<and> blen (pre @ w) = blen a + blen b1"
    by (intro exI [of _ "b @ w"] exI [of _ q]) simp
  with ab assms show ?thesis
    unfolding seg_ok_def by (intro conjI exI [of _ a] exI [of _ "b @ w @ q"]) auto
qed

text \<open>Closing a segment at a recorded end, or else at position \<open>pre @ w\<close>, succeeds.\<close>

lemma seg_ok_push:
  assumes "seg_ok pre ts st" and "text = pre @ w @ z"
    and "\<forall>seg \<in> set (sg_results st). segment_of text seg"
  shows "\<exists>rs. push_segment text (sg_start st)
      (case sg_end st of Some e \<Rightarrow> e | None \<Rightarrow> blen (pre @ w)) (sg_results st) = Some rs \<and>
    (\<forall>seg \<in> set rs. segment_of text seg)"
proof -
  obtain a b where ab: "pre = a @ b" "sg_start st = blen a"
    and se: "\<And>e. sg_end st = Some e \<Longrightarrow> \<exists>b1 b2. b = b1 @ b2 \<and> e = blen a + blen b1"
    using assms(1) by (auto simp: seg_ok_def)
  obtain m y where m: "text = a @ m @ y"
    and e: "(case sg_end st of Some e \<Rightarrow> e | None \<Rightarrow> blen (pre @ w)) = blen a + blen m"
  proof (cases "sg_end st")
    case None
    with that [of "b @ w" z] ab assms(2) show ?thesis by (simp add: add.assoc)
  next
    case (Some e)
    with se obtain b1 b2 where "b = b1 @ b2" "e = blen a + blen b1" by blast
    with that [of b1 "b2 @ w @ z"] ab assms(2) Some show ?thesis by simp
  qed
  from push_segment_slice [OF m] segment_of_trim [OF m] assms(3) show ?thesis
    unfolding e ab(2) by auto
qed

lemma segment_step_ok:
  assumes eq: "text = pre @ rem" and tiles: "tiles crlf (blen pre) (t # ts) rem"
    and ok: "seg_ok pre (t # ts) st" and segs: "\<forall>seg \<in> set (sg_results st). segment_of text seg"
  obtains st' w src s where "segment_step text t ts st = Some st'" and "rem = w @ src @ s"
    and "tiles crlf (blen (pre @ w @ src)) ts s" and "seg_ok (pre @ w @ src) ts st'"
    and "\<forall>seg \<in> set (sg_results st'). segment_of text seg"
proof -
  obtain w src s where rem: "rem = w @ src @ s" and off: "tok_offset t = blen (pre @ w)"
    and endt: "tok_end t = blen (pre @ w @ src)"
    and nxt: "tiles crlf (blen (pre @ w @ src)) ts s"
    using tiles by (elim tiles_Cons_split) (auto simp: add.assoc)
  obtain fl where fl: "redirect_has_file_target t ts = Some fl"
    using redirect_has_file_target_total by blast
  have arg: "sg_skip_operand st \<Longrightarrow> tok_kind t = Arg \<and> sg_end st = None"
    using ok by (auto simp: seg_ok_def)
  have "text = pre @ w @ (src @ s)" using eq rem by simp
  from seg_ok_push [OF ok this segs] obtain rs where
    push: "push_segment text (sg_start st)
      (case sg_end st of Some e \<Rightarrow> e | None \<Rightarrow> tok_offset t) (sg_results st) = Some rs"
    and rs: "\<forall>seg \<in> set rs. segment_of text seg"
    unfolding off by blast
  have hd_ts: "\<exists>u us. ts = u # us \<and> tok_kind u = Arg" if "ts \<noteq> []" "tok_kind (hd ts) = Arg"
    using that by (cases ts) auto
  have "\<exists>st'. segment_step text t ts st = Some st' \<and> seg_ok (pre @ w @ src) ts st' \<and>
      (\<forall>seg \<in> set (sg_results st'). segment_of text seg)"
    using push rs segs fl arg endt off hd_ts
      seg_ok_keep [OF ok, of _ "w @ src" ts] seg_ok_mark [OF ok, of _ w src ts]
    by (auto simp: segment_step.simps is_boundary_def intro!: seg_ok_fresh)
  with rem nxt that show ?thesis by blast
qed

lemma segment_loop_ok:
  assumes "text = pre @ rem" and "tiles crlf (blen pre) ts rem" and "seg_ok pre ts st"
    and "\<forall>seg \<in> set (sg_results st). segment_of text seg"
  shows "\<exists>rs. segment_loop text ts st = Some rs \<and> (\<forall>seg \<in> set rs. segment_of text seg)"
  using assms
proof (induction ts arbitrary: pre rem st)
  case Nil
  then show ?case
    using seg_ok_push [OF Nil.prems(3), of _ rem "[]"] by simp
next
  case (Cons t ts)
  from Cons.prems obtain st' w src s where step: "segment_step text t ts st = Some st'"
    and rem: "rem = w @ src @ s" and tl: "tiles crlf (blen (pre @ w @ src)) ts s"
    and ok: "seg_ok (pre @ w @ src) ts st'"
    and res: "\<forall>seg \<in> set (sg_results st'). segment_of text seg"
    by (rule segment_step_ok)
  have "text = (pre @ w @ src) @ s"
    using Cons.prems(1) rem by simp
  from Cons.IH [OF this tl ok res] step show ?case by simp
qed

lemma seg_ok_init: "seg_ok [] ts seg_init"
  by (rule seg_ok_fresh) (simp_all add: seg_init_def)

lemma split_for_permissions_segments:
  "\<exists>segs. split_for_permissions cmd = Some segs \<and> list_all (segment_of (trim cmd)) segs"
proof (cases "trim cmd = []")
  case False
  have "\<exists>rs. segment_loop (trim cmd) (tokenize_inner (trim cmd) True) seg_init = Some rs \<and>
      (\<forall>seg \<in> set rs. segment_of (trim cmd) seg)"
    by (rule segment_loop_ok [of _ "[]" "trim cmd" True])
      (use tokenize_inner_tiles [of True "trim cmd"] in \<open>simp_all add: seg_ok_init, simp add: seg_init_def\<close>)
  with False show ?thesis
    by (auto simp: split_for_permissions_def list_all_iff)
qed (simp add: split_for_permissions_def)

text \<open>The permission segmenter never panics: every byte range it cuts is in order and on
  character boundaries, and every segment it returns is a non-empty, trimmed piece of the command.\<close>

lemma split_for_permissions_returns:
  "\<exists>segs. split_for_permissions cmd = Some segs \<and> list_all (segment_of (trim cmd)) segs"
  by (rule split_for_permissions_segments)

section \<open>Nothing is lost between the segments\<close>

text \<open>A first piece, then separators and pieces in turn.\<close>

fun interleave :: "rstr \<Rightarrow> (rstr \<times> rstr) list \<Rightarrow> rstr" where
  "interleave p [] = p"
| "interleave p ((sep, q) # ps) = p @ sep @ interleave q ps"

abbreviation nonblank :: "rstr list \<Rightarrow> rstr list" where
  "nonblank ps \<equiv> filter (\<lambda>s. s \<noteq> []) (map trim ps)"

lemma interleave_prefix: "a @ interleave p ps = interleave (a @ p) ps"
  by (induction p ps rule: interleave.induct) auto

lemma segment_loop_interleave:
  assumes "text = a @ b @ rem" and "tiles True (blen (a @ b)) ts rem"
    and "list_all (\<lambda>t. tok_kind t \<noteq> Redirect) ts"
    and "sg_start st = blen a" "sg_end st = None" "\<not> sg_skip_operand st"
  shows "\<exists>p ps. b @ rem = interleave p ps \<and>
    list_all2 (token_text True) (filter is_boundary ts) (map fst ps) \<and>
    segment_loop text ts st = Some (sg_results st @ nonblank (p # map snd ps))"
  using assms
proof (induction ts arbitrary: a b rem st)
  case Nil
  have "push_segment text (blen a) (blen a + blen (b @ rem)) (sg_results st) =
      Some (sg_results st @ nonblank [b @ rem])"
    using push_segment_slice [of "text" a "b @ rem" "[]" "sg_results st"] Nil.prems(1) by simp
  with Nil.prems show ?case
    by (intro exI [of _ "b @ rem"] exI [of _ "[]"]) (simp add: add.assoc)
next
  case (Cons t ts)
  from Cons.prems(2) obtain w src s where rem: "rem = w @ src @ s"
    and src: "token_text True t src" and off: "tok_offset t = blen (a @ b) + blen w"
    and endt: "tok_end t = blen (a @ b @ w @ src)" and tl: "tiles True (blen (a @ b @ w @ src)) ts s"
    by (elim tiles_Cons_split) (auto simp: add.assoc)
  note nr = Cons.prems(3)
  show ?case
  proof (cases "is_boundary t")
    case True
    let ?st = "\<lparr>sg_results = sg_results st @ nonblank [b @ w], sg_start = tok_end t, sg_end = None,
      sg_seen_word = False, sg_skip_operand = False\<rparr>"
    have "push_segment text (blen a) (blen a + blen (b @ w)) (sg_results st) =
        Some (sg_results st @ nonblank [b @ w])"
      using push_segment_slice [of "text" a "b @ w" "src @ s" "sg_results st"] Cons.prems(1) rem by simp
    then have step: "segment_step text t ts st = Some ?st"
      using True Cons.prems(4-6) off by (simp add: segment_step.simps add.assoc)
    have "\<exists>p ps. [] @ s = interleave p ps \<and>
        list_all2 (token_text True) (filter is_boundary ts) (map fst ps) \<and>
        segment_loop text ts ?st = Some (sg_results ?st @ nonblank (p # map snd ps))"
      by (rule Cons.IH [of "a @ b @ w @ src"])
        (use Cons.prems(1) rem tl endt nr in \<open>simp_all add: add.assoc\<close>)
    then obtain p ps where "s = interleave p ps"
      "list_all2 (token_text True) (filter is_boundary ts) (map fst ps)"
      "segment_loop text ts ?st = Some (sg_results ?st @ nonblank (p # map snd ps))"
      by auto
    with True step src rem show ?thesis
      by (intro exI [of _ "b @ w"] exI [of _ "(src, p) # ps"]) simp
  next
    case False
    from False Cons.prems(4-6) nr have
      step: "segment_step text t ts st = Some (st\<lparr>sg_seen_word := True\<rparr>)"
      by (simp add: segment_step.simps)
    have "\<exists>p ps. (b @ w @ src) @ s = interleave p ps \<and>
        list_all2 (token_text True) (filter is_boundary ts) (map fst ps) \<and>
        segment_loop text ts (st\<lparr>sg_seen_word := True\<rparr>) =
          Some (sg_results (st\<lparr>sg_seen_word := True\<rparr>) @ nonblank (p # map snd ps))"
      by (rule Cons.IH [of a "b @ w @ src" s])
        (use Cons.prems rem tl nr in \<open>simp_all add: add.assoc\<close>)
    with False step rem show ?thesis by simp
  qed
qed

text \<open>In a command with no redirect the permission segmenter loses nothing: the command is its
  segments with the boundary tokens (operators, pipes, newlines, background, subshell) between them
  and blanks around them.\<close>

lemma split_for_permissions_covers:
  assumes "list_all (\<lambda>t. tok_kind t \<noteq> Redirect) (tokenize_inner (trim cmd) True)"
  shows "\<exists>p ps. trim cmd = interleave p ps \<and>
    list_all2 (token_text True) (filter is_boundary (tokenize_inner (trim cmd) True)) (map fst ps) \<and>
    split_for_permissions cmd = Some (nonblank (p # map snd ps))"
proof (cases "trim cmd = []")
  case True
  moreover have "tokenize_inner [] True = []" "trim [] = []"
    by (simp_all add: tokenize_inner_def lex_init_def flush_arg_def trim_Nil_iff)
  ultimately show ?thesis
    by (intro exI [of _ "[]"] exI [of _ "[]"]) (simp add: split_for_permissions_def)
next
  case False
  have "\<exists>p ps. [] @ trim cmd = interleave p ps \<and>
    list_all2 (token_text True) (filter is_boundary (tokenize_inner (trim cmd) True)) (map fst ps) \<and>
    segment_loop (trim cmd) (tokenize_inner (trim cmd) True) seg_init =
      Some (sg_results seg_init @ nonblank (p # map snd ps))"
    by (rule segment_loop_interleave [of _ "[]" "[]"])
      (use assms tokenize_inner_tiles [of True "trim cmd"] in \<open>simp_all add: seg_init_def\<close>)
  then show ?thesis
    unfolding split_for_permissions_def Let_def if_not_P [OF False] by (simp add: seg_init_def)
qed

lemma split_for_permissions_covers_witness:
  "\<exists>p ps. trim (lit ''a b && c'') = interleave p ps \<and>
    list_all2 (token_text True) (filter is_boundary (tokenize_inner (trim (lit ''a b && c'')) True))
      (map fst ps) \<and>
    split_for_permissions (lit ''a b && c'') = Some (nonblank (p # map snd ps))"
  by (rule split_for_permissions_covers) (simp add: lexer_defs rust_defs trim_def Let_def)

section \<open>The one slice that panics\<close>

lemma first_byte: "as_bytes v \<noteq> [] \<Longrightarrow> hd (as_bytes v) = c \<Longrightarrow> c < 0x80 \<Longrightarrow> \<exists>u. v = c # u"
proof (cases v)
  case (Cons d u)
  assume "hd (as_bytes v) = c" "c < 0x80"
  with Cons have "hd (utf8_encode d) = c" "utf8_encode d \<noteq> []"
    by (auto simp: utf8_encode_def hd_append split: if_splits)
  with \<open>c < 0x80\<close> utf8_encode_wide [of d c] Cons show ?thesis
    by (cases "d < 0x80") (auto simp: utf8_encode_ascii)
qed simp

lemma last_byte: "as_bytes v \<noteq> [] \<Longrightarrow> last (as_bytes v) = c \<Longrightarrow> c < 0x80 \<Longrightarrow> \<exists>u. v = u @ [c]"
proof (cases v rule: rev_cases)
  case (snoc u d)
  assume "last (as_bytes v) = c" "c < 0x80"
  with snoc have "last (utf8_encode d) = c" "utf8_encode d \<noteq> []"
    by (auto simp: utf8_encode_def split: if_splits)
  with \<open>c < 0x80\<close> utf8_encode_wide [of d c] snoc show ?thesis
    by (cases "d < 0x80") (auto simp: utf8_encode_ascii)
qed simp

lemma unquote_quoted:
  assumes "is_quote c" shows "unquote_word (c # w @ [c]) = Some (Some w)"
proof -
  have "str_slice ([c] @ w @ [c]) (blen [c]) (blen [c] + blen w) = Some w"
    by (rule str_slice_append)
  with assms show ?thesis
    by (auto simp: unquote_word_def utf8_encode_ascii is_quote_def len_utf8_def hd_append)
qed

lemma unquote_word_None_iff: "unquote_word v = None \<longleftrightarrow> v = [c_squote] \<or> v = [c_dquote]"
proof
  assume none: "unquote_word v = None"
  then have q: "as_bytes v \<noteq> []" "is_quote (hd (as_bytes v))" "hd (as_bytes v) = last (as_bytes v)"
    by (auto simp: unquote_word_def Let_def split: if_splits)
  let ?c = "hd (as_bytes v)"
  from q have "?c < 0x80" by (auto simp: is_quote_def)
  with q first_byte [of v ?c] last_byte [of v ?c] obtain u w where "v = ?c # u" "v = w @ [?c]" by auto
  then consider "v = [?c]" | m where "v = ?c # m @ [?c]"
    by (metis append_Nil append_butlast_last_id last_ConsR last_snoc list.sel(3) tl_append2)
  then show "v = [c_squote] \<or> v = [c_dquote]"
  proof cases
    case (2 m)
    with unquote_quoted [OF q(2), of m] none show ?thesis by simp
  qed (use q(2) in \<open>auto simp: is_quote_def\<close>)
qed (auto simp: unquote_word_def is_quote_def str_slice_def len_utf8_def utf8_encode_def)

text \<open>Unquoting a word panics exactly on a lone quote character, since the range to cut is then
  reversed, and the wrapper parser, which unquotes the program word before it checks that the quotes
  are balanced, panics on such a command.\<close>

lemma unquote_word_panics_iff:
  "(unquote_word v = None \<longleftrightarrow> v = [c_squote] \<or> v = [c_dquote]) \<and>
   parse_shell_command_wrapper [c_squote] = None \<and> parse_shell_command_wrapper [c_dquote] = None"
  by (intro conjI unquote_word_None_iff; code_simp)

section \<open>Commands without quotes\<close>

definition quote_free :: "rstr \<Rightarrow> bool" where
  "quote_free s = list_all (\<lambda>c. \<not> is_quote c) s"

lemma quote_free_mono: "quote_free t \<Longrightarrow> set s \<subseteq> set t \<Longrightarrow> quote_free s"
  by (auto simp: quote_free_def list_all_iff)

lemma quote_free_unquote: "quote_free v \<Longrightarrow> unquote_word v \<noteq> None"
  by (auto simp: unquote_word_None_iff quote_free_def is_quote_def simp del: not_None_eq)

lemma token_quote_free: "quote_free s \<Longrightarrow> t \<in> set (tokenize s) \<Longrightarrow> quote_free (tok_value t)"
  using words.token_in_input [of t s] by (auto simp: token_text_def quote_free_def)

lemma scan_wrapper_options_total:
  assumes "\<forall>t \<in> set ts. unquote_word (tok_value t) \<noteq> None"
  shows "\<exists>r. scan_wrapper_options ts = Some r \<and> (\<forall>us. r = ScanFlag us \<longrightarrow> set us \<subseteq> set ts)"
  using assms
proof (induction ts rule: scan_wrapper_options.induct)
  case (2 t ts)
  have any: "\<exists>b. any_m word_is_command_flag ts = Some b"
    using "2.prems" by (intro any_m_total) (auto simp: word_is_command_flag_def)
  from "2.prems" obtain w where w: "unquote_word (tok_value t) = Some w" by auto
  show ?case
  proof (cases w)
    case (Some v)
    consider "is_command_flag v"
      | "\<not> is_command_flag v" "v \<in> {lit ''-O'', lit ''+O'', lit ''--rcfile'', lit ''--init-file''}"
      | "\<not> is_command_flag v" "v \<notin> {lit ''-O'', lit ''+O'', lit ''--rcfile'', lit ''--init-file''}"
        "\<not> (starts_with v [c_minus] \<or> starts_with v [c_plus]) \<or> v = lit ''--''"
      | "\<not> is_command_flag v" "v \<notin> {lit ''-O'', lit ''+O'', lit ''--rcfile'', lit ''--init-file''}"
        "\<not> (\<not> (starts_with v [c_minus] \<or> starts_with v [c_plus]) \<or> v = lit ''--'')"
      by blast
    then show ?thesis
    proof cases
      case 2
      show ?thesis
      proof (cases ts)
        case (Cons u us)
        with "2.IH"(1) [OF w Some 2 Cons] "2.prems" have
          "\<exists>r. scan_wrapper_options us = Some r \<and> (\<forall>xs. r = ScanFlag xs \<longrightarrow> set xs \<subseteq> set us)"
          by simp
        with w Some 2 Cons show ?thesis by auto
      qed (use w Some 2 in auto)
    next
      case 4
      with "2.IH"(2) [OF w Some 4] "2.prems" have
        "\<exists>r. scan_wrapper_options ts = Some r \<and> (\<forall>xs. r = ScanFlag xs \<longrightarrow> set xs \<subseteq> set ts)"
        by simp
      with w Some 4 show ?thesis by auto
    qed (use w Some any in auto)
  qed (simp add: w)
qed simp

lemma wrapper_payload_quote_free:
  assumes "quote_free s" and "t \<in> set (tokenize s)"
  shows "\<exists>pl. wrapper_payload s t = Some (Parsed pl) \<and> quote_free (payload_command pl)"
proof -
  have "str_slice s (tok_offset t) (tok_offset t + blen (tok_value t)) = Some (tok_value t)"
    using words.token_slice [OF assms(2)] by (auto simp: token_text_def tok_end_def)
  moreover note q = token_quote_free [OF assms]
  moreover have "tok_value t \<noteq> [] \<Longrightarrow> \<not> is_quote (hd (tok_value t)) \<and> \<not> is_quote (last (tok_value t))"
    using q by (auto simp: quote_free_def list_all_iff)
  ultimately show ?thesis by (auto simp: wrapper_payload_def)
qed

lemma parse_quote_free:
  assumes "quote_free s"
  shows "\<exists>r. parse_shell_command_wrapper s = Some r \<and>
    (\<forall>pl. r = Parsed pl \<longrightarrow> quote_free (payload_command pl))"
proof (cases "tokenize s")
  case (Cons program rest)
  have uq: "\<forall>t \<in> set (program # rest). unquote_word (tok_value t) \<noteq> None"
    using token_quote_free [OF assms] quote_free_unquote Cons by metis
  then obtain b where b: "is_shell_program (tok_value program) = Some b"
    by (auto simp: is_shell_program_def)
  from uq obtain r where r: "scan_wrapper_options rest = Some r"
    and us: "\<forall>us. r = ScanFlag us \<longrightarrow> set us \<subseteq> set rest"
    using scan_wrapper_options_total [of rest] by auto
  have pl: "\<exists>pl. wrapper_payload s u = Some (Parsed pl) \<and> quote_free (payload_command pl)"
    if "r = ScanFlag (u # us)" for u us
    using wrapper_payload_quote_free [OF assms, of u] that us Cons by auto
  show ?thesis
  proof (cases r)
    case (ScanFlag us)
    with b r pl Cons show ?thesis
      by (cases us) (fastforce simp: parse_shell_command_wrapper_def)+
  next
    case (ScanReturn x)
    have "x \<noteq> Parsed p" for p
      using r unfolding ScanReturn
      by (induction rest rule: scan_wrapper_options.induct)
        (auto split: bind_splits option.splits if_splits list.splits)
    with b r ScanReturn Cons show ?thesis by (auto simp: parse_shell_command_wrapper_def)
  qed (use b r Cons in \<open>auto simp: parse_shell_command_wrapper_def\<close>)
qed (simp add: parse_shell_command_wrapper_def)

end
