(* ===== verification/Command_Prefixes.thy ===== *)
theory Command_Prefixes
  imports Shell_Segments "HOL-Library.Product_Lexorder" "HOL-Library.List_Lexorder"
begin

text \<open>
  the prefixes a command may carry before the word that runs: assignments, \<open>env\<close>, the execution
  wrappers \<open>nice\<close>, \<open>stdbuf\<close>, \<open>time\<close>, \<open>timeout\<close>, \<open>nohup\<close>, and keyword or configured prefixes
  (\<open>execution_prefix\<close>, \<open>strip_word_prefix\<close>, \<open>normalize_transparent_prefixes\<close> and
  \<open>ansi_c_quote_defeats_lexer\<close> of \<open>fork-core/rtk/src/discover/registry.rs\<close>; \<open>peel_one\<close>,
  \<open>peel_env\<close>, \<open>matching_readings\<close> and \<open>strip_grammar_residue\<close> of \<open>permissions.rs\<close>).

  Two things the code consults are arguments, in a \<open>gate_env\<close>: the compiled assignment regex (the
  byte offset where its match at the start of the text ends) and whether an absolute path is the
  executable that \<open>PATH\<close> gives for its base name, which reads the file system.
\<close>

record gate_env =
  assignment_word :: "rstr \<Rightarrow> nat option"
  absolute_matches_path_executable :: "rstr \<Rightarrow> rstr \<Rightarrow> bool"

section \<open>Execution prefixes\<close>

definition builtin_transparent_prefixes :: "rstr list" where
  "builtin_transparent_prefixes =
     [lit ''uv run'', lit ''noglob'', lit ''command'', lit ''builtin'', lit ''exec'',
      lit ''nocorrect'']"

definition executable_name :: "gate_env \<Rightarrow> rstr \<Rightarrow> rstr" where
  "executable_name env program =
     (if starts_with program [c_slash]
      then let basename = (case file_name program of Some name \<Rightarrow> name | None \<Rightarrow> program)
           in if absolute_matches_path_executable env program basename then basename else program
      else program)"

text \<open>\<open>str::parse::<i32>().is_ok()\<close>: an optional sign and digits, in range.\<close>

definition digits_value :: "rstr \<Rightarrow> nat" where
  "digits_value ds = foldl (\<lambda>n d. 10 * n + (d - 48)) 0 ds"

definition parses_i32 :: "rstr \<Rightarrow> bool" where
  "parses_i32 s =
     (let negative = starts_with s [c_minus];
          ds = (if negative \<or> starts_with s [c_plus] then tl s else s)
      in ds \<noteq> [] \<and> list_all is_ascii_digit ds \<and>
         digits_value ds \<le> (if negative then 2147483648 else 2147483647))"

text \<open>What an option loop does with a word: step over it, over it and its operand, over it and stop
  (\<open>--\<close>), stop before it, or give up.\<close>

datatype option_step = OptSkip | OptSkipTwo | OptEnd | OptStop | OptRefuse

fun skip_options :: "('a \<Rightarrow> option_step) \<Rightarrow> 'a list \<Rightarrow> 'a list option" where
  "skip_options classify [] = Some []"
| "skip_options classify (x # xs) =
     (case classify x of
        OptSkip \<Rightarrow> skip_options classify xs
      | OptSkipTwo \<Rightarrow> (case xs of [] \<Rightarrow> Some [] | _ # ys \<Rightarrow> skip_options classify ys)
      | OptEnd \<Rightarrow> Some xs
      | OptStop \<Rightarrow> Some (x # xs)
      | OptRefuse \<Rightarrow> None)"

definition nice_option :: "rstr \<Rightarrow> option_step" where
  "nice_option v =
     (if v = lit ''--'' then OptEnd
      else if v = lit ''-n'' \<or> v = lit ''--adjustment'' then OptSkipTwo
      else if starts_with v (lit ''--adjustment='') then OptSkip
      else if starts_with v [c_minus] \<and> parses_i32 (tl v) then OptSkip
      else OptStop)"

definition stdbuf_option :: "rstr \<Rightarrow> option_step" where
  "stdbuf_option v =
     (if v = lit ''--'' then OptEnd
      else if v \<in> {lit ''-i'', lit ''-o'', lit ''-e'', lit ''--input'', lit ''--output'', lit ''--error''}
      then OptSkipTwo
      else if starts_with v (lit ''--input='') \<or> starts_with v (lit ''--output='') \<or>
              starts_with v (lit ''--error='') \<or>
              blen v > 2 \<and> as_bytes v ! 1 \<in> {105, 111, 101}
      then OptSkip
      else OptStop)"

definition time_option :: "rstr \<Rightarrow> option_step" where
  "time_option v = (if v = lit ''-p'' \<or> v = lit ''--'' then OptSkip else OptStop)"

definition timeout_option :: "rstr \<Rightarrow> option_step" where
  "timeout_option v =
     (if v = lit ''--'' then OptEnd
      else if v \<in> {lit ''-s'', lit ''--signal'', lit ''-k'', lit ''--kill-after''} then OptSkipTwo
      else if v \<in> {lit ''--preserve-status'', lit ''--foreground'', lit ''-v'', lit ''--verbose''}
      then OptSkip
      else if starts_with v (lit ''--signal='') \<or> starts_with v (lit ''--kill-after='') \<or>
              blen v > 2 \<and> (starts_with v (lit ''-s'') \<or> starts_with v (lit ''-k''))
      then OptSkip
      else if starts_with v [c_minus] then OptRefuse
      else OptStop)"

definition is_timeout_duration :: "rstr \<Rightarrow> bool" where
  "is_timeout_duration v =
     (let number = trim_end_matches (\<lambda>c. c \<in> {115, 109, 104, 100}) v
      in number \<noteq> [] \<and> list_all (\<lambda>b. is_ascii_digit b \<or> b = c_dot) (as_bytes number))"

text \<open>The argument tokens from the wrapped command on, or \<open>None\<close> where the code gives up.\<close>

definition prefix_child :: "rstr \<Rightarrow> parsed_token list \<Rightarrow> parsed_token list option" where
  "prefix_child program args =
     (if program = lit ''nice'' then skip_options (nice_option \<circ> tok_value) args
      else if program = lit ''stdbuf''
      then (if args \<noteq> [] \<and> stdbuf_option (tok_value (hd args)) \<in> {OptSkip, OptSkipTwo}
            then skip_options (stdbuf_option \<circ> tok_value) args else None)
      else if program = lit ''time'' then skip_options (time_option \<circ> tok_value) args
      else if program = lit ''timeout''
      then (case skip_options (timeout_option \<circ> tok_value) args of
              None \<Rightarrow> None
            | Some [] \<Rightarrow> None
            | Some (duration # rest) \<Rightarrow>
                if is_timeout_duration (tok_value duration) then Some rest else None)
      else if program = lit ''nohup''
      then (if args \<noteq> [] \<and> starts_with (tok_value (hd args)) [c_minus] then None else Some args)
      else None)"

definition execution_prefix :: "gate_env \<Rightarrow> rstr \<Rightarrow> (rstr \<times> rstr) option option" where
  "execution_prefix env command =
     (case filter (\<lambda>t. tok_kind t = Arg) (tokenize command) of
        [] \<Rightarrow> Some None
      | program # args \<Rightarrow>
          (case prefix_child (executable_name env (tok_value program)) args of
             None \<Rightarrow> Some None
           | Some [] \<Rightarrow> Some None
           | Some (child # _) \<Rightarrow> do {
               front \<leftarrow> str_upto command (tok_offset child);
               after \<leftarrow> str_from command (tok_offset child);
               Some (Some (trim_end front, trim_start after))
             }))"

section \<open>Keyword and configured prefixes\<close>

definition strip_word_prefix :: "rstr \<Rightarrow> rstr \<Rightarrow> rstr option" where
  "strip_word_prefix cmd pre =
     (if cmd = pre then Some []
      else case strip_prefix cmd pre of
        Some (c # rest) \<Rightarrow> if c = c_space then Some (trim_start rest) else None
      | _ \<Rightarrow> None)"

text \<open>Longer prefixes first, equal lengths in text order.\<close>

definition normalize_transparent_prefixes :: "rstr list \<Rightarrow> rstr list" where
  "normalize_transparent_prefixes pres =
     remdups_adj (sort_key (\<lambda>p. (- int (blen p), p)) (filter (\<lambda>p. p \<noteq> []) (map trim pres)))"

definition match_only_keywords :: "rstr list" where
  "match_only_keywords = [lit ''sudo'', lit ''xargs'']"

definition gate_prefixes :: "rstr list \<Rightarrow> rstr list" where
  "gate_prefixes transparent_prefixes =
     normalize_transparent_prefixes
       (builtin_transparent_prefixes @ match_only_keywords @ transparent_prefixes)"

section \<open>Peeling\<close>

definition env_option :: "rstr \<Rightarrow> option_step" where
  "env_option w =
     (if w \<in> {lit ''-i'', lit ''-'', lit ''--ignore-environment'', lit ''-0'', lit ''--null''} then OptSkip
      else if w \<in> {lit ''-u'', lit ''--unset'', lit ''-C'', lit ''--chdir''} then OptSkipTwo
      else if w = lit ''--'' then OptEnd
      else if starts_with w (lit ''--unset='') \<or> starts_with w (lit ''--chdir='') then OptSkip
      else if starts_with w [c_minus] then OptRefuse
      else OptStop)"

text \<open>The word spans with the text they cover.\<close>

definition word_texts :: "rstr \<Rightarrow> ((nat \<times> nat) \<times> rstr) list option" where
  "word_texts cmd =
     map_m (\<lambda>(a, e). do { w \<leftarrow> str_slice cmd a e; Some ((a, e), w) }) (shell_word_spans cmd)"

definition peel_env :: "rstr \<Rightarrow> rstr option option" where
  "peel_env cmd = do {
     words \<leftarrow> word_texts cmd;
     (case words of
        [] \<Rightarrow> Some None
      | (_, program) # rest \<Rightarrow>
          if last (split_on (\<lambda>c. c = c_slash) program) \<noteq> lit ''env'' then Some None
          else (case skip_options (env_option \<circ> snd) rest of
                  None \<Rightarrow> Some None
                | Some [] \<Rightarrow> Some None
                | Some (((start, _), _) # _) \<Rightarrow> do {
                    r \<leftarrow> str_from cmd start;
                    Some (Some (trim_start r))
                  }))
   }"

fun first_prefix :: "rstr \<Rightarrow> rstr list \<Rightarrow> rstr option" where
  "first_prefix cmd [] = None"
| "first_prefix cmd (p # ps) =
     (case strip_word_prefix cmd p of Some r \<Rightarrow> Some r | None \<Rightarrow> first_prefix cmd ps)"

definition peel_one :: "gate_env \<Rightarrow> rstr list \<Rightarrow> rstr \<Rightarrow> rstr option option" where
  "peel_one env pres cmd =
     (case assignment_word env cmd of
        Some e \<Rightarrow> do { r \<leftarrow> str_from cmd e; Some (Some (trim_start r)) }
      | None \<Rightarrow> do {
          e \<leftarrow> peel_env cmd;
          (case e of
             Some rest \<Rightarrow> Some (Some rest)
           | None \<Rightarrow> do {
               x \<leftarrow> execution_prefix env cmd;
               (case x of
                  Some (_, inner) \<Rightarrow> Some (Some inner)
                | None \<Rightarrow> Some (first_prefix cmd pres))
             })
        })"

record readings =
  rd_readings :: "rstr list"
  rd_complete :: bool

definition as_written :: "rstr \<Rightarrow> readings" where
  "as_written segment = \<lparr>rd_readings = [segment], rd_complete = True\<rparr>"

definition max_matching_peels :: nat where
  "max_matching_peels = 32"

function readings_loop :: "gate_env \<Rightarrow> rstr list \<Rightarrow> rstr list \<Rightarrow> rstr \<Rightarrow> readings option" where
  "readings_loop env pres rs rest = do {
     peeled \<leftarrow> peel_one env pres rest;
     (case peeled of
        None \<Rightarrow> Some \<lparr>rd_readings = rs, rd_complete = True\<rparr>
      | Some inner \<Rightarrow>
          if inner = [] \<or> inner = rest then Some \<lparr>rd_readings = rs, rd_complete = True\<rparr>
          else if length rs > max_matching_peels then Some \<lparr>rd_readings = rs, rd_complete = False\<rparr>
          else readings_loop env pres (rs @ [inner]) inner)
   }"
  by auto
termination
  by (relation "measure (\<lambda>(env, pres, rs, rest). Suc max_matching_peels - length rs)") auto

declare readings_loop.simps [simp del]

definition matching_readings :: "gate_env \<Rightarrow> rstr \<Rightarrow> rstr list \<Rightarrow> readings option" where
  "matching_readings env segment pres = readings_loop env pres [trim segment] (trim segment)"

lemma split_once_shorter: "split_once P s = Some (w, r) \<Longrightarrow> length r < length s"
  by (induction s arbitrary: w) (auto split: if_splits option.splits)

definition residue_word :: "rstr \<Rightarrow> bool" where
  "residue_word w = (w \<in> {[c_lbrace], [c_rbrace], [c_bang], [c_lparen], [c_rparen]})"

definition residue_tail :: "rstr \<Rightarrow> rstr option" where
  "residue_tail rest =
     (case split_once (\<lambda>c. c = c_space \<or> c = c_tab) rest of
        Some (w, r) \<Rightarrow> if residue_word w then Some (trim_start r) else None
      | None \<Rightarrow> None)"

lemma residue_tail_shorter: "residue_tail rest = Some r \<Longrightarrow> length r < length rest"
  unfolding residue_tail_def
  using length_trim_start le_less_trans
  by (fastforce split: option.splits if_splits dest: split_once_shorter)

function residue_loop :: "rstr \<Rightarrow> rstr" where
  "residue_loop rest =
     (case residue_tail rest of
        None \<Rightarrow> rest
      | Some r \<Rightarrow> if r = rest then rest else residue_loop r)"
  by auto
termination
  by (relation "measure length") (auto dest: residue_tail_shorter)

declare residue_loop.simps [simp del]

definition strip_grammar_residue :: "rstr \<Rightarrow> rstr" where
  "strip_grammar_residue segment = residue_loop (trim segment)"

section \<open>ANSI-C quotes\<close>

text \<open>\<open>QuoteScan\<close> walks the bytes as \<open>(previous byte, byte, in single, in double)\<close>; an escape pair
  outside single quotes is stepped over. The scan is true when a \<open>$'\<close> span is closed by a quote that
  an odd run of backslashes precedes.\<close>

record ansi_state =
  an_span :: bool
  an_run :: nat

definition ansi_step :: "nat option \<Rightarrow> nat \<Rightarrow> bool \<Rightarrow> bool \<Rightarrow> ansi_state \<Rightarrow> ansi_state option" where
  "ansi_step prev b in_single in_double st =
     (if b = c_squote \<and> \<not> in_double
      then if \<not> in_single then Some \<lparr>an_span = (prev = Some c_dollar), an_run = 0\<rparr>
           else if an_span st \<and> an_run st mod 2 = 1 then None
           else Some st
      else if in_single then Some (st\<lparr>an_run := (if b = c_backslash then an_run st + 1 else 0)\<rparr>)
      else Some st)"

fun ansi_scan :: "nat option \<Rightarrow> nat list \<Rightarrow> bool \<Rightarrow> bool \<Rightarrow> ansi_state \<Rightarrow> bool" where
  "ansi_scan prev [] in_single in_double st = False"
| "ansi_scan prev (b # bs) in_single in_double st =
     (if b = c_backslash \<and> \<not> in_single
      then (case bs of [] \<Rightarrow> False | b' # bs' \<Rightarrow> ansi_scan (Some b') bs' in_single in_double st)
      else case ansi_step prev b in_single in_double st of
        None \<Rightarrow> True
      | Some st' \<Rightarrow> ansi_scan (Some b) bs (toggle_single b in_single in_double)
                      (toggle_double b in_single in_double) st')"

definition ansi_c_quote_defeats_lexer :: "rstr \<Rightarrow> bool" where
  "ansi_c_quote_defeats_lexer cmd =
     ansi_scan None (as_bytes cmd) False False \<lparr>an_span = False, an_run = 0\<rparr>"

section \<open>Peeling returns, and only ever drops a prefix\<close>

lemma trim_start_suffix [simp]: "suffix (trim_start s) s"
  using trim_start_split [of s] by (auto simp: suffix_def)

lemma trim_start_suffixI: "suffix r s \<Longrightarrow> suffix (trim_start r) s"
  using suffix_order.trans trim_start_suffix by blast

lemma suffix_append_self: "suffix q (p @ q)"
  by (simp add: suffix_def)

lemma str_from_suffix: "str_from s n = Some r \<Longrightarrow> suffix r s"
  by (auto simp: suffix_def dest: str_from_Some)

lemma blen_append_cancel: "p @ q = p' @ q' \<Longrightarrow> blen p = blen p' \<Longrightarrow> p = p'"
  by (metis option.inject str_upto_append)

definition span_of :: "rstr \<Rightarrow> nat \<times> nat \<Rightarrow> bool" where
  "span_of s sp \<longleftrightarrow> (\<exists>p m q. s = p @ m @ q \<and> sp = (blen p, blen (p @ m)))"

lemma span_of_join:
  assumes "span_of s (a, b)" "span_of s (b, e)" shows "span_of s (a, e)"
proof -
  obtain p m q where 1: "s = p @ m @ q" "a = blen p" "b = blen (p @ m)"
    using assms(1) by (auto simp: span_of_def)
  obtain p' m' q' where 2: "s = p' @ m' @ q'" "b = blen p'" "e = blen (p' @ m')"
    using assms(2) by (auto simp: span_of_def)
  have "(p @ m) @ q = p' @ m' @ q'" using 1 2 by simp
  then have "p' = p @ m" using 1(3) 2(2) blen_append_cancel by metis
  with 1 2 have "s = p @ (m @ m') @ q'" "e = blen (p @ m @ m')" by simp_all
  with 1(2) show ?thesis unfolding span_of_def by blast
qed

lemma token_span:
  assumes "t \<in> set (tokenize s)" shows "span_of s (tok_offset t, tok_end t)"
proof -
  obtain p src q where "s = p @ src @ q" "token_text False t src" "tok_offset t = blen p"
    using words.token_in_input [OF assms] by blast
  then show ?thesis
    unfolding span_of_def tok_end_def using token_text_blen
    by (intro exI [of _ p] exI [of _ src] exI [of _ q]) fastforce
qed

lemma word_spans_loop_spans:
  assumes "\<forall>t \<in> set ts. span_of s (tok_offset t, tok_end t)" and "\<forall>sp \<in> set spans. span_of s sp"
    and "\<And>e. prev = Some e \<Longrightarrow> spans \<noteq> [] \<Longrightarrow> snd (last spans) = e"
  shows "\<forall>sp \<in> set (word_spans_loop ts spans prev). span_of s sp"
  using assms
proof (induction ts spans prev rule: word_spans_loop.induct)
  case (2 t ts spans prev)
  let ?new = "if spans \<noteq> [] \<and> prev = Some (tok_offset t)
    then butlast spans @ [(fst (last spans), tok_end t)] else spans @ [(tok_offset t, tok_end t)]"
  have "span_of s (fst (last spans), tok_end t)" if "spans \<noteq> []" "prev = Some (tok_offset t)"
  proof (rule span_of_join)
    have "span_of s (fst (last spans), snd (last spans))"
      using "2.prems"(2) last_in_set [OF that(1)] by simp
    then show "span_of s (fst (last spans), tok_offset t)"
      using "2.prems"(3) [OF that(2,1)] by simp
    show "span_of s (tok_offset t, tok_end t)" using "2.prems"(1) by simp
  qed
  then have new: "\<forall>sp \<in> set ?new. span_of s sp"
    using "2.prems"(1,2) by (auto dest: in_set_butlastD)
  show ?case
  proof (cases "tok_kind t = Arg \<or> tok_kind t = Shellism")
    case True
    have "\<forall>sp \<in> set (word_spans_loop ts ?new (Some (tok_end t))). span_of s sp"
      using True "2.prems"(1) new by (intro "2.IH"(2)) auto
    with True show ?thesis by (simp only: word_spans_loop.simps Let_def not_True_eq_False if_False simp_thms)
  next
    case False
    have "\<forall>sp \<in> set (word_spans_loop ts spans None). span_of s sp"
      using False "2.prems"(1,2) by (intro "2.IH"(1)) auto
    with False show ?thesis by simp
  qed
qed simp

lemma shell_word_spans_spans: "sp \<in> set (shell_word_spans s) \<Longrightarrow> span_of s sp"
  using word_spans_loop_spans [of "tokenize s" s "[]" None] token_span
  by (auto simp: shell_word_spans_def)

lemma span_of_slice: "span_of s (a, e) \<Longrightarrow> \<exists>w. str_slice s a e = Some w"
  by (auto simp: span_of_def)

lemma span_of_from: "span_of s (a, e) \<Longrightarrow> \<exists>r. str_from s a = Some r"
  by (auto simp: span_of_def)

lemma skip_options_set: "skip_options f xs = Some ys \<Longrightarrow> set ys \<subseteq> set xs"
proof (induction f xs rule: skip_options.induct)
  case (2 f x xs)
  then show ?case by (cases "f x") (auto split: list.splits)
qed simp

lemma word_texts_total: "\<exists>ws. word_texts cmd = Some ws \<and> (\<forall>(sp, w) \<in> set ws. span_of cmd sp)"
proof -
  let ?f = "\<lambda>(a, e). do { w \<leftarrow> str_slice cmd a e; Some ((a, e), w) }"
  have "?f sp \<noteq> None" if "sp \<in> set (shell_word_spans cmd)" for sp
    using span_of_slice [of cmd "fst sp" "snd sp"] shell_word_spans_spans [OF that]
    by (cases sp) auto
  then obtain ws where ws: "map_m ?f (shell_word_spans cmd) = Some ws"
    using map_m_total [of "shell_word_spans cmd" ?f] by blast
  have "span_of cmd (fst y)" if y: "y \<in> set ws" for y
  proof -
    obtain sp where "sp \<in> set (shell_word_spans cmd)" "?f sp = Some y"
      using map_m_in [OF ws y] by blast
    then show ?thesis
      using shell_word_spans_spans by (auto split: bind_splits prod.splits)
  qed
  then have "\<forall>(sp, w) \<in> set ws. span_of cmd sp" by auto
  with ws show ?thesis by (auto simp: word_texts_def)
qed

lemma peel_env_total: "\<exists>r. peel_env cmd = Some r \<and> (\<forall>x. r = Some x \<longrightarrow> suffix x cmd)"
proof -
  obtain ws where ws: "word_texts cmd = Some ws" "\<forall>(sp, w) \<in> set ws. span_of cmd sp"
    using word_texts_total by blast
  show ?thesis
  proof (cases "\<exists>p rest start e w more. ws = p # rest \<and>
      skip_options (env_option \<circ> snd) rest = Some (((start, e), w) # more)")
    case True
    then obtain p rest start e w more where sk: "ws = p # rest"
      "skip_options (env_option \<circ> snd) rest = Some (((start, e), w) # more)" by blast
    then have "((start, e), w) \<in> set ws" using skip_options_set by fastforce
    with ws have "span_of cmd (start, e)" by auto
    then obtain r where "str_from cmd start = Some r" using span_of_from by blast
    with sk ws str_from_suffix show ?thesis
      by (cases p) (auto simp: peel_env_def intro: trim_start_suffixI)
  next
    case False
    then show ?thesis
      by (cases ws) (auto simp: peel_env_def ws split: option.splits list.splits)
  qed
qed

lemma prefix_child_set: "prefix_child program args = Some ts \<Longrightarrow> set ts \<subseteq> set args"
  unfolding prefix_child_def
  by (auto split: if_splits option.splits list.splits dest!: skip_options_set)

lemma execution_prefix_total:
  "\<exists>r. execution_prefix env cmd = Some r \<and> (\<forall>a b. r = Some (a, b) \<longrightarrow> suffix b cmd)"
proof (cases "\<exists>p args c more. filter (\<lambda>t. tok_kind t = Arg) (tokenize cmd) = p # args \<and>
    prefix_child (executable_name env (tok_value p)) args = Some (c # more)")
  case True
  then obtain p args c more where f: "filter (\<lambda>t. tok_kind t = Arg) (tokenize cmd) = p # args"
    and c: "prefix_child (executable_name env (tok_value p)) args = Some (c # more)" by blast
  have "c \<in> set args" using prefix_child_set [OF c] by simp
  then have "c \<in> set (filter (\<lambda>t. tok_kind t = Arg) (tokenize cmd))" by (simp add: f)
  then have "span_of cmd (tok_offset c, tok_end c)" by (simp add: token_span)
  then obtain u r where "cmd = u @ r" "tok_offset c = blen u" by (auto simp: span_of_def)
  with f c show ?thesis
    by (auto simp: execution_prefix_def intro!: trim_start_suffixI suffix_append_self)
next
  case False
  then show ?thesis
    by (auto simp: execution_prefix_def split: option.splits list.splits)
qed

lemma strip_word_prefix_suffix: "strip_word_prefix cmd p = Some r \<Longrightarrow> suffix r cmd"
  unfolding strip_word_prefix_def
  by (auto simp: strip_prefix_Some_iff split: if_splits option.splits list.splits
      intro: suffix_order.trans [OF trim_start_suffix] suffix_ConsI suffix_appendI)

lemma first_prefix_suffix: "first_prefix cmd ps = Some r \<Longrightarrow> suffix r cmd"
  by (induction ps) (auto split: option.splits dest: strip_word_prefix_suffix)

text \<open>What the regex crate documents of a match: it ends on a character boundary of the text.\<close>

definition regex_boundaries :: "gate_env \<Rightarrow> bool" where
  "regex_boundaries env \<longleftrightarrow> (\<forall>s n. assignment_word env s = Some n \<longrightarrow> (\<exists>p q. s = p @ q \<and> n = blen p))"

lemma peel_one_total:
  assumes "regex_boundaries env"
  shows "\<exists>r. peel_one env ps cmd = Some r \<and> (\<forall>x. r = Some x \<longrightarrow> suffix x cmd)"
proof (cases "assignment_word env cmd")
  case (Some n)
  with assms obtain p q where "cmd = p @ q" "n = blen p"
    unfolding regex_boundaries_def by metis
  with Some show ?thesis
    by (auto simp: peel_one_def intro!: trim_start_suffixI suffix_append_self)
next
  case None
  obtain r where r: "peel_env cmd = Some r" "\<forall>x. r = Some x \<longrightarrow> suffix x cmd"
    using peel_env_total by blast
  obtain x where x: "execution_prefix env cmd = Some x" "\<forall>a b. x = Some (a, b) \<longrightarrow> suffix b cmd"
    using execution_prefix_total by blast
  from None r x show ?thesis
    by (auto simp: peel_one_def split: option.splits intro: first_prefix_suffix)
qed

lemma readings_loop_total:
  assumes "regex_boundaries env" and "\<forall>r \<in> set rs. suffix r s" and "suffix rest s"
    and "length rs \<le> Suc max_matching_peels"
  shows "\<exists>rd more. readings_loop env ps rs rest = Some rd \<and> rd_readings rd = rs @ more \<and>
    length (rd_readings rd) \<le> Suc max_matching_peels \<and> (\<forall>r \<in> set (rd_readings rd). suffix r s)"
  using assms
proof (induction env ps rs rest rule: readings_loop.induct)
  case (1 env ps rs rest)
  obtain p where p: "peel_one env ps rest = Some p" "\<forall>x. p = Some x \<longrightarrow> suffix x rest"
    using peel_one_total [OF "1.prems"(1)] by blast
  show ?case
  proof (cases "\<exists>inner. p = Some inner \<and> inner \<noteq> [] \<and> inner \<noteq> rest \<and> \<not> length rs > max_matching_peels")
    case True
    then obtain inner where i: "p = Some inner" "\<not> (inner = [] \<or> inner = rest)"
      "\<not> length rs > max_matching_peels" by blast
    have "suffix inner s" using p(2) i(1) "1.prems"(3) suffix_order.trans by blast
    then have "\<exists>rd more. readings_loop env ps (rs @ [inner]) inner = Some rd \<and>
        rd_readings rd = (rs @ [inner]) @ more \<and>
        length (rd_readings rd) \<le> Suc max_matching_peels \<and> (\<forall>r \<in> set (rd_readings rd). suffix r s)"
      using "1.prems" i by (intro "1.IH" [OF p(1) i]) auto
    with p i show ?thesis
      by (subst readings_loop.simps) auto
  next
    case False
    with p "1.prems" show ?thesis
      by (subst readings_loop.simps) (auto split: option.splits)
  qed
qed

lemma matching_readings_total:
  assumes "regex_boundaries env"
  shows "\<exists>rd more. matching_readings env seg ps = Some rd \<and> rd_readings rd = trim seg # more \<and>
    length (rd_readings rd) \<le> Suc max_matching_peels \<and>
    (\<forall>r \<in> set (rd_readings rd). suffix r (trim seg))"
  using readings_loop_total [OF assms, of "[trim seg]" "trim seg" "trim seg" ps]
  by (simp add: matching_readings_def max_matching_peels_def)

lemma residue_loop_suffix: "suffix (residue_loop rest) rest"
proof (induction rest rule: residue_loop.induct)
  case (1 rest)
  have "suffix r rest" if "residue_tail rest = Some r" for r
  proof -
    from that obtain w u where "split_once (\<lambda>c. c = c_space \<or> c = c_tab) rest = Some (w, u)"
      "r = trim_start u"
      by (auto simp: residue_tail_def split: option.splits if_splits)
    moreover have "split_once P s = Some (w, u) \<Longrightarrow> suffix u s" for P s and w u :: rstr
      by (induction s arbitrary: w) (auto split: if_splits option.splits intro: suffix_ConsI)
    ultimately show ?thesis using suffix_order.trans trim_start_suffix by metis
  qed
  with 1 show ?case
    by (subst residue_loop.simps) (auto split: option.splits intro: suffix_order.trans)
qed

text \<open>
  An environment to evaluate the gate in: the assignment regex on values without quotes, and no
  absolute path resolves through \<open>PATH\<close>.
\<close>

definition plain_assignment :: "rstr \<Rightarrow> nat option" where
  "plain_assignment s =
     (let name = takeWhile is_name_char s; r = dropWhile is_name_char s
      in if name \<noteq> [] \<and> is_name_start (hd name) \<and> starts_with r [c_eq]
         then let v = takeWhile (\<lambda>c. \<not> is_whitespace c \<and> \<not> is_quote c) (tl r);
                  u = dropWhile (\<lambda>c. \<not> is_whitespace c \<and> \<not> is_quote c) (tl r)
              in if u = [] \<or> is_whitespace (hd u)
                 then Some (blen (name @ [c_eq] @ v @ takeWhile is_whitespace u)) else None
         else None)"

definition plain_env :: gate_env where
  "plain_env = \<lparr>assignment_word = plain_assignment,
     absolute_matches_path_executable = (\<lambda>_ _. False)\<rparr>"

lemma plain_assignment_boundary:
  assumes "plain_assignment s = Some n" shows "\<exists>p q. s = p @ q \<and> n = blen p"
proof -
  let ?name = "takeWhile is_name_char s" and ?r = "dropWhile is_name_char s"
  let ?P = "\<lambda>c. \<not> is_whitespace c \<and> \<not> is_quote c"
  let ?u = "dropWhile ?P (tl ?r)"
  from assms have r: "starts_with ?r [c_eq]"
    and n: "n = blen (?name @ [c_eq] @ takeWhile ?P (tl ?r) @ takeWhile is_whitespace ?u)"
    by (auto simp: plain_assignment_def Let_def split: if_splits)
  from r have "?r = c_eq # tl ?r" by (auto simp: starts_with_iff)
  then have "?r = [c_eq] @ takeWhile ?P (tl ?r) @ takeWhile is_whitespace ?u @
      dropWhile is_whitespace ?u" by simp
  moreover have "s = ?name @ ?r" by simp
  ultimately have "s = (?name @ [c_eq] @ takeWhile ?P (tl ?r) @ takeWhile is_whitespace ?u) @
      dropWhile is_whitespace ?u" by simp
  with n show ?thesis by blast
qed

lemma plain_env_boundaries [simp]: "regex_boundaries plain_env"
  using plain_assignment_boundary by (simp add: regex_boundaries_def plain_env_def)

text \<open>Peeling prefixes off a segment ends and does not panic: there are at most 33 readings, the
  first is the segment itself, and every one is a suffix of it.\<close>

lemma matching_readings_bounded:
  assumes "regex_boundaries env"
  shows "\<exists>rd more. matching_readings env seg pres = Some rd \<and> rd_readings rd = trim seg # more \<and>
    length (rd_readings rd) \<le> 33 \<and> list_all (\<lambda>r. suffix r (trim seg)) (rd_readings rd)"
  using matching_readings_total [OF assms, of seg pres]
  by (auto simp: list_all_iff max_matching_peels_def)

lemma matching_readings_bounded_witness:
  "\<exists>rd more. matching_readings plain_env (lit ''A=1 sudo rm x'') (gate_prefixes []) = Some rd \<and>
    rd_readings rd = trim (lit ''A=1 sudo rm x'') # more \<and> length (rd_readings rd) \<le> 33 \<and>
    list_all (\<lambda>r. suffix r (trim (lit ''A=1 sudo rm x''))) (rd_readings rd)"
  by (rule matching_readings_bounded) simp

end
