(* ===== verification/Permission_Gate.thy ===== *)
theory Permission_Gate
  imports Command_Prefixes
begin

text \<open>
  The permission gate (\<open>fork-core/rtk/src/permissions.rs\<close>): how a rule pattern matches a command,
  how the rules are loaded from the settings files, and the verdict on a command. The regex and the
  \<open>PATH\<close> lookup are in the \<open>gate_env\<close> argument; reading a settings file and parsing its JSON are
  arguments of \<open>load_permission_rules_from\<close>. An outer \<open>None\<close> is a panic.
\<close>

datatype permission_verdict = Allow | Deny | Ask | Default

section \<open>Rule patterns\<close>

definition extract_bash_pattern :: "rstr \<Rightarrow> rstr" where
  "extract_bash_pattern rule =
     (case strip_prefix rule (lit ''Bash('') of
        Some inner \<Rightarrow> (case strip_suffix inner [c_rparen] of Some pattern \<Rightarrow> pattern | None \<Rightarrow> rule)
      | None \<Rightarrow> rule)"

text \<open>The parts after the first: \<open>last\<close> tells the last one, \<open>search_from\<close> is where to look next.\<close>

fun glob_parts :: "rstr \<Rightarrow> rstr list \<Rightarrow> nat \<Rightarrow> bool option" where
  "glob_parts cmd [] search_from = Some True"
| "glob_parts cmd (part # parts) search_from =
     (if part = [] then glob_parts cmd parts search_from
      else do {
        remaining \<leftarrow> str_from cmd search_from;
        (if parts = [] then Some (ends_with remaining part)
         else case str_find remaining part of
           Some pos \<Rightarrow> glob_parts cmd parts (search_from + (pos + blen part))
         | None \<Rightarrow>
             if trim_end part \<noteq> [] \<and> ends_with remaining (trim_end part)
             then glob_parts cmd parts (search_from + blen remaining) else Some False)
      })"

definition glob_matches :: "rstr \<Rightarrow> rstr \<Rightarrow> bool option" where
  "glob_matches cmd pattern =
     (let normalized = replace_all [c_star, c_colon] [c_star, c_space]
            (replace_all [c_colon, c_star] [c_space, c_star] pattern);
          parts = split_on (\<lambda>c. c = c_star) normalized
      in if list_all (\<lambda>p. p = []) parts then Some True
         else if \<not> starts_with cmd (hd parts) then Some False
         else glob_parts cmd (tl parts) (blen (hd parts)))"

definition normalize_ws :: "rstr \<Rightarrow> rstr" where
  "normalize_ws s = join [c_space] (split_whitespace s)"

definition word_prefix_match :: "rstr \<Rightarrow> rstr \<Rightarrow> bool" where
  "word_prefix_match cmd p = (cmd = p \<or> starts_with cmd (p @ [c_space]))"

definition command_matches_pattern :: "rstr \<Rightarrow> rstr \<Rightarrow> bool option" where
  "command_matches_pattern cmd0 pattern0 =
     (let cmd = normalize_ws (replace_all [c_backslash, c_newline] [] cmd0);
          pattern = normalize_ws pattern0;
          rest = (if c_star \<in> set pattern then glob_matches cmd pattern
                  else Some (word_prefix_match cmd pattern))
      in if pattern = [c_star] then Some True
         else case strip_suffix pattern [c_star] of
           None \<Rightarrow> rest
         | Some p \<Rightarrow>
             let pre = trim_end (trim_end_matches (\<lambda>c. c = c_colon) p)
             in if pre = [] \<or> pre = [c_star] then Some True
                else if c_star \<notin> set pre then Some (word_prefix_match cmd pre)
                else rest)"

section \<open>Loading the rules\<close>

text \<open>Reading a file: its content, an error that means there is none, or another error.\<close>

datatype file_read = Content rstr | Missing | Unreadable

text \<open>As much of a parsed JSON value as the loader looks at; the keys of an object are distinct.\<close>

datatype json = JStr rstr | JArr "json list" | JObj "(rstr \<times> json) list" | JOther

fun json_get :: "json \<Rightarrow> rstr \<Rightarrow> json option" where
  "json_get (JObj ms) k = map_of ms k"
| "json_get _ k = None"

fun bash_rules :: "json option \<Rightarrow> rstr list" where
  "bash_rules (Some (JArr rules)) =
     [extract_bash_pattern s. JStr s \<leftarrow> rules, starts_with s (lit ''Bash('')]"
| "bash_rules _ = []"

definition append_bash_rules :: "json option \<Rightarrow> rstr list \<Rightarrow> rstr list" where
  "append_bash_rules rules_value target = target @ bash_rules rules_value"

record rules =
  deny_rules :: "rstr list"
  ask_rules :: "rstr list"
  allow_rules :: "rstr list"

definition load_file :: "(rstr \<Rightarrow> json option) \<Rightarrow> file_read \<Rightarrow> rules \<Rightarrow> rules" where
  "load_file parse r rs =
     (case r of
        Missing \<Rightarrow> rs
      | Unreadable \<Rightarrow> rs\<lparr>ask_rules := ask_rules rs @ [[c_star]]\<rparr>
      | Content content0 \<Rightarrow>
          let content = (case strip_prefix content0 [0xFEFF] of Some c \<Rightarrow> c | None \<Rightarrow> content0)
          in if trim content = [] then rs
             else case parse content of
               None \<Rightarrow> rs\<lparr>ask_rules := ask_rules rs @ [[c_star]]\<rparr>
             | Some js \<Rightarrow>
                 (case json_get js (lit ''permissions'') of
                    None \<Rightarrow> rs
                  | Some permissions \<Rightarrow>
                      \<lparr>deny_rules = append_bash_rules (json_get permissions (lit ''deny'')) (deny_rules rs),
                       ask_rules = append_bash_rules (json_get permissions (lit ''ask'')) (ask_rules rs),
                       allow_rules =
                         append_bash_rules (json_get permissions (lit ''allow'')) (allow_rules rs)\<rparr>))"

definition load_permission_rules_from ::
  "('path \<Rightarrow> file_read) \<Rightarrow> (rstr \<Rightarrow> json option) \<Rightarrow> 'path list \<Rightarrow> rules" where
  "load_permission_rules_from read parse paths =
     fold (\<lambda>path. load_file parse (read path)) paths
       \<lparr>deny_rules = [], ask_rules = [], allow_rules = []\<rparr>"

text \<open>A path is the list of its components.\<close>

definition get_settings_paths_from :: "rstr list option \<Rightarrow> rstr list option \<Rightarrow> rstr list list" where
  "get_settings_paths_from project_root claude_dir =
     (case project_root of
        Some root \<Rightarrow> [root @ [lit ''.claude'', lit ''settings.json''],
                      root @ [lit ''.claude'', lit ''settings.local.json'']]
      | None \<Rightarrow> []) @
     (case claude_dir of
        Some d \<Rightarrow> [d @ [lit ''settings.json''], d @ [lit ''settings.local.json'']]
      | None \<Rightarrow> [])"

section \<open>Quoted scripts\<close>

datatype wrapper_verdict = WrapperNone | Wrapped | WrapperDeny

definition max_wrapper_depth :: nat where
  "max_wrapper_depth = 3"

definition matches_any :: "rstr \<Rightarrow> readings \<Rightarrow> rstr \<Rightarrow> bool option" where
  "matches_any segment peeled pattern = do {
     written \<leftarrow> command_matches_pattern segment pattern;
     if written then Some True
     else any_m (\<lambda>reading. command_matches_pattern reading pattern) (rd_readings peeled)
   }"

definition denied_by :: "rstr list \<Rightarrow> rstr \<Rightarrow> readings \<Rightarrow> bool option" where
  "denied_by rules segment peeled = any_m (matches_any segment peeled) rules"

text \<open>The loop over the segments of a script; \<open>descend\<close> is the recursive call.\<close>

fun script_denied ::
  "gate_env \<Rightarrow> rstr list \<Rightarrow> rstr list \<Rightarrow> (readings \<Rightarrow> wrapper_verdict option) \<Rightarrow> rstr list \<Rightarrow> bool option"
where
  "script_denied env deny pres descend [] = Some False"
| "script_denied env deny pres descend (seg # segs) = do {
     peeled \<leftarrow> matching_readings env (strip_grammar_residue (trim seg)) pres;
     denied \<leftarrow> denied_by deny (trim seg) peeled;
     (if denied then Some True
      else do {
        v \<leftarrow> descend peeled;
        if v = WrapperDeny then Some True else script_denied env deny pres descend segs
      })
   }"

text \<open>The loop over the readings of a segment; without \<open>descend\<close> the script is too deep to read.\<close>

fun wrapper_loop ::
  "gate_env \<Rightarrow> rstr list \<Rightarrow> rstr list \<Rightarrow> (readings \<Rightarrow> wrapper_verdict option) option \<Rightarrow>
   rstr list \<Rightarrow> bool \<Rightarrow> wrapper_verdict option" where
  "wrapper_loop env deny pres descend [] wrapped = Some (if wrapped then Wrapped else WrapperNone)"
| "wrapper_loop env deny pres descend (reading # rest) wrapped = do {
     parsed \<leftarrow> parse_shell_command_wrapper reading;
     (case parsed of
        NotWrapper \<Rightarrow> wrapper_loop env deny pres descend rest wrapped
      | Ambiguous \<Rightarrow> wrapper_loop env deny pres descend rest True
      | Parsed payload \<Rightarrow>
          (case descend of
             None \<Rightarrow> if deny \<noteq> [] then Some WrapperDeny
                     else wrapper_loop env deny pres descend rest True
           | Some f \<Rightarrow> do {
               segs \<leftarrow> split_for_permissions
                 (replace_all [c_backslash, c_newline] [] (payload_command payload));
               denied \<leftarrow> script_denied env deny pres f segs;
               if denied then Some WrapperDeny else wrapper_loop env deny pres descend rest True
             }))
   }"

primrec wrapper_levels ::
  "gate_env \<Rightarrow> rstr list \<Rightarrow> rstr list \<Rightarrow> nat \<Rightarrow> readings \<Rightarrow> wrapper_verdict option" where
  "wrapper_levels env deny pres 0 =
     (\<lambda>peeled. wrapper_loop env deny pres None (rd_readings peeled) False)"
| "wrapper_levels env deny pres (Suc n) =
     (\<lambda>peeled. wrapper_loop env deny pres (Some (wrapper_levels env deny pres n))
        (rd_readings peeled) False)"

definition wrapper_verdict ::
  "gate_env \<Rightarrow> readings \<Rightarrow> rstr list \<Rightarrow> rstr list \<Rightarrow> nat \<Rightarrow> wrapper_verdict option" where
  "wrapper_verdict env peeled deny pres depth =
     wrapper_levels env deny pres (max_wrapper_depth - depth) peeled"

section \<open>The verdict\<close>

fun wrappers_loop ::
  "gate_env \<Rightarrow> rstr list \<Rightarrow> rstr list \<Rightarrow> (rstr \<times> readings) list \<Rightarrow> bool \<Rightarrow> bool option option" where
  "wrappers_loop env deny pres [] seen = Some (Some seen)"
| "wrappers_loop env deny pres ((_, peeled) # rest) seen = do {
     v \<leftarrow> wrapper_verdict env peeled deny pres 0;
     (if v = WrapperDeny then Some None
      else wrappers_loop env deny pres rest (seen \<or> v = Wrapped))
   }"

record tally =
  any_ask :: bool
  all_segments_allowed :: bool
  saw_segment :: bool

fun tally_loop ::
  "bool \<Rightarrow> rstr list \<Rightarrow> rstr list \<Rightarrow> (rstr \<times> readings) list \<Rightarrow> tally \<Rightarrow> tally option" where
  "tally_loop reads ask allow [] t = Some t"
| "tally_loop reads ask allow ((segment, peeled) # rest) t =
     (if segment = [] then tally_loop reads ask allow rest t
      else do {
        asked \<leftarrow> (if any_ask t then Some True
                  else if reads \<and> \<not> rd_complete peeled then Some True
                  else any_m (matches_any segment peeled) ask);
        allowed \<leftarrow> (if all_segments_allowed t then any_m (command_matches_pattern segment) allow
                    else Some False);
        tally_loop reads ask allow rest
          \<lparr>any_ask = asked, all_segments_allowed = allowed, saw_segment = True\<rparr>
      })"

definition tally_init :: tally where
  "tally_init = \<lparr>any_ask = False, all_segments_allowed = True, saw_segment = False\<rparr>"

definition unattestable :: "bool \<Rightarrow> rstr \<Rightarrow> bool option" where
  "unattestable wrapper_seen cmd =
     (if wrapper_seen then Some True
      else do {
        c \<leftarrow> contains_unattestable_construct cmd;
        Some (c \<or> ansi_c_quote_defeats_lexer cmd)
      })"

definition read_segment ::
  "gate_env \<Rightarrow> bool \<Rightarrow> rstr list \<Rightarrow> rstr \<Rightarrow> (rstr \<times> readings) option" where
  "read_segment env reads pres segment0 =
     (let segment = trim segment0
      in if reads then do {
           peeled \<leftarrow> matching_readings env (strip_grammar_residue segment) pres;
           Some (segment, peeled)
         }
         else Some (segment, as_written segment))"

definition final_verdict :: "tally \<Rightarrow> bool \<Rightarrow> rstr list \<Rightarrow> permission_verdict" where
  "final_verdict t opaque allow =
     (if any_ask t then Ask
      else if saw_segment t \<and> all_segments_allowed t \<and> allow \<noteq> []
      then if opaque then Ask else Allow
      else Default)"

definition reads_past_prefixes :: "rstr list \<Rightarrow> rstr list \<Rightarrow> bool" where
  "reads_past_prefixes deny ask = (deny \<noteq> [] \<or> ask \<noteq> [])"

definition check_command_with_prefixes ::
  "gate_env \<Rightarrow> rstr \<Rightarrow> rstr list \<Rightarrow> rstr list \<Rightarrow> rstr list \<Rightarrow> rstr list \<Rightarrow> permission_verdict option"
where
  "check_command_with_prefixes env cmd deny ask allow transparent_prefixes = (
     let pres = gate_prefixes transparent_prefixes;
         reads = reads_past_prefixes deny ask
     in do {
       segments \<leftarrow> split_for_permissions cmd;
       readings \<leftarrow> map_m (read_segment env reads pres) segments;
       denied \<leftarrow> any_m (\<lambda>(segment, peeled). denied_by deny segment peeled) readings;
       (if denied then Some Deny
        else do {
          wrappers \<leftarrow> wrappers_loop env deny pres readings False;
          (case wrappers of
             None \<Rightarrow> Some Deny
           | Some wrapper_seen \<Rightarrow> do {
               t \<leftarrow> tally_loop reads ask allow readings tally_init;
               opaque \<leftarrow> unattestable wrapper_seen cmd;
               Some (final_verdict t opaque allow)
             })
        })
     })"

definition check_command ::
  "gate_env \<Rightarrow> ('path \<Rightarrow> file_read) \<Rightarrow> (rstr \<Rightarrow> json option) \<Rightarrow> 'path list \<Rightarrow> rstr \<Rightarrow> rstr list \<Rightarrow>
   permission_verdict option" where
  "check_command env read parse paths cmd transparent_prefixes =
     (let rs = load_permission_rules_from read parse paths
      in check_command_with_prefixes env cmd (deny_rules rs) (ask_rules rs) (allow_rules rs)
           transparent_prefixes)"

section \<open>Matching always answers\<close>

lemma glob_parts_total:
  "cmd = p @ q \<Longrightarrow> n = blen p \<Longrightarrow> glob_parts cmd parts n \<noteq> None"
proof (induction cmd parts n arbitrary: p q rule: glob_parts.induct)
  case (2 cmd part parts n)
  show ?case
  proof (cases "part = []")
    case True
    with 2 show ?thesis by auto
  next
    case False
    have frm: "str_from cmd n = Some q" using 2(4,5) by simp
    show ?thesis
    proof (cases "str_find q part")
      case (Some pos)
      then obtain a b where "q = a @ part @ b" "pos = blen a" by (auto dest: str_find_Some)
      then have "glob_parts cmd parts (n + (pos + blen part)) \<noteq> None" if "parts \<noteq> []"
        using "2.IH"(3) [OF False frm that Some, of "p @ a @ part" b] 2(4,5) by simp
      with Some frm False show ?thesis by auto
    next
      case None
      have "glob_parts cmd parts (n + blen q) \<noteq> None"
        if "parts \<noteq> []" "trim_end part \<noteq> [] \<and> ends_with q (trim_end part)"
        using "2.IH"(2) [OF False frm that(1) None that(2), of "p @ q" "[]"] 2(4,5) by simp
      with None frm False show ?thesis by auto
    qed
  qed
qed simp

lemma glob_matches_total: "glob_matches cmd pattern \<noteq> None"
proof -
  have "starts_with cmd p \<Longrightarrow> glob_parts cmd ps (blen p) \<noteq> None" for p ps
    using glob_parts_total by (metis starts_with_iff)
  then show ?thesis by (simp add: glob_matches_def Let_def del: not_None_eq)
qed

lemma command_matches_pattern_total [simp]: "command_matches_pattern cmd pattern \<noteq> None"
  using glob_matches_total unfolding command_matches_pattern_def Let_def
  by (auto split: option.splits)

abbreviation rule_matches :: "rstr \<Rightarrow> rstr \<Rightarrow> bool" where
  "rule_matches cmd pattern \<equiv> command_matches_pattern cmd pattern = Some True"

text \<open>A pattern names the segment as written or one of its readings.\<close>

definition names :: "rstr \<Rightarrow> readings \<Rightarrow> rstr \<Rightarrow> bool" where
  "names segment peeled pattern \<longleftrightarrow> (\<exists>r \<in> set (segment # rd_readings peeled). rule_matches r pattern)"

lemma matches_any_eq: "matches_any segment peeled pattern = Some (names segment peeled pattern)"
proof -
  obtain b where "command_matches_pattern segment pattern = Some b"
    using command_matches_pattern_total by blast
  then show ?thesis by (auto simp: matches_any_def names_def any_m_eq)
qed

lemma any_matches_eq:
  "any_m (matches_any segment peeled) rules = Some (\<exists>p \<in> set rules. names segment peeled p)"
  by (simp add: matches_any_eq any_m_eq)

lemma denied_by_eq:
  "denied_by rules segment peeled = Some (\<exists>p \<in> set rules. names segment peeled p)"
  by (simp add: denied_by_def any_matches_eq)

lemma any_denied_eq:
  "any_m (\<lambda>(segment, peeled). denied_by rules segment peeled) xs =
     Some (\<exists>(segment, peeled) \<in> set xs. \<exists>p \<in> set rules. names segment peeled p)"
proof -
  have "(\<lambda>(segment, peeled). denied_by rules segment peeled) =
      (\<lambda>x. Some (case x of (segment, peeled) \<Rightarrow> \<exists>p \<in> set rules. names segment peeled p))"
    by (auto simp: denied_by_eq)
  then show ?thesis by simp
qed

section \<open>The readings of a command\<close>

lemma split_trimmed:
  assumes "split_for_permissions cmd = Some segs" "seg \<in> set segs"
  shows "trim seg = seg" and "seg \<noteq> []" and "sublist seg cmd"
proof -
  have *: "segment_of (trim cmd) seg"
    using split_for_permissions_segments assms by (fastforce simp: list_all_iff)
  then show "trim seg = seg" "seg \<noteq> []" by (simp_all add: segment_of_def)
  have "sublist (trim cmd) cmd" using trim_split by (metis sublist_appendI)
  with * show "sublist seg cmd"
    unfolding segment_of_def by (metis sublist_appendI sublist_order.order.trans)
qed

lemma read_segment_total:
  assumes "regex_boundaries env"
  shows "\<exists>rd. read_segment env reads pres seg = Some (trim seg, rd)"
  using matching_readings_total [OF assms, of "strip_grammar_residue (trim seg)" pres]
  by (auto simp: read_segment_def Let_def)

lemma read_segment_fst: "read_segment env reads pres seg = Some y \<Longrightarrow> fst y = trim seg"
  by (auto simp: read_segment_def Let_def split: if_splits bind_splits)

lemma map_read_total:
  assumes "regex_boundaries env"
  shows "\<exists>rds. map_m (read_segment env reads pres) segs = Some rds"
proof (rule map_m_total)
  show "read_segment env reads pres x \<noteq> None" for x
    using read_segment_total [OF assms, of reads pres x] by auto
qed

lemma map_m_member: "map_m f xs = Some ys \<Longrightarrow> x \<in> set xs \<Longrightarrow> \<exists>y \<in> set ys. f x = Some y"
  by (induction xs arbitrary: ys) (auto split: bind_splits)

section \<open>Deny wins\<close>

text \<open>C2: A deny rule wins over every ask and allow rule: when it matches a segment as written or
  any reading of it behind assignments, \<open>env\<close>, wrappers and prefixes, the verdict is \<open>Deny\<close>.\<close>

theorem deny_rule_wins:
  assumes "regex_boundaries env" and "split_for_permissions cmd = Some segs" and "seg \<in> set segs"
    and "matching_readings env (strip_grammar_residue seg) (gate_prefixes tp) = Some rd"
    and "p \<in> set deny" and "r \<in> set (seg # rd_readings rd)" and "rule_matches r p"
  shows "check_command_with_prefixes env cmd deny ask allow tp = Some Deny"
proof -
  have reads: "reads_past_prefixes deny ask" using assms(5) by (auto simp: reads_past_prefixes_def)
  obtain rds where rds:
    "map_m (read_segment env (reads_past_prefixes deny ask) (gate_prefixes tp)) segs = Some rds"
    using map_read_total [OF assms(1)] by blast
  have "read_segment env (reads_past_prefixes deny ask) (gate_prefixes tp) seg = Some (seg, rd)"
    using reads assms(4) split_trimmed(1) [OF assms(2,3)] by (simp add: read_segment_def)
  then have "(seg, rd) \<in> set rds"
    using map_m_member [OF rds assms(3)] by auto
  moreover have "names seg rd p" using assms(6,7) by (auto simp: names_def)
  ultimately have "\<exists>(segment, peeled) \<in> set rds. \<exists>p \<in> set deny. names segment peeled p"
    using assms(5) by blast
  then show ?thesis
    by (simp add: check_command_with_prefixes_def assms(2) rds any_denied_eq Let_def)
qed

theorem deny_rule_wins_witness:
  "check_command_with_prefixes plain_env (lit ''A=1 sudo rm x'') [lit ''rm:*''] [] [lit ''*''] [] =
     Some Deny"
  by (rule deny_rule_wins [where segs = "[lit ''A=1 sudo rm x'']" and seg = "lit ''A=1 sudo rm x''"
        and rd = "\<lparr>rd_readings = [lit ''A=1 sudo rm x'', lit ''sudo rm x'', lit ''rm x''],
          rd_complete = True\<rparr>" and p = "lit ''rm:*''" and r = "lit ''rm x''"]) (simp, code_simp+)

section \<open>What Allow means\<close>

lemma wrapper_loop_none:
  "wrapper_loop env deny pres d rs w = Some WrapperNone \<Longrightarrow>
   \<not> w \<and> (\<forall>r \<in> set rs. parse_shell_command_wrapper r = Some NotWrapper)"
proof (induction rs arbitrary: w)
  case (Cons r rs)
  then show ?case
    by (auto split: bind_splits shell_wrapper_parse.splits option.splits if_splits)
qed (auto split: if_splits)

lemma wrapper_verdict_none:
  assumes "wrapper_verdict env peeled deny pres depth = Some WrapperNone"
  shows "\<forall>r \<in> set (rd_readings peeled). parse_shell_command_wrapper r = Some NotWrapper"
proof (cases "max_wrapper_depth - depth")
  case 0
  with assms show ?thesis by (auto simp: wrapper_verdict_def dest: wrapper_loop_none)
next
  case (Suc n)
  with assms show ?thesis by (auto simp: wrapper_verdict_def dest: wrapper_loop_none)
qed

lemma wrappers_loop_unseen:
  "wrappers_loop env deny pres xs seen = Some (Some False) \<Longrightarrow>
   \<not> seen \<and> (\<forall>(s, peeled) \<in> set xs. \<forall>r \<in> set (rd_readings peeled).
     parse_shell_command_wrapper r = Some NotWrapper)"
proof (induction xs arbitrary: seen)
  case (Cons x xs)
  obtain s peeled where x: "x = (s, peeled)" by (cases x)
  from Cons.prems obtain v where v: "wrapper_verdict env peeled deny pres 0 = Some v"
    "v \<noteq> WrapperDeny" "wrappers_loop env deny pres xs (seen \<or> v = Wrapped) = Some (Some False)"
    by (auto simp: x split: bind_splits if_splits)
  from Cons.IH [OF v(3)] v(2) have "v = WrapperNone" by (cases v) auto
  with v Cons.IH [OF v(3)] wrapper_verdict_none show ?case by (auto simp: x)
qed simp

lemma tally_loop_inv:
  assumes "tally_loop reads ask allow xs t = Some t'" and "\<not> any_ask t'" and "all_segments_allowed t'"
  shows "\<not> any_ask t \<and> all_segments_allowed t \<and>
    (\<forall>(seg, peeled) \<in> set xs. seg \<noteq> [] \<longrightarrow>
       (\<exists>p \<in> set allow. rule_matches seg p) \<and> (\<forall>p \<in> set ask. \<not> names seg peeled p) \<and>
       (reads \<longrightarrow> rd_complete peeled))"
  using assms
proof (induction xs arbitrary: t)
  case (Cons x xs)
  obtain seg peeled where x: "x = (seg, peeled)" by (cases x)
  show ?case
  proof (cases "seg = []")
    case True
    with Cons x show ?thesis by auto
  next
    case False
    let ?asked = "if any_ask t then Some True
      else if reads \<and> \<not> rd_complete peeled then Some True else any_m (matches_any seg peeled) ask"
    let ?allowed = "if all_segments_allowed t then any_m (command_matches_pattern seg) allow
      else Some False"
    from Cons.prems(1) False obtain a b where a: "?asked = Some a" and b: "?allowed = Some b"
      and rest: "tally_loop reads ask allow xs
        \<lparr>any_ask = a, all_segments_allowed = b, saw_segment = True\<rparr> = Some t'"
      by (simp add: x split: bind_splits)
    from Cons.IH [OF rest Cons.prems(2,3)] have "\<not> a" "b" by simp_all
    with a b Cons.IH [OF rest Cons.prems(2,3)] x show ?thesis
      by (auto simp: matches_any_eq any_m_eq split: if_splits)
  qed
qed auto

lemma wrapper_loop_plain:
  "list_all (\<lambda>r. parse_shell_command_wrapper r = Some NotWrapper) rs \<Longrightarrow>
   wrapper_loop env deny pres d rs False = Some WrapperNone"
  by (induction rs) auto

lemma wrapper_verdict_plain:
  "list_all (\<lambda>r. parse_shell_command_wrapper r = Some NotWrapper) (rd_readings peeled) \<Longrightarrow>
   wrapper_verdict env peeled deny pres depth = Some WrapperNone"
  unfolding wrapper_verdict_def by (cases "max_wrapper_depth - depth") (simp_all add: wrapper_loop_plain)

lemma wrappers_loop_plain:
  "list_all (\<lambda>x. list_all (\<lambda>r. parse_shell_command_wrapper r = Some NotWrapper) (rd_readings (snd x))) xs \<Longrightarrow>
   wrappers_loop env deny pres xs False = Some (Some False)"
  by (induction xs) (auto simp: wrapper_verdict_plain)

text \<open>What the loop over the segments has to find for the verdict \<open>Allow\<close>.\<close>

definition segment_cleared :: "bool \<Rightarrow> rstr list \<Rightarrow> rstr list \<Rightarrow> rstr \<times> readings \<Rightarrow> bool" where
  "segment_cleared reads ask allow x \<longleftrightarrow>
     (\<exists>p \<in> set allow. rule_matches (fst x) p) \<and> (\<forall>p \<in> set ask. \<not> names (fst x) (snd x) p) \<and>
     (reads \<longrightarrow> rd_complete (snd x))"

lemma tally_loop_cleared:
  assumes "list_all (\<lambda>x. fst x \<noteq> [] \<and> segment_cleared reads ask allow x) xs"
    and "\<not> any_ask t" and "all_segments_allowed t"
  shows "\<exists>t'. tally_loop reads ask allow xs t = Some t' \<and> \<not> any_ask t' \<and> all_segments_allowed t' \<and>
    saw_segment t' = (saw_segment t \<or> xs \<noteq> [])"
  using assms
proof (induction xs arbitrary: t)
  case (Cons x xs)
  obtain seg rd where x: "x = (seg, rd)" by (cases x)
  have "\<exists>t'. tally_loop reads ask allow xs \<lparr>any_ask = False, all_segments_allowed = True, saw_segment = True\<rparr> = Some t' \<and>
      \<not> any_ask t' \<and> all_segments_allowed t' \<and> saw_segment t' = (True \<or> xs \<noteq> [])"
    using Cons.IH [of "\<lparr>any_ask = False, all_segments_allowed = True, saw_segment = True\<rparr>"] Cons.prems by simp
  with Cons.prems show ?case
    by (auto simp: x segment_cleared_def any_matches_eq any_m_eq)
qed simp

text \<open>The readings the gate makes of a segment: all of them when there is a deny or an ask rule, else the
  segment as it is written.\<close>

definition gate_reading :: "gate_env \<Rightarrow> rstr list \<Rightarrow> rstr list \<Rightarrow> rstr list \<Rightarrow> rstr \<Rightarrow> readings option" where
  "gate_reading env deny ask tp seg =
     (if deny = [] \<and> ask = [] then Some (as_written seg)
      else matching_readings env (strip_grammar_residue seg) (gate_prefixes tp))"

lemma read_segment_gate:
  "trim seg = seg \<Longrightarrow> read_segment env (reads_past_prefixes deny ask) (gate_prefixes tp) seg =
     map_option (Pair seg) (gate_reading env deny ask tp seg)"
  by (auto simp: read_segment_def gate_reading_def reads_past_prefixes_def map_conv_bind_option comp_def)

lemma as_written_complete [simp]: "rd_complete (as_written seg)"
  by (simp add: as_written_def)

text \<open>What \<open>Allow\<close> says of one segment.\<close>

definition attested :: "gate_env \<Rightarrow> rstr list \<Rightarrow> rstr list \<Rightarrow> rstr list \<Rightarrow> rstr list \<Rightarrow> rstr \<Rightarrow> bool" where
  "attested env deny ask allow tp seg \<longleftrightarrow>
     (\<exists>p \<in> set allow. rule_matches seg p) \<and>
     (\<exists>rd. gate_reading env deny ask tp seg = Some rd \<and> rd_complete rd \<and>
        (\<forall>p \<in> set (deny @ ask). \<not> names seg rd p) \<and>
        (\<forall>r \<in> set (rd_readings rd). parse_shell_command_wrapper r = Some NotWrapper))"

lemma readings_attested:
  assumes "split_for_permissions cmd = Some segs"
    and "map_m (read_segment env (reads_past_prefixes deny ask) (gate_prefixes tp)) segs = Some rds"
  shows "list_all (attested env deny ask allow tp) segs \<longleftrightarrow>
    list_all (\<lambda>x. fst x \<noteq> [] \<and> segment_cleared (reads_past_prefixes deny ask) ask allow x \<and>
      (\<forall>p \<in> set deny. \<not> names (fst x) (snd x) p) \<and>
      list_all (\<lambda>r. parse_shell_command_wrapper r = Some NotWrapper) (rd_readings (snd x))) rds"
proof -
  have one: "attested env deny ask allow tp seg \<longleftrightarrow>
      fst x \<noteq> [] \<and> segment_cleared (reads_past_prefixes deny ask) ask allow x \<and>
      (\<forall>p \<in> set deny. \<not> names (fst x) (snd x) p) \<and>
      list_all (\<lambda>r. parse_shell_command_wrapper r = Some NotWrapper) (rd_readings (snd x))"
    if seg: "seg \<in> set segs" and read: "read_segment env (reads_past_prefixes deny ask) (gate_prefixes tp) seg = Some x" for seg x
  proof -
    obtain rd where rd: "gate_reading env deny ask tp seg = Some rd" and x: "x = (seg, rd)"
      using read read_segment_gate [OF split_trimmed(1) [OF assms(1) seg], of env deny ask tp] by auto
    have "rd_complete rd \<longleftrightarrow> (reads_past_prefixes deny ask \<longrightarrow> rd_complete rd)"
      using rd by (auto simp: gate_reading_def reads_past_prefixes_def split: if_splits)
    then show ?thesis
      using split_trimmed(2) [OF assms(1) seg] rd by (auto simp: x attested_def segment_cleared_def list_all_iff)
  qed
  show ?thesis
    using one map_m_in [OF assms(2)] map_m_member [OF assms(2)] by (simp add: list_all_iff) blast
qed

lemma allow_verdict_iff:
  "check_command_with_prefixes env cmd deny ask allow tp = Some Allow \<longleftrightarrow>
   (\<exists>segs. split_for_permissions cmd = Some segs \<and> segs \<noteq> [] \<and>
      list_all (attested env deny ask allow tp) segs) \<and>
   contains_unattestable_construct cmd = Some False \<and> \<not> ansi_c_quote_defeats_lexer cmd"
  (is "?allowed \<longleftrightarrow> ?attested \<and> ?clear")
proof
  let ?reads = "reads_past_prefixes deny ask" and ?pres = "gate_prefixes tp"
  assume ?allowed
  then obtain segs rds where segs: "split_for_permissions cmd = Some segs"
    and rds: "map_m (read_segment env ?reads ?pres) segs = Some rds"
    and nd: "\<not> (\<exists>(segment, peeled) \<in> set rds. \<exists>p \<in> set deny. names segment peeled p)"
    by (auto simp: check_command_with_prefixes_def Let_def any_denied_eq
        split: bind_splits if_splits)
  from \<open>?allowed\<close> segs rds nd obtain seen t opaque where
    seen: "wrappers_loop env deny ?pres rds False = Some (Some seen)"
    and t: "tally_loop ?reads ask allow rds tally_init = Some t"
    and opaque: "unattestable seen cmd = Some opaque" and fin: "final_verdict t opaque allow = Allow"
    by (auto simp: check_command_with_prefixes_def Let_def any_denied_eq
        split: bind_splits if_splits option.splits)
  from fin have fin': "\<not> any_ask t" "all_segments_allowed t" "saw_segment t" "\<not> opaque"
    by (auto simp: final_verdict_def split: if_splits)
  from opaque fin'(4) have un: "\<not> seen" ?clear
    by (auto simp: unattestable_def split: if_splits bind_splits)
  have ne: "segs \<noteq> []" using t fin'(3) rds by (cases segs) (auto simp: tally_init_def)
  have fst: "fst y \<noteq> []" if "y \<in> set rds" for y
    using map_m_in [OF rds that] read_segment_fst split_trimmed(1,2) [OF segs] by metis
  have "list_all (attested env deny ask allow tp) segs"
    using tally_loop_inv [OF t fin'(1,2)] wrappers_loop_unseen [of env deny ?pres rds False] seen un(1) nd fst
    unfolding readings_attested [OF segs rds] by (fastforce simp: list_all_iff segment_cleared_def)
  with segs ne un show "?attested \<and> ?clear" by blast
next
  let ?reads = "reads_past_prefixes deny ask" and ?pres = "gate_prefixes tp"
  assume r: "?attested \<and> ?clear"
  then obtain segs where segs: "split_for_permissions cmd = Some segs" "segs \<noteq> []"
    and at: "list_all (attested env deny ask allow tp) segs" by blast
  have "read_segment env ?reads ?pres seg \<noteq> None" if "seg \<in> set segs" for seg
    using at that read_segment_gate [OF split_trimmed(1) [OF segs(1) that], of env deny ask tp]
    by (auto simp: list_all_iff attested_def)
  then obtain rds where rds: "map_m (read_segment env ?reads ?pres) segs = Some rds"
    using map_m_total by blast
  note all = at [unfolded readings_attested [OF segs(1) rds]]
  have nd: "\<not> (\<exists>(segment, peeled) \<in> set rds. \<exists>p \<in> set deny. names segment peeled p)"
    using all by (fastforce simp: list_all_iff)
  have w: "wrappers_loop env deny ?pres rds False = Some (Some False)"
    using all by (intro wrappers_loop_plain) (simp add: list_all_iff)
  have "rds \<noteq> []" using rds segs(2) by (cases segs) (auto split: bind_splits)
  then obtain t where t: "tally_loop ?reads ask allow rds tally_init = Some t" "\<not> any_ask t"
    "all_segments_allowed t" "saw_segment t"
    using tally_loop_cleared [of ?reads ask allow rds tally_init] all by (auto simp: tally_init_def list_all_iff)
  have "allow \<noteq> []" using at segs(2) by (cases segs) (auto simp: attested_def)
  with segs rds nd w t r show ?allowed
    by (simp add: check_command_with_prefixes_def Let_def any_denied_eq unattestable_def final_verdict_def)
qed

text \<open>The same over the readings of the segments.\<close>

lemma allow_verdict_readings:
  assumes "check_command_with_prefixes env cmd deny ask allow tp = Some Allow"
  shows "\<exists>segs rds. split_for_permissions cmd = Some segs \<and> segs \<noteq> [] \<and>
    map_m (read_segment env (reads_past_prefixes deny ask) (gate_prefixes tp)) segs = Some rds \<and>
    list_all (\<lambda>seg. \<exists>p. p \<in> set allow \<and> rule_matches seg p) segs \<and>
    list_all (\<lambda>(seg, rd). list_all (\<lambda>p. \<not> names seg rd p) (deny @ ask)) rds"
proof -
  obtain segs where segs: "split_for_permissions cmd = Some segs" "segs \<noteq> []"
    and at: "list_all (attested env deny ask allow tp) segs" using assms allow_verdict_iff by blast
  from assms segs(1) obtain rds where
    rds: "map_m (read_segment env (reads_past_prefixes deny ask) (gate_prefixes tp)) segs = Some rds"
    by (auto simp: check_command_with_prefixes_def Let_def split: bind_splits)
  have "list_all (\<lambda>(seg, rd). list_all (\<lambda>p. \<not> names seg rd p) (deny @ ask)) rds"
    using at [unfolded readings_attested [OF segs(1) rds]] by (auto simp: list_all_iff segment_cleared_def)
  with segs at rds show ?thesis by (auto simp: list_all_iff attested_def)
qed

text \<open>C1: \<open>Allow\<close> is given exactly when the command has a segment, has no substitution, no redirect to a file
  and no quote the lexer reads differently from the shell, and every segment is attested: it matches an
  allow rule as written, its readings are complete, no deny or ask rule names the segment or a reading of it,
  and no reading is or may be a quoted shell script. The readings are those behind assignments, \<open>env\<close>,
  wrappers and prefixes when there is a deny or an ask rule; without such rules the segment as written is the
  only one, so that a script behind a prefix is then not seen.\<close>

theorem allow_is_sound:
  "check_command_with_prefixes env cmd deny ask allow tp = Some Allow \<longleftrightarrow>
   (\<exists>segs. split_for_permissions cmd = Some segs \<and> segs \<noteq> [] \<and>
      list_all (\<lambda>seg. (\<exists>p \<in> set allow. rule_matches seg p) \<and>
        (\<exists>rd. (if deny = [] \<and> ask = [] then rd = as_written seg
               else matching_readings env (strip_grammar_residue seg) (gate_prefixes tp) = Some rd) \<and>
           rd_complete rd \<and> list_all (\<lambda>p. \<not> names seg rd p) (deny @ ask) \<and>
           list_all (\<lambda>r. parse_shell_command_wrapper r = Some NotWrapper) (rd_readings rd))) segs) \<and>
   contains_unattestable_construct cmd = Some False \<and> \<not> ansi_c_quote_defeats_lexer cmd"
proof -
  have "attested env deny ask allow tp = (\<lambda>seg. (\<exists>p \<in> set allow. rule_matches seg p) \<and>
        (\<exists>rd. (if deny = [] \<and> ask = [] then rd = as_written seg
               else matching_readings env (strip_grammar_residue seg) (gate_prefixes tp) = Some rd) \<and>
           rd_complete rd \<and> list_all (\<lambda>p. \<not> names seg rd p) (deny @ ask) \<and>
           list_all (\<lambda>r. parse_shell_command_wrapper r = Some NotWrapper) (rd_readings rd)))"
    by (auto simp: attested_def gate_reading_def list_all_iff fun_eq_iff)
  with allow_verdict_iff show ?thesis by simp
qed

theorem allow_is_sound_witness:
  "check_command_with_prefixes plain_env (lit ''ls a && ls b'') [lit ''rm''] [] [lit ''ls''] [] = Some Allow \<and>
   check_command_with_prefixes plain_env (lit ''ls $(rm b)'') [lit ''rm''] [] [lit ''ls''] [] \<noteq> Some Allow"
proof
  show "check_command_with_prefixes plain_env (lit ''ls a && ls b'') [lit ''rm''] [] [lit ''ls''] [] = Some Allow"
    by code_simp
  have "contains_unattestable_construct (lit ''ls $(rm b)'') \<noteq> Some False" by code_simp
  then show "check_command_with_prefixes plain_env (lit ''ls $(rm b)'') [lit ''rm''] [] [lit ''ls''] [] \<noteq> Some Allow"
    unfolding allow_is_sound by simp
qed

section \<open>Quoted scripts are read\<close>

lemma script_denied_hit:
  assumes "script_denied env deny pres f segs = Some b" and "seg \<in> set segs" and "p \<in> set deny"
    and "rule_matches (trim seg) p"
  shows "b"
  using assms
proof (induction segs)
  case (Cons s segs)
  then show ?case
    by (auto simp: denied_by_eq names_def split: bind_splits if_splits)
qed simp

lemma wrapper_loop_hit:
  assumes "wrapper_loop env deny pres (Some f) rs w = Some v" and "r \<in> set rs"
    and "parse_shell_command_wrapper r = Some (Parsed pl)"
    and "split_for_permissions (replace_all [c_backslash, c_newline] [] (payload_command pl)) = Some segs"
    and "seg \<in> set segs" and "p \<in> set deny" and "rule_matches (trim seg) p"
  shows "v = WrapperDeny"
  using assms(1,2)
proof (induction rs arbitrary: w)
  case (Cons x rs)
  have hit: "b" if "script_denied env deny pres f segs = Some b" for b
    using script_denied_hit [OF that assms(5-7)] .
  show ?case
  proof (cases "x = r")
    case True
    with Cons.prems(1) show ?thesis
      by (auto simp: assms(3,4) split: bind_splits if_splits dest: hit)
  next
    case False
    with Cons show ?thesis
      by (auto split: bind_splits shell_wrapper_parse.splits if_splits)
  qed
qed simp

lemma wrappers_loop_hit:
  assumes "wrappers_loop env deny pres xs seen = Some v" and "(s, rd) \<in> set xs"
    and "\<And>v. wrapper_verdict env rd deny pres 0 = Some v \<Longrightarrow> v = WrapperDeny"
  shows "v = None"
  using assms(1,2)
proof (induction xs arbitrary: seen)
  case (Cons x xs)
  then show ?case
    by (cases x) (auto split: bind_splits if_splits dest: assms(3))
qed simp

text \<open>A deny rule reaches into a quoted script: when a segment or a reading of it runs a shell with
  a script whose segments include one that a deny rule matches, the gate gives no verdict but
  \<open>Deny\<close>.\<close>

lemma quoted_script_denied:
  assumes "check_command_with_prefixes env cmd deny ask allow tp = Some v"
    and "split_for_permissions cmd = Some segs" and "seg \<in> set segs"
    and "matching_readings env (strip_grammar_residue seg) (gate_prefixes tp) = Some rd"
    and "r \<in> set (rd_readings rd)" and "parse_shell_command_wrapper r = Some (Parsed pl)"
    and "split_for_permissions (replace_all [c_backslash, c_newline] [] (payload_command pl)) = Some inner"
    and "i \<in> set inner" and "p \<in> set deny" and "rule_matches i p"
  shows "v = Deny"
proof -
  let ?pres = "gate_prefixes tp"
  from assms(1,2) obtain rds where
    rds: "map_m (read_segment env (reads_past_prefixes deny ask) ?pres) segs = Some rds"
    by (auto simp: check_command_with_prefixes_def Let_def split: bind_splits)
  have "read_segment env (reads_past_prefixes deny ask) ?pres seg = Some (seg, rd)"
    using assms(9,4) split_trimmed(1) [OF assms(2,3)]
    by (auto simp: read_segment_def reads_past_prefixes_def)
  then have mem: "(seg, rd) \<in> set rds" using map_m_member [OF rds assms(3)] by auto
  have "rule_matches (trim i) p" using assms(10) split_trimmed(1) [OF assms(7,8)] by simp
  then have hit: "u = WrapperDeny" if "wrapper_verdict env rd deny ?pres 0 = Some u" for u
    using that wrapper_loop_hit [OF _ assms(5,6,7,8,9)]
    by (simp add: wrapper_verdict_def max_wrapper_depth_def numeral_3_eq_3)
  have "w = None" if "wrappers_loop env deny ?pres rds False = Some w" for w
    using wrappers_loop_hit [OF that mem] hit by blast
  with assms(1,2) rds show ?thesis
    by (auto simp: check_command_with_prefixes_def Let_def any_denied_eq split: bind_splits if_splits)
qed

lemma quoted_script_denied_witness:
  "the (check_command_with_prefixes plain_env (lit ''sh -c \"ls; rm x\"'') [lit ''rm''] []
     [lit ''*''] []) = Deny"
  by (rule quoted_script_denied [where env = plain_env and cmd = "lit ''sh -c \"ls; rm x\"''"
        and deny = "[lit ''rm'']" and ask = "[]" and allow = "[lit ''*'']" and tp = "[]"
        and segs = "[lit ''sh -c \"ls; rm x\"'']" and seg = "lit ''sh -c \"ls; rm x\"''"
        and rd = "\<lparr>rd_readings = [lit ''sh -c \"ls; rm x\"''], rd_complete = True\<rparr>"
        and r = "lit ''sh -c \"ls; rm x\"''" and p = "lit ''rm''" and i = "lit ''rm x''"
        and pl = "\<lparr>payload_command = lit ''ls; rm x'', payload_range = (6, 16),
          payload_quote = Some c_dquote\<rparr>" and inner = "[lit ''ls'', lit ''rm x'']"]) code_simp+

section \<open>Unreadable settings ask\<close>

lemma fold_load_keeps: "[c_star] \<in> set (ask_rules rs) \<Longrightarrow>
  [c_star] \<in> set (ask_rules (fold (\<lambda>path. load_file parse (read path)) paths rs))"
proof (induction paths arbitrary: rs)
  case (Cons path paths)
  have "[c_star] \<in> set (ask_rules (load_file parse (read path) rs))"
    using Cons.prems
    by (auto simp: load_file_def append_bash_rules_def Let_def split: file_read.splits option.splits)
  with Cons.IH show ?case by simp
qed simp

text \<open>A settings file that is there but cannot be read, or that is not blank and cannot be parsed.\<close>

definition broken_settings :: "(rstr \<Rightarrow> json option) \<Rightarrow> file_read \<Rightarrow> bool" where
  "broken_settings parse r =
     (case r of
        Missing \<Rightarrow> False
      | Unreadable \<Rightarrow> True
      | Content content \<Rightarrow>
          let body = (case strip_prefix content [0xFEFF] of Some c \<Rightarrow> c | None \<Rightarrow> content)
          in trim body \<noteq> [] \<and> parse body = None)"

lemma broken_settings_ask:
  assumes "path \<in> set paths" and "broken_settings parse (read path)"
  shows "[c_star] \<in> set (ask_rules (load_permission_rules_from read parse paths))"
proof -
  have "[c_star] \<in> set (ask_rules (fold (\<lambda>path. load_file parse (read path)) paths rs))" for rs
    using assms(1)
  proof (induction paths arbitrary: rs)
    case (Cons x xs)
    show ?case
    proof (cases "x = path")
      case True
      with assms(2) have "[c_star] \<in> set (ask_rules (load_file parse (read x) rs))"
        by (auto simp: broken_settings_def load_file_def Let_def split: file_read.splits option.splits)
      then show ?thesis by (simp add: fold_load_keeps)
    next
      case False
      with Cons show ?thesis by simp
    qed
  qed simp
  then show ?thesis by (simp add: load_permission_rules_from_def)
qed

lemma star_matches: "rule_matches cmd [c_star]"
proof -
  have "normalize_ws [c_star] = [c_star]"
    by (simp add: normalize_ws_def split_whitespace_def is_whitespace_def)
  then show ?thesis by (simp add: command_matches_pattern_def)
qed

lemma tally_loop_asks:
  assumes "tally_loop reads ask allow xs t = Some t'" and "[c_star] \<in> set ask"
    and "any_ask t \<or> (\<exists>(seg, rd) \<in> set xs. seg \<noteq> [])"
  shows "any_ask t'"
  using assms(1,3)
proof (induction xs arbitrary: t)
  case (Cons x xs)
  obtain seg rd where x: "x = (seg, rd)" by (cases x)
  have hit: "\<exists>p \<in> set ask. names seg rd p"
    using assms(2) star_matches by (auto simp: names_def)
  from Cons hit show ?case
    by (auto simp: x any_matches_eq split: if_splits bind_splits)
qed auto

text \<open>The gate fails closed: when a settings file exists but cannot be read or parsed, its deny
  rules are unknown, and every command that has a segment is asked about or denied, whatever the
  other files allow.\<close>

lemma broken_settings_never_allow:
  assumes "path \<in> set paths" and "broken_settings parse (read path)"
    and "split_for_permissions cmd \<noteq> Some []"
    and "check_command env read parse paths cmd tp = Some v"
  shows "v = Ask \<or> v = Deny"
proof -
  let ?rs = "load_permission_rules_from read parse paths"
  let ?deny = "deny_rules ?rs" and ?ask = "ask_rules ?rs"
  obtain segs where segs: "split_for_permissions cmd = Some segs" "segs \<noteq> []"
    using split_for_permissions_segments [of cmd] assms(3) by auto
  from assms(4) segs(1) obtain rds where
    rds: "map_m (read_segment env (reads_past_prefixes ?deny ?ask) (gate_prefixes tp)) segs = Some rds"
    by (auto simp: check_command_def check_command_with_prefixes_def Let_def split: bind_splits)
  obtain seg where seg: "seg \<in> set segs" using segs(2) by (cases segs) auto
  then have "\<exists>(s, rd) \<in> set rds. s \<noteq> []"
    using map_m_member [OF rds seg] read_segment_fst split_trimmed(1,2) [OF segs(1) seg] by fastforce
  then have ask: "any_ask t"
    if "tally_loop (reads_past_prefixes ?deny ?ask) ?ask (allow_rules ?rs) rds tally_init = Some t" for t
    using tally_loop_asks [OF that] broken_settings_ask [OF assms(1), of parse read, OF assms(2)]
    by blast
  from assms(4) segs(1) rds ask show ?thesis
    by (auto simp: check_command_def check_command_with_prefixes_def Let_def final_verdict_def
        split: bind_splits if_splits option.splits)
qed

lemma broken_settings_never_allow_witness:
  "the (check_command plain_env (\<lambda>b. if b then Unreadable else Content (lit ''{}''))
     (\<lambda>_. Some (JObj [(lit ''permissions'', JObj [(lit ''allow'', JArr [JStr (lit ''Bash(*)'')])])]))
     [False, True] (lit ''ls'') []) = Ask \<or>
   the (check_command plain_env (\<lambda>b. if b then Unreadable else Content (lit ''{}''))
     (\<lambda>_. Some (JObj [(lit ''permissions'', JObj [(lit ''allow'', JArr [JStr (lit ''Bash(*)'')])])]))
     [False, True] (lit ''ls'') []) = Deny"
  by (rule broken_settings_never_allow [where path = True and paths = "[False, True]"
        and parse = "\<lambda>_. Some (JObj [(lit ''permissions'',
          JObj [(lit ''allow'', JArr [JStr (lit ''Bash(*)'')])])])"
        and read = "\<lambda>b. if b then Unreadable else Content (lit ''{}'')"
        and cmd = "lit ''ls''" and env = plain_env and tp = "[]"]) code_simp+

section \<open>A verdict for every command without quotes\<close>

lemma replace_all_empty_set: "set (replace_all pat [] s) \<subseteq> set s"
proof (induction pat "[] :: rstr" s rule: replace_all.induct)
  case (2 pat c s)
  show ?case
  proof (cases "pat \<noteq> [] \<and> starts_with (c # s) pat")
    case True
    with 2(1) set_drop_subset [of "length pat" "c # s"] show ?thesis
      by (auto simp del: set_simps simp: True)
  next
    case False
    with 2(2) show ?thesis by (auto simp: False)
  qed
qed simp

lemma quote_free_sublist: "quote_free t \<Longrightarrow> sublist s t \<Longrightarrow> quote_free s"
  by (erule quote_free_mono) (rule set_mono_sublist)

lemma quote_free_suffix: "quote_free t \<Longrightarrow> suffix s t \<Longrightarrow> quote_free s"
  by (erule quote_free_mono) (rule set_mono_suffix)

lemma quote_free_trim: "quote_free s \<Longrightarrow> quote_free (trim s)"
  by (erule quote_free_sublist) (metis sublist_appendI trim_split)

lemma quote_free_residue: "quote_free s \<Longrightarrow> quote_free (strip_grammar_residue s)"
  unfolding strip_grammar_residue_def
  using quote_free_suffix [OF quote_free_trim residue_loop_suffix] by blast

text \<open>Readings without quotes.\<close>

definition plain_readings :: "readings \<Rightarrow> bool" where
  "plain_readings rd = list_all quote_free (rd_readings rd)"

lemma matching_readings_plain:
  assumes "regex_boundaries env" and "quote_free seg"
  shows "\<exists>rd. matching_readings env seg pres = Some rd \<and> plain_readings rd"
  using matching_readings_total [OF assms(1), of seg pres] quote_free_trim [OF assms(2)]
  by (auto simp: plain_readings_def list_all_iff dest: quote_free_suffix)

lemma script_denied_total:
  assumes "regex_boundaries env" and "\<forall>seg \<in> set segs. quote_free seg"
    and "\<And>rd. plain_readings rd \<Longrightarrow> f rd \<noteq> None"
  shows "script_denied env deny pres f segs \<noteq> None"
  using assms(2)
proof (induction segs)
  case (Cons seg segs)
  then obtain rd where rd: "matching_readings env (strip_grammar_residue (trim seg)) pres = Some rd"
    "plain_readings rd"
    using matching_readings_plain [OF assms(1) quote_free_residue [OF quote_free_trim]] by force
  with assms(3) obtain v where "f rd = Some v" by blast
  with rd Cons show ?case by (auto simp: denied_by_eq)
qed simp

lemma wrapper_loop_total:
  assumes "regex_boundaries env" and "\<forall>r \<in> set rs. quote_free r"
    and "\<And>f rd. d = Some f \<Longrightarrow> plain_readings rd \<Longrightarrow> f rd \<noteq> None"
  shows "wrapper_loop env deny pres d rs w \<noteq> None"
  using assms(2)
proof (induction rs arbitrary: w)
  case (Cons r rs)
  have rest: "wrapper_loop env deny pres d rs w' \<noteq> None" for w'
    using Cons by simp
  from Cons.prems parse_quote_free [of r] obtain res where
    res: "parse_shell_command_wrapper r = Some res"
    and pl: "\<And>pl. res = Parsed pl \<Longrightarrow> quote_free (payload_command pl)" by auto
  have "\<exists>b. (split_for_permissions (replace_all [c_backslash, c_newline] [] (payload_command pl)) \<bind>
      script_denied env deny pres f) = Some b" if p: "res = Parsed pl" and d: "d = Some f" for pl f
  proof -
    let ?script = "replace_all [c_backslash, c_newline] [] (payload_command pl)"
    obtain segs where segs: "split_for_permissions ?script = Some segs"
      using split_for_permissions_segments by blast
    have "quote_free ?script" using pl [OF p] replace_all_empty_set quote_free_mono by blast
    then have "\<forall>seg \<in> set segs. quote_free seg"
      using split_trimmed(3) [OF segs] quote_free_sublist by blast
    from script_denied_total [OF assms(1) this, of f deny pres] assms(3) [OF d] segs
    show ?thesis by auto
  qed
  with rest res show ?case
    by (fastforce split: shell_wrapper_parse.splits option.splits bind_splits)
qed simp

lemma wrapper_levels_total:
  assumes "regex_boundaries env" and "plain_readings rd"
  shows "wrapper_levels env deny pres n rd \<noteq> None"
  using assms(2)
proof (induction n arbitrary: rd)
  case 0
  then show ?case
    using wrapper_loop_total [OF assms(1), of "rd_readings rd" None]
    by (simp add: plain_readings_def list_all_iff)
next
  case (Suc n)
  have "wrapper_loop env deny pres (Some (wrapper_levels env deny pres n)) (rd_readings rd) False \<noteq> None"
    using Suc.prems Suc.IH
    by (intro wrapper_loop_total [OF assms(1)]) (auto simp: plain_readings_def list_all_iff)
  then show ?case by simp
qed

lemma wrappers_loop_total:
  assumes "regex_boundaries env" and "\<forall>(s, rd) \<in> set xs. plain_readings rd"
  shows "wrappers_loop env deny pres xs seen \<noteq> None"
  using assms(2)
proof (induction xs arbitrary: seen)
  case (Cons x xs)
  obtain s rd where x: "x = (s, rd)" by (cases x)
  with Cons.prems wrapper_levels_total [OF assms(1)] obtain v where
    "wrapper_verdict env rd deny pres 0 = Some v"
    unfolding wrapper_verdict_def by fastforce
  with Cons x show ?case by auto
qed simp

lemma tally_loop_total: "tally_loop reads ask allow xs t \<noteq> None"
proof (induction xs arbitrary: t)
  case (Cons x xs)
  obtain seg rd where "x = (seg, rd)" by (cases x)
  with Cons show ?case
    by (auto simp: any_matches_eq any_m_eq)
qed simp

lemma unattestable_total: "unattestable seen cmd \<noteq> None"
  using any_file_redirect_total [of "tokenize cmd"]
  by (auto simp: unattestable_def contains_unattestable_construct_def)

text \<open>The gate gives a verdict, without a panic and without looping, on every command that has no
  quote character, whatever the rules, the prefixes and the resolution of executables.\<close>

lemma quote_free_command_gets_verdict:
  assumes "regex_boundaries env" and "quote_free cmd"
  shows "\<exists>v. check_command_with_prefixes env cmd deny ask allow tp = Some v"
proof -
  let ?reads = "reads_past_prefixes deny ask" and ?pres = "gate_prefixes tp"
  obtain segs where segs: "split_for_permissions cmd = Some segs"
    using split_for_permissions_segments by blast
  obtain rds where rds: "map_m (read_segment env ?reads ?pres) segs = Some rds"
    using map_read_total [OF assms(1)] by blast
  have "plain_readings (snd y)" if y: "y \<in> set rds" for y
  proof -
    obtain seg where seg: "seg \<in> set segs" "read_segment env ?reads ?pres seg = Some y"
      using map_m_in [OF rds y] by blast
    then have q: "quote_free seg" using split_trimmed(3) [OF segs] quote_free_sublist assms(2) by blast
    from seg(2) q matching_readings_plain [OF assms(1) quote_free_residue [OF quote_free_trim [OF q]],
        of ?pres]
    show ?thesis
      by (auto simp: read_segment_def Let_def as_written_def plain_readings_def quote_free_trim
          split: if_splits bind_splits)
  qed
  then have "\<forall>(s, rd) \<in> set rds. plain_readings rd" by auto
  from wrappers_loop_total [OF assms(1) this] obtain w where
    "wrappers_loop env deny ?pres rds False = Some w" by blast
  moreover obtain t where "tally_loop ?reads ask allow rds tally_init = Some t"
    using tally_loop_total by blast
  moreover have "\<exists>v. unattestable seen cmd \<bind> (\<lambda>opaque. Some (final_verdict t opaque allow)) = Some v"
    for seen
    using unattestable_total [of seen cmd] by auto
  ultimately show ?thesis
    using segs rds
    by (auto simp: check_command_with_prefixes_def Let_def any_denied_eq split: option.splits)
qed

lemma quote_free_command_gets_verdict_witness:
  "\<exists>v. check_command_with_prefixes plain_env (lit ''env A=1 sudo rm x | cat'') [lit ''rm''] [] [] [] =
     Some v"
  by (rule quote_free_command_gets_verdict) (simp, code_simp)

section \<open>Three ways past the gate\<close>

text \<open>Without a deny or an ask rule only the segment as written is looked at, and a quoted script behind a
  prefix is allowed; with any deny rule, one that names none of these words too, it is asked about.\<close>

lemma prefixed_script_allowed_without_rules:
  "check_command_with_prefixes plain_env (lit ''sudo sh -c \"rm x\"'') [] [] [lit ''*''] [] = Some Allow \<and>
   check_command_with_prefixes plain_env (lit ''env bash -c \"rm x\"'') [] [] [lit ''env:*''] [] = Some Allow \<and>
   check_command_with_prefixes plain_env (lit ''sh -c \"rm x\"'') [] [] [lit ''*''] [] = Some Ask \<and>
   check_command_with_prefixes plain_env (lit ''sudo sh -c \"rm x\"'') [lit ''git''] [] [lit ''*''] [] = Some Ask"
  by (intro conjI; code_simp)

text \<open>A redirect in the middle of a command hides what follows it: the segment ends at \<open>2>&1\<close>,
  which is exempt as a duplication of a descriptor, so a command that a deny rule matches word for
  word is allowed. Without the redirect it is denied.\<close>

lemma redirect_hides_denied_arguments:
  "check_command_with_prefixes plain_env (lit ''git push 2>&1 --force'')
     [lit ''git push --force''] [] [lit ''git push''] [] = Some Allow \<and>
   check_command_with_prefixes plain_env (lit ''git push --force 2>&1'')
     [lit ''git push --force''] [] [lit ''git push''] [] = Some Deny"
  by (intro conjI; code_simp)

text \<open>The gate panics on a command with a segment that is a lone quote character, whatever the
  rules are.\<close>

lemma lone_quote_panics_gate:
  "check_command_with_prefixes env [c_squote] [] [] allow tp = None \<and>
   check_command_with_prefixes plain_env (lit ''ls; \"'') [lit ''rm''] [] [lit ''*''] [] = None"
proof
  have 1: "split_for_permissions [c_squote] = Some [[c_squote]]"
    and 2: "parse_shell_command_wrapper [c_squote] = None" and 3: "trim [c_squote] = [c_squote]"
    by code_simp+
  then show "check_command_with_prefixes env [c_squote] [] [] allow tp = None"
    by (simp add: check_command_with_prefixes_def read_segment_def Let_def reads_past_prefixes_def
        as_written_def denied_by_def wrapper_verdict_def max_wrapper_depth_def numeral_3_eq_3)
  show "check_command_with_prefixes plain_env (lit ''ls; \"'') [lit ''rm''] [] [lit ''*''] [] = None"
    by code_simp
qed

end
