(* ===== verification/Exec_Model.thy ===== *)
theory Exec_Model
  imports Rust_Prelude
begin

text \<open>
  The decision and execution boundary (\<open>crates/hzr-exec/src\<close>: \<open>model.rs\<close>, \<open>error.rs\<close>, \<open>jobs.rs\<close>,
  \<open>choose_never_worse\<close> of \<open>lib.rs\<close>, and the pipeline of \<open>executor.rs\<close>): canonical commands, rewrite
  decisions and the reconciliation of a decision with a host's grant, capture limits, and which
  process the pipeline starts for an envelope.

  Paths are their text. What the operating system answers to a spawn is an argument, as is the
  environment of the parent process. The child is the process specification that was spawned.
\<close>

type_synonym path = rstr
type_synonym io_error = rstr

section \<open>Errors\<close>

datatype (plugins only: code size) exec_error =
    EmptyProgram
  | EmptyShell
  | InvalidMemoryLimit
  | InvalidCaptureLimit
  | MemoryLimitExceedsCaptureLimit
  | InvalidEventBuffer
  | CreateSpillDirectory path io_error
  | OpenSpill path io_error
  | WriteSpill path io_error
  | FlushSpill path io_error
  | MissingSpillState
  | ConfigureStdin rstr io_error
  | WriteStdin rstr io_error
  | Spawn rstr io_error
  | MissingPipe rstr rstr
  | Wait rstr io_error
  | MissingForkRuntimePaths
  | InvalidForkRuntimePath path
  | InvalidForkBinaryPath path
  | NonUtf8ForkBinaryPath path
  | NonUtf8ForkRuntimePath path
  | InvalidForkPathEnvironment rstr
  | PrepareForkRuntime path io_error
  | ForkCoreUnavailable rstr
  | AccountingBatchMismatch
  | Join rstr io_error
  | InvalidRtkUtf8
  | InvalidRtkJson rstr
  | CompletionClosed

section \<open>Commands\<close>

datatype canonical_command =
    Argv rstr "rstr list"
  | Shell rstr rstr

definition argv :: "rstr \<Rightarrow> rstr list \<Rightarrow> exec_error + canonical_command" where
  "argv program args = (if program = [] then Inl EmptyProgram else Inr (Argv program args))"

definition default_shell :: rstr where
  "default_shell = lit ''/bin/sh''"

definition shell_cmd :: "rstr \<Rightarrow> canonical_command" where
  "shell_cmd command = Shell default_shell command"

definition with_shell :: "rstr \<Rightarrow> rstr \<Rightarrow> exec_error + canonical_command" where
  "with_shell sh command = (if sh = [] then Inl EmptyShell else Inr (Shell sh command))"

fun program_of :: "canonical_command \<Rightarrow> rstr" where
  "program_of (Argv program _) = program"
| "program_of (Shell sh _) = sh"

definition host_shell_from :: "path option \<Rightarrow> (rstr \<Rightarrow> bool) \<Rightarrow> rstr" where
  "host_shell_from shell_env exists =
     (let fallback = (case List.find exists [lit ''/bin/bash'', lit ''/usr/bin/bash''] of
            Some p \<Rightarrow> p | None \<Rightarrow> default_shell)
      in case shell_env of
           Some sh \<Rightarrow>
             if starts_with sh [c_slash] \<and>
                file_name sh \<in> {Some (lit ''bash''), Some (lit ''zsh'')} \<and> exists sh
             then sh else fallback
         | None \<Rightarrow> fallback)"

definition host_shell :: "path option \<Rightarrow> (rstr \<Rightarrow> bool) \<Rightarrow> rstr \<Rightarrow> canonical_command" where
  "host_shell shell_env exists command = Shell (host_shell_from shell_env exists) command"

section \<open>Decisions\<close>

datatype rtk_rewrite_route = Optimized | Proxy

datatype rewrite_source = HzrPolicy | Rtk rstr rtk_rewrite_route

datatype rewrite_decision =
    AllowRaw (decision_reason: rstr)
  | AllowRewrite canonical_command rewrite_source (decision_reason: rstr)
  | AskDecision "canonical_command option" (decision_reason: rstr)
  | DenyDecision (decision_reason: rstr)

definition grant_applied_reason :: rstr where
  "grant_applied_reason =
     lit ''host permission mode grants execution, so HZR recorded it instead of prompting''"

definition reconcile_host_grant :: "rewrite_decision \<Rightarrow> bool \<Rightarrow> rewrite_decision" where
  "reconcile_host_grant decision granted =
     (if \<not> granted then decision
      else case decision of
        AskDecision proposed reason \<Rightarrow>
          (case proposed of
             Some command \<Rightarrow>
               AllowRewrite command HzrPolicy (reason @ lit ''; '' @ grant_applied_reason)
           | None \<Rightarrow> AllowRaw (reason @ lit ''; '' @ grant_applied_reason))
      | _ \<Rightarrow> decision)"

fun host_grant_applied :: "rewrite_decision \<Rightarrow> bool" where
  "host_grant_applied (AllowRaw reason) = ends_with reason grant_applied_reason"
| "host_grant_applied (AllowRewrite _ _ reason) = ends_with reason grant_applied_reason"
| "host_grant_applied (AskDecision _ _) = False"
| "host_grant_applied (DenyDecision _) = False"

section \<open>Envelopes and outcomes\<close>

record environment =
  inherit :: bool
  set_vars :: "(rstr \<times> rstr) list"
  remove_vars :: "rstr list"

definition default_environment :: environment where
  "default_environment = \<lparr>inherit = True, set_vars = [], remove_vars = []\<rparr>"

datatype stdin_spec = NullStdin | BytesStdin "u8 list"

datatype capture_overflow = SpillTo path | Truncate

record capture_config =
  memory_limit_bytes :: u64
  max_capture_bytes :: u64
  overflow :: capture_overflow
  event_buffer :: nat

definition capture_validate :: "capture_config \<Rightarrow> exec_error + unit" where
  "capture_validate cfg =
     (if memory_limit_bytes cfg = 0 then Inl InvalidMemoryLimit
      else if max_capture_bytes cfg = 0 then Inl InvalidCaptureLimit
      else if memory_limit_bytes cfg > max_capture_bytes cfg then Inl MemoryLimitExceedsCaptureLimit
      else if event_buffer cfg = 0 then Inl InvalidEventBuffer
      else Inr ())"

definition default_capture :: "path \<Rightarrow> capture_config" where
  "default_capture temp_dir =
     \<lparr>memory_limit_bytes = 256 * 1024, max_capture_bytes = 64 * 1024 * 1024,
      overflow = SpillTo (temp_dir @ lit ''/hzr-exec''), event_buffer = 64\<rparr>"

record execution_envelope =
  env_command :: canonical_command
  env_decision :: rewrite_decision
  env_cwd :: "path option"
  env_environment :: environment
  env_stdin :: stdin_spec
  env_timeout_ms :: "u64 option"
  env_termination_grace_ms :: u64
  env_capture :: capture_config

definition envelope_allow_raw :: "path \<Rightarrow> canonical_command \<Rightarrow> execution_envelope" where
  "envelope_allow_raw temp_dir command =
     \<lparr>env_command = command, env_decision = AllowRaw (lit ''no rewrite requested''), env_cwd = None,
      env_environment = default_environment, env_stdin = NullStdin, env_timeout_ms = None,
      env_termination_grace_ms = 250, env_capture = default_capture temp_dir\<rparr>"

datatype execution_stream = Stdout | Stderr

datatype captured_content = InlineBytes "u8 list" | Spilled path

record captured_stream =
  cap_content :: captured_content
  cap_total_bytes :: u64
  cap_stored_bytes :: u64
  cap_sha256 :: rstr
  cap_truncated :: bool
  cap_dropped_event_bytes :: u64

definition is_exact :: "captured_stream \<Rightarrow> bool" where
  "is_exact s = (\<not> cap_truncated s \<and> cap_total_bytes s = cap_stored_bytes s)"

datatype termination_cause = Exited | Signaled | TimedOut | CancelledCause

record termination_report =
  term_cause :: termination_cause
  term_exit_code :: "int option"
  term_signal :: "int option"

record execution_result =
  res_requested :: canonical_command
  res_executed :: canonical_command
  res_decision :: rewrite_decision
  res_raw_fallback :: bool
  res_stdout :: captured_stream
  res_stderr :: captured_stream
  res_termination :: termination_report
  res_duration_ms :: u64

datatype not_started =
    ApprovalRequired "rstr option" canonical_command "canonical_command option" rstr
  | Denied canonical_command rstr

record accounting_incomplete =
  acc_code :: rstr
  acc_retryable :: bool
  acc_incident_persisted :: bool

datatype execution_outcome =
    Completed execution_result
  | ExecutedAccountingIncomplete execution_result accounting_incomplete
  | NotStarted not_started

datatype never_worse_choice = Raw | Candidate

definition choose_never_worse :: "'a list \<Rightarrow> 'a list \<Rightarrow> never_worse_choice" where
  "choose_never_worse raw candidate = (if length candidate < length raw then Candidate else Raw)"

section \<open>Which process is started\<close>

text \<open>What \<open>spawn_command\<close> hands to the operating system.\<close>

record process_spec =
  ps_program :: rstr
  ps_args :: "rstr list"
  ps_cwd :: "path option"
  ps_env :: "rstr \<Rightarrow> rstr option"
  ps_stdin :: stdin_spec

definition child_env :: "(rstr \<Rightarrow> rstr option) \<Rightarrow> environment \<Rightarrow> rstr \<Rightarrow> rstr option" where
  "child_env parent e k =
     (if k \<in> set (remove_vars e) then None
      else case map_of (set_vars e) k of
        Some v \<Rightarrow> Some v
      | None \<Rightarrow> if inherit e then parent k else None)"

definition process_for ::
  "(rstr \<Rightarrow> rstr option) \<Rightarrow> execution_envelope \<Rightarrow> canonical_command \<Rightarrow> exec_error + process_spec" where
  "process_for parent envelope command =
     (let spec = (\<lambda>program args. \<lparr>ps_program = program, ps_args = args, ps_cwd = env_cwd envelope,
            ps_env = child_env parent (env_environment envelope), ps_stdin = env_stdin envelope\<rparr>)
      in case command of
           Argv program args \<Rightarrow> if program = [] then Inl EmptyProgram else Inr (spec program args)
         | Shell sh cmd \<Rightarrow> if sh = [] then Inl EmptyShell else Inr (spec sh [lit ''-c'', cmd]))"

text \<open>The operating system either starts the process or answers with an error. The list is the
  processes asked for, in order.\<close>

definition spawn_command ::
  "(rstr \<Rightarrow> rstr option) \<Rightarrow> (process_spec \<Rightarrow> io_error option) \<Rightarrow> execution_envelope \<Rightarrow>
   canonical_command \<Rightarrow> process_spec list \<times> (exec_error + process_spec)" where
  "spawn_command parent os envelope command =
     (case process_for parent envelope command of
        Inl e \<Rightarrow> ([], Inl e)
      | Inr spec \<Rightarrow>
          (case os spec of
             Some source \<Rightarrow> ([spec], Inl (Spawn (program_of command) source))
           | None \<Rightarrow> ([spec], Inr spec)))"

datatype start_result =
    Immediate execution_outcome
  | Running process_spec canonical_command bool

fun raw_fallback_allowed :: "rewrite_decision \<Rightarrow> bool" where
  "raw_fallback_allowed (AllowRewrite _ HzrPolicy _) = True"
| "raw_fallback_allowed _ = False"

fun preferred_command :: "execution_envelope \<Rightarrow> rewrite_decision \<Rightarrow> canonical_command" where
  "preferred_command envelope (AllowRewrite command _ _) = command"
| "preferred_command envelope _ = env_command envelope"

definition start_process ::
  "(rstr \<Rightarrow> rstr option) \<Rightarrow> (process_spec \<Rightarrow> io_error option) \<Rightarrow> execution_envelope \<Rightarrow>
   process_spec list \<times> (exec_error + start_result)" where
  "start_process parent os envelope =
     (let requested = env_command envelope;
          preferred = preferred_command envelope (env_decision envelope)
      in case spawn_command parent os envelope preferred of
           (tried, Inr child) \<Rightarrow> (tried, Inr (Running child preferred False))
         | (tried, Inl e) \<Rightarrow>
             if raw_fallback_allowed (env_decision envelope)
             then (case spawn_command parent os envelope requested of
                     (again, Inl e') \<Rightarrow> (tried @ again, Inl e')
                   | (again, Inr child) \<Rightarrow> (tried @ again, Inr (Running child requested True)))
             else (tried, Inl e))"

definition start ::
  "(rstr \<Rightarrow> rstr option) \<Rightarrow> (process_spec \<Rightarrow> io_error option) \<Rightarrow> execution_envelope \<Rightarrow>
   process_spec list \<times> (exec_error + start_result)" where
  "start parent os envelope =
     (case capture_validate (env_capture envelope) of
        Inl e \<Rightarrow> ([], Inl e)
      | Inr _ \<Rightarrow>
          (case env_decision envelope of
             AskDecision proposed reason \<Rightarrow>
               ([], Inr (Immediate (NotStarted
                 (ApprovalRequired None (env_command envelope) proposed reason))))
           | DenyDecision reason \<Rightarrow>
               ([], Inr (Immediate (NotStarted (Denied (env_command envelope) reason))))
           | _ \<Rightarrow> start_process parent os envelope))"

section \<open>How a process ends\<close>

record exit_status =
  st_code :: "int option"
  st_signal :: "int option"

definition natural_cause :: "exit_status \<Rightarrow> termination_cause" where
  "natural_cause status = (if st_code status \<noteq> None then Exited else Signaled)"

definition termination_of :: "termination_cause \<Rightarrow> exit_status \<Rightarrow> termination_report" where
  "termination_of cause status =
     \<lparr>term_cause = cause, term_exit_code = st_code status, term_signal = st_signal status\<rparr>"

text \<open>What the race of the waiting task is won by; \<open>terminated\<close> is what waiting gives after the
  process group was signalled. Without a timeout there is no timer in the race.\<close>

datatype wait_event =
    ChildExited "io_error + exit_status"
  | CancelRequested
  | TimerElapsed

definition wait_for_termination ::
  "u64 option \<Rightarrow> rstr \<Rightarrow> wait_event \<Rightarrow> (io_error + exit_status) \<Rightarrow>
   (exec_error + termination_cause \<times> exit_status) option" where
  "wait_for_termination timeout program event terminated =
     (let finish = (\<lambda>cause r. case r of
            Inl source \<Rightarrow> Inl (Wait program source)
          | Inr status \<Rightarrow> Inr (case cause of Some c \<Rightarrow> c | None \<Rightarrow> natural_cause status, status))
      in case event of
           ChildExited r \<Rightarrow> Some (finish None r)
         | CancelRequested \<Rightarrow> Some (finish (Some CancelledCause) terminated)
         | TimerElapsed \<Rightarrow>
             if timeout = None then None else Some (finish (Some TimedOut) terminated))"

section \<open>Properties\<close>

text \<open>A host grant removes the prompt and nothing else: without a grant a decision is unchanged;
  with one, an ask becomes the proposed command or raw execution and is marked, its reason kept,
  and every other decision, a denial first, is unchanged.\<close>

lemma reconcile_host_grant_contract:
  "reconcile_host_grant d False = d \<and>
   (\<forall>reason. reconcile_host_grant (DenyDecision reason) granted = DenyDecision reason) \<and>
   (\<forall>proposed reason. case reconcile_host_grant (AskDecision proposed reason) True of
      AllowRewrite c src r \<Rightarrow> proposed = Some c \<and> src = HzrPolicy \<and> starts_with r reason
    | AllowRaw r \<Rightarrow> proposed = None \<and> starts_with r reason
    | _ \<Rightarrow> False) \<and>
   (\<forall>proposed reason. host_grant_applied (reconcile_host_grant (AskDecision proposed reason) True)) \<and>
   reconcile_host_grant (reconcile_host_grant d granted) granted = reconcile_host_grant d granted"
  by (auto simp: reconcile_host_grant_def starts_with_iff ends_with_iff
      split: rewrite_decision.splits option.splits)

text \<open>The commands an envelope may run: what was asked for, or the rewrite it carries.\<close>

fun approved_commands :: "execution_envelope \<Rightarrow> rewrite_decision \<Rightarrow> canonical_command list" where
  "approved_commands envelope (AllowRaw _) = [env_command envelope]"
| "approved_commands envelope (AllowRewrite command HzrPolicy _) = [command, env_command envelope]"
| "approved_commands envelope (AllowRewrite command (Rtk _ _) _) = [command]"
| "approved_commands envelope _ = []"

lemma spawn_command_tried:
  "spec \<in> set (fst (spawn_command parent os envelope c)) \<Longrightarrow> process_for parent envelope c = Inr spec"
  by (auto simp: spawn_command_def split: sum.splits option.splits)

lemma spawn_command_child:
  "snd (spawn_command parent os envelope c) = Inr child \<Longrightarrow>
   process_for parent envelope c = Inr child \<and> os child = None"
  by (auto simp: spawn_command_def split: sum.splits option.splits)

lemma start_process_tried:
  assumes "spec \<in> set (fst (start_process parent os envelope))"
  shows "process_for parent envelope (preferred_command envelope (env_decision envelope)) = Inr spec \<or>
    raw_fallback_allowed (env_decision envelope) \<and>
    process_for parent envelope (env_command envelope) = Inr spec"
proof -
  let ?first = "spawn_command parent os envelope (preferred_command envelope (env_decision envelope))"
    and ?again = "spawn_command parent os envelope (env_command envelope)"
  from assms have "spec \<in> set (fst ?first) \<or>
      raw_fallback_allowed (env_decision envelope) \<and> spec \<in> set (fst ?again)"
    by (cases ?first; cases ?again)
      (auto simp: start_process_def Let_def split: sum.splits if_splits)
  then show ?thesis using spawn_command_tried by blast
qed

text \<open>C28: The pipeline starts only approved processes: every process it asks the operating system for
  is the requested command under a raw permission, the approved rewrite, or the requested command
  after an HZR rewrite failed to start; a denied or unanswered decision asks for none.\<close>

theorem start_only_approved:
  "list_all (\<lambda>spec. \<exists>c. c \<in> set (approved_commands envelope (env_decision envelope)) \<and>
     process_for parent envelope c = Inr spec) (fst (start parent os envelope))"
proof (cases "capture_validate (env_capture envelope)")
  case (Inr u)
  show ?thesis
  proof (cases "env_decision envelope")
    case (AllowRaw r)
    with Inr start_process_tried [of _ parent os envelope] show ?thesis
      by (auto simp: start_def list_all_iff)
  next
    case (AllowRewrite c src r)
    with Inr start_process_tried [of _ parent os envelope] show ?thesis
      by (cases src) (auto simp: start_def list_all_iff)
  qed (use Inr in \<open>simp_all add: start_def\<close>)
qed (simp add: start_def)

text \<open>What runs is what is reported: the child the pipeline returns is the process of the command
  it names as executed, was accepted by the operating system, and the raw fallback is reported
  exactly when an HZR rewrite could not be started.\<close>

lemma start_reports_executed:
  assumes "snd (start parent os envelope) = Inr (Running child executed fallback)"
  shows "process_for parent envelope executed = Inr child \<and> os child = None \<and>
    executed \<in> set (approved_commands envelope (env_decision envelope)) \<and>
    (fallback \<longrightarrow> executed = env_command envelope) \<and>
    fallback = (\<exists>c r e. env_decision envelope = AllowRewrite c HzrPolicy r \<and>
       snd (spawn_command parent os envelope c) = Inl e)"
proof -
  from assms have ok: "\<exists>r. env_decision envelope = AllowRaw r \<or>
      (\<exists>c s. env_decision envelope = AllowRewrite c s r)"
    and sp: "snd (start_process parent os envelope) = Inr (Running child executed fallback)"
    by (auto simp: start_def split: sum.splits rewrite_decision.splits)
  let ?d = "env_decision envelope"
  let ?first = "spawn_command parent os envelope (preferred_command envelope ?d)"
    and ?again = "spawn_command parent os envelope (env_command envelope)"
  consider "snd ?first = Inr child" "executed = preferred_command envelope ?d" "\<not> fallback"
    | e where "snd ?first = Inl e" "raw_fallback_allowed ?d" "snd ?again = Inr child"
      "executed = env_command envelope" "fallback"
    using sp by (cases ?first; cases ?again)
      (auto simp: start_process_def Let_def split: sum.splits if_splits)
  then show ?thesis
  proof cases
    case 1
    moreover have "preferred_command envelope ?d \<in> set (approved_commands envelope ?d)"
      using ok by (auto split: rewrite_source.splits) (metis approved_commands.simps(2,3)
          list.set_intros(1) rewrite_source.exhaust)
    moreover have "\<not> (\<exists>c r e. ?d = AllowRewrite c HzrPolicy r \<and>
        snd (spawn_command parent os envelope c) = Inl e)"
      using 1(1) by auto
    ultimately show ?thesis using spawn_command_child by blast
  next
    case 2
    then obtain c r where "?d = AllowRewrite c HzrPolicy r"
      by (auto elim: raw_fallback_allowed.elims)
    with 2 spawn_command_child show ?thesis by fastforce
  qed
qed

text \<open>An envelope whose HZR rewrite names a program the operating system cannot start.\<close>

definition fallback_example :: execution_envelope where
  "fallback_example = (envelope_allow_raw (lit ''/tmp'') (shell_cmd (lit ''ls'')))
     \<lparr>env_decision := AllowRewrite (Argv (lit ''gone'') []) HzrPolicy (lit ''faster'')\<rparr>"

lemma start_reports_executed_witness:
  "\<exists>child. snd (start (\<lambda>_. None)
       (\<lambda>p. if ps_program p = lit ''gone'' then Some (lit ''not found'') else None) fallback_example) =
         Inr (Running child (shell_cmd (lit ''ls'')) True) \<and>
     process_for (\<lambda>_. None) fallback_example (shell_cmd (lit ''ls'')) = Inr child"
proof -
  let ?os = "\<lambda>p. if ps_program p = lit ''gone'' then Some (lit ''not found'') else None"
  have "\<exists>child. snd (start (\<lambda>_. None) ?os fallback_example) =
      Inr (Running child (shell_cmd (lit ''ls'')) True)"
    by (simp add: start_def start_process_def spawn_command_def process_for_def fallback_example_def
        envelope_allow_raw_def default_capture_def capture_validate_def shell_cmd_def
        default_shell_def lit_def)
  then show ?thesis using start_reports_executed by blast
qed

end
