(* ===== verification/Simple_Shell.thy ===== *)
theory Simple_Shell
  imports Exec_Model
begin

text \<open>
  Shell text that means the same as an argument vector (\<open>crates/hzr-exec/src/shell.rs\<close>, and
  \<open>render_command\<close>, \<open>render_argv\<close>, \<open>shell_quote\<close> and \<open>shell_proxy_words\<close> of \<open>adapter.rs\<close>): the parser
  that accepts only text without expansions and operators, the quoting that prints a vector, and the
  plain word lists that may be proxied.
\<close>

section \<open>Parsing\<close>

datatype shell_safety = Simple "rstr list" | RawRequired rstr

datatype quote = QuoteNone | QuoteSingle | QuoteDouble

record simple_state =
  ss_args :: "rstr list"
  ss_current :: rstr
  ss_quote :: quote
  ss_started :: bool

abbreviation push_char :: "rchar \<Rightarrow> simple_state \<Rightarrow> simple_state" where
  "push_char c st \<equiv> st\<lparr>ss_current := ss_current st @ [c]\<rparr>"

definition err_substitution :: rstr where
  "err_substitution = lit ''command substitution requires raw execution''"

definition err_expansion :: rstr where
  "err_expansion = lit ''shell expansion requires raw execution''"

definition err_continuation :: rstr where
  "err_continuation = lit ''shell line continuation requires raw execution''"

definition in_double_quotes :: "rchar \<Rightarrow> rstr \<Rightarrow> simple_state \<Rightarrow> rstr + simple_state \<times> rstr" where
  "in_double_quotes ch rest st =
     (if ch = c_dquote then Inr (st\<lparr>ss_quote := QuoteNone\<rparr>, rest)
      else if ch = c_backslash
      then (case rest of
              [] \<Rightarrow> Inl (lit ''trailing escape in double quotes'')
            | escaped # rest' \<Rightarrow>
                if escaped \<in> {c_dollar, c_backtick, c_dquote, c_backslash}
                then Inr (push_char escaped st, rest')
                else if escaped = c_newline then Inl err_continuation
                else Inr (push_char escaped (push_char c_backslash st), rest'))
      else if ch = c_backtick then Inl err_substitution
      else if ch = c_dollar then Inl err_expansion
      else Inr (push_char ch st, rest))"

definition is_expansion_char :: "rchar \<Rightarrow> bool" where
  "is_expansion_char c =
     (c \<in> {c_dollar, c_star, c_question, c_lbracket, c_rbracket, c_lbrace, c_rbrace, c_tilde})"

definition is_control_char :: "rchar \<Rightarrow> bool" where
  "is_control_char c = (c \<in> {c_pipe, c_amp, c_semi, c_lt, c_gt, c_newline, c_return})"

definition unquoted_char :: "rchar \<Rightarrow> rstr \<Rightarrow> simple_state \<Rightarrow> rstr + simple_state \<times> rstr" where
  "unquoted_char ch rest st =
     (if ch = c_squote then Inr (st\<lparr>ss_quote := QuoteSingle, ss_started := True\<rparr>, rest)
      else if ch = c_dquote then Inr (st\<lparr>ss_quote := QuoteDouble, ss_started := True\<rparr>, rest)
      else if ch = c_backslash
      then (case rest of
              [] \<Rightarrow> Inl (lit ''trailing escape'')
            | escaped # rest' \<Rightarrow>
                if escaped = c_newline then Inl err_continuation
                else Inr ((push_char escaped st)\<lparr>ss_started := True\<rparr>, rest'))
      else if ch = c_backtick then Inl err_substitution
      else if is_expansion_char ch then Inl err_expansion
      else if ch = c_hash then Inl (lit ''shell comment syntax requires raw execution'')
      else if is_control_char ch then Inl (lit ''shell control operator requires raw execution'')
      else if is_whitespace ch
      then Inr (if ss_started st
                then st\<lparr>ss_args := ss_args st @ [ss_current st], ss_current := [], ss_started := False\<rparr>
                else st, rest)
      else Inr ((push_char ch st)\<lparr>ss_started := True\<rparr>, rest))"

definition simple_step :: "rchar \<Rightarrow> rstr \<Rightarrow> simple_state \<Rightarrow> rstr + simple_state \<times> rstr" where
  "simple_step ch rest st =
     (case ss_quote st of
        QuoteSingle \<Rightarrow>
          Inr (if ch = c_squote then st\<lparr>ss_quote := QuoteNone\<rparr> else push_char ch st, rest)
      | QuoteDouble \<Rightarrow> in_double_quotes ch rest st
      | QuoteNone \<Rightarrow> unquoted_char ch rest st)"

lemma simple_step_shorter: "simple_step ch rest st = Inr (st', rest') \<Longrightarrow> length rest' \<le> length rest"
  by (auto simp: simple_step_def in_double_quotes_def unquoted_char_def
      split: quote.splits if_splits list.splits)

function simple_loop :: "simple_state \<Rightarrow> rstr \<Rightarrow> rstr + simple_state" where
  "simple_loop st [] = Inr st"
| "simple_loop st (ch # rest) =
     (case simple_step ch rest st of
        Inl e \<Rightarrow> Inl e
      | Inr (st', rest') \<Rightarrow> simple_loop st' rest')"
  by pat_completeness auto
termination
  by (relation "measure (\<lambda>(st, s). length s)") (auto dest: simple_step_shorter)

definition simple_init :: simple_state where
  "simple_init = \<lparr>ss_args = [], ss_current = [], ss_quote = QuoteNone, ss_started = False\<rparr>"

definition parse_simple_shell :: "rstr \<Rightarrow> rstr + rstr list" where
  "parse_simple_shell command =
     (case simple_loop simple_init command of
        Inl e \<Rightarrow> Inl e
      | Inr st \<Rightarrow>
          if ss_quote st \<noteq> QuoteNone then Inl (lit ''unterminated shell quote'')
          else Inr (if ss_started st then ss_args st @ [ss_current st] else ss_args st))"

definition nested_launchers :: "rstr list" where
  "nested_launchers =
     [lit ''xargs'', lit ''eval'', lit ''sh'', lit ''bash'', lit ''zsh'', lit ''fish'', lit ''cmd'',
      lit ''powershell'', lit ''cd'', lit ''export'', lit ''source'', lit ''.'', lit ''exec'',
      lit ''command'', lit ''builtin'', lit ''time'', lit ''if'', lit ''for'', lit ''while'',
      lit ''until'', lit ''case'']"

definition launches_nested_command :: "rstr list \<Rightarrow> bool" where
  "launches_nested_command words =
     (case words of
        [] \<Rightarrow> False
      | word # _ \<Rightarrow> c_eq \<in> set word \<or> word \<in> set nested_launchers)"

definition analyze_shell :: "rstr \<Rightarrow> shell_safety" where
  "analyze_shell command =
     (case parse_simple_shell command of
        Inr words \<Rightarrow>
          if words = [] then RawRequired (lit ''empty shell command'')
          else if launches_nested_command words
          then RawRequired (lit ''nested command launcher requires raw execution'')
          else Simple words
      | Inl reason \<Rightarrow> RawRequired reason)"

section \<open>Printing\<close>

definition is_plain_char :: "rchar \<Rightarrow> bool" where
  "is_plain_char c = (is_ascii_alphanumeric c \<or> c \<in> set (lit ''_+-./:=,@%''))"

definition shell_quote :: "rstr \<Rightarrow> rstr" where
  "shell_quote word =
     (if word \<noteq> [] \<and> list_all is_plain_char word then word
      else [c_squote] @
        replace_all [c_squote] [c_squote, c_dquote, c_squote, c_dquote, c_squote] word @ [c_squote])"

definition render_argv :: "rstr list \<Rightarrow> rstr" where
  "render_argv words = join [c_space] (map shell_quote words)"

fun render_command :: "canonical_command \<Rightarrow> rstr" where
  "render_command (Argv program args) = render_argv (program # args)"
| "render_command (Shell _ command) = command"

definition shell_only_words :: "rstr list" where
  "shell_only_words = map lit
     [''.'', '':'', ''['', ''[['', ''alias'', ''bg'', ''builtin'', ''cd'', ''command'', ''declare'',
      ''echo'', ''eval'', ''exec'', ''exit'', ''export'', ''false'', ''fc'', ''fg'', ''getopts'',
      ''hash'', ''jobs'', ''kill'', ''let'', ''local'', ''noglob'', ''popd'', ''print'', ''printf'',
      ''pushd'', ''pwd'', ''read'', ''readonly'', ''return'', ''set'', ''setopt'', ''shift'',
      ''source'', ''test'', ''time'', ''times'', ''trap'', ''true'', ''type'', ''typeset'',
      ''ulimit'', ''umask'', ''unalias'', ''unset'', ''unsetopt'', ''wait'', ''whence'', ''which'']"

definition shell_proxy_words :: "rstr \<Rightarrow> rstr list option" where
  "shell_proxy_words command =
     (case filter (\<lambda>w. w \<noteq> []) (split_on (\<lambda>c. c = c_space \<or> c = c_tab) command) of
        [] \<Rightarrow> None
      | program # rest \<Rightarrow>
          if \<not> list_all (\<lambda>w. \<not> starts_with w [c_eq] \<and> list_all is_plain_char w) (program # rest) \<or>
             c_eq \<in> set program \<or> program \<in> set shell_only_words
          then None
          else Some (program # rest))"

section \<open>Plain and quoted words parse to themselves\<close>

lemma plain_char_cases:
  assumes "is_plain_char c"
  shows "c \<noteq> c_squote" "c \<noteq> c_dquote" "c \<noteq> c_backslash" "c \<noteq> c_backtick" "\<not> is_expansion_char c"
    "c \<noteq> c_hash" "\<not> is_control_char c" "\<not> is_whitespace c"
  using assms
  by (auto simp: is_plain_char_def is_expansion_char_def is_control_char_def lit_def rust_defs)

lemma simple_loop_plain:
  assumes "list_all is_plain_char w" and "ss_quote st = QuoteNone" and "w \<noteq> []"
  shows "simple_loop st (w @ rest) =
    simple_loop (st\<lparr>ss_current := ss_current st @ w, ss_started := True\<rparr>) rest"
  using assms
proof (induction w arbitrary: st)
  case (Cons c w)
  let ?st = "st\<lparr>ss_current := ss_current st @ [c], ss_started := True\<rparr>"
  from Cons.prems have step: "simple_step c (w @ rest) st = Inr (?st, w @ rest)"
    using plain_char_cases [of c] by (simp add: simple_step_def unquoted_char_def)
  show ?case
  proof (cases "w = []")
    case False
    with Cons.IH [of ?st] Cons.prems step show ?thesis by simp
  qed (use step in simp)
qed simp

lemma simple_loop_single:
  assumes "c_squote \<notin> set w" and "ss_quote st = QuoteSingle"
  shows "simple_loop st (w @ rest) = simple_loop (st\<lparr>ss_current := ss_current st @ w\<rparr>) rest"
  using assms
proof (induction w arbitrary: st)
  case (Cons c w)
  let ?st = "st\<lparr>ss_current := ss_current st @ [c]\<rparr>"
  from Cons.prems have "simple_step c (w @ rest) st = Inr (?st, w @ rest)"
    by (auto simp: simple_step_def)
  with Cons.IH [of ?st] Cons.prems show ?case by simp
qed simp

text \<open>The inside of a quoted word: an apostrophe leaves the single quotes, stands in double quotes and
  enters them again.\<close>

lemma simple_loop_quoted:
  assumes "ss_quote st = QuoteSingle" and "ss_started st"
  shows "simple_loop st
      (replace_all [c_squote] [c_squote, c_dquote, c_squote, c_dquote, c_squote] w @ c_squote # rest) =
    simple_loop (st\<lparr>ss_current := ss_current st @ w, ss_quote := QuoteNone\<rparr>) rest"
  using assms
proof (induction w arbitrary: st)
  case Nil
  then show ?case by (simp add: simple_step_def)
next
  case (Cons c w)
  let ?st = "st\<lparr>ss_current := ss_current st @ [c]\<rparr>"
  from Cons.prems have IH: "simple_loop ?st
      (replace_all [c_squote] [c_squote, c_dquote, c_squote, c_dquote, c_squote] w @ c_squote # rest) =
    simple_loop (?st\<lparr>ss_current := ss_current ?st @ w, ss_quote := QuoteNone\<rparr>) rest"
    by (intro Cons.IH) simp_all
  show ?case
  proof (cases "c = c_squote")
    case True
    with IH Cons.prems show ?thesis
      by (cases st) (simp add: simple_step_def unquoted_char_def in_double_quotes_def starts_with_def)
  next
    case False
    with IH Cons.prems show ?thesis by (simp add: simple_step_def starts_with_def)
  qed
qed

lemma simple_loop_shell_quote:
  assumes "ss_quote st = QuoteNone"
  shows "simple_loop st (shell_quote w @ rest) =
    simple_loop (st\<lparr>ss_current := ss_current st @ w, ss_started := True\<rparr>) rest"
proof (cases "w \<noteq> [] \<and> list_all is_plain_char w")
  case True
  with simple_loop_plain assms show ?thesis by (simp add: shell_quote_def)
next
  case False
  have "simple_step c_squote r st = Inr (st\<lparr>ss_quote := QuoteSingle, ss_started := True\<rparr>, r)" for r
    using assms by (simp add: simple_step_def unquoted_char_def)
  with False simple_loop_quoted [of "st\<lparr>ss_quote := QuoteSingle, ss_started := True\<rparr>" w rest] assms
  show ?thesis by (cases st) (auto simp: shell_quote_def)
qed

lemma simple_step_blank:
  assumes "ss_quote st = QuoteNone" and "c = c_space \<or> c = c_tab"
  shows "simple_step c rest st =
    Inr (if ss_started st
         then st\<lparr>ss_args := ss_args st @ [ss_current st], ss_current := [], ss_started := False\<rparr>
         else st, rest)"
  using assms
  by (auto simp: simple_step_def unquoted_char_def is_expansion_char_def is_control_char_def
      is_whitespace_def)

lemma simple_loop_argv:
  assumes "ws \<noteq> []" and "ss_quote st = QuoteNone" and "ss_current st = []" and "\<not> ss_started st"
  shows "\<exists>st'. simple_loop st (join [c_space] (map shell_quote ws)) = Inr st' \<and>
    ss_quote st' = QuoteNone \<and> ss_started st' \<and> ss_args st' @ [ss_current st'] = ss_args st @ ws"
  using assms
proof (induction ws arbitrary: st)
  case (Cons w ws)
  let ?st = "st\<lparr>ss_current := w, ss_started := True\<rparr>"
  have first: "simple_loop st (shell_quote w @ rest) = simple_loop ?st rest" for rest
    using simple_loop_shell_quote [of st w rest] Cons.prems by simp
  show ?case
  proof (cases ws)
    case Nil
    with first [of "[]"] Cons.prems show ?thesis by simp
  next
    case (Cons v vs)
    let ?next = "?st\<lparr>ss_args := ss_args st @ [w], ss_current := [], ss_started := False\<rparr>"
    have "simple_loop ?st (c_space # r) = simple_loop ?next r" for r
      using Cons.prems simple_step_blank [of ?st c_space r] by simp
    with first Cons.IH [of ?next] Cons.prems Cons show ?thesis by auto
  qed
qed simp

text \<open>C27: Printing an argument vector and parsing the text gives the vector back, whatever characters
  the words hold, empty words included.\<close>

theorem parse_render_argv: "parse_simple_shell (render_argv words) = Inr words"
proof (cases "words = []")
  case True
  then show ?thesis
    by (simp add: render_argv_def parse_simple_shell_def simple_init_def)
next
  case False
  from simple_loop_argv [OF False, of simple_init] show ?thesis
    by (auto simp: render_argv_def parse_simple_shell_def simple_init_def)
qed

section \<open>Proxied words\<close>

lemma simple_loop_words:
  assumes "list_all (list_all is_plain_char) (split_on (\<lambda>c. c = c_space \<or> c = c_tab) s)"
    and "ss_quote st = QuoteNone" and "ss_started st \<longleftrightarrow> ss_current st \<noteq> []"
  shows "\<exists>st'. simple_loop st s = Inr st' \<and> ss_quote st' = QuoteNone \<and>
    (ss_started st' \<longleftrightarrow> ss_current st' \<noteq> []) \<and>
    ss_args st' @ (if ss_current st' = [] then [] else [ss_current st']) =
    ss_args st @ filter (\<lambda>w. w \<noteq> [])
      ((ss_current st @ hd (split_on (\<lambda>c. c = c_space \<or> c = c_tab) s)) #
       tl (split_on (\<lambda>c. c = c_space \<or> c = c_tab) s))"
  using assms
proof (induction s arbitrary: st)
  case (Cons c s)
  let ?P = "\<lambda>c. c = c_space \<or> c = c_tab"
  obtain w ws where ws: "split_on ?P s = w # ws"
    by (cases "split_on ?P s") (auto elim: split_on.elims simp: split: list.splits if_splits)
  show ?case
  proof (cases "?P c")
    case True
    let ?st = "if ss_started st
      then st\<lparr>ss_args := ss_args st @ [ss_current st], ss_current := [], ss_started := False\<rparr> else st"
    have "simple_loop st (c # s) = simple_loop ?st s"
      using simple_step_blank [OF Cons.prems(2) True, of s] by simp
    moreover have "list_all (list_all is_plain_char) (split_on ?P s)" using Cons.prems(1) True by simp
    ultimately show ?thesis
      using Cons.IH [of ?st] Cons.prems True ws by (auto split: if_splits)
  next
    case False
    let ?st = "st\<lparr>ss_current := ss_current st @ [c], ss_started := True\<rparr>"
    from Cons.prems(1) False ws have pl: "is_plain_char c" "list_all (list_all is_plain_char) (split_on ?P s)"
      by simp_all
    then have "simple_loop st (c # s) = simple_loop ?st s"
      using simple_loop_plain [of "[c]" st s] Cons.prems(2) by simp
    with Cons.IH [of ?st] pl Cons.prems False ws show ?thesis by auto
  qed
qed auto

text \<open>A shell command is proxied as words only when running those words means the same: they are
  exactly the argument vector the shell text parses to, with no quoting, expansion or operator.\<close>

lemma shell_proxy_words_parse:
  assumes "shell_proxy_words command = Some ws"
  shows "parse_simple_shell command = Inr ws \<and> ws \<noteq> [] \<and> hd ws \<notin> set shell_only_words"
proof -
  let ?P = "\<lambda>c. c = c_space \<or> c = c_tab"
  let ?ws = "split_on ?P command"
  obtain program rest where f: "filter (\<lambda>w. w \<noteq> []) ?ws = program # rest"
    using assms by (auto simp: shell_proxy_words_def split: list.splits)
  from assms have pr: "ws = program # rest" "program \<notin> set shell_only_words"
    and plain: "list_all (list_all is_plain_char) ws"
    by (auto simp: shell_proxy_words_def f list_all_iff split: if_splits)
  then have ws: "filter (\<lambda>w. w \<noteq> []) ?ws = ws" "ws \<noteq> []" "hd ws \<notin> set shell_only_words"
    using f by simp_all
  have "list_all is_plain_char w" if "w \<in> set ?ws" for w
    using plain that unfolding ws(1) [symmetric] by (cases "w = []") (auto simp: list_all_iff)
  then have "list_all (list_all is_plain_char) ?ws" by (simp add: list_all_iff)
  from simple_loop_words [OF this, of simple_init] obtain st where
    st: "simple_loop simple_init command = Inr st" "ss_quote st = QuoteNone"
      "ss_started st \<longleftrightarrow> ss_current st \<noteq> []"
      "ss_args st @ (if ss_current st = [] then [] else [ss_current st]) = filter (\<lambda>w. w \<noteq> []) (hd ?ws # tl ?ws)"
    by (auto simp: simple_init_def)
  have "hd ?ws # tl ?ws = ?ws"
    by (cases command) (auto split: list.splits)
  with st ws show ?thesis by (auto simp: parse_simple_shell_def split: if_splits)
qed

lemma shell_proxy_words_parse_witness:
  "parse_simple_shell (lit ''cargo  test --all'') = Inr [lit ''cargo'', lit ''test'', lit ''--all''] \<and>
   [lit ''cargo'', lit ''test'', lit ''--all''] \<noteq> [] \<and>
   hd [lit ''cargo'', lit ''test'', lit ''--all''] \<notin> set shell_only_words"
  by (rule shell_proxy_words_parse) code_simp

end
