(* ===== verification/Capture_Writer.thy ===== *)
theory Capture_Writer
  imports Exec_Model
begin

text \<open>
  The capture of a child's output (\<open>crates/hzr-exec/src/capture.rs\<close>, and \<open>capture_stream\<close> of
  \<open>executor.rs\<close>): bytes are kept in memory up to a limit and then moved to a spill file, up to the
  capture limit. The file system and SHA-256 are arguments: \<open>spill_io\<close> answers each file operation
  with an error or none, and the hasher state is the bytes fed to it. \<open>usize\<close> is 64 bits wide.
\<close>

section \<open>The writer\<close>

record spill =
  spill_path :: path
  spill_bytes :: "u8 list"

record spill_io =
  io_create_dir :: "path \<Rightarrow> io_error option"
  io_open_new :: "path \<Rightarrow> io_error option"
  io_write_all :: "path \<Rightarrow> u8 list \<Rightarrow> u8 list \<Rightarrow> io_error option"
  io_flush :: "path \<Rightarrow> io_error option"
  io_uuid :: rstr

record capture_writer =
  cw_config :: capture_config
  cw_stream :: execution_stream
  cw_inline :: "u8 list"
  cw_spill :: "spill option"
  cw_hashed :: "u8 list"
  cw_total_bytes :: u64
  cw_stored_bytes :: u64
  cw_dropped_event_bytes :: u64

definition capture_new :: "capture_config \<Rightarrow> execution_stream \<Rightarrow> capture_writer" where
  "capture_new config stream =
     \<lparr>cw_config = config, cw_stream = stream, cw_inline = [], cw_spill = None, cw_hashed = [],
      cw_total_bytes = 0, cw_stored_bytes = 0, cw_dropped_event_bytes = 0\<rparr>"

definition record_dropped_event :: "nat \<Rightarrow> capture_writer \<Rightarrow> capture_writer" where
  "record_dropped_event bytes w =
     w\<lparr>cw_dropped_event_bytes := saturating_add (cw_dropped_event_bytes w) (of_nat bytes)\<rparr>"

definition stream_name :: "execution_stream \<Rightarrow> rstr" where
  "stream_name s = (case s of Stdout \<Rightarrow> lit ''stdout'' | Stderr \<Rightarrow> lit ''stderr'')"

definition spill_file :: "spill_io \<Rightarrow> path \<Rightarrow> execution_stream \<Rightarrow> path" where
  "spill_file io directory stream =
     directory @ lit ''/hzr-exec-'' @ io_uuid io @ lit ''-'' @ stream_name stream @ lit ''.bin''"

definition ensure_spill :: "spill_io \<Rightarrow> path \<Rightarrow> capture_writer \<Rightarrow> exec_error + capture_writer" where
  "ensure_spill io directory w =
     (if cw_spill w \<noteq> None then Inr w
      else case io_create_dir io directory of
        Some source \<Rightarrow> Inl (CreateSpillDirectory directory source)
      | None \<Rightarrow>
          let path = spill_file io directory (cw_stream w)
          in case io_open_new io path of
               Some source \<Rightarrow> Inl (OpenSpill path source)
             | None \<Rightarrow>
                 (case io_write_all io path [] (cw_inline w) of
                    Some source \<Rightarrow> Inl (WriteSpill path source)
                  | None \<Rightarrow> Inr (w\<lparr>cw_inline := [],
                      cw_spill := Some \<lparr>spill_path = path, spill_bytes = cw_inline w\<rparr>\<rparr>)))"

definition storage_limit :: "capture_config \<Rightarrow> u64" where
  "storage_limit config =
     (case overflow config of
        SpillTo _ \<Rightarrow> max_capture_bytes config
      | Truncate \<Rightarrow> min (memory_limit_bytes config) (max_capture_bytes config))"

definition must_spill :: "nat \<Rightarrow> capture_writer \<Rightarrow> bool" where
  "must_spill n w =
     (cw_spill w \<noteq> None \<or> unat (memory_limit_bytes (cw_config w)) < length (cw_inline w) + n)"

text \<open>Store the part that fits.\<close>

definition store_bytes :: "spill_io \<Rightarrow> u8 list \<Rightarrow> capture_writer \<Rightarrow> exec_error + capture_writer" where
  "store_bytes io bytes w =
     (case overflow (cw_config w) of
        Truncate \<Rightarrow> Inr (w\<lparr>cw_inline := cw_inline w @ bytes\<rparr>)
      | SpillTo directory \<Rightarrow>
          if \<not> must_spill (length bytes) w then Inr (w\<lparr>cw_inline := cw_inline w @ bytes\<rparr>)
          else case ensure_spill io directory w of
            Inl e \<Rightarrow> Inl e
          | Inr w' \<Rightarrow>
              (case cw_spill w' of
                 None \<Rightarrow> Inl MissingSpillState
               | Some sp \<Rightarrow>
                   (case io_write_all io (spill_path sp) (spill_bytes sp) bytes of
                      Some source \<Rightarrow> Inl (WriteSpill (spill_path sp) source)
                    | None \<Rightarrow> Inr (w'\<lparr>cw_spill :=
                        Some (sp\<lparr>spill_bytes := spill_bytes sp @ bytes\<rparr>)\<rparr>))))"

definition capture_push :: "spill_io \<Rightarrow> u8 list \<Rightarrow> capture_writer \<Rightarrow> exec_error + capture_writer" where
  "capture_push io bytes w0 =
     (let w = w0\<lparr>cw_hashed := cw_hashed w0 @ bytes,
                 cw_total_bytes := saturating_add (cw_total_bytes w0) (of_nat (length bytes))\<rparr>;
          remaining = saturating_sub (storage_limit (cw_config w)) (cw_stored_bytes w);
          storable = min (length bytes) (unat remaining)
      in if storable = 0 then Inr w
         else case store_bytes io (take storable bytes) w of
           Inl e \<Rightarrow> Inl e
         | Inr w' \<Rightarrow> Inr (w'\<lparr>cw_stored_bytes :=
             saturating_add (cw_stored_bytes w') (of_nat storable)\<rparr>))"

definition capture_finish ::
  "spill_io \<Rightarrow> (u8 list \<Rightarrow> rstr) \<Rightarrow> capture_writer \<Rightarrow> exec_error + captured_stream" where
  "capture_finish io sha256 w =
     (let stream = (\<lambda>content. \<lparr>cap_content = content, cap_total_bytes = cw_total_bytes w,
            cap_stored_bytes = cw_stored_bytes w, cap_sha256 = sha256 (cw_hashed w),
            cap_truncated = (cw_total_bytes w \<noteq> cw_stored_bytes w),
            cap_dropped_event_bytes = cw_dropped_event_bytes w\<rparr>)
      in case cw_spill w of
           Some sp \<Rightarrow>
             (case io_flush io (spill_path sp) of
                Some source \<Rightarrow> Inl (FlushSpill (spill_path sp) source)
              | None \<Rightarrow> Inr (stream (Spilled (spill_path sp))))
         | None \<Rightarrow> Inr (stream (InlineBytes (cw_inline w))))"

definition capture_label :: "execution_stream \<Rightarrow> rstr" where
  "capture_label s = (case s of Stdout \<Rightarrow> lit ''Stdout capture'' | Stderr \<Rightarrow> lit ''Stderr capture'')"

text \<open>The read loop: each read gives an error or the bytes read and whether the event channel was
  full; an empty read, or the end of the list, ends it.\<close>

fun capture_reads ::
  "spill_io \<Rightarrow> (io_error + u8 list \<times> bool) list \<Rightarrow> capture_writer \<Rightarrow> exec_error + capture_writer" where
  "capture_reads io [] w = Inr w"
| "capture_reads io (Inl source # reads) w = Inl (Wait (capture_label (cw_stream w)) source)"
| "capture_reads io (Inr (bytes, full) # reads) w =
     (if bytes = [] then Inr w
      else case capture_push io bytes (if full then record_dropped_event (length bytes) w else w) of
        Inl e \<Rightarrow> Inl e
      | Inr w' \<Rightarrow> capture_reads io reads w')"

definition capture_stream ::
  "spill_io \<Rightarrow> (u8 list \<Rightarrow> rstr) \<Rightarrow> capture_config \<Rightarrow> execution_stream \<Rightarrow>
   (io_error + u8 list \<times> bool) list \<Rightarrow> exec_error + captured_stream \<times> capture_writer" where
  "capture_stream io sha256 config stream reads =
     (case capture_reads io reads (capture_new config stream) of
        Inl e \<Rightarrow> Inl e
      | Inr w \<Rightarrow>
          (case capture_finish io sha256 w of
             Inl e \<Rightarrow> Inl e
           | Inr s \<Rightarrow> Inr (s, w)))"

section \<open>What is stored\<close>

text \<open>The bytes stored, in memory or in the spill file.\<close>

definition stored_content :: "capture_writer \<Rightarrow> u8 list" where
  "stored_content w = (case cw_spill w of Some sp \<Rightarrow> spill_bytes sp | None \<Rightarrow> cw_inline w)"

definition capture_inv :: "capture_config \<Rightarrow> u8 list \<Rightarrow> capture_writer \<Rightarrow> bool" where
  "capture_inv config data w \<longleftrightarrow>
     cw_config w = config \<and> cw_hashed w = data \<and> unat (cw_total_bytes w) = length data \<and>
     stored_content w = take (unat (storage_limit config)) data \<and>
     unat (cw_stored_bytes w) = length (stored_content w) \<and>
     (cw_spill w \<noteq> None \<longrightarrow> cw_inline w = [] \<and> overflow config \<noteq> Truncate) \<and>
     length (cw_inline w) \<le> unat (memory_limit_bytes config)"

lemma capture_inv_new: "capture_inv config [] (capture_new config stream)"
  by (simp add: capture_inv_def capture_new_def stored_content_def)

lemma capture_inv_dropped: "capture_inv config data w \<Longrightarrow> capture_inv config data (record_dropped_event n w)"
  by (auto simp: capture_inv_def record_dropped_event_def stored_content_def split: option.splits)

text \<open>Storing appends to the content, keeps memory within its limit and leaves the rest alone.\<close>

lemma store_bytes_spec:
  assumes "store_bytes io bytes w = Inr w'"
    and "overflow (cw_config w) = Truncate \<Longrightarrow>
      length (cw_inline w) + length bytes \<le> unat (memory_limit_bytes (cw_config w))"
    and "length (cw_inline w) \<le> unat (memory_limit_bytes (cw_config w))"
    and "cw_spill w \<noteq> None \<Longrightarrow> cw_inline w = [] \<and> overflow (cw_config w) \<noteq> Truncate"
  shows "stored_content w' = stored_content w @ bytes \<and> cw_config w' = cw_config w \<and>
    cw_hashed w' = cw_hashed w \<and> cw_total_bytes w' = cw_total_bytes w \<and>
    cw_stored_bytes w' = cw_stored_bytes w \<and> (cw_spill w' \<noteq> None \<longrightarrow> cw_inline w' = [] \<and> overflow (cw_config w) \<noteq> Truncate) \<and>
    length (cw_inline w') \<le> unat (memory_limit_bytes (cw_config w))"
proof (cases "overflow (cw_config w)")
  case Truncate
  with assms show ?thesis by (auto simp: store_bytes_def stored_content_def split: option.splits)
next
  case (SpillTo directory)
  show ?thesis
  proof (cases "must_spill (length bytes) w")
    case False
    with assms SpillTo show ?thesis
      by (auto simp: store_bytes_def must_spill_def stored_content_def)
  next
    case True
    with assms SpillTo show ?thesis
      by (auto simp: store_bytes_def ensure_spill_def stored_content_def Let_def
          split: option.splits if_splits sum.splits)
  qed
qed

lemma capture_push_inv:
  assumes inv: "capture_inv config data w" and push: "capture_push io bytes w = Inr w'"
    and fits: "length data + length bytes < 2 ^ 64"
  shows "capture_inv config (data @ bytes) w'"
proof -
  let ?L = "unat (storage_limit config)"
  let ?w = "w\<lparr>cw_hashed := data @ bytes,
    cw_total_bytes := saturating_add (cw_total_bytes w) (of_nat (length bytes))\<rparr>"
  let ?n = "min (length bytes) (?L - length data)"
  have lim: "?L < 2 ^ 64" using unat_less [of "storage_limit config"] by simp
  have total: "unat (cw_total_bytes ?w) = length (data @ bytes)"
    using inv fits by (simp add: capture_inv_def unat_saturating_add unat_of_nat take_bit_nat_eq_self)
  have stored: "unat (cw_stored_bytes w) = min ?L (length data)"
    using inv by (simp add: capture_inv_def)
  then have rem: "unat (saturating_sub (storage_limit config) (cw_stored_bytes w)) = ?L - length data"
    by (auto simp: unat_saturating_sub)
  have content: "stored_content ?w = take ?L data"
    using inv by (simp add: capture_inv_def stored_content_def split: option.splits)
  have eq: "capture_push io bytes w =
    (if ?n = 0 then Inr ?w
     else case store_bytes io (take ?n bytes) ?w of
       Inl e \<Rightarrow> Inl e
     | Inr w' \<Rightarrow> Inr (w'\<lparr>cw_stored_bytes := saturating_add (cw_stored_bytes w') (of_nat ?n)\<rparr>))"
  proof -
    have hash: "cw_hashed w = data" and c: "cw_config ?w = config"
      and s: "cw_stored_bytes ?w = cw_stored_bytes w"
      using inv by (simp_all add: capture_inv_def)
    show ?thesis unfolding capture_push_def Let_def hash c s rem ..
  qed
  have app: "take ?L (data @ bytes) = take ?L data @ take ?n bytes"
    by (cases "length data \<le> ?L") (simp_all add: min_def)
  show ?thesis
  proof (cases "?n = 0")
    case True
    then have "w' = ?w" "take ?L (data @ bytes) = take ?L data" using push eq app by simp_all
    with inv total content show ?thesis
      by (auto simp: capture_inv_def stored_content_def split: option.splits)
  next
    case False
    with push eq obtain u where u: "store_bytes io (take ?n bytes) ?w = Inr u"
      and w': "w' = u\<lparr>cw_stored_bytes := saturating_add (cw_stored_bytes u) (of_nat ?n)\<rparr>"
      by (auto split: sum.splits)
    have trunc: "length (cw_inline ?w) + length (take ?n bytes) \<le> unat (memory_limit_bytes config)"
      if "overflow config = Truncate"
    proof -
      have "?L \<le> unat (memory_limit_bytes config)"
        using that by (simp add: storage_limit_def word_le_nat_alt [symmetric])
      moreover have "length (cw_inline w) \<le> min ?L (length data)"
        using inv that by (auto simp: capture_inv_def stored_content_def split: option.splits)
      ultimately show ?thesis using False by (simp add: min_def split: if_splits)
    qed
    have spec: "stored_content u = stored_content ?w @ take ?n bytes \<and> cw_config u = cw_config ?w \<and>
        cw_hashed u = cw_hashed ?w \<and> cw_total_bytes u = cw_total_bytes ?w \<and>
        cw_stored_bytes u = cw_stored_bytes ?w \<and>
        (cw_spill u \<noteq> None \<longrightarrow> cw_inline u = [] \<and> overflow (cw_config ?w) \<noteq> Truncate) \<and>
        length (cw_inline u) \<le> unat (memory_limit_bytes (cw_config ?w))"
      by (rule store_bytes_spec [OF u]) (use inv trunc in \<open>simp_all add: capture_inv_def\<close>)
    have "unat (saturating_add (cw_stored_bytes w) (of_nat ?n)) = min ?L (length data) + ?n"
      using lim stored fits
      by (simp add: unat_saturating_add unat_of_nat take_bit_nat_eq_self min_def)
    with spec inv total content app w' show ?thesis
      by (auto simp: capture_inv_def stored_content_def split: option.splits)
  qed
qed

text \<open>The bytes a read loop sees, and the reads that do not fail.\<close>

fun read_bytes :: "(io_error + u8 list \<times> bool) list \<Rightarrow> u8 list" where
  "read_bytes [] = []"
| "read_bytes (Inl _ # reads) = []"
| "read_bytes (Inr (bytes, _) # reads) = (if bytes = [] then [] else bytes @ read_bytes reads)"

definition reads_succeed :: "(io_error + u8 list \<times> bool) list \<Rightarrow> bool" where
  "reads_succeed reads = list_all (\<lambda>r. case r of Inl _ \<Rightarrow> False | Inr _ \<Rightarrow> True) reads"

definition io_succeeds :: "spill_io \<Rightarrow> bool" where
  "io_succeeds io \<longleftrightarrow> (\<forall>p q bs cs. io_create_dir io p = None \<and> io_open_new io p = None \<and>
     io_write_all io q bs cs = None \<and> io_flush io p = None)"

lemma capture_reads_inv:
  assumes "capture_reads io reads w = Inr w'" and "capture_inv config data w"
    and "length data + length (read_bytes reads) < 2 ^ 64"
  shows "capture_inv config (data @ read_bytes reads) w'"
  using assms
proof (induction io reads w arbitrary: data rule: capture_reads.induct)
  case (3 io bytes full reads w)
  let ?w = "if full then record_dropped_event (length bytes) w else w"
  show ?case
  proof (cases "bytes = []")
    case False
    with "3.prems"(1) obtain u where u: "capture_push io bytes ?w = Inr u"
      and rest: "capture_reads io reads u = Inr w'"
      by (auto split: sum.splits)
    have "capture_inv config data ?w" using "3.prems"(2) capture_inv_dropped by simp
    then have "capture_inv config (data @ bytes) u"
      by (rule capture_push_inv [OF _ u]) (use "3.prems"(3) False in simp)
    with "3.IH" [OF False u rest, of "data @ bytes"] "3.prems"(3) False show ?thesis by simp
  qed (use "3.prems" in simp)
qed simp_all

lemma store_bytes_total: "io_succeeds io \<Longrightarrow> \<exists>w'. store_bytes io bytes w = Inr w'"
  by (auto simp: store_bytes_def ensure_spill_def io_succeeds_def Let_def
      split: capture_overflow.splits option.splits)

lemma capture_push_total:
  assumes "io_succeeds io" shows "\<exists>w'. capture_push io bytes w = Inr w'"
proof -
  have "store_bytes io b v \<noteq> Inl e" for b v e
    using store_bytes_total [OF assms, of b v] by auto
  then show ?thesis unfolding capture_push_def Let_def by (auto split: sum.splits)
qed

lemma capture_reads_total:
  "io_succeeds io \<Longrightarrow> reads_succeed reads \<Longrightarrow> \<exists>w'. capture_reads io reads w = Inr w'"
proof (induction io reads w rule: capture_reads.induct)
  case (3 io bytes full reads w)
  obtain u where "capture_push io bytes (if full then record_dropped_event (length bytes) w else w) = Inr u"
    using capture_push_total [OF "3.prems"(1)] by blast
  with 3 show ?case by (auto simp: reads_succeed_def)
qed (simp_all add: reads_succeed_def)

text \<open>C15: A capture stores exactly the first bytes of the output, up to the limit of its policy, in
  memory or in the spill file, keeps memory within its limit, hashes and counts every byte, and says
  it is exact precisely when nothing was cut; when the reads and the file operations succeed it
  returns.\<close>

theorem capture_stream_stores_prefix:
  assumes "io_succeeds io" and "reads_succeed reads" and "length (read_bytes reads) < 2 ^ 64"
  shows "\<exists>s w. capture_stream io sha256 config stream reads = Inr (s, w) \<and>
    unat (cap_total_bytes s) = length (read_bytes reads) \<and>
    unat (cap_stored_bytes s) = min (unat (storage_limit config)) (length (read_bytes reads)) \<and>
    cap_sha256 s = sha256 (read_bytes reads) \<and>
    is_exact s = (length (read_bytes reads) \<le> unat (storage_limit config)) \<and>
    (case cap_content s of
       InlineBytes bytes \<Rightarrow> bytes = take (unat (storage_limit config)) (read_bytes reads) \<and>
         length bytes \<le> unat (memory_limit_bytes config)
     | Spilled p \<Rightarrow> cw_spill w = Some \<lparr>spill_path = p,
         spill_bytes = take (unat (storage_limit config)) (read_bytes reads)\<rparr>)"
proof -
  obtain w where w: "capture_reads io reads (capture_new config stream) = Inr w"
    using capture_reads_total [OF assms(1,2)] by blast
  have inv: "capture_inv config (read_bytes reads) w"
    using capture_reads_inv [OF w capture_inv_new] assms(3) by simp
  let ?data = "read_bytes reads" and ?L = "unat (storage_limit config)"
  have total: "unat (cw_total_bytes w) = length ?data"
    and stored: "unat (cw_stored_bytes w) = min ?L (length ?data)"
    using inv by (simp_all add: capture_inv_def)
  then have "cw_total_bytes w = cw_stored_bytes w \<longleftrightarrow> length ?data \<le> ?L"
    by (metis min.absorb_iff2 min.commute word_unat_eq_iff)
  moreover have "sp = \<lparr>spill_path = spill_path sp, spill_bytes = spill_bytes sp\<rparr>" for sp :: spill
    by simp
  ultimately show ?thesis
    using inv assms(1) total stored
    by (auto simp: capture_stream_def w capture_finish_def io_succeeds_def Let_def is_exact_def
        capture_inv_def stored_content_def split: option.splits)
qed

definition quiet_io :: spill_io where
  "quiet_io = \<lparr>io_create_dir = \<lambda>_. None, io_open_new = \<lambda>_. None, io_write_all = \<lambda>_ _ _. None,
     io_flush = \<lambda>_. None, io_uuid = lit ''0''\<rparr>"

definition small_capture :: capture_config where
  "small_capture = \<lparr>memory_limit_bytes = 2, max_capture_bytes = 4, overflow = SpillTo (lit ''/t''),
     event_buffer = 1\<rparr>"

theorem capture_stream_stores_prefix_witness:
  "\<exists>s w. capture_stream quiet_io (\<lambda>_. []) small_capture Stdout
      [Inr ([1, 2, 3], False), Inr ([4, 5], True)] = Inr (s, w) \<and>
    unat (cap_total_bytes s) = 5 \<and> \<not> is_exact s \<and>
    (case cap_content s of
       InlineBytes bytes \<Rightarrow> bytes = [1, 2, 3, 4] \<and> length bytes \<le> 2
     | Spilled p \<Rightarrow> cw_spill w = Some \<lparr>spill_path = p, spill_bytes = [1, 2, 3, 4]\<rparr>)"
proof -
  let ?reads = "[Inr ([1, 2, 3], False), Inr ([4, 5], True)]"
  have io: "io_succeeds quiet_io" and rd: "reads_succeed ?reads"
    and data: "read_bytes ?reads = [1, 2, 3, 4, 5]"
    and limit: "unat (storage_limit small_capture) = 4" "unat (memory_limit_bytes small_capture) = 2"
    by (simp_all add: io_succeeds_def quiet_io_def reads_succeed_def storage_limit_def small_capture_def)
  have small: "length (read_bytes ?reads) < 2 ^ 64" by (simp add: data)
  from capture_stream_stores_prefix [OF io rd small, of "\<lambda>_. []" small_capture Stdout] show ?thesis
    unfolding data limit by (elim exE) (auto split: captured_content.splits)
qed

end
