(* ===== verification/Approval_Store.thy ===== *)
theory Approval_Store
  imports Exec_Model "HOL-Library.Multiset"
begin

text \<open>
  Pending approvals (\<open>crates/hzr-daemon/src/approval.rs\<close>). The hash map is the list of its entries in
  iteration order; since that order may change at any time, the runs below may reorder the entries
  between any two operations. An operation holds the lock throughout, so it is one step. The clock
  and the new identifier are arguments. The accounting channel and the evasion attribution, which the
  store carries and never reads, stand as text.
\<close>

record pending_approval =
  pend_channel :: "rstr option"
  pend_requested :: canonical_command
  pend_approved_decision :: rewrite_decision
  pend_evasion :: "rstr option"
  pend_accounting_correlation_id :: "rstr option"
  pend_cwd :: path
  pend_timeout_ms :: "u64 option"
  pend_caller_path :: "rstr option"
  pend_agent :: "rstr option"
  pend_session_id :: "rstr option"
  pend_trace_hash :: rstr

record stored_approval =
  created_at :: instant
  pending_of :: pending_approval

type_synonym approvals = "(rstr \<times> stored_approval) list"

definition approval_ttl :: duration where
  "approval_ttl = 5 * 60 * 1000000000"

definition max_pending_approvals :: nat where
  "max_pending_approvals = 128"

definition fresh_approval :: "instant \<Rightarrow> stored_approval \<Rightarrow> bool" where
  "fresh_approval now a = (saturating_duration_since now (created_at a) < approval_ttl)"

definition prune_expired :: "instant \<Rightarrow> approvals \<Rightarrow> approvals" where
  "prune_expired now as = filter (\<lambda>(_, a). fresh_approval now a) as"

text \<open>\<open>min_by_key\<close>: the first entry with the least creation time.\<close>

fun oldest_entry :: "approvals \<Rightarrow> (rstr \<times> stored_approval) option" where
  "oldest_entry [] = None"
| "oldest_entry (x # xs) =
     (case oldest_entry xs of
        None \<Rightarrow> Some x
      | Some y \<Rightarrow> if created_at (snd y) < created_at (snd x) then Some y else Some x)"

definition remove_entry :: "rstr \<Rightarrow> approvals \<Rightarrow> approvals" where
  "remove_entry k as = filter (\<lambda>(k', _). k' \<noteq> k) as"

text \<open>\<open>try_lock\<close> fails when another operation holds the lock; the answer is then true.\<close>

definition is_pending :: "bool \<Rightarrow> instant \<Rightarrow> rstr \<Rightarrow> approvals \<Rightarrow> bool" where
  "is_pending locked now decision_id as =
     (locked \<or> (case map_of as decision_id of Some a \<Rightarrow> fresh_approval now a | None \<Rightarrow> False))"

definition insert_approval ::
  "instant \<Rightarrow> rstr \<Rightarrow> pending_approval \<Rightarrow> approvals \<Rightarrow> approvals \<times> rstr" where
  "insert_approval now decision_id pending as0 =
     (let as = prune_expired now as0;
          as = (if length as \<ge> max_pending_approvals
                then case oldest_entry as of Some (k, _) \<Rightarrow> remove_entry k as | None \<Rightarrow> as
                else as)
      in (remove_entry decision_id as @ [(decision_id, \<lparr>created_at = now, pending_of = pending\<rparr>)],
          decision_id))"

definition take_approval ::
  "instant \<Rightarrow> rstr \<Rightarrow> approvals \<Rightarrow> approvals \<times> pending_approval option" where
  "take_approval now decision_id as0 =
     (let as = prune_expired now as0
      in (remove_entry decision_id as, map_option pending_of (map_of as decision_id)))"

section \<open>Histories\<close>

text \<open>What was asked of a store so far, and the store after it.\<close>

datatype approval_event =
    Inserted instant rstr pending_approval
  | TakeCalled instant rstr "pending_approval option"

inductive approval_history :: "approval_event list \<Rightarrow> approvals \<Rightarrow> bool" where
  history_new: "approval_history [] []"
| history_insert: "approval_history h as \<Longrightarrow> insert_approval now k p as = (as', k) \<Longrightarrow>
     approval_history (h @ [Inserted now k p]) as'"
| history_take: "approval_history h as \<Longrightarrow> take_approval now k as = (as', r) \<Longrightarrow>
     approval_history (h @ [TakeCalled now k r]) as'"
| history_reorder: "approval_history h as \<Longrightarrow> mset as' = mset as \<Longrightarrow> approval_history h as'"

inductive_cases approval_historyE: "approval_history h as"

definition inserts_of :: "rstr \<Rightarrow> approval_event list \<Rightarrow> nat" where
  "inserts_of k h = length (filter (\<lambda>e. case e of Inserted _ k' _ \<Rightarrow> k' = k | _ \<Rightarrow> False) h)"

definition takes_of :: "rstr \<Rightarrow> approval_event list \<Rightarrow> nat" where
  "takes_of k h =
     length (filter (\<lambda>e. case e of TakeCalled _ k' (Some _) \<Rightarrow> k' = k | _ \<Rightarrow> False) h)"

lemma inserts_of_snoc [simp]:
  "inserts_of k (h @ [Inserted now k' p]) = inserts_of k h + (if k' = k then 1 else 0)"
  "inserts_of k (h @ [TakeCalled now k' r]) = inserts_of k h"
  by (simp_all add: inserts_of_def)

lemma takes_of_snoc [simp]:
  "takes_of k (h @ [Inserted now k' p]) = takes_of k h"
  "takes_of k (h @ [TakeCalled now k' r]) = takes_of k h + (if k' = k \<and> r \<noteq> None then 1 else 0)"
  by (simp add: takes_of_def) (cases r; simp add: takes_of_def)

definition approval_inv :: "approval_event list \<Rightarrow> approvals \<Rightarrow> bool" where
  "approval_inv h as \<longleftrightarrow>
     distinct (map fst as) \<and> length as \<le> max_pending_approvals \<and>
     (\<forall>(k, a) \<in> set as. Inserted (created_at a) k (pending_of a) \<in> set h) \<and>
     (\<forall>k. takes_of k h + (if k \<in> fst ` set as then 1 else 0) \<le> inserts_of k h)"

lemma distinct_map_fst_filter: "distinct (map fst as) \<Longrightarrow> distinct (map fst (filter P as))"
  by (induction as) auto

lemma oldest_entry_member: "oldest_entry as = Some x \<Longrightarrow> x \<in> set as"
  by (induction as arbitrary: x) (auto split: option.splits if_splits)

lemma oldest_entry_None: "oldest_entry as = None \<longleftrightarrow> as = []"
  by (cases as) (auto split: option.splits)

lemma remove_entry_shorter:
  assumes "(k, a) \<in> set as" shows "length (remove_entry k as) < length as"
  using assms length_filter_less [of "(k, a)" as] by (auto simp: remove_entry_def)

text \<open>What an insertion keeps of the old entries: some of them, and room for one more.\<close>

lemma insert_approval_entries:
  assumes "insert_approval now k p as = (as', k')" and "length as \<le> max_pending_approvals"
  obtains kept where "as' = remove_entry k kept @ [(k, \<lparr>created_at = now, pending_of = p\<rparr>)]"
    and "set kept \<subseteq> set as" and "length kept < max_pending_approvals"
    and "\<exists>P. kept = filter P as"
proof -
  let ?pruned = "prune_expired now as"
  have pr: "?pruned = filter (\<lambda>(_, a). fresh_approval now a) as" by (simp add: prune_expired_def)
  have le: "length ?pruned \<le> length as" by (simp add: prune_expired_def)
  show ?thesis
  proof (cases "length ?pruned \<ge> max_pending_approvals")
    case True
    then have "?pruned \<noteq> []" by (auto simp: max_pending_approvals_def)
    then obtain x where x: "oldest_entry ?pruned = Some x" using oldest_entry_None by fastforce
    have "length (remove_entry (fst x) ?pruned) < length ?pruned"
      using oldest_entry_member [OF x] by (intro remove_entry_shorter [of _ "snd x"]) simp
    then have "length (remove_entry (fst x) ?pruned) < max_pending_approvals"
      using le assms(2) by simp
    moreover have "as' = remove_entry k (remove_entry (fst x) ?pruned) @
        [(k, \<lparr>created_at = now, pending_of = p\<rparr>)]"
      using assms(1) x True by (auto simp: insert_approval_def Let_def split: prod.splits)
    moreover have "\<exists>P. remove_entry (fst x) ?pruned = filter P as"
      by (auto simp: pr remove_entry_def filter_filter)
    moreover have "set (remove_entry (fst x) ?pruned) \<subseteq> set as"
      by (auto simp: remove_entry_def pr)
    ultimately show ?thesis using that by blast
  next
    case False
    with assms(1) that [of ?pruned] pr show ?thesis
      by (auto simp: insert_approval_def Let_def)
  qed
qed

lemma approval_inv_step_insert:
  assumes "approval_inv h as" and "insert_approval now k p as = (as', k')"
  shows "approval_inv (h @ [Inserted now k p]) as'"
proof -
  have len: "length as \<le> max_pending_approvals" using assms(1) by (simp add: approval_inv_def)
  obtain kept P where kept: "as' = remove_entry k kept @ [(k, \<lparr>created_at = now, pending_of = p\<rparr>)]"
    "set kept \<subseteq> set as" "length kept < max_pending_approvals" "kept = filter P as"
    using insert_approval_entries [OF assms(2) len] by metis
  have rl: "length (remove_entry k kept) \<le> length kept" by (simp add: remove_entry_def)
  have "distinct (map fst (remove_entry k kept))"
    using assms(1) kept(4) unfolding remove_entry_def
    by (simp add: approval_inv_def distinct_map_fst_filter)
  then have "distinct (map fst as')" using kept(1) by (auto simp: remove_entry_def)
  moreover have "length as' \<le> max_pending_approvals" using kept(1,3) rl by simp
  moreover have "\<forall>(k', a) \<in> set as'. Inserted (created_at a) k' (pending_of a) \<in> set (h @ [Inserted now k p])"
    using assms(1) kept(1,2) by (fastforce simp: approval_inv_def remove_entry_def)
  moreover have "takes_of q h + (if q \<in> fst ` set as' then 1 else 0) \<le> inserts_of q (h @ [Inserted now k p])"
    for q
  proof -
    have "q \<in> fst ` set as" if "q \<in> fst ` set as'" "q \<noteq> k"
      using that kept(1,2) by (auto simp: remove_entry_def)
    moreover have "takes_of q h + (if q \<in> fst ` set as then 1 else 0) \<le> inserts_of q h"
      using assms(1) by (simp add: approval_inv_def)
    ultimately show ?thesis by (auto split: if_splits)
  qed
  ultimately show ?thesis by (simp add: approval_inv_def)
qed

lemma approval_inv_step_take:
  assumes "approval_inv h as" and "take_approval now k as = (as', r)"
  shows "approval_inv (h @ [TakeCalled now k r]) as'"
proof -
  have as': "as' = filter (\<lambda>(k', a). k' \<noteq> k \<and> fresh_approval now a) as"
    and r: "r = map_option pending_of (map_of (prune_expired now as) k)"
    using assms(2) by (auto simp: take_approval_def Let_def remove_entry_def prune_expired_def
        case_prod_beta intro: filter_cong)
  have taken: "k \<in> fst ` set as" if "r \<noteq> None"
    using that r by (force simp: prune_expired_def dest!: map_of_SomeD)
  have "takes_of q (h @ [TakeCalled now k r]) + (if q \<in> fst ` set as' then 1 else 0)
      \<le> inserts_of q (h @ [TakeCalled now k r])" for q
  proof -
    have inv: "takes_of q h + (if q \<in> fst ` set as then 1 else 0) \<le> inserts_of q h"
      using assms(1) by (simp add: approval_inv_def)
    have "q \<in> fst ` set as" "q \<noteq> k" if "q \<in> fst ` set as'" using that as' by auto
    with inv taken show ?thesis by (cases "q \<in> fst ` set as'"; cases "q = k \<and> r \<noteq> None") auto
  qed
  moreover have "length as' \<le> length as" using as' by simp
  moreover have "distinct (map fst as')" "set as' \<subseteq> set as"
    using assms(1) as' by (auto simp: approval_inv_def distinct_map_fst_filter)
  ultimately show ?thesis
    using assms(1) unfolding approval_inv_def by fastforce
qed

lemma approval_history_inv: "approval_history h as \<Longrightarrow> approval_inv h as"
proof (induction rule: approval_history.induct)
  case history_new
  show ?case by (simp add: approval_inv_def takes_of_def inserts_of_def)
next
  case (history_insert h as now k p as')
  then show ?case using approval_inv_step_insert by blast
next
  case (history_take h as now k as' r)
  then show ?case using approval_inv_step_take by blast
next
  case (history_reorder h as as')
  then have "set as' = set as" "length as' = length as"
    by (metis set_mset_mset, metis size_mset)
  moreover have "distinct (map fst as') = distinct (map fst as)"
    using history_reorder.hyps(2) by (metis mset_map mset_eq_imp_distinct_iff)
  ultimately show ?case using history_reorder.IH by (simp add: approval_inv_def)
qed

text \<open>C19: An approval is single-use and bounded: however operations on the store interleave, an
  identifier is taken with success at most as often as it was inserted, and the store never holds more
  than 128 approvals.\<close>

theorem approval_single_use:
  assumes "approval_history h as"
  shows "takes_of k h \<le> inserts_of k h \<and> length as \<le> 128"
  using approval_history_inv [OF assms] unfolding approval_inv_def max_pending_approvals_def
  by (metis add_leD1)

text \<open>A take gives what was approved and nothing stale: the approval it returns was inserted under
  the same identifier less than five minutes before.\<close>

lemma approval_take_is_fresh:
  assumes "approval_history h as" and "take_approval now k as = (as', Some p)"
  shows "\<exists>t. Inserted t k p \<in> set h \<and> now - t < 300000000000"
proof -
  obtain a where a: "(k, a) \<in> set (prune_expired now as)" "pending_of a = p"
    using assms(2) by (auto simp: take_approval_def Let_def dest!: map_of_SomeD)
  then have "(k, a) \<in> set as" "fresh_approval now a" by (auto simp: prune_expired_def)
  with a(2) approval_history_inv [OF assms(1)] show ?thesis
    by (fastforce simp: approval_inv_def fresh_approval_def approval_ttl_def saturating_duration_since_def)
qed

definition sample_approval :: pending_approval where
  "sample_approval = \<lparr>pend_channel = None, pend_requested = shell_cmd (lit ''ls''),
     pend_approved_decision = AllowRaw (lit ''ok''), pend_evasion = None,
     pend_accounting_correlation_id = None, pend_cwd = lit ''/w'', pend_timeout_ms = None,
     pend_caller_path = None, pend_agent = None, pend_session_id = None, pend_trace_hash = lit ''h''\<rparr>"

lemma sample_history:
  "approval_history [Inserted 5 (lit ''id'') sample_approval]
     [(lit ''id'', \<lparr>created_at = 5, pending_of = sample_approval\<rparr>)]"
proof -
  have "insert_approval 5 (lit ''id'') sample_approval [] =
      ([(lit ''id'', \<lparr>created_at = 5, pending_of = sample_approval\<rparr>)], lit ''id'')"
    by (simp add: insert_approval_def prune_expired_def remove_entry_def max_pending_approvals_def)
  from history_insert [OF history_new this] show ?thesis by simp
qed

theorem approval_single_use_witness:
  "takes_of (lit ''id'') [Inserted 5 (lit ''id'') sample_approval] \<le>
     inserts_of (lit ''id'') [Inserted 5 (lit ''id'') sample_approval] \<and>
   length [(lit ''id'', \<lparr>created_at = 5, pending_of = sample_approval\<rparr>)] \<le> 128"
  using approval_single_use [OF sample_history] by simp

lemma approval_take_is_fresh_witness:
  "\<exists>t. Inserted t (lit ''id'') sample_approval \<in> set [Inserted 5 (lit ''id'') sample_approval] \<and>
     7 - t < 300000000000"
proof (rule approval_take_is_fresh [OF sample_history])
  show "take_approval 7 (lit ''id'') [(lit ''id'', \<lparr>created_at = 5, pending_of = sample_approval\<rparr>)] =
      ([], Some sample_approval)"
    by (simp add: take_approval_def prune_expired_def fresh_approval_def approval_ttl_def
        remove_entry_def saturating_duration_since_def)
qed

end
