(* ===== verification/Job_Store.thy ===== *)
theory Job_Store
  imports Exec_Model "HOL-Library.Product_Lexorder" "HOL-Library.List_Lexorder"
begin

text \<open>
  The durable store of execution jobs (\<open>crates/hzr-daemon/src\<close>: the records of \<open>exec_jobs.rs\<close>, the
  replay receipts of \<open>exec_jobs/receipts.rs\<close>, and the retention of \<open>exec_jobs/retention.rs\<close>; the
  snapshot types of \<open>crates/hzr-exec/src/jobs.rs\<close>; \<open>ApiError\<close> of \<open>error.rs\<close>).

  A record file is named by its operation identifier; a file that cannot be opened, is too large or
  does not parse has no record. Receipts are a table keyed by identifier. What the file system, the
  database, the clock and the approval store answer during an operation is its \<open>job_io\<close> argument:
  a write may fail before or after the new file is visible, and unlinking may stop at any record.
  What serialization, hashing and UUID parsing compute is in \<open>job_env\<close>.
\<close>

section \<open>Errors and snapshots\<close>

record api_error =
  ae_status :: nat
  ae_code :: rstr
  ae_message :: rstr
  ae_recoverable :: bool

definition bad_request :: "rstr \<Rightarrow> api_error" where
  "bad_request message =
     \<lparr>ae_status = 400, ae_code = lit ''invalid_request'', ae_message = message, ae_recoverable = True\<rparr>"

definition not_found :: "rstr \<Rightarrow> rstr \<Rightarrow> api_error" where
  "not_found code message =
     \<lparr>ae_status = 404, ae_code = code, ae_message = message, ae_recoverable = True\<rparr>"

definition gone :: "rstr \<Rightarrow> rstr \<Rightarrow> api_error" where
  "gone code message =
     \<lparr>ae_status = 410, ae_code = code, ae_message = message, ae_recoverable = False\<rparr>"

definition service :: "rstr \<Rightarrow> rstr \<Rightarrow> bool \<Rightarrow> api_error" where
  "service code message recoverable =
     \<lparr>ae_status = 503, ae_code = code, ae_message = message, ae_recoverable = recoverable\<rparr>"

definition internal :: "rstr \<Rightarrow> api_error" where
  "internal message =
     \<lparr>ae_status = 500, ae_code = lit ''internal_error'', ae_message = message, ae_recoverable = False\<rparr>"

text \<open>The trace identifier and the details of a response are empty in every error built here.\<close>

record error_response =
  er_code :: rstr
  er_message :: rstr
  er_recoverable :: bool

definition payload :: "api_error \<Rightarrow> error_response" where
  "payload e = \<lparr>er_code = ae_code e, er_message = ae_message e, er_recoverable = ae_recoverable e\<rparr>"

record exec_job_delivery =
  dl_unchanged :: bool
  dl_output_omitted :: bool
  dl_required_bytes :: u64

datatype exec_job_state = JobRunning | JobCompleted | JobCancelled | JobInterrupted | JobFailed

record exec_job_snapshot =
  sn_delivery :: "exec_job_delivery option"
  sn_operation_id :: rstr
  sn_state :: exec_job_state
  sn_revision :: u64
  sn_outcome :: "execution_outcome option"
  sn_error :: "error_response option"

record job_record =
  jr_workspace :: path
  jr_request_hash :: rstr
  jr_snapshot :: exec_job_snapshot

abbreviation record_id :: "job_record \<Rightarrow> rstr" where
  "record_id r \<equiv> sn_operation_id (jr_snapshot r)"

abbreviation record_state :: "job_record \<Rightarrow> exec_job_state" where
  "record_state r \<equiv> sn_state (jr_snapshot r)"

section \<open>Limits\<close>

definition max_active_jobs :: nat where
  "max_active_jobs = 32"

definition max_record_bytes :: u64 where
  "max_record_bytes = 8 * 1024 * 1024"

definition max_store_bytes :: u64 where
  "max_store_bytes = 2 * 1024 * 1024 * 1024"

definition max_job_output_bytes :: u64 where
  "max_job_output_bytes = 2 * 64 * 1024 * 1024"

definition max_records :: nat where
  "max_records = 20000"

definition max_receipt_record_bytes :: nat where
  "max_receipt_record_bytes = 16 * 1024"

definition keep_recent_records :: nat where
  "keep_recent_records = 1000"

definition result_grace :: duration where
  "result_grace = 60 * 60 * 1000000000"

definition compaction_batch :: nat where
  "compaction_batch = 256"

section \<open>The store\<close>

record stored_file =
  sf_record :: "job_record option"
  sf_modified :: nat
  sf_bytes :: u64

text \<open>\<open>js_tasks\<close> are the records the running tasks carry, \<open>js_active\<close> the cancellation flags of the
  active jobs, and \<open>js_dispatched\<close> the operations whose command was handed to the executor, in order,
  over the whole life of the store.\<close>

record job_store =
  js_files :: "(rstr \<times> stored_file) list"
  js_outputs :: "(rstr \<times> u64) list"
  js_other_bytes :: u64
  js_receipts :: "rstr \<Rightarrow> job_record option"
  js_active :: "(rstr \<times> bool) list"
  js_tasks :: "rstr \<Rightarrow> job_record option"
  js_dispatched :: "rstr list"

datatype write_result = Written | Unsynced | NotWritten

record job_io =
  jio_db_ok :: bool
  jio_write :: write_result
  jio_now :: nat
  jio_scan_ok :: "nat \<Rightarrow> bool"
  jio_commit_ok :: "nat \<Rightarrow> bool"
  jio_unlinked :: "nat \<Rightarrow> nat"
  jio_outputs_removed :: "nat \<Rightarrow> nat"
  jio_dir_synced :: "nat \<Rightarrow> bool"
  jio_is_pending :: "rstr \<Rightarrow> bool"

record job_env =
  je_uuid :: "rstr \<Rightarrow> rstr option"
  je_record_bytes :: "job_record \<Rightarrow> nat"
  je_outcome_bytes :: "execution_outcome \<Rightarrow> nat"

text \<open>A map kept as its entries.\<close>

definition put_entry :: "'k \<Rightarrow> 'v \<Rightarrow> ('k \<times> 'v) list \<Rightarrow> ('k \<times> 'v) list" where
  "put_entry k v xs = filter (\<lambda>x. fst x \<noteq> k) xs @ [(k, v)]"

definition del_entry :: "'k \<Rightarrow> ('k \<times> 'v) list \<Rightarrow> ('k \<times> 'v) list" where
  "del_entry k xs = filter (\<lambda>x. fst x \<noteq> k) xs"

lemma map_of_del [simp]: "map_of (del_entry k xs) = (map_of xs)(k := None)"
  by (induction xs) (auto simp: del_entry_def)

lemma map_of_put [simp]: "map_of (put_entry k v xs) = (map_of xs)(k \<mapsto> v)"
  using map_of_del [of k xs] by (auto simp: put_entry_def del_entry_def map_add_def fun_eq_iff split: option.splits)

subsection \<open>Records\<close>

definition job_path :: "job_env \<Rightarrow> rstr \<Rightarrow> api_error + rstr" where
  "job_path env i =
     (if je_uuid env i = Some i then Inr i
      else Inl (bad_request (lit ''operation_id must be a canonical UUID'')))"

datatype read_error = NotFound | OtherError rstr

definition read_full_record :: "job_env \<Rightarrow> job_store \<Rightarrow> rstr \<Rightarrow> read_error + job_record" where
  "read_full_record env s i =
     (case map_of (js_files s) i of
        None \<Rightarrow> Inl NotFound
      | Some f \<Rightarrow>
          if sf_bytes f > max_record_bytes then Inl (OtherError (lit ''invalid execution record''))
          else (case sf_record f of
                  None \<Rightarrow> Inl (OtherError (lit ''invalid execution record''))
                | Some r \<Rightarrow>
                    (case job_path env (record_id r) of
                       Inl _ \<Rightarrow> Inl (OtherError (lit ''invalid operation identity''))
                     | Inr p \<Rightarrow>
                         if p \<noteq> i then Inl (OtherError (lit ''operation identity does not match path''))
                         else Inr r)))"

definition valid_receipt :: "job_env \<Rightarrow> rstr \<Rightarrow> job_record \<Rightarrow> bool" where
  "valid_receipt env i r \<longleftrightarrow>
     je_record_bytes env r \<le> max_receipt_record_bytes \<and> record_id r = i \<and>
     record_state r \<noteq> JobRunning \<and> sn_outcome (jr_snapshot r) = None \<and>
     (case sn_error (jr_snapshot r) of
        Some e \<Rightarrow> er_code e = lit ''execution_result_expired''
      | None \<Rightarrow> False)"

definition receipt_read ::
  "job_env \<Rightarrow> job_io \<Rightarrow> job_store \<Rightarrow> rstr \<Rightarrow> read_error + job_record option" where
  "receipt_read env io s i =
     (if \<not> jio_db_ok io then Inl (OtherError (lit ''execution receipts unavailable''))
      else case js_receipts s i of
        None \<Rightarrow> Inr None
      | Some r \<Rightarrow> if valid_receipt env i r then Inr (Some r)
                  else Inl (OtherError (lit ''invalid execution replay identity'')))"

definition read_record :: "job_env \<Rightarrow> job_io \<Rightarrow> job_store \<Rightarrow> rstr \<Rightarrow> read_error + job_record" where
  "read_record env io s i =
     (case read_full_record env s i of
        Inr r \<Rightarrow>
          (case receipt_read env io s (record_id r) of
             Inl e \<Rightarrow> Inl e
           | Inr None \<Rightarrow> Inr r
           | Inr (Some receipt) \<Rightarrow>
               if jr_workspace r \<noteq> jr_workspace receipt \<or> jr_request_hash r \<noteq> jr_request_hash receipt
               then Inl (OtherError (lit ''execution record conflicts with its replay receipt''))
               else Inr r)
      | Inl NotFound \<Rightarrow>
          (case job_path env i of
             Inl _ \<Rightarrow> Inl (OtherError (lit ''invalid execution operation identity''))
           | Inr _ \<Rightarrow>
               (case receipt_read env io s i of
                  Inl e \<Rightarrow> Inl e
                | Inr (Some r) \<Rightarrow> Inr r
                | Inr None \<Rightarrow> Inl NotFound))
      | Inl e \<Rightarrow> Inl e)"

text \<open>The flag tells whether the write is reported as a success.\<close>

definition write_record :: "job_env \<Rightarrow> job_io \<Rightarrow> job_record \<Rightarrow> job_store \<Rightarrow> job_store \<times> bool" where
  "write_record env io r s =
     (let visible = s\<lparr>js_files := put_entry (record_id r)
            \<lparr>sf_record = Some r, sf_modified = jio_now io,
             sf_bytes = of_nat (je_record_bytes env r + 1)\<rparr> (js_files s)\<rparr>
      in if je_record_bytes env r \<ge> unat max_record_bytes then (s, False)
         else case jio_write io of
           NotWritten \<Rightarrow> (s, False)
         | Unsynced \<Rightarrow> (visible, False)
         | Written \<Rightarrow> (visible, True))"

subsection \<open>Receipts\<close>

definition same_identity :: "job_record \<Rightarrow> job_record \<Rightarrow> bool" where
  "same_identity stored r \<longleftrightarrow>
     jr_workspace stored = jr_workspace r \<and> jr_request_hash stored = jr_request_hash r \<and>
     record_id stored = record_id r \<and> record_state stored = record_state r \<and>
     sn_revision (jr_snapshot stored) = sn_revision (jr_snapshot r)"

text \<open>\<open>INSERT OR IGNORE\<close>, then the check of the row that is there; an error rolls the transaction
  back.\<close>

definition insert_or_ignore ::
  "job_record \<Rightarrow> (rstr \<Rightarrow> job_record option) \<Rightarrow> rstr \<Rightarrow> job_record option" where
  "insert_or_ignore r rc = (if rc (record_id r) = None then rc(record_id r \<mapsto> r) else rc)"

fun store_rows ::
  "job_env \<Rightarrow> job_record list \<Rightarrow> (rstr \<Rightarrow> job_record option) \<Rightarrow> (rstr \<Rightarrow> job_record option) option" where
  "store_rows env [] rc = Some rc"
| "store_rows env (r # rs) rc =
     (if je_record_bytes env r > max_receipt_record_bytes then None
      else case insert_or_ignore r rc (record_id r) of
        None \<Rightarrow> None
      | Some stored \<Rightarrow>
          if same_identity stored r then store_rows env rs (insert_or_ignore r rc) else None)"

definition receipts_store ::
  "job_env \<Rightarrow> job_io \<Rightarrow> nat \<Rightarrow> job_record list \<Rightarrow> job_store \<Rightarrow> (rstr \<Rightarrow> job_record option) option" where
  "receipts_store env io n rs s =
     (if jio_db_ok io \<and> jio_commit_ok io n then store_rows env rs (js_receipts s) else None)"

subsection \<open>Retention\<close>

record usage =
  us_bytes :: u64
  us_records :: "(nat \<times> rstr) list"

definition job_usage :: "job_store \<Rightarrow> usage" where
  "job_usage s =
     \<lparr>us_bytes = foldl saturating_add (js_other_bytes s)
        (map (sf_bytes \<circ> snd) (js_files s) @ map snd (js_outputs s)),
      us_records = map (\<lambda>(i, f). (sf_modified f, i)) (js_files s)\<rparr>"

definition fits :: "u64 \<Rightarrow> usage \<Rightarrow> bool" where
  "fits reserved u =
     (length (us_records u) < max_records \<and> saturating_add (us_bytes u) reserved \<le> max_store_bytes)"

definition reserved_bytes :: "nat \<Rightarrow> u64" where
  "reserved_bytes active_count =
     of_nat (min ((active_count + 1) * (unat max_record_bytes + unat max_job_output_bytes)) (2 ^ 64 - 1))"

definition expired_error :: error_response where
  "expired_error = payload (service (lit ''execution_result_expired'')
     (lit ''old execution result was reclaimed; this operation ID remains bound and will not execute again'')
     False)"

definition expire :: "job_record \<Rightarrow> job_record" where
  "expire r = r\<lparr>jr_snapshot := (jr_snapshot r)\<lparr>sn_outcome := None, sn_delivery := None,
     sn_revision := saturating_add (sn_revision (jr_snapshot r)) 1, sn_error := Some expired_error\<rparr>\<rparr>"

definition awaits_approval :: "job_io \<Rightarrow> job_record \<Rightarrow> bool" where
  "awaits_approval io r =
     (case sn_outcome (jr_snapshot r) of
        Some (NotStarted (ApprovalRequired (Some i) _ _ _)) \<Rightarrow> jio_is_pending io i
      | _ \<Rightarrow> False)"

text \<open>Receipts are committed before the first unlink; \<open>n\<close> numbers the batches of an operation.\<close>

definition compact :: "job_env \<Rightarrow> job_io \<Rightarrow> nat \<Rightarrow> job_record list \<Rightarrow> job_store \<Rightarrow> job_store \<times> bool" where
  "compact env io n rs s =
     (case receipts_store env io n rs s of
        None \<Rightarrow> (s, False)
      | Some rc \<Rightarrow>
          let unlinked = map record_id (take (jio_unlinked io n) rs);
              outputs = take (jio_outputs_removed io n) unlinked
          in (s\<lparr>js_receipts := rc, js_files := fold del_entry unlinked (js_files s),
                js_outputs := fold del_entry outputs (js_outputs s)\<rparr>,
              length outputs = length rs \<and> jio_dir_synced io n))"

datatype loop_next = Next "job_record list" nat | Stop "job_record list" nat | Fail api_error

definition receipt_storage_error :: api_error where
  "receipt_storage_error = service (lit ''execution_receipt_storage'')
     (lit ''execution receipts could not be retained safely'') False"

definition scan_error :: api_error where
  "scan_error = internal (lit ''execution store contains an invalid entry'')"

definition compaction_step ::
  "job_env \<Rightarrow> job_io \<Rightarrow> bool \<Rightarrow> u64 \<Rightarrow> nat \<Rightarrow> nat \<times> rstr \<Rightarrow> job_record list \<Rightarrow> nat \<Rightarrow> job_store \<Rightarrow>
   job_store \<times> loop_next" where
  "compaction_step env io byte_pressure reserved oldest entry batch n s =
     (if fst entry > oldest then (s, Stop batch n)
      else case read_full_record env s (snd entry) of
        Inl _ \<Rightarrow> (s, Fail (internal (lit ''invalid execution record'')))
      | Inr r \<Rightarrow>
          if record_state r = JobRunning \<or> awaits_approval io r then (s, Next batch n)
          else if length batch + 1 < compaction_batch then (s, Next (batch @ [expire r]) n)
          else (case compact env io n (batch @ [expire r]) s of
                  (s', ok) \<Rightarrow>
                    (s', if \<not> ok then Fail receipt_storage_error
                         else if \<not> byte_pressure then Next [] (n + 1)
                         else if \<not> jio_scan_ok io (n + 1) then Fail scan_error
                         else if fits reserved (job_usage s') then Stop [] (n + 1)
                         else Next [] (n + 1))))"

fun compaction_loop ::
  "job_env \<Rightarrow> job_io \<Rightarrow> bool \<Rightarrow> u64 \<Rightarrow> nat \<Rightarrow> (nat \<times> rstr) list \<Rightarrow> job_record list \<Rightarrow> nat \<Rightarrow> job_store \<Rightarrow>
   job_store \<times> (api_error + job_record list \<times> nat)" where
  "compaction_loop env io bp reserved oldest [] batch n s = (s, Inr (batch, n))"
| "compaction_loop env io bp reserved oldest (entry # entries) batch n s =
     (case compaction_step env io bp reserved oldest entry batch n s of
        (s', Next batch' n') \<Rightarrow> compaction_loop env io bp reserved oldest entries batch' n' s'
      | (s', Stop batch' n') \<Rightarrow> (s', Inr (batch', n'))
      | (s', Fail e) \<Rightarrow> (s', Inl e))"

definition capacity_error :: api_error where
  "capacity_error = service (lit ''execution_store_capacity'')
     (lit ''execution storage is reserved by active or recent results; retry after the one-hour result grace period; replay receipts are never discarded'')
     True"

text \<open>The check at the end of a reservation.\<close>

definition reserve_check :: "job_io \<Rightarrow> nat \<Rightarrow> u64 \<Rightarrow> job_store \<Rightarrow> api_error + unit" where
  "reserve_check io n reserved s =
     (if \<not> jio_scan_ok io n then Inl scan_error
      else if fits reserved (job_usage s) then Inr ()
      else Inl capacity_error)"

definition compact_last ::
  "job_env \<Rightarrow> job_io \<Rightarrow> u64 \<Rightarrow> job_record list \<Rightarrow> nat \<Rightarrow> job_store \<Rightarrow> job_store \<times> (api_error + unit)" where
  "compact_last env io reserved batch n s =
     (if batch = [] then (s, reserve_check io (n + 1) reserved s)
      else (case compact env io n batch s of
              (s', ok) \<Rightarrow>
                (s', if ok then reserve_check io (n + 2) reserved s' else Inl receipt_storage_error)))"

definition reserve_record_capacity ::
  "job_env \<Rightarrow> job_io \<Rightarrow> nat \<Rightarrow> job_store \<Rightarrow> job_store \<times> (api_error + unit)" where
  "reserve_record_capacity env io active_count s =
     (let reserved = reserved_bytes active_count; u = job_usage s;
          byte_pressure = saturating_add (us_bytes u) reserved > max_store_bytes;
          retain = (if byte_pressure then length (us_records u)
                    else length (us_records u) - keep_recent_records)
      in if \<not> jio_scan_ok io 0 then (s, Inl scan_error)
         else if fits reserved u then (s, Inr ())
         else (case compaction_loop env io byte_pressure reserved (jio_now io - result_grace)
                 (take retain (sort (us_records u))) [] 0 s of
                 (s', Inl e) \<Rightarrow> (s', Inl e)
               | (s', Inr (batch, n)) \<Rightarrow> compact_last env io reserved batch n s'))"

text \<open>After a restart, an output directory whose record was unlinked is removed; the first error ends
  the scan. The list is the directories removed.\<close>

fun recover_outputs ::
  "job_env \<Rightarrow> job_io \<Rightarrow> job_store \<Rightarrow> rstr list \<Rightarrow> rstr list \<times> bool" where
  "recover_outputs env io s [] = ([], True)"
| "recover_outputs env io s (i # is) =
     (case job_path env i of
        Inl _ \<Rightarrow> ([], False)
      | Inr _ \<Rightarrow>
          (case (if map_of (js_files s) i \<noteq> None then Inr None else receipt_read env io s i) of
             Inl _ \<Rightarrow> ([], False)
           | Inr receipt \<Rightarrow>
               (case recover_outputs env io s is of
                  (ds, ok) \<Rightarrow> (if receipt = None then ds else i # ds, ok))))"

definition recover_compaction :: "job_env \<Rightarrow> job_io \<Rightarrow> job_store \<Rightarrow> job_store \<times> bool" where
  "recover_compaction env io s =
     (case recover_outputs env io s (map fst (js_outputs s)) of
        (ds, ok) \<Rightarrow> (s\<lparr>js_outputs := fold del_entry ds (js_outputs s)\<rparr>, ok))"

end
