(* ===== verification/Exec_Jobs.thy ===== *)
theory Exec_Jobs
  imports Job_Store
begin

text \<open>
  Execution jobs of the daemon (\<open>crates/hzr-daemon/src/exec_jobs.rs\<close>): the handlers \<open>start\<close>, \<open>wait\<close>
  and \<open>cancel\<close>, the task that records a completion, and the initialization after a restart. Each
  handler holds the lock of the active jobs while it reads and writes the store, so it is one step;
  \<open>wait\<close> is one step per poll. A restart at any moment loses the active jobs and the tasks, and
  keeps the files and the receipts.
\<close>

section \<open>Handlers\<close>

text \<open>The channel and the grant, which these handlers only hash and pass on, stand as text.\<close>

record exec_api_request =
  ea_channel :: "rstr option"
  ea_cwd :: path
  ea_command :: rstr
  ea_fidelity_requested :: bool
  ea_fidelity_reason :: "rstr option"
  ea_timeout_ms :: "u64 option"
  ea_caller_path :: "rstr option"
  ea_agent :: "rstr option"
  ea_session_id :: "rstr option"
  ea_host_execution_grant :: "rstr option"

record exec_job_api_request =
  ej_operation_id :: rstr
  ej_cwd :: path
  ej_wait_ms :: "u64 option"
  ej_after_revision :: "u64 option"
  ej_max_output_bytes :: "u64 option"

text \<open>What canonicalization, the directory test and the request hash give.\<close>

record host_env = job_env +
  he_canonicalize :: "path \<Rightarrow> path option"
  he_is_dir :: "path \<Rightarrow> bool"
  he_request_hash :: "exec_api_request \<Rightarrow> rstr"

abbreviation base_env :: "host_env \<Rightarrow> job_env" where
  "base_env \<equiv> job_env.truncate"

definition max_job_ms :: u64 where
  "max_job_ms = 30 * 60 * 1000"

definition default_output_bytes :: u64 where
  "default_output_bytes = 64 * 1024"

definition completion_unknown :: error_response where
  "completion_unknown = payload (service (lit ''execution_completion_unknown'')
     (lit ''execution stopped without a durable completion; inspect side effects before any new operation'')
     False)"

definition interrupt :: "job_record \<Rightarrow> job_record" where
  "interrupt r = r\<lparr>jr_snapshot := (jr_snapshot r)\<lparr>sn_state := JobInterrupted,
     sn_revision := sn_revision (jr_snapshot r) + 1\<rparr>\<rparr>"

definition inactive_snapshot ::
  "host_env \<Rightarrow> job_io \<Rightarrow> job_record \<Rightarrow> bool \<Rightarrow> job_store \<Rightarrow> job_store \<times> exec_job_snapshot" where
  "inactive_snapshot env io r active s =
     (if record_state r = JobRunning \<and> \<not> active
      then let r' = (interrupt r)\<lparr>jr_snapshot :=
                 (jr_snapshot (interrupt r))\<lparr>sn_error := Some completion_unknown\<rparr>\<rparr>
           in (fst (write_record (base_env env) io r' s), jr_snapshot r')
      else (s, jr_snapshot r))"

definition deliver ::
  "host_env \<Rightarrow> exec_job_snapshot \<Rightarrow> u64 option \<Rightarrow> u64 option \<Rightarrow> api_error + exec_job_snapshot" where
  "deliver env snapshot after_revision max_output_bytes =
     (let limit = (case max_output_bytes of Some m \<Rightarrow> m | None \<Rightarrow> default_output_bytes);
          required = (case sn_outcome snapshot of
            Some oc \<Rightarrow> of_nat (je_outcome_bytes env oc) | None \<Rightarrow> 0);
          unchanged = (after_revision = Some (sn_revision snapshot));
          omitted = (sn_outcome snapshot \<noteq> None \<and> (unchanged \<or> required > limit))
      in if limit < 1024 \<or> limit > max_record_bytes
         then Inl (bad_request (lit ''max_output_bytes must be between 1024 and 8388608''))
         else if (case after_revision of Some after \<Rightarrow> after > sn_revision snapshot | None \<Rightarrow> False)
         then Inl (bad_request (lit ''after_revision exceeds the current revision''))
         else Inr (snapshot\<lparr>sn_outcome := (if omitted then None else sn_outcome snapshot),
                sn_delivery := Some \<lparr>dl_unchanged = unchanged, dl_output_omitted = omitted,
                  dl_required_bytes = required\<rparr>\<rparr>))"

definition first_record :: "path \<Rightarrow> rstr \<Rightarrow> rstr \<Rightarrow> job_record" where
  "first_record workspace request_hash i =
     \<lparr>jr_workspace = workspace, jr_request_hash = request_hash,
      jr_snapshot = \<lparr>sn_delivery = None, sn_operation_id = i, sn_state = JobRunning, sn_revision = 1,
        sn_outcome = None, sn_error = None\<rparr>\<rparr>"

text \<open>The part of \<open>start\<close> for an operation that is not known: reserve, persist, dispatch.\<close>

definition persist_and_dispatch ::
  "host_env \<Rightarrow> job_io \<Rightarrow> job_record \<Rightarrow> job_store \<Rightarrow> job_store \<times> (api_error + exec_job_snapshot)" where
  "persist_and_dispatch env io r s =
     (case write_record (base_env env) io r s of
        (s', ok) \<Rightarrow>
          if \<not> ok then (s', Inl (internal (lit ''persist execution before dispatch'')))
          else (s'\<lparr>js_active := put_entry (record_id r) False (js_active s'),
                   js_tasks := (js_tasks s')(record_id r \<mapsto> r),
                   js_dispatched := js_dispatched s' @ [record_id r]\<rparr>, Inr (jr_snapshot r)))"

definition dispatch_job ::
  "host_env \<Rightarrow> job_io \<Rightarrow> rstr \<Rightarrow> path \<Rightarrow> rstr \<Rightarrow> job_store \<Rightarrow> job_store \<times> (api_error + exec_job_snapshot)" where
  "dispatch_job env io i workspace request_hash s =
     (if length (js_active s) \<ge> max_active_jobs
      then (s, Inl (service (lit ''execution_capacity'') (lit ''32 execution jobs are already active'') True))
      else (case reserve_record_capacity (base_env env) io (length (js_active s)) s of
              (s', Inl e) \<Rightarrow> (s', Inl e)
            | (s', Inr _) \<Rightarrow> persist_and_dispatch env io (first_record workspace request_hash i) s'))"

definition start_job ::
  "host_env \<Rightarrow> job_io \<Rightarrow> rstr \<Rightarrow> exec_api_request \<Rightarrow> job_store \<Rightarrow>
   job_store \<times> (api_error + exec_job_snapshot)" where
  "start_job env io i request s =
     (case job_path (base_env env) i of
        Inl e \<Rightarrow> (s, Inl e)
      | Inr _ \<Rightarrow>
          (case he_canonicalize env (ea_cwd request) of
             None \<Rightarrow> (s, Inl (bad_request (lit ''invalid workspace'')))
           | Some workspace \<Rightarrow>
               let timeout = (case ea_timeout_ms request of Some t \<Rightarrow> t | None \<Rightarrow> max_job_ms);
                   request_hash = he_request_hash env request
               in if \<not> he_is_dir env workspace \<or> trim (ea_command request) = []
                  then (s, Inl (bad_request
                    (lit ''execution requires a workspace directory and command'')))
                  else if timeout = 0 \<or> timeout > max_job_ms
                  then (s, Inl (bad_request
                    (lit ''execution timeout must be between 1 and 1800000 milliseconds'')))
                  else (case read_record (base_env env) io s i of
                          Inr r \<Rightarrow>
                            if jr_workspace r \<noteq> workspace \<or>
                               jr_request_hash r \<noteq> [] \<and> jr_request_hash r \<noteq> request_hash
                            then (s, Inl (bad_request
                              (lit ''operation_id is already bound to a different request'')))
                            else (case inactive_snapshot env io r (map_of (js_active s) i \<noteq> None) s of
                                    (s', snapshot) \<Rightarrow> (s', deliver env snapshot None None))
                        | Inl NotFound \<Rightarrow> dispatch_job env io i workspace request_hash s
                        | Inl (OtherError _) \<Rightarrow> (s, Inl (internal (lit ''read execution record''))))))"

text \<open>The task's last part: the outcome of the execution is recorded under the lock, and the job
  leaves the active ones whether or not the write succeeded.\<close>

definition completed_record ::
  "bool \<Rightarrow> (api_error + execution_outcome) \<Rightarrow> job_record \<Rightarrow> job_record" where
  "completed_record cancelled outcome r =
     (let snapshot = (jr_snapshot r)\<lparr>sn_revision := sn_revision (jr_snapshot r) + 1\<rparr>
      in r\<lparr>jr_snapshot :=
           (case outcome of
              Inr oc \<Rightarrow> snapshot\<lparr>sn_state := (if cancelled then JobCancelled else JobCompleted),
                          sn_outcome := Some oc\<rparr>
            | Inl e \<Rightarrow> snapshot\<lparr>sn_state := JobFailed, sn_error := Some (payload e)\<rparr>)\<rparr>)"

definition complete_job ::
  "host_env \<Rightarrow> job_io \<Rightarrow> rstr \<Rightarrow> (api_error + execution_outcome) \<Rightarrow> job_store \<Rightarrow> job_store" where
  "complete_job env io i outcome s =
     (case js_tasks s i of
        None \<Rightarrow> s
      | Some r \<Rightarrow>
          let cancelled = (map_of (js_active s) i = Some True);
              s' = fst (write_record (base_env env) io (completed_record cancelled outcome r) s)
          in s'\<lparr>js_active := del_entry i (js_active s'), js_tasks := (js_tasks s')(i := None)\<rparr>)"

definition unknown_operation :: api_error where
  "unknown_operation = not_found (lit ''execution_not_found'') (lit ''execution operation is unknown'')"

definition scoped_record ::
  "host_env \<Rightarrow> job_io \<Rightarrow> exec_job_api_request \<Rightarrow> job_store \<Rightarrow> api_error + job_record" where
  "scoped_record env io request s =
     (case he_canonicalize env (ej_cwd request) of
        None \<Rightarrow> Inl (bad_request (lit ''invalid workspace''))
      | Some workspace \<Rightarrow>
          (case job_path (base_env env) (ej_operation_id request) of
             Inl e \<Rightarrow> Inl e
           | Inr i \<Rightarrow>
               (case read_record (base_env env) io s i of
                  Inl NotFound \<Rightarrow> Inl unknown_operation
                | Inl (OtherError _) \<Rightarrow> Inl (internal (lit ''read execution record''))
                | Inr r \<Rightarrow> if jr_workspace r \<noteq> workspace then Inl unknown_operation else Inr r)))"

text \<open>One round of \<open>wait\<close>: an error, an answer, or nothing yet.\<close>

definition wait_poll ::
  "host_env \<Rightarrow> job_io \<Rightarrow> exec_job_api_request \<Rightarrow> bool \<Rightarrow> job_store \<Rightarrow>
   job_store \<times> (api_error + exec_job_snapshot option)" where
  "wait_poll env io request deadline_passed s =
     (if (case ej_wait_ms request of Some w \<Rightarrow> w > 10000 | None \<Rightarrow> False)
      then (s, Inl (bad_request (lit ''wait_ms must not exceed 10000'')))
      else (case scoped_record env io request s of
              Inl e \<Rightarrow> (s, Inl e)
            | Inr r \<Rightarrow>
                (case inactive_snapshot env io r
                        (map_of (js_active s) (ej_operation_id request) \<noteq> None) s of
                   (s', snapshot) \<Rightarrow>
                     (s', if sn_state snapshot \<noteq> JobRunning \<or> deadline_passed
                          then map_sum id Some (deliver env snapshot (ej_after_revision request)
                                 (ej_max_output_bytes request))
                          else Inr None))))"

definition cancelled_before_dispatch :: error_response where
  "cancelled_before_dispatch = payload (service (lit ''execution_cancelled_before_dispatch'')
     (lit ''operation was cancelled before dispatch; no command was started'') False)"

definition tombstone :: "path \<Rightarrow> rstr \<Rightarrow> job_record" where
  "tombstone workspace i =
     \<lparr>jr_workspace = workspace, jr_request_hash = [],
      jr_snapshot = \<lparr>sn_delivery = None, sn_operation_id = i, sn_state = JobCancelled, sn_revision = 1,
        sn_outcome = None, sn_error = Some cancelled_before_dispatch\<rparr>\<rparr>"

definition bury_operation ::
  "host_env \<Rightarrow> job_io \<Rightarrow> path \<Rightarrow> rstr \<Rightarrow> job_store \<Rightarrow> job_store \<times> (api_error + unit)" where
  "bury_operation env io workspace i s =
     (case reserve_record_capacity (base_env env) io (length (js_active s)) s of
        (s', Inl e) \<Rightarrow> (s', Inl e)
      | (s', Inr _) \<Rightarrow>
          (case write_record (base_env env) io (tombstone workspace i) s' of
             (s'', ok) \<Rightarrow>
               (s'', if ok then Inr () else Inl (internal (lit ''execution record write'')))))"

text \<open>\<open>cancel\<close> up to its final \<open>wait\<close>.\<close>

definition cancel_job ::
  "host_env \<Rightarrow> job_io \<Rightarrow> exec_job_api_request \<Rightarrow> job_store \<Rightarrow> job_store \<times> (api_error + unit)" where
  "cancel_job env io request s =
     (let i = ej_operation_id request
      in case job_path (base_env env) i of
           Inl e \<Rightarrow> (s, Inl e)
         | Inr _ \<Rightarrow>
             (case he_canonicalize env (ej_cwd request) of
                None \<Rightarrow> (s, Inl (bad_request (lit ''invalid workspace'')))
              | Some workspace \<Rightarrow>
                  if \<not> he_is_dir env workspace
                  then (s, Inl (bad_request (lit ''workspace must be a directory'')))
                  else (case read_record (base_env env) io s i of
                          Inr r \<Rightarrow>
                            if jr_workspace r \<noteq> workspace then (s, Inl unknown_operation)
                            else (s\<lparr>js_active := map (\<lambda>(k, c). (k, c \<or> k = i)) (js_active s)\<rparr>, Inr ())
                        | Inl NotFound \<Rightarrow> bury_operation env io workspace i s
                        | Inl (OtherError _) \<Rightarrow> (s, Inl (internal (lit ''read execution record''))))))"

text \<open>\<open>shutdown\<close> signals every active job, then waits for them to leave.\<close>

definition shutdown_jobs :: "job_store \<Rightarrow> job_store" where
  "shutdown_jobs s = s\<lparr>js_active := map (\<lambda>(k, _). (k, True)) (js_active s)\<rparr>"

text \<open>Initialization: every record left running is interrupted, never replayed. The first error ends
  it, and the daemon does not start.\<close>

fun interrupt_running ::
  "host_env \<Rightarrow> (nat \<Rightarrow> job_io) \<Rightarrow> rstr list \<Rightarrow> job_store \<Rightarrow> job_store \<times> bool" where
  "interrupt_running env ios [] s = (s, True)"
| "interrupt_running env ios (i # is) s =
     (case read_full_record (base_env env) s i of
        Inl _ \<Rightarrow> (s, False)
      | Inr r \<Rightarrow>
          (case (if record_state r = JobRunning
                 then write_record (base_env env) (ios (length is)) (interrupt r) s else (s, True)) of
             (s', False) \<Rightarrow> (s', False)
           | (s', True) \<Rightarrow> interrupt_running env ios is s'))"

definition restart :: "host_env \<Rightarrow> (nat \<Rightarrow> job_io) \<Rightarrow> job_store \<Rightarrow> job_store \<times> bool" where
  "restart env ios s0 =
     (let s = s0\<lparr>js_active := [], js_tasks := Map.empty\<rparr>
      in case interrupt_running env ios (map fst (js_files s)) s of
           (s', False) \<Rightarrow> (s', False)
         | (s', True) \<Rightarrow> recover_compaction (base_env env) (ios (length (js_files s))) s')"

section \<open>The job system\<close>

inductive job_step :: "host_env \<Rightarrow> job_store \<Rightarrow> job_store \<Rightarrow> bool" for env where
  step_start: "start_job env io i request s = (s', r) \<Longrightarrow> job_step env s s'"
| step_complete: "complete_job env io i outcome s = s' \<Longrightarrow> job_step env s s'"
| step_wait: "wait_poll env io request deadline_passed s = (s', w) \<Longrightarrow> job_step env s s'"
| step_cancel: "cancel_job env io request s = (s', c) \<Longrightarrow> job_step env s s'"
| step_shutdown: "job_step env s (shutdown_jobs s)"
| step_restart: "restart env ios s = (s', ok) \<Longrightarrow> job_step env s s'"

definition fresh_store :: "job_store \<Rightarrow> bool" where
  "fresh_store s \<longleftrightarrow> js_files s = [] \<and> js_receipts s = Map.empty \<and> js_active s = [] \<and>
     js_tasks s = Map.empty \<and> js_dispatched s = []"

section \<open>Operations that run once\<close>

text \<open>
  The contract of a store that binds identifiers: once an identifier is bound it stays bound, and an
  identifier runs only in a step that finds it unbound and leaves it bound.
\<close>

locale once_only =
  fixes step :: "'s \<Rightarrow> 's \<Rightarrow> bool" and bound :: "'i \<Rightarrow> 's \<Rightarrow> bool" and ran :: "'s \<Rightarrow> 'i list"
  assumes bound_step: "step s t \<Longrightarrow> bound i s \<Longrightarrow> bound i t"
    and ran_step: "step s t \<Longrightarrow> ran t = ran s \<or> (\<exists>i. \<not> bound i s \<and> bound i t \<and> ran t = ran s @ [i])"
begin

lemma bound_steps: "step\<^sup>*\<^sup>* s t \<Longrightarrow> bound i s \<Longrightarrow> bound i t"
  by (induction rule: rtranclp_induct) (auto intro: bound_step)

lemma ran_bound: "step s t \<Longrightarrow> \<forall>i \<in> set (ran s). bound i s \<Longrightarrow> \<forall>i \<in> set (ran t). bound i t"
  using ran_step [of s t] bound_step [of s t] by auto

lemma ran_distinct:
  "step s t \<Longrightarrow> \<forall>i \<in> set (ran s). bound i s \<Longrightarrow> distinct (ran s) \<Longrightarrow> distinct (ran t)"
  using ran_step [of s t] by auto

lemma never_again:
  assumes "step\<^sup>*\<^sup>* s t" and "bound i s"
  shows "filter (\<lambda>j. j = i) (ran t) = filter (\<lambda>j. j = i) (ran s)"
  using assms(1)
proof (induction rule: rtranclp_induct)
  case (step u v)
  have "bound i u" using step.hyps(1) assms(2) by (rule bound_steps)
  then have "\<exists>j. j \<noteq> i \<and> ran v = ran u @ [j] \<or> ran v = ran u"
    using ran_step [OF step.hyps(2)] by auto
  with step.IH show ?case by auto
qed simp

end

definition bound :: "rstr \<Rightarrow> job_store \<Rightarrow> bool" where
  "bound i s \<longleftrightarrow> map_of (js_files s) i \<noteq> None \<or> js_receipts s i \<noteq> None"

definition distinct_files :: "job_store \<Rightarrow> bool" where
  "distinct_files s \<longleftrightarrow> distinct (map fst (js_files s))"

lemma distinct_del: "distinct (map fst xs) \<Longrightarrow> distinct (map fst (del_entry k xs))"
  by (induction xs) (auto simp: del_entry_def)

lemma distinct_put: "distinct (map fst xs) \<Longrightarrow> distinct (map fst (put_entry k v xs))"
  using distinct_del [of xs k] by (auto simp: put_entry_def del_entry_def)

lemma distinct_fold_del: "distinct (map fst xs) \<Longrightarrow> distinct (map fst (fold del_entry is xs))"
  by (induction "is" arbitrary: xs) (auto simp: distinct_del)

text \<open>A change of the store that forgets no identifier and keeps one file per name.\<close>

definition keeps_bound :: "job_store \<Rightarrow> job_store \<Rightarrow> bool" where
  "keeps_bound s s' \<longleftrightarrow>
     (\<forall>i. bound i s \<longrightarrow> bound i s') \<and> (distinct_files s \<longrightarrow> distinct_files s')"

text \<open>And one that dispatches nothing either.\<close>

definition keeps :: "job_store \<Rightarrow> job_store \<Rightarrow> bool" where
  "keeps s s' \<longleftrightarrow> keeps_bound s s' \<and> js_dispatched s' = js_dispatched s"

lemma keeps_refl [simp]: "keeps s s"
  by (simp add: keeps_def keeps_bound_def)

lemma keeps_trans: "keeps s t \<Longrightarrow> keeps t u \<Longrightarrow> keeps s u"
  by (simp add: keeps_def keeps_bound_def)

lemma keeps_same:
  "js_files s' = js_files s \<Longrightarrow> js_receipts s' = js_receipts s \<Longrightarrow> js_dispatched s' = js_dispatched s \<Longrightarrow>
   keeps s s'"
  by (simp add: keeps_def keeps_bound_def bound_def distinct_files_def)

lemma keeps_write_record: "keeps s (fst (write_record env io r s))"
  by (auto simp: keeps_def keeps_bound_def bound_def distinct_files_def write_record_def Let_def distinct_put
      split: write_result.splits)

lemma keeps_write: "write_record env io r s = (s', ok) \<Longrightarrow> keeps s s'"
  using keeps_write_record [of s env io r] by simp

lemma write_record_bound: "write_record env io r s = (s', True) \<Longrightarrow> bound (record_id r) s'"
  by (auto simp: bound_def write_record_def Let_def split: write_result.splits if_splits)

lemma store_rows_keeps:
  "store_rows env rs rc = Some rc' \<Longrightarrow>
   (\<forall>i r. rc i = Some r \<longrightarrow> rc' i = Some r) \<and> (\<forall>r \<in> set rs. \<exists>r'. rc' (record_id r) = Some r' \<and> same_identity r' r)"
proof (induction rs arbitrary: rc)
  case (Cons r rs)
  from Cons.prems obtain stored where st: "insert_or_ignore r rc (record_id r) = Some stored"
    "same_identity stored r" "store_rows env rs (insert_or_ignore r rc) = Some rc'"
    by (auto split: if_splits option.splits)
  have mono: "insert_or_ignore r rc i = Some x" if "rc i = Some x" for i x
    using that by (auto simp: insert_or_ignore_def)
  from Cons.IH [OF st(3)] st(1,2) mono show ?case by auto
qed simp

lemma map_of_fold_del: "map_of (fold del_entry is xs) i = (if i \<in> set is then None else map_of xs i)"
  by (induction "is" arbitrary: xs) auto

lemma keeps_compact:
  assumes "compact env io n rs s = (s', ok)" shows "keeps s s'"
proof (cases "receipts_store env io n rs s")
  case (Some rc)
  then have "store_rows env rs (js_receipts s) = Some rc"
    by (auto simp: receipts_store_def split: if_splits)
  from store_rows_keeps [OF this] have old: "\<And>i r. js_receipts s i = Some r \<Longrightarrow> rc i = Some r"
    and new: "\<And>r. r \<in> set rs \<Longrightarrow> rc (record_id r) \<noteq> None" by auto
  let ?gone = "map record_id (take (jio_unlinked io n) rs)"
  from Some assms have s': "js_receipts s' = rc" "js_files s' = fold del_entry ?gone (js_files s)"
    "js_dispatched s' = js_dispatched s"
    by (auto simp: compact_def Let_def)
  have "rc i \<noteq> None" if "i \<in> set ?gone" for i
    using that new by (auto dest: in_set_takeD)
  with old s' show ?thesis
    by (auto simp: keeps_def keeps_bound_def bound_def distinct_files_def map_of_fold_del
        distinct_fold_del split: if_splits)
qed (use assms in \<open>simp add: compact_def\<close>)

lemma keeps_compaction_step:
  assumes "compaction_step env io bp reserved oldest entry batch n s = (s', x)" shows "keeps s s'"
proof (cases "\<exists>r ok. compact env io n (batch @ [expire r]) s = (s', ok)")
  case True
  then show ?thesis using keeps_compact by blast
next
  case False
  with assms show ?thesis
    by (auto simp: compaction_step_def split: if_splits sum.splits prod.splits)
qed

lemma keeps_compaction_loop:
  "compaction_loop env io bp reserved oldest entries batch n s = (s', x) \<Longrightarrow> keeps s s'"
proof (induction env io bp reserved oldest entries batch n s rule: compaction_loop.induct)
  case (2 env io bp reserved oldest entry entries batch n s)
  obtain t y where st: "compaction_step env io bp reserved oldest entry batch n s = (t, y)" by fastforce
  have k: "keeps s t" using keeps_compaction_step st by blast
  show ?case
  proof (cases y)
    case (Next b m)
    with "2.IH" [OF st [symmetric]] "2.prems" st have "keeps t s'" by simp
    with k show ?thesis by (rule keeps_trans)
  qed (use st k "2.prems" in auto)
qed simp

lemma keeps_compact_last: "compact_last env io reserved batch n s = (s', x) \<Longrightarrow> keeps s s'"
  by (auto simp: compact_last_def split: if_splits prod.splits dest: keeps_compact)

lemma keeps_reserve:
  assumes "reserve_record_capacity env io k s = (s', x)" shows "keeps s s'"
proof -
  let ?reserved = "reserved_bytes k" and ?u = "job_usage s"
  let ?bp = "saturating_add (us_bytes ?u) ?reserved > max_store_bytes"
  let ?entries = "take (if ?bp then length (us_records ?u) else length (us_records ?u) - keep_recent_records)
    (sort (us_records ?u))"
  obtain t y where loop: "compaction_loop env io ?bp ?reserved (jio_now io - result_grace) ?entries [] 0 s = (t, y)"
    by fastforce
  note k = keeps_compaction_loop [OF loop]
  consider "s' = s" | "s' = t" | batch n where "compact_last env io ?reserved batch n t = (s', x)"
    using assms unfolding reserve_record_capacity_def Let_def loop
    by (auto split: if_splits sum.splits prod.splits)
  then show ?thesis
  proof cases
    case 3
    from keeps_trans [OF k keeps_compact_last [OF 3]] show ?thesis .
  qed (use k in simp_all)
qed

lemma keeps_inactive: "inactive_snapshot env io r active s = (s', sn) \<Longrightarrow> keeps s s'"
  using keeps_write_record [of s] by (auto simp: inactive_snapshot_def Let_def split: if_splits)

lemma keeps_recover: "recover_compaction env io s = (s', ok) \<Longrightarrow> keeps s s'"
  by (auto simp: recover_compaction_def split: prod.splits intro: keeps_same)

lemma keeps_interrupt: "interrupt_running env ios is s = (s', ok) \<Longrightarrow> keeps s s'"
proof (induction env ios "is" s rule: interrupt_running.induct)
  case (2 env ios i "is" s)
  show ?case
  proof (cases "read_full_record (base_env env) s i")
    case (Inr r)
    obtain t ok' where w: "(if record_state r = JobRunning
        then write_record (base_env env) (ios (length is)) (interrupt r) s else (s, True)) = (t, ok')"
      by fastforce
    have k: "keeps s t" using w by (auto split: if_splits dest: keeps_write)
    show ?thesis
    proof (cases ok')
      case True
      with "2.IH" [OF Inr w [symmetric]] "2.prems" Inr w have "keeps t s'" by simp
      with k show ?thesis by (rule keeps_trans)
    qed (use "2.prems" Inr w k in simp)
  qed (use "2.prems" in simp)
qed simp

lemma read_full_not_found:
  "read_full_record env s i = Inl NotFound \<Longrightarrow> map_of (js_files s) i = None"
  by (auto simp: read_full_record_def split: option.splits sum.splits if_splits)

lemma read_full_found: "read_full_record env s i = Inr r \<Longrightarrow> bound i s"
  by (auto simp: read_full_record_def bound_def split: option.splits)

lemma receipt_read_cases:
  "receipt_read env io s i = Inr r \<Longrightarrow> js_receipts s i = r"
  "receipt_read env io s i \<noteq> Inl NotFound"
  by (auto simp: receipt_read_def split: option.splits if_splits)

lemma read_record_not_found:
  assumes "read_record env io s i = Inl NotFound" shows "\<not> bound i s"
proof -
  have "read_full_record env s i = Inl NotFound" "receipt_read env io s i = Inr None"
    using assms receipt_read_cases(2)
    by (auto simp: read_record_def job_path_def split: sum.splits option.splits if_splits read_error.splits)
  then show ?thesis
    using read_full_not_found receipt_read_cases(1) by (fastforce simp: bound_def)
qed

lemma read_record_found: "read_record env io s i = Inr r \<Longrightarrow> bound i s"
  by (auto simp: read_record_def split: sum.splits option.splits if_splits read_error.splits
      dest: read_full_found) (auto simp: bound_def dest!: receipt_read_cases(1))

definition dispatches :: "rstr \<Rightarrow> job_store \<Rightarrow> job_store \<Rightarrow> bool" where
  "dispatches i s s' \<longleftrightarrow>
     keeps_bound s s' \<and> bound i s' \<and> js_dispatched s' = js_dispatched s @ [i]"

lemma persist_and_dispatch_effect:
  assumes "persist_and_dispatch env io r s = (s', x)"
  shows "keeps s s' \<or> dispatches (record_id r) s s'"
proof -
  obtain t ok where w: "write_record (base_env env) io r s = (t, ok)" by fastforce
  note k = keeps_write [OF w]
  show ?thesis
  proof (cases ok)
    case True
    with w have "bound (record_id r) t" by (simp add: write_record_bound)
    moreover have "js_files s' = js_files t" "js_receipts s' = js_receipts t"
      "js_dispatched s' = js_dispatched s @ [record_id r]"
      using assms w True k by (auto simp: persist_and_dispatch_def keeps_def)
    ultimately have "dispatches (record_id r) s s'"
      using k by (simp add: dispatches_def keeps_def keeps_bound_def bound_def distinct_files_def)
    then show ?thesis ..
  qed (use assms w k in \<open>simp add: persist_and_dispatch_def\<close>)
qed

lemma dispatch_job_effect:
  assumes "dispatch_job env io i workspace h s = (s', r)"
  shows "keeps s s' \<or> dispatches i s s'"
proof -
  consider "s' = s"
    | x where "reserve_record_capacity (base_env env) io (length (js_active s)) s = (s', x)"
    | t x where "reserve_record_capacity (base_env env) io (length (js_active s)) s = (t, x)"
      "persist_and_dispatch env io (first_record workspace h i) t = (s', r)"
    using assms by (auto simp: dispatch_job_def split: if_splits prod.splits sum.splits)
  then show ?thesis
  proof cases
    case 3
    have "record_id (first_record workspace h i) = i" by (simp add: first_record_def)
    with keeps_reserve [OF 3(1)] persist_and_dispatch_effect [OF 3(2)] show ?thesis
      by (auto simp: keeps_def keeps_bound_def dispatches_def)
  qed (use keeps_reserve in auto)
qed

lemma start_job_effect:
  assumes "start_job env io i request s = (s', r)"
  shows "keeps s s' \<or> \<not> bound i s \<and> dispatches i s s'"
proof -
  consider "s' = s"
    | x active sn where "inactive_snapshot env io x active s = (s', sn)"
    | workspace h where "read_record (base_env env) io s i = Inl NotFound"
      "dispatch_job env io i workspace h s = (s', r)"
    using assms
    by (auto simp: start_job_def Let_def
        split: sum.splits option.splits if_splits read_error.splits prod.splits)
  then show ?thesis
  proof cases
    case 3
    then show ?thesis using dispatch_job_effect read_record_not_found by blast
  qed (use keeps_inactive in auto)
qed

lemma keeps_complete: "keeps s (complete_job env io i outcome s)"
proof (cases "js_tasks s i")
  case (Some r)
  let ?w = "fst (write_record (base_env env) io
    (completed_record (map_of (js_active s) i = Some True) outcome r) s)"
  have "keeps s ?w" by (rule keeps_write_record)
  moreover have "keeps ?w (complete_job env io i outcome s)"
    using Some by (intro keeps_same) (simp_all add: complete_job_def Let_def)
  ultimately show ?thesis by (rule keeps_trans)
qed (simp add: complete_job_def)

lemma keeps_wait: "wait_poll env io request d s = (s', w) \<Longrightarrow> keeps s s'"
  by (auto simp: wait_poll_def split: sum.splits if_splits prod.splits dest: keeps_inactive)

lemma bury_operation_effect:
  assumes "bury_operation env io workspace i s = (s', c)"
  shows "keeps s s' \<and> (c = Inr () \<longrightarrow> bound i s')"
proof -
  consider x e where "reserve_record_capacity (base_env env) io (length (js_active s)) s = (s', x)" "c = Inl e"
    | t x ok where "reserve_record_capacity (base_env env) io (length (js_active s)) s = (t, x)"
      "write_record (base_env env) io (tombstone workspace i) t = (s', ok)" "c = Inr () \<longrightarrow> ok"
    using assms by (auto simp: bury_operation_def split: if_splits prod.splits sum.splits)
  then show ?thesis
  proof cases
    case 2
    then show ?thesis
      using keeps_trans [OF keeps_reserve [OF 2(1)] keeps_write [OF 2(2)]]
        write_record_bound [of "base_env env" io "tombstone workspace i" t s']
      by (auto simp: tombstone_def)
  qed (use keeps_reserve in auto)
qed

lemma cancel_job_effect:
  assumes "cancel_job env io request s = (s', c)"
  shows "keeps s s' \<and> (c = Inr () \<longrightarrow> bound (ej_operation_id request) s')"
proof -
  let ?i = "ej_operation_id request"
  let ?read = "read_record (base_env env) io s ?i"
  have early: "?thesis" if "s' = s" "c \<noteq> Inr ()" using that by simp
  consider "s' = s" "c \<noteq> Inr ()" | workspace where "he_canonicalize env (ej_cwd request) = Some workspace"
      "job_path (base_env env) ?i = Inr ?i" "he_is_dir env workspace"
    using assms by (auto simp: cancel_job_def Let_def job_path_def split: if_splits option.splits)
  then show ?thesis
  proof cases
    case (2 workspace)
    show ?thesis
    proof (cases ?read)
      case (Inr r)
      then have b: "bound ?i s" by (rule read_record_found)
      have "keeps s s' \<and> (s' = s \<or> js_files s' = js_files s \<and> js_receipts s' = js_receipts s)"
        using assms 2 Inr by (auto simp: cancel_job_def Let_def split: if_splits intro: keeps_same)
      with b show ?thesis by (auto simp: bound_def)
    next
      case (Inl e)
      show ?thesis
      proof (cases e)
        case NotFound
        then have "bury_operation env io workspace ?i s = (s', c)"
          using assms 2 Inl by (simp add: cancel_job_def Let_def)
        then show ?thesis by (rule bury_operation_effect)
      next
        case (OtherError m)
        with assms 2 Inl early show ?thesis by (auto simp: cancel_job_def Let_def)
      qed
    qed
  qed (rule early)
qed

lemma keeps_restart:
  assumes "restart env ios s = (s', ok)" shows "keeps s s'"
proof -
  let ?s = "s\<lparr>js_active := [], js_tasks := Map.empty\<rparr>"
  obtain s1 ok1 where i: "interrupt_running env ios (map fst (js_files s)) ?s = (s1, ok1)" by fastforce
  have "keeps s ?s" by (intro keeps_same) simp_all
  from keeps_trans [OF this keeps_interrupt [OF i]] have k: "keeps s s1" .
  obtain s2 ok2 where r: "recover_compaction (base_env env) (ios (length (js_files s))) s1 = (s2, ok2)"
    by fastforce
  from keeps_trans [OF k keeps_recover [OF r]] k assms i r show ?thesis
    by (cases ok1) (auto simp: restart_def Let_def)
qed

lemma job_step_effect:
  assumes "job_step env s s'"
  shows "keeps s s' \<or> (\<exists>i. \<not> bound i s \<and> dispatches i s s')"
  using assms
proof cases
  case (step_start io i request r)
  then show ?thesis using start_job_effect by blast
next
  case (step_complete io i outcome)
  then show ?thesis using keeps_complete by blast
next
  case (step_wait io request d w)
  then show ?thesis using keeps_wait by blast
next
  case (step_cancel io request c)
  then show ?thesis using cancel_job_effect by blast
next
  case step_shutdown
  then show ?thesis by (simp add: shutdown_jobs_def keeps_same)
next
  case (step_restart ios ok)
  then show ?thesis using keeps_restart by blast
qed

lemma job_step_keeps_bound: "job_step env s s' \<Longrightarrow> keeps_bound s s'"
  using job_step_effect [of env s s'] by (auto simp: keeps_def dispatches_def)

interpretation jobs: once_only "job_step env" bound js_dispatched for env
proof unfold_locales
  show "bound i t" if "job_step env s t" "bound i s" for i s t
    using job_step_keeps_bound [OF that(1)] that(2) by (simp add: keeps_bound_def)
  show "js_dispatched t = js_dispatched s \<or>
      (\<exists>i. \<not> bound i s \<and> bound i t \<and> js_dispatched t = js_dispatched s @ [i])"
    if "job_step env s t" for s t
    using job_step_effect [OF that] by (auto simp: keeps_def dispatches_def)
qed

text \<open>The job system's invariant: what ran is bound, and ran once; no two files share a name.\<close>

definition job_inv :: "job_store \<Rightarrow> bool" where
  "job_inv s \<longleftrightarrow> distinct (js_dispatched s) \<and> (\<forall>i \<in> set (js_dispatched s). bound i s) \<and> distinct_files s"

interpretation job_invariant: inductive_invariant fresh_store "job_step env" job_inv for env
proof unfold_locales
  show "job_inv s" if "fresh_store s" for s
    using that by (simp add: job_inv_def fresh_store_def distinct_files_def)
  show "job_inv t" if inv: "job_inv s" and step: "job_step env s t" for s t
    using inv jobs.ran_distinct [OF step] jobs.ran_bound [OF step] job_step_keeps_bound [OF step]
    by (simp add: job_inv_def keeps_bound_def)
qed

section \<open>Properties\<close>

text \<open>C7: A command runs at most once per operation identifier: whatever starts, polls, cancellations,
  completions, failed writes, compactions and restarts there are, in any order, no identifier is ever
  dispatched twice, and every dispatched identifier stays bound by a record or a receipt.\<close>

theorem job_dispatched_at_most_once:
  assumes "reachable fresh_store (job_step env) s"
  shows "distinct (js_dispatched s) \<and> list_all (\<lambda>i. bound i s) (js_dispatched s)"
  using job_invariant.holds_reachable [OF assms] by (simp add: job_inv_def list_all_iff)

text \<open>A cancellation that succeeds before dispatch is final: no later step of any run, restarts
  included, dispatches that identifier.\<close>

lemma cancelled_operation_never_runs:
  assumes "cancel_job env io request s = (s1, Inr ())"
    and "ej_operation_id request \<notin> set (js_dispatched s)" and "(job_step env)\<^sup>*\<^sup>* s1 s2"
  shows "ej_operation_id request \<notin> set (js_dispatched s2)"
proof -
  let ?i = "ej_operation_id request"
  have d: "js_dispatched s1 = js_dispatched s" and b: "bound ?i s1"
    using cancel_job_effect [OF assms(1)] by (simp_all add: keeps_def)
  from jobs.never_again [OF assms(3) b] d have
    "filter (\<lambda>j. j = ?i) (js_dispatched s2) = filter (\<lambda>j. j = ?i) (js_dispatched s)" by simp
  moreover have "filter (\<lambda>j. j = ?i) (js_dispatched s) = []"
    using assms(2) by (auto simp: filter_empty_conv)
  ultimately show ?thesis by (auto simp: filter_empty_conv)
qed

text \<open>A delivery respects the caller's budget: it refuses a budget outside 1024 to 8388608 bytes and
  a revision from the future; otherwise the snapshot keeps its identity, state and revision, its
  outcome is given unless the caller already has this revision or it is over the budget, and an
  omission is reported with the size it needs.\<close>

lemma deliver_contract:
  "case deliver env sn after budget of
     Inl e \<Rightarrow> ae_status e = 400 \<and>
       ((case budget of Some b \<Rightarrow> b < 1024 \<or> 8388608 < b | None \<Rightarrow> False) \<or>
        (case after of Some a \<Rightarrow> sn_revision sn < a | None \<Rightarrow> False))
   | Inr d \<Rightarrow> sn_operation_id d = sn_operation_id sn \<and> sn_state d = sn_state sn \<and>
       sn_revision d = sn_revision sn \<and>
       (case sn_outcome sn of
          None \<Rightarrow> sn_outcome d = None
        | Some oc \<Rightarrow>
            if after = Some (sn_revision sn) \<or>
               (case budget of Some b \<Rightarrow> b | None \<Rightarrow> 65536) < of_nat (je_outcome_bytes env oc)
            then sn_outcome d = None \<and> (\<exists>x. sn_delivery d = Some x \<and> dl_output_omitted x \<and>
                   dl_required_bytes x = of_nat (je_outcome_bytes env oc))
            else sn_outcome d = Some oc)"
  by (auto simp: deliver_def Let_def bad_request_def max_record_bytes_def default_output_bytes_def
      split: option.splits)

section \<open>A run\<close>

definition sample_env :: host_env where
  "sample_env = \<lparr>je_uuid = Some, je_record_bytes = \<lambda>_. 100, je_outcome_bytes = \<lambda>_. 100,
     he_canonicalize = Some, he_is_dir = \<lambda>_. True, he_request_hash = \<lambda>_. lit ''hash''\<rparr>"

definition sample_io :: job_io where
  "sample_io = \<lparr>jio_db_ok = True, jio_write = Written, jio_now = 0, jio_scan_ok = \<lambda>_. True,
     jio_commit_ok = \<lambda>_. True, jio_unlinked = \<lambda>_. 0, jio_outputs_removed = \<lambda>_. 0,
     jio_dir_synced = \<lambda>_. True,
     jio_is_pending = \<lambda>_. False\<rparr>"

definition empty_store :: job_store where
  "empty_store = \<lparr>js_files = [], js_outputs = [], js_other_bytes = 0, js_receipts = Map.empty,
     js_active = [], js_tasks = Map.empty, js_dispatched = []\<rparr>"

definition sample_request :: exec_api_request where
  "sample_request = \<lparr>ea_channel = None, ea_cwd = lit ''/w'', ea_command = lit ''ls'',
     ea_fidelity_requested = False, ea_fidelity_reason = None, ea_timeout_ms = None,
     ea_caller_path = None, ea_agent = None, ea_session_id = None, ea_host_execution_grant = None\<rparr>"

definition sample_job_request :: exec_job_api_request where
  "sample_job_request = \<lparr>ej_operation_id = lit ''u'', ej_cwd = lit ''/w'', ej_wait_ms = None,
     ej_after_revision = None, ej_max_output_bytes = None\<rparr>"

lemmas sample_defs = sample_env_def sample_io_def empty_store_def sample_request_def
  sample_job_request_def job_path_def job_env.defs

lemma reserve_empty: "reserve_record_capacity env sample_io 0 empty_store = (empty_store, Inr ())"
  by (simp add: reserve_record_capacity_def sample_defs Let_def fits_def job_usage_def
      reserved_bytes_def max_records_def max_record_bytes_def max_job_output_bytes_def
      max_store_bytes_def saturating_add_def)

lemma read_empty: "job_path env i = Inr i \<Longrightarrow> read_record env sample_io empty_store i = Inl NotFound"
  by (simp add: read_record_def read_full_record_def receipt_read_def empty_store_def sample_io_def)

lemma sample_start:
  "js_dispatched (fst (start_job sample_env sample_io (lit ''u'') sample_request empty_store)) = [lit ''u'']"
proof -
  have p: "job_path (base_env sample_env) (lit ''u'') = Inr (lit ''u'')" by (simp add: sample_defs)
  have "trim (ea_command sample_request) \<noteq> []" by code_simp
  moreover have "\<not> (max_job_ms = 0 \<or> max_job_ms > max_job_ms)" by (simp add: max_job_ms_def)
  ultimately show ?thesis
    using read_empty [OF p] reserve_empty [of "base_env sample_env"] p
    by (simp add: start_job_def dispatch_job_def persist_and_dispatch_def write_record_def Let_def
        first_record_def max_active_jobs_def sample_env_def sample_io_def empty_store_def
        sample_request_def job_env.defs max_record_bytes_def)
qed

theorem job_dispatched_at_most_once_witness:
  "distinct (js_dispatched (fst (start_job sample_env sample_io (lit ''u'') sample_request empty_store))) \<and>
   list_all (\<lambda>i. bound i (fst (start_job sample_env sample_io (lit ''u'') sample_request empty_store)))
     (js_dispatched (fst (start_job sample_env sample_io (lit ''u'') sample_request empty_store))) \<and>
   js_dispatched (fst (start_job sample_env sample_io (lit ''u'') sample_request empty_store)) \<noteq> []"
proof -
  have "fresh_store empty_store" by (simp add: fresh_store_def empty_store_def)
  then have "reachable fresh_store (job_step sample_env)
      (fst (start_job sample_env sample_io (lit ''u'') sample_request empty_store))"
    by (intro reach_step [OF reach_start] step_start) (auto simp: prod_eq_iff)
  from job_dispatched_at_most_once [OF this] sample_start show ?thesis by simp
qed

lemma sample_cancel:
  "snd (cancel_job sample_env sample_io sample_job_request empty_store) = Inr ()"
proof -
  have p: "job_path (base_env sample_env) (lit ''u'') = Inr (lit ''u'')" by (simp add: sample_defs)
  show ?thesis
    using read_empty [OF p] reserve_empty [of "base_env sample_env"] p
    by (simp add: cancel_job_def bury_operation_def write_record_def Let_def sample_env_def sample_io_def
        empty_store_def sample_job_request_def job_env.defs max_record_bytes_def)
qed

lemma cancelled_operation_never_runs_witness:
  "lit ''u'' \<notin> set (js_dispatched (fst (start_job sample_env sample_io (lit ''u'') sample_request
     (fst (cancel_job sample_env sample_io sample_job_request empty_store)))))"
proof -
  let ?s1 = "fst (cancel_job sample_env sample_io sample_job_request empty_store)"
  have c: "cancel_job sample_env sample_io sample_job_request empty_store = (?s1, Inr ())"
    using sample_cancel by (simp add: prod_eq_iff)
  have "job_step sample_env ?s1 (fst (start_job sample_env sample_io (lit ''u'') sample_request ?s1))"
    by (rule step_start) (auto simp: prod_eq_iff)
  then have "(job_step sample_env)\<^sup>*\<^sup>* ?s1 (fst (start_job sample_env sample_io (lit ''u'') sample_request ?s1))"
    by (rule r_into_rtranclp)
  from cancelled_operation_never_runs [OF c _ this] show ?thesis
    by (simp add: empty_store_def sample_job_request_def)
qed

end
