(* ===== verification/Job_Retention.thy ===== *)
theory Job_Retention
  imports Exec_Jobs
begin

text \<open>
  What retention may reclaim (\<open>crates/hzr-daemon/src/exec_jobs/retention.rs\<close>): which record files a
  reservation unlinks, and what it leaves in their place.
\<close>

section \<open>Reclaimed records\<close>

text \<open>A record that may go: it has ended, waits for no pending approval, is older than the grace
  period, and its receipt with the same workspace and request is in the table.\<close>

definition may_reclaim :: "job_io \<Rightarrow> nat \<Rightarrow> stored_file \<Rightarrow> job_record \<Rightarrow> bool" where
  "may_reclaim io oldest f r \<longleftrightarrow>
     sf_record f = Some r \<and> record_state r \<noteq> JobRunning \<and> \<not> awaits_approval io r \<and> sf_modified f \<le> oldest"

definition reclaimed_with_receipt ::
  "job_io \<Rightarrow> nat \<Rightarrow> job_store \<Rightarrow> job_store \<Rightarrow> rstr \<Rightarrow> bool" where
  "reclaimed_with_receipt io oldest s s' i \<longleftrightarrow>
     (\<exists>f r receipt. map_of (js_files s) i = Some f \<and> may_reclaim io oldest f r \<and>
        js_receipts s' i = Some receipt \<and> jr_workspace receipt = jr_workspace r \<and>
        jr_request_hash receipt = jr_request_hash r)"

definition retention_inv :: "job_io \<Rightarrow> nat \<Rightarrow> job_store \<Rightarrow> job_store \<Rightarrow> bool" where
  "retention_inv io oldest s0 s \<longleftrightarrow>
     (\<forall>i r. js_receipts s0 i = Some r \<longrightarrow> js_receipts s i = Some r) \<and>
     (\<forall>i. map_of (js_files s) i = map_of (js_files s0) i \<or>
          map_of (js_files s) i = None \<and> reclaimed_with_receipt io oldest s0 s i)"

definition batch_ok :: "job_io \<Rightarrow> nat \<Rightarrow> job_store \<Rightarrow> job_record list \<Rightarrow> bool" where
  "batch_ok io oldest s0 batch \<longleftrightarrow>
     (\<forall>x \<in> set batch. \<exists>f r. map_of (js_files s0) (record_id x) = Some f \<and> may_reclaim io oldest f r \<and>
        x = expire r)"

lemma retention_inv_refl: "retention_inv io oldest s s"
  by (simp add: retention_inv_def)

lemma expire_identity [simp]:
  "jr_workspace (expire r) = jr_workspace r" "jr_request_hash (expire r) = jr_request_hash r"
  "record_id (expire r) = record_id r"
  by (simp_all add: expire_def)

lemma retention_inv_compact:
  assumes inv: "retention_inv io oldest s0 s" and batch: "batch_ok io oldest s0 rs"
    and compact: "compact env io n rs s = (s', ok)"
  shows "retention_inv io oldest s0 s'"
proof (cases "receipts_store env io n rs s")
  case None
  with compact inv show ?thesis by (simp add: compact_def)
next
  case (Some rc)
  then have rows: "store_rows env rs (js_receipts s) = Some rc"
    by (auto simp: receipts_store_def split: if_splits)
  have mono: "\<And>i r. js_receipts s i = Some r \<Longrightarrow> rc i = Some r"
    and new: "\<And>x. x \<in> set rs \<Longrightarrow> \<exists>x'. rc (record_id x) = Some x' \<and> same_identity x' x"
    using store_rows_keeps [OF rows] by blast+
  let ?gone = "map record_id (take (jio_unlinked io n) rs)"
  from Some compact have s': "js_receipts s' = rc" "js_files s' = fold del_entry ?gone (js_files s)"
    by (auto simp: compact_def Let_def)
  have re: "reclaimed_with_receipt io oldest s0 s' i" if "i \<in> set ?gone" for i
  proof -
    from that obtain x where x: "x \<in> set rs" "record_id x = i" by (auto dest: in_set_takeD)
    with batch obtain f r where "map_of (js_files s0) i = Some f" "may_reclaim io oldest f r" "x = expire r"
      by (auto simp: batch_ok_def)
    moreover from new [OF x(1)] x(2) obtain x' where "rc i = Some x'" "same_identity x' x" by auto
    ultimately show ?thesis by (auto simp: reclaimed_with_receipt_def s' same_identity_def)
  qed
  have keep: "reclaimed_with_receipt io oldest s0 s' i" if "reclaimed_with_receipt io oldest s0 s i" for i
    using that mono by (fastforce simp: reclaimed_with_receipt_def s')
  show ?thesis
    unfolding retention_inv_def s' map_of_fold_del
    using inv mono re keep by (auto simp: retention_inv_def)
qed

lemma retention_inv_step:
  assumes inv: "retention_inv io oldest s0 s" and batch: "batch_ok io oldest s0 batch"
    and entry: "\<exists>f. map_of (js_files s0) (snd entry) = Some f \<and> sf_modified f = fst entry"
    and step: "compaction_step env io bp reserved oldest entry batch n s = (s', x)"
  shows "retention_inv io oldest s0 s' \<and>
    (case x of Next b _ \<Rightarrow> batch_ok io oldest s0 b | Stop b _ \<Rightarrow> batch_ok io oldest s0 b | Fail _ \<Rightarrow> True)"
proof -
  have add: "batch_ok io oldest s0 (batch @ [expire r])"
    if "read_full_record env s (snd entry) = Inr r" "record_state r \<noteq> JobRunning" "\<not> awaits_approval io r"
      "\<not> fst entry > oldest" for r
  proof -
    from that(1) obtain f where f: "map_of (js_files s) (snd entry) = Some f" "sf_record f = Some r"
      "record_id r = snd entry"
      by (auto simp: read_full_record_def job_path_def split: option.splits if_splits sum.splits)
    with inv have "map_of (js_files s0) (snd entry) = Some f"
      by (auto simp: retention_inv_def dest!: spec [of _ "snd entry"])
    with f entry that batch show ?thesis by (auto simp: batch_ok_def may_reclaim_def)
  qed
  show ?thesis
    using step inv batch add retention_inv_compact [OF inv add]
    by (auto simp: compaction_step_def batch_ok_def [of _ _ _ "[]"]
        split: if_splits sum.splits prod.splits bool.splits)
qed

lemma retention_inv_loop:
  assumes "retention_inv io oldest s0 s" and "batch_ok io oldest s0 batch"
    and "\<forall>entry \<in> set entries. \<exists>f. map_of (js_files s0) (snd entry) = Some f \<and> sf_modified f = fst entry"
    and "compaction_loop env io bp reserved oldest entries batch n s = (s', x)"
  shows "retention_inv io oldest s0 s' \<and> (\<forall>b m. x = Inr (b, m) \<longrightarrow> batch_ok io oldest s0 b)"
  using assms
proof (induction env io bp reserved oldest entries batch n s rule: compaction_loop.induct)
  case (2 env io bp reserved oldest entry entries batch n s)
  obtain t y where st: "compaction_step env io bp reserved oldest entry batch n s = (t, y)" by fastforce
  from "2.prems"(3) have "\<exists>f. map_of (js_files s0) (snd entry) = Some f \<and> sf_modified f = fst entry"
    by simp
  from retention_inv_step [OF "2.prems"(1,2) this st] have
    t: "retention_inv io oldest s0 t"
    and b: "case y of Next b _ \<Rightarrow> batch_ok io oldest s0 b | Stop b _ \<Rightarrow> batch_ok io oldest s0 b | Fail _ \<Rightarrow> True"
    by blast+
  show ?case
  proof (cases y)
    case (Next b m)
    with "2.IH" [OF st [symmetric] Next t] b "2.prems"(3,4) st show ?thesis by simp
  qed (use st t b "2.prems"(4) in auto)
qed auto

lemma retention_inv_reserve:
  assumes "distinct (map fst (js_files s))" and "reserve_record_capacity env io k s = (s', res)"
  shows "retention_inv io (jio_now io - result_grace) s s'"
proof -
  let ?oldest = "jio_now io - result_grace" and ?reserved = "reserved_bytes k"
  let ?bp = "saturating_add (us_bytes (job_usage s)) ?reserved > max_store_bytes"
  let ?retain = "if ?bp then length (us_records (job_usage s))
    else length (us_records (job_usage s)) - keep_recent_records"
  let ?entries = "take ?retain (sort (us_records (job_usage s)))"
  have entries: "\<forall>entry \<in> set ?entries. \<exists>f. map_of (js_files s) (snd entry) = Some f \<and> sf_modified f = fst entry"
    using assms(1) by (auto simp: job_usage_def dest!: in_set_takeD)
  obtain s1 x where loop: "compaction_loop env io ?bp ?reserved ?oldest ?entries [] 0 s = (s1, x)"
    by fastforce
  have l: "retention_inv io ?oldest s s1 \<and> (\<forall>b m. x = Inr (b, m) \<longrightarrow> batch_ok io ?oldest s b)"
    by (rule retention_inv_loop [OF retention_inv_refl _ entries loop]) (simp add: batch_ok_def)
  have c: "retention_inv io ?oldest s s2"
    if "x = Inr (b, m)" "compact_last env io ?reserved b m s1 = (s2, y)" for b m s2 y
    using retention_inv_compact [of io ?oldest s s1 b env m] l that
    by (auto simp: compact_last_def split: if_splits prod.splits)
  show ?thesis
    using assms(2) l c retention_inv_refl [of io ?oldest s]
    unfolding reserve_record_capacity_def Let_def loop
    by (auto split: if_splits sum.splits prod.splits)
qed

text \<open>C26: Retention reclaims only what it may: a record file that a reservation removes had ended, was
  not waiting for a pending approval, had not changed for the grace period of an hour, and has a
  receipt with its workspace and request hash in the table; every other file is untouched, and no
  receipt is ever lost.\<close>

theorem retention_reclaims_safely:
  assumes "reachable fresh_store (job_step env) s"
    and "reserve_record_capacity (base_env env) io k s = (s', res)"
  shows "(\<forall>i. map_of (js_files s') i = map_of (js_files s) i \<or>
       map_of (js_files s') i = None \<and> reclaimed_with_receipt io (jio_now io - result_grace) s s' i) \<and>
    (\<forall>i. js_receipts s i = None \<or> js_receipts s' i = js_receipts s i)"
proof -
  have "distinct (map fst (js_files s))"
    using job_invariant.holds_reachable [OF assms(1)] by (simp add: job_inv_def distinct_files_def)
  from retention_inv_reserve [OF this assms(2)] show ?thesis
    unfolding retention_inv_def by (metis option.exhaust)
qed

text \<open>An operation that was cancelled before dispatch leaves a record; an hour later a reservation for sixteen
  jobs needs its space.\<close>

definition buried_store :: job_store where
  "buried_store = fst (cancel_job sample_env sample_io sample_job_request empty_store)"

definition later_io :: job_io where
  "later_io = sample_io\<lparr>jio_now := result_grace, jio_unlinked := \<lambda>_. 1, jio_outputs_removed := \<lambda>_. 1\<rparr>"

lemma sample_tombstone: "buried_store = empty_store\<lparr>js_files := [(lit ''u'',
    \<lparr>sf_record = Some (tombstone (lit ''/w'') (lit ''u'')), sf_modified = 0, sf_bytes = 101\<rparr>)]\<rparr>"
proof -
  have p: "job_path (base_env sample_env) (lit ''u'') = Inr (lit ''u'')" by (simp add: sample_defs)
  show ?thesis
    using read_empty [OF p] reserve_empty [of "base_env sample_env"] p
    by (simp add: buried_store_def cancel_job_def bury_operation_def write_record_def put_entry_def tombstone_def Let_def
        sample_env_def sample_io_def empty_store_def sample_job_request_def job_env.defs max_record_bytes_def)
qed

lemma sample_reclaims:
  "map_of (js_files (fst (reserve_record_capacity (base_env sample_env) later_io 15 buried_store))) (lit ''u'') = None"
  unfolding sample_tombstone by code_simp

theorem retention_reclaims_safely_witness:
  "map_of (js_files buried_store) (lit ''u'') \<noteq> None \<and>
   map_of (js_files (fst (reserve_record_capacity (base_env sample_env) later_io 15 buried_store))) (lit ''u'') = None \<and>
   reclaimed_with_receipt later_io 0 buried_store
     (fst (reserve_record_capacity (base_env sample_env) later_io 15 buried_store)) (lit ''u'')"
proof -
  have "fresh_store empty_store" by (simp add: fresh_store_def empty_store_def)
  then have "reachable fresh_store (job_step sample_env) buried_store"
    unfolding buried_store_def by (intro reach_step [OF reach_start] step_cancel) (auto simp: prod_eq_iff)
  from retention_reclaims_safely [OF this, of later_io 15] have
    "map_of (js_files (fst (reserve_record_capacity (base_env sample_env) later_io 15 buried_store))) (lit ''u'') =
       map_of (js_files buried_store) (lit ''u'') \<or>
     reclaimed_with_receipt later_io (jio_now later_io - result_grace) buried_store
       (fst (reserve_record_capacity (base_env sample_env) later_io 15 buried_store)) (lit ''u'')"
    by (metis prod.collapse)
  moreover have "jio_now later_io - result_grace = 0" by (simp add: later_io_def)
  ultimately show ?thesis using sample_reclaims by (simp add: sample_tombstone)
qed

end
