(* ===== verification/Utf8_Check.thy ===== *)
theory Utf8_Check
  imports Rust_Prelude
begin

text \<open>
  \<open>std::str::from_utf8\<close>: which byte sequences are UTF-8, how far an invalid one is valid
  (\<open>valid_up_to\<close>), and whether it is broken (\<open>error_len\<close> is a number) or only cut short
  (\<open>error_len\<close> is none). The lemmas show what cutting valid text at any byte leaves.
\<close>

section \<open>The check\<close>

datatype utf8_result = Utf8Ok | Utf8Err (valid_up_to: nat) (error_len: "nat option")

definition is_cont :: "u8 \<Rightarrow> bool" where
  "is_cont b = (0x80 \<le> b \<and> b \<le> 0xBF)"

text \<open>What the bytes after a leading byte must satisfy; none for a byte that leads no character.\<close>

definition utf8_tail :: "u8 \<Rightarrow> (u8 \<Rightarrow> bool) list option" where
  "utf8_tail b =
     (if b < 0x80 then Some []
      else if 0xC2 \<le> b \<and> b \<le> 0xDF then Some [is_cont]
      else if b = 0xE0 then Some [\<lambda>x. 0xA0 \<le> x \<and> x \<le> 0xBF, is_cont]
      else if b = 0xED then Some [\<lambda>x. 0x80 \<le> x \<and> x \<le> 0x9F, is_cont]
      else if 0xE1 \<le> b \<and> b \<le> 0xEF then Some [is_cont, is_cont]
      else if b = 0xF0 then Some [\<lambda>x. 0x90 \<le> x \<and> x \<le> 0xBF, is_cont, is_cont]
      else if 0xF1 \<le> b \<and> b \<le> 0xF3 then Some [is_cont, is_cont, is_cont]
      else if b = 0xF4 then Some [\<lambda>x. 0x80 \<le> x \<and> x \<le> 0x8F, is_cont, is_cont]
      else None)"

datatype char_result = CharOk nat | CharBad nat | CharCut

fun scan_tail :: "(u8 \<Rightarrow> bool) list \<Rightarrow> nat \<Rightarrow> u8 list \<Rightarrow> char_result" where
  "scan_tail [] n bs = CharOk n"
| "scan_tail (p # ps) n [] = CharCut"
| "scan_tail (p # ps) n (b # bs) = (if p b then scan_tail ps (n + 1) bs else CharBad n)"

definition utf8_char :: "u8 \<Rightarrow> u8 list \<Rightarrow> char_result" where
  "utf8_char b bs = (case utf8_tail b of None \<Rightarrow> CharBad 1 | Some ps \<Rightarrow> scan_tail ps 1 bs)"

lemma scan_tail_ok: "scan_tail ps n bs = CharOk m \<Longrightarrow> m = n + length ps \<and> length ps \<le> length bs"
  by (induction ps n bs rule: scan_tail.induct) (auto split: if_splits)

lemma utf8_tail_short: "utf8_tail b = Some ps \<Longrightarrow> length ps \<le> 3"
  by (auto simp: utf8_tail_def split: if_splits)

lemma utf8_char_ok: "utf8_char b bs = CharOk n \<Longrightarrow> 0 < n \<and> n \<le> 4 \<and> n \<le> Suc (length bs)"
  by (auto simp: utf8_char_def split: option.splits dest!: scan_tail_ok utf8_tail_short)

function from_utf8_at :: "nat \<Rightarrow> u8 list \<Rightarrow> utf8_result" where
  "from_utf8_at p [] = Utf8Ok"
| "from_utf8_at p (b # bs) =
     (case utf8_char b bs of
        CharOk n \<Rightarrow> from_utf8_at (p + n) (drop n (b # bs))
      | CharBad n \<Rightarrow> Utf8Err p (Some n)
      | CharCut \<Rightarrow> Utf8Err p None)"
  by pat_completeness auto
termination
  by (relation "measure (\<lambda>(_, bs). length bs)") (auto dest!: utf8_char_ok)

definition from_utf8 :: "u8 list \<Rightarrow> utf8_result" where
  "from_utf8 bs = from_utf8_at 0 bs"

text \<open>The text of a valid sequence.\<close>

definition char_value :: "u8 list \<Rightarrow> rchar" where
  "char_value bs =
     (case bs of
        [a] \<Rightarrow> unat a
      | [a, b] \<Rightarrow> (unat a - 0xC0) * 64 + (unat b - 0x80)
      | [a, b, c] \<Rightarrow> ((unat a - 0xE0) * 64 + (unat b - 0x80)) * 64 + (unat c - 0x80)
      | [a, b, c, d] \<Rightarrow>
          (((unat a - 0xF0) * 64 + (unat b - 0x80)) * 64 + (unat c - 0x80)) * 64 + (unat d - 0x80)
      | _ \<Rightarrow> 0)"

function utf8_chars :: "u8 list \<Rightarrow> rstr" where
  "utf8_chars [] = []"
| "utf8_chars (b # bs) =
     (case utf8_char b bs of
        CharOk n \<Rightarrow> char_value (take n (b # bs)) # utf8_chars (drop n (b # bs))
      | _ \<Rightarrow> [])"
  by pat_completeness auto
termination
  by (relation "measure length") (auto dest!: utf8_char_ok)

definition decode_utf8 :: "u8 list \<Rightarrow> rstr option" where
  "decode_utf8 bs = (if from_utf8 bs = Utf8Ok then Some (utf8_chars bs) else None)"

section \<open>Cutting text\<close>

lemma scan_tail_take:
  "scan_tail ps n bs = CharOk m \<Longrightarrow>
   scan_tail ps n (take k bs) = (if length ps \<le> k then CharOk m else CharCut)"
proof (induction ps n bs arbitrary: k rule: scan_tail.induct)
  case (3 p ps n b bs)
  then show ?case by (cases k) (auto split: if_splits)
qed auto

lemma utf8_char_take:
  "utf8_char b bs = CharOk n \<Longrightarrow> utf8_char b (take k bs) = (if n \<le> Suc k then CharOk n else CharCut)"
  by (auto simp: utf8_char_def scan_tail_take split: option.splits dest: scan_tail_ok)

lemma from_utf8_at_shift:
  "from_utf8_at p bs =
     (case from_utf8_at 0 bs of Utf8Ok \<Rightarrow> Utf8Ok | Utf8Err k e \<Rightarrow> Utf8Err (p + k) e)"
proof (induction "length bs" arbitrary: bs p rule: less_induct)
  case less
  show ?case
  proof (cases bs)
    case (Cons b xs)
    show ?thesis
    proof (cases "utf8_char b xs")
      case (CharOk n)
      then have "length (drop n bs) < length bs" using Cons by (auto dest!: utf8_char_ok)
      from less.hyps [OF this, of "p + n"] less.hyps [OF this, of n] CharOk Cons show ?thesis
        by (simp split: utf8_result.splits)
    qed (use Cons in simp_all)
  qed simp
qed

lemma from_utf8_Cons:
  "from_utf8 (b # bs) =
     (case utf8_char b bs of
        CharOk n \<Rightarrow> (case from_utf8 (drop n (b # bs)) of
           Utf8Ok \<Rightarrow> Utf8Ok | Utf8Err k e \<Rightarrow> Utf8Err (n + k) e)
      | CharBad n \<Rightarrow> Utf8Err 0 (Some n)
      | CharCut \<Rightarrow> Utf8Err 0 None)"
proof (cases "utf8_char b bs")
  case (CharOk n)
  then show ?thesis using from_utf8_at_shift [of n "drop n (b # bs)"] by (simp add: from_utf8_def)
qed (simp_all add: from_utf8_def)

lemma from_utf8_Nil [simp]: "from_utf8 [] = Utf8Ok"
  by (simp add: from_utf8_def)

lemma valid_up_to_le: "from_utf8 bs = Utf8Err k e \<Longrightarrow> k \<le> length bs"
proof (induction "length bs" arbitrary: bs k rule: less_induct)
  case less
  then obtain b xs where bs: "bs = b # xs" by (cases bs) auto
  show ?case
  proof (cases "utf8_char b xs")
    case (CharOk n)
    then have n: "0 < n" "n \<le> length bs" using bs by (auto dest!: utf8_char_ok)
    from less.prems CharOk bs obtain j where j: "from_utf8 (drop n bs) = Utf8Err j e" "k = n + j"
      by (auto simp: from_utf8_Cons split: utf8_result.splits)
    have "length (drop n bs) < length bs" using n by simp
    from less.hyps [OF this j(1)] j(2) n show ?thesis by simp
  qed (use less.prems bs in \<open>auto simp: from_utf8_Cons\<close>)
qed

text \<open>The valid part of a sequence is text.\<close>

lemma from_utf8_valid_part: "from_utf8 bs = Utf8Err k e \<Longrightarrow> from_utf8 (take k bs) = Utf8Ok"
proof (induction "length bs" arbitrary: bs k rule: less_induct)
  case less
  then obtain b xs where bs: "bs = b # xs" by (cases bs) auto
  show ?case
  proof (cases "utf8_char b xs")
    case (CharOk n)
    then have n: "0 < n" "n \<le> length bs" using bs by (auto dest!: utf8_char_ok)
    from less.prems CharOk bs obtain j where j: "from_utf8 (drop n bs) = Utf8Err j e" "k = n + j"
      by (auto simp: from_utf8_Cons split: utf8_result.splits)
    have "length (drop n bs) < length bs" using n by simp
    from less.hyps [OF this j(1)] have rest: "from_utf8 (take j (drop n bs)) = Utf8Ok" .
    have tk: "take k bs = b # take (k - 1) xs" using j(2) n bs by (simp add: take_Cons')
    have "drop n (take k bs) = take j (drop n bs)" by (simp add: drop_take j(2))
    moreover have "utf8_char b (take (k - 1) xs) = CharOk n"
      using utf8_char_take [OF CharOk, of "k - 1"] j(2) n by simp
    ultimately show ?thesis using tk rest by (simp add: from_utf8_Cons)
  qed (use less.prems bs in \<open>auto simp: from_utf8_Cons\<close>)
qed

text \<open>Text cut at any byte is text, or text followed by fewer than four bytes of a character that
  continues after the cut; what follows the whole characters is text.\<close>

lemma from_utf8_cut:
  assumes "from_utf8 bs = Utf8Ok"
  shows "case from_utf8 (take m bs) of
      Utf8Ok \<Rightarrow> from_utf8 (drop m bs) = Utf8Ok
    | Utf8Err k e \<Rightarrow> e = None \<and> k < m \<and> m < k + 4 \<and> m < length bs \<and> from_utf8 (drop k bs) = Utf8Ok"
  using assms
proof (induction "length bs" arbitrary: bs m rule: less_induct)
  case less
  show ?case
  proof (cases "bs = [] \<or> m = 0")
    case True
    then show ?thesis using less.prems by auto
  next
    case False
    then obtain b xs k where bs: "bs = b # xs" and m: "m = Suc k" by (cases bs; cases m) auto
    from less.prems bs obtain n where n: "utf8_char b xs = CharOk n"
      and rest: "from_utf8 (drop n bs) = Utf8Ok"
      by (auto simp: from_utf8_Cons split: char_result.splits utf8_result.splits)
    have n4: "0 < n" "n \<le> 4" "n \<le> length bs" using utf8_char_ok [OF n] bs by auto
    have tk: "take m bs = b # take k xs" by (simp add: bs m)
    show ?thesis
    proof (cases "n \<le> m")
      case True
      have "length (drop n bs) < length bs" using n4 by simp
      from less.hyps [OF this rest, of "m - n"] have ih: "case from_utf8 (take (m - n) (drop n bs)) of
          Utf8Ok \<Rightarrow> from_utf8 (drop (m - n) (drop n bs)) = Utf8Ok
        | Utf8Err k e \<Rightarrow> e = None \<and> k < m - n \<and> m - n < k + 4 \<and> m - n < length (drop n bs) \<and>
            from_utf8 (drop k (drop n bs)) = Utf8Ok" .
      have "drop n (take m bs) = take (m - n) (drop n bs)" by (simp add: drop_take)
      moreover have "utf8_char b (take k xs) = CharOk n" using utf8_char_take [OF n, of k] True m by simp
      ultimately have "from_utf8 (take m bs) = (case from_utf8 (take (m - n) (drop n bs)) of
          Utf8Ok \<Rightarrow> Utf8Ok | Utf8Err k e \<Rightarrow> Utf8Err (n + k) e)"
        using tk by (simp add: from_utf8_Cons)
      with ih True n4 show ?thesis by (auto split: utf8_result.splits simp: add.commute)
    next
      case False
      then have "utf8_char b (take k xs) = CharCut" using utf8_char_take [OF n, of k] m by simp
      then have "from_utf8 (take m bs) = Utf8Err 0 None" using tk by (simp add: from_utf8_Cons)
      with False n4 m less.prems show ?thesis by simp
    qed
  qed
qed

end
