(* ===== verification/Paging.thy ===== *)
theory Paging
  imports Rust_Prelude
begin

text \<open>
  Reading a sequence page by page. A reader answers an offset with an error or with a page and the
  offset of the next page; a client asks for the next page until there is none. The locale states
  what a reader promises about the data it pages through; its lemmas show that the client ends and
  has the data. The captured output of a job and the hits of a search snapshot are such readers.
\<close>

type_synonym ('e, 'a) reader = "nat \<Rightarrow> 'e + 'a list \<times> nat option"

text \<open>The client's loop with its fuel; no fuel left is none.\<close>

fun fetch_pages :: "('e, 'a) reader \<Rightarrow> nat \<Rightarrow> nat \<Rightarrow> ('e + 'a list) option" where
  "fetch_pages page 0 off = None"
| "fetch_pages page (Suc fuel) off =
     (case page off of
        Inl e \<Rightarrow> Some (Inl e)
      | Inr (xs, None) \<Rightarrow> Some (Inr xs)
      | Inr (xs, Some off') \<Rightarrow>
          (case fetch_pages page fuel off' of
             None \<Rightarrow> None
           | Some (Inl e) \<Rightarrow> Some (Inl e)
           | Some (Inr ys) \<Rightarrow> Some (Inr (xs @ ys))))"

locale paged_reader =
  fixes page :: "('e, 'a) reader" and data :: "'a list"
  assumes page_slice: "page off = Inr (xs, nxt) \<Longrightarrow> xs = take (length xs) (drop off data)"
    and page_progress: "page off = Inr (xs, nxt) \<Longrightarrow> off < length data \<Longrightarrow> xs \<noteq> []"
    and page_next: "page off = Inr (xs, nxt) \<Longrightarrow>
      nxt = (if off + length xs < length data then Some (off + length xs) else None)"
begin

lemma page_rest:
  assumes "page off = Inr (xs, nxt)"
  shows "drop off data = xs @ (case nxt of None \<Rightarrow> [] | Some off' \<Rightarrow> drop off' data)"
proof -
  have "drop off data = xs @ drop (off + length xs) data"
    using page_slice [OF assms] append_take_drop_id [of "length xs" "drop off data"]
    by (simp add: add.commute)
  then show ?thesis using page_next [OF assms] by (auto split: if_splits)
qed

lemma fetch_reassembles: "fetch_pages page fuel off = Some (Inr xs) \<Longrightarrow> xs = drop off data"
proof (induction fuel arbitrary: off xs)
  case (Suc fuel)
  then obtain ys nxt where p: "page off = Inr (ys, nxt)" by (auto split: sum.splits)
  from page_rest [OF p] Suc p show ?case
    by (cases nxt) (auto split: option.splits sum.splits)
qed simp

lemma fetch_ends: "length data - off < fuel \<Longrightarrow> fetch_pages page fuel off \<noteq> None"
proof (induction fuel arbitrary: off)
  case (Suc fuel)
  have "fetch_pages page fuel off' \<noteq> None" if "page off = Inr (xs, Some off')" for xs off'
  proof -
    from page_next [OF that] page_progress [OF that] have "off < off'" "off < length data"
      by (auto split: if_splits)
    with Suc.prems show ?thesis by (intro Suc.IH) linarith
  qed
  then show ?case by (auto split: sum.splits option.splits prod.splits)
qed simp

text \<open>A reader that fails nowhere in the data is read to its end.\<close>

lemma fetch_total:
  assumes "\<And>off. off < length data \<Longrightarrow> page off \<noteq> Inl e" and "data \<noteq> []" and "length data < fuel"
  shows "fetch_pages page fuel 0 \<noteq> Some (Inl e)"
proof -
  have "fetch_pages page fuel off \<noteq> Some (Inl e)" if "off < length data" for off
    using that
  proof (induction fuel arbitrary: off)
    case (Suc fuel)
    have "off' < length data" if "page off = Inr (xs, Some off')" for xs off'
      using page_next [OF that] by (auto split: if_splits)
    with Suc assms(1) show ?case by (fastforce split: sum.splits option.splits)
  qed simp
  then show ?thesis using assms(2) by simp
qed

end

end
