(* ===== verification/Exec_Output.thy ===== *)
theory Exec_Output
  imports Exec_Jobs Utf8_Check Paging
begin

text \<open>
  Paging through the captured output of a job (\<open>crates/hzr-daemon/src/exec_jobs/output.rs\<close>). A page
  is read while the lock of the active jobs is held, so it is one step on a store that does not
  change. The operating system is the \<open>output_io\<close> argument: what paths resolve to, and what opening,
  inspecting and reading the spill file give. SHA-256 and the hexadecimal encoding are arguments. The
  content of a response is the bytes of its text.
\<close>

section \<open>Reading a page\<close>

datatype exec_output_stream = StdoutOutput | StderrOutput

record exec_output_request =
  eo_operation_id :: rstr
  eo_cwd :: path
  eo_stream :: exec_output_stream
  eo_offset :: u64
  eo_max_bytes :: "u64 option"
  eo_expected_sha256 :: "rstr option"

record exec_output_response =
  or_operation_id :: rstr
  or_revision :: u64
  or_stream :: exec_output_stream
  or_offset :: u64
  or_next_offset :: "u64 option"
  or_total_bytes :: u64
  or_stored_bytes :: u64
  or_source_sha256 :: rstr
  or_capture_truncated :: bool
  or_complete :: bool
  or_encoding :: rstr
  or_content :: "u8 list"

definition default_page_bytes :: u64 where
  "default_page_bytes = 32 * 1024"

definition max_page_bytes :: u64 where
  "max_page_bytes = 256 * 1024"

record file_metadata =
  fm_is_file :: bool
  fm_len :: u64
  fm_modified :: "nat option"

record output_io =
  oi_canonicalize :: "path \<Rightarrow> path option"
  oi_open :: "path \<Rightarrow> bool"
  oi_metadata :: "file_metadata option"
  oi_reads :: "(io_error + u8 list) list"
  oi_after :: "file_metadata option"

text \<open>\<open>Path::parent\<close> of a canonical path.\<close>

definition parent_path :: "path \<Rightarrow> path option" where
  "parent_path p =
     (let d = rev (dropWhile (\<lambda>c. c \<noteq> c_slash) (rev p))
      in if p = [] \<or> p = [c_slash] then None
         else if d = [] \<or> d = [c_slash] then Some d else Some (butlast d))"

definition output_name :: "path \<Rightarrow> rstr \<Rightarrow> path" where
  "output_name directory i = directory @ [c_slash] @ i @ lit ''.output''"

text \<open>The part of a chunk that belongs to the page.\<close>

definition chunk_part :: "nat \<Rightarrow> nat \<Rightarrow> nat \<Rightarrow> u8 list \<Rightarrow> u8 list" where
  "chunk_part off len position chunk =
     (let start_in_chunk = min (off - position) (length chunk);
          end_in_chunk = min (off + len - position) (length chunk)
      in if start_in_chunk < end_in_chunk then drop start_in_chunk (take end_in_chunk chunk) else [])"

text \<open>The read loop: the position, the bytes of the page so far and the bytes hashed.\<close>

primrec read_spill ::
  "nat \<Rightarrow> nat \<Rightarrow> nat \<Rightarrow> (io_error + u8 list) list \<Rightarrow> nat \<Rightarrow> u8 list \<Rightarrow> u8 list \<Rightarrow>
   api_error + nat \<times> u8 list \<times> u8 list" where
  "read_spill off len stored [] position bytes hashed = Inr (position, bytes, hashed)"
| "read_spill off len stored (r # reads) position bytes hashed =
     (case r of
        Inl e \<Rightarrow> Inl (internal e)
      | Inr chunk \<Rightarrow>
          if chunk = [] then Inr (position, bytes, hashed)
          else if position + length chunk > stored
          then Inl (internal (lit ''captured output grew during retrieval''))
          else read_spill off len stored reads (position + length chunk)
                 (bytes @ chunk_part off len position chunk) (hashed @ chunk))"

definition owned_spill :: "output_io \<Rightarrow> path \<Rightarrow> rstr \<Rightarrow> path \<Rightarrow> api_error + unit" where
  "owned_spill io directory i p =
     (case oi_canonicalize io (output_name directory i) of
        None \<Rightarrow> Inl (internal (lit ''owned output directory unavailable''))
      | Some expected \<Rightarrow>
          (case oi_canonicalize io directory of
             None \<Rightarrow> Inl (internal (lit ''canonicalize''))
           | Some root \<Rightarrow>
               if expected \<noteq> output_name root i
               then Inl (internal (lit ''operation output directory is not owned by this job''))
               else (case oi_canonicalize io p of
                       None \<Rightarrow> Inl (internal (lit ''captured output unavailable''))
                     | Some canonical \<Rightarrow>
                         if parent_path canonical \<noteq> Some expected
                         then Inl (internal (lit ''captured output is outside its operation directory''))
                         else Inr ())))"

definition spilled_bytes ::
  "output_io \<Rightarrow> path \<Rightarrow> nat \<Rightarrow> nat \<Rightarrow> u64 \<Rightarrow> api_error + u8 list \<times> u8 list" where
  "spilled_bytes io p off len stored =
     (if \<not> oi_open io p then Inl (internal (lit ''open captured output''))
      else case oi_metadata io of
        None \<Rightarrow> Inl (internal (lit ''metadata''))
      | Some m \<Rightarrow>
          if \<not> fm_is_file m \<or> fm_len m \<noteq> stored
          then Inl (internal (lit ''captured output length does not match its receipt''))
          else (case read_spill off len (unat stored) (oi_reads io) 0 [] [] of
                  Inl e \<Rightarrow> Inl e
                | Inr (position, bytes, hashed) \<Rightarrow>
                    (case oi_after io of
                       None \<Rightarrow> Inl (internal (lit ''metadata''))
                     | Some a \<Rightarrow>
                         if position \<noteq> unat stored \<or> length bytes \<noteq> len \<or> fm_len a \<noteq> fm_len m \<or>
                            fm_modified a \<noteq> fm_modified m
                         then Inl (internal (lit ''captured output changed during retrieval''))
                         else Inr (bytes, hashed))))"

definition stream_bytes ::
  "output_io \<Rightarrow> path \<Rightarrow> rstr \<Rightarrow> captured_stream \<Rightarrow> nat \<Rightarrow> nat \<Rightarrow> api_error + u8 list \<times> u8 list" where
  "stream_bytes io directory i stream off len =
     (case cap_content stream of
        InlineBytes stored \<Rightarrow>
          if length stored \<noteq> unat (cap_stored_bytes stream)
          then Inl (internal (lit ''inline output length does not match its receipt''))
          else Inr (take len (drop off stored), stored)
      | Spilled p \<Rightarrow>
          (case owned_spill io directory i p of
             Inl e \<Rightarrow> Inl e
           | Inr _ \<Rightarrow> spilled_bytes io p off len (cap_stored_bytes stream)))"

definition result_of :: "exec_job_snapshot \<Rightarrow> execution_result option" where
  "result_of sn =
     (case sn_outcome sn of
        Some (Completed r) \<Rightarrow> Some r
      | Some (ExecutedAccountingIncomplete r _) \<Rightarrow> Some r
      | _ \<Rightarrow> None)"

definition requested_stream :: "exec_output_stream \<Rightarrow> execution_result \<Rightarrow> captured_stream" where
  "requested_stream st r = (case st of StdoutOutput \<Rightarrow> res_stdout r | StderrOutput \<Rightarrow> res_stderr r)"

definition job_request :: "exec_output_request \<Rightarrow> exec_job_api_request" where
  "job_request request =
     \<lparr>ej_operation_id = eo_operation_id request, ej_cwd = eo_cwd request, ej_wait_ms = None,
      ej_after_revision = None, ej_max_output_bytes = None\<rparr>"

text \<open>The record must be readable, finished, not reclaimed, and have captured output.\<close>

definition readable_stream ::
  "host_env \<Rightarrow> job_io \<Rightarrow> exec_output_request \<Rightarrow> job_store \<Rightarrow> api_error + exec_job_snapshot \<times> captured_stream"
  where
  "readable_stream env jio request s =
     (case scoped_record env jio (job_request request) s of
        Inl e \<Rightarrow> Inl e
      | Inr r \<Rightarrow>
          if record_state r = JobRunning
          then Inl (service (lit ''execution_output_pending'')
            (lit ''wait for command completion before reading captured output'') True)
          else if (case sn_error (jr_snapshot r) of
                     Some e \<Rightarrow> er_code e = lit ''execution_result_expired'' | None \<Rightarrow> False)
          then Inl (gone (lit ''execution_result_expired'')
            (lit ''captured output was reclaimed; this operation ID remains bound and will not execute again''))
          else (case result_of (jr_snapshot r) of
                  None \<Rightarrow> Inl (not_found (lit ''execution_output_unavailable'')
                    (lit ''this operation has no captured output''))
                | Some res \<Rightarrow> Inr (jr_snapshot r, requested_stream (eo_stream request) res)))"

text \<open>A page up to its encoding: the snapshot, the stream, the hash of the whole stored output and
  the bytes read.\<close>

definition output_bytes ::
  "(u8 list \<Rightarrow> rstr) \<Rightarrow> host_env \<Rightarrow> job_io \<Rightarrow> output_io \<Rightarrow> path \<Rightarrow> exec_output_request \<Rightarrow> job_store \<Rightarrow>
   api_error + exec_job_snapshot \<times> captured_stream \<times> rstr \<times> u8 list" where
  "output_bytes sha256 env jio io directory request s =
     (let limit = (case eo_max_bytes request of Some m \<Rightarrow> m | None \<Rightarrow> default_page_bytes)
      in if limit < 1 \<or> limit > max_page_bytes
         then Inl (bad_request (lit ''max_bytes must be between 1 and 262144''))
         else case readable_stream env jio request s of
           Inl e \<Rightarrow> Inl e
         | Inr (sn, stream) \<Rightarrow>
             if cap_stored_bytes stream > 64 * 1024 * 1024
             then Inl (internal (lit ''stored output exceeds the capture limit''))
             else if eo_offset request > cap_stored_bytes stream
             then Inl (bad_request (lit ''offset exceeds captured output''))
             else (case stream_bytes io directory (eo_operation_id request) stream
                          (unat (eo_offset request))
                          (unat (min limit (cap_stored_bytes stream - eo_offset request))) of
                     Inl e \<Rightarrow> Inl e
                   | Inr (bytes, hashed) \<Rightarrow>
                       if \<not> cap_truncated stream \<and> sha256 hashed \<noteq> cap_sha256 stream \<or>
                          (case eo_expected_sha256 request of
                             Some h \<Rightarrow> h \<noteq> sha256 hashed | None \<Rightarrow> False)
                       then Inl (service (lit ''execution_output_changed'')
                         (lit ''captured output hash does not match the requested result'') False)
                       else Inr (sn, stream, sha256 hashed, bytes)))"

text \<open>A page is cut back to whole characters when that leaves any.\<close>

definition whole_chars :: "u8 list \<Rightarrow> u8 list" where
  "whole_chars bytes =
     (case from_utf8 bytes of
        Utf8Err k None \<Rightarrow> if k > 0 then take k bytes else bytes
      | _ \<Rightarrow> bytes)"

definition read_page ::
  "(u8 list \<Rightarrow> rstr) \<Rightarrow> (u8 list \<Rightarrow> u8 list) \<Rightarrow> host_env \<Rightarrow> job_io \<Rightarrow> output_io \<Rightarrow> path \<Rightarrow>
   exec_output_request \<Rightarrow> job_store \<Rightarrow> api_error + exec_output_response" where
  "read_page sha256 hex_encode env jio io directory request s =
     (case output_bytes sha256 env jio io directory request s of
        Inl e \<Rightarrow> Inl e
      | Inr (sn, stream, source_sha256, bytes0) \<Rightarrow>
          let bytes = whole_chars bytes0;
              next_off = eo_offset request + of_nat (length bytes);
              utf8 = (from_utf8 bytes = Utf8Ok)
          in Inr \<lparr>or_operation_id = eo_operation_id request, or_revision = sn_revision sn,
                  or_stream = eo_stream request, or_offset = eo_offset request,
                  or_next_offset = (if next_off < cap_stored_bytes stream then Some next_off else None),
                  or_total_bytes = cap_total_bytes stream, or_stored_bytes = cap_stored_bytes stream,
                  or_source_sha256 = source_sha256, or_capture_truncated = cap_truncated stream,
                  or_complete = (eo_offset request = 0 \<and> next_off = cap_stored_bytes stream \<and>
                    \<not> cap_truncated stream),
                  or_encoding = (if utf8 then lit ''utf8'' else lit ''hex''),
                  or_content = (if utf8 then bytes else hex_encode bytes)\<rparr>)"

section \<open>What a page holds\<close>

primrec read_all :: "(io_error + u8 list) list \<Rightarrow> u8 list" where
  "read_all [] = []"
| "read_all (r # reads) =
     (case r of Inl _ \<Rightarrow> [] | Inr chunk \<Rightarrow> if chunk = [] then [] else chunk @ read_all reads)"

text \<open>The bytes stored for the stream a request names.\<close>

definition stored_output ::
  "host_env \<Rightarrow> job_io \<Rightarrow> output_io \<Rightarrow> exec_output_request \<Rightarrow> job_store \<Rightarrow> u8 list" where
  "stored_output env jio io request s =
     (case readable_stream env jio request s of
        Inl _ \<Rightarrow> []
      | Inr (_, stream) \<Rightarrow>
          (case cap_content stream of InlineBytes b \<Rightarrow> b | Spilled _ \<Rightarrow> read_all (oi_reads io)))"

lemma chunk_part_append:
  "drop off (take (off + len) (xs @ c)) =
   drop off (take (off + len) xs) @ chunk_part off len (length xs) c"
proof (cases "length xs \<le> off + len")
  case True
  then have "drop off (take (off + len) (xs @ c)) =
      drop off (take (off + len) xs) @ drop (off - length xs) (take (off + len - length xs) c)"
    by (simp add: min_absorb1)
  moreover have "chunk_part off len (length xs) c = drop (off - length xs) (take (off + len - length xs) c)"
    by (auto simp: chunk_part_def Let_def min_def not_less take_all_iff)
  ultimately show ?thesis by simp
qed (simp add: chunk_part_def Let_def)

lemma read_spill_Inr:
  "read_spill off len stored reads (length xs) (drop off (take (off + len) xs)) xs =
     Inr (position, bytes, hashed) \<Longrightarrow>
   hashed = xs @ read_all reads \<and> position = length hashed \<and>
   bytes = drop off (take (off + len) hashed)"
proof (induction reads arbitrary: xs)
  case (Cons r reads)
  show ?case
  proof (cases r)
    case (Inr chunk)
    show ?thesis
    proof (cases "chunk = []")
      case False
      with Cons.prems Inr have
        "read_spill off len stored reads (length (xs @ chunk))
           (drop off (take (off + len) (xs @ chunk))) (xs @ chunk) = Inr (position, bytes, hashed)"
        by (simp add: chunk_part_append del: take_append drop_append split: if_splits)
      from Cons.IH [OF this] False Inr show ?thesis by simp
    qed (use Cons.prems Inr in auto)
  qed (use Cons.prems in simp)
qed simp

lemma stream_bytes_Inr:
  assumes "stream_bytes io directory i stream off len = Inr (bytes, hashed)"
    and "off + len \<le> unat (cap_stored_bytes stream)"
  shows "hashed = (case cap_content stream of InlineBytes b \<Rightarrow> b | Spilled _ \<Rightarrow> read_all (oi_reads io)) \<and>
    length hashed = unat (cap_stored_bytes stream) \<and> bytes = take len (drop off hashed)"
proof (cases "cap_content stream")
  case (InlineBytes b)
  with assms show ?thesis by (auto simp: stream_bytes_def split: if_splits)
next
  case (Spilled p)
  with assms(1) have
    "read_spill off len (unat (cap_stored_bytes stream)) (oi_reads io) 0 [] [] =
       Inr (unat (cap_stored_bytes stream), bytes, hashed)"
    by (auto simp: stream_bytes_def spilled_bytes_def split: if_splits sum.splits option.splits)
  then show ?thesis
    using read_spill_Inr [of off len _ "oi_reads io" "[]"] Spilled by (simp add: drop_take)
qed

lemma output_bytes_Inr:
  assumes "output_bytes sha256 env jio io directory request s = Inr (sn, stream, h, bytes)"
  defines "data \<equiv> stored_output env jio io request s"
    and "limit \<equiv> (case eo_max_bytes request of Some m \<Rightarrow> m | None \<Rightarrow> default_page_bytes)"
  shows "readable_stream env jio request s = Inr (sn, stream) \<and> 0 < limit \<and>
    length data = unat (cap_stored_bytes stream) \<and> unat (eo_offset request) \<le> length data \<and>
    h = sha256 data \<and> (cap_truncated stream \<or> h = cap_sha256 stream) \<and>
    (case eo_expected_sha256 request of None \<Rightarrow> True | Some e \<Rightarrow> h = e) \<and>
    bytes = take (unat limit) (drop (unat (eo_offset request)) data)"
proof -
  let ?st = "cap_stored_bytes stream" and ?off = "eo_offset request"
  obtain hashed where r: "readable_stream env jio request s = Inr (sn, stream)"
    and l: "0 < limit" and o: "?off \<le> ?st"
    and b: "stream_bytes io directory (eo_operation_id request) stream (unat ?off)
        (unat (min limit (?st - ?off))) = Inr (bytes, hashed)"
    and h: "h = sha256 hashed" "cap_truncated stream \<or> h = cap_sha256 stream"
      "case eo_expected_sha256 request of None \<Rightarrow> True | Some e \<Rightarrow> h = e"
    using assms(1) unfolding output_bytes_def limit_def [symmetric] Let_def
    by (auto simp: word_less_1 word_gt_0 not_less split: if_splits sum.splits option.splits)
  have len: "unat (min limit (?st - ?off)) = min (unat limit) (unat ?st - unat ?off)"
    using o by (simp add: min_def word_le_nat_alt unat_sub)
  have "unat ?off + unat (min limit (?st - ?off)) \<le> unat ?st"
    using o by (simp add: len word_le_nat_alt)
  note st = stream_bytes_Inr [OF b this]
  with r have "hashed = data" by (simp add: data_def stored_output_def)
  moreover from this st have n: "length data = unat ?st"
    and "bytes = take (min (unat limit) (unat ?st - unat ?off)) (drop (unat ?off) data)"
    by (metis, metis len)
  then have "bytes = take (unat limit) (drop (unat ?off) data)" by (simp add: min_def)
  ultimately show ?thesis using r l h o n by (simp add: word_le_nat_alt)
qed

lemma take_slice:
  assumes "bytes = take m ys" and "xs = take (length xs) bytes" and "length xs \<le> length bytes"
  shows "xs = take (length xs) ys"
proof -
  have "min (length xs) m = length xs" using assms(1,3) by simp
  then show ?thesis using assms(1,2) by (metis take_take)
qed

lemma whole_chars_prefix:
  "whole_chars bytes = take (length (whole_chars bytes)) bytes \<and>
   (bytes \<noteq> [] \<longrightarrow> whole_chars bytes \<noteq> []) \<and> length (whole_chars bytes) \<le> length bytes"
  by (auto simp: whole_chars_def min_def split: utf8_result.splits option.splits)

section \<open>Pages as a reader\<close>

text \<open>An offset is a 64-bit number.\<close>

definition page_reader ::
  "(u8 list \<Rightarrow> rstr) \<Rightarrow> host_env \<Rightarrow> job_io \<Rightarrow> output_io \<Rightarrow> path \<Rightarrow> exec_output_request \<Rightarrow> job_store \<Rightarrow>
   (api_error, u8) reader" where
  "page_reader sha256 env jio io directory request s off =
     (if off \<ge> 2 ^ 64 then Inl (bad_request (lit ''invalid request''))
      else case output_bytes sha256 env jio io directory (request\<lparr>eo_offset := of_nat off\<rparr>) s of
        Inl e \<Rightarrow> Inl e
      | Inr (_, stream, _, bytes) \<Rightarrow>
          let xs = whole_chars bytes
          in Inr (xs, if off + length xs < unat (cap_stored_bytes stream)
                      then Some (off + length xs) else None))"

lemma readable_stream_offset [simp]:
  "readable_stream env jio (request\<lparr>eo_offset := x\<rparr>) s = readable_stream env jio request s"
  by (simp add: readable_stream_def job_request_def cong: sum.case_cong option.case_cong if_cong)

lemma stored_output_offset [simp]:
  "stored_output env jio io (request\<lparr>eo_offset := x\<rparr>) s = stored_output env jio io request s"
  by (simp add: stored_output_def)

lemma unat_of_nat_64: "n < 2 ^ 64 \<Longrightarrow> unat (of_nat n :: u64) = n"
  by (simp add: unat_of_nat)

lemma page_reader_Inr:
  assumes "page_reader sha256 env jio io directory request s off = Inr (xs, nxt)"
  defines "data \<equiv> stored_output env jio io request s"
  shows "xs = take (length xs) (drop off data) \<and> (off < length data \<longrightarrow> xs \<noteq> []) \<and>
    nxt = (if off + length xs < length data then Some (off + length xs) else None)"
proof -
  let ?q = "request\<lparr>eo_offset := of_nat off\<rparr>"
  from assms(1) obtain sn stream h bytes where
    b: "output_bytes sha256 env jio io directory ?q s = Inr (sn, stream, h, bytes)"
    and off: "off < 2 ^ 64" and xs: "xs = whole_chars bytes"
    and nxt: "nxt = (if off + length xs < unat (cap_stored_bytes stream) then Some (off + length xs) else None)"
    by (auto simp: page_reader_def Let_def split: if_splits sum.splits)
  define m where "m = unat (case eo_max_bytes request of Some m \<Rightarrow> m | None \<Rightarrow> default_page_bytes)"
  from output_bytes_Inr [OF b] off have m: "0 < m" "length data = unat (cap_stored_bytes stream)"
    "bytes = take m (drop off data)"
    by (simp_all add: data_def m_def unat_of_nat_64 word_gt_0 unat_gt_0)
  moreover note w = whole_chars_prefix [of bytes, folded xs]
  ultimately have "xs = take (length xs) (drop off data)" by (blast intro: take_slice)
  moreover have "off < length data \<longrightarrow> xs \<noteq> []" using m w by auto
  ultimately show ?thesis using nxt m(2) by simp
qed

interpretation exec_pages: paged_reader
  "page_reader sha256 env jio io directory request s" "stored_output env jio io request s"
  for sha256 env jio io directory request s
  by unfold_locales (use page_reader_Inr in blast)+

section \<open>Pages as responses\<close>

text \<open>What a client decodes from a response, and a client's view of the handler as a reader.\<close>

definition page_content :: "(u8 list \<Rightarrow> u8 list) \<Rightarrow> exec_output_response \<Rightarrow> u8 list" where
  "page_content unhex resp =
     (if or_encoding resp = lit ''utf8'' then or_content resp else unhex (or_content resp))"

definition response_reader ::
  "(u8 list \<Rightarrow> u8 list) \<Rightarrow> (u64 \<Rightarrow> api_error + exec_output_response) \<Rightarrow> (api_error, u8) reader" where
  "response_reader unhex handler off =
     (if off \<ge> 2 ^ 64 then Inl (bad_request (lit ''invalid request''))
      else case handler (of_nat off) of
        Inl e \<Rightarrow> Inl e
      | Inr resp \<Rightarrow> Inr (page_content unhex resp, map_option unat (or_next_offset resp)))"

lemma encodings_differ: "lit ''hex'' \<noteq> lit ''utf8''"
  by (simp add: lit_def)

lemma read_page_Inr:
  assumes "read_page sha256 hex_encode env jio io directory request s = Inr resp"
  obtains sn stream bytes where
    "output_bytes sha256 env jio io directory request s = Inr (sn, stream, or_source_sha256 resp, bytes)"
    "or_content resp =
      (if from_utf8 (whole_chars bytes) = Utf8Ok then whole_chars bytes else hex_encode (whole_chars bytes))"
    "or_encoding resp = (if from_utf8 (whole_chars bytes) = Utf8Ok then lit ''utf8'' else lit ''hex'')"
    "or_offset resp = eo_offset request"
    "or_capture_truncated resp = cap_truncated stream"
    "map_option unat (or_next_offset resp) =
      (if unat (eo_offset request) + length (whole_chars bytes) < unat (cap_stored_bytes stream)
       then Some (unat (eo_offset request) + length (whole_chars bytes)) else None)"
    "or_complete resp = (eo_offset request = 0 \<and> \<not> cap_truncated stream \<and>
       unat (eo_offset request) + length (whole_chars bytes) = unat (cap_stored_bytes stream))"
proof -
  from assms(1) obtain sn stream h bytes where
    b: "output_bytes sha256 env jio io directory request s = Inr (sn, stream, h, bytes)"
    by (auto simp: read_page_def split: sum.splits)
  let ?n = "length (whole_chars bytes)" and ?off = "eo_offset request"
  have "unat ?off + ?n \<le> unat (cap_stored_bytes stream)"
    using output_bytes_Inr [OF b] whole_chars_prefix [of bytes] by auto
  then have n: "unat (?off + of_nat ?n) = unat ?off + ?n"
    using unat_less [of "cap_stored_bytes stream"] unat_of_nat_64 [of "unat ?off + ?n"] by simp
  have "?off + of_nat ?n < cap_stored_bytes stream \<longleftrightarrow> unat ?off + ?n < unat (cap_stored_bytes stream)"
    and "?off + of_nat ?n = cap_stored_bytes stream \<longleftrightarrow> unat ?off + ?n = unat (cap_stored_bytes stream)"
    by (simp_all add: word_less_nat_alt word_unat_eq_iff n)
  with assms(1) b n that show ?thesis by (auto simp: read_page_def Let_def)
qed

lemma page_content_decodes:
  assumes "or_content resp = (if from_utf8 xs = Utf8Ok then xs else hex_encode xs)"
    and "or_encoding resp = (if from_utf8 xs = Utf8Ok then lit ''utf8'' else lit ''hex'')"
    and "\<forall>bs. unhex (hex_encode bs) = bs"
  shows "page_content unhex resp = xs"
  using assms encodings_differ by (simp add: page_content_def split: if_splits)

lemma response_reader_page_reader:
  assumes hex: "\<forall>bs. unhex (hex_encode bs) = bs"
  shows "response_reader unhex
      (\<lambda>off. read_page sha256 hex_encode env jio io directory (request\<lparr>eo_offset := off\<rparr>) s) =
    page_reader sha256 env jio io directory request s"
proof
  fix off
  let ?q = "request\<lparr>eo_offset := of_nat off\<rparr>"
  show "response_reader unhex
      (\<lambda>off. read_page sha256 hex_encode env jio io directory (request\<lparr>eo_offset := off\<rparr>) s) off =
    page_reader sha256 env jio io directory request s off"
  proof (cases "read_page sha256 hex_encode env jio io directory ?q s")
    case (Inl e)
    then have "output_bytes sha256 env jio io directory ?q s = Inl e"
      by (auto simp: read_page_def Let_def split: sum.splits)
    with Inl show ?thesis by (simp add: response_reader_def page_reader_def)
  next
    case (Inr resp)
    then obtain sn stream bytes where
      b: "output_bytes sha256 env jio io directory ?q s = Inr (sn, stream, or_source_sha256 resp, bytes)"
      and c: "page_content unhex resp = whole_chars bytes"
      and nx: "map_option unat (or_next_offset resp) =
        (if unat (eo_offset ?q) + length (whole_chars bytes) < unat (cap_stored_bytes stream)
         then Some (unat (eo_offset ?q) + length (whole_chars bytes)) else None)"
      using page_content_decodes [where hex_encode = hex_encode and unhex = unhex] hex by (elim read_page_Inr) blast
    from nx show ?thesis
      by (simp add: response_reader_def page_reader_def Let_def unat_of_nat_64 Inr b c)
  qed
qed

section \<open>Properties\<close>

text \<open>C29: A page is exact: its content decodes to the bytes of the stored output at its offset, at
  most \<open>max_bytes\<close> of them and at least one before the end; the next offset is where it stops; the
  hash is that of the whole stored output, and the one recorded at capture unless that was truncated;
  it is complete exactly when it is all of an untruncated output.\<close>

theorem read_page_exact:
  assumes "read_page sha256 hex_encode env jio io directory request s = Inr resp"
    and "\<forall>bs. unhex (hex_encode bs) = bs"
  defines "data \<equiv> stored_output env jio io request s" and "page \<equiv> page_content unhex resp"
    and "off \<equiv> unat (eo_offset request)"
    and "limit \<equiv> (case eo_max_bytes request of Some m \<Rightarrow> unat m | None \<Rightarrow> 32768)"
  shows "off \<le> length data \<and> page = take (length page) (drop off data) \<and> length page \<le> limit \<and>
    (off < length data \<longrightarrow> page \<noteq> []) \<and>
    map_option unat (or_next_offset resp) =
      (if off + length page < length data then Some (off + length page) else None) \<and>
    or_source_sha256 resp = sha256 data \<and>
    or_complete resp = (page = data \<and> off = 0 \<and> \<not> or_capture_truncated resp)"
proof -
  from assms(1) obtain sn stream bytes where
    b: "output_bytes sha256 env jio io directory request s = Inr (sn, stream, or_source_sha256 resp, bytes)"
    and page: "page = whole_chars bytes" and tr: "or_capture_truncated resp = cap_truncated stream"
    and nx: "map_option unat (or_next_offset resp) =
      (if off + length (whole_chars bytes) < unat (cap_stored_bytes stream)
       then Some (off + length (whole_chars bytes)) else None)"
    and c: "or_complete resp = (eo_offset request = 0 \<and> \<not> cap_truncated stream \<and>
       off + length (whole_chars bytes) = unat (cap_stored_bytes stream))"
    unfolding page_def off_def
    using page_content_decodes [where hex_encode = hex_encode and unhex = unhex] assms(2)
    by (elim read_page_Inr) blast
  have lim: "unat (case eo_max_bytes request of Some m \<Rightarrow> m | None \<Rightarrow> default_page_bytes) = limit"
    by (auto simp: limit_def default_page_bytes_def split: option.splits)
  note ob = output_bytes_Inr [OF b, folded data_def off_def, unfolded lim]
  then have len: "length data = unat (cap_stored_bytes stream)" "off \<le> length data"
    "or_source_sha256 resp = sha256 data" "bytes = take limit (drop off data)" "0 < limit"
    using lim by (auto simp: word_gt_0 unat_gt_0)
  note w = whole_chars_prefix [of bytes, folded page]
  from len w have sl: "page = take (length page) (drop off data)" by (blast intro: take_slice)
  have "page = data" if "off = 0" "length page = length data" using sl that by simp
  then have cc: "or_complete resp = (page = data \<and> off = 0 \<and> \<not> or_capture_truncated resp)"
    using c len(1) tr page by (auto simp: off_def unat_eq_zero)
  have "length page \<le> limit" "off < length data \<longrightarrow> page \<noteq> []" using w len by auto
  with sl len nx [folded page] cc show ?thesis by metis
qed

text \<open>C16: Reading all pages gives the output: a client that follows the next offsets from the start
  ends, after at most one request more than there are bytes, with an error of the handler or with
  exactly the stored output.\<close>

theorem output_pages_reassemble:
  assumes "\<forall>bs. unhex (hex_encode bs) = bs"
    and "length (stored_output env jio io request s) < fuel"
  shows "\<exists>r. fetch_pages (response_reader unhex
      (\<lambda>off. read_page sha256 hex_encode env jio io directory (request\<lparr>eo_offset := off\<rparr>) s)) fuel 0 = Some r \<and>
    (\<forall>xs. r = Inr xs \<longrightarrow> xs = stored_output env jio io request s)"
proof -
  let ?reader = "page_reader sha256 env jio io directory request s"
  obtain r where "fetch_pages ?reader fuel 0 = Some r"
    using exec_pages.fetch_ends [where off = 0 and fuel = fuel] assms(2) by fastforce
  moreover from this have "xs = stored_output env jio io request s" if "r = Inr xs" for xs
    using exec_pages.fetch_reassembles [of _ _ _ _ _ _ _ fuel 0 xs] that by simp
  moreover have "response_reader unhex
      (\<lambda>off. read_page sha256 hex_encode env jio io directory (request\<lparr>eo_offset := off\<rparr>) s) = ?reader"
    by (rule response_reader_page_reader) (rule assms(1))
  ultimately show ?thesis by metis
qed

text \<open>Text stays text: when the stored output is text from a page's offset on, and pages of at least
  four bytes are asked for, the page is sent as text and the next page starts at text again.\<close>

lemma text_pages_stay_text:
  assumes "read_page sha256 hex_encode env jio io directory request s = Inr resp"
    and "from_utf8 (drop (unat (eo_offset request)) (stored_output env jio io request s)) = Utf8Ok"
    and "(case eo_max_bytes request of Some m \<Rightarrow> m | None \<Rightarrow> 32768) \<ge> 4"
  shows "or_encoding resp = lit ''utf8'' \<and> from_utf8 (or_content resp) = Utf8Ok \<and>
    (case or_next_offset resp of
       None \<Rightarrow> True
     | Some off \<Rightarrow> from_utf8 (drop (unat off) (stored_output env jio io request s)) = Utf8Ok)"
proof -
  let ?data = "stored_output env jio io request s" and ?off = "unat (eo_offset request)"
  let ?ys = "drop ?off ?data"
  from assms(1) obtain sn stream h bytes where
    b: "output_bytes sha256 env jio io directory request s = Inr (sn, stream, h, bytes)"
    and resp: "or_content resp =
      (if from_utf8 (whole_chars bytes) = Utf8Ok then whole_chars bytes else hex_encode (whole_chars bytes))"
      "or_encoding resp = (if from_utf8 (whole_chars bytes) = Utf8Ok then lit ''utf8'' else lit ''hex'')"
    and nx: "map_option unat (or_next_offset resp) =
      (if ?off + length (whole_chars bytes) < unat (cap_stored_bytes stream)
       then Some (?off + length (whole_chars bytes)) else None)"
    by (elim read_page_Inr) blast
  define m where "m = unat (case eo_max_bytes request of Some m \<Rightarrow> m | None \<Rightarrow> default_page_bytes)"
  have m: "m \<ge> 4" using assms(3) by (auto simp: m_def default_page_bytes_def word_le_nat_alt split: option.splits)
  have bytes: "bytes = take m ?ys" using output_bytes_Inr [OF b] by (simp add: m_def)
  have t: "from_utf8 (whole_chars bytes) = Utf8Ok \<and> from_utf8 (drop (length (whole_chars bytes)) ?ys) = Utf8Ok"
  proof (cases "from_utf8 bytes")
    case Utf8Ok
    with from_utf8_cut [OF assms(2), of m] show ?thesis
      by (auto simp: bytes whole_chars_def min_def split: if_splits)
  next
    case (Utf8Err k e)
    with from_utf8_cut [OF assms(2), of m] have "e = None" "k < m" "m < k + 4" "m < length ?ys"
      "from_utf8 (drop k ?ys) = Utf8Ok" by (auto simp: bytes)
    with Utf8Err m from_utf8_valid_part [OF Utf8Err] show ?thesis
      by (auto simp: whole_chars_def bytes min_def)
  qed
  have "unat off = ?off + length (whole_chars bytes)" if "or_next_offset resp = Some off" for off
    using nx that by (auto split: if_splits)
  with t resp show ?thesis by (auto split: option.splits simp: add.commute)
qed

section \<open>Witnesses\<close>

text \<open>A finished job whose standard output is five bytes of text, the last two one character.\<close>

definition sample_bytes :: "u8 list" where
  "sample_bytes = [0x68, 0x68, 0x68, 0xC3, 0xA9]"

definition sample_stream :: "u8 list \<Rightarrow> captured_stream" where
  "sample_stream bs = \<lparr>cap_content = InlineBytes bs, cap_total_bytes = of_nat (length bs),
     cap_stored_bytes = of_nat (length bs), cap_sha256 = [], cap_truncated = False,
     cap_dropped_event_bytes = 0\<rparr>"

definition sample_result :: execution_result where
  "sample_result = \<lparr>res_requested = Argv (lit ''ls'') [], res_executed = Argv (lit ''ls'') [],
     res_decision = AllowRaw [], res_raw_fallback = False, res_stdout = sample_stream sample_bytes,
     res_stderr = sample_stream [], res_termination = \<lparr>term_cause = Exited, term_exit_code = Some 0,
     term_signal = None\<rparr>, res_duration_ms = 1\<rparr>"

definition finished_record :: job_record where
  "finished_record = \<lparr>jr_workspace = lit ''/w'', jr_request_hash = lit ''hash'',
     jr_snapshot = \<lparr>sn_delivery = None, sn_operation_id = lit ''u'', sn_state = JobCompleted,
       sn_revision = 2, sn_outcome = Some (Completed sample_result), sn_error = None\<rparr>\<rparr>"

definition finished_store :: job_store where
  "finished_store = empty_store\<lparr>js_files :=
     [(lit ''u'', \<lparr>sf_record = Some finished_record, sf_modified = 0, sf_bytes = 100\<rparr>)]\<rparr>"

definition sample_output_request :: exec_output_request where
  "sample_output_request = \<lparr>eo_operation_id = lit ''u'', eo_cwd = lit ''/w'', eo_stream = StdoutOutput,
     eo_offset = 0, eo_max_bytes = Some 4, eo_expected_sha256 = None\<rparr>"

definition no_output_io :: output_io where
  "no_output_io = \<lparr>oi_canonicalize = \<lambda>_. None, oi_open = \<lambda>_. False, oi_metadata = None, oi_reads = [],
     oi_after = None\<rparr>"

lemma sample_readable:
  "readable_stream sample_env sample_io sample_output_request finished_store =
     Inr (jr_snapshot finished_record, sample_stream sample_bytes)"
  by (simp add: readable_stream_def scoped_record_def read_record_def read_full_record_def job_path_def
      receipt_read_def sample_env_def sample_io_def job_env.defs job_request_def sample_output_request_def
      finished_store_def empty_store_def finished_record_def result_of_def requested_stream_def
      sample_result_def max_record_bytes_def)

lemma sample_stored: "stored_output sample_env sample_io no_output_io sample_output_request finished_store = sample_bytes"
  by (simp add: stored_output_def sample_readable sample_stream_def)

lemma sample_whole: "whole_chars [0x68, 0x68, 0x68, 0xC3] = [0x68, 0x68, 0x68]"
  "from_utf8 [0x68, 0x68, 0x68] = Utf8Ok" "from_utf8 sample_bytes = Utf8Ok"
  by code_simp+

definition sample_page :: exec_output_response where
  "sample_page = \<lparr>or_operation_id = lit ''u'', or_revision = 2, or_stream = StdoutOutput, or_offset = 0,
     or_next_offset = Some 3, or_total_bytes = 5, or_stored_bytes = 5, or_source_sha256 = [],
     or_capture_truncated = False, or_complete = False, or_encoding = lit ''utf8'',
     or_content = [0x68, 0x68, 0x68]\<rparr>"

lemma sample_read:
  "read_page (\<lambda>_. []) id sample_env sample_io no_output_io (lit ''/d'') sample_output_request finished_store =
     Inr sample_page"
proof -
  have "output_bytes (\<lambda>_. []) sample_env sample_io no_output_io (lit ''/d'') sample_output_request
      finished_store = Inr (jr_snapshot finished_record, sample_stream sample_bytes, [], [0x68, 0x68, 0x68, 0xC3])"
    unfolding output_bytes_def sample_readable
    by (simp add: sample_output_request_def max_page_bytes_def sample_stream_def sample_bytes_def
        stream_bytes_def min_def)
  then show ?thesis
    by (simp add: read_page_def Let_def sample_whole sample_page_def sample_output_request_def
        finished_record_def sample_stream_def sample_bytes_def)
qed

theorem read_page_exact_witness:
  "page_content id sample_page = take (length (page_content id sample_page)) (drop 0 sample_bytes) \<and>
   map_option unat (or_next_offset sample_page) =
     (if 0 + length (page_content id sample_page) < length sample_bytes
      then Some (0 + length (page_content id sample_page)) else None)"
  using read_page_exact [OF sample_read, of id] unfolding sample_stored
  by (simp add: sample_output_request_def)

theorem output_pages_reassemble_witness:
  "\<exists>r. fetch_pages (response_reader id (\<lambda>off. read_page (\<lambda>_. []) id sample_env sample_io no_output_io
       (lit ''/d'') (sample_output_request\<lparr>eo_offset := off\<rparr>) finished_store)) 6 0 = Some r \<and>
     (case r of Inr xs \<Rightarrow> xs = sample_bytes | Inl e \<Rightarrow> True)"
proof -
  have "length (stored_output sample_env sample_io no_output_io sample_output_request finished_store) < 6"
    by (simp add: sample_stored sample_bytes_def)
  from output_pages_reassemble [OF _ this, of id id "\<lambda>_. []" "lit ''/d''"] show ?thesis
    unfolding sample_stored by (force split: sum.splits)
qed

lemma text_pages_stay_text_witness:
  "or_encoding sample_page = lit ''utf8'' \<and> from_utf8 (or_content sample_page) = Utf8Ok \<and>
   (case or_next_offset sample_page of
      None \<Rightarrow> True
    | Some off \<Rightarrow> from_utf8 (drop (unat off) sample_bytes) = Utf8Ok)"
proof -
  have "from_utf8 (drop (unat (eo_offset sample_output_request))
      (stored_output sample_env sample_io no_output_io sample_output_request finished_store)) = Utf8Ok"
    unfolding sample_stored by (simp add: sample_whole sample_output_request_def)
  from text_pages_stay_text [OF sample_read this] show ?thesis
    unfolding sample_stored by (simp add: sample_output_request_def)
qed

end
