(* ===== verification/Search_Pages.thy ===== *)
theory Search_Pages
  imports Job_Store Paging Decimal
begin

text \<open>
  Search snapshots (\<open>crates/hzr-daemon/src/search_pages.rs\<close>, with the search types of
  \<open>crates/hzr-protocol/src/api.rs\<close>): a search result is stored once under a fresh identifier, and a
  cursor reads further pages of it until it expires. The directory is the list of its entries in the
  order the file system lists them. A file holds what was written to it: a snapshot, or nothing that
  parses. Publication holds the store's lock, so it is one step.

  What the file system answers, the new identifier, the size of a serialized snapshot and the hash of
  a request's identity are arguments. Scores, as 64-bit patterns, and the fallback code, as text, are
  only passed on.
\<close>

section \<open>Types\<close>

datatype search_mode = ExactMode | SemanticMode | AutoMode

datatype search_strategy =
  ForkRgaiAdaptive | ForkRgaiBuiltin | ForkRgaiGrepai | ForkRgaiRipgrep | ForkRgaiFiles

record search_line =
  sl_line :: u32
  sl_text :: rstr

record search_snippet =
  ss_lines :: "search_line list"
  ss_matched_terms :: "rstr list"

record search_hit =
  sh_path :: rstr
  sh_score :: u64
  sh_matched_lines :: nat
  sh_snippets :: "search_snippet list"

record search_page =
  pg_snapshot_id :: rstr
  pg_offset :: nat
  pg_available_hits :: nat
  pg_snapshot_complete :: bool
  pg_next_cursor :: "rstr option"
  pg_expires_at_ms :: u64

record search_api_response =
  sr_page :: "search_page option"
  sr_query :: rstr
  sr_path :: rstr
  sr_total_hits :: nat
  sr_shown_hits :: nat
  sr_scanned_files :: nat
  sr_skipped_large :: nat
  sr_skipped_binary :: nat
  sr_hits :: "search_hit list"
  sr_effective_mode :: search_mode
  sr_strategy :: search_strategy
  sr_fallback_code :: "rstr option"
  sr_index_generation :: "rstr option"
  sr_fallback_reason :: "rstr option"
  sr_next_step :: "rstr option"

record search_api_request =
  sq_paginate :: bool
  sq_cursor :: "rstr option"
  sq_workspace :: rstr
  sq_query :: rstr
  sq_path :: "rstr option"
  sq_limit :: nat
  sq_mode :: search_mode
  sq_include_content :: bool

definition snapshot_hits_limit :: nat where
  "snapshot_hits_limit = 100"

definition search_ttl_ms :: u64 where
  "search_ttl_ms = 15 * 60 * 1000"

definition max_snapshot_bytes :: u64 where
  "max_snapshot_bytes = 2 * 1024 * 1024"

definition max_snapshots :: nat where
  "max_snapshots = 128"

definition max_total_bytes :: u64 where
  "max_total_bytes = 64 * 1024 * 1024"

record search_snapshot =
  sp_version :: u32
  sp_binding :: rstr
  sp_expires_at_ms :: u64
  sp_response :: search_api_response

section \<open>The directory\<close>

record dir_entry =
  de_name :: rstr
  de_readable :: bool
  de_regular :: "bool option"
  de_len :: u64
  de_modified_ms :: "u64 option"
  de_removable :: bool
  de_snapshot :: "search_snapshot option"

record search_io =
  si_dir_ok :: bool
  si_real_dir :: bool
  si_lock_file_ok :: bool
  si_lock_free :: bool
  si_list_ok :: bool
  si_persist_ok :: bool
  si_id :: rstr

record search_env =
  se_identity_hash :: "rstr \<times> rstr \<times> rstr option \<times> nat \<times> search_mode \<times> bool \<Rightarrow> rstr"
  se_bytes :: "search_snapshot \<Rightarrow> u64"

definition cache_full :: api_error where
  "cache_full = service (lit ''search_snapshot_capacity'')
     (lit ''private search snapshot capacity reached; wait for expiry or search without pagination'') True"

definition cache_error :: api_error where
  "cache_error = service (lit ''search_snapshot_io'') (lit ''search snapshot storage failed'') True"

definition valid_id :: "rstr \<Rightarrow> bool" where
  "valid_id i = (blen i = 32 \<and> list_all is_ascii_hexdigit i)"

definition binding :: "search_env \<Rightarrow> search_api_request \<Rightarrow> rstr" where
  "binding env request = se_identity_hash env
     (sq_workspace request, sq_query request, sq_path request, sq_limit request, sq_mode request,
      sq_include_content request)"

definition page_file :: "rstr \<Rightarrow> rstr" where
  "page_file i = i @ lit ''.json''"

text \<open>The identifier of an entry that is a snapshot file by its name.\<close>

definition entry_id :: "dir_entry \<Rightarrow> rstr option" where
  "entry_id e =
     (case strip_suffix (de_name e) (lit ''.json'') of
        Some i \<Rightarrow> if valid_id i then Some i else None
      | None \<Rightarrow> None)"

definition page ::
  "search_snapshot \<Rightarrow> rstr \<Rightarrow> nat \<Rightarrow> nat \<Rightarrow> api_error + search_api_response" where
  "page snapshot i off limit =
     (if limit = 0 \<or> limit > snapshot_hits_limit
      then Inl (bad_request (lit ''search page size must be 1..100''))
      else let response = sp_response snapshot; available = length (sr_hits response);
               stop = min (off + limit) available;
               next_cursor = (if stop < available then Some (i @ [c_colon] @ show_nat stop) else None);
               complete = (available \<ge> sr_total_hits response);
               hits = take limit (drop off (sr_hits response))
           in Inr (response\<lparr>sr_hits := hits, sr_shown_hits := length hits,
                sr_next_step := (case next_cursor of
                    Some cursor \<Rightarrow> Some (lit ''Continue this immutable snapshot with --cursor '' @ cursor @
                      lit '' and the same query, scope and options.'')
                  | None \<Rightarrow> if complete then None
                      else Some (lit ''Snapshot exhausted at 100 hits; narrow the query/scope for additional matches. No automatic rescan occurred.'')),
                sr_page := Some \<lparr>pg_snapshot_id = i, pg_offset = off, pg_available_hits = available,
                  pg_snapshot_complete = complete, pg_next_cursor = next_cursor,
                  pg_expires_at_ms = sp_expires_at_ms snapshot\<rparr>\<rparr>))"

section \<open>Publication\<close>

text \<open>What happens to one entry: it stops the scan, is skipped, removed, or counted.\<close>

datatype scan_result = ScanFail api_error | ScanSkip | ScanRemove | ScanCount

definition scan_entry :: "u64 \<Rightarrow> nat \<Rightarrow> dir_entry \<Rightarrow> scan_result" where
  "scan_entry now index e =
     (if index > max_snapshots * 2 then ScanFail cache_full
      else if \<not> de_readable e then ScanFail cache_error
      else if entry_id e = None then ScanSkip
      else case de_regular e of
        None \<Rightarrow> ScanFail cache_error
      | Some regular \<Rightarrow>
          if \<not> regular then ScanFail cache_full
          else if (case de_modified_ms e of
                     Some m \<Rightarrow> saturating_sub now m \<ge> search_ttl_ms | None \<Rightarrow> False)
          then (if de_removable e then ScanRemove else ScanFail cache_error)
          else ScanCount)"

text \<open>The entries kept, and the count and size of the snapshots among them, or the error. Entries
  after an error are not visited.\<close>

primrec scan_directory ::
  "u64 \<Rightarrow> nat \<Rightarrow> dir_entry list \<Rightarrow> nat \<Rightarrow> u64 \<Rightarrow> dir_entry list \<times> (api_error + nat \<times> u64)" where
  "scan_directory now index [] records bytes = ([], Inr (records, bytes))"
| "scan_directory now index (e # es) records bytes =
     (case scan_entry now index e of
        ScanFail err \<Rightarrow> (e # es, Inl err)
      | ScanSkip \<Rightarrow>
          (case scan_directory now (index + 1) es records bytes of (kept, r) \<Rightarrow> (e # kept, r))
      | ScanRemove \<Rightarrow> scan_directory now (index + 1) es records bytes
      | ScanCount \<Rightarrow>
          (case scan_directory now (index + 1) es (records + 1) (saturating_add bytes (de_len e)) of
             (kept, r) \<Rightarrow> (e # kept, r)))"

definition new_entry :: "search_env \<Rightarrow> u64 \<Rightarrow> rstr \<Rightarrow> search_snapshot \<Rightarrow> dir_entry" where
  "new_entry env now i snapshot =
     \<lparr>de_name = page_file i, de_readable = True, de_regular = Some True, de_len = se_bytes env snapshot,
      de_modified_ms = Some now, de_removable = True, de_snapshot = Some snapshot\<rparr>"

definition publish_at ::
  "search_env \<Rightarrow> search_io \<Rightarrow> search_api_request \<Rightarrow> search_api_response \<Rightarrow> u64 \<Rightarrow> dir_entry list \<Rightarrow>
   dir_entry list \<times> (api_error + search_api_response)" where
  "publish_at env io request response now dir =
     (let snapshot = \<lparr>sp_version = 1, sp_binding = binding env request,
            sp_expires_at_ms = saturating_add now search_ttl_ms, sp_response = response\<rparr>
      in if \<not> si_dir_ok io then (dir, Inl cache_error)
         else if \<not> si_real_dir io
         then (dir, Inl (bad_request (lit ''search snapshot directory must not be a symlink'')))
         else if \<not> si_lock_file_ok io then (dir, Inl cache_error)
         else if \<not> si_lock_free io
         then (dir, Inl (service (lit ''search_snapshot_busy'')
                (lit ''search snapshot publication is busy'') True))
         else if se_bytes env snapshot > max_snapshot_bytes
         then (dir, Inl (bad_request
                (lit ''search snapshot exceeds 2 MiB; use a narrower scope or omit content'')))
         else if \<not> si_list_ok io then (dir, Inl cache_error)
         else (case scan_directory now 0 dir 0 (se_bytes env snapshot) of
                 (kept, Inl e) \<Rightarrow> (kept, Inl e)
               | (kept, Inr (records, bytes)) \<Rightarrow>
                   if records \<ge> max_snapshots \<or> bytes > max_total_bytes then (kept, Inl cache_full)
                   else if \<not> si_persist_ok io then (kept, Inl cache_error)
                   else (filter (\<lambda>e. de_name e \<noteq> page_file (si_id io)) kept @
                           [new_entry env now (si_id io) snapshot],
                         page snapshot (si_id io) 0 (sq_limit request))))"

section \<open>Reading\<close>

text \<open>\<open>read_bounded_regular_file\<close> and the parse of what it read.\<close>

definition read_snapshot :: "rstr \<Rightarrow> dir_entry list \<Rightarrow> search_snapshot option option" where
  "read_snapshot name dir =
     (case List.find (\<lambda>e. de_name e = name) dir of
        None \<Rightarrow> None
      | Some e \<Rightarrow>
          if de_readable e \<and> de_regular e = Some True \<and> de_len e \<le> max_snapshot_bytes
          then Some (de_snapshot e) else None)"

definition parse_cursor :: "rstr \<Rightarrow> api_error + rstr \<times> nat" where
  "parse_cursor cursor =
     (case split_once (\<lambda>c. c = c_colon) cursor of
        None \<Rightarrow> Inl (bad_request (lit ''malformed search cursor''))
      | Some (i, off) \<Rightarrow>
          if \<not> valid_id i \<or> blen cursor > 128
          then Inl (bad_request (lit ''malformed search cursor''))
          else (case parse_usize off of
                  None \<Rightarrow> Inl (bad_request (lit ''malformed search cursor offset''))
                | Some n \<Rightarrow> Inr (i, n)))"

definition check_snapshot ::
  "search_env \<Rightarrow> search_api_request \<Rightarrow> u64 \<Rightarrow> nat \<Rightarrow> search_snapshot \<Rightarrow> api_error + unit" where
  "check_snapshot env request now off snapshot =
     (if sp_version snapshot \<noteq> 1 \<or> sp_expires_at_ms snapshot \<le> now
      then Inl (not_found (lit ''search_snapshot_expired'')
        (lit ''search snapshot expired; explicitly start a new search''))
      else if sp_binding snapshot \<noteq> binding env request
      then Inl (bad_request
        (lit ''search cursor does not match workspace/query/path/mode/content/page size''))
      else if off \<ge> length (sr_hits (sp_response snapshot))
      then Inl (bad_request (lit ''search cursor offset is outside the snapshot''))
      else Inr ())"

definition read_at ::
  "search_env \<Rightarrow> search_api_request \<Rightarrow> u64 \<Rightarrow> dir_entry list \<Rightarrow> api_error + search_api_response" where
  "read_at env request now dir =
     (case sq_cursor request of
        None \<Rightarrow> Inl (bad_request (lit ''search cursor is required''))
      | Some cursor \<Rightarrow>
          (case parse_cursor cursor of
             Inl e \<Rightarrow> Inl e
           | Inr (i, off) \<Rightarrow>
               (case read_snapshot (page_file i) dir of
                  None \<Rightarrow> Inl (not_found (lit ''search_snapshot_expired'')
                    (lit ''search snapshot is unavailable or expired; explicitly start a new search''))
                | Some None \<Rightarrow> Inl (bad_request (lit ''search snapshot is invalid''))
                | Some (Some snapshot) \<Rightarrow>
                    (case check_snapshot env request now off snapshot of
                       Inl e \<Rightarrow> Inl e
                     | Inr _ \<Rightarrow> page snapshot i off (sq_limit request)))))"

section \<open>Cursors\<close>

lemma split_once_append:
  "list_all (\<lambda>x. \<not> P x) a \<Longrightarrow> P c \<Longrightarrow> split_once P (a @ c # b) = Some (a, b)"
  by (induction a) auto

lemma valid_id_no_colon: "valid_id i \<Longrightarrow> list_all (\<lambda>c. c \<noteq> c_colon) i"
  by (auto simp: valid_id_def list_all_iff is_ascii_hexdigit_def is_ascii_digit_def)

lemma parse_cursor_show:
  assumes "valid_id i" and "n < 2 ^ 64"
  shows "parse_cursor (i @ [c_colon] @ show_nat n) = Inr (i, n)"
proof -
  have "split_once (\<lambda>c. c = c_colon) (i @ c_colon # show_nat n) = Some (i, show_nat n)"
    using valid_id_no_colon [OF assms(1)] by (intro split_once_append) auto
  moreover have "blen (i @ [c_colon] @ show_nat n) \<le> 128"
    using assms length_show_64 [OF assms(2)] blen_show [of n]
    by (simp add: valid_id_def len_simps len_utf8_ascii)
  ultimately show ?thesis using assms parse_show [OF assms(2)] by (simp add: parse_cursor_def)
qed

lemma page_Inr:
  assumes "page snapshot i off limit = Inr r"
  defines "hits \<equiv> sr_hits (sp_response snapshot)"
  shows "0 < limit \<and> sr_hits r = take limit (drop off hits) \<and>
    (\<exists>p. sr_page r = Some p \<and> pg_next_cursor p =
      (if off + limit < length hits then Some (i @ [c_colon] @ show_nat (off + limit)) else None))"
  using assms by (auto simp: page_def Let_def split: if_splits)

section \<open>Snapshots as readers\<close>

definition snapshot_hits :: "rstr \<Rightarrow> dir_entry list \<Rightarrow> search_hit list" where
  "snapshot_hits i dir =
     (case read_snapshot (page_file i) dir of
        Some (Some snapshot) \<Rightarrow> sr_hits (sp_response snapshot) | _ \<Rightarrow> [])"

text \<open>A client's view of the cursors of a snapshot. A vector has fewer than \<open>2 ^ 64\<close> elements.\<close>

definition search_reader ::
  "search_env \<Rightarrow> search_api_request \<Rightarrow> u64 \<Rightarrow> rstr \<Rightarrow> dir_entry list \<Rightarrow> (api_error, search_hit) reader" where
  "search_reader env request now i dir off =
     (if off \<ge> 2 ^ 64 \<or> length (snapshot_hits i dir) \<ge> 2 ^ 64 \<or> \<not> valid_id i
      then Inl (bad_request (lit ''malformed search cursor''))
      else case read_at env (request\<lparr>sq_cursor := Some (i @ [c_colon] @ show_nat off)\<rparr>) now dir of
        Inl e \<Rightarrow> Inl e
      | Inr r \<Rightarrow> Inr (sr_hits r,
          case Option.bind (sr_page r) pg_next_cursor of
            None \<Rightarrow> None
          | Some cursor \<Rightarrow> (case parse_cursor cursor of Inr (_, n) \<Rightarrow> Some n | Inl _ \<Rightarrow> None)))"

lemma read_at_cursor:
  assumes "valid_id i" and "off < 2 ^ 64"
  shows "read_at env (request\<lparr>sq_cursor := Some (i @ [c_colon] @ show_nat off)\<rparr>) now dir =
    (case read_snapshot (page_file i) dir of
       None \<Rightarrow> Inl (not_found (lit ''search_snapshot_expired'')
         (lit ''search snapshot is unavailable or expired; explicitly start a new search''))
     | Some None \<Rightarrow> Inl (bad_request (lit ''search snapshot is invalid''))
     | Some (Some snapshot) \<Rightarrow>
         (case check_snapshot env request now off snapshot of
            Inl e \<Rightarrow> Inl e
          | Inr _ \<Rightarrow> page snapshot i off (sq_limit request)))"
  using parse_cursor_show [OF assms]
  by (simp add: read_at_def check_snapshot_def binding_def cong: option.case_cong sum.case_cong if_cong)

lemma search_reader_Inr:
  assumes "search_reader env request now i dir off = Inr (xs, nxt)"
  defines "hits \<equiv> snapshot_hits i dir"
  shows "xs = take (sq_limit request) (drop off hits) \<and> 0 < sq_limit request \<and> off < length hits \<and>
    nxt = (if off + sq_limit request < length hits then Some (off + sq_limit request) else None)"
proof -
  from assms(1) have g: "off < 2 ^ 64" "length hits < 2 ^ 64" "valid_id i"
    by (auto simp: search_reader_def hits_def split: if_splits)
  let ?cursor = "i @ [c_colon] @ show_nat off"
  from assms(1) obtain r where rd: "read_at env (request\<lparr>sq_cursor := Some ?cursor\<rparr>) now dir = Inr r"
    and x: "xs = sr_hits r" "nxt = (case Option.bind (sr_page r) pg_next_cursor of
            None \<Rightarrow> None
          | Some cursor \<Rightarrow> (case parse_cursor cursor of Inr (_, n) \<Rightarrow> Some n | Inl _ \<Rightarrow> None))"
    by (auto simp: search_reader_def split: sum.splits if_splits)
  from rd obtain snapshot where sn: "read_snapshot (page_file i) dir = Some (Some snapshot)"
    and ck: "check_snapshot env request now off snapshot = Inr ()"
    and pg: "page snapshot i off (sq_limit request) = Inr r"
    unfolding read_at_cursor [OF g(3,1)] by (auto split: sum.splits option.splits)
  have h: "hits = sr_hits (sp_response snapshot)" by (simp add: hits_def snapshot_hits_def sn)
  have "off < length hits" using ck by (auto simp: check_snapshot_def h split: if_splits)
  moreover note page_Inr [OF pg, folded h]
  ultimately show ?thesis using x g parse_cursor_show [OF g(3)] by auto
qed

interpretation search_pages: paged_reader
  "search_reader env request now i dir" "snapshot_hits i dir" for env request now i dir
proof unfold_locales
  fix off xs nxt
  assume "search_reader env request now i dir off = Inr (xs, nxt)"
  note r = search_reader_Inr [OF this]
  then show "xs = take (length xs) (drop off (snapshot_hits i dir))" by (simp add: min_def)
  show "off < length (snapshot_hits i dir) \<Longrightarrow> xs \<noteq> []" using r by auto
  show "nxt = (if off + length xs < length (snapshot_hits i dir) then Some (off + length xs) else None)"
    using r by (auto simp: min_def)
qed

section \<open>Capacity\<close>

abbreviation is_snapshot :: "dir_entry \<Rightarrow> bool" where
  "is_snapshot e \<equiv> entry_id e \<noteq> None"

definition snapshot_bytes :: "dir_entry list \<Rightarrow> nat" where
  "snapshot_bytes dir = sum_list (map (unat \<circ> de_len) (filter is_snapshot dir))"

definition within_capacity :: "dir_entry list \<Rightarrow> bool" where
  "within_capacity dir \<longleftrightarrow>
     length (filter is_snapshot dir) \<le> max_snapshots \<and> snapshot_bytes dir \<le> unat max_total_bytes"

lemma scan_entry_kinds:
  "scan_entry now index e = ScanSkip \<Longrightarrow> \<not> is_snapshot e"
  "scan_entry now index e = ScanCount \<Longrightarrow> is_snapshot e"
  by (auto simp: scan_entry_def split: if_splits option.splits)

lemma scan_directory_counts:
  "scan_directory now index dir records bytes = (kept, Inr (n, total_bytes)) \<Longrightarrow>
   n = records + length (filter is_snapshot kept) \<and>
   unat total_bytes = min (unat bytes + snapshot_bytes kept) (2 ^ 64 - 1)"
proof (induction dir arbitrary: index records bytes kept)
  case Nil
  then show ?case using unat_less [of bytes] by (simp add: snapshot_bytes_def)
next
  case (Cons e es)
  show ?case
  proof (cases "scan_entry now index e")
    case ScanSkip
    with Cons scan_entry_kinds(1) [OF ScanSkip] show ?thesis
      by (fastforce simp: snapshot_bytes_def split: prod.splits)
  next
    case ScanCount
    with Cons.prems obtain k where k: "kept = e # k"
      "scan_directory now (index + 1) es (records + 1) (saturating_add bytes (de_len e)) = (k, Inr (n, total_bytes))"
      by (auto split: prod.splits)
    from Cons.IH [OF k(2)] scan_entry_kinds(2) [OF ScanCount] k(1) show ?thesis
      by (auto simp: snapshot_bytes_def unat_saturating_add min_def)
  qed (use Cons in auto)
qed

lemma snapshot_bytes_filter:
  "length (filter is_snapshot (filter P dir)) \<le> length (filter is_snapshot dir) \<and>
   snapshot_bytes (filter P dir) \<le> snapshot_bytes dir"
  by (induction dir) (auto simp: snapshot_bytes_def)

lemma scan_directory_kept:
  "scan_directory now index dir records bytes = (kept, r) \<Longrightarrow>
   length (filter is_snapshot kept) \<le> length (filter is_snapshot dir) \<and> snapshot_bytes kept \<le> snapshot_bytes dir"
proof (induction dir arbitrary: index records bytes kept)
  case (Cons e es)
  have head: "kept = e # es \<or>
      (\<exists>k recs b. scan_directory now (index + 1) es recs b = (k, r) \<and> (kept = k \<or> kept = e # k))"
    using Cons.prems by (auto split: scan_result.splits prod.splits)
  then show ?case
  proof (elim disjE exE conjE)
    fix k recs b assume k: "scan_directory now (index + 1) es recs b = (k, r)"
    show "kept = k \<Longrightarrow> ?thesis" "kept = e # k \<Longrightarrow> ?thesis"
      using Cons.IH [OF k] by (auto simp: snapshot_bytes_def)
  qed simp
qed simp

section \<open>Properties\<close>

lemma publish_at_Inr:
  assumes "publish_at env io request response now dir = (dir', Inr first)"
  obtains kept records bytes snapshot where
    "snapshot = \<lparr>sp_version = 1, sp_binding = binding env request,
       sp_expires_at_ms = saturating_add now search_ttl_ms, sp_response = response\<rparr>"
    "scan_directory now 0 dir 0 (se_bytes env snapshot) = (kept, Inr (records, bytes))"
    "records < max_snapshots" "bytes \<le> max_total_bytes" "se_bytes env snapshot \<le> max_snapshot_bytes"
    "dir' = filter (\<lambda>e. de_name e \<noteq> page_file (si_id io)) kept @ [new_entry env now (si_id io) snapshot]"
    "page snapshot (si_id io) 0 (sq_limit request) = Inr first"
  using assms by (auto simp: publish_at_def Let_def not_le not_less split: if_splits prod.splits sum.splits)

text \<open>Publication keeps the private store within its limits: after a successful publication there
  are at most 128 snapshots of at most 64 MiB together, whatever was in the directory, and a failed
  one leaves no more than there was.\<close>

lemma publish_within_capacity:
  assumes "publish_at env io request response now dir = (dir', r)"
  shows "case r of
      Inr _ \<Rightarrow> within_capacity dir'
    | Inl e \<Rightarrow> sq_limit request = 0 \<or> sq_limit request > 100 \<or>
        length (filter is_snapshot dir') \<le> length (filter is_snapshot dir) \<and>
        snapshot_bytes dir' \<le> snapshot_bytes dir"
proof (cases r)
  case (Inr first)
  obtain kept records bytes snapshot where
    sc: "scan_directory now 0 dir 0 (se_bytes env snapshot) = (kept, Inr (records, bytes))"
    and lim: "records < max_snapshots" "bytes \<le> max_total_bytes"
    and dir': "dir' = filter (\<lambda>e. de_name e \<noteq> page_file (si_id io)) kept @ [new_entry env now (si_id io) snapshot]"
    using publish_at_Inr [OF assms [unfolded Inr]] by metis
  note c = scan_directory_counts [OF sc]
  note f = snapshot_bytes_filter [of "\<lambda>e. de_name e \<noteq> page_file (si_id io)" kept]
  have "unat bytes \<le> unat max_total_bytes" "unat max_total_bytes < 2 ^ 64 - 1"
    using lim(2) by (simp_all add: word_le_nat_alt max_total_bytes_def)
  with c have "unat (se_bytes env snapshot) + snapshot_bytes kept \<le> unat max_total_bytes"
    by (auto simp: min_def split: if_splits)
  moreover have "snapshot_bytes dir' \<le> snapshot_bytes (filter (\<lambda>e. de_name e \<noteq> page_file (si_id io)) kept) +
      unat (se_bytes env snapshot)"
    by (simp add: dir' snapshot_bytes_def new_entry_def)
  ultimately have "snapshot_bytes dir' \<le> unat max_total_bytes" using f by linarith
  moreover have "length (filter is_snapshot dir') \<le> max_snapshots" using c lim(1) f by (simp add: dir')
  ultimately show ?thesis by (simp add: Inr within_capacity_def)
next
  case (Inl e)
  show ?thesis
  proof (cases "sq_limit request = 0 \<or> sq_limit request > 100")
    case False
    then have "page snapshot i off (sq_limit request) \<noteq> Inl e" for snapshot i off
      by (simp add: page_def Let_def snapshot_hits_limit_def)
    moreover define snapshot where "snapshot = \<lparr>sp_version = 1, sp_binding = binding env request,
       sp_expires_at_ms = saturating_add now search_ttl_ms, sp_response = response\<rparr>"
    moreover obtain kept x where sc: "scan_directory now 0 dir 0 (se_bytes env snapshot) = (kept, x)"
      by fastforce
    ultimately have "dir' = dir \<or> dir' = kept"
      using assms unfolding Inl publish_at_def Let_def snapshot_def [symmetric]
      by (cases x) (simp_all split: if_splits prod.splits)
    with Inl scan_directory_kept [OF sc] show ?thesis by auto
  qed (auto simp: Inl)
qed

text \<open>C17: A snapshot is read completely and unchanged: after a publication, a client that follows the
  cursors before the snapshot expires gets exactly the hits that were published, in order.\<close>

theorem search_pages_reassemble:
  assumes "publish_at env io request response now dir = (dir', Inr first)" and "valid_id (si_id io)"
    and "later < saturating_add now search_ttl_ms"
    and "sr_hits response \<noteq> []" and "length (sr_hits response) < 2 ^ 64"
    and "length (sr_hits response) < fuel"
  shows "fetch_pages (search_reader env request later (si_id io) dir') fuel 0 = Some (Inr (sr_hits response)) \<and>
    sr_hits first = take (sq_limit request) (sr_hits response)"
proof -
  obtain kept snapshot where
    sn: "snapshot = \<lparr>sp_version = 1, sp_binding = binding env request,
       sp_expires_at_ms = saturating_add now search_ttl_ms, sp_response = response\<rparr>"
    and small: "se_bytes env snapshot \<le> max_snapshot_bytes"
    and dir': "dir' = filter (\<lambda>e. de_name e \<noteq> page_file (si_id io)) kept @ [new_entry env now (si_id io) snapshot]"
    and pg: "page snapshot (si_id io) 0 (sq_limit request) = Inr first"
    using publish_at_Inr [OF assms(1)] by metis
  let ?i = "si_id io" and ?hits = "sr_hits response"
  have "List.find (\<lambda>e. de_name e = page_file ?i) dir' = Some (new_entry env now ?i snapshot)"
    unfolding dir' by (induction kept) (auto simp: new_entry_def)
  then have rd: "read_snapshot (page_file ?i) dir' = Some (Some snapshot)"
    using small by (simp add: read_snapshot_def new_entry_def)
  then have h: "snapshot_hits ?i dir' = ?hits" by (simp add: snapshot_hits_def sn)
  have ok: "search_reader env request later ?i dir' off \<noteq> Inl e" if "off < length ?hits" for off e
  proof -
    have o: "off < 2 ^ 64" using that assms(5) by simp
    have ck: "check_snapshot env request later off snapshot = Inr ()"
      using that assms(3) by (simp add: check_snapshot_def sn)
    have "\<exists>r. page snapshot ?i off (sq_limit request) = Inr r"
      using pg by (auto simp: page_def Let_def split: if_splits)
    then obtain r where "read_at env (request\<lparr>sq_cursor := Some (?i @ [c_colon] @ show_nat off)\<rparr>) later dir' = Inr r"
      unfolding read_at_cursor [OF assms(2) o] rd by (auto simp: ck)
    then show ?thesis using o assms(2,5) by (simp add: search_reader_def h)
  qed
  let ?reader = "search_reader env request later ?i dir'"
  obtain r where r: "fetch_pages ?reader fuel 0 = Some r"
    using search_pages.fetch_ends [where off = 0 and fuel = fuel] assms(6) h by fastforce
  moreover have "r = Inr xs \<Longrightarrow> xs = ?hits" for xs
    using search_pages.fetch_reassembles [where off = 0 and fuel = fuel] r h by fastforce
  moreover have "r \<noteq> Inl e" for e
    using search_pages.fetch_total [where fuel = fuel and e = e] ok r h assms(4,6) by metis
  ultimately have "fetch_pages ?reader fuel 0 = Some (Inr ?hits)" by (cases r) auto
  moreover have "sr_hits first = take (sq_limit request) ?hits" using page_Inr [OF pg] by (simp add: sn)
  ultimately show ?thesis by simp
qed

text \<open>Three hits, pages of two.\<close>

definition sample_hit :: "rstr \<Rightarrow> search_hit" where
  "sample_hit p = \<lparr>sh_path = p, sh_score = 0, sh_matched_lines = 1, sh_snippets = []\<rparr>"

definition sample_response :: search_api_response where
  "sample_response = \<lparr>sr_page = None, sr_query = lit ''q'', sr_path = lit ''src'', sr_total_hits = 3,
     sr_shown_hits = 3, sr_scanned_files = 3, sr_skipped_large = 0, sr_skipped_binary = 0,
     sr_hits = [sample_hit (lit ''a''), sample_hit (lit ''b''), sample_hit (lit ''c'')],
     sr_effective_mode = ExactMode, sr_strategy = ForkRgaiBuiltin, sr_fallback_code = None,
     sr_index_generation = None, sr_fallback_reason = None, sr_next_step = None\<rparr>"

definition sample_search :: search_api_request where
  "sample_search = \<lparr>sq_paginate = True, sq_cursor = None, sq_workspace = lit ''/w'', sq_query = lit ''q'',
     sq_path = None, sq_limit = 2, sq_mode = ExactMode, sq_include_content = False\<rparr>"

definition sample_search_env :: search_env where
  "sample_search_env = \<lparr>se_identity_hash = \<lambda>_. lit ''h'', se_bytes = \<lambda>_. 100\<rparr>"

definition sample_search_io :: search_io where
  "sample_search_io = \<lparr>si_dir_ok = True, si_real_dir = True, si_lock_file_ok = True, si_lock_free = True,
     si_list_ok = True, si_persist_ok = True, si_id = replicate 32 97\<rparr>"

lemma sample_publish:
  "\<exists>dir' first. publish_at sample_search_env sample_search_io sample_search sample_response 5 [] = (dir', Inr first)"
  by (simp add: publish_at_def Let_def sample_search_env_def sample_search_io_def sample_search_def
      max_snapshot_bytes_def max_snapshots_def max_total_bytes_def page_def snapshot_hits_limit_def)

lemma publish_within_capacity_witness:
  "case snd (publish_at sample_search_env sample_search_io sample_search sample_response 5 []) of
     Inr _ \<Rightarrow> within_capacity (fst (publish_at sample_search_env sample_search_io sample_search sample_response 5 []))
   | Inl e \<Rightarrow> False"
proof -
  obtain dir' first where
    p: "publish_at sample_search_env sample_search_io sample_search sample_response 5 [] = (dir', Inr first)"
    using sample_publish by blast
  from publish_within_capacity [OF p] show ?thesis by (simp add: p)
qed

theorem search_pages_reassemble_witness:
  "fetch_pages (search_reader sample_search_env sample_search 6 (replicate 32 97)
      (fst (publish_at sample_search_env sample_search_io sample_search sample_response 5 []))) 4 0 =
    Some (Inr [sample_hit (lit ''a''), sample_hit (lit ''b''), sample_hit (lit ''c'')])"
proof -
  obtain dir' first where
    p: "publish_at sample_search_env sample_search_io sample_search sample_response 5 [] = (dir', Inr first)"
    using sample_publish by blast
  have "valid_id (si_id sample_search_io)" and "6 < saturating_add 5 search_ttl_ms" by code_simp+
  from search_pages_reassemble [OF p this, of 4] show ?thesis
    unfolding p fst_conv by (simp add: sample_response_def sample_search_io_def)
qed

end
