(* ===== verification/Read_Costs.thy ===== *)
theory Read_Costs
  imports Decimal "HOL-Library.Product_Lexorder"
begin

text \<open>
  The cost advice of typed reads (\<open>crates/hzr-daemon/src/read_cost.rs\<close>, with the result types of
  \<open>crates/hzr-protocol/src/api.rs\<close>). For each source a session reads, an episode remembers which lines
  were delivered as a list of spans; from it the advice tells which bytes were repeated and where the
  next missing lines are. Unsigned 64-bit numbers are natural numbers with the saturation written
  out. The lengths of serialized values and the hash of an identity are arguments.
\<close>

section \<open>Types\<close>

definition u64_max :: nat where
  "u64_max = 2 ^ 64 - 1"

definition sat_add :: "nat \<Rightarrow> nat \<Rightarrow> nat" where
  "sat_add a b = min (a + b) u64_max"

definition div_ceil :: "nat \<Rightarrow> nat \<Rightarrow> nat" where
  "div_ceil a b = (a + b - 1) div b"

record read_cost_advice =
  ad_method :: rstr
  ad_requests :: nat
  ad_produced :: nat
  ad_repeated :: nat
  ad_full :: nat
  ad_next_action :: rstr
  ad_next_missing_from :: "nat option"
  ad_next_missing_to :: "nat option"

record read_file_result =
  rf_cost_advice :: "read_cost_advice option"
  rf_path :: rstr
  rf_source_sha256 :: rstr
  rf_source_bytes :: nat
  rf_total_lines :: nat
  rf_from :: nat
  rf_to :: nat
  rf_next_line :: "nat option"
  rf_complete :: bool
  rf_content :: rstr

definition advice_reserve_bytes :: nat where
  "advice_reserve_bytes = 512"

definition max_episodes :: nat where
  "max_episodes = 1024"

definition max_spans :: nat where
  "max_spans = 128"

type_synonym span = "nat \<times> nat"

record episode =
  ep_touched :: instant
  ep_requests :: nat
  ep_produced :: nat
  ep_repeated :: nat
  ep_spans :: "span list"

type_synonym read_costs = "(rstr \<times> episode) list"

record cost_env =
  ce_advice_len :: "read_cost_advice \<Rightarrow> nat"
  ce_file_len :: "read_file_result \<Rightarrow> nat"
  ce_sha256 :: "nat list \<Rightarrow> rstr"

section \<open>JSON lengths\<close>

definition json_byte_len :: "nat \<Rightarrow> nat" where
  "json_byte_len b =
     (if b \<in> {c_dquote, c_backslash, c_newline, c_return, c_tab, 8, 12} then 2
      else if b \<le> 31 then 6 else 1)"

definition source_json_bytes :: "rstr \<Rightarrow> nat" where
  "source_json_bytes source = sum_list (map json_byte_len (as_bytes source))"

section \<open>Lines\<close>

text \<open>One forward pass over the lines and the sorted spans.\<close>

primrec repeated_loop :: "nat \<Rightarrow> rstr list \<Rightarrow> span list \<Rightarrow> nat \<Rightarrow> nat" where
  "repeated_loop number [] spans acc = acc"
| "repeated_loop number (line # lines) spans acc =
     (let rest = dropWhile (\<lambda>s. snd s < number) spans;
          hit = (case rest of [] \<Rightarrow> False | (from_line, to_line) # _ \<Rightarrow> from_line \<le> number \<and> number \<le> to_line)
      in repeated_loop (sat_add number 1) lines rest (if hit then sat_add acc (blen line) else acc))"

section \<open>Spans\<close>

definition push_span :: "span list \<Rightarrow> span \<Rightarrow> span list" where
  "push_span merged s =
     (if merged \<noteq> [] \<and> fst s \<le> sat_add (snd (last merged)) 1
      then butlast merged @ [(fst (last merged), max (snd (last merged)) (snd s))]
      else merged @ [s])"

definition merge_spans :: "span list \<Rightarrow> span list" where
  "merge_spans spans = take max_spans (foldl push_span [] (sort spans))"

primrec missing_loop :: "nat \<Rightarrow> span list \<Rightarrow> nat" where
  "missing_loop m [] = m"
| "missing_loop m (s # spans) =
     (if fst s > m then m else missing_loop (max m (sat_add (snd s) 1)) spans)"

definition next_missing :: "nat \<Rightarrow> span list \<Rightarrow> (nat \<times> nat) option" where
  "next_missing total_lines spans =
     (let m = missing_loop 1 spans
      in if m \<le> total_lines
         then Some (m, case List.find (\<lambda>s. fst s > m) spans of Some s \<Rightarrow> fst s - 1 | None \<Rightarrow> total_lines)
         else None)"

section \<open>Counters\<close>

text \<open>One round of the loop: the two counters computed from the length of the advice that holds the
  present ones.\<close>

definition advice_round ::
  "cost_env \<Rightarrow> nat \<Rightarrow> nat \<Rightarrow> nat \<Rightarrow> nat \<Rightarrow> read_cost_advice \<Rightarrow> read_cost_advice" where
  "advice_round env selected full envelope prior advice =
     (let overhead = ce_advice_len env advice + 15 + envelope
      in advice\<lparr>ad_produced := sat_add prior (div_ceil (sat_add selected overhead) 4),
                ad_full := div_ceil (sat_add full overhead) 4\<rparr>)"

text \<open>A loop that runs until a round changes nothing.\<close>

partial_function (option) settle :: "('a \<Rightarrow> 'a) \<Rightarrow> 'a \<Rightarrow> 'a option" where
  "settle step x = (let y = step x in if y = x then Some x else settle step y)"

definition advice_costs ::
  "cost_env \<Rightarrow> read_cost_advice \<Rightarrow> nat \<Rightarrow> nat \<Rightarrow> nat \<Rightarrow> nat \<Rightarrow> read_cost_advice option" where
  "advice_costs env advice selected full envelope prior =
     settle (advice_round env selected full envelope prior) (advice\<lparr>ad_produced := 0, ad_full := 0\<rparr>)"

section \<open>Observing a read\<close>

definition le_bytes :: "nat \<Rightarrow> nat list" where
  "le_bytes n = map (\<lambda>k. n div 256 ^ k mod 256) [0..<8]"

definition episode_key :: "cost_env \<Rightarrow> rstr list \<Rightarrow> read_file_result \<Rightarrow> rstr" where
  "episode_key env identity rf = ce_sha256 env
     (concat (map (\<lambda>part. le_bytes (blen part) @ as_bytes part) identity) @ as_bytes (rf_source_sha256 rf))"

fun oldest_episode :: "read_costs \<Rightarrow> (rstr \<times> episode) option" where
  "oldest_episode [] = None"
| "oldest_episode (x # xs) =
     (case oldest_episode xs of
        None \<Rightarrow> Some x
      | Some y \<Rightarrow> if ep_touched (snd y) < ep_touched (snd x) then Some y else Some x)"

definition evict_oldest :: "rstr \<Rightarrow> read_costs \<Rightarrow> read_costs" where
  "evict_oldest key eps =
     (if map_of eps key = None \<and> length eps \<ge> max_episodes
      then (case oldest_episode eps of
              Some (k, _) \<Rightarrow> filter (\<lambda>e. fst e \<noteq> k) eps
            | None \<Rightarrow> eps)
      else eps)"

definition new_episode :: "instant \<Rightarrow> episode" where
  "new_episode now = \<lparr>ep_touched = now, ep_requests = 0, ep_produced = 0, ep_repeated = 0, ep_spans = []\<rparr>"

text \<open>What an episode becomes when a file range is delivered, before the counters.\<close>

definition observe_episode :: "instant \<Rightarrow> read_file_result \<Rightarrow> episode \<Rightarrow> episode" where
  "observe_episode now rf ep =
     (let repeated_bytes = repeated_loop (rf_from rf) (split_inclusive (rf_content rf)) (ep_spans ep) 0
      in ep\<lparr>ep_requests := sat_add (ep_requests ep) 1,
            ep_repeated := sat_add (ep_repeated ep) (div_ceil repeated_bytes 4),
            ep_touched := now,
            ep_spans := (if rf_from rf \<le> rf_to rf
                         then merge_spans (ep_spans ep @ [(rf_from rf, rf_to rf)]) else ep_spans ep)\<rparr>)"

definition full_result :: "read_file_result \<Rightarrow> read_file_result" where
  "full_result rf = rf\<lparr>rf_from := 1, rf_to := rf_total_lines rf, rf_next_line := None, rf_complete := True,
     rf_content := [], rf_cost_advice := None\<rparr>"

definition first_advice :: "read_file_result \<Rightarrow> episode \<Rightarrow> read_cost_advice" where
  "first_advice rf ep =
     (let missing = next_missing (rf_total_lines rf) (ep_spans ep)
      in \<lparr>ad_method = lit ''produced_utf8_bytes_div_4_advisory_v2'', ad_requests = ep_requests ep,
          ad_produced = 0, ad_repeated = ep_repeated ep, ad_full = 0,
          ad_next_action = (if missing = None then lit ''complete'' else lit ''read_remaining''),
          ad_next_missing_from = map_option fst missing, ad_next_missing_to = map_option snd missing\<rparr>)"

definition final_advice ::
  "cost_env \<Rightarrow> read_file_result \<Rightarrow> nat \<Rightarrow> nat \<Rightarrow> episode \<Rightarrow> read_cost_advice option" where
  "final_advice env rf full_source_json_bytes envelope_bytes ep =
     (let selected = ce_file_len env rf;
          full = sat_add (ce_file_len env (full_result rf)) full_source_json_bytes;
          costs = (\<lambda>a. advice_costs env a selected full envelope_bytes (ep_produced ep))
      in case costs (first_advice rf ep) of
           None \<Rightarrow> None
         | Some advice \<Rightarrow>
             if ad_next_missing_from advice \<noteq> None \<and>
                (ep_requests ep \<le> 1 \<or> ad_produced advice < ad_full advice)
             then costs (advice\<lparr>ad_next_action := lit ''continue_if_needed''\<rparr>)
             else Some advice)"

definition observe ::
  "cost_env \<Rightarrow> instant \<Rightarrow> rstr list \<Rightarrow> read_file_result \<Rightarrow> nat \<Rightarrow> nat \<Rightarrow> read_costs \<Rightarrow>
   (read_costs \<times> read_cost_advice) option" where
  "observe env now identity rf full_source_json_bytes envelope_bytes eps0 =
     (let key = episode_key env identity rf;
          eps = evict_oldest key eps0;
          ep = observe_episode now rf (case map_of eps key of Some e \<Rightarrow> e | None \<Rightarrow> new_episode now)
      in case final_advice env rf full_source_json_bytes envelope_bytes ep of
           None \<Rightarrow> None
         | Some advice \<Rightarrow>
             Some (filter (\<lambda>e. fst e \<noteq> key) eps @ [(key, ep\<lparr>ep_produced := ad_produced advice\<rparr>)], advice))"

section \<open>Spans as sets of lines\<close>

text \<open>The abstraction of a span list is the set of lines it covers; the lists the code keeps are
  ordered, with a gap between any two spans.\<close>

definition lines_of :: "span list \<Rightarrow> nat set" where
  "lines_of spans = {n. \<exists>s \<in> set spans. fst s \<le> n \<and> n \<le> snd s}"

definition separated :: "span list \<Rightarrow> bool" where
  "separated spans \<longleftrightarrow> sorted_wrt (\<lambda>a b. snd a + 1 < fst b) spans \<and>
     (\<forall>s \<in> set spans. fst s \<le> snd s \<and> snd s \<le> u64_max)"

lemma lines_of_simps [simp]:
  "lines_of [] = {}" "lines_of (s # spans) = {fst s..snd s} \<union> lines_of spans"
  "lines_of (spans @ spans') = lines_of spans \<union> lines_of spans'"
  by (auto simp: lines_of_def)

lemma lines_of_perm: "set xs = set ys \<Longrightarrow> lines_of xs = lines_of ys"
  by (simp add: lines_of_def)

lemma separated_simps [simp]:
  "separated []"
  "separated (s # spans) \<longleftrightarrow> fst s \<le> snd s \<and> snd s \<le> u64_max \<and>
     (\<forall>t \<in> set spans. snd s + 1 < fst t) \<and> separated spans"
  by (auto simp: separated_def)

lemma separated_snoc:
  "separated (spans @ [s]) \<longleftrightarrow> separated spans \<and> fst s \<le> snd s \<and> snd s \<le> u64_max \<and>
     (\<forall>t \<in> set spans. snd t + 1 < fst s)"
  by (auto simp: separated_def sorted_wrt_append)

lemma separated_last:
  assumes "separated spans" "spans \<noteq> []" "t \<in> set (butlast spans)"
  shows "snd t + 1 < fst (last spans)"
  using assms by (metis append_butlast_last_id separated_snoc)

lemma push_span_correct:
  assumes m: "separated merged" and s: "fst s \<le> snd s" "snd s \<le> u64_max"
    and le: "merged \<noteq> [] \<Longrightarrow> fst (last merged) \<le> fst s"
  shows "separated (push_span merged s) \<and> lines_of (push_span merged s) = lines_of merged \<union> {fst s..snd s} \<and>
    push_span merged s \<noteq> [] \<and> fst (last (push_span merged s)) \<le> fst s"
proof (cases "merged \<noteq> [] \<and> fst s \<le> sat_add (snd (last merged)) 1")
  case True
  define xs l where "xs = butlast merged" and "l = last merged"
  have ml: "merged = xs @ [l]" using True by (simp add: xs_def l_def)
  have l: "fst l \<le> snd l" "snd l \<le> u64_max" "\<forall>t \<in> set xs. snd t + 1 < fst l" "separated xs" "fst l \<le> fst s"
    using m le unfolding ml by (auto simp: separated_snoc)
  have p: "push_span merged s = xs @ [(fst l, max (snd l) (snd s))]" using True by (simp add: push_span_def ml)
  have "fst s \<le> snd l + 1" using True by (simp add: ml sat_add_def)
  with l have "{fst l..max (snd l) (snd s)} = {fst l..snd l} \<union> {fst s..snd s}"
    by (auto simp: max_def)
  with l s show ?thesis unfolding p by (auto simp: separated_snoc ml)
next
  case False
  then have p: "push_span merged s = merged @ [s]" by (auto simp: push_span_def)
  have "snd t + 1 < fst s" if t: "t \<in> set merged" for t
  proof -
    from t have ne: "merged \<noteq> []" by auto
    have l: "fst (last merged) \<le> snd (last merged)" "snd (last merged) \<le> u64_max"
      using m ne by (auto simp: separated_def)
    have "snd (last merged) + 1 < fst s"
      using False ne s l by (auto simp: sat_add_def min_def split: if_splits)
    moreover have "t = last merged \<or> t \<in> set (butlast merged)"
      using t ne by (metis append_butlast_last_id in_set_conv_decomp rotate1.simps(2) set_ConsD set_rotate1)
    ultimately show ?thesis using separated_last [OF m ne] l by fastforce
  qed
  with m s show ?thesis unfolding p by (auto simp: separated_snoc)
qed

lemma fold_push_correct:
  assumes "sorted spans" and "\<forall>s \<in> set spans. fst s \<le> snd s \<and> snd s \<le> u64_max"
    and "separated merged" and "merged \<noteq> [] \<Longrightarrow> \<forall>s \<in> set spans. fst (last merged) \<le> fst s"
  shows "separated (foldl push_span merged spans) \<and>
    lines_of (foldl push_span merged spans) = lines_of merged \<union> lines_of spans"
  using assms
proof (induction spans arbitrary: merged)
  case (Cons s spans)
  from Cons.prems have p: "separated (push_span merged s)"
    "lines_of (push_span merged s) = lines_of merged \<union> {fst s..snd s}"
    "fst (last (push_span merged s)) \<le> fst s"
    using push_span_correct [of merged s] by auto
  have "fst s \<le> fst t" if "t \<in> set spans" for t
    using Cons.prems(1) that by (auto simp: less_eq_prod_def)
  with p(3) have "\<forall>t \<in> set spans. fst (last (push_span merged s)) \<le> fst t" using order_trans by blast
  with Cons.IH [of "push_span merged s"] Cons.prems p show ?case by auto
qed simp

lemma separated_take: "separated spans \<Longrightarrow> separated (take n spans)"
  by (auto simp: separated_def sorted_wrt_take dest: in_set_takeD)

text \<open>Merging refines adding a range to a set of lines, up to the bound on the number of spans.\<close>

lemma merge_spans_refines:
  assumes "separated spans" and "f \<le> t" and "t \<le> u64_max"
  shows "separated (merge_spans (spans @ [(f, t)])) \<and>
    lines_of (merge_spans (spans @ [(f, t)])) \<subseteq> lines_of spans \<union> {f..t} \<and>
    (length (merge_spans (spans @ [(f, t)])) < max_spans \<longrightarrow>
       lines_of (merge_spans (spans @ [(f, t)])) = lines_of spans \<union> {f..t})"
proof -
  let ?xs = "sort (spans @ [(f, t)])" and ?all = "foldl push_span [] (sort (spans @ [(f, t)]))"
  have "lines_of ?xs = lines_of (spans @ [(f, t)])" by (rule lines_of_perm) simp
  moreover have "\<forall>s \<in> set ?xs. fst s \<le> snd s \<and> snd s \<le> u64_max" using assms by (auto simp: separated_def)
  ultimately have all: "separated ?all" "lines_of ?all = lines_of spans \<union> {f..t}"
    using fold_push_correct [of ?xs "[]"] by auto
  have "lines_of (take n ?all) \<subseteq> lines_of ?all" for n by (auto simp: lines_of_def dest: in_set_takeD)
  with all show ?thesis by (auto simp: merge_spans_def separated_take)
qed

section \<open>Repeated lines\<close>

text \<open>The bytes of the lines, numbered from a start, that lie in a set.\<close>

primrec bytes_in :: "nat set \<Rightarrow> nat \<Rightarrow> rstr list \<Rightarrow> nat" where
  "bytes_in C number [] = 0"
| "bytes_in C number (line # lines) = (if number \<in> C then blen line else 0) + bytes_in C (number + 1) lines"

lemma lines_of_dropWhile:
  "number \<le> n \<Longrightarrow> n \<in> lines_of (dropWhile (\<lambda>s. snd s < number) spans) \<longleftrightarrow> n \<in> lines_of spans"
  by (induction spans) auto

lemma separated_dropWhile: "separated spans \<Longrightarrow> separated (dropWhile P spans)"
  by (induction spans) auto

lemma separated_hit:
  assumes "separated spans" and "spans \<noteq> [] \<Longrightarrow> number \<le> snd (hd spans)"
  shows "(case spans of [] \<Rightarrow> False | (a, b) # _ \<Rightarrow> a \<le> number \<and> number \<le> b) \<longleftrightarrow> number \<in> lines_of spans"
proof (cases spans)
  case (Cons s rest)
  have "number \<notin> lines_of rest"
    using assms Cons by (fastforce simp: lines_of_def)
  then show ?thesis using Cons by (auto split: prod.splits)
qed simp

lemma repeated_loop_counts:
  assumes "separated spans" and "number + length lines \<le> u64_max" and "acc \<le> u64_max"
    and "\<And>n. number \<le> n \<Longrightarrow> n \<in> lines_of spans \<longleftrightarrow> n \<in> C"
  shows "repeated_loop number lines spans acc = sat_add acc (bytes_in C number lines)"
  using assms
proof (induction lines arbitrary: number spans acc)
  case Nil
  then show ?case by (simp add: sat_add_def)
next
  case (Cons line lines)
  let ?rest = "dropWhile (\<lambda>s. snd s < number) spans"
  have hd: "?rest \<noteq> [] \<Longrightarrow> number \<le> snd (hd ?rest)" using hd_dropWhile [of "\<lambda>s. snd s < number"] by fastforce
  have hit: "(case ?rest of [] \<Rightarrow> False | (a, b) # _ \<Rightarrow> a \<le> number \<and> number \<le> b) \<longleftrightarrow> number \<in> C"
    using separated_hit [OF separated_dropWhile [OF Cons.prems(1)] hd] Cons.prems(4)
    by (simp add: lines_of_dropWhile)
  have nx: "sat_add number 1 = number + 1" using Cons.prems(2) by (simp add: sat_add_def)
  have "repeated_loop (number + 1) lines ?rest a = sat_add a (bytes_in C (number + 1) lines)" if "a \<le> u64_max" for a
    using Cons.prems that by (intro Cons.IH separated_dropWhile) (auto simp: lines_of_dropWhile)
  then show ?case using Cons.prems(3) 
    by (simp add: hit nx [unfolded One_nat_def] Let_def) (auto simp: sat_add_def)
qed

section \<open>Missing lines\<close>

lemma missing_loop_correct:
  assumes "separated spans" and "\<forall>s \<in> set spans. snd s < u64_max"
  shows "m \<le> missing_loop m spans \<and> missing_loop m spans \<notin> lines_of spans \<and>
    {m..<missing_loop m spans} \<subseteq> lines_of spans"
  using assms
proof (induction spans arbitrary: m)
  case (Cons s spans)
  show ?case
  proof (cases "fst s > m")
    case True
    have "m \<notin> lines_of spans" using Cons.prems(1) True by (fastforce simp: lines_of_def)
    with True show ?thesis by simp
  next
    case False
    let ?m = "max m (snd s + 1)"
    have sat: "sat_add (snd s) 1 = snd s + 1" using Cons.prems(2) by (simp add: sat_add_def)
    from Cons.IH [of ?m] Cons.prems have ih: "?m \<le> missing_loop ?m spans"
      "missing_loop ?m spans \<notin> lines_of spans" "{?m..<missing_loop ?m spans} \<subseteq> lines_of spans" by auto
    have "{m..<missing_loop ?m spans} \<subseteq> {fst s..snd s} \<union> lines_of spans"
    proof
      fix n assume n: "n \<in> {m..<missing_loop ?m spans}"
      show "n \<in> {fst s..snd s} \<union> lines_of spans"
      proof (cases "n \<le> snd s")
        case False
        with n ih(3) show ?thesis by (auto simp: subset_iff)
      qed (use n \<open>\<not> fst s > m\<close> in simp)
    qed
    with ih False show ?thesis by (simp add: sat [unfolded One_nat_def])
  qed
qed simp

lemma find_gap:
  assumes "separated spans" and "m \<notin> lines_of spans"
  shows "case List.find (\<lambda>s. fst s > m) spans of
      None \<Rightarrow> \<forall>n \<ge> m. n \<notin> lines_of spans
    | Some s \<Rightarrow> m < fst s \<and> fst s \<in> lines_of spans \<and> (\<forall>n. m \<le> n \<and> n < fst s \<longrightarrow> n \<notin> lines_of spans)"
  using assms
proof (induction spans)
  case (Cons s spans)
  show ?case
  proof (cases "fst s > m")
    case True
    have "\<forall>t \<in> set spans. fst s < fst t" using Cons.prems(1) by fastforce
    then have "\<forall>n < fst s. n \<notin> lines_of spans" by (fastforce simp: lines_of_def)
    with True Cons.prems show ?thesis by auto
  next
    case False
    with Cons.prems have "snd s < m" by auto
    with Cons False show ?thesis by (auto split: option.splits)
  qed
qed simp

section \<open>The counters converge\<close>

text \<open>Serialized numbers are decimal: the counters add their digits to the length of the advice.\<close>

definition decimal_counters :: "cost_env \<Rightarrow> bool" where
  "decimal_counters env \<longleftrightarrow>
     (\<forall>a p f. ce_advice_len env (a\<lparr>ad_produced := p, ad_full := f\<rparr>) + 2 =
        ce_advice_len env (a\<lparr>ad_produced := 0, ad_full := 0\<rparr>) + length (show_nat p) + length (show_nat f))"

definition counter_digits :: "read_cost_advice \<Rightarrow> nat" where
  "counter_digits a = length (show_nat (ad_produced a)) + length (show_nat (ad_full a))"

lemma sat_add_mono: "b \<le> c \<Longrightarrow> sat_add a b \<le> sat_add a c"
  by (simp add: sat_add_def min_def)

lemma div_ceil_mono: "a \<le> b \<Longrightarrow> div_ceil a c \<le> div_ceil b c"
  by (simp add: div_ceil_def div_le_mono)

lemma advice_len_digits:
  assumes "decimal_counters env"
  shows "ce_advice_len env a + 2 =
    ce_advice_len env (a\<lparr>ad_produced := 0, ad_full := 0\<rparr>) + counter_digits a"
proof -
  have "a\<lparr>ad_produced := ad_produced a, ad_full := ad_full a\<rparr> = a" by simp
  then show ?thesis using assms unfolding decimal_counters_def counter_digits_def by (metis add.assoc)
qed

lemma advice_round_mono:
  assumes env: "decimal_counters env"
    and base: "a\<lparr>ad_produced := 0, ad_full := 0\<rparr> = b\<lparr>ad_produced := 0, ad_full := 0\<rparr>"
    and "counter_digits a \<le> counter_digits b"
  shows "counter_digits (advice_round env selected full envelope prior a) \<le>
    counter_digits (advice_round env selected full envelope prior b)"
proof -
  have "ce_advice_len env a \<le> ce_advice_len env b"
    using advice_len_digits [OF env, of a] advice_len_digits [OF env, of b] base assms(3) by simp
  then show ?thesis
    unfolding counter_digits_def advice_round_def Let_def
    by (auto intro!: add_mono length_show_mono sat_add_mono div_ceil_mono)
qed

lemma advice_round_same:
  assumes env: "decimal_counters env"
    and base: "a\<lparr>ad_produced := 0, ad_full := 0\<rparr> = b\<lparr>ad_produced := 0, ad_full := 0\<rparr>"
    and "counter_digits a = counter_digits b"
  shows "advice_round env selected full envelope prior a = advice_round env selected full envelope prior b"
proof -
  have "ce_advice_len env a = ce_advice_len env b"
    using advice_len_digits [OF env, of a] advice_len_digits [OF env, of b] base assms(3) by simp
  moreover have "a\<lparr>ad_produced := p, ad_full := f\<rparr> = b\<lparr>ad_produced := p, ad_full := f\<rparr>" for p f
    using base by (cases a; cases b) simp
  ultimately show ?thesis by (simp add: advice_round_def Let_def)
qed

lemma advice_round_digits: "counter_digits (advice_round env selected full envelope prior a) \<le> 40"
proof -
  have "sat_add x y < 2 ^ 64" for x y by (simp add: sat_add_def u64_max_def)
  moreover have "div_ceil (sat_add x y) 4 < 2 ^ 64" for x y
    by (auto simp: div_ceil_def sat_add_def u64_max_def min_def)
  ultimately show ?thesis
    unfolding counter_digits_def advice_round_def Let_def
    using length_show_64 by (simp add: add_mono [of _ 20 _ 20, simplified])
qed

lemma advice_round_base [simp]:
  "(advice_round env selected full envelope prior a)\<lparr>ad_produced := p, ad_full := f\<rparr> =
   a\<lparr>ad_produced := p, ad_full := f\<rparr>"
  by (simp add: advice_round_def Let_def)

text \<open>Rounds that depend on the width of their counters only, and grow with it, settle.\<close>

lemma settle_returns:
  fixes step :: "'a \<Rightarrow> 'a" and width :: "'a \<Rightarrow> nat"
  assumes keep: "\<And>x. ok x \<Longrightarrow> ok (step x)"
    and mono: "\<And>x y. ok x \<Longrightarrow> ok y \<Longrightarrow> width x \<le> width y \<Longrightarrow> width (step x) \<le> width (step y)"
    and same: "\<And>x y. ok x \<Longrightarrow> ok y \<Longrightarrow> width x = width y \<Longrightarrow> step x = step y"
    and bound: "\<And>x. ok x \<Longrightarrow> width (step x) \<le> n"
  shows "ok x \<Longrightarrow> \<exists>r. settle step x = Some r \<and> step r = r \<and> ok r"
proof -
  have last: "\<exists>r. settle step x = Some r \<and> step r = r \<and> ok r"
    if "ok x" "width (step x) = width x" for x
  proof -
    have "step (step x) = step x" using same [OF keep that(1)] that by blast
    then have "settle step (step x) = Some (step x)" by (subst settle.simps) simp
    then have "settle step x = Some (step x) \<or> settle step x = Some x \<and> step x = x"
      by (subst (1 2) settle.simps) (simp add: Let_def)
    with \<open>step (step x) = step x\<close> keep that(1) show ?thesis by auto
  qed
  have again: "\<exists>r. settle step x = Some r \<and> step r = r \<and> ok r"
    if "\<exists>r. settle step (step x) = Some r \<and> step r = r \<and> ok r" "width (step x) \<noteq> width x" for x
    using that by (subst settle.simps) (auto simp: Let_def)
  have up: "\<exists>r. settle step x = Some r \<and> step r = r \<and> ok r" if "ok x" "width x \<le> width (step x)" for x
    using that
  proof (induction "n - width x" arbitrary: x rule: less_induct)
    case less
    show ?case
    proof (cases "width (step x) = width x")
      case False
      with less.prems bound [OF less.prems(1)] have "n - width (step x) < n - width x" by linarith
      with less.hyps keep mono less.prems have "\<exists>r. settle step (step x) = Some r \<and> step r = r \<and> ok r" by blast
      then show ?thesis using False by (rule again)
    qed (use less.prems last in blast)
  qed
  have down: "\<exists>r. settle step x = Some r \<and> step r = r \<and> ok r" if "ok x" "width (step x) \<le> width x" for x
    using that
  proof (induction "width x" arbitrary: x rule: less_induct)
    case less
    show ?case
    proof (cases "width (step x) = width x")
      case False
      with less.prems have "width (step x) < width x" by simp
      with less.hyps keep mono less.prems have "\<exists>r. settle step (step x) = Some r \<and> step r = r \<and> ok r" by blast
      then show ?thesis using False by (rule again)
    qed (use less.prems last in blast)
  qed
  show "ok x \<Longrightarrow> ?thesis" using up down linear by blast
qed

lemma settle_keeps:
  assumes "settle step x = Some y" and "P x" and "\<And>z. P z \<Longrightarrow> P (step z)"
  shows "P y"
proof -
  let ?Q = "\<lambda>step x y. (\<forall>z. P z \<longrightarrow> P (step z)) \<longrightarrow> P x \<longrightarrow> P y"
  have "(case (step, x) of (s, x) \<Rightarrow> ?Q s x) y"
    by (rule settle.raw_induct [where P = ?Q]) (use assms(1) in \<open>auto simp: Let_def split: if_splits\<close>)
  with assms show ?thesis by blast
qed

lemma advice_costs_returns:
  assumes "decimal_counters env"
  shows "\<exists>r. advice_costs env a selected full envelope prior = Some r \<and>
    advice_round env selected full envelope prior r = r \<and>
    r\<lparr>ad_produced := 0, ad_full := 0\<rparr> = a\<lparr>ad_produced := 0, ad_full := 0\<rparr>"
proof -
  let ?base = "\<lambda>b. b\<lparr>ad_produced := 0, ad_full := 0\<rparr>" and ?round = "advice_round env selected full envelope prior"
  have "\<exists>r. settle ?round (?base a) = Some r \<and> ?round r = r \<and> ?base r = ?base a"
  proof (rule settle_returns [where width = counter_digits and ok = "\<lambda>b. ?base b = ?base a" and n = 40])
    show "counter_digits (?round x) \<le> counter_digits (?round y)"
      if "?base x = ?base a" "?base y = ?base a" "counter_digits x \<le> counter_digits y" for x y
      using that by (intro advice_round_mono assms) simp_all
    show "?round x = ?round y"
      if "?base x = ?base a" "?base y = ?base a" "counter_digits x = counter_digits y" for x y
      using that by (intro advice_round_same assms) simp_all
  qed (simp_all add: advice_round_digits)
  then show ?thesis by (simp add: advice_costs_def)
qed

section \<open>Properties\<close>

definition episode_ok :: "nat \<Rightarrow> episode \<Rightarrow> bool" where
  "episode_ok total_lines ep \<longleftrightarrow>
     separated (ep_spans ep) \<and> lines_of (ep_spans ep) \<subseteq> {1..total_lines} \<and> total_lines < u64_max"

lemma span_ends:
  assumes "separated spans" and "lines_of spans \<subseteq> {1..total_lines}" and "s \<in> set spans"
  shows "snd s \<le> total_lines"
proof -
  have "snd s \<in> lines_of spans" using assms(1,3) by (auto simp: lines_of_def separated_def)
  with assms(2) show ?thesis by auto
qed

lemma next_missing_correct:
  assumes "episode_ok total_lines ep"
  shows "case next_missing total_lines (ep_spans ep) of
      None \<Rightarrow> {1..total_lines} \<subseteq> lines_of (ep_spans ep)
    | Some (a, b) \<Rightarrow> {1..<a} \<subseteq> lines_of (ep_spans ep) \<and> 1 \<le> a \<and> a \<le> b \<and> b \<le> total_lines \<and>
        {a..b} \<inter> lines_of (ep_spans ep) = {} \<and> (b = total_lines \<or> b + 1 \<in> lines_of (ep_spans ep))"
proof -
  let ?sp = "ep_spans ep"
  define m where "m = missing_loop 1 ?sp"
  have nm: "next_missing total_lines ?sp = (if m \<le> total_lines
      then Some (m, case List.find (\<lambda>s. fst s > m) ?sp of Some s \<Rightarrow> fst s - 1 | None \<Rightarrow> total_lines)
      else None)"
    unfolding next_missing_def Let_def m_def ..
  from assms have sep: "separated ?sp" and sub: "lines_of ?sp \<subseteq> {1..total_lines}" and "total_lines < u64_max"
    by (auto simp: episode_ok_def)
  then have "\<forall>s \<in> set ?sp. snd s < u64_max" using span_ends [OF sep sub] by fastforce
  from missing_loop_correct [OF sep this, of 1] have m: "1 \<le> m" "m \<notin> lines_of ?sp" "{1..<m} \<subseteq> lines_of ?sp"
    by (auto simp: m_def)
  show ?thesis
  proof (cases "m \<le> total_lines")
    case True
    show ?thesis
    proof (cases "List.find (\<lambda>s. fst s > m) ?sp")
      case None
      with find_gap [OF sep m(2)] m True show ?thesis by (auto simp: nm)
    next
      case (Some s)
      with find_gap [OF sep m(2)] have s: "m < fst s" "fst s \<in> lines_of ?sp"
        "\<forall>n. m \<le> n \<and> n < fst s \<longrightarrow> n \<notin> lines_of ?sp" by auto
      then have "fst s \<le> total_lines" "fst s - 1 + 1 = fst s" using sub by auto
      with s m True show ?thesis by (auto simp: nm Some)
    qed
  next
    case False
    with m(3) have "{1..total_lines} \<subseteq> lines_of ?sp" by (auto simp: subset_iff)
    with False show ?thesis by (simp add: nm)
  qed
qed

text \<open>C18: The span list refines the set of delivered lines: recording a range adds its lines and nothing
  else, all of them while fewer than 128 spans are kept; the bytes counted as repeated are exactly
  those of the lines delivered before; and the range advised next is the first gap: every line before
  it was delivered, none of its lines was, and it ends at the end of the source or at a delivered
  line.\<close>

theorem observe_refines_lines:
  fixes now :: instant
  assumes "episode_ok (rf_total_lines rf) ep" and "1 \<le> rf_from rf" and "rf_from rf \<le> rf_to rf"
    and "rf_to rf \<le> rf_total_lines rf"
    and "length (split_inclusive (rf_content rf)) = rf_to rf - rf_from rf + 1"
  defines "before \<equiv> lines_of (ep_spans ep)" and "ep' \<equiv> observe_episode now rf ep"
  defines "after \<equiv> lines_of (ep_spans ep')"
  shows "episode_ok (rf_total_lines rf) ep' \<and> after \<subseteq> before \<union> {rf_from rf..rf_to rf} \<and>
    (length (ep_spans ep') < 128 \<longrightarrow> after = before \<union> {rf_from rf..rf_to rf}) \<and>
    ep_repeated ep' = sat_add (ep_repeated ep) (div_ceil (min u64_max
      (bytes_in before (rf_from rf) (split_inclusive (rf_content rf)))) 4) \<and>
    (case next_missing (rf_total_lines rf) (ep_spans ep') of
       None \<Rightarrow> {1..rf_total_lines rf} \<subseteq> after
     | Some (a, b) \<Rightarrow> {1..<a} \<subseteq> after \<and> 1 \<le> a \<and> a \<le> b \<and> b \<le> rf_total_lines rf \<and>
         {a..b} \<inter> after = {} \<and> (b = rf_total_lines rf \<or> b + 1 \<in> after))"
proof -
  from assms have sep: "separated (ep_spans ep)" and t: "rf_to rf \<le> u64_max" and tot: "rf_total_lines rf < u64_max"
    by (auto simp: episode_ok_def)
  have sp: "ep_spans ep' = merge_spans (ep_spans ep @ [(rf_from rf, rf_to rf)])"
    using assms(3) by (simp add: ep'_def observe_episode_def Let_def)
  note m = merge_spans_refines [OF sep assms(3) t, folded sp]
  have "lines_of (ep_spans ep') \<subseteq> {1..rf_total_lines rf}"
    using m assms(1,2,4) unfolding episode_ok_def by fastforce
  with m tot have ok: "episode_ok (rf_total_lines rf) ep'" by (simp add: episode_ok_def)
  have "repeated_loop (rf_from rf) (split_inclusive (rf_content rf)) (ep_spans ep) 0 =
      sat_add 0 (bytes_in before (rf_from rf) (split_inclusive (rf_content rf)))"
    using assms(3,4,5) tot by (intro repeated_loop_counts sep) (auto simp: before_def)
  then have rep: "ep_repeated ep' = sat_add (ep_repeated ep) (div_ceil (min u64_max
      (bytes_in before (rf_from rf) (split_inclusive (rf_content rf)))) 4)"
    by (simp add: ep'_def observe_episode_def Let_def sat_add_def min.commute)
  from m ok rep next_missing_correct [OF ok] show ?thesis
    unfolding after_def before_def by (auto simp: max_spans_def)
qed

lemma oldest_in: "oldest_episode eps = Some x \<Longrightarrow> x \<in> set eps"
  by (induction eps arbitrary: x rule: oldest_episode.induct) (auto split: option.splits if_splits)

lemma oldest_None: "oldest_episode eps = None \<longleftrightarrow> eps = []"
  by (cases eps) (auto split: option.splits)

lemma evict_oldest_length:
  assumes "length eps \<le> max_episodes"
  shows "length (filter (\<lambda>e. fst e \<noteq> key) (evict_oldest key eps)) < max_episodes"
proof (cases "map_of eps key = None \<and> length eps \<ge> max_episodes")
  case True
  then have "eps \<noteq> []" by (auto simp: max_episodes_def)
  then obtain k e where o: "oldest_episode eps = Some (k, e)" using oldest_None [of eps] by fastforce
  have "length (filter (\<lambda>e. fst e \<noteq> k) eps) < length eps"
    using oldest_in [OF o] by (intro length_filter_less) auto
  then have "length (evict_oldest key eps) < length eps"
    using True o by (simp add: evict_oldest_def)
  then show ?thesis using assms length_filter_le [of "\<lambda>e. fst e \<noteq> key" "evict_oldest key eps"]
    by linarith
next
  case False
  then have ev: "evict_oldest key eps = eps" by (auto simp: evict_oldest_def)
  from False consider e where "map_of eps key = Some e" | "length eps < max_episodes" by fastforce
  then show ?thesis
  proof cases
    case 1
    then have "length (filter (\<lambda>e. fst e \<noteq> key) eps) < length eps"
      by (intro length_filter_less [OF map_of_SomeD]) auto
    with assms show ?thesis by (simp add: ev)
  qed (simp add: ev le_less_trans [OF length_filter_le])
qed

lemma observe_ends:
  assumes "decimal_counters env" and "length eps \<le> 1024"
  shows "\<exists>eps' advice ep. observe env now identity rf source_bytes envelope eps = Some (eps', advice) \<and>
    length eps' \<le> 1024 \<and> (episode_key env identity rf, ep) \<in> set eps' \<and>
    ep_produced ep = ad_produced advice \<and>
    ad_full advice = div_ceil (sat_add (sat_add (ce_file_len env (full_result rf)) source_bytes)
      (ce_advice_len env advice + 15 + envelope)) 4"
proof -
  let ?key = "episode_key env identity rf"
  define ep where "ep = observe_episode now rf
    (case map_of (evict_oldest ?key eps) ?key of Some e \<Rightarrow> e | None \<Rightarrow> new_episode now)"
  let ?full = "sat_add (ce_file_len env (full_result rf)) source_bytes"
  let ?round = "advice_round env (ce_file_len env rf) ?full envelope (ep_produced ep)"
  have "\<exists>r. final_advice env rf source_bytes envelope ep = Some r \<and> ?round r = r"
  proof -
    obtain a where a: "advice_costs env (first_advice rf ep) (ce_file_len env rf) ?full envelope (ep_produced ep) = Some a"
      "?round a = a" using advice_costs_returns [OF assms(1)] by blast
    obtain b where "advice_costs env (a\<lparr>ad_next_action := lit ''continue_if_needed''\<rparr>) (ce_file_len env rf) ?full
        envelope (ep_produced ep) = Some b" "?round b = b" using advice_costs_returns [OF assms(1)] by blast
    with a show ?thesis by (simp add: final_advice_def Let_def)
  qed
  then obtain r where r: "final_advice env rf source_bytes envelope ep = Some r" "?round r = r" by blast
  have "ad_full (?round r) = div_ceil (sat_add ?full (ce_advice_len env r + 15 + envelope)) 4"
    by (simp add: advice_round_def Let_def)
  moreover have "observe env now identity rf source_bytes envelope eps =
      Some (filter (\<lambda>e. fst e \<noteq> ?key) (evict_oldest ?key eps) @ [(?key, ep\<lparr>ep_produced := ad_produced r\<rparr>)], r)"
    using r(1) by (simp add: observe_def Let_def ep_def)
  moreover have "length (filter (\<lambda>e. fst e \<noteq> ?key) (evict_oldest ?key eps)) < 1024"
    using evict_oldest_length [of eps ?key] assms(2) by (simp add: max_episodes_def)
  ultimately show ?thesis using r(2)
    by (intro exI [of _ "filter (\<lambda>e. fst e \<noteq> ?key) (evict_oldest ?key eps) @ [(?key, ep\<lparr>ep_produced := ad_produced r\<rparr>)]"]
        exI [of _ r] exI [of _ "ep\<lparr>ep_produced := ad_produced r\<rparr>"]) auto
qed

text \<open>Observing a read always ends: when serialized counters are decimal numbers, the rounds that
  make the advice count its own length converge, for any sizes; the advice counts itself exactly, and
  at most 1024 episodes are kept.\<close>

lemma observe_returns:
  assumes "decimal_counters env" and "length eps \<le> 1024"
  shows "\<exists>eps' advice ep. observe env now identity rf source_bytes envelope eps = Some (eps', advice) \<and>
    length eps' \<le> 1024 \<and> (episode_key env identity rf, ep) \<in> set eps' \<and>
    ep_produced ep = ad_produced advice \<and>
    ad_full advice = div_ceil (sat_add (sat_add (ce_file_len env (full_result rf)) source_bytes)
      (ce_advice_len env advice + 15 + envelope)) 4"
  using assms by (rule observe_ends)

text \<open>Lines two and three of a source of four, after lines one and two.\<close>

definition sample_rf :: read_file_result where
  "sample_rf = \<lparr>rf_cost_advice = None, rf_path = lit ''a'', rf_source_sha256 = lit ''s'', rf_source_bytes = 8,
     rf_total_lines = 4, rf_from = 2, rf_to = 3, rf_next_line = Some 4, rf_complete = False,
     rf_content = [98, c_newline, 99, c_newline]\<rparr>"

definition sample_episode :: episode where
  "sample_episode = \<lparr>ep_touched = 0, ep_requests = 1, ep_produced = 10, ep_repeated = 0, ep_spans = [(1, 2)]\<rparr>"

definition sample_cost_env :: cost_env where
  "sample_cost_env = \<lparr>ce_advice_len = \<lambda>a. 100 + length (show_nat (ad_produced a)) + length (show_nat (ad_full a)),
     ce_file_len = \<lambda>f. 150 + length (rf_content f), ce_sha256 = id\<rparr>"

theorem observe_refines_lines_witness:
  "lines_of (ep_spans (observe_episode 5 sample_rf sample_episode)) = {1..2} \<union> {2..3} \<and>
   next_missing 4 (ep_spans (observe_episode 5 sample_rf sample_episode)) = Some (4, 4)"
proof -
  have "episode_ok (rf_total_lines sample_rf) sample_episode"
    by (simp add: episode_ok_def sample_rf_def sample_episode_def u64_max_def)
  moreover have "length (split_inclusive (rf_content sample_rf)) = rf_to sample_rf - rf_from sample_rf + 1"
    by code_simp
  moreover have sp: "ep_spans (observe_episode 5 sample_rf sample_episode) = [(1, 3)]" by code_simp
  ultimately have "lines_of (ep_spans (observe_episode 5 sample_rf sample_episode)) = {1..2} \<union> {2..3}"
    using observe_refines_lines [of sample_rf sample_episode 5]
    by (simp add: sample_rf_def sample_episode_def)
  moreover have "next_missing 4 [(1, 3)] = Some (4, 4)" by code_simp
  ultimately show ?thesis by (simp add: sp)
qed

lemma observe_returns_witness:
  "\<exists>eps' advice ep. observe sample_cost_env 5 [lit ''w''] sample_rf 12 20 [] = Some (eps', advice) \<and>
    length eps' \<le> 1024 \<and> (episode_key sample_cost_env [lit ''w''] sample_rf, ep) \<in> set eps' \<and>
    ep_produced ep = ad_produced advice \<and>
    ad_full advice = div_ceil (sat_add (sat_add (ce_file_len sample_cost_env (full_result sample_rf)) 12)
      (ce_advice_len sample_cost_env advice + 15 + 20)) 4"
  by (rule observe_returns) (simp_all add: decimal_counters_def sample_cost_env_def show_nat.simps)

end
