(* ===== verification/Response_Codec.thy ===== *)
theory Response_Codec
  imports Rust_Prelude
begin

text \<open>
  The response codec (\<open>crates/hzr-codec/src/lib.rs\<close>, with the classes of
  \<open>crates/hzr-protocol/src/lib.rs\<close>): which density a response is asked for, and the one transformation
  applied to text, removing repeated paragraphs unless that would touch protected content. The regular
  expression for protected content is an argument: \<open>find_protected\<close> gives the matches in a text, each
  with its byte offset. The profitability of a density is computed in floating point by the caller
  and is an argument here.
\<close>

section \<open>Classes\<close>

datatype fidelity_class = ExactFidelity | LosslessStructural | Semantic | Summary

datatype risk_class = LowRisk | MediumRisk | HighRisk | IrreversibleRisk

datatype codec_profile = OffProfile | SafeProfile | AdaptiveProfile | CompactProfile | ShadowProfile

datatype density = NormalDensity | ConciseDensity | DenseStructured

definition contract :: "density \<Rightarrow> rstr" where
  "contract d =
     (case d of
        NormalDensity \<Rightarrow> lit ''Answer at the detail level required for correctness. Preserve code, commands, paths, identifiers, errors, numbers, caveats, and causality.''
      | ConciseDensity \<Rightarrow> lit ''Be concise. Lead with the result. Omit greetings, request restatement, tool recap, and unchosen alternatives. Preserve evidence, caveats, and exact technical artifacts.''
      | DenseStructured \<Rightarrow> lit ''Return dense structured fields: status, evidence, changed_files, verification, risks, next_action. Preserve exact code, commands, paths, identifiers, errors, and numbers.'')"

definition choose_density :: "codec_profile \<Rightarrow> risk_class \<Rightarrow> u64 \<Rightarrow> bool \<Rightarrow> density" where
  "choose_density profile risk expected_output_tokens profitable =
     (if risk = HighRisk \<or> risk = IrreversibleRisk then NormalDensity
      else case profile of
        OffProfile \<Rightarrow> NormalDensity
      | ShadowProfile \<Rightarrow> NormalDensity
      | SafeProfile \<Rightarrow> ConciseDensity
      | AdaptiveProfile \<Rightarrow>
          if profitable \<and> expected_output_tokens \<ge> 600 then ConciseDensity else NormalDensity
      | CompactProfile \<Rightarrow> if expected_output_tokens \<ge> 300 then DenseStructured else NormalDensity)"

record protected_span =
  span_start :: nat
  span_end :: nat
  span_kind :: rstr

record counterfactual_size =
  cf_input_bytes :: nat
  cf_output_bytes :: nat
  cf_saved_bytes :: nat
  cf_would_change :: bool

datatype coverage_state = Applied | ShadowMeasured | Instructed | Unavailable

record transform_result =
  tr_content :: rstr
  tr_changed :: bool
  tr_profile :: codec_profile
  tr_protected_spans :: "protected_span list"
  tr_counterfactual :: "counterfactual_size option"
  tr_coverage_state :: coverage_state
  tr_global_response_replacement_confirmed :: bool
  tr_estimated_token_credit_eligible :: bool

section \<open>Text\<close>

text \<open>\<open>str::split\<close> and \<open>str::matches\<close> with a text pattern.\<close>

function split_str :: "rstr \<Rightarrow> rstr \<Rightarrow> rstr list" where
  "split_str pat [] = [[]]"
| "split_str pat (c # s) =
     (if pat \<noteq> [] \<and> starts_with (c # s) pat
      then [] # split_str pat (drop (length pat) (c # s))
      else (case split_str pat s of [] \<Rightarrow> [[c]] | w # ws \<Rightarrow> (c # w) # ws))"
  by pat_completeness auto
termination
  by (relation "measure (\<lambda>(pat, s). length s)") (auto simp: neq_Nil_conv)

function count_matches :: "rstr \<Rightarrow> rstr \<Rightarrow> nat" where
  "count_matches pat [] = (if pat = [] then 1 else 0)"
| "count_matches pat (c # s) =
     (if pat = [] then Suc (count_matches pat s)
      else if starts_with (c # s) pat then Suc (count_matches pat (drop (length pat) (c # s)))
      else count_matches pat s)"
  by pat_completeness auto
termination
  by (relation "measure (\<lambda>(pat, s). length s)") (auto simp: neq_Nil_conv)

definition trailing_newlines :: "rstr \<Rightarrow> nat" where
  "trailing_newlines s = length (takeWhile (\<lambda>c. c = c_newline) (rev s))"

text \<open>The paragraphs whose trimmed text was not seen before.\<close>

primrec unseen :: "rstr set \<Rightarrow> rstr list \<Rightarrow> rstr list" where
  "unseen seen [] = []"
| "unseen seen (p # ps) =
     (if trim p \<in> seen then unseen seen ps else p # unseen (insert (trim p) seen) ps)"

definition deduplicate_paragraphs :: "rstr \<Rightarrow> rstr" where
  "deduplicate_paragraphs input =
     (let out = join [c_newline, c_newline] (unseen {} (split_str [c_newline, c_newline] input))
      in out @ replicate (trailing_newlines input - trailing_newlines out) c_newline)"

section \<open>Protected content\<close>

definition classify :: "rstr \<Rightarrow> rstr" where
  "classify v =
     (if starts_with v [c_backtick, c_backtick, c_backtick] \<or> starts_with v [c_tilde, c_tilde, c_tilde] \<or>
         starts_with v [c_backtick] then lit ''code''
      else if starts_with v (lit ''http'') then lit ''url''
      else if starts_with (trim_start v) [c_minus] then lit ''flag''
      else if c_slash \<in> set v then lit ''path''
      else if starts_with v [c_lbrace] \<or> starts_with v [c_lbracket] then lit ''structured''
      else if c_underscore \<in> set v \<and>
         list_all (\<lambda>c. is_ascii_uppercase c \<or> is_ascii_digit c \<or> c = c_underscore) v then lit ''enum''
      else if c_underscore \<in> set v then lit ''identifier''
      else lit ''literal'')"

definition protected_spans :: "(rstr \<Rightarrow> (nat \<times> rstr) list) \<Rightarrow> rstr \<Rightarrow> protected_span list" where
  "protected_spans find_protected input =
     map (\<lambda>(off, v). \<lparr>span_start = off, span_end = off + blen v, span_kind = classify v\<rparr>)
       (find_protected input)"

definition protected_values :: "(rstr \<Rightarrow> (nat \<times> rstr) list) \<Rightarrow> rstr \<Rightarrow> rstr list" where
  "protected_values find_protected input = map snd (find_protected input)"

definition validate_protected :: "(rstr \<Rightarrow> (nat \<times> rstr) list) \<Rightarrow> rstr \<Rightarrow> rstr \<Rightarrow> bool" where
  "validate_protected find_protected original transformed =
     list_all (\<lambda>v. count_matches v transformed = count_matches v original)
       (protected_values find_protected original)"

definition candidate_transform ::
  "(rstr \<Rightarrow> (nat \<times> rstr) list) \<Rightarrow> rstr \<Rightarrow> fidelity_class \<Rightarrow> rstr" where
  "candidate_transform find_protected input fidelity =
     (if fidelity = ExactFidelity then input
      else let candidate = deduplicate_paragraphs input
           in if validate_protected find_protected input candidate then candidate else input)"

definition transform ::
  "(rstr \<Rightarrow> (nat \<times> rstr) list) \<Rightarrow> rstr \<Rightarrow> fidelity_class \<Rightarrow> codec_profile \<Rightarrow> transform_result" where
  "transform find_protected input fidelity profile =
     (let spans = protected_spans find_protected input;
          candidate = candidate_transform find_protected input fidelity
      in if profile = ShadowProfile
         then \<lparr>tr_content = input, tr_changed = False, tr_profile = profile, tr_protected_spans = spans,
               tr_counterfactual = Some \<lparr>cf_input_bytes = blen input, cf_output_bytes = blen candidate,
                 cf_saved_bytes = blen input - blen candidate, cf_would_change = (candidate \<noteq> input)\<rparr>,
               tr_coverage_state = ShadowMeasured, tr_global_response_replacement_confirmed = False,
               tr_estimated_token_credit_eligible = False\<rparr>
         else if fidelity = ExactFidelity \<or> profile = OffProfile
         then \<lparr>tr_content = input, tr_changed = False, tr_profile = profile, tr_protected_spans = spans,
               tr_counterfactual = None, tr_coverage_state = Applied,
               tr_global_response_replacement_confirmed = False,
               tr_estimated_token_credit_eligible = False\<rparr>
         else \<lparr>tr_content = candidate, tr_changed = (candidate \<noteq> input), tr_profile = profile,
               tr_protected_spans = spans, tr_counterfactual = None, tr_coverage_state = Applied,
               tr_global_response_replacement_confirmed = False,
               tr_estimated_token_credit_eligible = (candidate \<noteq> input)\<rparr>)"

definition transform_for_risk ::
  "(rstr \<Rightarrow> (nat \<times> rstr) list) \<Rightarrow> rstr \<Rightarrow> fidelity_class \<Rightarrow> codec_profile \<Rightarrow> risk_class \<Rightarrow> transform_result" where
  "transform_for_risk find_protected input fidelity profile risk =
     transform find_protected input
       (if risk = HighRisk \<or> risk = IrreversibleRisk then ExactFidelity else fidelity) profile"

definition compact_catalog_description :: "(rstr \<Rightarrow> (nat \<times> rstr) list) \<Rightarrow> rstr \<Rightarrow> transform_result" where
  "compact_catalog_description find_protected input =
     transform find_protected input LosslessStructural SafeProfile"

section \<open>Deduplication\<close>

lemma join_Cons: "ws \<noteq> [] \<Longrightarrow> join sep (w # ws) = w @ sep @ join sep ws"
  by (cases ws) auto

lemma split_str_not_Nil [simp]: "split_str pat s \<noteq> []"
  by (induction pat s rule: split_str.induct) (auto split: list.splits)

lemma join_head: "join sep ((c # w) # ws) = c # join sep (w # ws)"
  by (cases ws) auto

lemma join_split: "join pat (split_str pat s) = s"
proof (induction pat s rule: split_str.induct)
  case (2 pat c s)
  show ?case
  proof (cases "pat \<noteq> [] \<and> starts_with (c # s) pat")
    case True
    then obtain t where t: "c # s = pat @ t" by (auto simp: starts_with_iff)
    with True 2 have "join pat (split_str pat t) = t" by simp
    moreover have "split_str pat (c # s) = [] # split_str pat t"
      unfolding split_str.simps using True by (simp add: t)
    ultimately show ?thesis using t by (simp add: join_Cons del: split_str.simps)
  next
    case False
    with 2 obtain w ws where "split_str pat s = w # ws" "join pat (w # ws) = s"
      using split_str_not_Nil [of pat s] by (cases "split_str pat s") auto
    with False show ?thesis by (auto simp: join_head)
  qed
qed simp

lemma subseq_join: "subseq xs ys \<Longrightarrow> subseq (join sep xs) (join sep ys)"
proof (induction xs ys rule: list_emb.induct)
  case (list_emb_Cons xs ys y)
  show ?case
  proof (cases "ys = []")
    case False
    have "subseq (join sep xs) ((y @ sep) @ join sep ys)"
      using list_emb_Cons.IH by (rule list_emb_append2)
    with False show ?thesis by (simp add: join_Cons)
  qed (use list_emb_Cons in \<open>auto dest: list_emb_Nil2\<close>)
next
  case (list_emb_Cons2 x y xs ys)
  show ?case
  proof (cases "xs = []")
    case True
    have "subseq y (join sep (y # ys))" by (cases ys) (auto intro: list_emb_prefix)
    with True list_emb_Cons2 show ?thesis by simp
  next
    case False
    with list_emb_Cons2 have "ys \<noteq> []" by auto
    have "subseq (y @ sep @ join sep xs) (y @ sep @ join sep ys)"
      using list_emb_Cons2.IH by (simp add: subseq_append')
    with False \<open>ys \<noteq> []\<close> list_emb_Cons2 show ?thesis by (simp add: join_Cons)
  qed
qed simp

lemma unseen_subseq: "subseq (unseen seen ps) ps"
  by (induction ps arbitrary: seen) auto

lemma trailing_newlines_split:
  obtains u where "s = u @ replicate (trailing_newlines s) c_newline" "u = [] \<or> last u \<noteq> c_newline"
proof
  let ?P = "\<lambda>c. c = c_newline"
  have "rev s = takeWhile ?P (rev s) @ dropWhile ?P (rev s)" by simp
  moreover have "takeWhile ?P (rev s) = replicate (trailing_newlines s) c_newline"
    unfolding trailing_newlines_def by (rule replicate_length_same [symmetric]) (auto dest: set_takeWhileD)
  ultimately have "s = rev (dropWhile ?P (rev s)) @ rev (replicate (trailing_newlines s) c_newline)"
    by (metis rev_append rev_rev_ident)
  then show "s = rev (dropWhile ?P (rev s)) @ replicate (trailing_newlines s) c_newline" by simp
  show "rev (dropWhile ?P (rev s)) = [] \<or> last (rev (dropWhile ?P (rev s))) \<noteq> c_newline"
    using hd_dropWhile [of ?P "rev s"] by (auto simp: last_rev)
qed

lemma subseq_strip_replicate:
  assumes "subseq u (v @ replicate n y)" and "u = [] \<or> last u \<noteq> y"
  shows "subseq u v"
  using assms(1)
proof (induction n)
  case (Suc n)
  have "subseq u ((v @ replicate n y) @ [y])" using Suc.prems by (simp add: replicate_append_same)
  then obtain xs ys where u: "u = xs @ ys" "subseq xs (v @ replicate n y)" "subseq ys [y]"
    unfolding subseq_append_iff by blast
  have "ys = []" using u(1,3) assms(2) by (cases ys rule: rev_cases) (auto elim!: list_emb.cases)
  with u Suc.IH show ?case by simp
qed simp

lemma subseq_trailing:
  assumes "subseq out input"
  shows "subseq (out @ replicate (trailing_newlines input - trailing_newlines out) c_newline) input"
proof (cases "trailing_newlines input \<le> trailing_newlines out")
  case False
  obtain u where u: "out = u @ replicate (trailing_newlines out) c_newline" "u = [] \<or> last u \<noteq> c_newline"
    by (rule trailing_newlines_split)
  obtain v where v: "input = v @ replicate (trailing_newlines input) c_newline"
    by (rule trailing_newlines_split)
  have "subseq u out" using u(1) by (metis list_emb_prefix subseq_order.order_refl)
  then have "subseq u input" using assms by (rule subseq_order.order_trans)
  then have "subseq u v" using subseq_strip_replicate u(2) v by metis
  then have "subseq (u @ replicate (trailing_newlines input) c_newline) input"
    using v by (metis list_emb_append_mono subseq_order.order_refl)
  moreover have "out @ replicate (trailing_newlines input - trailing_newlines out) c_newline =
      u @ replicate (trailing_newlines input) c_newline"
    using u(1) False by (metis append.assoc le_add_diff_inverse nat_le_linear replicate_add)
  ultimately show ?thesis by simp
qed (use assms in simp)

lemma deduplicate_subseq: "subseq (deduplicate_paragraphs input) input"
  unfolding deduplicate_paragraphs_def Let_def
  using subseq_join [OF unseen_subseq, of "[c_newline, c_newline]" "{}" "split_str [c_newline, c_newline] input"]
  by (intro subseq_trailing) (simp add: join_split)

section \<open>Properties\<close>

text \<open>C23: The codec only leaves out, and never touches protected content: the transformed text is the
  input with some of its characters left out; every protected value of the input occurs in it as often
  as in the input; and it is the input itself unless the fidelity class, the profile and the risk all
  allow a change. A change is reported as one, and only a change earns credit.\<close>

theorem transform_safe:
  "let t = transform_for_risk find_protected input fidelity profile risk; out = tr_content t
   in subseq out input \<and>
      list_all (\<lambda>v. count_matches v out = count_matches v input) (protected_values find_protected input) \<and>
      (out = input \<or> (fidelity \<noteq> ExactFidelity \<and> profile \<notin> {OffProfile, ShadowProfile} \<and>
         risk \<notin> {HighRisk, IrreversibleRisk})) \<and>
      tr_changed t = (out \<noteq> input) \<and> tr_estimated_token_credit_eligible t = tr_changed t"
proof -
  let ?f = "if risk = HighRisk \<or> risk = IrreversibleRisk then ExactFidelity else fidelity"
  define c where "c = candidate_transform find_protected input ?f"
  have "subseq c input" "list_all (\<lambda>v. count_matches v c = count_matches v input) (protected_values find_protected input)"
    unfolding c_def candidate_transform_def Let_def
    by (auto simp: deduplicate_subseq validate_protected_def list_all_iff)
  then show ?thesis
    unfolding Let_def transform_for_risk_def transform_def c_def [symmetric]
    by (auto simp: list_all_iff)
qed

text \<open>In shadow the size of the change is measured and none is made: the saved bytes are what the
  codec would save under the safe profile, never negative.\<close>

lemma shadow_measures_safe:
  "tr_content (transform find_protected input fidelity ShadowProfile) = input \<and>
   (case tr_counterfactual (transform find_protected input fidelity ShadowProfile) of
      None \<Rightarrow> False
    | Some cf \<Rightarrow> cf_input_bytes cf = cf_output_bytes cf + cf_saved_bytes cf \<and>
        cf_output_bytes cf = blen (tr_content (transform find_protected input fidelity SafeProfile)) \<and>
        cf_would_change cf = tr_changed (transform find_protected input fidelity SafeProfile))"
proof -
  define c where "c = candidate_transform find_protected input fidelity"
  have "subseq c input" unfolding c_def candidate_transform_def Let_def by (simp add: deduplicate_subseq)
  then have "blen c \<le> blen input"
    unfolding blen_def by (induction rule: list_emb.induct) auto
  moreover have "fidelity = ExactFidelity \<Longrightarrow> c = input" by (simp add: c_def candidate_transform_def)
  ultimately show ?thesis unfolding transform_def Let_def c_def [symmetric] by auto
qed

end
