(* ===== verification/Unix_Path.thy ===== *)
theory Unix_Path
  imports Rust_Prelude
begin

text \<open>Paths by their components, as \<open>Path::components\<close> of the standard library reads a text on Unix.\<close>

datatype component = RootDir | CurDir | ParentDir | NormalName rstr

text \<open>Empty names and names of one dot disappear, except a leading dot of a relative path.\<close>

definition components :: "rstr \<Rightarrow> component list" where
  "components p =
     (let names = split_on (\<lambda>c. c = c_slash) p;
          to_component = (\<lambda>n. if n = [] \<or> n = [c_dot] then []
            else if n = [c_dot, c_dot] then [ParentDir] else [NormalName n]);
          absolute = starts_with p [c_slash]
      in (if absolute then [RootDir] else if hd names = [c_dot] then [CurDir] else []) @
         concat (map to_component names))"

end
