(* ===== verification/Managed_Tools.thy ===== *)
theory Managed_Tools
  imports Job_Store Decimal Unix_Path
begin

text \<open>
  The closed set of fork commands the daemon runs for a client, and their confinement to a workspace
  (\<open>validate_managed_fork_tool\<close> and its helpers in \<open>crates/hzr-daemon/src/api.rs\<close>). A path is the list of
  its components, as \<open>Path::components\<close> reads it on Unix. Which paths exist and what they resolve to are
  arguments.
\<close>

section \<open>Paths\<close>

definition is_absolute :: "component list \<Rightarrow> bool" where
  "is_absolute p = (p \<noteq> [] \<and> hd p = RootDir)"

definition path_join :: "component list \<Rightarrow> component list \<Rightarrow> component list" where
  "path_join base p = (if is_absolute p then p else base @ filter (\<lambda>c. c \<noteq> CurDir) p)"

definition path_starts_with :: "component list \<Rightarrow> component list \<Rightarrow> bool" where
  "path_starts_with p base = (take (length base) p = base)"

fun last_name :: "component list \<Rightarrow> rstr option" where
  "last_name [] = None"
| "last_name [NormalName n] = Some n"
| "last_name [c] = None"
| "last_name (c # cs) = last_name cs"

record path_fs =
  pf_exists :: "component list \<Rightarrow> bool"
  pf_canonicalize :: "component list \<Rightarrow> component list option"

definition no_ancestor :: api_error where
  "no_ancestor = bad_request (lit ''managed fork path has no existing ancestor'')"

text \<open>The walk up to an existing ancestor; the names below it are collected in order.\<close>

function future_walk :: "path_fs \<Rightarrow> component list \<Rightarrow> component list \<Rightarrow> api_error + component list" where
  "future_walk fs existing below =
     (if pf_exists fs existing
      then (case pf_canonicalize fs existing of
              None \<Rightarrow> Inl (bad_request (lit ''invalid managed fork path''))
            | Some canonical \<Rightarrow> Inr (canonical @ below))
      else case last_name existing of
        None \<Rightarrow> Inl no_ancestor
      | Some n \<Rightarrow> future_walk fs (butlast existing) (NormalName n # below))"
  by pat_completeness auto

lemma last_name_Some: "last_name p = Some n \<Longrightarrow> p \<noteq> [] \<and> last p = NormalName n"
  by (induction p rule: last_name.induct) auto

termination future_walk
  by (relation "measure (\<lambda>(_, p, _). length p)") (auto dest!: last_name_Some)

declare future_walk.simps [simp del]

definition canonicalize_future_path :: "path_fs \<Rightarrow> component list \<Rightarrow> api_error + component list" where
  "canonicalize_future_path fs p = future_walk fs p []"

section \<open>Arguments\<close>

definition positive_bound :: "rstr \<Rightarrow> bool" where
  "positive_bound v = (case parse_usize v of Some n \<Rightarrow> n > 0 | None \<Rightarrow> False)"

definition unsupported_argument :: api_error where
  "unsupported_argument = bad_request (lit ''managed read contains an unsupported argument'')"

fun read_options :: "bool \<Rightarrow> rstr list \<Rightarrow> api_error + unit" where
  "read_options mode [] = Inr ()"
| "read_options mode (a # as) =
     (if a \<in> {lit ''--from'', lit ''--to'', lit ''--max-lines''}
      then (case as of
              [] \<Rightarrow> Inl (bad_request (lit ''managed read has an invalid bound''))
            | v # rest \<Rightarrow>
                if positive_bound v then read_options mode rest
                else Inl (bad_request (lit ''managed read has an invalid bound'')))
      else if a = lit ''--level''
      then (case as of
              [] \<Rightarrow> Inl unsupported_argument
            | v # rest \<Rightarrow> if v = lit ''none'' then read_options mode rest else Inl unsupported_argument)
      else if a = lit ''--line-numbers'' then read_options mode as
      else if a \<in> {lit ''--outline'', lit ''--symbols'', lit ''--changed''} \<and> \<not> mode
      then read_options True as
      else Inl unsupported_argument)"

definition validate_managed_read_args :: "rstr list \<Rightarrow> api_error + rstr" where
  "validate_managed_read_args args =
     (case args of
        _ # p # options \<Rightarrow>
          (case read_options False options of Inl e \<Rightarrow> Inl e | Inr _ \<Rightarrow> Inr p)
      | _ \<Rightarrow> Inl (bad_request (lit ''managed read is missing its path'')))"

definition patch_form :: "rstr list \<Rightarrow> rstr option" where
  "patch_form args =
     (case args of
        [w, out, json, patch, p, old, _, new, _, cas, retry, two] \<Rightarrow>
          if w = lit ''write'' \<and> out = lit ''--output'' \<and> json = lit ''json'' \<and> patch = lit ''patch'' \<and>
             old = lit ''--old'' \<and> new = lit ''--new'' \<and> cas = lit ''--cas'' \<and> retry = lit ''--retry'' \<and>
             two = lit ''2'' then Some p else None
      | _ \<Rightarrow> None)"

definition create_form :: "rstr list \<Rightarrow> rstr option" where
  "create_form args =
     (case args of
        [w, out, json, create, p, content, stdin] \<Rightarrow>
          if w = lit ''write'' \<and> out = lit ''--output'' \<and> json = lit ''json'' \<and> create = lit ''create'' \<and>
             content = lit ''--content'' \<and> stdin = lit ''@-'' then Some p else None
      | _ \<Rightarrow> None)"

text \<open>Each form may carry one more flag.\<close>

definition flagged :: "(rstr list \<Rightarrow> rstr option) \<Rightarrow> rstr \<Rightarrow> rstr list \<Rightarrow> rstr option" where
  "flagged form flag args =
     (case form args of
        Some p \<Rightarrow> Some p
      | None \<Rightarrow> if args \<noteq> [] \<and> last args = flag then form (butlast args) else None)"

definition validate_managed_write_args :: "rstr list \<Rightarrow> api_error + rstr" where
  "validate_managed_write_args args =
     (case flagged patch_form (lit ''--all'') args of
        Some p \<Rightarrow> Inr p
      | None \<Rightarrow>
          (case flagged create_form (lit ''--force'') args of
             Some p \<Rightarrow> Inr p
           | None \<Rightarrow> Inl (bad_request
               (lit ''managed write must use HZR's exact atomic patch/create contract''))))"

definition pipe_filter :: "rstr list" where
  "pipe_filter = [lit ''pipe'', lit ''--filter'', lit ''cargo-test'']"

definition managed_path :: "rstr list \<Rightarrow> api_error + rstr" where
  "managed_path args =
     (if args \<noteq> [] \<and> hd args = lit ''read'' then validate_managed_read_args args
      else if args \<noteq> [] \<and> hd args = lit ''write'' then validate_managed_write_args args
      else Inl (bad_request
        (lit ''managed fork API permits confined read/write and the closed stdin cargo-test filter'')))"

definition validate_managed_fork_tool ::
  "path_fs \<Rightarrow> rstr list \<Rightarrow> component list \<Rightarrow> api_error + unit" where
  "validate_managed_fork_tool fs args workspace =
     (if args = pipe_filter then Inr ()
      else case managed_path args of
        Inl e \<Rightarrow> Inl e
      | Inr p \<Rightarrow>
          let relative = components p
          in if ParentDir \<in> set relative
             then Inl (bad_request (lit ''managed fork path must not contain parent traversal''))
             else (case canonicalize_future_path fs (path_join workspace relative) of
                     Inl e \<Rightarrow> Inl e
                   | Inr confined \<Rightarrow>
                       if \<not> path_starts_with confined workspace
                       then Inl (bad_request (lit ''managed fork path escapes workspace''))
                       else Inr ()))"

section \<open>Confinement\<close>

lemma future_walk_Inr:
  "future_walk fs p below = Inr confined \<Longrightarrow>
   \<exists>existing names canonical. p = existing @ map NormalName names \<and> pf_exists fs existing \<and>
     pf_canonicalize fs existing = Some canonical \<and> confined = canonical @ map NormalName names @ below \<and>
     (\<forall>k < length names. \<not> pf_exists fs (existing @ map NormalName (take (Suc k) names)))"
proof (induction fs p below rule: future_walk.induct)
  case (1 fs existing below)
  show ?case
  proof (cases "pf_exists fs existing")
    case True
    with "1.prems" obtain c where "pf_canonicalize fs existing = Some c" "confined = c @ below"
      by (auto simp: future_walk.simps [of fs existing] split: option.splits)
    with True show ?thesis by (intro exI [of _ existing] exI [of _ "[]"] exI [of _ c]) simp
  next
    case False
    with "1.prems" obtain n where n: "last_name existing = Some n"
      and w: "future_walk fs (butlast existing) (NormalName n # below) = Inr confined"
      by (auto simp: future_walk.simps [of fs existing] split: option.splits)
    from "1.IH" [OF False n w] obtain e ns c where
      ih: "butlast existing = e @ map NormalName ns" "pf_exists fs e" "pf_canonicalize fs e = Some c"
      "confined = c @ map NormalName ns @ NormalName n # below"
      "\<forall>k < length ns. \<not> pf_exists fs (e @ map NormalName (take (Suc k) ns))" by blast
    have ex: "existing = e @ map NormalName (ns @ [n])"
      using last_name_Some [OF n] ih(1) by (metis append.assoc append_butlast_last_id list.simps(8,9) map_append)
    have "\<forall>k < length (ns @ [n]). \<not> pf_exists fs (e @ map NormalName (take (Suc k) (ns @ [n])))"
      using ih(5) False ex by (auto simp: less_Suc_eq)
    with ex ih show ?thesis by (intro exI [of _ e] exI [of _ "ns @ [n]"] exI [of _ c]) simp
  qed
qed

text \<open>What resolving a path promises: the result is absolute and has neither dots nor parents.\<close>

definition resolves :: "path_fs \<Rightarrow> bool" where
  "resolves fs \<longleftrightarrow> (\<forall>p c. pf_canonicalize fs p = Some c \<longrightarrow>
     is_absolute c \<and> ParentDir \<notin> set c \<and> CurDir \<notin> set c \<and> RootDir \<notin> set (tl c))"

text \<open>C9: A managed tool stays in its workspace: a command the daemon accepts is the closed filter, or
  names a path that resolves, with what does not exist yet below its deepest existing ancestor, to the
  workspace followed by plain names only.\<close>

theorem managed_tool_confined:
  assumes "validate_managed_fork_tool fs args workspace = Inr ()" and "resolves fs" and "is_absolute workspace"
  shows "args = pipe_filter \<or>
    (\<exists>p names. managed_path args = Inr p \<and> ParentDir \<notin> set (components p) \<and>
       canonicalize_future_path fs (path_join workspace (components p)) = Inr (workspace @ map NormalName names))"
proof (cases "args = pipe_filter")
  case False
  with assms(1) obtain p confined where p: "managed_path args = Inr p" "ParentDir \<notin> set (components p)"
    and c: "canonicalize_future_path fs (path_join workspace (components p)) = Inr confined"
    and st: "path_starts_with confined workspace"
    by (auto simp: validate_managed_fork_tool_def Let_def split: sum.splits if_splits)
  from c obtain canonical ns existing where cn: "confined = canonical @ map NormalName ns"
    "pf_canonicalize fs existing = Some canonical"
    using future_walk_Inr [OF c [unfolded canonicalize_future_path_def]] by auto
  with assms(2) have ab: "is_absolute canonical" "ParentDir \<notin> set canonical" "CurDir \<notin> set canonical"
    "RootDir \<notin> set (tl canonical)" by (auto simp: resolves_def)
  then obtain cs where cs: "confined = RootDir # cs" "\<forall>x \<in> set cs. x \<notin> {RootDir, CurDir, ParentDir}"
    using cn(1) by (cases canonical) (auto simp: is_absolute_def)
  define rest where "rest = drop (length workspace) confined"
  have conf: "confined = workspace @ rest"
    using st unfolding path_starts_with_def rest_def by (metis append_take_drop_id)
  from assms(3) obtain ws where "workspace = RootDir # ws" by (cases workspace) (auto simp: is_absolute_def)
  with conf cs have "\<forall>x \<in> set rest. x \<notin> {RootDir, CurDir, ParentDir}" by auto
  then have "\<forall>x \<in> set rest. \<exists>n. x = NormalName n" by (metis component.exhaust insertI1 insertI2)
  then obtain names where "rest = map NormalName names" by (metis ex_map_conv)
  with p c conf show ?thesis by blast
qed simp

text \<open>A file system with the directory \<open>/w\<close>, a new file below it.\<close>

definition sample_fs :: path_fs where
  "sample_fs = \<lparr>pf_exists = \<lambda>p. p = [RootDir, NormalName (lit ''w'')],
     pf_canonicalize = \<lambda>p. if p = [RootDir, NormalName (lit ''w'')] then Some p else None\<rparr>"

definition sample_create :: "rstr list" where
  "sample_create = [lit ''write'', lit ''--output'', lit ''json'', lit ''create'', lit ''a/b'',
     lit ''--content'', lit ''@-'']"

theorem managed_tool_confined_witness:
  "sample_create = pipe_filter \<or>
    (\<exists>p names. managed_path sample_create = Inr p \<and> ParentDir \<notin> set (components p) \<and>
       canonicalize_future_path sample_fs (path_join [RootDir, NormalName (lit ''w'')] (components p)) =
         Inr ([RootDir, NormalName (lit ''w'')] @ map NormalName names))"
proof (rule managed_tool_confined)
  show "resolves sample_fs" by (auto simp: resolves_def sample_fs_def is_absolute_def split: if_splits)
  show "is_absolute [RootDir, NormalName (lit ''w'')]" by (simp add: is_absolute_def)
  show "validate_managed_fork_tool sample_fs sample_create [RootDir, NormalName (lit ''w'')] = Inr ()"
    by code_simp
qed

end
