(* ===== verification/Read_Files.thy ===== *)
theory Read_Files
  imports Managed_Tools Read_Costs Utf8_Check
begin

text \<open>
  Typed reads (\<open>read_files\<close> of \<open>crates/hzr-daemon/src/api/read.rs\<close>, with \<open>canonical_workspace\<close> of
  \<open>api.rs\<close>): ranges of lines of several files within a token budget, each range checked against the
  source that was hashed. What the file system holds before and after the fork ran, what the fork
  printed, hashes and the lengths of serialized values are arguments. The costs observed for a
  session are the state.
\<close>

section \<open>Types\<close>

record read_api_request =
  rq_context_epoch :: "rstr option"
  rq_cwd :: rstr
  rq_paths :: "rstr list"
  rq_from :: "nat option"
  rq_to :: "nat option"
  rq_max_lines :: "nat option"
  rq_max_tokens :: "nat option"
  rq_expected_sha256 :: "rstr option"
  rq_agent :: "rstr option"
  rq_session_id :: "rstr option"

record read_api_response =
  rr_files :: "read_file_result list"
  rr_remaining_paths :: "rstr list"
  rr_estimated_tokens :: nat
  rr_max_tokens :: nat

record fork_result =
  fr_stdout :: rstr
  fr_exited :: bool
  fr_exit_code :: "int option"
  fr_stdout_truncated :: bool

record file_view =
  fv_metadata :: "(bool \<times> nat) option"
  fv_read :: "u8 list option"

text \<open>The file system and the fork may answer each path of a request differently: the answers are
  functions of the number of files read before. \<open>re_view\<close> is what opening a path gives, before the fork
  ran for it and after.\<close>

record read_env =
  re_costs :: cost_env
  re_fs :: "nat \<Rightarrow> path_fs"
  re_canonicalize :: "rstr \<Rightarrow> component list option"
  re_is_dir :: "component list \<Rightarrow> bool"
  re_path_text :: "component list \<Rightarrow> rstr"
  re_view :: "nat \<Rightarrow> bool \<Rightarrow> component list \<Rightarrow> file_view option"
  re_fork :: "nat \<Rightarrow> rstr list \<Rightarrow> api_error + fork_result"
  re_digest :: "u8 list \<Rightarrow> rstr"
  re_response_len :: "read_api_response \<Rightarrow> nat"
  re_line_len :: "rstr \<Rightarrow> nat"

definition max_source_bytes :: nat where
  "max_source_bytes = 4 * 1024 * 1024"

definition canonical_workspace :: "read_env \<Rightarrow> rstr \<Rightarrow> api_error + component list" where
  "canonical_workspace env v =
     (if trim v = [] then Inl (bad_request (lit ''workspace path must not be empty''))
      else case re_canonicalize env v of
        None \<Rightarrow> Inl (bad_request (lit ''invalid workspace path''))
      | Some p \<Rightarrow>
          if \<not> re_is_dir env p then Inl (bad_request (lit ''workspace path must be a directory''))
          else Inr p)"

definition read_bounded_source :: "read_env \<Rightarrow> nat \<Rightarrow> bool \<Rightarrow> component list \<Rightarrow> api_error + u8 list" where
  "read_bounded_source env n later p =
     (case re_view env n later p of
        None \<Rightarrow> Inl (bad_request (lit ''open source''))
      | Some v \<Rightarrow>
          (case fv_metadata v of
             None \<Rightarrow> Inl (bad_request (lit ''read metadata''))
           | Some (is_file, len) \<Rightarrow>
               if \<not> is_file \<or> len > max_source_bytes
               then Inl (bad_request (lit ''typed read requires a UTF-8 file no larger than 4 MiB''))
               else (case fv_read v of
                       None \<Rightarrow> Inl (bad_request (lit ''read source''))
                     | Some bytes \<Rightarrow>
                         if length bytes > max_source_bytes
                         then Inl (bad_request (lit ''source grew beyond the 4 MiB read limit''))
                         else Inr bytes)))"

section \<open>The request\<close>

definition read_limit :: "read_api_request \<Rightarrow> nat" where
  "read_limit request = (case rq_max_tokens request of Some m \<Rightarrow> m | None \<Rightarrow> 8192)"

definition first_line :: "read_api_request \<Rightarrow> nat" where
  "first_line request = (case rq_from request of Some n \<Rightarrow> n | None \<Rightarrow> 1)"

definition validate_read :: "read_api_request \<Rightarrow> api_error + unit" where
  "validate_read request =
     (let limit = read_limit request; line_from = first_line request
      in if limit < 1024 \<or> limit > 48000 \<or> rq_paths request = [] \<or> length (rq_paths request) > 32
         then Inl (bad_request (lit ''read requires 1..32 paths and a token budget of 1024..48000''))
         else if line_from = 0 \<or> (case rq_to request of Some t \<Rightarrow> t < line_from | None \<Rightarrow> False) \<or>
                 rq_max_lines request = Some 0
         then Inl (bad_request (lit ''read ranges must be positive and ordered''))
         else if rq_expected_sha256 request \<noteq> None \<and> length (rq_paths request) \<noteq> 1
         then Inl (bad_request (lit ''expected_sha256 requires exactly one path''))
         else if list_ex (\<lambda>p. trim p = [] \<or> blen p > 4096) (rq_paths request)
         then Inl (bad_request (lit ''read paths must contain 1..4096 UTF-8 bytes''))
         else if (case rq_expected_sha256 request of
                    Some h \<Rightarrow> blen h \<noteq> 64 \<or> \<not> list_all is_ascii_hexdigit h | None \<Rightarrow> False)
         then Inl (bad_request (lit ''expected_sha256 must be 64 hexadecimal digits''))
         else if (case rq_context_epoch request of Some e \<Rightarrow> e = [] \<or> blen e > 128 | None \<Rightarrow> False)
         then Inl (bad_request (lit ''context_epoch must contain 1..128 UTF-8 bytes''))
         else if rq_context_epoch request \<noteq> None \<and>
                 (case rq_session_id request of Some s \<Rightarrow> s = [] \<or> blen s > 256 | None \<Rightarrow> True)
         then Inl (bad_request (lit ''context_epoch requires a session_id of 1..256 UTF-8 bytes''))
         else Inr ())"

section \<open>One file\<close>

text \<open>The last line that fits, from the lines of the range in order.\<close>

primrec fit_lines :: "(rstr \<Rightarrow> nat) \<Rightarrow> nat \<Rightarrow> nat \<Rightarrow> nat \<Rightarrow> nat \<Rightarrow> rstr list \<Rightarrow> nat" where
  "fit_lines len available used number fitted [] = fitted"
| "fit_lines len available used number fitted (l # ls) =
     (if used + len l + 2 > available then fitted
      else fit_lines len available (used + len l + 2) (number + 1) number ls)"

definition last_line :: "read_api_request \<Rightarrow> nat \<Rightarrow> nat" where
  "last_line request count =
     min (min (case rq_to request of Some t \<Rightarrow> t | None \<Rightarrow> count) count)
       (sat_add (first_line request)
         ((case rq_max_lines request of Some m \<Rightarrow> m | None \<Rightarrow> u64_max) - 1))"

definition empty_result :: "read_env \<Rightarrow> read_api_request \<Rightarrow> rstr \<Rightarrow> u8 list \<Rightarrow> nat \<Rightarrow> read_file_result" where
  "empty_result env request p bytes count =
     (let line_from = first_line request
      in \<lparr>rf_cost_advice = None, rf_path = p, rf_source_sha256 = re_digest env bytes,
          rf_source_bytes = length bytes, rf_total_lines = count, rf_from = line_from, rf_to = line_from - 1,
          rf_next_line = (if line_from \<le> count then Some line_from else None), rf_complete = (count = 0),
          rf_content = []\<rparr>)"

definition range_text :: "nat \<Rightarrow> nat \<Rightarrow> rstr list \<Rightarrow> rstr" where
  "range_text line_from line_to lines = concat (take (line_to - line_from + 1) (drop (line_from - 1) lines))"

text \<open>The source of a path: where it is, its bytes and its text.\<close>

definition open_source ::
  "read_env \<Rightarrow> nat \<Rightarrow> read_api_request \<Rightarrow> component list \<Rightarrow> rstr \<Rightarrow>
   api_error + component list \<times> u8 list \<times> rstr" where
  "open_source env n request cwd p =
     (case validate_managed_fork_tool (re_fs env n) [lit ''read'', p, lit ''--level'', lit ''none''] cwd of
        Inl e \<Rightarrow> Inl e
      | Inr _ \<Rightarrow>
          (case pf_canonicalize (re_fs env n) (path_join cwd (components p)) of
             None \<Rightarrow> Inl (bad_request (lit ''resolve source''))
           | Some absolute \<Rightarrow>
               if \<not> path_starts_with absolute cwd
               then Inl (bad_request (lit ''read source escapes workspace''))
               else (case read_bounded_source env n False absolute of
                       Inl e \<Rightarrow> Inl e
                     | Inr bytes \<Rightarrow>
                         (case decode_utf8 bytes of
                            None \<Rightarrow> Inl (bad_request (lit ''typed read requires UTF-8''))
                          | Some source \<Rightarrow>
                              if (case rq_expected_sha256 request of
                                    Some h \<Rightarrow> h \<noteq> re_digest env bytes | None \<Rightarrow> False)
                              then Inl (service (lit ''source_changed'')
                                (lit ''source hash changed; request fresh evidence before expanding'') False)
                              else Inr (absolute, bytes, source)))))"

text \<open>The fork's output for a range, accepted only when it is the range of the hashed source.\<close>

definition fetch_range ::
  "read_env \<Rightarrow> nat \<Rightarrow> component list \<Rightarrow> u8 list \<Rightarrow> rstr list \<Rightarrow> nat \<Rightarrow> nat \<Rightarrow> api_error + rstr" where
  "fetch_range env n absolute bytes lines line_from line_to =
     (case re_fork env n [lit ''read'', re_path_text env absolute, lit ''--level'', lit ''none'',
              lit ''--from'', show_nat line_from, lit ''--to'', show_nat line_to] of
        Inl e \<Rightarrow> Inl e
      | Inr result \<Rightarrow>
          if \<not> fr_exited result \<or> fr_exit_code result \<noteq> Some 0 \<or> fr_stdout_truncated result
          then Inl (service (lit ''read_incomplete'') (lit ''fork read did not complete'') True)
          else (case read_bounded_source env n True absolute of
                  Inl e \<Rightarrow> Inl e
                | Inr after \<Rightarrow>
                    if re_digest env after \<noteq> re_digest env bytes
                    then Inl (service (lit ''source_changed'')
                      (lit ''source changed during read; result was discarded'') True)
                    else if fr_stdout result \<noteq> range_text line_from line_to lines
                    then Inl (service (lit ''read_fidelity_invalid'')
                      (lit ''fork output differs from the exact requested source range'') False)
                    else Inr (fr_stdout result)))"

definition complete_result ::
  "read_env \<Rightarrow> nat \<Rightarrow> component list \<Rightarrow> u8 list \<Rightarrow> rstr list \<Rightarrow> read_file_result \<Rightarrow> nat \<Rightarrow>
   api_error + read_file_result" where
  "complete_result env n absolute bytes lines rf line_to =
     (let line_from = rf_from rf; count = length lines
      in if line_from > count then Inr (rf\<lparr>rf_to := count, rf_next_line := None\<rparr>)
         else case fetch_range env n absolute bytes lines line_from line_to of
           Inl e \<Rightarrow> Inl e
         | Inr content \<Rightarrow> Inr (rf\<lparr>rf_to := line_to, rf_content := content,
             rf_next_line := (if line_to < count then Some (line_to + 1) else None),
             rf_complete := (line_from = 1 \<and> line_to = count)\<rparr>))"

section \<open>All files\<close>

datatype path_step =
    PathError api_error
  | PathBreak
  | PathDone read_api_response "(rstr \<times> nat) list"

definition add_file :: "read_file_result \<Rightarrow> read_api_response \<Rightarrow> read_api_response" where
  "add_file rf r = r\<lparr>rr_files := rr_files r @ [rf], rr_remaining_paths := tl (rr_remaining_paths r)\<rparr>"

text \<open>The last line delivered: the complete envelope is reserved, then lines are taken while they fit.\<close>

definition fitted_line ::
  "read_env \<Rightarrow> read_api_request \<Rightarrow> nat \<Rightarrow> read_api_response \<Rightarrow> read_file_result \<Rightarrow> rstr list \<Rightarrow> nat" where
  "fitted_line env request reserve r rf lines =
     (let line_from = first_line request;
          base = re_response_len env (add_file rf r);
          available = min (read_limit request * 4) u64_max - (base + 128 + reserve * (length (rr_files r) + 1))
      in fit_lines (re_line_len env) available 0 line_from (line_from - 1)
           (take (last_line request (length lines) + 1 - line_from) (drop (line_from - 1) lines)))"

text \<open>One path: an error, a break that leaves the response as it was, or the file added.\<close>

definition read_path ::
  "read_env \<Rightarrow> read_api_request \<Rightarrow> component list \<Rightarrow> nat \<Rightarrow> read_api_response \<Rightarrow> (rstr \<times> nat) list \<Rightarrow> rstr \<Rightarrow>
   path_step" where
  "read_path env request cwd reserve r pending p =
     (case open_source env (length (rr_files r)) request cwd p of
        Inl e \<Rightarrow> PathError e
      | Inr (absolute, bytes, source) \<Rightarrow>
          let limit = read_limit request; line_from = first_line request;
              lines = split_inclusive source; count = length lines;
              rf = empty_result env request p bytes count;
              line_to = fitted_line env request reserve r rf lines
          in if line_to < line_from \<and> line_from \<le> count
             then (if rr_files r = []
                   then PathError (bad_request
                     (lit ''one source line exceeds the read budget; increase max_tokens or use tracked exact CLI recovery''))
                   else PathBreak)
             else (case complete_result env (length (rr_files r)) absolute bytes lines rf line_to of
                     Inl e \<Rightarrow> PathError e
                   | Inr rf' \<Rightarrow>
                       let r' = add_file rf' r
                       in if re_response_len env r' + 32 + reserve * length (rr_files r') > limit * 4
                          then PathBreak
                          else PathDone r' (if reserve \<noteq> 0
                            then pending @ [(re_path_text env absolute, source_json_bytes source)]
                            else pending)))"

primrec read_paths ::
  "read_env \<Rightarrow> read_api_request \<Rightarrow> component list \<Rightarrow> nat \<Rightarrow> read_api_response \<Rightarrow> (rstr \<times> nat) list \<Rightarrow> rstr list \<Rightarrow>
   api_error + read_api_response \<times> (rstr \<times> nat) list" where
  "read_paths env request cwd reserve r pending [] = Inr (r, pending)"
| "read_paths env request cwd reserve r pending (p # ps) =
     (case read_path env request cwd reserve r pending p of
        PathError e \<Rightarrow> Inl e
      | PathBreak \<Rightarrow> Inr (r, pending)
      | PathDone r' pending' \<Rightarrow> read_paths env request cwd reserve r' pending' ps)"

section \<open>Advice and the token count\<close>

text \<open>The files with their advice, in order; the envelope is spread over them.\<close>

primrec advise_files ::
  "cost_env \<Rightarrow> (nat \<Rightarrow> instant) \<Rightarrow> (rstr \<Rightarrow> rstr list) \<Rightarrow> nat \<Rightarrow> nat \<Rightarrow> nat \<Rightarrow>
   (read_file_result \<times> rstr \<times> nat) list \<Rightarrow> read_costs \<Rightarrow> (read_costs \<times> read_file_result list) option" where
  "advise_files env clock identity_of envelope count index [] costs = Some (costs, [])"
| "advise_files env clock identity_of envelope count index (x # xs) costs =
     (case x of (rf, absolute, source_bytes) \<Rightarrow>
        (case observe env (clock index) (identity_of absolute) rf source_bytes
                (envelope div count + (if index < envelope mod count then 1 else 0)) costs of
           None \<Rightarrow> None
         | Some (costs', advice) \<Rightarrow>
             (case advise_files env clock identity_of envelope count (index + 1) xs costs' of
                None \<Rightarrow> None
              | Some (costs'', rfs) \<Rightarrow> Some (costs'', rf\<lparr>rf_cost_advice := Some advice\<rparr> # rfs))))"

definition advise_response ::
  "read_env \<Rightarrow> (nat \<Rightarrow> instant) \<Rightarrow> read_api_request \<Rightarrow> component list \<Rightarrow> read_api_response \<Rightarrow> (rstr \<times> nat) list \<Rightarrow>
   read_costs \<Rightarrow> (read_costs \<times> read_api_response) option" where
  "advise_response env clock request cwd r pending costs =
     (case (rq_context_epoch request, rq_session_id request) of
        (Some epoch, Some session) \<Rightarrow>
          if rr_files r = [] then Some (costs, r)
          else
            let r1 = r\<lparr>rr_estimated_tokens := read_limit request\<rparr>;
                envelope = re_response_len env r1 - sum_list (map (ce_file_len (re_costs env)) (rr_files r1));
                identity = (\<lambda>absolute. [re_path_text env cwd, absolute, session, epoch,
                  case rq_agent request of Some a \<Rightarrow> a | None \<Rightarrow> lit ''unknown''])
            in map_option
                 (\<lambda>(costs', rfs). (costs', r1\<lparr>rr_files := rfs @ drop (length pending) (rr_files r1)\<rparr>))
                 (advise_files (re_costs env) clock identity envelope (length (rr_files r1)) 0
                   (zip (rr_files r1) pending) costs)
      | _ \<Rightarrow> Some (costs, r))"

definition token_round :: "read_env \<Rightarrow> read_api_response \<Rightarrow> read_api_response" where
  "token_round env r = r\<lparr>rr_estimated_tokens := div_ceil (re_response_len env r) 4\<rparr>"

definition first_response :: "read_api_request \<Rightarrow> read_api_response" where
  "first_response request = \<lparr>rr_files = [], rr_remaining_paths = rq_paths request, rr_estimated_tokens = 0,
     rr_max_tokens = read_limit request\<rparr>"

definition read_reserve :: "read_api_request \<Rightarrow> nat" where
  "read_reserve request = (if rq_context_epoch request \<noteq> None then advice_reserve_bytes else 0)"

text \<open>What reading gives before advice and count: no coverage is recorded for a request that fails.\<close>

definition read_batch ::
  "read_env \<Rightarrow> read_api_request \<Rightarrow> api_error + component list \<times> read_api_response \<times> (rstr \<times> nat) list" where
  "read_batch env request =
     (case validate_read request of
        Inl e \<Rightarrow> Inl e
      | Inr _ \<Rightarrow>
          (case canonical_workspace env (rq_cwd request) of
             Inl e \<Rightarrow> Inl e
           | Inr cwd \<Rightarrow>
               if re_response_len env (first_response request) + 128 > read_limit request * 4
               then Inl (bad_request (lit ''path metadata exceeds the read budget; reduce the batch''))
               else map_sum id (Pair cwd) (read_paths env request cwd (read_reserve request)
                 (first_response request) [] (rq_paths request))))"

definition read_files ::
  "read_env \<Rightarrow> (nat \<Rightarrow> instant) \<Rightarrow> read_api_request \<Rightarrow> read_costs \<Rightarrow>
   (read_costs \<times> (api_error + read_api_response)) option" where
  "read_files env clock request costs =
     (case read_batch env request of
        Inl e \<Rightarrow> Some (costs, Inl e)
      | Inr (cwd, r, pending) \<Rightarrow>
          (case advise_response env clock request cwd r pending costs of
             None \<Rightarrow> None
           | Some (costs', r') \<Rightarrow> map_option (\<lambda>r''. (costs', Inr r'')) (settle (token_round env) r')))"

section \<open>What is delivered\<close>

lemma concat_nonempty_length: "[] \<notin> set ls \<Longrightarrow> length ls \<le> length (concat ls)"
proof (induction ls)
  case (Cons l ls)
  then show ?case by (cases l) auto
qed simp

lemma range_text_whole:
  assumes "[] \<notin> set ls" and "1 \<le> a" and "a \<le> b" and "b \<le> length ls"
  shows "range_text a b ls = concat ls \<longleftrightarrow> a = 1 \<and> b = length ls"
proof
  assume eq: "range_text a b ls = concat ls"
  let ?pre = "take (a - 1) ls" and ?mid = "take (b - a + 1) (drop (a - 1) ls)" and ?post = "drop b ls"
  have "drop (b - a + 1) (drop (a - 1) ls) = ?post" using assms(2,3) by simp
  then have "ls = ?pre @ ?mid @ ?post" by (metis append_take_drop_id)
  then have "length (concat ls) = length (concat ?pre) + length (concat ?mid) + length (concat ?post)"
    by (metis concat_append length_append add.assoc)
  with eq have "length (concat ?pre) = 0" "length (concat ?post) = 0" by (simp_all add: range_text_def)
  moreover have "[] \<notin> set ?pre" "[] \<notin> set ?post" using assms(1) by (meson in_set_takeD in_set_dropD)+
  ultimately have "length ?pre = 0" "length ?post = 0" using concat_nonempty_length by (metis le_zero_eq)+
  then show "a = 1 \<and> b = length ls" using assms(2-4) by auto
qed (simp add: range_text_def)

text \<open>A result delivers a range of a source: whole lines, the place to go on, and whether it is all.\<close>

definition exact_range :: "rstr \<Rightarrow> read_file_result \<Rightarrow> bool" where
  "exact_range source rf \<longleftrightarrow>
     (let lines = split_inclusive source
      in rf_total_lines rf = length lines \<and> rf_to rf \<le> length lines \<and>
         rf_content rf = concat (take (rf_to rf + 1 - rf_from rf) (drop (rf_from rf - 1) lines)) \<and>
         rf_next_line rf = (if rf_to rf < length lines then Some (rf_to rf + 1) else None) \<and>
         (rf_complete rf \<longleftrightarrow> rf_content rf = source))"

lemma fit_lines_le:
  "fit_lines len available used number fitted ls \<le> max fitted (number + length ls - 1)"
proof (induction ls arbitrary: used number fitted)
  case (Cons l ls)
  show ?case using Cons.IH [of "used + len l + 2" "number + 1" number] by (auto simp: le_max_iff_disj)
qed simp

lemma fetch_range_Inr:
  "fetch_range env n absolute bytes ls a b = Inr content \<Longrightarrow> content = range_text a b ls"
  by (auto simp: fetch_range_def split: sum.splits if_splits)

lemma complete_result_exact:
  assumes "complete_result env n absolute bytes (split_inclusive source)
      (empty_result env request p bytes (length (split_inclusive source))) line_to = Inr rf"
    and "1 \<le> first_line request"
    and "first_line request \<le> length (split_inclusive source) \<Longrightarrow>
      first_line request \<le> line_to \<and> line_to \<le> length (split_inclusive source)"
  shows "exact_range source rf \<and> rf_path rf = p \<and> rf_from rf = first_line request \<and>
    rf_source_sha256 rf = re_digest env bytes \<and> rf_source_bytes rf = length bytes \<and>
    rf_to rf = (if first_line request \<le> length (split_inclusive source) then line_to
                else length (split_inclusive source)) \<and> rf_cost_advice rf = None"
proof (cases "first_line request \<le> length (split_inclusive source)")
  case True
  with assms(1) obtain content where rf: "rf = (empty_result env request p bytes (length (split_inclusive source)))
      \<lparr>rf_to := line_to, rf_content := content,
       rf_next_line := (if line_to < length (split_inclusive source) then Some (line_to + 1) else None),
       rf_complete := (first_line request = 1 \<and> line_to = length (split_inclusive source))\<rparr>"
    and c: "content = range_text (first_line request) line_to (split_inclusive source)"
    by (auto simp: complete_result_def empty_result_def Let_def dest!: fetch_range_Inr split: sum.splits if_splits)
  have "content = source \<longleftrightarrow> first_line request = 1 \<and> line_to = length (split_inclusive source)"
    using range_text_whole [OF split_inclusive_nonempty assms(2), of line_to source] assms(3) [OF True] c
    by (simp add: split_inclusive_concat)
  moreover have "content = concat (take (line_to + 1 - first_line request)
      (drop (first_line request - 1) (split_inclusive source)))"
    using assms(3) [OF True] by (simp add: c range_text_def Suc_diff_le)
  ultimately show ?thesis using True assms(3) [OF True]
    unfolding rf by (auto simp: exact_range_def empty_result_def Let_def)
next
  case False
  have "(length (split_inclusive source) = 0) = (source = [])"
    using split_inclusive_concat [of source] by (cases source) auto
  with False assms show ?thesis
    by (auto simp: complete_result_def exact_range_def empty_result_def Let_def)
qed

text \<open>What a delivered file is: a range of a source below the workspace, as asked for.\<close>

definition delivered :: "read_env \<Rightarrow> read_api_request \<Rightarrow> component list \<Rightarrow> read_file_result \<Rightarrow> bool" where
  "delivered env request cwd rf \<longleftrightarrow>
     (\<exists>n absolute bytes source.
        pf_canonicalize (re_fs env n) (path_join cwd (components (rf_path rf))) = Some absolute \<and>
        path_starts_with absolute cwd \<and> read_bounded_source env n False absolute = Inr bytes \<and>
        decode_utf8 bytes = Some source \<and> rf_source_sha256 rf = re_digest env bytes \<and>
        rf_source_bytes rf = length bytes \<and> exact_range source rf) \<and>
     rf_from rf = first_line request \<and>
     (case rq_to request of Some t \<Rightarrow> rf_to rf \<le> t | None \<Rightarrow> True) \<and>
     (case rq_max_lines request of Some m \<Rightarrow> rf_to rf + 1 - rf_from rf \<le> m | None \<Rightarrow> True) \<and>
     (case rq_expected_sha256 request of Some h \<Rightarrow> rf_source_sha256 rf = h | None \<Rightarrow> True)"

lemma exact_range_advice [simp]: "exact_range source (rf\<lparr>rf_cost_advice := a\<rparr>) = exact_range source rf"
  unfolding exact_range_def Let_def by simp

lemma delivered_advice [simp]:
  "delivered env request cwd (rf\<lparr>rf_cost_advice := a\<rparr>) = delivered env request cwd rf"
  by (simp add: delivered_def cong: option.case_cong)

lemma open_source_Inr:
  "open_source env n request cwd p = Inr (absolute, bytes, source) \<Longrightarrow>
   pf_canonicalize (re_fs env n) (path_join cwd (components p)) = Some absolute \<and> path_starts_with absolute cwd \<and>
   read_bounded_source env n False absolute = Inr bytes \<and> decode_utf8 bytes = Some source \<and>
   (case rq_expected_sha256 request of Some h \<Rightarrow> re_digest env bytes = h | None \<Rightarrow> True)"
  by (auto simp: open_source_def split: sum.splits option.splits if_splits)

lemma validate_read_Inr:
  assumes "validate_read request = Inr ()"
  shows "1024 \<le> read_limit request" "read_limit request \<le> 48000" "1 \<le> first_line request"
    "rq_max_lines request \<noteq> Some 0" "\<And>t. rq_to request = Some t \<Longrightarrow> first_line request \<le> t"
    "rq_context_epoch request \<noteq> None \<Longrightarrow> rq_session_id request \<noteq> None"
  using assms by (auto simp: validate_read_def Let_def split: if_splits option.splits)

text \<open>What reading keeps: the paths are the files read and those that remain, each file is delivered,
  and the response with the bytes kept for advice is within the budget.\<close>

definition batch_ok ::
  "read_env \<Rightarrow> read_api_request \<Rightarrow> component list \<Rightarrow> read_api_response \<Rightarrow> (rstr \<times> nat) list \<Rightarrow> bool" where
  "batch_ok env request cwd r pending \<longleftrightarrow>
     map rf_path (rr_files r) @ rr_remaining_paths r = rq_paths request \<and>
     list_all (delivered env request cwd) (rr_files r) \<and> rr_estimated_tokens r = 0 \<and>
     rr_max_tokens r = read_limit request \<and>
     length pending = (if read_reserve request = 0 then 0 else length (rr_files r)) \<and>
     re_response_len env r + 32 + read_reserve request * length (rr_files r) \<le> read_limit request * 4"

lemma fitted_range:
  shows "fitted_line env request reserve r rf lines \<le> max (first_line request - 1) (last_line request (length lines))"
    and "first_line request \<le> length lines \<Longrightarrow> fitted_line env request reserve r rf lines \<le> length lines"
proof -
  let ?ls = "take (last_line request (length lines) + 1 - first_line request) (drop (first_line request - 1) lines)"
  have "length ?ls \<le> last_line request (length lines) + 1 - first_line request" by simp
  moreover have "max (f - 1) (f + k - 1) \<le> max (f - 1) l" if "k \<le> l + 1 - f" for f k l :: nat
    using that by arith
  ultimately have "max (first_line request - 1) (first_line request + length ?ls - 1) \<le>
      max (first_line request - 1) (last_line request (length lines))" by blast
  then show b: "fitted_line env request reserve r rf lines \<le>
      max (first_line request - 1) (last_line request (length lines))"
    unfolding fitted_line_def Let_def by (rule order_trans [OF fit_lines_le])
  have "last_line request (length lines) \<le> length lines" by (simp add: last_line_def)
  with b show "first_line request \<le> length lines \<Longrightarrow> fitted_line env request reserve r rf lines \<le> length lines"
    by simp
qed

lemma last_line_bounds:
  "rq_to request = Some t \<Longrightarrow> last_line request count \<le> t"
  "rq_max_lines request = Some m \<Longrightarrow> m \<noteq> 0 \<Longrightarrow> last_line request count + 1 \<le> first_line request + m"
  by (auto simp: last_line_def sat_add_def min_def)

lemma read_path_PathDone:
  assumes "read_path env request cwd reserve r pending p = PathDone r' pending'" and valid: "validate_read request = Inr ()"
  obtains rf x where "r' = add_file rf r" "delivered env request cwd rf" "rf_path rf = p"
    "re_response_len env r' + 32 + reserve * length (rr_files r') \<le> read_limit request * 4"
    "pending' = (if reserve \<noteq> 0 then pending @ [x] else pending)"
proof -
  from assms(1) obtain absolute bytes source where
    o: "open_source env (length (rr_files r)) request cwd p = Inr (absolute, bytes, source)"
    by (auto simp: read_path_def split: sum.splits)
  let ?count = "length (split_inclusive source)"
  define line_to where "line_to = fitted_line env request reserve r (empty_result env request p bytes ?count)
    (split_inclusive source)"
  from assms(1) o have some: "first_line request \<le> ?count \<Longrightarrow> first_line request \<le> line_to"
    by (auto simp: read_path_def Let_def line_to_def split: if_splits)
  with assms(1) o obtain rf where
    c: "complete_result env (length (rr_files r)) absolute bytes (split_inclusive source)
      (empty_result env request p bytes ?count) line_to = Inr rf"
    by (cases "complete_result env (length (rr_files r)) absolute bytes (split_inclusive source)
        (empty_result env request p bytes ?count) line_to")
      (auto simp: read_path_def Let_def line_to_def [symmetric] split: if_splits)
  have r': "r' = add_file rf r" "re_response_len env r' + 32 + reserve * length (rr_files r') \<le> read_limit request * 4"
      "pending' = (if reserve \<noteq> 0 then pending @ [(re_path_text env absolute, source_json_bytes source)] else pending)"
    using assms(1) o some c
    by (auto simp: read_path_def Let_def line_to_def [symmetric] split: if_splits)
  note v = validate_read_Inr [OF valid] and src = open_source_Inr [OF o]
    and fit = fitted_range [where env = env and request = request and reserve = reserve and r = r and
        rf = "empty_result env request p bytes ?count" and lines = "split_inclusive source", folded line_to_def]
  have rf: "exact_range source rf \<and> rf_path rf = p \<and> rf_from rf = first_line request \<and>
    rf_source_sha256 rf = re_digest env bytes \<and> rf_source_bytes rf = length bytes \<and>
    rf_to rf = (if first_line request \<le> length (split_inclusive source) then line_to
                else length (split_inclusive source)) \<and> rf_cost_advice rf = None"
    by (rule complete_result_exact [OF c v(3)]) (use some fit in auto)
  have "rf_to rf \<le> t" if "rq_to request = Some t" for t
    using rf fit(1) last_line_bounds(1) [OF that, of "length (split_inclusive source)"] v(5) [OF that] by (auto simp: max_def split: if_splits)
  moreover have "rf_to rf + 1 - rf_from rf \<le> m" if "rq_max_lines request = Some m" for m
    using rf fit(1) last_line_bounds(2) [OF that, of "length (split_inclusive source)"] v(4) that
    by (auto simp: max_def split: if_splits)
  ultimately have "delivered env request cwd rf"
    using rf src by (auto simp: delivered_def split: option.splits)
  with that r' rf show thesis by blast
qed

lemma read_paths_ok:
  assumes "read_paths env request cwd (read_reserve request) r pending ps = Inr (r', pending')"
    and "validate_read request = Inr ()" and "batch_ok env request cwd r pending" and "rr_remaining_paths r = ps"
  shows "batch_ok env request cwd r' pending'"
  using assms
proof (induction ps arbitrary: r pending)
  case (Cons p ps)
  show ?case
  proof (cases "read_path env request cwd (read_reserve request) r pending p")
    case (PathDone r1 pending1)
    then obtain rf x where d: "r1 = add_file rf r" "delivered env request cwd rf" "rf_path rf = p"
      "re_response_len env r1 + 32 + read_reserve request * length (rr_files r1) \<le> read_limit request * 4"
      "pending1 = (if read_reserve request \<noteq> 0 then pending @ [x] else pending)"
      using read_path_PathDone [OF _ Cons.prems(2)] by blast
    have "batch_ok env request cwd r1 pending1"
      using Cons.prems(3,4) d by (auto simp: batch_ok_def add_file_def)
    moreover have "rr_remaining_paths r1 = ps" using d(1) Cons.prems(4) by (simp add: add_file_def)
    ultimately show ?thesis using Cons.IH Cons.prems(1,2) PathDone by simp
  qed (use Cons.prems in auto)
qed simp

lemma read_batch_ok:
  assumes "read_batch env request = Inr (cwd, r, pending)"
  shows "batch_ok env request cwd r pending" and "validate_read request = Inr ()"
    and "canonical_workspace env (rq_cwd request) = Inr cwd"
proof -
  from assms show valid: "validate_read request = Inr ()" and cw: "canonical_workspace env (rq_cwd request) = Inr cwd"
    by (auto simp: read_batch_def map_sum_Inr split: sum.splits if_splits)
  from assms valid cw have "re_response_len env (first_response request) + 128 \<le> read_limit request * 4"
    and ps: "read_paths env request cwd (read_reserve request) (first_response request) [] (rq_paths request) =
      Inr (r, pending)"
    by (auto simp: read_batch_def map_sum_Inr split: if_splits)
  then have "batch_ok env request cwd (first_response request) []"
    by (auto simp: batch_ok_def first_response_def)
  then show "batch_ok env request cwd r pending"
    by (rule read_paths_ok [OF ps valid]) (simp add: first_response_def)
qed

section \<open>Advice within its reserve\<close>

text \<open>Numbers of 64 bits, as the fields of an advice and the spans of an episode have them.\<close>

definition advice_u64 :: "read_cost_advice \<Rightarrow> bool" where
  "advice_u64 a \<longleftrightarrow>
     ad_method a = lit ''produced_utf8_bytes_div_4_advisory_v2'' \<and>
     ad_next_action a \<in> {lit ''complete'', lit ''read_remaining'', lit ''continue_if_needed''} \<and>
     (\<forall>n \<in> {ad_requests a, ad_produced a, ad_repeated a, ad_full a} \<union> set_option (ad_next_missing_from a) \<union>
        set_option (ad_next_missing_to a). n \<le> u64_max)"

definition spans_u64 :: "span list \<Rightarrow> bool" where
  "spans_u64 spans \<longleftrightarrow> list_all (\<lambda>s. fst s \<le> u64_max \<and> snd s \<le> u64_max) spans"

definition costs_u64 :: "read_costs \<Rightarrow> bool" where
  "costs_u64 costs \<longleftrightarrow> list_all (\<lambda>e. spans_u64 (ep_spans (snd e))) costs"

lemma push_span_u64: "spans_u64 spans \<Longrightarrow> spans_u64 [s] \<Longrightarrow> spans_u64 (push_span spans s)"
  by (cases spans rule: rev_cases) (auto simp: spans_u64_def push_span_def)

lemma foldl_push_u64: "spans_u64 acc \<Longrightarrow> spans_u64 spans \<Longrightarrow> spans_u64 (foldl push_span acc spans)"
  by (induction spans arbitrary: acc) (auto simp: spans_u64_def push_span_u64 [unfolded spans_u64_def])

lemma merge_spans_u64: "spans_u64 spans \<Longrightarrow> spans_u64 (merge_spans spans)"
proof -
  assume "spans_u64 spans"
  then have "spans_u64 (sort spans)" by (auto simp: spans_u64_def list_all_iff)
  then have "spans_u64 (foldl push_span [] (sort spans))" by (intro foldl_push_u64) (auto simp: spans_u64_def)
  then show ?thesis by (auto simp: merge_spans_def spans_u64_def list_all_iff dest: in_set_takeD)
qed

lemma observe_episode_u64:
  assumes "spans_u64 (ep_spans ep)" and "rf_to rf \<le> u64_max"
  shows "spans_u64 (ep_spans (observe_episode now rf ep))"
  using merge_spans_u64 [of "ep_spans ep @ [(rf_from rf, rf_to rf)]"] assms
  by (auto simp: observe_episode_def Let_def spans_u64_def)

lemma first_advice_u64:
  assumes "spans_u64 (ep_spans ep)" and "rf_total_lines rf \<le> u64_max"
    and "ep_requests ep \<le> u64_max" and "ep_repeated ep \<le> u64_max"
  shows "advice_u64 (first_advice rf ep)"
proof -
  have "fst x \<le> u64_max \<and> snd x \<le> u64_max" if "next_missing (rf_total_lines rf) (ep_spans ep) = Some x" for x
    using that assms(1,2) le_trans [OF diff_le_self]
    by (auto simp: next_missing_def Let_def spans_u64_def list_all_length find_Some_iff
        split: if_splits option.splits)
  with assms(3,4) show ?thesis by (auto simp: advice_u64_def first_advice_def Let_def)
qed

lemma settled_round:
  assumes "advice_costs env a selected full envelope prior = Some b" and "decimal_counters env"
  shows "\<exists>p f. b = a\<lparr>ad_produced := p, ad_full := f\<rparr> \<and> p \<le> u64_max \<and> f \<le> u64_max"
proof -
  from advice_costs_returns [OF assms(2), of a selected full envelope prior] assms(1)
  have fixed: "b = advice_round env selected full envelope prior b"
    and base: "b\<lparr>ad_produced := 0, ad_full := 0\<rparr> = a\<lparr>ad_produced := 0, ad_full := 0\<rparr>" by auto
  have "div_ceil (sat_add x y) 4 \<le> u64_max" for x y
    by (auto simp: div_ceil_def sat_add_def u64_max_def min_def)
  then have "ad_produced b \<le> u64_max" "ad_full b \<le> u64_max"
    by (subst fixed, simp add: advice_round_def Let_def sat_add_def)+
  moreover have "b = a\<lparr>ad_produced := ad_produced b, ad_full := ad_full b\<rparr>" using base by (cases a; cases b) simp
  ultimately show ?thesis by blast
qed

lemma advice_u64_update:
  "advice_u64 a \<Longrightarrow> p \<le> u64_max \<Longrightarrow> f \<le> u64_max \<Longrightarrow> advice_u64 (a\<lparr>ad_produced := p, ad_full := f\<rparr>)"
  "advice_u64 a \<Longrightarrow> advice_u64 (a\<lparr>ad_next_action := lit ''continue_if_needed''\<rparr>)"
  by (auto simp: advice_u64_def)

lemma observe_u64:
  assumes "observe env now identity rf source_bytes envelope costs = Some (costs', advice)"
    and "decimal_counters env" and "costs_u64 costs"
    and "rf_to rf \<le> u64_max" and "rf_total_lines rf \<le> u64_max"
  shows "advice_u64 advice \<and> costs_u64 costs'"
proof -
  let ?key = "episode_key env identity rf"
  let ?old = "case map_of (evict_oldest ?key costs) ?key of Some e \<Rightarrow> e | None \<Rightarrow> new_episode now"
  define ep where "ep = observe_episode now rf ?old"
  have old: "costs_u64 (evict_oldest ?key costs)"
    using assms(3) by (auto simp: evict_oldest_def costs_u64_def list_all_iff split: option.splits)
  then have "spans_u64 (ep_spans ?old)"
    by (fastforce simp: costs_u64_def list_all_iff new_episode_def spans_u64_def
        split: option.splits dest!: map_of_SomeD)
  then have ep: "spans_u64 (ep_spans ep)" unfolding ep_def using assms(4) by (rule observe_episode_u64)
  have "ep_requests ep \<le> u64_max" "ep_repeated ep \<le> u64_max"
    by (simp_all add: ep_def observe_episode_def Let_def sat_add_def)
  then have first: "advice_u64 (first_advice rf ep)" using ep assms(5) by (intro first_advice_u64)
  from assms(1) have fa: "final_advice env rf source_bytes envelope ep = Some advice"
    and c': "costs' = filter (\<lambda>e. fst e \<noteq> ?key) (evict_oldest ?key costs) @ [(?key, ep\<lparr>ep_produced := ad_produced advice\<rparr>)]"
    by (auto simp: observe_def Let_def ep_def split: option.splits)
  have "advice_u64 advice"
    using fa first unfolding final_advice_def Let_def
    by (auto split: option.splits if_splits dest!: settled_round [OF _ assms(2)] simp: advice_u64_update)
  moreover have "costs_u64 costs'" using old ep by (auto simp: c' costs_u64_def list_all_iff)
  ultimately show ?thesis by blast
qed

text \<open>What serialization promises: numbers are decimal, an advice adds its own length and its field
  name to a response, and an advice of 64-bit numbers fits the bytes kept for it.\<close>

definition counted_response :: "read_env \<Rightarrow> bool" where
  "counted_response env \<longleftrightarrow>
     (\<forall>r n. re_response_len env (r\<lparr>rr_estimated_tokens := n\<rparr>) + 1 =
        re_response_len env (r\<lparr>rr_estimated_tokens := 0\<rparr>) + length (show_nat n)) \<and>
     (\<forall>r xs rf ys a. re_response_len env (r\<lparr>rr_files := xs @ rf\<lparr>rf_cost_advice := Some a\<rparr> # ys\<rparr>) \<le>
        re_response_len env (r\<lparr>rr_files := xs @ rf # ys\<rparr>) + ce_advice_len (re_costs env) a + 15) \<and>
     (\<forall>a. advice_u64 a \<longrightarrow> ce_advice_len (re_costs env) a + 15 \<le> advice_reserve_bytes)"

definition file_u64 :: "read_file_result \<Rightarrow> bool" where
  "file_u64 rf \<longleftrightarrow> rf_to rf \<le> u64_max \<and> rf_total_lines rf \<le> u64_max"

lemma advise_files_ok:
  assumes "counted_response env" and "decimal_counters (re_costs env)"
  shows "costs_u64 costs \<Longrightarrow> length costs \<le> 1024 \<Longrightarrow> list_all (\<lambda>x. file_u64 (fst x)) xs \<Longrightarrow>
    \<exists>costs' rfs. advise_files (re_costs env) clock identity_of envelope count index xs costs = Some (costs', rfs) \<and>
      costs_u64 costs' \<and> length costs' \<le> 1024 \<and>
      list_all2 (\<lambda>x rf. \<exists>a. rf = (fst x)\<lparr>rf_cost_advice := Some a\<rparr>) xs rfs \<and>
      (\<forall>r pre post. re_response_len env (r\<lparr>rr_files := pre @ rfs @ post\<rparr>) \<le>
         re_response_len env (r\<lparr>rr_files := pre @ map fst xs @ post\<rparr>) + 512 * length xs)"
proof (induction xs arbitrary: costs index)
  case (Cons x xs)
  obtain rf absolute bytes where x: "x = (rf, absolute, bytes)" by (cases x) auto
  let ?env = "envelope div count + (if index < envelope mod count then 1 else 0)"
  obtain costs1 a where o: "observe (re_costs env) (clock index) (identity_of absolute) rf bytes ?env costs = Some (costs1, a)"
    and l1: "length costs1 \<le> 1024"
    using observe_ends [OF assms(2) Cons.prems(2)] by blast
  have u: "advice_u64 a" "costs_u64 costs1"
    using observe_u64 [OF o assms(2)] Cons.prems by (auto simp: x file_u64_def)
  obtain costs2 rfs where ih: "advise_files (re_costs env) clock identity_of envelope count (index + 1) xs costs1 = Some (costs2, rfs)"
    "costs_u64 costs2" "length costs2 \<le> 1024" "list_all2 (\<lambda>x rf. \<exists>a. rf = (fst x)\<lparr>rf_cost_advice := Some a\<rparr>) xs rfs"
    and len: "\<And>r pre post. re_response_len env (r\<lparr>rr_files := pre @ rfs @ post\<rparr>) \<le>
         re_response_len env (r\<lparr>rr_files := pre @ map fst xs @ post\<rparr>) + 512 * length xs"
    using Cons.IH [OF u(2) l1] Cons.prems(3) by fastforce
  let ?rf = "rf\<lparr>rf_cost_advice := Some a\<rparr>"
  have "re_response_len env (r\<lparr>rr_files := pre @ (?rf # rfs) @ post\<rparr>) \<le>
      re_response_len env (r\<lparr>rr_files := pre @ map fst (x # xs) @ post\<rparr>) + 512 * length (x # xs)" for r pre post
  proof -
    have "re_response_len env (r\<lparr>rr_files := pre @ ?rf # map fst xs @ post\<rparr>) \<le>
        re_response_len env (r\<lparr>rr_files := pre @ rf # map fst xs @ post\<rparr>) + ce_advice_len (re_costs env) a + 15"
      using assms(1) unfolding counted_response_def by blast
    moreover have "ce_advice_len (re_costs env) a + 15 \<le> 512"
      using assms(1) u(1) unfolding counted_response_def advice_reserve_bytes_def by blast
    moreover have "re_response_len env (r\<lparr>rr_files := (pre @ [?rf]) @ rfs @ post\<rparr>) \<le>
        re_response_len env (r\<lparr>rr_files := (pre @ [?rf]) @ map fst xs @ post\<rparr>) + 512 * length xs"
      by (rule len)
    ultimately show ?thesis by (simp add: x)
  qed
  with o ih show ?case by (auto simp: x)
qed simp

section \<open>The whole request\<close>

lemma advise_files_shape:
  "advise_files env clock identity_of envelope count index xs costs = Some (costs', rfs) \<Longrightarrow>
   list_all2 (\<lambda>x rf. \<exists>a. rf = (fst x)\<lparr>rf_cost_advice := Some a\<rparr>) xs rfs"
  by (induction xs arbitrary: index costs rfs) (auto split: option.splits, fastforce+)

lemma map_fst_zip_take: "map fst (zip xs ys) = take (length ys) xs"
  by (induction xs arbitrary: ys) (auto simp: zip_Cons1 split: list.splits)

text \<open>What the advice changes, for a given identity and envelope.\<close>

definition advised ::
  "read_env \<Rightarrow> (nat \<Rightarrow> instant) \<Rightarrow> read_api_request \<Rightarrow> (rstr \<Rightarrow> rstr list) \<Rightarrow> nat \<Rightarrow> read_api_response \<Rightarrow>
   (rstr \<times> nat) list \<Rightarrow> read_costs \<Rightarrow> (read_costs \<times> read_api_response) option" where
  "advised env clock request identity envelope r pending costs =
     map_option (\<lambda>(costs', rfs). (costs', r\<lparr>rr_estimated_tokens := read_limit request,
         rr_files := rfs @ drop (length pending) (rr_files r)\<rparr>))
       (advise_files (re_costs env) clock identity envelope (length (rr_files r)) 0 (zip (rr_files r) pending) costs)"

lemma advise_response_cases:
  obtains "advise_response env clock request cwd r pending costs = Some (costs, r)"
  | identity envelope where "rq_context_epoch request \<noteq> None"
      "advise_response env clock request cwd r pending costs =
         advised env clock request identity envelope r pending costs"
proof (cases "rq_context_epoch request = None \<or> rq_session_id request = None \<or> rr_files r = []")
  case True
  then have "advise_response env clock request cwd r pending costs = Some (costs, r)"
    by (auto simp: advise_response_def split: option.splits)
  then show thesis by (rule that(1))
next
  case False
  then obtain epoch session where "rq_context_epoch request = Some epoch" "rq_session_id request = Some session"
    by auto
  with False show thesis by (intro that(2)) (simp_all add: advise_response_def advised_def Let_def)
qed

lemma advise_response_files:
  assumes "advise_response env clock request cwd r pending costs = Some (costs', r')"
  shows "list_all2 (\<lambda>a b. \<exists>x. b = a\<lparr>rf_cost_advice := x\<rparr>) (rr_files r) (rr_files r')"
    and "rr_remaining_paths r' = rr_remaining_paths r"
proof -
  let ?R = "\<lambda>a b. \<exists>x. b = a\<lparr>rf_cost_advice := x\<rparr>"
  have same: "list_all2 ?R fs fs" for fs
    by (rule list.rel_refl) (metis read_file_result.surjective read_file_result.update_convs(1))
  have "list_all2 ?R (rr_files r) (rr_files r') \<and> rr_remaining_paths r' = rr_remaining_paths r"
  proof (cases rule: advise_response_cases [of env clock request cwd r pending costs])
    case (2 identity envelope)
    with assms obtain rfs where rfs: "list_all2 (\<lambda>x rf. \<exists>a. rf = (fst x)\<lparr>rf_cost_advice := Some a\<rparr>) (zip (rr_files r) pending) rfs"
      "r' = r\<lparr>rr_estimated_tokens := read_limit request, rr_files := rfs @ drop (length pending) (rr_files r)\<rparr>"
      using advise_files_shape by (fastforce simp: advised_def)
    have "list_all2 ?R (map fst (zip (rr_files r) pending)) rfs"
      using rfs(1) by (auto simp: list_all2_map1 elim!: list_all2_mono)
    then have "list_all2 ?R (take (length pending) (rr_files r) @ drop (length pending) (rr_files r))
        (rfs @ drop (length pending) (rr_files r))"
      unfolding map_fst_zip_take using same by (rule list_all2_appendI)
    then show ?thesis using rfs(2) by simp
  qed (use assms same in auto)
  then show "list_all2 ?R (rr_files r) (rr_files r')" and "rr_remaining_paths r' = rr_remaining_paths r" by auto
qed

lemma advised_files:
  assumes "list_all2 (\<lambda>a b. \<exists>x. b = a\<lparr>rf_cost_advice := x\<rparr>) fs fs'"
  shows "map rf_path fs' = map rf_path fs" and "map rf_content fs' = map rf_content fs"
    and "list_all (delivered env request cwd) fs' = list_all (delivered env request cwd) fs"
  using assms by (induction rule: list_all2_induct) auto

lemma read_files_Inr:
  assumes "read_files env clock request costs = Some (costs', Inr r)"
  obtains cwd r0 pending where "read_batch env request = Inr (cwd, r0, pending)"
    "list_all2 (\<lambda>a b. \<exists>x. b = a\<lparr>rf_cost_advice := x\<rparr>) (rr_files r0) (rr_files r)"
    "rr_remaining_paths r = rr_remaining_paths r0"
proof -
  from assms obtain cwd r0 pending r1 where b: "read_batch env request = Inr (cwd, r0, pending)"
    and a: "advise_response env clock request cwd r0 pending costs = Some (costs', r1)"
    and s: "settle (token_round env) r1 = Some r"
    by (auto simp: read_files_def split: sum.splits option.splits)
  have "rr_files r = rr_files r1 \<and> rr_remaining_paths r = rr_remaining_paths r1"
    by (rule settle_keeps [OF s]) (simp_all add: token_round_def)
  with advise_response_files [OF a] b that show thesis by simp
qed

text \<open>C8: A typed read delivers the truth: the files of a response are the first of the paths asked for, in
  order, and the rest are returned as remaining; each content is exactly the lines of its range of a valid
  source below the workspace, with the hash of that source, the next line to ask for, and complete exactly
  when the content is the whole source; the bounds and the expected hash of the request are respected.\<close>

theorem read_files_faithful:
  assumes "read_files env clock request costs = Some (costs', Inr r)"
  shows "\<exists>cwd. canonical_workspace env (rq_cwd request) = Inr cwd \<and>
    map rf_path (rr_files r) @ rr_remaining_paths r = rq_paths request \<and>
    list_all (delivered env request cwd) (rr_files r)"
proof (rule read_files_Inr [OF assms])
  fix cwd r0 pending
  assume b: "read_batch env request = Inr (cwd, r0, pending)"
    and f: "list_all2 (\<lambda>a b. \<exists>x. b = a\<lparr>rf_cost_advice := x\<rparr>) (rr_files r0) (rr_files r)"
    and p: "rr_remaining_paths r = rr_remaining_paths r0"
  from advised_files [OF f] p read_batch_ok [OF b] show ?thesis by (auto simp: batch_ok_def)
qed

section \<open>Within the budget\<close>

lemma utf8_chars_length: "length (utf8_chars bs) \<le> length bs"
proof (induction bs rule: utf8_chars.induct)
  case (2 b bs)
  show ?case
  proof (cases "utf8_char b bs")
    case (CharOk n)
    have "length (utf8_chars (drop n (b # bs))) \<le> length (b # bs) - n" using "2.IH" [OF CharOk] by simp
    also have "\<dots> \<le> length bs" using utf8_char_ok [OF CharOk] by (cases n) auto
    finally show ?thesis using CharOk by simp
  qed simp_all
qed simp

lemma split_inclusive_length: "length (split_inclusive s) \<le> length s"
  using concat_nonempty_length [OF split_inclusive_nonempty [of s]] by (simp add: split_inclusive_concat)

lemma delivered_u64: "delivered env request cwd rf \<Longrightarrow> file_u64 rf"
proof -
  assume "delivered env request cwd rf"
  then obtain n absolute bytes source where "read_bounded_source env n False absolute = Inr bytes"
    "decode_utf8 bytes = Some source" "exact_range source rf" unfolding delivered_def by blast
  then have "length bytes \<le> max_source_bytes" "source = utf8_chars bytes"
    "rf_total_lines rf = length (split_inclusive source)" "rf_to rf \<le> length (split_inclusive source)"
    by (auto simp: read_bounded_source_def decode_utf8_def exact_range_def Let_def
        split: option.splits if_splits)
  then show ?thesis using split_inclusive_length [of source] utf8_chars_length [of bytes]
    by (auto simp: file_u64_def max_source_bytes_def u64_max_def)
qed

text \<open>The loop that counts the tokens of a response within its budget ends, within the budget.\<close>

lemma token_count_ends:
  assumes "counted_response env" and "limit \<le> 48000" and "rr_estimated_tokens r \<le> limit"
    and room: "re_response_len env (r\<lparr>rr_estimated_tokens := 0\<rparr>) + 32 \<le> limit * 4"
  shows "\<exists>r'. settle (token_round env) r = Some r' \<and>
    rr_estimated_tokens r' = div_ceil (re_response_len env r') 4 \<and> rr_estimated_tokens r' \<le> limit \<and>
    rr_max_tokens r' = rr_max_tokens r"
proof -
  let ?ok = "\<lambda>x. \<exists>n \<le> limit. x = r\<lparr>rr_estimated_tokens := n\<rparr>"
  let ?width = "\<lambda>x. length (show_nat (rr_estimated_tokens x))"
  have len: "re_response_len env (r\<lparr>rr_estimated_tokens := n\<rparr>) + 1 =
      re_response_len env (r\<lparr>rr_estimated_tokens := 0\<rparr>) + length (show_nat n)" for n
    using assms(1) unfolding counted_response_def by blast
  have digits: "length (show_nat n) \<le> 5" if "n \<le> limit" for n
    using that assms(2) length_show [of n 4] by simp
  have fits: "div_ceil (re_response_len env (r\<lparr>rr_estimated_tokens := n\<rparr>)) 4 \<le> limit" if "n \<le> limit" for n
    using len [of n] digits [OF that] room by (simp add: div_ceil_def)
  have "\<exists>r'. settle (token_round env) r = Some r' \<and> token_round env r' = r' \<and> ?ok r'"
  proof (rule settle_returns [where width = ?width and ok = ?ok and n = 5])
    show ok: "?ok (token_round env x)" if "?ok x" for x
    proof -
      from that obtain n where "n \<le> limit" "x = r\<lparr>rr_estimated_tokens := n\<rparr>" by blast
      then have "token_round env x = r\<lparr>rr_estimated_tokens :=
          div_ceil (re_response_len env (r\<lparr>rr_estimated_tokens := n\<rparr>)) 4\<rparr>" by (simp add: token_round_def)
      with fits [OF \<open>n \<le> limit\<close>] show ?thesis by blast
    qed
    show "?width (token_round env x) \<le> 5" if "?ok x" for x
    proof -
      from ok [OF that] obtain n where "n \<le> limit" "token_round env x = r\<lparr>rr_estimated_tokens := n\<rparr>" by blast
      with digits show ?thesis by simp
    qed
    show "?width (token_round env x) \<le> ?width (token_round env y)"
      if xy: "?ok x" "?ok y" "?width x \<le> ?width y" for x y
    proof -
      from xy obtain m n where "x = r\<lparr>rr_estimated_tokens := m\<rparr>" "y = r\<lparr>rr_estimated_tokens := n\<rparr>" by blast
      with xy(3) len [of m] len [of n] show ?thesis
        by (auto simp: token_round_def intro!: length_show_mono div_ceil_mono)
    qed
    show "token_round env x = token_round env y" if xy: "?ok x" "?ok y" "?width x = ?width y" for x y
    proof -
      from xy obtain m n where "x = r\<lparr>rr_estimated_tokens := m\<rparr>" "y = r\<lparr>rr_estimated_tokens := n\<rparr>" by blast
      moreover from this xy(3) len [of m] len [of n]
      have "re_response_len env (r\<lparr>rr_estimated_tokens := m\<rparr>) = re_response_len env (r\<lparr>rr_estimated_tokens := n\<rparr>)"
        by simp
      ultimately show ?thesis by (simp add: token_round_def)
    qed
    have "r = r\<lparr>rr_estimated_tokens := rr_estimated_tokens r\<rparr>" by simp
    with assms(3) show "?ok r" by blast
  qed
  then obtain r' n where "settle (token_round env) r = Some r'" "token_round env r' = r'"
    "n \<le> limit" "r' = r\<lparr>rr_estimated_tokens := n\<rparr>" by blast
  then show ?thesis
    by (intro exI [of _ r']) (auto simp: token_round_def dest: arg_cong [where f = rr_estimated_tokens])
qed

lemma advise_response_within:
  assumes "counted_response env" and "decimal_counters (re_costs env)" and "batch_ok env request cwd r pending"
    and "costs_u64 costs" and "length costs \<le> 1024"
  shows "\<exists>costs' r'. advise_response env clock request cwd r pending costs = Some (costs', r') \<and>
    costs_u64 costs' \<and> length costs' \<le> 1024 \<and> rr_max_tokens r' = read_limit request \<and>
    rr_estimated_tokens r' \<le> read_limit request \<and>
    re_response_len env (r'\<lparr>rr_estimated_tokens := 0\<rparr>) + 32 \<le> read_limit request * 4"
proof (cases rule: advise_response_cases [of env clock request cwd r pending costs])
  case 1
  have "r\<lparr>rr_estimated_tokens := 0\<rparr> = r" using assms(3) by (simp add: batch_ok_def)
  moreover have "re_response_len env r + 32 \<le> read_limit request * 4" "rr_max_tokens r = read_limit request"
    "rr_estimated_tokens r \<le> read_limit request"
    using assms(3) by (auto simp: batch_ok_def)
  ultimately show ?thesis using 1 assms(4,5) by (intro exI [of _ costs] exI [of _ r]) simp
next
  case (2 identity envelope)
  let ?r0 = "r\<lparr>rr_estimated_tokens := 0\<rparr>"
  have r0: "?r0 = r" using assms(3) by (simp add: batch_ok_def)
  have reserve: "read_reserve request = 512" using 2(1) by (simp add: read_reserve_def advice_reserve_bytes_def)
  then have pend: "length pending = length (rr_files r)" using assms(3) by (simp add: batch_ok_def)
  have "list_all (\<lambda>x. file_u64 (fst x)) (zip (rr_files r) pending)"
    using assms(3) delivered_u64 by (fastforce simp: batch_ok_def list_all_iff dest: set_zip_leftD)
  from advise_files_ok [OF assms(1,2,4,5) this, of clock identity envelope "length (rr_files r)" 0]
  obtain costs' rfs where f: "advise_files (re_costs env) clock identity envelope (length (rr_files r)) 0
      (zip (rr_files r) pending) costs = Some (costs', rfs)" "costs_u64 costs'" "length costs' \<le> 1024"
    and len: "re_response_len env (?r0\<lparr>rr_files := [] @ rfs @ []\<rparr>) \<le>
      re_response_len env (?r0\<lparr>rr_files := [] @ map fst (zip (rr_files r) pending) @ []\<rparr>) + 512 * length (zip (rr_files r) pending)"
    by blast
  let ?r' = "r\<lparr>rr_estimated_tokens := read_limit request, rr_files := rfs\<rparr>"
  have "?r'\<lparr>rr_estimated_tokens := 0\<rparr> = r\<lparr>rr_files := rfs\<rparr>" using assms(3) by (cases r) (simp add: batch_ok_def)
  then have "re_response_len env (?r'\<lparr>rr_estimated_tokens := 0\<rparr>) = re_response_len env (r\<lparr>rr_files := rfs\<rparr>)"
    by (rule arg_cong)
  moreover have "re_response_len env (r\<lparr>rr_files := rfs\<rparr>) \<le> re_response_len env r + 512 * length (rr_files r)"
    using len pend r0 by simp
  ultimately have "re_response_len env (?r'\<lparr>rr_estimated_tokens := 0\<rparr>) + 32 \<le> read_limit request * 4"
    using assms(3) reserve by (simp add: batch_ok_def)
  moreover have "rr_max_tokens r = read_limit request" using assms(3) by (simp add: batch_ok_def)
  ultimately show ?thesis using 2(2) f pend by (auto simp: advised_def)
qed

lemma read_files_ends:
  assumes "counted_response env" and "decimal_counters (re_costs env)"
    and "costs_u64 costs" and "length costs \<le> 1024"
  shows "\<exists>costs' result. read_files env clock request costs = Some (costs', result) \<and>
    costs_u64 costs' \<and> length costs' \<le> 1024 \<and>
    (case result of
       Inl e \<Rightarrow> costs' = costs
     | Inr r \<Rightarrow> rr_estimated_tokens r = div_ceil (re_response_len env r) 4 \<and>
         rr_max_tokens r = read_limit request \<and> rr_estimated_tokens r \<le> rr_max_tokens r)"
proof (cases "read_batch env request")
  case (Inl e)
  with assms(3,4) show ?thesis by (simp add: read_files_def)
next
  case (Inr b)
  obtain cwd r pending where b: "b = (cwd, r, pending)" by (cases b) auto
  note ok = read_batch_ok [OF Inr [unfolded b]]
  from advise_response_within [OF assms(1,2) ok(1) assms(3,4), of clock] obtain costs' r' where
    a: "advise_response env clock request cwd r pending costs = Some (costs', r')"
    "costs_u64 costs'" "length costs' \<le> 1024" "rr_max_tokens r' = read_limit request"
    "rr_estimated_tokens r' \<le> read_limit request"
    "re_response_len env (r'\<lparr>rr_estimated_tokens := 0\<rparr>) + 32 \<le> read_limit request * 4" by blast
  from token_count_ends [OF assms(1) validate_read_Inr(2) [OF ok(2)] a(5,6)] Inr a(1-4) show ?thesis
    by (auto simp: read_files_def b)
qed

text \<open>C25: A typed read always ends: the loop that makes a response count its own tokens, the count being part
  of what is counted, converges; the count is exact and within the budget of the request, with the advice
  added after the budget was spent; a request that fails leaves the costs as they were, and at most 1024
  sources are remembered.\<close>

theorem read_files_within_budget:
  assumes "counted_response env" and "decimal_counters (re_costs env)"
    and "costs_u64 costs" and "length costs \<le> 1024"
  shows "\<exists>costs' result. read_files env clock request costs = Some (costs', result) \<and>
    costs_u64 costs' \<and> length costs' \<le> 1024 \<and>
    (case result of
       Inl e \<Rightarrow> costs' = costs
     | Inr r \<Rightarrow> rr_estimated_tokens r = div_ceil (re_response_len env r) 4 \<and>
         rr_max_tokens r = read_limit request \<and> rr_estimated_tokens r \<le> rr_max_tokens r)"
  using assms by (rule read_files_ends)

text \<open>The first two lines of the file \<open>/w/a\<close>, which has three.\<close>

definition sample_dir :: "component list" where
  "sample_dir = [RootDir, NormalName (lit ''w'')]"

definition sample_source :: "u8 list" where
  "sample_source = [97, 10, 98, 10, 99]"

definition sample_digits :: "nat \<Rightarrow> nat" where
  "sample_digits n = length (show_nat n)"

definition sample_read_env :: read_env where
  "sample_read_env = \<lparr>
     re_costs = \<lparr>ce_advice_len = \<lambda>a. 100 + sample_digits (ad_produced a) + sample_digits (ad_full a),
       ce_file_len = \<lambda>f. 150 + length (rf_content f), ce_sha256 = id\<rparr>,
     re_fs = \<lambda>n. \<lparr>pf_exists = \<lambda>p. True, pf_canonicalize = Some\<rparr>,
     re_canonicalize = \<lambda>s. Some sample_dir, re_is_dir = \<lambda>p. True, re_path_text = \<lambda>p. lit ''/w/a'',
     re_view = \<lambda>n later p. Some \<lparr>fv_metadata = Some (True, 5), fv_read = Some sample_source\<rparr>,
     re_fork = \<lambda>n args. Inr \<lparr>fr_stdout = [97, 10, 98, 10], fr_exited = True, fr_exit_code = Some 0,
       fr_stdout_truncated = False\<rparr>,
     re_digest = \<lambda>bs. lit ''d'',
     re_response_len = \<lambda>r. 50 + sample_digits (rr_estimated_tokens r) +
       sum_list (map (\<lambda>f. 150 + length (rf_content f) +
         (case rf_cost_advice f of None \<Rightarrow> 0
          | Some a \<Rightarrow> 115 + sample_digits (ad_produced a) + sample_digits (ad_full a))) (rr_files r)),
     re_line_len = length\<rparr>"

definition sample_read :: read_api_request where
  "sample_read = \<lparr>rq_context_epoch = Some (lit ''e''), rq_cwd = lit ''/w'', rq_paths = [lit ''a''], rq_from = None,
     rq_to = Some 2, rq_max_lines = None, rq_max_tokens = None, rq_expected_sha256 = None, rq_agent = None,
     rq_session_id = Some (lit ''s'')\<rparr>"

lemma show_zero: "show_nat 0 = [48]"
  by (simp add: show_nat.simps)

lemma sample_read_env_laws:
  "counted_response sample_read_env" "decimal_counters (re_costs sample_read_env)"
proof -
  have "length (show_nat n) \<le> 20" if "n \<le> u64_max" for n
    using that length_show_64 [of n] by (simp add: u64_max_def)
  then have "sample_digits (ad_produced a) + sample_digits (ad_full a) \<le> 40" if "advice_u64 a" for a
    using that by (simp add: advice_u64_def sample_digits_def add_mono [of _ 20 _ 20, simplified])
  then show "counted_response sample_read_env"
    unfolding counted_response_def sample_read_env_def advice_reserve_bytes_def
    by (fastforce simp: sample_digits_def show_zero split: option.splits)
qed (simp add: decimal_counters_def sample_read_env_def sample_digits_def show_zero)

lemma sample_read_result:
  "\<exists>costs' r. read_files sample_read_env (\<lambda>_. 0) sample_read [] = Some (costs', Inr r) \<and>
     map rf_content (rr_files r) = [[97, 10, 98, 10]]"
proof -
  have "case read_batch sample_read_env sample_read of
      Inl e \<Rightarrow> False | Inr (cwd, r, pending) \<Rightarrow> map rf_content (rr_files r) = [[97, 10, 98, 10]]" by code_simp
  then obtain cwd r0 pending where b: "read_batch sample_read_env sample_read = Inr (cwd, r0, pending)"
    "map rf_content (rr_files r0) = [[97, 10, 98, 10]]" by (auto split: sum.splits)
  have "costs_u64 []" by (simp add: costs_u64_def)
  then obtain costs' res where res: "read_files sample_read_env (\<lambda>_. 0) sample_read [] = Some (costs', res)"
    using read_files_ends [OF sample_read_env_laws, of "[]" "\<lambda>_. 0" sample_read] by auto
  moreover from res b(1) obtain r where "res = Inr r"
    by (auto simp: read_files_def split: option.splits)
  ultimately have r: "read_files sample_read_env (\<lambda>_. 0) sample_read [] = Some (costs', Inr r)" by simp
  then obtain c r1 p where c: "read_batch sample_read_env sample_read = Inr (c, r1, p)"
    "list_all2 (\<lambda>a b. \<exists>x. b = a\<lparr>rf_cost_advice := x\<rparr>) (rr_files r1) (rr_files r)" by (rule read_files_Inr)
  have "map rf_content (rr_files r) = [[97, 10, 98, 10]]"
    unfolding advised_files(2) [OF c(2)] using b c(1) by simp
  with r show ?thesis by auto
qed

theorem read_files_faithful_witness:
  "\<exists>costs' r. read_files sample_read_env (\<lambda>_. 0) sample_read [] = Some (costs', Inr r) \<and>
     map rf_content (rr_files r) = [[97, 10, 98, 10]] \<and>
     map rf_path (rr_files r) @ rr_remaining_paths r = [lit ''a''] \<and>
     list_all (delivered sample_read_env sample_read sample_dir) (rr_files r)"
proof -
  from sample_read_result obtain costs' r where
    r: "read_files sample_read_env (\<lambda>_. 0) sample_read [] = Some (costs', Inr r)"
    "map rf_content (rr_files r) = [[97, 10, 98, 10]]" by auto
  moreover have "canonical_workspace sample_read_env (rq_cwd sample_read) = Inr sample_dir" by code_simp
  ultimately show ?thesis using read_files_faithful [OF r(1)] by (auto simp: sample_read_def)
qed

theorem read_files_within_budget_witness:
  "\<exists>costs' r. read_files sample_read_env (\<lambda>_. 0) sample_read [] = Some (costs', Inr r) \<and>
     rr_estimated_tokens r = div_ceil (re_response_len sample_read_env r) 4 \<and> rr_estimated_tokens r \<le> 8192"
proof -
  from sample_read_result obtain costs' r where
    r: "read_files sample_read_env (\<lambda>_. 0) sample_read [] = Some (costs', Inr r)" by auto
  moreover have "costs_u64 []" by (simp add: costs_u64_def)
  ultimately have "rr_estimated_tokens r = div_ceil (re_response_len sample_read_env r) 4 \<and>
      rr_max_tokens r = 8192 \<and> rr_estimated_tokens r \<le> rr_max_tokens r"
    using read_files_within_budget [OF sample_read_env_laws, of "[]" "\<lambda>_. 0" sample_read]
    by (simp add: sample_read_def read_limit_def)
  with r show ?thesis by auto
qed

end
