(* ===== verification/Text_Edit.thy ===== *)
theory Text_Edit
  imports Rust_Prelude
begin

text \<open>
  The text edits of the write commands (\<open>fork-core/rtk/src/write_cmd.rs\<close>): finding what a pattern names
  in a file, as written, with shell escapes removed or with flexible line breaks, and replacing it. The
  substring searcher of \<open>memchr\<close> and the regular expression for flexible line breaks are arguments.
\<close>

section \<open>Shell escapes\<close>

definition is_shell_escaped_punct :: "rchar \<Rightarrow> bool" where
  "is_shell_escaped_punct c = (c \<in> {c_bang, c_dollar, c_amp, c_lparen, c_rparen, c_star, c_semi, c_lt, c_gt,
     c_question, c_lbracket, c_rbracket, c_lbrace, c_rbrace, c_pipe, c_hash})"

text \<open>One pass: the text without the backslashes before such a character, and whether any was there.\<close>

fun unescape_pass :: "rstr \<Rightarrow> rstr \<times> bool" where
  "unescape_pass [] = ([], False)"
| "unescape_pass [c] = ([c], False)"
| "unescape_pass (c # d # s) =
     (if c = c_backslash \<and> is_shell_escaped_punct d then (d # fst (unescape_pass s), True)
      else (c # fst (unescape_pass (d # s)), snd (unescape_pass (d # s))))"

definition maybe_unescape_shell_escapes_once :: "rstr \<Rightarrow> rstr option" where
  "maybe_unescape_shell_escapes_once input =
     (case unescape_pass input of (out, changed) \<Rightarrow> if changed then Some out else None)"

text \<open>The loop of \<open>shell_unescape_candidates\<close>, with the steps that are left.\<close>

primrec candidates_loop :: "nat \<Rightarrow> nat \<Rightarrow> rstr \<Rightarrow> (nat \<times> rstr) list \<Rightarrow> (nat \<times> rstr) list" where
  "candidates_loop 0 step current out = out"
| "candidates_loop (Suc n) step current out =
     (case maybe_unescape_shell_escapes_once current of
        None \<Rightarrow> out
      | Some t \<Rightarrow>
          if list_ex (\<lambda>x. snd x = t) out then out
          else candidates_loop n (step + 1) t (out @ [(step, t)]))"

definition shell_unescape_candidates :: "rstr \<Rightarrow> nat \<Rightarrow> (nat \<times> rstr) list" where
  "shell_unescape_candidates input max_steps = candidates_loop max_steps 1 input []"

primrec apply_shell_unescape_steps :: "rstr \<Rightarrow> nat \<Rightarrow> rstr" where
  "apply_shell_unescape_steps input 0 = input"
| "apply_shell_unescape_steps input (Suc n) =
     (case maybe_unescape_shell_escapes_once input of
        None \<Rightarrow> input
      | Some t \<Rightarrow> apply_shell_unescape_steps t n)"

section \<open>Finding the text to replace\<close>

record edit_env =
  ee_find_iter :: "nat list \<Rightarrow> nat list \<Rightarrow> nat list"
  ee_flex_compiles :: "rstr list \<Rightarrow> bool"
  ee_flex_find :: "rstr list \<Rightarrow> rstr \<Rightarrow> (nat \<times> nat) option"

text \<open>The literal parts of a pattern of several lines.\<close>

definition flex_parts :: "rstr \<Rightarrow> rstr list" where
  "flex_parts pattern =
     (case split_on (\<lambda>c. c = c_newline) pattern of
        [] \<Rightarrow> []
      | l # ls \<Rightarrow> filter (\<lambda>s. s \<noteq> []) (trim_end l # map trim ls))"

text \<open>The outer option is the panic of a slice.\<close>

definition try_multiline_flex_match :: "edit_env \<Rightarrow> rstr \<Rightarrow> rstr \<Rightarrow> rstr option option" where
  "try_multiline_flex_match env content pattern =
     (if c_newline \<notin> set pattern then Some None
      else let parts = flex_parts pattern
           in if length parts < 2 then Some None
              else if \<not> ee_flex_compiles env parts then Some None
              else (case ee_flex_find env parts content of
                      None \<Rightarrow> Some None
                    | Some (a, b) \<Rightarrow> map_option Some (str_slice content a b)))"

definition resolve_match_pair :: "edit_env \<Rightarrow> rstr \<Rightarrow> rstr \<Rightarrow> rstr \<Rightarrow> (rstr \<times> rstr) option option" where
  "resolve_match_pair env content pattern replacement =
     (if str_contains content pattern then Some (Some (pattern, replacement))
      else case List.find (\<lambda>x. str_contains content (snd x)) (shell_unescape_candidates pattern 4) of
        Some (steps, candidate) \<Rightarrow> Some (Some (candidate, apply_shell_unescape_steps replacement steps))
      | None \<Rightarrow>
          map_option (map_option (\<lambda>actual. (actual, replacement))) (try_multiline_flex_match env content pattern))"

section \<open>Replacing\<close>

text \<open>\<open>str::replacen\<close> with a count of one.\<close>

fun replace_first :: "rstr \<Rightarrow> rstr \<Rightarrow> rstr \<Rightarrow> rstr" where
  "replace_first pat to [] = (if pat = [] then to else [])"
| "replace_first pat to (c # s) =
     (if starts_with (c # s) pat then to @ drop (length pat) (c # s) else c # replace_first pat to s)"

text \<open>The loop of \<open>replace_all_counted\<close> over the positions of the searcher; the slices may panic.\<close>

fun replace_loop :: "rstr \<Rightarrow> nat \<Rightarrow> rstr \<Rightarrow> nat list \<Rightarrow> nat \<Rightarrow> rstr \<Rightarrow> nat \<Rightarrow> (rstr \<times> nat) option" where
  "replace_loop content from_len to [] last_end result count =
     map_option (\<lambda>tail. (result @ tail, count)) (str_from content last_end)"
| "replace_loop content from_len to (p # ps) last_end result count =
     (case str_slice content last_end p of
        None \<Rightarrow> None
      | Some piece \<Rightarrow>
          replace_loop content from_len to ps (p + from_len) (result @ piece @ to) (count + 1))"

definition replace_all_counted :: "edit_env \<Rightarrow> rstr \<Rightarrow> rstr \<Rightarrow> rstr \<Rightarrow> (rstr \<times> nat) option" where
  "replace_all_counted env content from_text to =
     (if from_text = [] then Some (content, 0)
      else let starts = ee_find_iter env (as_bytes from_text) (as_bytes content)
           in if starts = [] then Some (content, 0)
              else replace_loop content (blen from_text) to starts 0 [] 0)"

text \<open>What the closures of \<open>run_replace\<close> and \<open>run_patch\<close> compute: nothing found, nothing changed, or the
  new text with the number of replacements.\<close>

datatype edit_result = NoMatch | SameText | Edited rstr nat

definition edit_text :: "edit_env \<Rightarrow> rstr \<Rightarrow> rstr \<Rightarrow> bool \<Rightarrow> rstr \<Rightarrow> edit_result option" where
  "edit_text env old new all_places content =
     (case resolve_match_pair env content old new of
        None \<Rightarrow> None
      | Some None \<Rightarrow> Some NoMatch
      | Some (Some (old_match, new_match)) \<Rightarrow>
          map_option (\<lambda>(updated, count). if updated = content then SameText else Edited updated count)
            (if all_places then replace_all_counted env content old_match new_match
             else Some (replace_first old_match new_match content, 1)))"

section \<open>Bytes and characters\<close>

text \<open>What the searcher promises: the positions of the occurrences in a sequence of bytes, from left to
  right, each after the end of the one before.\<close>

function byte_occurrences :: "nat \<Rightarrow> nat list \<Rightarrow> nat list \<Rightarrow> nat list" where
  "byte_occurrences off needle [] = []"
| "byte_occurrences off needle (b # bs) =
     (if needle \<noteq> [] \<and> take (length needle) (b # bs) = needle
      then off # byte_occurrences (off + length needle) needle (drop (length needle) (b # bs))
      else byte_occurrences (off + 1) needle bs)"
  by pat_completeness auto
termination
  by (relation "measure (\<lambda>(_, _, bs). length bs)") (auto simp: neq_Nil_conv)

definition finds_occurrences :: "edit_env \<Rightarrow> bool" where
  "finds_occurrences env \<longleftrightarrow>
     (\<forall>needle bs. needle \<noteq> [] \<longrightarrow> ee_find_iter env needle bs = byte_occurrences 0 needle bs)"

text \<open>The same over characters, with byte offsets.\<close>

function occurrences :: "nat \<Rightarrow> rstr \<Rightarrow> rstr \<Rightarrow> nat list" where
  "occurrences off pat [] = []"
| "occurrences off pat (c # s) =
     (if pat \<noteq> [] \<and> starts_with (c # s) pat
      then off # occurrences (off + blen pat) pat (drop (length pat) (c # s))
      else occurrences (off + len_utf8 c) pat s)"
  by pat_completeness auto
termination
  by (relation "measure (\<lambda>(_, _, s). length s)") (auto simp: neq_Nil_conv)

lemma utf8_encode_parts: "\<exists>b bs. utf8_encode c = b # bs \<and> \<not> (0x80 \<le> b \<and> b < 0xC0) \<and>
    (\<forall>x \<in> set bs. 0x80 \<le> x \<and> x < 0xC0)"
  by (auto simp: utf8_encode_def)

text \<open>No encoding of a character begins another: the text is determined by its bytes.\<close>

lemma utf8_lead:
  "len_utf8 c = (let b = hd (utf8_encode c)
     in if b < 0x80 then 1 else if b < 0xE0 then 2 else if b < 0xF0 then 3 else 4)"
proof -
  have "c div 64 < 32" if "c < 0x800" using that by simp
  moreover have "c div 4096 < 16" if "c < 0x10000" using that by simp
  ultimately show ?thesis by (auto simp: utf8_encode_def len_utf8_def Let_def)
qed

lemma utf8_digits:
  fixes c :: nat
  shows "c div 64 * 64 + c mod 64 = c"
    and "c div 4096 * 4096 + c div 64 mod 64 * 64 + c mod 64 = c"
    and "c div 262144 * 262144 + c div 4096 mod 64 * 4096 + c div 64 mod 64 * 64 + c mod 64 = c"
proof -
  have a: "c mod 4096 = 64 * (c div 64 mod 64) + c mod 64" using mod_mult2_eq [of c 64 64] by simp
  have b: "c mod 262144 = 4096 * (c div 4096 mod 64) + c mod 4096" using mod_mult2_eq [of c 4096 64] by simp
  show "c div 64 * 64 + c mod 64 = c" by simp
  show "c div 4096 * 4096 + c div 64 mod 64 * 64 + c mod 64 = c"
    using a div_mult_mod_eq [of c 4096] by linarith
  show "c div 262144 * 262144 + c div 4096 mod 64 * 4096 + c div 64 mod 64 * 64 + c mod 64 = c"
    using a b div_mult_mod_eq [of c 262144] by linarith
qed

definition utf8_value :: "nat list \<Rightarrow> nat" where
  "utf8_value bs =
     (case bs of
        [a] \<Rightarrow> a
      | [a, b] \<Rightarrow> (a - 0xC0) * 64 + (b - 0x80)
      | [a, b, c] \<Rightarrow> (a - 0xE0) * 4096 + (b - 0x80) * 64 + (c - 0x80)
      | [a, b, c, d] \<Rightarrow> (a - 0xF0) * 262144 + (b - 0x80) * 4096 + (c - 0x80) * 64 + (d - 0x80)
      | _ \<Rightarrow> 0)"

lemma utf8_value_encode: "utf8_value (utf8_encode c) = c"
  using utf8_digits [of c] by (simp add: utf8_value_def utf8_encode_def)

lemma utf8_encode_prefix:
  assumes "utf8_encode c @ x = utf8_encode d @ y"
  shows "c = d"
proof -
  have ne: "utf8_encode e \<noteq> []" for e using utf8_encode_parts [of e] by auto
  then have "hd (utf8_encode c) = hd (utf8_encode d)" using assms by (metis hd_append2)
  then have "length (utf8_encode c) = length (utf8_encode d)"
    unfolding length_utf8_encode by (subst (1 2) utf8_lead) simp
  with assms have "utf8_encode c = utf8_encode d" by simp
  then show ?thesis by (metis utf8_value_encode)
qed

lemma as_bytes_prefix: "take (length (as_bytes pat)) (as_bytes s) = as_bytes pat \<longleftrightarrow> starts_with s pat"
proof
  assume "take (length (as_bytes pat)) (as_bytes s) = as_bytes pat"
  then have "as_bytes s = as_bytes pat @ drop (length (as_bytes pat)) (as_bytes s)"
    by (metis append_take_drop_id)
  then have "\<exists>y. as_bytes s = as_bytes pat @ y" by blast
  then show "starts_with s pat"
  proof (induction pat arbitrary: s)
    case (Cons d pat)
    then obtain y where y: "as_bytes s = utf8_encode d @ as_bytes pat @ y" by auto
    with utf8_encode_parts [of d] obtain c t where s: "s = c # t" by (cases s) auto
    with y have "c = d" by (auto intro: utf8_encode_prefix)
    with y s Cons.IH [of t] show ?case by (auto simp: starts_with_iff)
  qed (simp add: starts_with_iff)
qed (auto simp: starts_with_iff)

lemma byte_occurrences_skip:
  assumes "\<forall>x \<in> set xs. x \<noteq> hd needle"
  shows "byte_occurrences off needle (xs @ bs) = byte_occurrences (off + length xs) needle bs"
  using assms
proof (induction xs arbitrary: off)
  case (Cons x xs)
  then have "\<not> (needle \<noteq> [] \<and> take (length needle) (x # xs @ bs) = needle)"
    by (cases needle) auto
  with Cons show ?case by auto
qed simp

lemma byte_occurrences_chars:
  "pat \<noteq> [] \<Longrightarrow> byte_occurrences off (as_bytes pat) (as_bytes s) = occurrences off pat s"
proof (induction off pat s rule: occurrences.induct)
  case (2 off pat c s)
  obtain b bs where c: "utf8_encode c = b # bs" "\<forall>x \<in> set bs. 0x80 \<le> x \<and> x < 0xC0"
    using utf8_encode_parts [of c] by blast
  obtain d ds where pat: "pat = d # ds" using "2.prems" by (cases pat) auto
  obtain e es where d: "utf8_encode d = e # es" "\<not> (0x80 \<le> e \<and> e < 0xC0)"
    using utf8_encode_parts [of d] by blast
  have ne: "as_bytes pat \<noteq> []" "hd (as_bytes pat) = e" using pat d by simp_all
  have hit: "take (length (as_bytes pat)) (b # bs @ as_bytes s) = as_bytes pat \<longleftrightarrow> starts_with (c # s) pat"
    using as_bytes_prefix [of pat "c # s"] c by simp
  show ?case
  proof (cases "starts_with (c # s) pat")
    case True
    then obtain t where t: "c # s = pat @ t" by (auto simp: starts_with_iff)
    then have "b # bs @ as_bytes s = as_bytes pat @ as_bytes t"
      using c by (metis append_Cons as_bytes_Cons as_bytes_append)
    then have "drop (length (as_bytes pat)) (b # bs @ as_bytes s) = as_bytes t" by simp
    moreover have "drop (length pat) (c # s) = t" using t by simp
    ultimately show ?thesis using True hit ne c "2.prems" "2.IH"(1) by (simp add: length_as_bytes)
  next
    case False
    have "byte_occurrences (off + 1) (as_bytes pat) (bs @ as_bytes s) =
        byte_occurrences (off + 1 + length bs) (as_bytes pat) (as_bytes s)"
      by (rule byte_occurrences_skip) (use c d ne in auto)
    moreover have "len_utf8 c = Suc (length bs)" using length_utf8_encode [of c] c by simp
    ultimately show ?thesis using False hit c "2.prems" "2.IH"(2) by simp
  qed
qed simp

section \<open>Replacing every occurrence\<close>

lemma replace_loop_correct:
  assumes "pat \<noteq> []"
  shows "content = pre @ mid @ s \<Longrightarrow> off = blen (pre @ mid) \<Longrightarrow>
    replace_loop content (blen pat) to (occurrences off pat s) (blen pre) result count =
      Some (result @ mid @ replace_all pat to s, count + length (occurrences off pat s))"
  using assms
proof (induction off pat s arbitrary: pre mid result count rule: occurrences.induct)
  case (1 off pat)
  then show ?case using str_from_append [of pre mid] by simp
next
  case (2 off pat c s)
  show ?case
  proof (cases "starts_with (c # s) pat")
    case True
    then obtain t where t: "c # s = pat @ t" by (auto simp: starts_with_iff)
    then have d: "drop (length pat) (c # s) = t" by simp
    have sl: "str_slice content (blen pre) off = Some mid"
      using str_slice_append [of pre mid "c # s"] "2.prems"(1,2) by simp
    have "replace_loop content (blen pat) to (occurrences (off + blen pat) pat t) (blen (pre @ mid @ pat))
        (result @ mid @ to) (count + 1) =
      Some ((result @ mid @ to) @ [] @ replace_all pat to t, count + 1 + length (occurrences (off + blen pat) pat t))"
      by (rule "2.IH"(1) [unfolded d]) (use True "2.prems" t in auto)
    moreover have "off + blen pat = blen (pre @ mid @ pat)" using "2.prems"(2) by simp
    ultimately show ?thesis using True "2.prems"(3) d sl by (simp add: add.assoc)
  next
    case False
    have "replace_loop content (blen pat) to (occurrences (off + len_utf8 c) pat s) (blen pre) result count =
        Some (result @ (mid @ [c]) @ replace_all pat to s, count + length (occurrences (off + len_utf8 c) pat s))"
      by (rule "2.IH"(2)) (use False "2.prems" in auto)
    with False show ?thesis by simp
  qed
qed

lemma replace_all_none: "occurrences off pat s = [] \<Longrightarrow> replace_all pat to s = s"
  by (induction off pat s rule: occurrences.induct) (auto split: if_splits)

lemma replace_all_counted_eq:
  assumes "finds_occurrences env"
  shows "replace_all_counted env content pat to =
    (if pat = [] then Some (content, 0) else Some (replace_all pat to content, length (occurrences 0 pat content)))"
proof (cases "pat = []")
  case False
  then have "as_bytes pat \<noteq> []" by (metis blen_eq_0 length_as_bytes list.size(3))
  with False assms have f: "ee_find_iter env (as_bytes pat) (as_bytes content) = occurrences 0 pat content"
    by (simp add: finds_occurrences_def byte_occurrences_chars)
  show ?thesis
    using False f replace_all_none [of 0 pat content to]
      replace_loop_correct [OF False, of content "[]" "[]" content 0 to "[]" 0]
    by (simp add: replace_all_counted_def Let_def)
qed (simp add: replace_all_counted_def)

text \<open>Replacing every occurrence in one pass over the byte positions a searcher reports never slices
  inside a character and is the reference replacement over characters, from left to right without
  overlaps; the count is the number of occurrences replaced.\<close>

lemma replace_all_counted_correct:
  assumes "finds_occurrences env" and "from_text \<noteq> []"
  shows "replace_all_counted env content from_text to =
    Some (replace_all from_text to content, length (occurrences 0 from_text content))"
  using replace_all_counted_eq [OF assms(1)] assms(2) by simp

section \<open>Editing\<close>

lemma str_find_decomp:
  "str_find s pat = Some n \<Longrightarrow> \<exists>a b. s = a @ pat @ b \<and> replace_first pat to s = a @ to @ b \<and>
     (\<forall>k < length a. \<not> starts_with (drop k s) pat)"
proof (induction s arbitrary: n)
  case Nil
  then show ?case by (auto split: if_splits)
next
  case (Cons c s)
  show ?case
  proof (cases "starts_with (c # s) pat")
    case True
    then obtain t where t: "c # s = pat @ t" by (auto simp: starts_with_iff)
    have "replace_first pat to (c # s) = to @ drop (length pat) (c # s)" using True by simp
    then have "replace_first pat to (c # s) = to @ t" by (simp only: t) simp
    with t show ?thesis by (intro exI [of _ "[]"] exI [of _ t]) simp
  next
    case False
    with Cons.prems obtain m where "str_find s pat = Some m" by auto
    from Cons.IH [OF this] obtain a b where ab: "s = a @ pat @ b" "replace_first pat to s = a @ to @ b"
      "\<forall>k < length a. \<not> starts_with (drop k s) pat" by blast
    have "\<not> starts_with (drop k (c # s)) pat" if "k < length (c # a)" for k
      using that False ab(3) by (cases k) auto
    with ab False show ?thesis by (intro exI [of _ "c # a"] exI [of _ b]) auto
  qed
qed

lemma unescape_pass_length:
  "length (fst (unescape_pass s)) + (if snd (unescape_pass s) then 1 else 0) \<le> length s"
  by (induction s rule: unescape_pass.induct) (auto split: if_splits)

lemma unescape_pass_nonempty: "s \<noteq> [] \<Longrightarrow> fst (unescape_pass s) \<noteq> []"
  by (induction s rule: unescape_pass.induct) auto

lemma maybe_unescape_Some:
  "maybe_unescape_shell_escapes_once s = Some t \<Longrightarrow> length t < length s \<and> (s \<noteq> [] \<longrightarrow> t \<noteq> [])"
  using unescape_pass_length [of s] unescape_pass_nonempty [of s]
  by (auto simp: maybe_unescape_shell_escapes_once_def split: prod.splits if_splits)

text \<open>The text after some passes; once a pass changes nothing, further ones do not either.\<close>

definition unescaped :: "nat \<Rightarrow> rstr \<Rightarrow> rstr" where
  "unescaped k s = ((\<lambda>t. fst (unescape_pass t)) ^^ k) s"

lemma unescaped_simps [simp]: "unescaped 0 s = s" "unescaped (Suc k) s = unescaped k (fst (unescape_pass s))"
  by (simp_all add: unescaped_def funpow_Suc_right del: funpow.simps(2))

lemma unescape_pass_unchanged: "\<not> snd (unescape_pass s) \<Longrightarrow> fst (unescape_pass s) = s"
  by (induction s rule: unescape_pass.induct) (auto split: if_splits)

lemma maybe_unescape_cases:
  obtains "maybe_unescape_shell_escapes_once s = None" "\<And>k. unescaped k s = s"
  | t where "maybe_unescape_shell_escapes_once s = Some t" "\<And>k. unescaped (Suc k) s = unescaped k t"
proof (cases "snd (unescape_pass s)")
  case True
  then show thesis
    by (cases "unescape_pass s") (intro that(2) [of "fst (unescape_pass s)"], simp_all add: maybe_unescape_shell_escapes_once_def)
next
  case False
  have "unescaped k s = s" for k by (induction k) (simp_all add: unescape_pass_unchanged [OF False])
  with False show thesis
    by (cases "unescape_pass s") (intro that(1), simp_all add: maybe_unescape_shell_escapes_once_def)
qed

lemma apply_steps_unescaped: "apply_shell_unescape_steps s k = unescaped k s"
proof (induction k arbitrary: s)
  case (Suc k)
  show ?case
    by (cases rule: maybe_unescape_cases [of s]) (simp_all add: Suc.IH del: unescaped_simps(2))
qed simp

lemma unescaped_nonempty: "s \<noteq> [] \<Longrightarrow> unescaped k s \<noteq> []"
  by (induction k arbitrary: s) (simp_all add: unescape_pass_nonempty)

text \<open>The candidates are these texts in their order: each is shorter than the one before, so none repeats.\<close>

primrec later_texts :: "nat \<Rightarrow> nat \<Rightarrow> rstr \<Rightarrow> (nat \<times> rstr) list" where
  "later_texts 0 step s = []"
| "later_texts (Suc n) step s =
     (case maybe_unescape_shell_escapes_once s of None \<Rightarrow> [] | Some t \<Rightarrow> (step, t) # later_texts n (step + 1) t)"

lemma candidates_later:
  "\<forall>y \<in> set out. length current \<le> length (snd y) \<Longrightarrow>
   candidates_loop n step current out = out @ later_texts n step current"
proof (induction n arbitrary: step current out)
  case (Suc n)
  show ?case
  proof (cases "maybe_unescape_shell_escapes_once current")
    case (Some t)
    have shorter: "length t < length current" using maybe_unescape_Some [OF Some] by simp
    have new: "\<not> list_ex (\<lambda>x. snd x = t) out" using Suc.prems shorter by (auto simp: list_ex_iff)
    have "candidates_loop n (step + 1) t (out @ [(step, t)]) = (out @ [(step, t)]) @ later_texts n (step + 1) t"
      using Suc.prems shorter by (intro Suc.IH) auto
    with Some new show ?thesis by simp
  qed simp
qed simp

lemma find_later:
  assumes "\<not> P s"
  shows "case List.find (\<lambda>x. P (snd x)) (later_texts n step s) of
      None \<Rightarrow> \<forall>k \<le> n. \<not> P (unescaped k s)
    | Some (i, t) \<Rightarrow> \<exists>k \<le> n. i + 1 = step + k \<and> t = unescaped k s \<and> P t \<and> (\<forall>j < k. \<not> P (unescaped j s))"
  using assms
proof (induction n arbitrary: step s)
  case (Suc n)
  show ?case
  proof (cases rule: maybe_unescape_cases [of s])
    case 1
    with Suc.prems show ?thesis by simp
  next
    case (2 t)
    show ?thesis
    proof (cases "P t")
      case True
      then show ?thesis
        using 2(1) 2(2) [of 0] Suc.prems by (auto simp del: unescaped_simps(2) intro!: exI [of _ 1])
    next
      case False
      have down: "(\<forall>j < Suc k. \<not> P (unescaped j s))" if "\<forall>j < k. \<not> P (unescaped j t)" for k
        using that 2(2) Suc.prems by (auto simp: less_Suc_eq_0_disj simp del: unescaped_simps(2))
      have up: "\<forall>k \<le> Suc n. \<not> P (unescaped k s)" if "\<forall>k \<le> n. \<not> P (unescaped k t)"
        using down [of "Suc n"] that by (simp add: less_Suc_eq_le)
      from Suc.IH [OF False, of "step + 1"] 2(1) False up show ?thesis
      proof (cases "List.find (\<lambda>x. P (snd x)) (later_texts n (step + 1) t)")
        case (Some it)
        then obtain i u where it: "it = (i, u)" by (cases it)
        from Suc.IH [OF False, of "step + 1"] Some it obtain k where
          k: "k \<le> n" "i + 1 = step + 1 + k" "u = unescaped k t" "P u" "\<forall>j < k. \<not> P (unescaped j t)" by auto
        have "Suc k \<le> Suc n \<and> i + 1 = step + Suc k \<and> u = unescaped (Suc k) s \<and> P u \<and> (\<forall>j < Suc k. \<not> P (unescaped j s))"
          using k 2(2) [of k] down [OF k(5)] by (simp del: unescaped_simps(2))
        with 2(1) False Some it show ?thesis by (simp del: unescaped_simps(2)) blast
      qed (simp add: 2(1))
    qed
  qed
qed simp

section \<open>Stretches of text\<close>

text \<open>The text a pattern of several lines stands for: its parts, with white space between them.\<close>

inductive stretch :: "rstr list \<Rightarrow> rstr \<Rightarrow> bool" where
  stretch_last: "stretch [p] p"
| stretch_more: "\<lbrakk>w \<noteq> []; list_all is_whitespace w; stretch (q # ps) m\<rbrakk> \<Longrightarrow> stretch (p # q # ps) (p @ w @ m)"

inductive_cases stretch_oneE: "stretch [p] m"
inductive_cases stretch_moreE: "stretch (p # q # ps) m"

definition leftmost_stretch :: "rstr list \<Rightarrow> rstr \<Rightarrow> rstr \<Rightarrow> rstr \<Rightarrow> rstr \<Rightarrow> bool" where
  "leftmost_stretch parts content p m q \<longleftrightarrow> content = p @ m @ q \<and> stretch parts m \<and>
     (\<forall>p' m' q'. content = p' @ m' @ q' \<and> stretch parts m' \<longrightarrow> length p \<le> length p')"

text \<open>What the expression promises for parts that are not empty and, but for the first, do not begin or end with
  white space: when it compiles, it finds the leftmost stretch, and one whenever there is one.\<close>

definition parts_ok :: "rstr list \<Rightarrow> bool" where
  "parts_ok parts \<longleftrightarrow> parts \<noteq> [] \<and> [] \<notin> set parts \<and> list_all (\<lambda>p. trim p = p) (tl parts)"

definition flex_leftmost :: "edit_env \<Rightarrow> bool" where
  "flex_leftmost env \<longleftrightarrow> (\<forall>parts content. parts_ok parts \<and> ee_flex_compiles env parts \<longrightarrow>
     (case ee_flex_find env parts content of
        None \<Rightarrow> \<nexists>p m q. content = p @ m @ q \<and> stretch parts m
      | Some (a, b) \<Rightarrow> \<exists>p m q. leftmost_stretch parts content p m q \<and> a = blen p \<and> b = blen (p @ m)))"

lemma stretch_nonempty: "stretch parts m \<Longrightarrow> [] \<notin> set parts \<Longrightarrow> m \<noteq> []"
  by (induction rule: stretch.induct) auto

lemma flex_parts_ok: "2 \<le> length (flex_parts pattern) \<Longrightarrow> parts_ok (flex_parts pattern)"
proof -
  have t: "list_all (\<lambda>p. trim p = p) (filter (\<lambda>s. s \<noteq> []) (map trim ls))" for ls
    by (auto simp: list_all_iff)
  have "list_all (\<lambda>p. trim p = p) (tl xs)" if "list_all (\<lambda>p. trim p = p) xs" for xs
    using that by (cases xs) auto
  with t show "2 \<le> length (flex_parts pattern) \<Longrightarrow> parts_ok (flex_parts pattern)"
    by (cases "split_on (\<lambda>c. c = c_newline) pattern") (auto simp: parts_ok_def flex_parts_def)
qed

lemma flex_parts_one_line: "c_newline \<notin> set pattern \<Longrightarrow> length (flex_parts pattern) < 2"
proof -
  assume "c_newline \<notin> set pattern"
  then have "split_on (\<lambda>c. c = c_newline) pattern = [pattern]" by (induction pattern) auto
  then show ?thesis by (simp add: flex_parts_def)
qed

lemma str_contains_iff: "str_contains s pat \<longleftrightarrow> (\<exists>p q. s = p @ pat @ q)"
proof
  assume "\<exists>p q. s = p @ pat @ q"
  then obtain p q where "s = p @ pat @ q" by blast
  moreover have "str_find (p @ pat @ q) pat \<noteq> None"
  proof (induction p)
    case Nil
    have "starts_with (pat @ q) pat" by (auto simp: starts_with_iff)
    then show ?case by (cases "pat @ q") auto
  qed auto
  ultimately show "str_contains s pat" by (simp add: str_contains_def)
qed (use str_find_Some in \<open>fastforce simp: str_contains_def\<close>)

lemma str_slice_occurs: "str_slice s a b = Some m \<Longrightarrow> str_contains s m"
  by (auto simp: str_slice_def str_contains_iff split: if_splits Option.bind_splits
      dest!: str_upto_Some str_from_Some) blast

text \<open>What a pattern names in a text, and what takes its place: the pattern itself or its first unescaped form that
  occurs, up to four passes, and then the replacement after as many passes; else the leftmost stretch, when the
  pattern has several lines, and the replacement as it is.\<close>

definition names_text :: "edit_env \<Rightarrow> rstr \<Rightarrow> rstr \<Rightarrow> rstr \<Rightarrow> rstr \<Rightarrow> rstr \<Rightarrow> bool" where
  "names_text env content old new m r \<longleftrightarrow>
     (\<exists>k \<le> 4. m = unescaped k old \<and> r = unescaped k new \<and> str_contains content m \<and>
        (\<forall>j < k. \<not> str_contains content (unescaped j old))) \<or>
     (\<forall>k \<le> 4. \<not> str_contains content (unescaped k old)) \<and> r = new \<and> 2 \<le> length (flex_parts old) \<and>
       ee_flex_compiles env (flex_parts old) \<and> (\<exists>p q. leftmost_stretch (flex_parts old) content p m q)"

lemma flex_match_leftmost:
  assumes "flex_leftmost env"
  shows "case try_multiline_flex_match env content pattern of
      None \<Rightarrow> False
    | Some None \<Rightarrow> \<not> (2 \<le> length (flex_parts pattern) \<and> ee_flex_compiles env (flex_parts pattern) \<and>
        (\<exists>p m q. leftmost_stretch (flex_parts pattern) content p m q))
    | Some (Some m) \<Rightarrow> 2 \<le> length (flex_parts pattern) \<and> ee_flex_compiles env (flex_parts pattern) \<and>
        (\<exists>p q. leftmost_stretch (flex_parts pattern) content p m q)"
proof (cases "2 \<le> length (flex_parts pattern) \<and> ee_flex_compiles env (flex_parts pattern)")
  case True
  let ?parts = "flex_parts pattern"
  have nl: "c_newline \<in> set pattern" using flex_parts_one_line [of pattern] True by fastforce
  have law: "case ee_flex_find env ?parts content of
      None \<Rightarrow> \<nexists>p m q. content = p @ m @ q \<and> stretch ?parts m
    | Some (a, b) \<Rightarrow> \<exists>p m q. leftmost_stretch ?parts content p m q \<and> a = blen p \<and> b = blen (p @ m)"
    using assms flex_parts_ok True unfolding flex_leftmost_def by blast
  show ?thesis
  proof (cases "ee_flex_find env ?parts content")
    case None
    with law True nl show ?thesis by (auto simp: try_multiline_flex_match_def leftmost_stretch_def)
  next
    case (Some ab)
    then obtain a b where "ab = (a, b)" by (cases ab)
    with law Some obtain p m q where l: "leftmost_stretch ?parts content p m q" "a = blen p" "b = blen (p @ m)" by auto
    then have "str_slice content a b = Some m"
      using str_slice_append [of p m q] by (simp add: leftmost_stretch_def)
    with True nl Some \<open>ab = (a, b)\<close> l(1) show ?thesis by (auto simp: try_multiline_flex_match_def)
  qed
qed (auto simp: try_multiline_flex_match_def Let_def)

lemma resolve_match_pair_names:
  assumes "flex_leftmost env"
  shows "case resolve_match_pair env content old new of
      None \<Rightarrow> False
    | Some None \<Rightarrow> \<nexists>m r. names_text env content old new m r
    | Some (Some (m, r)) \<Rightarrow> names_text env content old new m r"
proof (cases "str_contains content old")
  case True
  then show ?thesis
    by (auto simp: resolve_match_pair_def names_text_def intro!: exI [of _ 0])
next
  case False
  have cands: "shell_unescape_candidates old 4 = later_texts 4 1 old"
    using candidates_later [of "[]" old 4 1] by (simp add: shell_unescape_candidates_def)
  note found = find_later [of "str_contains content", OF False, of 4 1, folded cands]
  show ?thesis
  proof (cases "List.find (\<lambda>x. str_contains content (snd x)) (shell_unescape_candidates old 4)")
    case (Some it)
    then obtain i t where it: "it = (i, t)" by (cases it)
    with found Some obtain k where "k \<le> 4" "i = k" "t = unescaped k old" "str_contains content t"
      "\<forall>j < k. \<not> str_contains content (unescaped j old)" by auto
    then show ?thesis
      using False Some it by (auto simp: resolve_match_pair_def names_text_def apply_steps_unescaped)
  next
    case None
    with found have none: "\<forall>k \<le> 4. \<not> str_contains content (unescaped k old)" by simp
    have "names_text env content old new m r \<longleftrightarrow> r = new \<and> 2 \<le> length (flex_parts old) \<and>
        ee_flex_compiles env (flex_parts old) \<and> (\<exists>p q. leftmost_stretch (flex_parts old) content p m q)" for m r
      using none by (auto simp: names_text_def)
    then show ?thesis
      using False None flex_match_leftmost [OF assms, where content = content and pattern = old]
      by (auto simp: resolve_match_pair_def split: option.splits)
  qed
qed

lemma names_text_occurs:
  assumes "names_text env content old new m r" and "old \<noteq> []"
  shows "m \<noteq> []" and "str_contains content m"
proof -
  have st: "m \<noteq> [] \<and> str_contains content m" if "leftmost_stretch (flex_parts old) content p m q" "2 \<le> length (flex_parts old)" for p q
    using that stretch_nonempty [of "flex_parts old" m] flex_parts_ok [of old]
    by (auto simp: leftmost_stretch_def parts_ok_def str_contains_iff)
  from assms(1) consider k where "m = unescaped k old" "str_contains content m"
    | p q where "leftmost_stretch (flex_parts old) content p m q" "2 \<le> length (flex_parts old)"
    unfolding names_text_def by blast
  then have "m \<noteq> [] \<and> str_contains content m"
    by cases (use unescaped_nonempty [OF assms(2)] st in auto)
  then show "m \<noteq> []" and "str_contains content m" by blast+
qed

text \<open>C33: An edit replaces exactly the text its pattern names, for every non-empty pattern, without a panic. The
  pattern names itself when it occurs; else the first of its forms with one to four layers of shell escapes
  removed that occurs, and the replacement then loses as many layers; else, when it has several lines, the
  leftmost stretch of the file that consists of its lines with white space between them. No match is reported
  exactly when it names nothing. One edit replaces the first occurrence, an edit of all places is the reference
  replacement with the exact count, and an edit that would change nothing is reported as such.\<close>

theorem edit_text_exact:
  assumes "finds_occurrences env" and "flex_leftmost env" and "old \<noteq> []"
  shows "case edit_text env old new all_places content of
      None \<Rightarrow> False
    | Some NoMatch \<Rightarrow> \<nexists>m r. names_text env content old new m r
    | Some result \<Rightarrow> \<exists>m r updated count. names_text env content old new m r \<and>
        (if all_places then updated = replace_all m r content \<and> count = length (occurrences 0 m content)
         else count = 1 \<and> (\<exists>a b. content = a @ m @ b \<and> updated = a @ r @ b \<and>
           (\<forall>k < length a. \<not> starts_with (drop k content) m))) \<and>
        result = (if updated = content then SameText else Edited updated count)"
proof -
  note n = resolve_match_pair_names [OF assms(2), of content old new]
  show ?thesis
  proof (cases "\<exists>m r. resolve_match_pair env content old new = Some (Some (m, r))")
    case True
    then obtain m r where mr: "resolve_match_pair env content old new = Some (Some (m, r))" by blast
    with n have nt: "names_text env content old new m r" by simp
    note m = names_text_occurs [OF nt assms(3)]
    from m(2) obtain i where i: "str_find content m = Some i" by (auto simp: str_contains_def)
    define u where "u = (if all_places then (replace_all m r content, length (occurrences 0 m content))
      else (replace_first m r content, 1))"
    have e: "edit_text env old new all_places content =
        Some (if fst u = content then SameText else Edited (fst u) (snd u))"
      using mr m(1) by (simp add: edit_text_def replace_all_counted_eq [OF assms(1)] u_def)
    have "if all_places then fst u = replace_all m r content \<and> snd u = length (occurrences 0 m content)
        else snd u = 1 \<and> (\<exists>a b. content = a @ m @ b \<and> fst u = a @ r @ b \<and>
          (\<forall>k < length a. \<not> starts_with (drop k content) m))"
      using str_find_decomp [OF i, of r] by (auto simp: u_def)
    with nt have "\<exists>m r updated count. names_text env content old new m r \<and>
        (if all_places then updated = replace_all m r content \<and> count = length (occurrences 0 m content)
         else count = 1 \<and> (\<exists>a b. content = a @ m @ b \<and> updated = a @ r @ b \<and>
           (\<forall>k < length a. \<not> starts_with (drop k content) m))) \<and>
        (if fst u = content then SameText else Edited (fst u) (snd u)) =
          (if updated = content then SameText else Edited updated count)" by blast
    then show ?thesis unfolding e by (cases "fst u = content") (simp_all only: option.case edit_result.case if_True if_False simp_thms)
  next
    case False
    with n have "resolve_match_pair env content old new = Some None"
      by (cases "resolve_match_pair env content old new") (auto split: option.splits prod.splits)
    with n show ?thesis by (simp add: edit_text_def)
  qed
qed

section \<open>A searcher and a matcher that keep these promises\<close>

text \<open>The length of the stretch at the beginning of a text, and the leftmost place that has one.\<close>

fun stretch_here :: "rstr list \<Rightarrow> rstr \<Rightarrow> nat option" where
  "stretch_here [] s = None"
| "stretch_here [p] s = (if starts_with s p then Some (length p) else None)"
| "stretch_here (p # q # ps) s =
     (if starts_with s p
      then (let r = drop (length p) s; w = takeWhile is_whitespace r
            in if w = [] then None
               else map_option (\<lambda>n. length p + length w + n) (stretch_here (q # ps) (drop (length w) r)))
      else None)"

fun sample_flex_find :: "nat \<Rightarrow> rstr list \<Rightarrow> rstr \<Rightarrow> (nat \<times> nat) option" where
  "sample_flex_find off parts [] = None"
| "sample_flex_find off parts (c # s) =
     (case stretch_here parts (c # s) of
        Some n \<Rightarrow> Some (off, off + blen (take n (c # s)))
      | None \<Rightarrow> sample_flex_find (off + len_utf8 c) parts s)"

definition sample_edit_env :: edit_env where
  "sample_edit_env = \<lparr>ee_find_iter = byte_occurrences 0, ee_flex_compiles = \<lambda>parts. True,
     ee_flex_find = sample_flex_find 0\<rparr>"

lemma takeWhile_run:
  "list_all P w \<Longrightarrow> s = [] \<or> \<not> P (hd s) \<Longrightarrow> takeWhile P (w @ s) = w"
proof (induction w)
  case Nil
  then show ?case by (cases s) auto
qed simp

lemma stretch_begins:
  assumes "stretch parts m" and "[] \<notin> set parts"
  shows "hd (m @ q) = hd (hd parts)"
  using assms by cases auto

lemma stretch_here_iff:
  "[] \<notin> set parts \<Longrightarrow> list_all (\<lambda>p. trim p = p) (tl parts) \<Longrightarrow>
   stretch_here parts s = Some n \<longleftrightarrow> (\<exists>m q. s = m @ q \<and> stretch parts m \<and> n = length m)"
proof (induction parts arbitrary: s n rule: induct_list012)
  case 1
  then show ?case by (auto elim: stretch.cases)
next
  case (2 p)
  then show ?case by (auto simp: starts_with_iff elim: stretch_oneE intro: stretch_last)
next
  case (3 p q ps)
  have q: "\<not> is_whitespace (hd q)" using "3.prems" hd_trim [of q] by auto
  have "list_all (\<lambda>p. trim p = p) ps" "[] \<notin> set (q # ps)" using "3.prems" by auto
  then have ih: "stretch_here (q # ps) t = Some k \<longleftrightarrow> (\<exists>m u. t = m @ u \<and> stretch (q # ps) m \<and> k = length m)" for t k
    using "3.IH"(2) [of t k] by simp
  show ?case
  proof
    assume some: "stretch_here (p # q # ps) s = Some n"
    then obtain r where r: "s = p @ r" by (auto simp: starts_with_iff split: if_splits)
    define w where "w = takeWhile is_whitespace r"
    have sw: "starts_with (p @ r) p" by (auto simp: starts_with_iff)
    from some obtain k where k: "w \<noteq> []" "stretch_here (q # ps) (drop (length w) r) = Some k" "n = length p + length w + k"
      unfolding r stretch_here.simps Let_def append_eq_conv_conj [symmetric] drop_append
      by (auto simp: sw w_def split: if_splits)
    from k(2) [unfolded ih] obtain m t where m: "drop (length w) r = m @ t" "stretch (q # ps) m" "k = length m" by blast
    have "r = w @ m @ t" using m(1) unfolding w_def by (metis append_take_drop_id takeWhile_eq_take)
    moreover have "list_all is_whitespace w" by (auto simp: w_def list_all_iff dest: set_takeWhileD)
    then have "stretch (p # q # ps) (p @ w @ m)" by (rule stretch_more [OF k(1) _ m(2)])
    ultimately show "\<exists>m q'. s = m @ q' \<and> stretch (p # q # ps) m \<and> n = length m"
      using r k(3) m(3) by (intro exI [of _ "p @ w @ m"] exI [of _ t]) simp
  next
    assume "\<exists>m q'. s = m @ q' \<and> stretch (p # q # ps) m \<and> n = length m"
    then obtain w m t where s: "s = p @ w @ m @ t" "w \<noteq> []" "list_all is_whitespace w" "stretch (q # ps) m"
      "n = length p + length w + length m" by (auto elim!: stretch_moreE)
    have "m \<noteq> []" using stretch_nonempty [OF s(4)] "3.prems"(1) by simp
    moreover have "hd (m @ t) = hd q" using stretch_begins [OF s(4), of t] "3.prems"(1) by simp
    ultimately have tw: "takeWhile is_whitespace (w @ m @ t) = w" using q by (intro takeWhile_run [OF s(3)]) auto
    have sw: "starts_with (p @ w @ m @ t) p" by (auto simp: starts_with_iff)
    have "stretch_here (q # ps) (m @ t) = Some (length m)" unfolding ih using s(4) by blast
    then show "stretch_here (p # q # ps) s = Some n" using s(2) by (simp add: s(1,5) sw tw Let_def)
  qed
qed

lemma sample_flex_find_leftmost:
  assumes ok: "parts_ok parts"
  shows "case sample_flex_find off parts s of
      None \<Rightarrow> \<nexists>p m q. s = p @ m @ q \<and> stretch parts m
    | Some (a, b) \<Rightarrow> \<exists>p m q. leftmost_stretch parts s p m q \<and> a = off + blen p \<and> b = off + blen (p @ m)"
proof (induction s arbitrary: off)
  case Nil
  then show ?case using stretch_nonempty ok by (auto simp: parts_ok_def)
next
  case (Cons c s)
  note iff = stretch_here_iff [of parts "c # s"]
  show ?case
  proof (cases "stretch_here parts (c # s)")
    case (Some n)
    then obtain m q where "c # s = m @ q" "stretch parts m" "n = length m"
      using iff [THEN iffD1, of n] ok unfolding parts_ok_def by blast
    then have "leftmost_stretch parts (c # s) [] m q" "take n (c # s) = m" by (simp_all add: leftmost_stretch_def)
    with Some show ?thesis by fastforce
  next
    case None
    have here: "p \<noteq> []" if "c # s = p @ m @ q" "stretch parts m" for p m q
      using None iff ok that unfolding parts_ok_def by (metis append_Nil option.distinct(1))
    show ?thesis
    proof (cases "sample_flex_find (off + len_utf8 c) parts s")
      case (Some ab)
      then obtain a b where ab: "ab = (a, b)" by (cases ab)
      from Cons [of "off + len_utf8 c"] Some ab obtain p m q where l: "leftmost_stretch parts s p m q"
        "a = off + len_utf8 c + blen p" "b = off + len_utf8 c + blen (p @ m)" by auto
      have "leftmost_stretch parts (c # s) (c # p) m q"
        using l(1) here unfolding leftmost_stretch_def by (metis append_Cons length_Cons list.inject not_less_eq_eq neq_Nil_conv)
      with l None Some ab show ?thesis by fastforce
    next
      case none: None
      with Cons [of "off + len_utf8 c"] have "\<nexists>p m q. s = p @ m @ q \<and> stretch parts m" by simp
      then have "\<nexists>p m q. c # s = p @ m @ q \<and> stretch parts m" using here by (metis append_Cons list.inject neq_Nil_conv)
      with None none show ?thesis by simp
    qed
  qed
qed

lemma sample_edit_env_laws: "finds_occurrences sample_edit_env" "flex_leftmost sample_edit_env"
proof -
  show "finds_occurrences sample_edit_env" by (simp add: finds_occurrences_def sample_edit_env_def)
  show "flex_leftmost sample_edit_env"
    unfolding flex_leftmost_def
  proof (intro allI impI)
    fix parts content assume "parts_ok parts \<and> ee_flex_compiles sample_edit_env parts"
    then show "case ee_flex_find sample_edit_env parts content of
        None \<Rightarrow> \<nexists>p m q. content = p @ m @ q \<and> stretch parts m
      | Some (a, b) \<Rightarrow> \<exists>p m q. leftmost_stretch parts content p m q \<and> a = blen p \<and> b = blen (p @ m)"
      using sample_flex_find_leftmost [where parts = parts and off = 0 and s = content]
      by (auto simp: sample_edit_env_def split: option.splits)
  qed
qed

lemma replace_all_counted_correct_witness:
  "replace_all_counted sample_edit_env [0xE9, 98, 0xE9, 98, 99] [0xE9, 98] [120] = Some ([120, 120, 99], 2)"
proof -
  have "replace_all [0xE9, 98] [120] [0xE9, 98, 0xE9, 98, 99] = [120, 120, 99]"
    "length (occurrences 0 [0xE9, 98] [0xE9, 98, 0xE9, 98, 99]) = 2" by code_simp+
  then show ?thesis by (simp add: replace_all_counted_correct [OF sample_edit_env_laws(1)])
qed

theorem edit_text_exact_witness:
  "edit_text sample_edit_env (lit ''a'' @ [c_newline] @ lit ''  b'') (lit ''x'') False (lit ''c a  b'') = Some (Edited (lit ''c x'') 1) \<and>
   (\<exists>m r. names_text sample_edit_env (lit ''c a  b'') (lit ''a'' @ [c_newline] @ lit ''  b'') (lit ''x'') m r \<and>
      (\<exists>a b. lit ''c a  b'' = a @ m @ b \<and> lit ''c x'' = a @ r @ b))"
proof -
  have e: "edit_text sample_edit_env (lit ''a'' @ [c_newline] @ lit ''  b'') (lit ''x'') False (lit ''c a  b'') = Some (Edited (lit ''c x'') 1)"
    by code_simp
  have n: "lit ''a'' @ [c_newline] @ lit ''  b'' \<noteq> []" by simp
  from edit_text_exact [OF sample_edit_env_laws n, where new = "lit ''x''" and all_places = False
      and content = "lit ''c a  b''"] show ?thesis unfolding e by (auto split: if_splits)
qed

text \<open>Layers of escapes come off the pattern and the replacement alike.\<close>

lemma edit_unescapes_both:
  "edit_text sample_edit_env (lit ''a'' @ [c_backslash] @ lit ''!'') (lit ''b'' @ [c_backslash] @ lit ''!'') False (lit ''a! c'') =
     Some (Edited (lit ''b! c'') 1)"
  by code_simp

end
