(* ===== verification/Atomic_Write.thy ===== *)
theory Atomic_Write
  imports Text_Edit Utf8_Check
begin

text \<open>
  Writing a file (\<open>fork-core/rtk/src/write_core.rs\<close>, the lock of \<open>write_lock.rs\<close>, and \<open>locked_write\<close> of
  \<open>write_cmd.rs\<close>): a temporary file takes the place of the target in one step, after the target was
  compared with what was read. Other processes that do not take the lock may change the target between
  any two steps: what they do is an argument, as is which system call fails. The state is the target
  file; the events record what was read, how the target was when the new text was computed, what was
  compared and what was replaced. Temporary files, which are removed
  when a write fails, and messages on the terminal are not modelled. A lost lock, a killed process and
  power failure are outside the model.
\<close>

section \<open>The target and the environment\<close>

record file_obj =
  fo_bytes :: "u8 list"
  fo_modified :: "nat option"
  fo_mode :: nat

type_synonym target = "file_obj option"

datatype write_phase = BeforeRead | BeforeSnapshot | BeforeStat | BeforeHash | BeforeCompare | BeforeReplace

datatype write_step = LockStep | ReadStep | SnapshotStep | StatStep | HashStep | CompareStep | MkdirStep | TempStep
  | DataStep | FlushStep | PermissionStep | SyncStep | PersistStep | DirSyncStep

record write_env =
  we_others :: "nat \<Rightarrow> write_phase \<Rightarrow> target \<Rightarrow> target"
  we_fails :: "nat \<Rightarrow> write_step \<Rightarrow> bool"
  we_has_parent :: bool
  we_clock :: "nat \<Rightarrow> nat"
  we_new_mode :: nat
  we_temp_mode :: nat
  we_hash :: "u8 list \<Rightarrow> u64"
  we_chunks :: "u8 list \<Rightarrow> u8 list list"

text \<open>\<open>FileRead\<close> has the target whose text was read, \<open>Called\<close> the target while the new text is computed.\<close>

datatype file_event = FileRead target | Called target | Checked target | Replaced target file_obj

definition str_bytes :: "rstr \<Rightarrow> u8 list" where
  "str_bytes s = map of_nat (as_bytes s)"

section \<open>Options and results\<close>

datatype durability_mode = Durable | Fast

record file_snapshot =
  fs_len :: "nat option"
  fs_modified :: "nat option"
  fs_hash :: "u64 option"

record cas_options =
  expected_len :: "nat option"
  expected_modified :: "nat option"
  expected_hash :: "u64 option"

definition cas_from_snapshot :: "file_snapshot \<Rightarrow> cas_options" where
  "cas_from_snapshot snapshot = \<lparr>expected_len = fs_len snapshot, expected_modified = fs_modified snapshot,
     expected_hash = fs_hash snapshot\<rparr>"

definition has_expectations :: "cas_options \<Rightarrow> bool" where
  "has_expectations cas = (expected_len cas \<noteq> None \<or> expected_modified cas \<noteq> None \<or> expected_hash cas \<noteq> None)"

datatype cas_error = LenMismatch nat nat | ModifiedChanged | HashMismatch

datatype write_failure = WriteNoParent | WriteStat | WriteCas cas_error | WriteTargetMissing | WriteModified
  | WriteReadExisting | WriteMkdir | WriteTemp | WriteData | WriteFlush | WritePermissions | WriteSync
  | WriteReplace | WriteDirSync

record write_options =
  wo_durability :: durability_mode
  wo_buffer_size :: nat
  wo_preserve_permissions :: bool
  wo_idempotent_skip :: bool
  wo_compare_hash :: bool
  wo_cas :: "cas_options option"

definition default_write_options :: write_options where
  "default_write_options = \<lparr>wo_durability = Durable, wo_buffer_size = 64 * 1024, wo_preserve_permissions = True,
     wo_idempotent_skip = True, wo_compare_hash = False, wo_cas = None\<rparr>"

definition fast_write_options :: write_options where
  "fast_write_options = default_write_options\<lparr>wo_durability := Fast\<rparr>"

record write_stats =
  ws_bytes_written :: nat
  ws_fsync_count :: nat
  ws_rename_count :: nat
  ws_skipped_unchanged :: bool
  ws_durability :: durability_mode

definition stats_skipped :: "durability_mode \<Rightarrow> write_stats" where
  "stats_skipped durability = \<lparr>ws_bytes_written = 0, ws_fsync_count = 0, ws_rename_count = 0,
     ws_skipped_unchanged = True, ws_durability = durability\<rparr>"

section \<open>Comparing\<close>

text \<open>The files are read in pieces; a failed open or read ends the comparison.\<close>

definition hash_file :: "write_env \<Rightarrow> nat \<Rightarrow> target \<Rightarrow> write_failure + u64" where
  "hash_file env a t =
     (case t of
        None \<Rightarrow> Inl WriteReadExisting
      | Some f \<Rightarrow> if we_fails env a HashStep then Inl WriteReadExisting else Inr (we_hash env (fo_bytes f)))"

fun file_equals_loop :: "u8 list list \<Rightarrow> nat \<Rightarrow> u8 list \<Rightarrow> bool" where
  "file_equals_loop [] off expected = (off = length expected)"
| "file_equals_loop (chunk # chunks) off expected =
     (if chunk = [] then off = length expected
      else if off + length chunk > length expected then False
      else if take (length chunk) (drop off expected) \<noteq> chunk then False
      else file_equals_loop chunks (off + length chunk) expected)"

definition file_equals_bytes :: "write_env \<Rightarrow> nat \<Rightarrow> target \<Rightarrow> u8 list \<Rightarrow> write_failure + bool" where
  "file_equals_bytes env a t expected =
     (case t of
        None \<Rightarrow> Inl WriteReadExisting
      | Some f \<Rightarrow>
          if we_fails env a CompareStep then Inl WriteReadExisting
          else Inr (file_equals_loop (we_chunks env (fo_bytes f)) 0 expected))"

text \<open>The metadata is that of \<open>f\<close>, the content that of the target at the time.\<close>

definition is_unchanged ::
  "write_env \<Rightarrow> nat \<Rightarrow> file_obj \<Rightarrow> target \<Rightarrow> u8 list \<Rightarrow> bool \<Rightarrow> write_failure + bool" where
  "is_unchanged env a f t content compare_hash =
     (if length (fo_bytes f) \<noteq> length content then Inr False
      else if compare_hash
      then (case hash_file env a t of
              Inl e \<Rightarrow> Inl e
            | Inr h \<Rightarrow> if h \<noteq> we_hash env content then Inr False else file_equals_bytes env a t content)
      else file_equals_bytes env a t content)"

definition verify_cas ::
  "write_env \<Rightarrow> nat \<Rightarrow> target \<Rightarrow> target \<Rightarrow> cas_options \<Rightarrow> write_failure + unit" where
  "verify_cas env a metadata t cas =
     (case metadata of
        None \<Rightarrow> if has_expectations cas then Inl WriteTargetMissing else Inr ()
      | Some f \<Rightarrow>
          (case (case expected_len cas of
                   Some n \<Rightarrow> if length (fo_bytes f) \<noteq> n then Some (WriteCas (LenMismatch n (length (fo_bytes f))))
                     else None
                 | None \<Rightarrow> None) of
             Some e \<Rightarrow> Inl e
           | None \<Rightarrow>
               (case (case expected_modified cas of
                        Some m \<Rightarrow> (case fo_modified f of
                            None \<Rightarrow> Some WriteModified
                          | Some m' \<Rightarrow> if m' \<noteq> m then Some (WriteCas ModifiedChanged) else None)
                      | None \<Rightarrow> None) of
                  Some e \<Rightarrow> Inl e
                | None \<Rightarrow>
                    (case expected_hash cas of
                       None \<Rightarrow> Inr ()
                     | Some h \<Rightarrow> (case hash_file env a t of
                           Inl e \<Rightarrow> Inl e
                         | Inr h' \<Rightarrow> if h' \<noteq> h then Inl (WriteCas HashMismatch) else Inr ())))))"

section \<open>One write\<close>

text \<open>The temporary file: which failure, or the mode it ends with.\<close>

definition prepare_temp :: "write_env \<Rightarrow> write_options \<Rightarrow> nat \<Rightarrow> target \<Rightarrow> write_failure + nat" where
  "prepare_temp env opts a existing =
     (if existing = None \<and> we_fails env a MkdirStep then Inl WriteMkdir
      else if we_fails env a TempStep then Inl WriteTemp
      else if we_fails env a DataStep then Inl WriteData
      else if we_fails env a FlushStep then Inl WriteFlush
      else if wo_preserve_permissions opts \<and> existing \<noteq> None \<and> we_fails env a PermissionStep
      then Inl WritePermissions
      else if wo_durability opts = Durable \<and> we_fails env a SyncStep then Inl WriteSync
      else Inr (case existing of
          None \<Rightarrow> we_new_mode env
        | Some f \<Rightarrow> if wo_preserve_permissions opts then fo_mode f else we_temp_mode env))"

text \<open>The rename, which is one step, and the directory's synchronization after it.\<close>

definition replace_target ::
  "write_env \<Rightarrow> write_options \<Rightarrow> nat \<Rightarrow> target \<Rightarrow> u8 list \<Rightarrow> nat \<Rightarrow>
   target \<times> file_event list \<times> (write_failure + write_stats)" where
  "replace_target env opts a t content mode =
     (let present = we_others env a BeforeReplace t;
          new = \<lparr>fo_bytes = content, fo_modified = Some (we_clock env a), fo_mode = mode\<rparr>
      in if we_fails env a PersistStep then (present, [], Inl WriteReplace)
         else (Some new, [Replaced present new],
           if wo_durability opts = Durable \<and> we_fails env a DirSyncStep then Inl WriteDirSync
           else Inr \<lparr>ws_bytes_written = length content,
             ws_fsync_count = (if wo_durability opts = Durable then 2 else 0), ws_rename_count = 1,
             ws_skipped_unchanged = False, ws_durability = wo_durability opts\<rparr>))"

definition write_unless_same ::
  "write_env \<Rightarrow> write_options \<Rightarrow> nat \<Rightarrow> target \<Rightarrow> target \<Rightarrow> u8 list \<Rightarrow>
   target \<times> file_event list \<times> (write_failure + write_stats)" where
  "write_unless_same env opts a existing t content =
     (let t' = we_others env a BeforeCompare t
      in case (case existing of
                 Some f \<Rightarrow> if wo_idempotent_skip opts
                   then is_unchanged env a f t' content (wo_compare_hash opts) else Inr False
               | None \<Rightarrow> Inr False) of
           Inl e \<Rightarrow> (t', [], Inl e)
         | Inr True \<Rightarrow> (t', [], Inr (stats_skipped (wo_durability opts)))
         | Inr False \<Rightarrow>
             (case prepare_temp env opts a existing of
                Inl e \<Rightarrow> (t', [], Inl e)
              | Inr mode \<Rightarrow> replace_target env opts a t' content mode))"

definition write_bytes ::
  "write_env \<Rightarrow> write_options \<Rightarrow> nat \<Rightarrow> target \<Rightarrow> u8 list \<Rightarrow>
   target \<times> file_event list \<times> (write_failure + write_stats)" where
  "write_bytes env opts a t content =
     (if \<not> we_has_parent env then (t, [], Inl WriteNoParent)
      else let existing = we_others env a BeforeStat t
        in if we_fails env a StatStep then (existing, [], Inl WriteStat)
           else let t' = we_others env a BeforeHash existing
             in case wo_cas opts of
                  None \<Rightarrow> write_unless_same env opts a existing t' content
                | Some cas \<Rightarrow>
                    (case verify_cas env a existing t' cas of
                       Inl e \<Rightarrow> (t', [], Inl e)
                     | Inr _ \<Rightarrow>
                         (case write_unless_same env opts a existing t' content of
                            (t'', events, r) \<Rightarrow> (t'', Checked t' # events, r))))"

section \<open>Locked writes\<close>

datatype output_mode = Quiet | Concise | JsonOutput

record write_params =
  wp_dry_run :: bool
  wp_fast :: bool
  wp_verbose :: nat
  wp_output :: output_mode
  wp_cas :: bool
  wp_max_retries :: nat

record write_response =
  wr_version :: nat
  wr_ok :: bool
  wr_op :: rstr
  wr_applied :: "nat option"
  wr_failed :: "nat option"
  wr_dry_run :: "bool option"
  wr_error :: "rstr option"
  wr_hint :: "rstr option"
  wr_detail :: "rstr option"
  wr_retries :: "nat option"
  wr_conflict_resolved :: "bool option"

definition response_success :: "rstr \<Rightarrow> nat \<Rightarrow> write_response" where
  "response_success op applied = \<lparr>wr_version = 1, wr_ok = True, wr_op = op, wr_applied = Some applied, wr_failed = None,
     wr_dry_run = None, wr_error = None, wr_hint = None, wr_detail = None, wr_retries = None, wr_conflict_resolved = None\<rparr>"

definition response_dry_run :: "rstr \<Rightarrow> nat \<Rightarrow> write_response" where
  "response_dry_run op planned = (response_success op planned)\<lparr>wr_dry_run := Some True\<rparr>"

definition response_noop :: "rstr \<Rightarrow> write_response" where
  "response_noop op = (response_success op 0)\<lparr>wr_hint := Some (lit ''no-op'')\<rparr>"

datatype write_attempt = Success rstr nat | RetryableConflict rstr | TerminalError rstr rstr | Unchanged

datatype locked_error = LockFailed | ReadFailed | SnapshotFailed | WriteFailed write_failure
  | Reported rstr rstr | ArgumentFailed rstr | Panicked

text \<open>What one round of the loop decides: the call returns, or it may be repeated.\<close>

datatype round_result = RoundDone "locked_error + write_response \<times> rstr" | RoundConflict locked_error

definition read_target :: "write_env \<Rightarrow> nat \<Rightarrow> target \<Rightarrow> (u8 list \<times> rstr) option" where
  "read_target env a t =
     (if we_fails env a ReadStep then None
      else case t of
        None \<Rightarrow> Some ([], [])
      | Some f \<Rightarrow> map_option (Pair (fo_bytes f)) (decode_utf8 (fo_bytes f)))"

definition snapshot_from_content ::
  "write_env \<Rightarrow> nat \<Rightarrow> target \<Rightarrow> u8 list \<Rightarrow> bool \<Rightarrow> file_snapshot option option" where
  "snapshot_from_content env a t content include_hash =
     (if we_fails env a SnapshotStep then None
      else case t of
        None \<Rightarrow> Some None
      | Some f \<Rightarrow> Some (Some \<lparr>fs_len = Some (length (fo_bytes f)), fs_modified = fo_modified f,
          fs_hash = (if include_hash then Some (we_hash env content) else None)\<rparr>))"

definition locked_options :: "write_params \<Rightarrow> file_snapshot option \<Rightarrow> write_options" where
  "locked_options params snapshot =
     (if wp_fast params then fast_write_options else default_write_options)
       \<lparr>wo_idempotent_skip := False, wo_cas := map_option cas_from_snapshot snapshot\<rparr>"

definition finish_write ::
  "nat \<Rightarrow> rstr \<Rightarrow> rstr \<Rightarrow> nat \<Rightarrow> (write_failure + write_stats) \<Rightarrow> round_result" where
  "finish_write a op content count r =
     (case r of
        Inr _ \<Rightarrow>
          let resp = response_success op count
          in RoundDone (Inr (if a > 0 then resp\<lparr>wr_retries := Some a, wr_conflict_resolved := Some True\<rparr> else resp,
               content))
      | Inl (WriteCas e) \<Rightarrow> RoundConflict (WriteFailed (WriteCas e))
      | Inl e \<Rightarrow> RoundDone (Inl (WriteFailed e)))"

text \<open>What a round does with the text it computed.\<close>

definition apply_attempt ::
  "write_env \<Rightarrow> write_params \<Rightarrow> rstr \<Rightarrow> nat \<Rightarrow> target \<Rightarrow> file_snapshot option \<Rightarrow> rstr \<Rightarrow> write_attempt option \<Rightarrow>
   target \<times> file_event list \<times> round_result" where
  "apply_attempt env params op a t snapshot content computed =
     (case computed of
        None \<Rightarrow> (t, [], RoundDone (Inl Panicked))
      | Some Unchanged \<Rightarrow> (t, [], RoundDone (Inr (response_noop op, content)))
      | Some (TerminalError code hint) \<Rightarrow> (t, [], RoundDone (Inl (Reported code hint)))
      | Some (RetryableConflict msg) \<Rightarrow> (t, [], RoundConflict (Reported (lit ''CONFLICT'') msg))
      | Some (Success updated count) \<Rightarrow>
          if updated = content then (t, [], RoundDone (Inr (response_noop op, content)))
          else if wp_dry_run params then (t, [], RoundDone (Inr (response_dry_run op count, content)))
          else (case write_bytes env (locked_options params snapshot) a t (str_bytes updated) of
                  (t', events, r) \<Rightarrow> (t', events, finish_write a op content count r)))"

text \<open>The closure is given the text that was read; one that reads files sees the target as it is at the call.\<close>

type_synonym compute_fn = "target \<Rightarrow> rstr \<Rightarrow> write_attempt option"

definition called_round ::
  "target \<Rightarrow> target \<Rightarrow> target \<times> file_event list \<times> round_result \<Rightarrow> target \<times> file_event list \<times> round_result" where
  "called_round seen t x = (case x of (t', events, r) \<Rightarrow> (t', FileRead seen # Called t # events, r))"

definition write_round ::
  "write_env \<Rightarrow> write_params \<Rightarrow> rstr \<Rightarrow> compute_fn \<Rightarrow> nat \<Rightarrow> target \<Rightarrow>
   target \<times> file_event list \<times> round_result" where
  "write_round env params op compute a t =
     (if we_fails env a LockStep then (t, [], RoundDone (Inl LockFailed))
      else let t1 = we_others env a BeforeRead t
        in case read_target env a t1 of
             None \<Rightarrow> (t1, [], RoundDone (Inl ReadFailed))
           | Some (bytes, content) \<Rightarrow>
               let t2 = we_others env a BeforeSnapshot t1
               in if wp_cas params \<or> wp_max_retries params > 0
                  then (case snapshot_from_content env a t2 bytes (wp_cas params) of
                          None \<Rightarrow> (t2, [FileRead t1], RoundDone (Inl SnapshotFailed))
                        | Some snapshot \<Rightarrow>
                            called_round t1 t2 (apply_attempt env params op a t2 snapshot content (compute t2 content)))
                  else called_round t1 t2 (apply_attempt env params op a t2 None content (compute t2 content)))"

text \<open>The pause before a repetition, in milliseconds. \<open>2u64.pow\<close> wraps in a release build.\<close>

definition backoff :: "nat \<Rightarrow> u64" where
  "backoff a = 50 * min (2 ^ a) 8"

record locked_run =
  lr_target :: target
  lr_events :: "file_event list"
  lr_sleeps :: "u64 list"
  lr_result :: "locked_error + write_response \<times> rstr"

text \<open>The loop over the attempts, with the repetitions that are left. At the last one every path returns.\<close>

primrec locked_loop ::
  "write_env \<Rightarrow> write_params \<Rightarrow> rstr \<Rightarrow> compute_fn \<Rightarrow> nat \<Rightarrow> nat \<Rightarrow> target \<Rightarrow> locked_run" where
  "locked_loop env params op compute 0 a t =
     (case write_round env params op compute a t of
        (t', events, r) \<Rightarrow> \<lparr>lr_target = t', lr_events = events, lr_sleeps = [],
          lr_result = (case r of RoundDone x \<Rightarrow> x | RoundConflict e \<Rightarrow> Inl e)\<rparr>)"
| "locked_loop env params op compute (Suc n) a t =
     (case write_round env params op compute a t of
        (t', events, r) \<Rightarrow>
          (case r of
             RoundDone x \<Rightarrow> \<lparr>lr_target = t', lr_events = events, lr_sleeps = [], lr_result = x\<rparr>
           | RoundConflict e \<Rightarrow>
               let rest = locked_loop env params op compute n (a + 1) t'
               in rest\<lparr>lr_events := events @ lr_events rest, lr_sleeps := backoff a # lr_sleeps rest\<rparr>))"

definition locked_write ::
  "write_env \<Rightarrow> write_params \<Rightarrow> rstr \<Rightarrow> compute_fn \<Rightarrow> target \<Rightarrow> locked_run" where
  "locked_write env params op compute t = locked_loop env params op compute (wp_max_retries params) 0 t"

section \<open>Commands\<close>

text \<open>The hint for a pattern that was not found only fills the message and is an argument.\<close>

definition edit_attempt ::
  "edit_env \<Rightarrow> (rstr \<Rightarrow> rstr) \<Rightarrow> rstr \<Rightarrow> rstr \<Rightarrow> bool \<Rightarrow> rstr \<Rightarrow> write_attempt option" where
  "edit_attempt env hint old new all_places content =
     map_option (\<lambda>r. case r of
         NoMatch \<Rightarrow> TerminalError (lit ''NO_MATCH'') (hint content)
       | SameText \<Rightarrow> Unchanged
       | Edited updated count \<Rightarrow> Success updated count)
       (edit_text env old new all_places content)"

definition run_replace ::
  "edit_env \<Rightarrow> (rstr \<Rightarrow> rstr) \<Rightarrow> write_env \<Rightarrow> rstr \<Rightarrow> rstr \<Rightarrow> bool \<Rightarrow> write_params \<Rightarrow> target \<Rightarrow> locked_run" where
  "run_replace ee hint env from_text to all_places params t =
     (if from_text = []
      then \<lparr>lr_target = t, lr_events = [], lr_sleeps = [],
            lr_result = Inl (Reported (lit ''EMPTY_PATTERN'') (lit ''--from must be non-empty''))\<rparr>
      else locked_write env params (lit ''replace'') (\<lambda>_. edit_attempt ee hint from_text to all_places) t)"

definition run_patch ::
  "edit_env \<Rightarrow> (rstr \<Rightarrow> rstr) \<Rightarrow> write_env \<Rightarrow> rstr \<Rightarrow> rstr \<Rightarrow> bool \<Rightarrow> write_params \<Rightarrow> target \<Rightarrow> locked_run" where
  "run_patch ee hint env old new all_places params t =
     (if old = []
      then \<lparr>lr_target = t, lr_events = [], lr_sleeps = [],
            lr_result = Inl (Reported (lit ''EMPTY_PATTERN'') (lit ''--old must be non-empty''))\<rparr>
      else locked_write env params (lit ''patch'') (\<lambda>_. edit_attempt ee hint old new all_places) t)"

text \<open>References to files and to the standard input in an argument. What they hold and the debug form of a
  string are arguments.\<close>

record arg_env =
  ae_read_file :: "rstr \<Rightarrow> rstr option"
  ae_stdin :: "rstr option"
  ae_debug :: "rstr \<Rightarrow> rstr"

definition expand_at_ref :: "arg_env \<Rightarrow> rstr \<Rightarrow> rstr + rstr" where
  "expand_at_ref ae v =
     (case strip_prefix v [64] of
        None \<Rightarrow> Inr v
      | Some path \<Rightarrow>
          if path = [c_minus]
          then (case ae_stdin ae of None \<Rightarrow> Inl (lit ''@-: failed to read stdin'') | Some s \<Rightarrow> Inr s)
          else (case ae_read_file ae path of
                  None \<Rightarrow> Inl (lit ''@file: failed to read '' @ ae_debug ae path)
                | Some s \<Rightarrow> Inr s))"

text \<open>Creating a file takes no lock: the target is read, then written.\<close>

definition create_text ::
  "write_env \<Rightarrow> rstr \<Rightarrow> rstr \<Rightarrow> bool \<Rightarrow> write_params \<Rightarrow> target \<Rightarrow> target \<times> file_event list \<times> (locked_error + write_response)" where
  "create_text env path content force params t =
     (let t1 = we_others env 0 BeforeRead t
      in case (if we_fails env 0 ReadStep then None
               else case t1 of None \<Rightarrow> Some None | Some f \<Rightarrow> map_option Some (decode_utf8 (fo_bytes f))) of
           None \<Rightarrow> (t1, [], Inl ReadFailed)
         | Some existing \<Rightarrow>
             if existing = Some content then (t1, [], Inr (response_noop (lit ''create'')))
             else if existing \<noteq> None \<and> \<not> force
             then (t1, [], Inl (Reported (lit ''FILE_EXISTS'') (path @ lit '' already exists with different content; use replace/patch to modify it, or pass --force to overwrite'')))
             else if wp_dry_run params then (t1, [], Inr (response_dry_run (lit ''create'') 1))
             else if we_fails env 0 MkdirStep then (t1, [], Inl (WriteFailed WriteMkdir))
             else (case write_bytes env (if wp_fast params then fast_write_options else default_write_options) 0 t1
                          (str_bytes content) of
                     (t', events, r) \<Rightarrow>
                       (t', events, case r of
                          Inl e \<Rightarrow> Inl (WriteFailed e)
                        | Inr _ \<Rightarrow> Inr (response_success (lit ''create'') 1))))"

definition run_create ::
  "arg_env \<Rightarrow> write_env \<Rightarrow> rstr \<Rightarrow> rstr \<Rightarrow> bool \<Rightarrow> write_params \<Rightarrow> target \<Rightarrow>
   target \<times> file_event list \<times> (locked_error + write_response)" where
  "run_create ae env path content force params t =
     (case expand_at_ref ae content of
        Inl e \<Rightarrow> (t, [], Inl (ArgumentFailed e))
      | Inr content_str \<Rightarrow> create_text env path content_str force params t)"

section \<open>What a write does to the target\<close>

fun replacements :: "file_event list \<Rightarrow> (target \<times> file_obj) list" where
  "replacements [] = []"
| "replacements (Replaced t f # events) = (t, f) # replacements events"
| "replacements (_ # events) = replacements events"

text \<open>The target of the last read, and the target at the last call of the closure.\<close>

fun last_read :: "file_event list \<Rightarrow> target option" where
  "last_read [] = None"
| "last_read (FileRead t # events) = (case last_read events of None \<Rightarrow> Some t | r \<Rightarrow> r)"
| "last_read (_ # events) = last_read events"

fun last_called :: "file_event list \<Rightarrow> target option" where
  "last_called [] = None"
| "last_called (Called t # events) = (case last_called events of None \<Rightarrow> Some t | r \<Rightarrow> r)"
| "last_called (_ # events) = last_called events"

lemma last_read_append [simp]: "last_read (xs @ ys) = (case last_read ys of None \<Rightarrow> last_read xs | r \<Rightarrow> r)"
  by (induction xs rule: last_read.induct) (auto split: option.splits)

lemma last_called_append [simp]: "last_called (xs @ ys) = (case last_called ys of None \<Rightarrow> last_called xs | r \<Rightarrow> r)"
  by (induction xs rule: last_called.induct) (auto split: option.splits)

lemma replacements_append [simp]: "replacements (xs @ ys) = replacements xs @ replacements ys"
  by (induction xs rule: replacements.induct) auto

text \<open>A write that is done once or not at all, and what the result tells of it.\<close>

definition written_once ::
  "u8 list \<Rightarrow> target \<Rightarrow> file_event list \<Rightarrow> (write_failure + write_stats) \<Rightarrow> bool" where
  "written_once content t events r \<longleftrightarrow>
     replacements events = [] \<and> (\<forall>stats. r = Inr stats \<longrightarrow> ws_skipped_unchanged stats) \<or>
     (\<exists>present new. replacements events = [(present, new)] \<and> t = Some new \<and> fo_bytes new = content \<and>
        (\<forall>e. r = Inl e \<longrightarrow> e = WriteDirSync) \<and> (\<forall>stats. r = Inr stats \<longrightarrow> \<not> ws_skipped_unchanged stats))"

lemma replace_target_once:
  "replace_target env opts a t content mode = (t', events, r) \<Longrightarrow> written_once content t' events r"
  by (auto simp: replace_target_def Let_def written_once_def split: if_splits)

lemma write_unless_same_once:
  "write_unless_same env opts a existing t content = (t', events, r) \<Longrightarrow> written_once content t' events r"
  unfolding write_unless_same_def Let_def
  by (auto split: option.splits sum.splits bool.splits if_splits dest: replace_target_once
      simp: written_once_def [of _ _ "[]"] stats_skipped_def)

lemma verify_cas_WriteCas: "write_bytes env opts a t content = (t', events, Inl (WriteCas e)) \<Longrightarrow> events = []"
  unfolding write_bytes_def Let_def write_unless_same_def replace_target_def prepare_temp_def is_unchanged_def
    file_equals_bytes_def hash_file_def
  by (auto split: option.splits sum.splits bool.splits if_splits prod.splits)

lemma write_bytes_once:
  "write_bytes env opts a t content = (t', events, r) \<Longrightarrow> written_once content t' events r"
  unfolding write_bytes_def Let_def
  by (auto split: option.splits sum.splits if_splits prod.splits dest!: write_unless_same_once
      simp: written_once_def)

text \<open>The text of a target: none when it is not text, and no text when it is not there.\<close>

definition target_text :: "target \<Rightarrow> rstr option" where
  "target_text t = (case t of None \<Rightarrow> Some [] | Some f \<Rightarrow> decode_utf8 (fo_bytes f))"

lemma write_bytes_silent:
  "write_bytes env opts a t content = (t', events, r) \<Longrightarrow> last_read events = None \<and> last_called events = None"
  unfolding write_bytes_def Let_def write_unless_same_def replace_target_def
  by (auto split: option.splits sum.splits bool.splits if_splits prod.splits)

text \<open>One write of the text computed from the text that was read.\<close>

definition wrote ::
  "write_params \<Rightarrow> compute_fn \<Rightarrow> target \<Rightarrow> file_event list \<Rightarrow> rstr \<Rightarrow> nat \<Rightarrow> bool" where
  "wrote params compute t events content count \<longleftrightarrow>
     (\<exists>a b updated present new. last_read events = Some a \<and> target_text a = Some content \<and> last_called events = Some b \<and>
        compute b content = Some (Success updated count) \<and> updated \<noteq> content \<and> \<not> wp_dry_run params \<and>
        replacements events = [(present, new)] \<and> t = Some new \<and> fo_bytes new = str_bytes updated)"

text \<open>No write, and why: the text is the same, or it is a dry run.\<close>

definition wrote_nothing ::
  "write_params \<Rightarrow> compute_fn \<Rightarrow> file_event list \<Rightarrow> write_response \<Rightarrow> rstr \<Rightarrow> bool" where
  "wrote_nothing params compute events resp content \<longleftrightarrow> replacements events = [] \<and>
     (\<exists>a b. last_read events = Some a \<and> target_text a = Some content \<and> last_called events = Some b \<and>
        ((compute b content = Some Unchanged \<or> (\<exists>count. compute b content = Some (Success content count))) \<and>
           wr_hint resp = Some (lit ''no-op'') \<and> wr_applied resp = Some 0 \<or>
         (\<exists>updated count. compute b content = Some (Success updated count) \<and> updated \<noteq> content \<and> wp_dry_run params \<and>
           wr_dry_run resp = Some True \<and> wr_applied resp = Some count)))"

text \<open>What the result of a locked write says about the target.\<close>

definition told_truly ::
  "write_params \<Rightarrow> compute_fn \<Rightarrow> target \<Rightarrow> file_event list \<Rightarrow> (locked_error + write_response \<times> rstr) \<Rightarrow> bool" where
  "told_truly params compute t events result \<longleftrightarrow>
     (case result of
        Inl e \<Rightarrow> replacements events = [] \<or>
          (e = WriteFailed WriteDirSync \<and> (\<exists>content count. wrote params compute t events content count))
      | Inr (resp, content) \<Rightarrow>
          wrote_nothing params compute events resp content \<or>
          (\<exists>count. wrote params compute t events content count \<and> wr_applied resp = Some count \<and>
             wr_dry_run resp = None \<and> wr_hint resp = None))"

lemma told_truly_later:
  "told_truly params compute t events x \<Longrightarrow> replacements before = [] \<Longrightarrow> told_truly params compute t (before @ events) x"
  unfolding told_truly_def wrote_def wrote_nothing_def
  by (auto split: sum.splits prod.splits)

text \<open>A round that ends, or that may be repeated and then has replaced nothing.\<close>

definition round_truly :: "write_params \<Rightarrow> compute_fn \<Rightarrow> target \<Rightarrow> file_event list \<Rightarrow> round_result \<Rightarrow> bool" where
  "round_truly params compute t events r \<longleftrightarrow>
     (case r of RoundDone x \<Rightarrow> told_truly params compute t events x
      | RoundConflict e \<Rightarrow> replacements events = [] \<and> e \<noteq> WriteFailed WriteDirSync)"

lemma finish_write_truly:
  assumes w: "write_bytes env (locked_options params snapshot) a t (str_bytes updated) = (t', events, r)"
    and "compute t2 content = Some (Success updated count)" and "updated \<noteq> content" and "\<not> wp_dry_run params"
    and seen: "target_text t1 = Some content"
  shows "round_truly params compute t' (FileRead t1 # Called t2 # events) (finish_write a op content count r)"
proof -
  note silent = write_bytes_silent [OF w] and once = write_bytes_once [OF w, unfolded written_once_def]
  have wr: "wrote params compute t' (FileRead t1 # Called t2 # events) content count"
    if "replacements events = [(present, new)]" "t' = Some new" "fo_bytes new = str_bytes updated" for present new
    using that assms(2-) silent by (simp add: wrote_def)
  show ?thesis
  proof (cases r)
    case (Inl e)
    then have "replacements events = [] \<or> e = WriteDirSync \<and> wrote params compute t' (FileRead t1 # Called t2 # events) content count"
      using once wr by blast
    with Inl verify_cas_WriteCas [of env "locked_options params snapshot" a t "str_bytes updated" t' events] w show ?thesis
      by (cases e) (auto simp: finish_write_def round_truly_def told_truly_def)
  next
    case (Inr stats)
    have "\<not> ws_skipped_unchanged stats"
      using w Inr
      by (auto simp: write_bytes_def write_unless_same_def replace_target_def locked_options_def Let_def
          split: if_splits option.splits sum.splits prod.splits)
    with Inr once wr have "wrote params compute t' (FileRead t1 # Called t2 # events) content count" by blast
    with Inr show ?thesis by (auto simp: finish_write_def round_truly_def told_truly_def response_success_def Let_def)
  qed
qed

lemma apply_attempt_truly:
  assumes "called_round t1 t2 (apply_attempt env params op a t2 snapshot content (compute t2 content)) = (t', events, r)"
    and seen: "target_text t1 = Some content"
  shows "round_truly params compute t' events r"
proof (cases "compute t2 content")
  case None
  with assms show ?thesis by (auto simp: apply_attempt_def called_round_def round_truly_def told_truly_def)
next
  case (Some computed)
  show ?thesis
  proof (cases computed)
    case (Success updated count)
    show ?thesis
    proof (cases "updated = content \<or> wp_dry_run params")
      case True
      with assms Some Success show ?thesis
        by (auto simp: apply_attempt_def called_round_def round_truly_def told_truly_def wrote_nothing_def
            response_noop_def response_dry_run_def response_success_def split: if_splits)
    next
      case False
      obtain t3 ev r1 where w: "write_bytes env (locked_options params snapshot) a t2 (str_bytes updated) = (t3, ev, r1)"
        by (cases "write_bytes env (locked_options params snapshot) a t2 (str_bytes updated)") auto
      with assms(1) Some Success False finish_write_truly [OF w, of compute t2 content count t1 op] seen show ?thesis
        by (auto simp: apply_attempt_def called_round_def)
    qed
  qed (use assms Some in \<open>auto simp: apply_attempt_def called_round_def round_truly_def told_truly_def wrote_nothing_def
        response_noop_def response_success_def\<close>)
qed

lemma read_target_text: "read_target env a t = Some (bytes, content) \<Longrightarrow> target_text t = Some content"
  by (auto simp: read_target_def target_text_def split: if_splits option.splits)

lemma write_round_cases:
  assumes "write_round env params op compute a t = (t', events, r)"
  obtains e where "replacements events = []" "r = RoundDone (Inl e)"
  | bytes content snapshot where
      "read_target env a (we_others env a BeforeRead t) = Some (bytes, content)"
      "called_round (we_others env a BeforeRead t) (we_others env a BeforeSnapshot (we_others env a BeforeRead t))
        (apply_attempt env params op a (we_others env a BeforeSnapshot (we_others env a BeforeRead t)) snapshot content
          (compute (we_others env a BeforeSnapshot (we_others env a BeforeRead t)) content)) = (t', events, r)"
      "if wp_cas params \<or> wp_max_retries params > 0
       then snapshot_from_content env a (we_others env a BeforeSnapshot (we_others env a BeforeRead t)) bytes (wp_cas params) = Some snapshot
       else snapshot = None"
  using assms unfolding write_round_def Let_def by (auto split: if_splits option.splits prod.splits)

lemma write_round_truly:
  assumes "write_round env params op compute a t = (t', events, r)"
  shows "round_truly params compute t' events r"
  using assms
proof (cases rule: write_round_cases)
  case (1 e)
  then show ?thesis by (simp add: round_truly_def told_truly_def)
next
  case (2 bytes content snapshot)
  show ?thesis by (rule apply_attempt_truly [where compute = compute, OF 2(2) read_target_text [OF 2(1)]])
qed

lemma backoff_le: "backoff a \<le> 400"
proof -
  have "min ((2 :: u64) ^ a) 8 \<le> 8" by simp
  then have "unat (min ((2 :: u64) ^ a) 8) \<le> 8" by (simp add: word_le_nat_alt)
  then have "50 * unat (min ((2 :: u64) ^ a) 8) \<le> 400" by simp
  then have "unat (50 * min ((2 :: u64) ^ a) 8) \<le> 400"
    by (simp add: unat_word_ariths(2))
  then show ?thesis by (simp add: backoff_def word_le_nat_alt)
qed

lemma locked_loop_truly:
  "told_truly params compute (lr_target (locked_loop env params op compute n a t))
     (lr_events (locked_loop env params op compute n a t)) (lr_result (locked_loop env params op compute n a t)) \<and>
   length (lr_sleeps (locked_loop env params op compute n a t)) \<le> n \<and>
   list_all (\<lambda>s. s \<le> 400) (lr_sleeps (locked_loop env params op compute n a t))"
proof (induction n arbitrary: a t)
  case 0
  obtain t' ev r where w: "write_round env params op compute a t = (t', ev, r)"
    by (cases "write_round env params op compute a t") auto
  with write_round_truly [OF w] show ?case by (cases r) (auto simp: round_truly_def told_truly_def)
next
  case (Suc n)
  obtain t' ev r where w: "write_round env params op compute a t = (t', ev, r)"
    by (cases "write_round env params op compute a t") auto
  with write_round_truly [OF w] Suc.IH [of "a + 1" t'] backoff_le [of a] show ?case
    by (cases r) (auto simp: Let_def round_truly_def intro: told_truly_later)
qed

text \<open>C31: A locked write changes its target at most once and tells the truth about it, whatever other processes
  do and whichever system call fails. A reported success wrote exactly the text that the closure computed from
  the text of the file as it was last read, and reports its count; a no-op or a dry run wrote nothing, because
  that text is the same or because nothing was to be written. After an error the target was not replaced,
  except when only the synchronization of the directory failed: then it has the computed text. There are at
  most the allowed repetitions, with pauses of at most 400 milliseconds.\<close>

theorem locked_write_once:
  "let run = locked_write env params op compute t; events = lr_events run;
       written = (\<lambda>content count. \<exists>a b updated present new.
         last_read events = Some a \<and> target_text a = Some content \<and> last_called events = Some b \<and>
         compute b content = Some (Success updated count) \<and> updated \<noteq> content \<and> \<not> wp_dry_run params \<and>
         replacements events = [(present, new)] \<and> lr_target run = Some new \<and> fo_bytes new = str_bytes updated)
   in (case lr_result run of
      Inl e \<Rightarrow> replacements events = [] \<or> (e = WriteFailed WriteDirSync \<and> (\<exists>content count. written content count))
    | Inr (resp, content) \<Rightarrow>
        replacements events = [] \<and>
        (\<exists>a b. last_read events = Some a \<and> target_text a = Some content \<and> last_called events = Some b \<and>
          ((compute b content = Some Unchanged \<or> (\<exists>count. compute b content = Some (Success content count))) \<and>
             wr_hint resp = Some (lit ''no-op'') \<and> wr_applied resp = Some 0 \<or>
           (\<exists>updated count. compute b content = Some (Success updated count) \<and> updated \<noteq> content \<and> wp_dry_run params \<and>
             wr_dry_run resp = Some True \<and> wr_applied resp = Some count))) \<or>
        (\<exists>count. written content count \<and> wr_applied resp = Some count \<and> wr_dry_run resp = None \<and> wr_hint resp = None)) \<and>
    length (lr_sleeps run) \<le> wp_max_retries params \<and> list_all (\<lambda>s. s \<le> 400) (lr_sleeps run)"
  using locked_loop_truly [of params compute env op "wp_max_retries params" 0 t]
  unfolding Let_def locked_write_def told_truly_def wrote_def wrote_nothing_def .

section \<open>Comparing before replacing\<close>

lemma write_bytes_checked:
  assumes "write_bytes env opts a t content = (t', events, Inr stats)" and "\<not> wo_idempotent_skip opts"
    and "wo_cas opts = Some cas" and "expected_hash cas = Some h"
  obtains f present new where "events = [Checked (Some f), Replaced present new]" "we_hash env (fo_bytes f) = h"
proof -
  let ?existing = "we_others env a BeforeStat t"
  let ?t = "we_others env a BeforeHash ?existing"
  from assms(1,3) obtain ev where v: "verify_cas env a ?existing ?t cas = Inr ()"
    and w: "write_unless_same env opts a ?existing ?t content = (t', ev, Inr stats)" and ev: "events = Checked ?t # ev"
    by (auto simp: write_bytes_def Let_def split: if_splits sum.splits prod.splits)
  from v assms(4) have h: "hash_file env a ?t = Inr h"
    by (auto simp: verify_cas_def has_expectations_def split: option.splits if_splits sum.splits)
  then obtain f where "?t = Some f" "we_hash env (fo_bytes f) = h"
    by (auto simp: hash_file_def split: option.splits if_splits)
  moreover from w assms(2) obtain present new where "ev = [Replaced present new]"
    by (auto simp: write_unless_same_def replace_target_def Let_def split: option.splits sum.splits if_splits)
  ultimately show thesis using that ev by simp
qed

lemma write_bytes_unchecked:
  assumes "write_bytes env opts a t content = (t', events, Inr stats)" and "\<not> wo_idempotent_skip opts"
    and "wo_cas opts = None"
  obtains present new where "events = [Replaced present new]"
  using assms
  by (auto simp: write_bytes_def write_unless_same_def replace_target_def Let_def split: option.splits sum.splits if_splits)

text \<open>The rounds before the last one replace nothing.\<close>

lemma locked_loop_last_round:
  assumes "lr_result (locked_loop env params op compute n a t) = Inr x"
  shows "\<exists>b t1 before events. write_round env params op compute b t1 =
      (lr_target (locked_loop env params op compute n a t), events, RoundDone (Inr x)) \<and>
    lr_events (locked_loop env params op compute n a t) = before @ events \<and> replacements before = []"
  using assms
proof (induction n arbitrary: a t)
  case 0
  obtain t' ev r where w: "write_round env params op compute a t = (t', ev, r)"
    by (cases "write_round env params op compute a t") auto
  with 0 show ?case
    by (intro exI [of _ a] exI [of _ t] exI [of _ "[]"] exI [of _ ev]) (auto split: round_result.splits)
next
  case (Suc n)
  obtain t' ev r where w: "write_round env params op compute a t = (t', ev, r)"
    by (cases "write_round env params op compute a t") auto
  show ?case
  proof (cases r)
    case (RoundDone y)
    with w Suc.prems show ?thesis by (intro exI [of _ a] exI [of _ t] exI [of _ "[]"] exI [of _ ev]) auto
  next
    case (RoundConflict e)
    with write_round_truly [OF w] have ev: "replacements ev = []" by (simp add: round_truly_def)
    let ?rest = "locked_loop env params op compute n (a + 1) t'"
    have run: "lr_target (locked_loop env params op compute (Suc n) a t) = lr_target ?rest"
      "lr_result (locked_loop env params op compute (Suc n) a t) = lr_result ?rest"
      "lr_events (locked_loop env params op compute (Suc n) a t) = ev @ lr_events ?rest"
      using w RoundConflict by (simp_all add: Let_def)
    from Suc.IH [of "a + 1" t'] Suc.prems run(2) obtain b t1 before events where
      "write_round env params op compute b t1 = (lr_target ?rest, events, RoundDone (Inr x))"
      "lr_events ?rest = before @ events" "replacements before = []" by auto
    with ev show ?thesis unfolding run
      by (intro exI [of _ b] exI [of _ t1] exI [of _ "ev @ before"] exI [of _ events]) simp
  qed
qed

definition hash_collision :: "write_env \<Rightarrow> u8 list \<Rightarrow> u8 list \<Rightarrow> bool" where
  "hash_collision env x y \<longleftrightarrow> x \<noteq> y \<and> we_hash env x = we_hash env y"

lemma apply_attempt_success:
  assumes "apply_attempt env params op a t snapshot content computed = (t', events, RoundDone (Inr (resp, text')))"
    and "replacements events \<noteq> []"
  obtains updated stats where "text' = content"
    "write_bytes env (locked_options params snapshot) a t (str_bytes updated) = (t', events, Inr stats)"
proof -
  from assms obtain updated count r where
    w: "write_bytes env (locked_options params snapshot) a t (str_bytes updated) = (t', events, r)"
    and f: "finish_write a op content count r = RoundDone (Inr (resp, text'))"
    by (auto simp: apply_attempt_def split: option.splits write_attempt.splits if_splits prod.splits)
  from f obtain stats where "r = Inr stats" "text' = content"
    by (auto simp: finish_write_def Let_def split: sum.splits write_failure.splits)
  with w that show thesis by blast
qed

definition target_bytes :: "target \<Rightarrow> u8 list" where
  "target_bytes t = (case t of None \<Rightarrow> [] | Some f \<Rightarrow> fo_bytes f)"

lemma read_target_bytes: "read_target env a t = Some (bytes, content) \<Longrightarrow> bytes = target_bytes t"
  by (auto simp: read_target_def target_bytes_def split: if_splits option.splits)

text \<open>The events of a round that compared: what was read, the target that was there at the call, and the file that
  was compared last, which has the bytes that were read up to a collision of the hash. Without a file at the
  call there is nothing to compare with.\<close>

definition compared_round :: "write_env \<Rightarrow> rstr \<Rightarrow> file_event list \<Rightarrow> bool" where
  "compared_round env content events \<longleftrightarrow>
     (\<exists>seen present new. target_text seen = Some content \<and>
        (events = [FileRead seen, Called None, Replaced present new] \<or>
         (\<exists>g f. events = [FileRead seen, Called (Some g), Checked (Some f), Replaced present new] \<and>
            (fo_bytes f = target_bytes seen \<or> hash_collision env (fo_bytes f) (target_bytes seen)))))"

lemma write_round_compared:
  assumes "write_round env params op compute a t = (t', events, RoundDone (Inr (resp, content)))"
    and "wp_cas params" and "replacements events \<noteq> []"
  shows "compared_round env content events"
  using assms(1)
proof (cases rule: write_round_cases)
  case (2 bytes seen snapshot)
  let ?t1 = "we_others env a BeforeRead t"
  let ?t2 = "we_others env a BeforeSnapshot ?t1"
  obtain ev where ap: "apply_attempt env params op a ?t2 snapshot seen (compute ?t2 seen) =
      (t', ev, RoundDone (Inr (resp, content)))" and ev: "events = FileRead ?t1 # Called ?t2 # ev"
    using 2(2) by (auto simp: called_round_def split: prod.splits)
  have "replacements ev \<noteq> []" using assms(3) ev by simp
  from apply_attempt_success [OF ap this] obtain updated stats where c: "content = seen"
    and w: "write_bytes env (locked_options params snapshot) a ?t2 (str_bytes updated) = (t', ev, Inr stats)" by blast
  have txt1: "target_text ?t1 = Some content" and bytes: "bytes = target_bytes ?t1"
    using read_target_text [OF 2(1)] read_target_bytes [OF 2(1)] c by auto
  have skip: "\<not> wo_idempotent_skip (locked_options params snapshot)" by (simp add: locked_options_def)
  show ?thesis
  proof (cases ?t2)
    case None
    then have "snapshot = None" using 2(3) assms(2) by (auto simp: snapshot_from_content_def split: if_splits)
    then have "wo_cas (locked_options params snapshot) = None" by (simp add: locked_options_def)
    then obtain present new where "ev = [Replaced present new]" using write_bytes_unchecked [OF w skip] by blast
    with txt1 ev None show ?thesis by (auto simp: compared_round_def)
  next
    case (Some g)
    then have "snapshot = Some \<lparr>fs_len = Some (length (fo_bytes g)), fs_modified = fo_modified g,
        fs_hash = Some (we_hash env bytes)\<rparr>"
      using 2(3) assms(2) by (auto simp: snapshot_from_content_def split: if_splits)
    then obtain cas where "wo_cas (locked_options params snapshot) = Some cas" "expected_hash cas = Some (we_hash env bytes)"
      by (auto simp: locked_options_def cas_from_snapshot_def)
    from write_bytes_checked [OF w skip this] obtain f present new where
      "ev = [Checked (Some f), Replaced present new]" "we_hash env (fo_bytes f) = we_hash env bytes" by blast
    with txt1 ev Some bytes show ?thesis by (auto simp: compared_round_def hash_collision_def)
  qed
qed simp

text \<open>C32: With comparison asked for, a write that reports success did not ignore an update made before its
  comparison. Whatever other processes do, and after however many repetitions, the last events of the write are:
  it read a file, with the text that the new text was computed from; a file was there when the snapshot was
  taken; it compared a file that has the bytes it had read, up to a collision of the hash; it replaced the
  target. The one exception is a target that was not there at the snapshot: that is replaced without a
  comparison. Between the comparison and the replacement another process can still write.\<close>

theorem cas_write_sees_latest:
  assumes "lr_result (locked_write env params op compute t) = Inr (resp, content)" and "wp_cas params"
    and "replacements (lr_events (locked_write env params op compute t)) \<noteq> []"
  shows "\<exists>before seen present new. replacements before = [] \<and> target_text seen = Some content \<and>
    (lr_events (locked_write env params op compute t) = before @ [FileRead seen, Called None, Replaced present new] \<or>
     (\<exists>g f. lr_events (locked_write env params op compute t) =
          before @ [FileRead seen, Called (Some g), Checked (Some f), Replaced present new] \<and>
        (fo_bytes f = target_bytes seen \<or> hash_collision env (fo_bytes f) (target_bytes seen))))"
proof -
  from locked_loop_last_round [OF assms(1) [unfolded locked_write_def]] obtain b t1 before events where
    r: "write_round env params op compute b t1 =
      (lr_target (locked_write env params op compute t), events, RoundDone (Inr (resp, content)))"
    and ev: "lr_events (locked_write env params op compute t) = before @ events" "replacements before = []"
    unfolding locked_write_def by blast
  have "compared_round env content events"
    using assms(3) ev by (intro write_round_compared [OF r assms(2)]) simp
  then show ?thesis unfolding compared_round_def ev(1) using ev(2) by blast
qed

section \<open>Writing alone\<close>

text \<open>No system call fails and nobody else writes: what processes that take the lock give one another.\<close>

definition undisturbed :: "write_env \<Rightarrow> bool" where
  "undisturbed env \<longleftrightarrow> we_has_parent env \<and> (\<forall>a s. \<not> we_fails env a s) \<and> (\<forall>a p t. we_others env a p t = t)"

lemma file_equals_loop_correct:
  assumes "[] \<notin> set chunks"
  shows "file_equals_loop chunks off expected \<longleftrightarrow> concat chunks = drop off expected \<and> off \<le> length expected"
  using assms
proof (induction chunks off expected rule: file_equals_loop.induct)
  case (2 chunk chunks off expected)
  show ?case
  proof (cases "off + length chunk \<le> length expected \<and> take (length chunk) (drop off expected) = chunk")
    case True
    then have d: "drop off expected = chunk @ drop (off + length chunk) expected"
      using append_take_drop_id [of "length chunk" "drop off expected"] by (simp add: add.commute)
    have "file_equals_loop (chunk # chunks) off expected = file_equals_loop chunks (off + length chunk) expected"
      using True "2.prems" by auto
    also have "\<dots> \<longleftrightarrow> concat chunks = drop (off + length chunk) expected"
      using "2.IH" True "2.prems" by auto
    finally show ?thesis using True by (simp add: d)
  next
    case False
    have "\<not> off \<le> length expected" if eq: "concat (chunk # chunks) = drop off expected"
    proof -
      have "take (length chunk) (drop off expected) = chunk" unfolding eq [symmetric] by simp
      moreover have "length chunk \<le> length expected - off" using arg_cong [OF eq, of length] by simp
      ultimately show ?thesis using False by linarith
    qed
    moreover have "\<not> file_equals_loop (chunk # chunks) off expected" using False "2.prems" by auto
    ultimately show ?thesis by blast
  qed
qed auto

lemma verify_cas_same:
  assumes "undisturbed env" and "snapshot_from_content env a t (case t of Some f \<Rightarrow> fo_bytes f | None \<Rightarrow> []) h = Some (Some sn)"
  shows "verify_cas env a t t (cas_from_snapshot sn) = Inr ()"
  using assms
  by (auto simp: undisturbed_def snapshot_from_content_def verify_cas_def cas_from_snapshot_def hash_file_def
      split: option.splits if_splits)

definition written_file :: "write_env \<Rightarrow> target \<Rightarrow> rstr \<Rightarrow> file_obj" where
  "written_file env t updated = \<lparr>fo_bytes = str_bytes updated, fo_modified = Some (we_clock env 0),
     fo_mode = (case t of None \<Rightarrow> we_new_mode env | Some f \<Rightarrow> fo_mode f)\<rparr>"

text \<open>A round on its own: what is computed from the present text is what happens.\<close>

lemma write_round_undisturbed:
  assumes "undisturbed env" and "target_text t = Some content"
  obtains snapshot h where "write_round env params op compute 0 t =
      called_round t t (apply_attempt env params op 0 t snapshot content (compute t content))"
    "snapshot = None \<or> snapshot_from_content env 0 t (case t of Some f \<Rightarrow> fo_bytes f | None \<Rightarrow> []) h = Some snapshot"
proof (cases "wp_cas params \<or> wp_max_retries params > 0")
  case True
  let ?bytes = "case t of Some f \<Rightarrow> fo_bytes f | None \<Rightarrow> []"
  obtain snapshot where sn: "snapshot_from_content env 0 t ?bytes (wp_cas params) = Some snapshot"
    using assms(1) by (cases t) (auto simp: snapshot_from_content_def undisturbed_def)
  have "write_round env params op compute 0 t =
      called_round t t (apply_attempt env params op 0 t snapshot content (compute t content))"
    using True assms sn
    by (cases t) (auto simp: write_round_def read_target_def undisturbed_def target_text_def Let_def)
  with sn show thesis by (intro that) auto
next
  case False
  then have "write_round env params op compute 0 t =
      called_round t t (apply_attempt env params op 0 t None content (compute t content))"
    using assms by (cases t) (auto simp: write_round_def read_target_def undisturbed_def target_text_def Let_def)
  then show thesis by (intro that) auto
qed

lemma locked_write_round:
  assumes "write_round env params op compute 0 t = (t', events, RoundDone x)"
  shows "locked_write env params op compute t = \<lparr>lr_target = t', lr_events = events, lr_sleeps = [], lr_result = x\<rparr>"
  using assms unfolding locked_write_def by (cases "wp_max_retries params") auto

lemma locked_write_undisturbed:
  assumes "undisturbed env" and "target_text t = Some content"
    and "compute t content = Some (Success updated count)" and "updated \<noteq> content" and "\<not> wp_dry_run params"
  shows "\<exists>events. last_called events = Some t \<and> locked_write env params op compute t =
    \<lparr>lr_target = Some (written_file env t updated), lr_events = events, lr_sleeps = [],
     lr_result = Inr (response_success op count, content)\<rparr>"
proof -
  note u = assms(1) [unfolded undisturbed_def]
  obtain snapshot h where r: "write_round env params op compute 0 t =
      called_round t t (apply_attempt env params op 0 t snapshot content (compute t content))"
    and sn: "snapshot = None \<or>
      snapshot_from_content env 0 t (case t of Some f \<Rightarrow> fo_bytes f | None \<Rightarrow> []) h = Some snapshot"
    by (rule write_round_undisturbed [OF assms(1,2)])
  have "\<exists>events stats. write_bytes env (locked_options params snapshot) 0 t (str_bytes updated) =
      (Some (written_file env t updated), events, Inr stats)"
  proof (cases snapshot)
    case None
    with u show ?thesis
      by (cases t) (auto simp: write_bytes_def write_unless_same_def prepare_temp_def replace_target_def
          locked_options_def default_write_options_def fast_write_options_def written_file_def Let_def)
  next
    case (Some s)
    with sn have "verify_cas env 0 t t (cas_from_snapshot s) = Inr ()" using verify_cas_same [OF assms(1)] by auto
    with u Some show ?thesis
      by (cases t) (auto simp: write_bytes_def write_unless_same_def prepare_temp_def replace_target_def
          locked_options_def default_write_options_def fast_write_options_def written_file_def Let_def)
  qed
  then obtain events stats where w: "write_bytes env (locked_options params snapshot) 0 t (str_bytes updated) =
      (Some (written_file env t updated), events, Inr stats)" by blast
  then have "write_round env params op compute 0 t =
      (Some (written_file env t updated), FileRead t # Called t # events, RoundDone (Inr (response_success op count, content)))"
    using r assms(3-5) by (simp add: apply_attempt_def called_round_def finish_write_def)
  moreover have "last_called (FileRead t # Called t # events) = Some t" using write_bytes_silent [OF w] by simp
  ultimately show ?thesis using locked_write_round by blast
qed

lemma locked_write_same:
  assumes "undisturbed env" and "target_text t = Some content"
    and "compute t content = Some Unchanged \<or> (\<exists>count. compute t content = Some (Success content count))"
  shows "locked_write env params op compute t =
    \<lparr>lr_target = t, lr_events = [FileRead t, Called t], lr_sleeps = [], lr_result = Inr (response_noop op, content)\<rparr>"
proof -
  obtain snapshot h where "write_round env params op compute 0 t =
      called_round t t (apply_attempt env params op 0 t snapshot content (compute t content))"
    by (rule write_round_undisturbed [OF assms(1,2)])
  then have "write_round env params op compute 0 t = (t, [FileRead t, Called t], RoundDone (Inr (response_noop op, content)))"
    using assms(3) by (auto simp: apply_attempt_def called_round_def)
  then show ?thesis by (rule locked_write_round)
qed

text \<open>Writers that take the lock serialize: when nobody else writes and no system call fails, a locked write
  replaces the file by exactly the text computed from its present content, keeps its permissions, reports
  the count and needs no repetition, with or without comparison.\<close>

lemma locked_write_alone:
  assumes "undisturbed env" and "decode_utf8 (fo_bytes f) = Some content"
    and "compute (Some f) content = Some (Success updated count)" and "updated \<noteq> content" and "\<not> wp_dry_run params"
  shows "\<exists>events. locked_write env params op compute (Some f) =
    \<lparr>lr_target = Some \<lparr>fo_bytes = str_bytes updated, fo_modified = Some (we_clock env 0), fo_mode = fo_mode f\<rparr>,
     lr_events = events, lr_sleeps = [], lr_result = Inr (response_success op count, content)\<rparr>"
proof -
  have "target_text (Some f) = Some content" using assms(2) by (simp add: target_text_def)
  from locked_write_undisturbed [where compute = compute and op = op, OF assms(1) this assms(3-5)] show ?thesis by (auto simp: written_file_def)
qed

section \<open>Samples and races\<close>

definition quiet_env :: write_env where
  "quiet_env = \<lparr>we_others = \<lambda>a p t. t, we_fails = \<lambda>a s. False, we_has_parent = True, we_clock = \<lambda>a. 9,
     we_new_mode = 420, we_temp_mode = 384, we_hash = \<lambda>bs. of_nat (length bs), we_chunks = \<lambda>bs. [bs]\<rparr>"

definition sample_params :: write_params where
  "sample_params = \<lparr>wp_dry_run = False, wp_fast = False, wp_verbose = 0, wp_output = Concise, wp_cas = True,
     wp_max_retries = 2\<rparr>"

definition sample_file :: file_obj where
  "sample_file = \<lparr>fo_bytes = [97], fo_modified = Some 5, fo_mode = 420\<rparr>"

definition append_b :: compute_fn where
  "append_b present content = Some (Success (content @ lit ''b'') 1)"

lemma quiet_env_undisturbed: "undisturbed quiet_env"
  by (simp add: undisturbed_def quiet_env_def)

lemma sample_file_decodes: "decode_utf8 (fo_bytes sample_file) = Some (lit ''a'')"
  by code_simp

lemma locked_write_alone_witness:
  "\<exists>events. locked_write quiet_env sample_params (lit ''patch'') append_b (Some sample_file) =
    \<lparr>lr_target = Some \<lparr>fo_bytes = str_bytes (lit ''ab''), fo_modified = Some 9, fo_mode = 420\<rparr>,
     lr_events = events, lr_sleeps = [], lr_result = Inr (response_success (lit ''patch'') 1, lit ''a'')\<rparr>"
  using locked_write_alone [OF quiet_env_undisturbed sample_file_decodes, where compute = append_b and updated = "lit ''ab''" and count = 1
      and params = sample_params and op = "lit ''patch''"]
  by (simp add: append_b_def sample_params_def quiet_env_def sample_file_def lit_def)

text \<open>Another process changes the file after the snapshot of the first round; the second round has seen the change.\<close>

definition interfered_env :: write_env where
  "interfered_env = quiet_env\<lparr>we_others := \<lambda>a p t. if a = 0 \<and> p = BeforeStat
     then Some \<lparr>fo_bytes = [97, 98], fo_modified = Some 6, fo_mode = 420\<rparr> else t\<rparr>"

theorem cas_write_sees_latest_witness:
  "\<exists>before seen present new. replacements before = [] \<and> target_text seen = Some (lit ''ab'') \<and>
    (lr_events (locked_write interfered_env sample_params (lit ''patch'') append_b (Some sample_file)) =
       before @ [FileRead seen, Called None, Replaced present new] \<or>
     (\<exists>g f. lr_events (locked_write interfered_env sample_params (lit ''patch'') append_b (Some sample_file)) =
          before @ [FileRead seen, Called (Some g), Checked (Some f), Replaced present new] \<and>
        (fo_bytes f = target_bytes seen \<or> hash_collision interfered_env (fo_bytes f) (target_bytes seen))))"
proof (rule cas_write_sees_latest)
  show "lr_result (locked_write interfered_env sample_params (lit ''patch'') append_b (Some sample_file)) =
      Inr ((response_success (lit ''patch'') 1)\<lparr>wr_retries := Some 1, wr_conflict_resolved := Some True\<rparr>, lit ''ab'')" by code_simp
  show "replacements (lr_events (locked_write interfered_env sample_params (lit ''patch'') append_b (Some sample_file))) \<noteq> []"
    by code_simp
qed (simp add: sample_params_def)

text \<open>Another process creates the file after it was looked for.\<close>

definition raced_env :: write_env where
  "raced_env = quiet_env\<lparr>we_others := \<lambda>a p t. if p = BeforeStat \<and> t = None then Some sample_file else t\<rparr>"

definition no_refs :: arg_env where
  "no_refs = \<lparr>ae_read_file = \<lambda>p. None, ae_stdin = None, ae_debug = id\<rparr>"

text \<open>Creating a file can overwrite one that another process created in the meantime: without \<open>--force\<close>, a
  file with other content that appears between the read and the write is replaced and success is reported;
  and a locked write with comparison asked for does the same when there was no file to compare with.\<close>

lemma create_overwrites_raced_file:
  "(\<exists>new. run_create no_refs raced_env (lit ''f'') (lit ''mine'') False sample_params None =
      (Some new, [Replaced (Some sample_file) new], Inr (response_success (lit ''create'') 1)) \<and>
      fo_bytes new = str_bytes (lit ''mine'')) \<and>
   (\<exists>new. lr_events (locked_write raced_env sample_params (lit ''batch'') append_b None) =
      [FileRead None, Called None, Replaced (Some sample_file) new] \<and>
      lr_result (locked_write raced_env sample_params (lit ''batch'') append_b None) =
        Inr (response_success (lit ''batch'') 1, []))"
proof -
  let ?new = "\<lambda>s. \<lparr>fo_bytes = str_bytes s, fo_modified = Some 9, fo_mode = 420\<rparr>"
  have "run_create no_refs raced_env (lit ''f'') (lit ''mine'') False sample_params None =
      (Some (?new (lit ''mine'')), [Replaced (Some sample_file) (?new (lit ''mine''))],
       Inr (response_success (lit ''create'') 1))" by code_simp
  moreover have "lr_events (locked_write raced_env sample_params (lit ''batch'') append_b None) =
      [FileRead None, Called None, Replaced (Some sample_file) (?new (lit ''b''))]" by code_simp
  moreover have "lr_result (locked_write raced_env sample_params (lit ''batch'') append_b None) =
      Inr (response_success (lit ''batch'') 1, [])" by code_simp
  ultimately show ?thesis by auto
qed

end
