(* ===== verification/Config_Set.thy ===== *)
theory Config_Set
  imports Atomic_Write Decimal
begin

text \<open>
  Setting a value in a configuration file (\<open>run_set\<close> and its helpers in
  \<open>fork-core/rtk/src/write_cmd.rs\<close>). A JSON object keeps its entries in the order they were inserted. The
  parser and the printers of JSON, floating-point numbers, and the parsers, the printer and the tables of the
  TOML libraries are arguments.
\<close>

section \<open>Values\<close>

datatype 'f json = JNull | JBool bool | JInt int | JFloat 'f | JString rstr | JArray "'f json list"
  | JObject "(rstr \<times> 'f json) list"

datatype config_format = FormatAuto | FormatJson | FormatToml

datatype config_value_type = TypeAuto | TypeString | TypeNumber | TypeBool | TypeNull | TypeJson

text \<open>A parsed TOML value, and one that the editing library stores; a date is its text.\<close>

datatype 'f toml_value = TomlString rstr | TomlInteger int | TomlFloat 'f | TomlBoolean bool | TomlDatetime rstr
  | TomlArray "'f toml_value list" | TomlTable "(rstr \<times> 'f toml_value) list"

datatype 'f toml_edit_value = EditString rstr | EditInteger int | EditFloat 'f | EditBoolean bool | EditDatetime rstr
  | EditArray "'f toml_edit_value list"

text \<open>Tables and items of a TOML document keep the layout of the file and are opaque: looking an item up,
  inserting one, assigning to one by index, and putting a table back that was changed in place.\<close>

record ('f, 't, 'i) config_env =
  cf_parse_json :: "rstr \<Rightarrow> rstr + 'f json"
  cf_parse_f64 :: "rstr \<Rightarrow> 'f option"
  cf_from_f64 :: "'f \<Rightarrow> 'f json"
  cf_compact :: "'f json \<Rightarrow> rstr"
  cf_pretty :: "rstr \<Rightarrow> 'f json \<Rightarrow> rstr"
  cf_parse_toml :: "rstr \<Rightarrow> rstr + 't"
  cf_toml_text :: "'t \<Rightarrow> rstr"
  cf_parse_toml_value :: "rstr \<Rightarrow> 'f toml_value option"
  cf_new_table :: 't
  cf_item :: "'t \<Rightarrow> rstr \<Rightarrow> 'i option"
  cf_insert_item :: "'t \<Rightarrow> rstr \<Rightarrow> 'i \<Rightarrow> 't"
  cf_assign_item :: "'t \<Rightarrow> rstr \<Rightarrow> 'i \<Rightarrow> 't"
  cf_update_item :: "'t \<Rightarrow> rstr \<Rightarrow> 'i \<Rightarrow> 't"
  cf_as_table :: "'i \<Rightarrow> 't option"
  cf_table_item :: "'t \<Rightarrow> 'i"
  cf_value_item :: "'f toml_edit_value \<Rightarrow> 'i"

text \<open>\<open>Path::extension\<close>: what follows the last dot of the file name, unless nothing is before it.\<close>

definition path_extension :: "rstr \<Rightarrow> rstr option" where
  "path_extension path =
     (case file_name path of
        None \<Rightarrow> None
      | Some name \<Rightarrow>
          let ext = List.rev (takeWhile (\<lambda>c. c \<noteq> c_dot) (List.rev name))
          in if c_dot \<notin> set name \<or> length ext + 1 = length name then None else Some ext)"

definition resolve_format :: "rstr \<Rightarrow> config_format \<Rightarrow> rstr + config_format" where
  "resolve_format path format =
     (if format \<noteq> FormatAuto then Inr format
      else if path_extension path = Some (lit ''json'') then Inr FormatJson
      else if path_extension path = Some (lit ''toml'') then Inr FormatToml
      else Inl (lit ''Cannot infer config format for '' @ path @ lit ''. Use --format json|toml''))"

text \<open>\<open>str::parse::<i64>\<close>.\<close>

definition parse_i64 :: "rstr \<Rightarrow> int option" where
  "parse_i64 s =
     (let (negative, digits) = (case s of
            c # cs \<Rightarrow> if c = c_minus then (True, cs) else if c = c_plus then (False, cs) else (False, s)
          | [] \<Rightarrow> (False, []));
          n = int (digits_value digits)
      in if digits = [] \<or> \<not> list_all is_ascii_digit digits then None
         else if negative then (if n \<le> 2 ^ 63 then Some (- n) else None)
         else if n < 2 ^ 63 then Some n else None)"

definition parse_json_value :: "('f, 't, 'i) config_env \<Rightarrow> rstr \<Rightarrow> config_value_type \<Rightarrow> rstr + 'f json" where
  "parse_json_value env raw value_type =
     (case value_type of
        TypeAuto \<Rightarrow> Inr (case cf_parse_json env raw of Inr v \<Rightarrow> v | Inl _ \<Rightarrow> JString raw)
      | TypeJson \<Rightarrow> Inr (case cf_parse_json env raw of Inr v \<Rightarrow> v | Inl _ \<Rightarrow> JString raw)
      | TypeString \<Rightarrow> Inr (JString raw)
      | TypeNumber \<Rightarrow>
          (case parse_i64 raw of
             Some i \<Rightarrow> Inr (JInt i)
           | None \<Rightarrow>
               (case parse_usize raw of
                  Some u \<Rightarrow> Inr (JInt (int u))
                | None \<Rightarrow>
                    (case cf_parse_f64 env raw of
                       Some n \<Rightarrow> Inr (cf_from_f64 env n)
                     | None \<Rightarrow> Inl (lit ''Invalid number value: '' @ raw))))
      | TypeBool \<Rightarrow>
          if raw = lit ''true'' then Inr (JBool True)
          else if raw = lit ''false'' then Inr (JBool False)
          else Inl (lit ''Invalid bool value: '' @ raw)
      | TypeNull \<Rightarrow> Inr JNull)"

section \<open>Paths in objects\<close>

text \<open>Insertion keeps the place of a key that is there and appends a new one.\<close>

fun put_key :: "'k \<Rightarrow> 'v \<Rightarrow> ('k \<times> 'v) list \<Rightarrow> ('k \<times> 'v) list" where
  "put_key k v [] = [(k, v)]"
| "put_key k v ((k', v') # m) = (if k' = k then (k, v) # m else (k', v') # put_key k v m)"

definition segment_error :: "rstr \<Rightarrow> rstr \<Rightarrow> rstr" where
  "segment_error key part = lit ''Cannot set key '' @ [c_squote] @ key @ [c_squote] @ lit '': path segment '' @
     [c_squote] @ part @ [c_squote] @ lit '' is not an object''"

text \<open>The walk along the parts, which creates the objects that are missing.\<close>

fun set_in :: "rstr \<Rightarrow> rstr list \<Rightarrow> 'f json \<Rightarrow> (rstr \<times> 'f json) list \<Rightarrow> rstr + (rstr \<times> 'f json) list" where
  "set_in key [] v m = Inr m"
| "set_in key [k] v m = Inr (put_key k v m)"
| "set_in key (p # q # ps) v m =
     (case (case map_of m p of Some e \<Rightarrow> e | None \<Rightarrow> JObject []) of
        JObject m' \<Rightarrow> map_sum id (\<lambda>m''. put_key p (JObject m'') m) (set_in key (q # ps) v m')
      | _ \<Rightarrow> Inl (segment_error key p))"

definition key_parts :: "rstr \<Rightarrow> rstr list" where
  "key_parts key = filter (\<lambda>p. p \<noteq> []) (split_on (\<lambda>c. c = c_dot) key)"

definition set_json_path :: "'f json \<Rightarrow> rstr \<Rightarrow> 'f json \<Rightarrow> rstr + 'f json" where
  "set_json_path root key v =
     (let parts = key_parts key
      in if parts = [] then Inl (lit ''--key must be non-empty'')
         else case root of
           JObject m \<Rightarrow> map_sum id JObject (set_in key parts v m)
         | _ \<Rightarrow> Inl (lit ''Cannot set nested key '' @ [c_squote] @ key @ [c_squote] @ lit '': top-level JSON value is not an object''))"

section \<open>TOML\<close>

fun toml_to_toml_edit_value :: "'f toml_value \<Rightarrow> rstr + 'f toml_edit_value"
  and toml_array :: "'f toml_value list \<Rightarrow> rstr + 'f toml_edit_value list" where
  "toml_to_toml_edit_value (TomlString s) = Inr (EditString s)"
| "toml_to_toml_edit_value (TomlInteger i) = Inr (EditInteger i)"
| "toml_to_toml_edit_value (TomlFloat f) = Inr (EditFloat f)"
| "toml_to_toml_edit_value (TomlBoolean b) = Inr (EditBoolean b)"
| "toml_to_toml_edit_value (TomlDatetime d) = Inr (EditDatetime d)"
| "toml_to_toml_edit_value (TomlArray arr) = map_sum id EditArray (toml_array arr)"
| "toml_to_toml_edit_value (TomlTable _) = Inl (lit ''Setting table values is not supported for --value'')"
| "toml_array [] = Inr []"
| "toml_array (v # arr) =
     (case toml_to_toml_edit_value v of
        Inl e \<Rightarrow> Inl e
      | Inr out \<Rightarrow> map_sum id ((#) out) (toml_array arr))"

definition parse_toml_value :: "('f, 't, 'i) config_env \<Rightarrow> rstr \<Rightarrow> config_value_type \<Rightarrow> rstr + 'f toml_edit_value" where
  "parse_toml_value env raw value_type =
     (case (case value_type of
              TypeAuto \<Rightarrow> Inr (case cf_parse_toml_value env raw of Some v \<Rightarrow> v | None \<Rightarrow> TomlString raw)
            | TypeJson \<Rightarrow> Inr (case cf_parse_toml_value env raw of Some v \<Rightarrow> v | None \<Rightarrow> TomlString raw)
            | TypeString \<Rightarrow> Inr (TomlString raw)
            | TypeNumber \<Rightarrow>
                (case parse_i64 raw of
                   Some i \<Rightarrow> Inr (TomlInteger i)
                 | None \<Rightarrow>
                     (case cf_parse_f64 env raw of
                        Some f \<Rightarrow> Inr (TomlFloat f)
                      | None \<Rightarrow> Inl (lit ''Invalid number value: '' @ raw)))
            | TypeBool \<Rightarrow>
                if raw = lit ''true'' then Inr (TomlBoolean True)
                else if raw = lit ''false'' then Inr (TomlBoolean False)
                else Inl (lit ''Invalid bool value: '' @ raw)
            | TypeNull \<Rightarrow> Inl (lit ''TOML does not support null values'')) of
        Inl e \<Rightarrow> Inl e
      | Inr v \<Rightarrow> toml_to_toml_edit_value v)"

text \<open>The walk along the parts; a table that is missing is inserted and is then the entry.\<close>

fun toml_set_in :: "('f, 't, 'i) config_env \<Rightarrow> rstr \<Rightarrow> rstr list \<Rightarrow> 'i \<Rightarrow> 't \<Rightarrow> rstr + 't" where
  "toml_set_in env key [] v t = Inr t"
| "toml_set_in env key [k] v t = Inr (cf_assign_item env t k v)"
| "toml_set_in env key (p # q # ps) v t =
     (let fresh = cf_table_item env (cf_new_table env);
          (current, entry) = (case cf_item env t p of
            Some e \<Rightarrow> (t, e)
          | None \<Rightarrow> (cf_insert_item env t p fresh, fresh))
      in case cf_as_table env entry of
           None \<Rightarrow> Inl (lit ''Cannot set key '' @ [c_squote] @ key @ [c_squote] @ lit '': path segment '' @
             [c_squote] @ p @ [c_squote] @ lit '' is not a table'')
         | Some child \<Rightarrow>
             map_sum id (\<lambda>child'. cf_update_item env current p (cf_table_item env child'))
               (toml_set_in env key (q # ps) v child))"

definition set_toml_path :: "('f, 't, 'i) config_env \<Rightarrow> 't \<Rightarrow> rstr \<Rightarrow> 'f toml_edit_value \<Rightarrow> rstr + 't" where
  "set_toml_path env root key v =
     (if key_parts key = [] then Inl (lit ''--key must be non-empty'')
      else toml_set_in env key (key_parts key) (cf_value_item env v) root)"

text \<open>A value can be stored exactly when it is no table and holds none.\<close>

fun table_free :: "'f toml_value \<Rightarrow> bool" where
  "table_free (TomlArray arr) = list_all table_free arr"
| "table_free (TomlTable m) = False"
| "table_free _ = True"

lemma toml_edit_value_iff:
  fixes v :: "'f toml_value" and arr :: "'f toml_value list"
  shows "(\<exists>out. toml_to_toml_edit_value v = Inr out) \<longleftrightarrow> table_free v"
    and "(\<exists>out. toml_array arr = Inr out) \<longleftrightarrow> list_all table_free arr"
  by (induction v and arr rule: toml_to_toml_edit_value_toml_array.induct)
    (auto simp: map_sum_Inr split: sum.splits)

section \<open>Style\<close>

definition is_indent_char :: "rchar \<Rightarrow> bool" where
  "is_indent_char c = (c = c_space \<or> c = c_tab)"

definition line_indent :: "rstr \<Rightarrow> rstr option" where
  "line_indent line =
     (let indent = takeWhile is_indent_char line
      in if trim line = [] \<or> indent = [] then None
         else if list_all (\<lambda>c. c = c_space) indent \<or> list_all (\<lambda>c. c = c_tab) indent then Some indent
         else None)"

fun first_some :: "('a \<Rightarrow> 'b option) \<Rightarrow> 'a list \<Rightarrow> 'b option" where
  "first_some f [] = None"
| "first_some f (x # xs) = (case f x of Some y \<Rightarrow> Some y | None \<Rightarrow> first_some f xs)"

definition detect_json_indent :: "rstr \<Rightarrow> rstr option" where
  "detect_json_indent original = first_some line_indent (tl (str_lines original))"

definition serialize_json_preserving_style :: "('f, 't, 'i) config_env \<Rightarrow> 'f json \<Rightarrow> rstr \<Rightarrow> rstr" where
  "serialize_json_preserving_style env root original =
     (let serialized =
            (if c_newline \<notin> set original then cf_compact env root
             else cf_pretty env (case detect_json_indent original of Some i \<Rightarrow> i | None \<Rightarrow> lit ''  '') root);
          extended =
            (if ends_with original [c_newline] \<and> \<not> ends_with serialized [c_newline]
             then serialized @ [c_newline] else serialized)
      in if \<not> ends_with original [c_newline] then trim_end_matches (\<lambda>c. c = c_newline) extended else extended)"

section \<open>The command\<close>

text \<open>What the closure of \<open>run_set\<close> computes: an error with its code, or the new text.\<close>

definition set_text ::
  "('f, 't, 'i) config_env \<Rightarrow> config_format \<Rightarrow> rstr \<Rightarrow> rstr \<Rightarrow> config_value_type \<Rightarrow> rstr \<Rightarrow> (rstr \<times> rstr) + rstr" where
  "set_text env format key v value_type content =
     (if format = FormatToml
      then (case cf_parse_toml env content of
              Inl e \<Rightarrow> Inl (lit ''INVALID_TOML'', lit ''Invalid TOML: '' @ e)
            | Inr root \<Rightarrow>
                (case parse_toml_value env v value_type of
                   Inl e \<Rightarrow> Inl (lit ''INVALID_VALUE'', lit ''Invalid value: '' @ e)
                 | Inr parsed \<Rightarrow>
                     (case set_toml_path env root key parsed of
                        Inl e \<Rightarrow> Inl (lit ''INVALID_KEY_PATH'', e)
                      | Inr root' \<Rightarrow> Inr (cf_toml_text env root'))))
      else case cf_parse_json env content of
        Inl e \<Rightarrow> Inl (lit ''INVALID_JSON'', lit ''Invalid JSON: '' @ e)
      | Inr root \<Rightarrow>
          (case parse_json_value env v value_type of
             Inl e \<Rightarrow> Inl (lit ''INVALID_VALUE'', lit ''Invalid value: '' @ e)
           | Inr parsed \<Rightarrow>
               (case set_json_path root key parsed of
                  Inl e \<Rightarrow> Inl (lit ''INVALID_KEY_PATH'', e)
                | Inr root' \<Rightarrow> Inr (serialize_json_preserving_style env root' content))))"

definition set_attempt ::
  "('f, 't, 'i) config_env \<Rightarrow> config_format \<Rightarrow> rstr \<Rightarrow> rstr \<Rightarrow> config_value_type \<Rightarrow> rstr \<Rightarrow> write_attempt option" where
  "set_attempt env format key v value_type content =
     Some (case set_text env format key v value_type content of
         Inl (code, hint) \<Rightarrow> TerminalError code hint
       | Inr result \<Rightarrow> if result = content then Unchanged else Success result 1)"

definition run_set ::
  "('f, 't, 'i) config_env \<Rightarrow> write_env \<Rightarrow> rstr \<Rightarrow> rstr \<Rightarrow> rstr \<Rightarrow> config_value_type \<Rightarrow> config_format \<Rightarrow> write_params \<Rightarrow>
   target \<Rightarrow> rstr + locked_run" where
  "run_set cenv env path key v value_type format params t =
     map_sum id (\<lambda>fmt. locked_write env params (lit ''set'') (\<lambda>_. set_attempt cenv fmt key v value_type) t)
       (resolve_format path format)"

section \<open>What setting a key changes\<close>

text \<open>The value at a path of keys.\<close>

fun json_get :: "rstr list \<Rightarrow> 'f json \<Rightarrow> 'f json option" where
  "json_get [] v = Some v"
| "json_get (p # ps) (JObject m) = (case map_of m p of Some e \<Rightarrow> json_get ps e | None \<Rightarrow> None)"
| "json_get (p # ps) _ = None"

lemma map_of_put_key [simp]: "map_of (put_key k v m) = (map_of m)(k \<mapsto> v)"
  by (induction m) (auto simp: fun_eq_iff)

text \<open>Paths that are neither above nor below one another.\<close>

definition apart :: "rstr list \<Rightarrow> rstr list \<Rightarrow> bool" where
  "apart xs ys \<longleftrightarrow> take (length xs) ys \<noteq> xs \<and> take (length ys) xs \<noteq> ys"

lemma apart_Cons [simp]: "apart (x # xs) (y # ys) \<longleftrightarrow> x \<noteq> y \<or> apart xs ys"
  by (auto simp: apart_def)

lemma apart_Nil [simp]: "\<not> apart [] ys" "\<not> apart xs []"
  by (simp_all add: apart_def)

lemma set_in_get:
  "set_in key parts v m = Inr m' \<Longrightarrow> parts \<noteq> [] \<Longrightarrow>
   json_get parts (JObject m') = Some v \<and> (\<forall>q. apart parts q \<longrightarrow> json_get q (JObject m') = json_get q (JObject m))"
proof (induction key parts v m arbitrary: m' rule: set_in.induct)
  case (2 key k v m)
  have "json_get q (JObject m') = json_get q (JObject m)" if "apart [k] q" for q
    using that "2.prems" by (cases q) (auto)
  with "2.prems" show ?case by auto
next
  case (3 key p q ps v m)
  define e where "e = (case map_of m p of Some e \<Rightarrow> e | None \<Rightarrow> JObject [])"
  from "3.prems"(1) obtain mm m2 where e: "e = JObject mm" and s: "set_in key (q # ps) v mm = Inr m2"
    and m': "m' = put_key p (JObject m2) m"
    by (auto simp: e_def [symmetric] map_sum_Inr split: json.splits)
  note ih = "3.IH" [OF e [unfolded e_def] s]
  have "json_get r (JObject m') = json_get r (JObject m)" if r: "apart (p # q # ps) r" for r
  proof (cases r)
    case (Cons x xs)
    show ?thesis
    proof (cases "x = p")
      case True
      with r Cons have ap: "apart (q # ps) xs" by simp
      then have "json_get xs (JObject m2) = json_get xs e" using ih e by simp
      moreover have "json_get xs (JObject []) = None" using ap by (cases xs) auto
      ultimately show ?thesis using Cons True m' by (auto simp: e_def split: option.splits)
    qed (use Cons m' in auto)
  qed (use r in simp)
  moreover have "json_get (p # q # ps) (JObject m') = Some v" using ih m' by simp
  ultimately show ?case by blast
qed simp

text \<open>A path that leads through something else than an object.\<close>

definition path_blocked :: "rstr list \<Rightarrow> 'f json \<Rightarrow> bool" where
  "path_blocked parts v \<longleftrightarrow>
     (\<exists>k w. 0 < k \<and> k < length parts \<and> json_get (take k parts) v = Some w \<and> (\<nexists>m. w = JObject m))"

lemma path_blocked_single [simp]: "\<not> path_blocked [p] v"
  by (auto simp: path_blocked_def)

lemma path_blocked_empty [simp]: "\<not> path_blocked parts (JObject [])"
proof -
  have "json_get (take k parts) (JObject []) \<noteq> Some w" if k: "0 < k" "k < length parts" for k w
  proof -
    from k obtain p ps j where "parts = p # ps" "k = Suc j" by (cases parts; cases k) auto
    then show ?thesis by simp
  qed
  then show ?thesis unfolding path_blocked_def by blast
qed

lemma path_blocked_step:
  "path_blocked (p # q # ps) (JObject m) \<longleftrightarrow>
   (\<exists>w. map_of m p = Some w \<and> ((\<nexists>m'. w = JObject m') \<or> path_blocked (q # ps) w))"
proof
  assume "path_blocked (p # q # ps) (JObject m)"
  then obtain k w where k: "0 < k" "k < length (p # q # ps)" "json_get (take k (p # q # ps)) (JObject m) = Some w"
    "\<nexists>m. w = JObject m" unfolding path_blocked_def by blast
  from k(1) obtain j where j: "k = Suc j" by (cases k) auto
  with k(3) obtain u where u: "map_of m p = Some u" "json_get (take j (q # ps)) u = Some w"
    by (auto split: option.splits)
  show "\<exists>w. map_of m p = Some w \<and> ((\<nexists>m'. w = JObject m') \<or> path_blocked (q # ps) w)"
  proof (cases "j = 0")
    case True
    with u k(4) show ?thesis by simp
  next
    case False
    with j k(2,4) u have "path_blocked (q # ps) u"
      unfolding path_blocked_def by (intro exI [of _ j] exI [of _ w]) simp
    with u show ?thesis by blast
  qed
next
  assume "\<exists>w. map_of m p = Some w \<and> ((\<nexists>m'. w = JObject m') \<or> path_blocked (q # ps) w)"
  then obtain u where u: "map_of m p = Some u" "(\<nexists>m'. u = JObject m') \<or> path_blocked (q # ps) u" by blast
  from u(2) show "path_blocked (p # q # ps) (JObject m)"
  proof
    assume "\<nexists>m'. u = JObject m'"
    with u(1) show ?thesis unfolding path_blocked_def by (intro exI [of _ 1] exI [of _ u]) simp
  next
    assume "path_blocked (q # ps) u"
    then obtain k w where "0 < k" "k < length (q # ps)" "json_get (take k (q # ps)) u = Some w"
      "\<nexists>m. w = JObject m" unfolding path_blocked_def by blast
    with u(1) show ?thesis unfolding path_blocked_def by (intro exI [of _ "Suc k"] exI [of _ w]) simp
  qed
qed

lemma set_in_fails:
  "parts \<noteq> [] \<Longrightarrow> (\<exists>e. set_in key parts v m = Inl e) \<longleftrightarrow> path_blocked parts (JObject m)"
proof (induction key parts v m rule: set_in.induct)
  case (3 key p q ps v m)
  define e where "e = (case map_of m p of Some e \<Rightarrow> e | None \<Rightarrow> JObject [])"
  show ?case
  proof (cases "\<exists>mm. e = JObject mm")
    case True
    then obtain mm where e: "e = JObject mm" by blast
    then have "(\<exists>x. set_in key (p # q # ps) v m = Inl x) \<longleftrightarrow> path_blocked (q # ps) (JObject mm)"
      using "3.IH" [OF e [unfolded e_def]] by (simp add: e_def [symmetric] map_sum_Inl)
    also have "\<dots> \<longleftrightarrow> path_blocked (p # q # ps) (JObject m)"
      using e by (cases "map_of m p") (auto simp: e_def path_blocked_step)
    finally show ?thesis .
  next
    case False
    then obtain w where w: "map_of m p = Some w" "\<nexists>m'. w = JObject m'" by (auto simp: e_def split: option.splits)
    then have "\<exists>x. set_in key (p # q # ps) v m = Inl x" by (cases w) auto
    with w show ?thesis by (auto simp: path_blocked_step)
  qed
qed auto

text \<open>C34: Setting a dotted key in a JSON document stores the value at that path and changes nothing apart from it:
  every path that is neither above nor below it keeps its value. The call succeeds exactly when the key has a
  part, the document is an object, and no proper part of the path leads to something else than an object.\<close>

theorem set_json_path_correct:
  "case set_json_path root key v of
     Inl _ \<Rightarrow> key_parts key = [] \<or> (\<nexists>m. root = JObject m) \<or> path_blocked (key_parts key) root
   | Inr root' \<Rightarrow> key_parts key \<noteq> [] \<and> (\<exists>m. root = JObject m) \<and> \<not> path_blocked (key_parts key) root \<and>
       json_get (key_parts key) root' = Some v \<and> (\<exists>m. root' = JObject m) \<and>
       {q. apart (key_parts key) q} \<subseteq> {q. json_get q root' = json_get q root}"
proof (cases "key_parts key = [] \<or> (\<nexists>m. root = JObject m)")
  case True
  then have "\<exists>e. set_json_path root key v = Inl e" by (cases root) (auto simp: set_json_path_def Let_def)
  with True show ?thesis by auto
next
  case False
  then obtain m where m: "root = JObject m" and ne: "key_parts key \<noteq> []" by blast
  then have s: "set_json_path root key v = map_sum id JObject (set_in key (key_parts key) v m)"
    by (simp add: set_json_path_def)
  show ?thesis
  proof (cases "set_in key (key_parts key) v m")
    case (Inl e)
    with set_in_fails [OF ne, of key v m] s m show ?thesis by auto
  next
    case (Inr m')
    with set_in_get [OF Inr ne] set_in_fails [OF ne, of key v m] s m ne show ?thesis by auto
  qed
qed

theorem set_json_path_correct_witness:
  "\<exists>root'. set_json_path (JObject [(lit ''a'', JInt 1)] :: nat json) (lit ''b.c'') JNull = Inr root' \<and>
     json_get [lit ''b'', lit ''c''] root' = Some JNull \<and> json_get [lit ''a''] root' = Some (JInt 1)"
proof -
  let ?root = "JObject [(lit ''a'', JInt 1)] :: nat json"
  have "set_json_path ?root (lit ''b.c'') JNull =
      Inr (JObject [(lit ''a'', JInt 1), (lit ''b'', JObject [(lit ''c'', JNull)])])"
    and "key_parts (lit ''b.c'') = [lit ''b'', lit ''c'']" and "apart [lit ''b'', lit ''c''] [lit ''a'']"
    and "json_get [lit ''a''] ?root = Some (JInt 1)" by code_simp+
  then show ?thesis using set_json_path_correct [where root = ?root and key = "lit ''b.c''" and v = JNull] by auto
qed

text \<open>The style of a JSON file is kept: the new text ends with a newline exactly when the old one did, and an
  indentation that is detected is a run of spaces or a run of tabs that begins a line of the file.\<close>

lemma style_preserved:
  "ends_with (serialize_json_preserving_style env root original) [c_newline] = ends_with original [c_newline] \<and>
   (case detect_json_indent original of
      None \<Rightarrow> True
    | Some indent \<Rightarrow> indent \<noteq> [] \<and> (set indent = {c_space} \<or> set indent = {c_tab}) \<and>
        list_ex (\<lambda>line. starts_with line indent) (str_lines original))"
proof -
  have trim: "\<not> ends_with (trim_end_matches (\<lambda>c. c = c_newline) s) [c_newline]" for s
  proof
    assume "ends_with (trim_end_matches (\<lambda>c. c = c_newline) s) [c_newline]"
    then obtain t where "List.rev (dropWhile (\<lambda>c. c = c_newline) (List.rev s)) = t @ [c_newline]"
      by (auto simp: ends_with_iff trim_end_matches_def)
    then have "dropWhile (\<lambda>c. c = c_newline) (List.rev s) = c_newline # List.rev t"
      by (metis rev.simps(2) rev_append rev_rev_ident append_Cons append_Nil rev_singleton_conv)
    then show False by (metis (mono_tags, lifting) hd_dropWhile list.distinct(1) list.sel(1))
  qed
  have one: "set indent = {c}" if "indent \<noteq> []" "list_all (\<lambda>x. x = c) indent" for indent :: rstr and c
    using that by (cases indent) (auto simp: list_all_iff)
  have found: "\<exists>x \<in> set xs. f x = Some y" if "first_some f xs = Some y" for f :: "rstr \<Rightarrow> rstr option" and xs y
    using that by (induction xs) (auto split: option.splits)
  have "indent \<noteq> [] \<and> (set indent = {c_space} \<or> set indent = {c_tab}) \<and>
      list_ex (\<lambda>line. starts_with line indent) (str_lines original)" if "detect_json_indent original = Some indent" for indent
  proof -
    from found that obtain l where l: "l \<in> set (tl (str_lines original))" "line_indent l = Some indent"
      unfolding detect_json_indent_def by blast
    then have "indent = takeWhile is_indent_char l" "indent \<noteq> []"
      "list_all (\<lambda>c. c = c_space) indent \<or> list_all (\<lambda>c. c = c_tab) indent"
      by (auto simp: line_indent_def Let_def split: if_splits)
    moreover from this have "starts_with l indent"
      by (metis starts_with_iff takeWhile_dropWhile_id)
    moreover have "l \<in> set (str_lines original)" using l(1) by (cases "str_lines original") auto
    ultimately show ?thesis using one by (auto simp: list_ex_iff)
  qed
  moreover have "ends_with (s @ [c_newline]) [c_newline]" for s by (auto simp: ends_with_iff)
  ultimately show ?thesis using trim
    by (auto simp: serialize_json_preserving_style_def Let_def split: option.splits)
qed

end
