(* ===== verification/Write_Batch.thy ===== *)
theory Write_Batch
  imports Config_Set
begin

text \<open>
  Batches of write operations (\<open>run_batch\<close> and its helpers in \<open>fork-core/rtk/src/write_cmd.rs\<close>): the
  operations of a plan are grouped by file, those of a file are applied in memory in their order, and each
  file is written once. The state is the files by path: distinct paths are distinct files. A \<open>PathBuf\<close> is
  compared and hashed by its components, so a path stands here for its normal spelling. A reference to a file
  reads the state as it is when the operation is computed; which file a reference denotes, whether it may be
  read, and the debug form of a string (Unicode tables) are arguments. Other processes only change the file
  that is being written.
\<close>

section \<open>Operations\<close>

record batch_op =
  bo_op :: rstr
  bo_file :: rstr
  bo_from :: "rstr option"
  bo_to :: "rstr option"
  bo_old :: "rstr option"
  bo_new :: "rstr option"
  bo_key :: "rstr option"
  bo_value :: "rstr option"
  bo_all :: bool
  bo_value_type :: "rstr option"
  bo_format :: "rstr option"
  bo_content :: "rstr option"

datatype batch_apply = Applied rstr nat | Noop

record ('f, 't, 'i) batch_env =
  be_edit :: edit_env
  be_config :: "('f, 't, 'i) config_env"
  be_hint :: "rstr \<Rightarrow> rstr \<Rightarrow> rstr \<Rightarrow> rstr \<Rightarrow> rstr"
  be_debug :: "rstr \<Rightarrow> rstr"
  be_ref_file :: "rstr \<Rightarrow> rstr"
  be_ref_fails :: "rstr \<Rightarrow> bool"
  be_write :: "rstr \<Rightarrow> write_env"
  be_error_text :: "locked_error \<Rightarrow> rstr"

text \<open>What the files hold at a moment: the text of each, none when it is not there or is not text.\<close>

type_synonym file_texts = "rstr \<Rightarrow> rstr option"

definition file_text :: "target \<Rightarrow> rstr option" where
  "file_text t = (case t of None \<Rightarrow> None | Some f \<Rightarrow> decode_utf8 (fo_bytes f))"

definition read_ref :: "('f, 't, 'i) batch_env \<Rightarrow> file_texts \<Rightarrow> rstr \<Rightarrow> rstr option" where
  "read_ref env now path = (if be_ref_fails env path then None else now (be_ref_file env path))"

definition expand_batch_field :: "('f, 't, 'i) batch_env \<Rightarrow> file_texts \<Rightarrow> rstr \<Rightarrow> rstr + rstr" where
  "expand_batch_field env now v =
     (case strip_prefix v [64] of
        None \<Rightarrow> Inr v
      | Some path \<Rightarrow>
          if path = [c_minus]
          then Inl (lit ''@- is not supported in batch op fields; use @/path/to/file instead'')
          else (case read_ref env now path of
                  None \<Rightarrow> Inl (lit ''@file ref: failed to read '' @ be_debug env path)
                | Some s \<Rightarrow> Inr s))"

text \<open>The two texts of a replacement, expanded.\<close>

definition batch_texts ::
  "('f, 't, 'i) batch_env \<Rightarrow> file_texts \<Rightarrow> rstr option \<Rightarrow> rstr \<Rightarrow> rstr option \<Rightarrow> rstr \<Rightarrow> rstr + rstr \<times> rstr" where
  "batch_texts env now first_field first_missing second_field second_missing =
     (case first_field of
        None \<Rightarrow> Inl first_missing
      | Some a \<Rightarrow>
          (case second_field of
             None \<Rightarrow> Inl second_missing
           | Some b \<Rightarrow>
               (case expand_batch_field env now a of
                  Inl e \<Rightarrow> Inl e
                | Inr a' \<Rightarrow>
                    (case expand_batch_field env now b of
                       Inl e \<Rightarrow> Inl e
                     | Inr b' \<Rightarrow> Inr (a', b')))))"

text \<open>The replacement itself; the outer option is the panic of a slice.\<close>

definition batch_edit ::
  "('f, 't, 'i) batch_env \<Rightarrow> rstr \<Rightarrow> rstr \<Rightarrow> rstr \<Rightarrow> rstr \<Rightarrow> bool \<Rightarrow> rstr \<Rightarrow> (rstr + batch_apply) option" where
  "batch_edit env base flag old new all_places content =
     map_option (\<lambda>r. case r of
         NoMatch \<Rightarrow> Inl (lit ''NO_MATCH '' @ be_hint env base flag old content)
       | SameText \<Rightarrow> Inr Noop
       | Edited updated count \<Rightarrow> Inr (Applied updated count))
       (edit_text (be_edit env) old new all_places content)"

definition batch_value_type :: "rstr option \<Rightarrow> config_value_type" where
  "batch_value_type t =
     (if t = Some (lit ''string'') then TypeString else if t = Some (lit ''number'') then TypeNumber
      else if t = Some (lit ''bool'') then TypeBool else if t = Some (lit ''null'') then TypeNull
      else if t = Some (lit ''json'') then TypeJson else TypeAuto)"

definition batch_format :: "rstr option \<Rightarrow> config_format" where
  "batch_format f =
     (if f = Some (lit ''json'') then FormatJson else if f = Some (lit ''toml'') then FormatToml else FormatAuto)"

definition batch_replace :: "('f, 't, 'i) batch_env \<Rightarrow> file_texts \<Rightarrow> batch_op \<Rightarrow> rstr \<Rightarrow> (rstr + batch_apply) option" where
  "batch_replace env now op content =
     (case batch_texts env now (bo_from op) (lit ''batch replace: missing 'from' field'')
             (bo_to op) (lit ''batch replace: missing 'to' field'') of
        Inl e \<Rightarrow> Some (Inl e)
      | Inr (from_text, to) \<Rightarrow>
          if from_text = [] then Some (Inl (lit ''batch replace: 'from' must be non-empty''))
          else batch_edit env (lit ''no matches for --from'') (lit ''--from'') from_text to (bo_all op) content)"

definition batch_patch :: "('f, 't, 'i) batch_env \<Rightarrow> file_texts \<Rightarrow> batch_op \<Rightarrow> rstr \<Rightarrow> (rstr + batch_apply) option" where
  "batch_patch env now op content =
     (case batch_texts env now (bo_old op) (lit ''batch patch: missing 'old' field'')
             (bo_new op) (lit ''batch patch: missing 'new' field'') of
        Inl e \<Rightarrow> Some (Inl e)
      | Inr (old, new) \<Rightarrow>
          if old = []
          then (if content = [] then Some (Inr (Applied new 1))
                else Some (Inl (lit ''batch patch: 'old' must be non-empty (file has content; use 'create' op for new files, 'replace' to overwrite existing content)'')))
          else batch_edit env (lit ''hunk not found'') (lit ''--old'') old new (bo_all op) content)"

text \<open>The new text of a configuration file; the messages differ from those of \<open>run_set\<close>.\<close>

definition batch_set_text :: "('f, 't, 'i) batch_env \<Rightarrow> batch_op \<Rightarrow> config_format \<Rightarrow> rstr \<Rightarrow> rstr \<Rightarrow> rstr \<Rightarrow> rstr + rstr" where
  "batch_set_text env op fmt key v content =
     (let value_type = batch_value_type (bo_value_type op)
      in if fmt = FormatToml
         then (case cf_parse_toml (be_config env) content of
                 Inl _ \<Rightarrow> Inl (lit ''Invalid TOML: '' @ bo_file op)
               | Inr root \<Rightarrow>
                   (case parse_toml_value (be_config env) v value_type of
                      Inl e \<Rightarrow> Inl e
                    | Inr parsed \<Rightarrow>
                        map_sum id (cf_toml_text (be_config env)) (set_toml_path (be_config env) root key parsed)))
         else case cf_parse_json (be_config env) content of
           Inl _ \<Rightarrow> Inl (lit ''Invalid JSON: '' @ bo_file op)
         | Inr root \<Rightarrow>
             (case parse_json_value (be_config env) v value_type of
                Inl e \<Rightarrow> Inl e
              | Inr parsed \<Rightarrow>
                  (case set_json_path root key parsed of
                     Inl e \<Rightarrow> Inl e
                   | Inr root' \<Rightarrow> Inr (serialize_json_preserving_style (be_config env) root' content))))"

definition batch_set :: "('f, 't, 'i) batch_env \<Rightarrow> batch_op \<Rightarrow> rstr \<Rightarrow> rstr + batch_apply" where
  "batch_set env op content =
     (case bo_key op of
        None \<Rightarrow> Inl (lit ''batch set: missing 'key' field'')
      | Some key \<Rightarrow>
          (case bo_value op of
             None \<Rightarrow> Inl (lit ''batch set: missing 'value' field'')
           | Some v \<Rightarrow>
               (case resolve_format (bo_file op) (batch_format (bo_format op)) of
                  Inl e \<Rightarrow> Inl e
                | Inr fmt \<Rightarrow>
                    (case batch_set_text env op fmt key v content of
                       Inl e \<Rightarrow> Inl e
                     | Inr updated \<Rightarrow> Inr (if updated = content then Noop else Applied updated 1)))))"

definition batch_create :: "batch_op \<Rightarrow> rstr \<Rightarrow> rstr + batch_apply" where
  "batch_create op content =
     (let wanted = (case bo_content op of Some s \<Rightarrow> s | None \<Rightarrow>
            (case bo_new op of Some s \<Rightarrow> s | None \<Rightarrow> []))
      in if content = wanted then Inr Noop
         else if content \<noteq> []
         then Inl (lit ''FILE_EXISTS: '' @ bo_file op @ lit '' already exists with different content; use replace/patch to modify it'')
         else Inr (Applied wanted 1))"

definition apply_batch_op_in_memory :: "('f, 't, 'i) batch_env \<Rightarrow> file_texts \<Rightarrow> batch_op \<Rightarrow> rstr \<Rightarrow> (rstr + batch_apply) option" where
  "apply_batch_op_in_memory env now op content =
     (if bo_op op = lit ''replace'' then batch_replace env now op content
      else if bo_op op = lit ''patch'' then batch_patch env now op content
      else if bo_op op = lit ''set'' then Some (batch_set env op content)
      else if bo_op op = lit ''create'' then Some (batch_create op content)
      else Some (Inl (lit ''Unknown batch operation: '' @ [c_squote] @ bo_op op @ [c_squote])))"

text \<open>Creating an empty file that is not there does nothing and is counted as done: the absent file is read as
  the empty text, which is what it is to hold.\<close>

lemma batch_create_empty_absent:
  "bo_content op = Some [] \<Longrightarrow> batch_create op [] = Inr Noop"
  by (simp add: batch_create_def)

section \<open>Groups\<close>

text \<open>One step of the grouping: the group of the file, or a new one at the end.\<close>

definition add_index ::
  "nat \<Rightarrow> rstr \<Rightarrow> (rstr \<rightharpoonup> nat) \<times> nat list list \<Rightarrow> (rstr \<rightharpoonup> nat) \<times> nat list list" where
  "add_index idx path st =
     (case st of (by_file, groups) \<Rightarrow>
        (case by_file path of
           Some g \<Rightarrow> (by_file, groups[g := groups ! g @ [idx]])
         | None \<Rightarrow> (by_file(path \<mapsto> length groups), groups @ [[idx]])))"

definition group_batch_indices_by_file :: "batch_op list \<Rightarrow> nat list list" where
  "group_batch_indices_by_file ops =
     snd (fold (\<lambda>i. add_index i (bo_file (ops ! i))) [0..<length ops] (Map.empty, []))"

text \<open>The operations of a group in memory: the text so far, the count and each result.\<close>

fun group_loop ::
  "('f, 't, 'i) batch_env \<Rightarrow> file_texts \<Rightarrow> batch_op list \<Rightarrow> nat list \<Rightarrow> rstr \<Rightarrow> nat \<Rightarrow> (nat \<times> (rstr + nat)) list \<Rightarrow>
   (rstr \<times> nat \<times> (nat \<times> (rstr + nat)) list) option" where
  "group_loop env now ops [] working applied results = Some (working, applied, results)"
| "group_loop env now ops (i # is) working applied results =
     (case apply_batch_op_in_memory env now (ops ! i) working of
        None \<Rightarrow> None
      | Some (Inr (Applied updated count)) \<Rightarrow>
          group_loop env now ops is updated (applied + count) (results @ [(i, Inr count)])
      | Some (Inr Noop) \<Rightarrow> group_loop env now ops is working applied (results @ [(i, Inr 0)])
      | Some (Inl e) \<Rightarrow> group_loop env now ops is working applied (results @ [(i, Inl e)]))"

text \<open>The files while the closure of a group runs: those of the plan written so far, and the group's own file as it
  is on disk.\<close>

definition texts_at :: "(rstr \<Rightarrow> target) \<Rightarrow> rstr \<Rightarrow> target \<Rightarrow> file_texts" where
  "texts_at files path present = (\<lambda>p. file_text ((files(path := present)) p))"

definition group_attempt ::
  "('f, 't, 'i) batch_env \<Rightarrow> batch_op list \<Rightarrow> nat list \<Rightarrow> (rstr \<Rightarrow> target) \<Rightarrow> rstr \<Rightarrow> compute_fn" where
  "group_attempt env ops indices files path present content =
     map_option (\<lambda>(working, applied, _). if applied = 0 then Unchanged else Success working applied)
       (group_loop env (texts_at files path present) ops indices content 0 [])"

text \<open>The results are those of the last call of the closure, on the content that \<open>locked_write\<close> returns; there are
  none when it was not called.\<close>

definition execute_batch_file_group ::
  "('f, 't, 'i) batch_env \<Rightarrow> batch_op list \<Rightarrow> nat list \<Rightarrow> write_params \<Rightarrow> (rstr \<Rightarrow> target) \<Rightarrow>
   ((rstr \<Rightarrow> target) \<times> (nat \<times> (rstr + nat)) list) option" where
  "execute_batch_file_group env ops indices params files =
     (if indices = [] then Some (files, [])
      else let path = bo_file (ops ! hd indices);
               run = locked_write (be_write env path) (params\<lparr>wp_output := Quiet\<rparr>) (lit ''batch'')
                       (group_attempt env ops indices files path) (files path);
               files' = files(path := lr_target run)
           in case lr_result run of
                Inl Panicked \<Rightarrow> None
              | Inl e \<Rightarrow> Some (files', map (\<lambda>i. (i, Inl (be_error_text env e))) indices)
              | Inr (_, content) \<Rightarrow>
                  (case last_called (lr_events run) of
                     None \<Rightarrow> Some (files', [])
                   | Some present \<Rightarrow>
                       map_option (\<lambda>(_, _, results). (files', results))
                         (group_loop env (texts_at files path present) ops indices content 0 [])))"

fun execute_groups ::
  "('f, 't, 'i) batch_env \<Rightarrow> batch_op list \<Rightarrow> write_params \<Rightarrow> nat list list \<Rightarrow> (rstr \<Rightarrow> target) \<Rightarrow>
   (rstr + nat) option list \<Rightarrow> ((rstr \<Rightarrow> target) \<times> (rstr + nat) option list) option" where
  "execute_groups env ops params [] files outcomes = Some (files, outcomes)"
| "execute_groups env ops params (g # gs) files outcomes =
     (case execute_batch_file_group env ops g params files of
        None \<Rightarrow> None
      | Some (files', results) \<Rightarrow>
          execute_groups env ops params gs files'
            (fold (\<lambda>(i, r) out. out[i := Some r]) results outcomes))"

section \<open>The plan\<close>

definition missing_outcome :: rstr where
  "missing_outcome = lit ''batch internal error: missing operation outcome''"

definition settle_outcome :: "(rstr + nat) option \<Rightarrow> rstr + nat" where
  "settle_outcome out = (case out of Some r \<Rightarrow> r | None \<Rightarrow> Inl missing_outcome)"

definition applied_total :: "(rstr + nat) list \<Rightarrow> nat" where
  "applied_total rs = sum_list (map (\<lambda>r. case r of Inr n \<Rightarrow> n | Inl _ \<Rightarrow> 0) rs)"

definition failed_total :: "(rstr + nat) list \<Rightarrow> nat" where
  "failed_total rs = length (filter (\<lambda>r. case r of Inl _ \<Rightarrow> True | Inr _ \<Rightarrow> False) rs)"

definition batch_message :: "nat \<Rightarrow> nat \<Rightarrow> batch_op \<Rightarrow> rstr \<Rightarrow> rstr" where
  "batch_message n i op e = lit ''['' @ show_nat (i + 1) @ lit ''/'' @ show_nat n @ lit ''] '' @ bo_op op @ lit '' '' @
     bo_file op @ lit '': '' @ e"

definition batch_errors :: "batch_op list \<Rightarrow> (rstr + nat) list \<Rightarrow> rstr list" where
  "batch_errors ops rs =
     concat (map (\<lambda>i. case rs ! i of Inl e \<Rightarrow> [batch_message (length ops) i (ops ! i) e] | Inr _ \<Rightarrow> [])
       [0..<length ops])"

definition batch_response :: "batch_op list \<Rightarrow> write_params \<Rightarrow> (rstr + nat) list \<Rightarrow> write_response" where
  "batch_response ops params rs =
     (let failed = failed_total rs; errors = batch_errors ops rs
      in (response_success (lit ''batch'') (applied_total rs))
         \<lparr>wr_failed := Some failed,
          wr_dry_run := (if wp_dry_run params then Some True else None),
          wr_detail := (if errors \<noteq> [] \<and> wp_output params = JsonOutput
            then Some (join (lit ''; '') errors) else None),
          wr_ok := (failed = 0 \<or> failed < length ops)\<rparr>)"

text \<open>The files, the response and whether the process exits with an error; none is a panic.\<close>

definition run_batch ::
  "('f, 't, 'i) batch_env \<Rightarrow> batch_op list \<Rightarrow> write_params \<Rightarrow> (rstr \<Rightarrow> target) \<Rightarrow>
   ((rstr \<Rightarrow> target) \<times> (rstr + write_response \<times> (rstr + nat) list \<times> bool)) option" where
  "run_batch env ops params files =
     (if ops = [] then Some (files, Inl (lit ''Batch plan is empty''))
      else map_option (\<lambda>(files', outcomes).
          let rs = map settle_outcome outcomes
          in (files', Inr (batch_response ops params rs, rs, failed_total rs = length ops)))
        (execute_groups env ops params (group_batch_indices_by_file ops) files (replicate (length ops) None)))"

section \<open>Operations one after another\<close>

definition op_text :: "rstr \<Rightarrow> rstr + batch_apply \<Rightarrow> rstr" where
  "op_text working r = (case r of Inr (Applied updated _) \<Rightarrow> updated | _ \<Rightarrow> working)"

definition op_outcome :: "rstr + batch_apply \<Rightarrow> rstr + nat" where
  "op_outcome r = (case r of Inl e \<Rightarrow> Inl e | Inr Noop \<Rightarrow> Inr 0 | Inr (Applied _ count) \<Rightarrow> Inr count)"

definition text_or_empty :: "rstr option \<Rightarrow> rstr" where
  "text_or_empty t = (case t of None \<Rightarrow> [] | Some s \<Rightarrow> s)"

text \<open>The reference: one operation after another in the order of the plan, each on what the files hold by then,
  also where it reads a reference, and each with its effect on its file at once.\<close>

primrec sequential_batch ::
  "('f, 't, 'i) batch_env \<Rightarrow> batch_op list \<Rightarrow> file_texts \<Rightarrow> (file_texts \<times> (rstr + nat) list) option" where
  "sequential_batch env [] now = Some (now, [])"
| "sequential_batch env (op # ops) now =
     (let content = text_or_empty (now (bo_file op))
      in case apply_batch_op_in_memory env now op content of
           None \<Rightarrow> None
         | Some r \<Rightarrow> map_option (\<lambda>(after, outs). (after, op_outcome r # outs))
             (sequential_batch env ops
               (if op_text content r = content then now else now(bo_file op \<mapsto> op_text content r))))"

text \<open>The references of an operation, and plans in which none is to a file of the plan.\<close>

definition field_refs :: "rstr option \<Rightarrow> rstr list" where
  "field_refs v = (case v of None \<Rightarrow> [] | Some s \<Rightarrow> (case strip_prefix s [64] of None \<Rightarrow> [] | Some path \<Rightarrow> [path]))"

definition op_refs :: "batch_op \<Rightarrow> rstr list" where
  "op_refs op =
     (if bo_op op = lit ''replace'' then field_refs (bo_from op) @ field_refs (bo_to op)
      else if bo_op op = lit ''patch'' then field_refs (bo_old op) @ field_refs (bo_new op)
      else [])"

definition refs_outside :: "('f, 't, 'i) batch_env \<Rightarrow> batch_op list \<Rightarrow> bool" where
  "refs_outside env ops = list_all (\<lambda>op. list_all (\<lambda>path. be_ref_file env path \<notin> bo_file ` set ops) (op_refs op)) ops"

section \<open>Operations on texts\<close>

text \<open>The operations with references read from files that do not change: those of one file, and those of a plan.\<close>

primrec run_ops ::
  "('f, 't, 'i) batch_env \<Rightarrow> file_texts \<Rightarrow> batch_op list \<Rightarrow> rstr \<Rightarrow> (rstr \<times> (rstr + nat) list) option" where
  "run_ops env now [] working = Some (working, [])"
| "run_ops env now (op # ops) working =
     (case apply_batch_op_in_memory env now op working of
        None \<Rightarrow> None
      | Some r \<Rightarrow> map_option (\<lambda>(w, outs). (w, op_outcome r # outs)) (run_ops env now ops (op_text working r)))"

primrec texts_batch ::
  "('f, 't, 'i) batch_env \<Rightarrow> file_texts \<Rightarrow> batch_op list \<Rightarrow> (rstr \<Rightarrow> rstr) \<Rightarrow> ((rstr \<Rightarrow> rstr) \<times> (rstr + nat) list) option" where
  "texts_batch env now [] texts = Some (texts, [])"
| "texts_batch env now (op # ops) texts =
     (case apply_batch_op_in_memory env now op (texts (bo_file op)) of
        None \<Rightarrow> None
      | Some r \<Rightarrow> map_option (\<lambda>(t, outs). (t, op_outcome r # outs))
          (texts_batch env now ops (texts(bo_file op := op_text (texts (bo_file op)) r))))"

lemma expand_batch_field_agree:
  "\<forall>path \<in> set (field_refs (Some v)). now (be_ref_file env path) = now' (be_ref_file env path) \<Longrightarrow>
   expand_batch_field env now v = expand_batch_field env now' v"
  by (auto simp: expand_batch_field_def field_refs_def read_ref_def split: option.splits)

lemma batch_texts_agree:
  assumes "\<forall>path \<in> set (field_refs a @ field_refs b). now (be_ref_file env path) = now' (be_ref_file env path)"
  shows "batch_texts env now a ma b mb = batch_texts env now' a ma b mb"
proof (cases "a = None \<or> b = None")
  case False
  then obtain x y where "a = Some x" "b = Some y" by auto
  with assms expand_batch_field_agree [of x now env now'] expand_batch_field_agree [of y now env now'] show ?thesis
    by (simp add: batch_texts_def split: sum.splits)
qed (auto simp: batch_texts_def split: option.splits)

lemma apply_op_agree:
  assumes "\<forall>path \<in> set (op_refs op). now (be_ref_file env path) = now' (be_ref_file env path)"
  shows "apply_batch_op_in_memory env now op content = apply_batch_op_in_memory env now' op content"
proof -
  have "batch_replace env now op content = batch_replace env now' op content" if "bo_op op = lit ''replace''"
    using assms that batch_texts_agree [of "bo_from op" "bo_to op" now env now'] by (simp add: op_refs_def batch_replace_def)
  moreover have "batch_patch env now op content = batch_patch env now' op content"
    if "bo_op op \<noteq> lit ''replace''" "bo_op op = lit ''patch''"
    using assms that batch_texts_agree [of "bo_old op" "bo_new op" now env now'] by (simp add: op_refs_def batch_patch_def)
  ultimately show ?thesis by (simp add: apply_batch_op_in_memory_def)
qed

text \<open>Files outside the plan are the same.\<close>

definition same_outside :: "batch_op list \<Rightarrow> file_texts \<Rightarrow> file_texts \<Rightarrow> bool" where
  "same_outside plan now now' \<longleftrightarrow> (\<forall>p. p \<notin> bo_file ` set plan \<longrightarrow> now p = now' p)"

lemma apply_op_same_outside:
  assumes "refs_outside env plan" and "op \<in> set plan" and "same_outside plan now now'"
  shows "apply_batch_op_in_memory env now op content = apply_batch_op_in_memory env now' op content"
proof (rule apply_op_agree, rule ballI)
  fix path assume "path \<in> set (op_refs op)"
  then have "be_ref_file env path \<notin> bo_file ` set plan" using assms(1,2) by (auto simp: refs_outside_def list_all_iff)
  then show "now (be_ref_file env path) = now' (be_ref_file env path)" using assms(3) by (simp add: same_outside_def)
qed

lemma run_ops_same_outside:
  "refs_outside env plan \<Longrightarrow> set ops \<subseteq> set plan \<Longrightarrow> same_outside plan now now' \<Longrightarrow>
   run_ops env now ops working = run_ops env now' ops working"
proof (induction ops arbitrary: working)
  case (Cons op ops)
  have a: "apply_batch_op_in_memory env now op working = apply_batch_op_in_memory env now' op working"
    using Cons.prems by (intro apply_op_same_outside) auto
  have "run_ops env now ops w = run_ops env now' ops w" for w using Cons by simp
  with a show ?case by (simp split: option.splits)
qed simp

text \<open>When references stay outside, one by one is what happens to texts.\<close>

lemma sequential_texts:
  assumes "refs_outside env plan"
  shows "texts_batch env now0 ops texts = Some (texts', outs) \<Longrightarrow> set ops \<subseteq> set plan \<Longrightarrow> same_outside plan now now0 \<Longrightarrow>
    \<forall>p. text_or_empty (now p) = texts p \<Longrightarrow>
    \<exists>now'. sequential_batch env ops now = Some (now', outs) \<and> (\<forall>p. text_or_empty (now' p) = texts' p)"
proof (induction ops arbitrary: now texts outs)
  case (Cons op ops)
  let ?p = "bo_file op"
  from Cons.prems(1) obtain r outs1 where r: "apply_batch_op_in_memory env now0 op (texts ?p) = Some r"
    and s: "texts_batch env now0 ops (texts(?p := op_text (texts ?p) r)) = Some (texts', outs1)"
    and o: "outs = op_outcome r # outs1" by (auto split: option.splits)
  have r': "apply_batch_op_in_memory env now op (texts ?p) = Some r"
    using apply_op_same_outside [OF assms _ Cons.prems(3)] Cons.prems(2) r by simp
  define now1 where "now1 = (if op_text (texts ?p) r = texts ?p then now else now(?p \<mapsto> op_text (texts ?p) r))"
  have "same_outside plan now1 now0" using Cons.prems(2,3) by (auto simp: now1_def same_outside_def)
  moreover have "\<forall>p. text_or_empty (now1 p) = (texts(?p := op_text (texts ?p) r)) p"
    using Cons.prems(4) by (auto simp: now1_def text_or_empty_def)
  ultimately obtain now' where n: "sequential_batch env ops now1 = Some (now', outs1)" "\<forall>p. text_or_empty (now' p) = texts' p"
    using Cons.IH [OF s, of now1] Cons.prems(2) by auto
  have "sequential_batch env (op # ops) now = Some (now', outs)"
    using r' n(1) Cons.prems(4) by (simp add: o now1_def [symmetric])
  with n(2) show ?case by blast
qed simp

lemma group_loop_run_ops:
  "group_loop env now ops is working applied results =
   map_option (\<lambda>(w, outs). (w, applied + applied_total outs, results @ zip is outs))
     (run_ops env now (map ((!) ops) is) working)"
proof (induction "is" arbitrary: working applied results)
  case (Cons i "is")
  show ?case
  proof (cases "apply_batch_op_in_memory env now (ops ! i) working")
    case (Some r)
    show ?thesis
    proof (cases r)
      case (Inl e)
      with Some Cons.IH show ?thesis
        by (cases "run_ops env now (map ((!) ops) is) working") (auto simp: op_text_def op_outcome_def applied_total_def)
    next
      case (Inr x)
      with Some Cons.IH show ?thesis
        by (cases x; cases "run_ops env now (map ((!) ops) is) (op_text working r)")
          (auto simp: op_text_def op_outcome_def applied_total_def)
    qed
  qed simp
qed (simp add: applied_total_def)

text \<open>One file only depends on its own operations.\<close>

lemma texts_batch_filter:
  "texts_batch env now ops texts = Some (texts', outs) \<Longrightarrow>
   length outs = length ops \<and>
   run_ops env now (filter (\<lambda>op. bo_file op = p) ops) (texts p) =
     Some (texts' p, map snd (filter (\<lambda>x. bo_file (fst x) = p) (zip ops outs)))"
proof (induction ops arbitrary: texts outs)
  case (Cons op ops)
  from Cons.prems obtain r outs1 where r: "apply_batch_op_in_memory env now op (texts (bo_file op)) = Some r"
    and s: "texts_batch env now ops (texts(bo_file op := op_text (texts (bo_file op)) r)) = Some (texts', outs1)"
    and o: "outs = op_outcome r # outs1" by (auto split: option.splits)
  note ih = Cons.IH [OF s]
  show ?case
  proof (cases "bo_file op = p")
    case True
    with ih r o show ?thesis by (simp add: fun_upd_def)
  next
    case False
    with ih r o show ?thesis by (auto simp: fun_upd_def)
  qed
qed simp

lemma edit_text_total:
  assumes "finds_occurrences env" and "flex_leftmost env" and "old \<noteq> []"
  shows "edit_text env old new all_places content \<noteq> None"
    and "edit_text env old new all_places content = Some (Edited updated count) \<Longrightarrow> 0 < count"
proof -
  note n = resolve_match_pair_names [OF assms(2), of content old new]
  then obtain x where x: "resolve_match_pair env content old new = Some x" by (cases "resolve_match_pair env content old new") auto
  have m: "m \<noteq> []" if "x = Some (m, r)" for m r
    using n that names_text_occurs(1) [of env content old new m r] assms(3) by (simp add: x)
  show "edit_text env old new all_places content \<noteq> None"
    by (cases x) (auto simp: edit_text_def x replace_all_counted_eq [OF assms(1)])
  assume e: "edit_text env old new all_places content = Some (Edited updated count)"
  then obtain m r where mr: "x = Some (m, r)" by (auto simp: edit_text_def x split: option.splits)
  note m [OF mr]
  show "0 < count"
  proof (cases all_places)
    case True
    with e mr m have "count = length (occurrences 0 m content)" "replace_all m r content \<noteq> content"
      by (auto simp: edit_text_def x replace_all_counted_eq [OF assms(1)] split: if_splits)
    with replace_all_none [of 0 m content r] show ?thesis by auto
  qed (use e mr in \<open>auto simp: edit_text_def x split: if_splits\<close>)
qed

definition search_laws :: "('f, 't, 'i) batch_env \<Rightarrow> bool" where
  "search_laws env \<longleftrightarrow> finds_occurrences (be_edit env) \<and> flex_leftmost (be_edit env)"

lemma apply_op_total:
  assumes "search_laws env"
  shows "apply_batch_op_in_memory env now op content \<noteq> None"
    and "apply_batch_op_in_memory env now op content = Some (Inr (Applied updated count)) \<Longrightarrow> 0 < count"
proof -
  note laws = assms [unfolded search_laws_def, THEN conjunct1] assms [unfolded search_laws_def, THEN conjunct2]
  have e: "batch_edit env base flag old new a content \<noteq> None"
    "batch_edit env base flag old new a content = Some (Inr (Applied updated count)) \<Longrightarrow> 0 < count"
    if "old \<noteq> []" for base flag old new a
  proof -
    note t = edit_text_total [OF laws that, of new a content]
    from t(1) obtain z where z: "edit_text (be_edit env) old new a content = Some z" by blast
    then show "batch_edit env base flag old new a content \<noteq> None" by (simp add: batch_edit_def)
    show "batch_edit env base flag old new a content = Some (Inr (Applied updated count)) \<Longrightarrow> 0 < count"
      using z t(2) by (cases z) (auto simp: batch_edit_def)
  qed
  show "apply_batch_op_in_memory env now op content \<noteq> None"
    using e(1) by (auto simp: apply_batch_op_in_memory_def batch_replace_def batch_patch_def
        simp del: not_None_eq split: sum.splits)
  show "apply_batch_op_in_memory env now op content = Some (Inr (Applied updated count)) \<Longrightarrow> 0 < count"
    using e(2) by (auto simp: apply_batch_op_in_memory_def batch_replace_def batch_patch_def batch_set_def
        batch_create_def Let_def split: sum.splits option.splits if_splits)
qed

lemma texts_batch_total:
  assumes "search_laws env"
  shows "\<exists>texts' outs. texts_batch env now ops texts = Some (texts', outs)"
proof (induction ops arbitrary: texts)
  case (Cons op ops)
  obtain r where "apply_batch_op_in_memory env now op (texts (bo_file op)) = Some r"
    using apply_op_total(1) [OF assms] by blast
  with Cons.IH show ?case by fastforce
qed simp

text \<open>When no operation of a file was applied, its text is the same.\<close>

lemma run_ops_none_applied:
  assumes "search_laws env"
  shows "run_ops env now ops working = Some (w, outs) \<Longrightarrow> applied_total outs = 0 \<Longrightarrow> w = working"
proof (induction ops arbitrary: working outs)
  case (Cons op ops)
  from Cons.prems obtain r outs1 where r: "apply_batch_op_in_memory env now op working = Some r"
    and s: "run_ops env now ops (op_text working r) = Some (w, outs1)" and o: "outs = op_outcome r # outs1"
    by (auto split: option.splits)
  from o Cons.prems(2) have z: "applied_total outs1 = 0" "op_outcome r = Inr n \<Longrightarrow> n = 0" for n
    by (auto simp: applied_total_def)
  have "op_text working r = working"
  proof (rule ccontr)
    assume "op_text working r \<noteq> working"
    then obtain u c where "r = Inr (Applied u c)" by (auto simp: op_text_def split: sum.splits batch_apply.splits)
    with apply_op_total(2) [OF assms, of now op working] r z(2) show False by (auto simp: op_outcome_def)
  qed
  with Cons.IH [OF s z(1)] show ?case by simp
qed simp

section \<open>Groups by file\<close>

definition file_indices :: "batch_op list \<Rightarrow> rstr \<Rightarrow> nat \<Rightarrow> nat list" where
  "file_indices ops p n = filter (\<lambda>i. bo_file (ops ! i) = p) [0..<n]"

lemma file_indices_Suc [simp]:
  "file_indices ops p (Suc n) = file_indices ops p n @ (if bo_file (ops ! n) = p then [n] else [])"
  by (simp add: file_indices_def)

definition grouped :: "batch_op list \<Rightarrow> nat \<Rightarrow> (rstr \<rightharpoonup> nat) \<times> nat list list \<Rightarrow> rstr list \<Rightarrow> bool" where
  "grouped ops n st ps \<longleftrightarrow> distinct ps \<and> set ps = (\<lambda>i. bo_file (ops ! i)) ` {..<n} \<and>
     snd st = map (\<lambda>p. file_indices ops p n) ps \<and> (\<forall>p g. fst st p = Some g \<longleftrightarrow> g < length ps \<and> ps ! g = p)"

lemma add_index_grouped:
  assumes "grouped ops n st ps"
  shows "\<exists>ps'. grouped ops (Suc n) (add_index n (bo_file (ops ! n)) st) ps'"
proof -
  obtain bf gs where st: "st = (bf, gs)" by (cases st) auto
  let ?q = "bo_file (ops ! n)"
  from assms st have d: "distinct ps" and ps: "set ps = (\<lambda>i. bo_file (ops ! i)) ` {..<n}"
    and gs: "gs = map (\<lambda>p. file_indices ops p n) ps" and bf: "\<And>p g. bf p = Some g \<longleftrightarrow> g < length ps \<and> ps ! g = p"
    by (auto simp: grouped_def)
  show ?thesis
  proof (cases "bf ?q")
    case (Some g)
    then have g: "g < length ps" "ps ! g = ?q" using bf by auto
    have "gs[g := gs ! g @ [n]] = map (\<lambda>p. file_indices ops p (Suc n)) ps"
    proof (rule nth_equalityI)
      fix j
      assume "j < length (gs[g := gs ! g @ [n]])"
      then have "j < length ps" by (simp add: gs)
      then show "gs[g := gs ! g @ [n]] ! j = map (\<lambda>p. file_indices ops p (Suc n)) ps ! j"
        using g nth_eq_iff_index_eq [OF d, of j g] by (auto simp: gs nth_list_update)
    qed (simp add: gs)
    moreover have "set ps = (\<lambda>i. bo_file (ops ! i)) ` {..<Suc n}"
      using ps nth_mem [OF g(1)] g(2) by (simp add: lessThan_Suc insert_absorb)
    moreover have "add_index n ?q st = (bf, gs[g := gs ! g @ [n]])" using Some by (simp add: add_index_def st)
    ultimately show ?thesis using d bf by (intro exI [of _ ps]) (simp add: grouped_def)
  next
    case None
    then have q: "?q \<notin> set ps" using bf by (metis in_set_conv_nth option.distinct(1))
    have "bo_file (ops ! x) \<noteq> ?q" if "x < n" for x
      using that q imageI [of x "{..<n}" "\<lambda>i. bo_file (ops ! i)"] unfolding ps by (metis lessThan_iff)
    then have "file_indices ops ?q n = []" by (simp add: file_indices_def filter_empty_conv)
    then have "gs @ [[n]] = map (\<lambda>p. file_indices ops p (Suc n)) (ps @ [?q])"
      using q by (auto simp: gs)
    moreover have np: "ps ! g \<noteq> ?q" if "g < length ps" for g using q nth_mem [OF that] by metis
    moreover have "(bf(?q \<mapsto> length gs)) p = Some g \<longleftrightarrow> g < length (ps @ [?q]) \<and> (ps @ [?q]) ! g = p" for p g
      using bf np by (auto simp: gs nth_append less_Suc_eq)
    moreover have "add_index n ?q st = (bf(?q \<mapsto> length gs), gs @ [[n]])" using None by (simp add: add_index_def st)
    moreover have "set (ps @ [?q]) = (\<lambda>i. bo_file (ops ! i)) ` {..<Suc n}" using ps by (simp add: lessThan_Suc)
    ultimately show ?thesis using d q
      unfolding grouped_def by (intro exI [of _ "ps @ [?q]"]) (simp del: map_append file_indices_Suc)
  qed
qed

lemma group_batch_indices_paths:
  obtains ps where "group_batch_indices_by_file ops = map (\<lambda>p. file_indices ops p (length ops)) ps"
    "distinct ps" "set ps = bo_file ` set ops"
proof -
  let ?f = "\<lambda>i. add_index i (bo_file (ops ! i))"
  have "\<exists>ps. grouped ops n (fold ?f [0..<n] (Map.empty, [])) ps" for n
  proof (induction n)
    case 0
    show ?case by (intro exI [of _ "[]"]) (simp add: grouped_def)
  next
    case (Suc n)
    then obtain ps where "grouped ops n (fold ?f [0..<n] (Map.empty, [])) ps" by blast
    from add_index_grouped [OF this] show ?case by simp
  qed
  then obtain ps where "grouped ops (length ops) (fold ?f [0..<length ops] (Map.empty, [])) ps" by blast
  moreover have "(\<lambda>i. bo_file (ops ! i)) ` {..<length ops} = bo_file ` set ops"
    by (auto simp: set_conv_nth)
  ultimately show thesis by (intro that) (auto simp: grouped_def group_batch_indices_by_file_def)
qed

lemma filter_indices: "map ((!) xs) (filter (\<lambda>i. P (xs ! i)) [0..<length xs]) = filter P xs"
proof (induction xs rule: rev_induct)
  case (snoc x xs)
  have "filter (\<lambda>i. P ((xs @ [x]) ! i)) [0..<length xs] = filter (\<lambda>i. P (xs ! i)) [0..<length xs]"
    by (rule filter_cong) (auto simp: nth_append)
  moreover have "map ((!) (xs @ [x])) (filter (\<lambda>i. P (xs ! i)) [0..<length xs]) =
      map ((!) xs) (filter (\<lambda>i. P (xs ! i)) [0..<length xs])"
    by (rule map_cong) (auto simp: nth_append)
  ultimately show ?case using snoc by simp
qed simp

lemma outcomes_of_file:
  assumes "length outs = length ops"
  shows "map snd (filter (\<lambda>x. bo_file (fst x) = p) (zip ops outs)) = map ((!) outs) (file_indices ops p (length ops))"
proof -
  let ?is = "filter (\<lambda>i. bo_file (fst (zip ops outs ! i)) = p) [0..<length (zip ops outs)]"
  have "?is = file_indices ops p (length ops)"
    unfolding file_indices_def using assms by (auto intro!: filter_cong)
  moreover have "map snd (map ((!) (zip ops outs)) (file_indices ops p (length ops))) =
      map ((!) outs) (file_indices ops p (length ops))"
    using assms by (auto simp: file_indices_def)
  ultimately show ?thesis using filter_indices [of "zip ops outs" "\<lambda>x. bo_file (fst x) = p"] by metis
qed

section \<open>Batches and the reference\<close>

text \<open>What becomes of a file whose text was \<open>before\<close> and is to be \<open>after\<close>.\<close>

definition written_target :: "write_env \<Rightarrow> target \<Rightarrow> rstr \<Rightarrow> rstr \<Rightarrow> target" where
  "written_target env t before after = (if after = before then t else Some (written_file env t after))"

text \<open>The closure of a group, called on the text of its file as the files are.\<close>

lemma group_attempt_run_ops:
  assumes "run_ops env (\<lambda>q. file_text (files q)) (map ((!) ops) is) content = Some (w, outs)"
  shows "group_loop env (texts_at files p (files p)) ops is content 0 [] = Some (w, applied_total outs, zip is outs)"
    and "group_attempt env ops is files p (files p) content =
      Some (if applied_total outs = 0 then Unchanged else Success w (applied_total outs))"
proof -
  have "texts_at files p (files p) = (\<lambda>q. file_text (files q))" by (simp add: texts_at_def)
  with assms show loop: "group_loop env (texts_at files p (files p)) ops is content 0 [] =
      Some (w, applied_total outs, zip is outs)" by (simp add: group_loop_run_ops)
  then show "group_attempt env ops is files p (files p) content =
      Some (if applied_total outs = 0 then Unchanged else Success w (applied_total outs))"
    by (simp add: group_attempt_def)
qed

lemma execute_group_undisturbed:
  assumes "search_laws env" and "undisturbed (be_write env p)" and "\<not> wp_dry_run params"
    and "target_text (files p) = Some content" and "is \<noteq> []" and "bo_file (ops ! hd is) = p"
    and run: "run_ops env (\<lambda>q. file_text (files q)) (map ((!) ops) is) content = Some (w, outs)"
  shows "execute_batch_file_group env ops is params files =
    Some (files(p := written_target (be_write env p) (files p) content w), zip is outs)"
proof -
  let ?compute = "group_attempt env ops is files p" and ?params = "params\<lparr>wp_output := Quiet\<rparr>"
  let ?run = "locked_write (be_write env p) ?params (lit ''batch'') ?compute (files p)"
  note loop = group_attempt_run_ops(1) [OF run, of p] and c = group_attempt_run_ops(2) [OF run, of p]
  have "\<exists>resp. lr_target ?run = written_target (be_write env p) (files p) content w \<and>
      lr_result ?run = Inr (resp, content) \<and> last_called (lr_events ?run) = Some (files p)"
  proof (cases "w = content")
    case True
    then have "?compute (files p) content = Some Unchanged \<or>
        (\<exists>count. ?compute (files p) content = Some (Success content count))"
      using c by simp
    from locked_write_same [where compute = ?compute and params = ?params and op = "lit ''batch''", OF assms(2,4) this] True
    show ?thesis by (simp add: written_target_def)
  next
    case False
    then have "?compute (files p) content = Some (Success w (applied_total outs))"
      using c run_ops_none_applied [OF assms(1) run] by auto
    from locked_write_undisturbed [where compute = ?compute and params = ?params and op = "lit ''batch''",
        OF assms(2,4) this False] assms(3) False
    show ?thesis by (auto simp: written_target_def)
  qed
  then show ?thesis using assms(5,6) loop by (auto simp: execute_batch_file_group_def Let_def)
qed

lemma fold_outcomes:
  assumes "\<And>i. i \<in> set js \<Longrightarrow> i < length outcomes"
  shows "length (fold (\<lambda>(i, r) out. out[i := Some r]) (zip js (map ((!) outs) js)) outcomes) = length outcomes"
    and "j < length outcomes \<Longrightarrow>
      fold (\<lambda>(i, r) out. out[i := Some r]) (zip js (map ((!) outs) js)) outcomes ! j =
        (if j \<in> set js then Some (outs ! j) else outcomes ! j)"
  using assms
proof (induction js arbitrary: outcomes)
  case (Cons i js)
  { case 1 show ?case using Cons.IH(1) [of "outcomes[i := Some (outs ! i)]"] 1 by simp
  next
    case 2 show ?case using Cons.IH(2) [of "outcomes[i := Some (outs ! i)]"] 2 by (auto simp: nth_list_update) }
qed simp_all

lemma execute_groups_undisturbed:
  assumes "search_laws env" and "\<forall>p. undisturbed (be_write env p)" and "\<not> wp_dry_run params"
    and refs: "refs_outside env ops" and seq: "texts_batch env now0 ops texts = Some (texts', outs)"
  shows "distinct ps \<Longrightarrow> set ps \<subseteq> bo_file ` set ops \<Longrightarrow> length outcomes = length ops \<Longrightarrow>
    same_outside ops (\<lambda>q. file_text (files q)) now0 \<Longrightarrow>
    (\<And>p. p \<in> set ps \<Longrightarrow> target_text (files p) = Some (texts p)) \<Longrightarrow>
    \<exists>files' outcomes'. execute_groups env ops params (map (\<lambda>p. file_indices ops p (length ops)) ps) files outcomes =
        Some (files', outcomes') \<and> length outcomes' = length ops \<and>
      (\<forall>p. files' p = (if p \<in> set ps
         then written_target (be_write env p) (files p) (texts p) (texts' p) else files p)) \<and>
      (\<forall>i < length ops. outcomes' ! i = (if bo_file (ops ! i) \<in> set ps then Some (outs ! i) else outcomes ! i))"
proof (induction ps arbitrary: files outcomes)
  case (Cons p ps)
  let ?is = "file_indices ops p (length ops)"
  from Cons.prems(2) obtain i where i: "i < length ops" "bo_file (ops ! i) = p" by (auto simp: in_set_conv_nth)
  then have "i \<in> set ?is" by (auto simp: file_indices_def)
  then have ne: "?is \<noteq> []" by auto
  have hd: "bo_file (ops ! hd ?is) = p" using hd_in_set [OF ne] by (auto simp: file_indices_def)
  have ops: "map ((!) ops) ?is = filter (\<lambda>op. bo_file op = p) ops"
    using filter_indices [of ops "\<lambda>op. bo_file op = p"] by (simp add: file_indices_def)
  have run: "run_ops env (\<lambda>q. file_text (files q)) (map ((!) ops) ?is) (texts p) = Some (texts' p, map ((!) outs) ?is)"
    using texts_batch_filter [OF seq, of p] outcomes_of_file [of outs ops p]
      run_ops_same_outside [OF refs _ Cons.prems(4), of "filter (\<lambda>op. bo_file op = p) ops"]
    by (auto simp: ops)
  have g: "execute_batch_file_group env ops ?is params files =
      Some (files(p := written_target (be_write env p) (files p) (texts p) (texts' p)), zip ?is (map ((!) outs) ?is))"
    by (rule execute_group_undisturbed [OF assms(1) _ assms(3) _ ne hd run]) (use assms(2) Cons.prems(5) in auto)
  let ?files = "files(p := written_target (be_write env p) (files p) (texts p) (texts' p))"
  let ?out = "fold (\<lambda>(i, r) out. out[i := Some r]) (zip ?is (map ((!) outs) ?is)) outcomes"
  have is_len: "\<And>i. i \<in> set ?is \<Longrightarrow> i < length outcomes" using Cons.prems(3) by (auto simp: file_indices_def)
  have out: "length ?out = length ops" "\<And>j. j < length ops \<Longrightarrow> ?out ! j = (if bo_file (ops ! j) = p then Some (outs ! j) else outcomes ! j)"
    using fold_outcomes [where js = ?is and outs = outs, OF is_len] Cons.prems(3) by (auto simp: file_indices_def)
  have "same_outside ops (\<lambda>q. file_text (?files q)) now0"
    using Cons.prems(2,4) by (auto simp: same_outside_def)
  then have "\<exists>files' outcomes'. execute_groups env ops params (map (\<lambda>p. file_indices ops p (length ops)) ps) ?files ?out =
        Some (files', outcomes') \<and> length outcomes' = length ops \<and>
      (\<forall>q. files' q = (if q \<in> set ps
         then written_target (be_write env q) (?files q) (texts q) (texts' q) else ?files q)) \<and>
      (\<forall>i < length ops. outcomes' ! i = (if bo_file (ops ! i) \<in> set ps then Some (outs ! i) else ?out ! i))"
    by (intro Cons.IH) (use Cons.prems out(1) in auto)
  then obtain files' outcomes' where r:
    "execute_groups env ops params (map (\<lambda>p. file_indices ops p (length ops)) ps) ?files ?out = Some (files', outcomes')"
    "length outcomes' = length ops"
    "\<And>q. files' q = (if q \<in> set ps then written_target (be_write env q) (?files q) (texts q) (texts' q) else ?files q)"
    "\<And>i. i < length ops \<Longrightarrow> outcomes' ! i = (if bo_file (ops ! i) \<in> set ps then Some (outs ! i) else ?out ! i)"
    by blast
  have "files' q = (if q \<in> set (p # ps) then written_target (be_write env q) (files q) (texts q) (texts' q) else files q)"
    for q using r(3) [of q] Cons.prems(1) by auto
  moreover have "outcomes' ! i = (if bo_file (ops ! i) \<in> set (p # ps) then Some (outs ! i) else outcomes ! i)"
    if "i < length ops" for i using r(4) [OF that] out(2) [OF that] by auto
  moreover have "execute_groups env ops params (map (\<lambda>p. file_indices ops p (length ops)) (p # ps)) files outcomes =
      Some (files', outcomes')"
    by (simp only: list.map execute_groups.simps g option.case prod.case r(1))
  ultimately show ?case using r(2) by blast
qed simp

lemma target_text_file_text: "target_text t \<noteq> None \<Longrightarrow> target_text t = Some (text_or_empty (file_text t))"
  by (auto simp: target_text_def file_text_def text_or_empty_def split: option.splits)

text \<open>C30: A batch is its plan, one operation after another, when no system call fails, no other process writes, it is
  not a dry run, every file of the plan is absent or text, and no \<open>@file\<close> field refers to a file of the plan: then
  grouping the operations by file, applying each group in memory and writing each file once gives every operation
  the result, and every file the text, of applying the operations one by one in the order of the plan; a file
  whose text is unchanged is not touched, an operation that fails changes nothing, and none goes without a result.\<close>

theorem batch_is_sequential:
  assumes "search_laws env" and "\<forall>p. undisturbed (be_write env p)" and "\<not> wp_dry_run params" and "ops \<noteq> []"
    and "refs_outside env ops" and "list_all (\<lambda>op. target_text (files (bo_file op)) \<noteq> None) ops"
  shows "\<exists>now' rs files'. sequential_batch env ops (\<lambda>p. file_text (files p)) = Some (now', rs) \<and> length rs = length ops \<and>
    run_batch env ops params files =
      Some (files', Inr (batch_response ops params rs, rs, failed_total rs = length ops)) \<and>
    (\<forall>p. files' p = (if text_or_empty (now' p) = text_or_empty (file_text (files p)) then files p
       else Some (written_file (be_write env p) (files p) (text_or_empty (now' p)))))"
proof -
  let ?now = "\<lambda>p. file_text (files p)"
  define texts where "texts = (\<lambda>p. text_or_empty (file_text (files p)))"
  obtain texts' rs where tb: "texts_batch env ?now ops texts = Some (texts', rs)"
    using texts_batch_total [OF assms(1)] by blast
  have same: "same_outside ops ?now ?now" by (simp add: same_outside_def)
  obtain now' where seq: "sequential_batch env ops ?now = Some (now', rs)" "\<And>p. text_or_empty (now' p) = texts' p"
    using sequential_texts [OF assms(5) tb order_refl same] by (auto simp: texts_def)
  have len: "length rs = length ops" using texts_batch_filter [OF tb] by simp
  obtain ps where ps: "group_batch_indices_by_file ops = map (\<lambda>p. file_indices ops p (length ops)) ps"
    "distinct ps" "set ps = bo_file ` set ops" by (rule group_batch_indices_paths)
  have tt: "target_text (files p) = Some (texts p)" if "p \<in> set ps" for p
    using that assms(6) target_text_file_text [of "files p"] by (auto simp: ps(3) list_all_iff texts_def)
  from execute_groups_undisturbed [OF assms(1-3,5) tb ps(2), of "replicate (length ops) None" files] ps(3) tt same
  obtain files' outcomes' where ex: "execute_groups env ops params (group_batch_indices_by_file ops) files
      (replicate (length ops) None) = Some (files', outcomes')" "length outcomes' = length ops"
    and fi: "\<And>p. files' p = (if p \<in> set ps then written_target (be_write env p) (files p) (texts p) (texts' p) else files p)"
    and oi: "\<And>i. i < length ops \<Longrightarrow> outcomes' ! i = (if bo_file (ops ! i) \<in> set ps then Some (rs ! i)
      else replicate (length ops) None ! i)"
    by (auto simp: ps(1))
  have "map settle_outcome outcomes' = rs"
    by (rule nth_equalityI) (use ex(2) len oi ps(3) in \<open>auto simp: settle_outcome_def\<close>)
  moreover have "files' p = (if texts' p = texts p then files p
      else Some (written_file (be_write env p) (files p) (texts' p)))" for p
  proof (cases "p \<in> set ps")
    case False
    then have "filter (\<lambda>op. bo_file op = p) ops = []" using ps(3) by (auto simp: filter_empty_conv)
    then have "texts' p = texts p" using texts_batch_filter [OF tb, of p] by simp
    with False fi show ?thesis by simp
  qed (simp add: fi written_target_def)
  ultimately show ?thesis using seq len ex(1) assms(4) by (auto simp: run_batch_def Let_def texts_def)
qed

text \<open>A plan of two files, with an operation that fails, one on a file that is created, and one whose new text is
  that of a third file.\<close>

definition sample_config :: "(nat, unit, unit) config_env" where
  "sample_config = \<lparr>cf_parse_json = \<lambda>s. Inl [], cf_parse_f64 = \<lambda>s. None, cf_from_f64 = JFloat, cf_compact = \<lambda>v. [],
     cf_pretty = \<lambda>i v. [], cf_parse_toml = \<lambda>s. Inl [], cf_toml_text = \<lambda>t. [], cf_parse_toml_value = \<lambda>s. None,
     cf_new_table = (), cf_item = \<lambda>t k. None, cf_insert_item = \<lambda>t k i. (), cf_assign_item = \<lambda>t k i. (),
     cf_update_item = \<lambda>t k i. (), cf_as_table = \<lambda>i. None, cf_table_item = \<lambda>t. (), cf_value_item = \<lambda>v. ()\<rparr>"

definition sample_batch_env :: "(nat, unit, unit) batch_env" where
  "sample_batch_env = \<lparr>be_edit = sample_edit_env, be_config = sample_config, be_hint = \<lambda>a b c d. [],
     be_debug = id, be_ref_file = id, be_ref_fails = \<lambda>p. False, be_write = \<lambda>p. quiet_env, be_error_text = \<lambda>e. []\<rparr>"

definition blank_op :: batch_op where
  "blank_op = \<lparr>bo_op = [], bo_file = [], bo_from = None, bo_to = None, bo_old = None, bo_new = None, bo_key = None,
     bo_value = None, bo_all = False, bo_value_type = None, bo_format = None, bo_content = None\<rparr>"

definition patch_op :: "string \<Rightarrow> string \<Rightarrow> string \<Rightarrow> batch_op" where
  "patch_op file old new = blank_op\<lparr>bo_op := lit ''patch'', bo_file := lit file, bo_old := Some (lit old),
     bo_new := Some (lit new)\<rparr>"

definition create_op :: "string \<Rightarrow> string \<Rightarrow> batch_op" where
  "create_op file content = blank_op\<lparr>bo_op := lit ''create'', bo_file := lit file, bo_content := Some (lit content)\<rparr>"

definition sample_plan :: "batch_op list" where
  "sample_plan = [patch_op ''x'' ''a'' ''@z'', create_op ''y'' ''c'', patch_op ''x'' ''q'' ''b'']"

definition text_file :: "string \<Rightarrow> file_obj" where
  "text_file s = sample_file\<lparr>fo_bytes := str_bytes (lit s)\<rparr>"

definition sample_files :: "rstr \<Rightarrow> target" where
  "sample_files p = (if p = lit ''x'' then Some (text_file ''a'') else if p = lit ''z'' then Some (text_file ''d'') else None)"

definition plain_params :: write_params where
  "plain_params = sample_params\<lparr>wp_cas := False\<rparr>"

text \<open>What the files hold after a plan, by both ways.\<close>

definition batch_shows :: "batch_op list \<Rightarrow> string list \<Rightarrow> rstr option list option" where
  "batch_shows ops names = map_option (\<lambda>(files, _). map (\<lambda>n. file_text (files (lit n))) names)
     (run_batch sample_batch_env ops plain_params sample_files)"

definition sequence_shows :: "batch_op list \<Rightarrow> string list \<Rightarrow> rstr option list option" where
  "sequence_shows ops names = map_option (\<lambda>(now, _). map (\<lambda>n. now (lit n)) names)
     (sequential_batch sample_batch_env ops (\<lambda>p. file_text (sample_files p)))"

theorem batch_is_sequential_witness:
  "(\<exists>now' rs files'. sequential_batch sample_batch_env sample_plan (\<lambda>p. file_text (sample_files p)) = Some (now', rs) \<and>
      length rs = length sample_plan \<and>
      run_batch sample_batch_env sample_plan plain_params sample_files =
        Some (files', Inr (batch_response sample_plan plain_params rs, rs, failed_total rs = length sample_plan)) \<and>
      (\<forall>p. files' p = (if text_or_empty (now' p) = text_or_empty (file_text (sample_files p)) then sample_files p
         else Some (written_file (be_write sample_batch_env p) (sample_files p) (text_or_empty (now' p)))))) \<and>
   map_option snd (sequential_batch sample_batch_env sample_plan (\<lambda>p. file_text (sample_files p))) =
     Some [Inr 1, Inr 1, Inl (lit ''NO_MATCH '')] \<and>
   sequence_shows sample_plan [''x'', ''y'', ''z''] = Some [Some (lit ''d''), Some (lit ''c''), Some (lit ''d'')]"
proof (intro conjI)
  show "\<exists>now' rs files'. sequential_batch sample_batch_env sample_plan (\<lambda>p. file_text (sample_files p)) = Some (now', rs) \<and>
      length rs = length sample_plan \<and>
      run_batch sample_batch_env sample_plan plain_params sample_files =
        Some (files', Inr (batch_response sample_plan plain_params rs, rs, failed_total rs = length sample_plan)) \<and>
      (\<forall>p. files' p = (if text_or_empty (now' p) = text_or_empty (file_text (sample_files p)) then sample_files p
         else Some (written_file (be_write sample_batch_env p) (sample_files p) (text_or_empty (now' p)))))"
  proof (rule batch_is_sequential)
    show "search_laws sample_batch_env"
      by (simp add: search_laws_def sample_batch_env_def sample_edit_env_laws)
    show "\<forall>p. undisturbed (be_write sample_batch_env p)" by (simp add: sample_batch_env_def quiet_env_undisturbed)
    show "\<not> wp_dry_run plain_params" by (simp add: plain_params_def sample_params_def)
    show "sample_plan \<noteq> []" by (simp add: sample_plan_def)
    show "refs_outside sample_batch_env sample_plan" by code_simp
    show "list_all (\<lambda>op. target_text (sample_files (bo_file op)) \<noteq> None) sample_plan" by code_simp
  qed
  show "map_option snd (sequential_batch sample_batch_env sample_plan (\<lambda>p. file_text (sample_files p))) =
     Some [Inr 1, Inr 1, Inl (lit ''NO_MATCH '')]" by code_simp
  show "sequence_shows sample_plan [''x'', ''y'', ''z''] = Some [Some (lit ''d''), Some (lit ''c''), Some (lit ''d'')]"
    by code_simp
qed

text \<open>A reference to a file of the plan is read when its group is computed, not in its turn: here the last operation
  asks for the text of \<open>x\<close> after the second, and gets the text from before it, because the group of \<open>y\<close> is the
  first one.\<close>

definition stale_plan :: "batch_op list" where
  "stale_plan = [create_op ''y'' ''k'', patch_op ''x'' ''a'' ''b'', patch_op ''y'' ''k'' ''@x'']"

lemma stale_reference:
  "\<not> refs_outside sample_batch_env stale_plan"
  "batch_shows stale_plan [''x'', ''y''] = Some [Some (lit ''b''), Some (lit ''a'')]"
  "sequence_shows stale_plan [''x'', ''y''] = Some [Some (lit ''b''), Some (lit ''b'')]"
  by code_simp+

text \<open>A batch of several files is not atomic: the operations that can be done are, also when others fail.\<close>

lemma batch_not_atomic:
  "batch_shows [patch_op ''x'' ''a'' ''b'', patch_op ''z'' ''q'' ''b''] [''x'', ''z''] =
     Some [Some (lit ''b''), Some (lit ''d'')]"
  by code_simp

end
