(* ===== verification/Rewrite_Rules.thy ===== *)
theory Rewrite_Rules
  imports Command_Prefixes Decimal
begin

text \<open>
  The rule table of the command rewriter and the classification of a command against it
  (\<open>fork-core/rtk/src/discover/rules.rs\<close> and the classification functions of \<open>discover/registry.rs\<close>).

  Regular expressions are the patterns of the source as text; what the regex crate finds for a pattern is an
  argument, as are the other things the rewriter consults: the \<open>PATH\<close> lookup, the configured filters, two
  switches, and whether a \<open>PATH\<close> override still finds the managed executable. Savings in the table are whole
  percentages. Backslashes cannot be written in string literals here; in a pattern \<open>%\<close> stands for one.
\<close>

section \<open>What the rewriter consults\<close>

record rewrite_env =
  rw_gate :: gate_env
  rw_find :: "rstr \<Rightarrow> rstr \<Rightarrow> (nat \<times> nat) option"
  rw_group :: "rstr \<Rightarrow> rstr \<Rightarrow> rstr option"
  rw_replace_all :: "rstr \<Rightarrow> rstr \<Rightarrow> rstr \<Rightarrow> rstr"
  rw_compiles :: "rstr \<Rightarrow> bool"
  rw_escape :: "rstr \<Rightarrow> rstr"
  rw_toml_disabled :: bool
  rw_matches_filter :: "rstr \<Rightarrow> bool"
  rw_gh_pack_json :: bool
  rw_path_finds_rtk :: "rstr \<Rightarrow> bool"

definition pat :: "string \<Rightarrow> rstr" where
  "pat s = map (\<lambda>c. if c = 37 then c_backslash else c) (lit s)"

definition is_match :: "rewrite_env \<Rightarrow> rstr \<Rightarrow> rstr \<Rightarrow> bool" where
  "is_match env p s = (rw_find env p s \<noteq> None)"

text \<open>\<open>Regex::replace(s, "")\<close>: the leftmost match is taken out.\<close>

definition remove_match :: "rewrite_env \<Rightarrow> rstr \<Rightarrow> rstr \<Rightarrow> rstr option" where
  "remove_match env p s =
     (case rw_find env p s of
        None \<Rightarrow> Some s
      | Some (a, b) \<Rightarrow> do { x \<leftarrow> str_upto s a; y \<leftarrow> str_from s b; Some (x @ y) })"

text \<open>What the regex crate documents: a match is a range of the text on character boundaries.\<close>

definition regex_ranges :: "rewrite_env \<Rightarrow> bool" where
  "regex_ranges env \<longleftrightarrow> (\<forall>p s a b. rw_find env p s = Some (a, b) \<longrightarrow>
     (\<exists>x m y. s = x @ m @ y \<and> a = blen x \<and> b = blen x + blen m))"

section \<open>The table\<close>

datatype rtk_status = StatusExisting | StatusPassthrough | StatusNotSupported

record rtk_rule =
  rule_pattern :: rstr
  rule_rtk_cmd :: rstr
  rule_rewrite_prefixes :: "rstr list"
  rule_category :: rstr
  rule_savings_pct :: nat
  rule_subcmd_savings :: "(rstr \<times> nat) list"
  rule_subcmd_status :: "(rstr \<times> rtk_status) list"

definition rule ::
  "string \<Rightarrow> string \<Rightarrow> string list \<Rightarrow> string \<Rightarrow> nat \<Rightarrow> (string \<times> nat) list \<Rightarrow> (string \<times> rtk_status) list \<Rightarrow> rtk_rule" where
  "rule p cmd pres category pct savings statuses =
     \<lparr>rule_pattern = pat p, rule_rtk_cmd = lit cmd, rule_rewrite_prefixes = map lit pres,
      rule_category = lit category, rule_savings_pct = pct,
      rule_subcmd_savings = map (\<lambda>(k, v). (lit k, v)) savings,
      rule_subcmd_status = map (\<lambda>(k, v). (lit k, v)) statuses\<rparr>"

definition rules_1 :: "rtk_rule list" where
  "rules_1 =
     [rule ''^(?:git|yadm)%s+(?:(?:-[Cc])%s+[^[:space:]]+%s+|--[a-z-]+(?:=[^[:space:]]+)?%s+)*(status|log|diff|show|blame|add|commit|push|pull|branch|fetch|stash|worktree|checkout|cherry-pick|remote|merge-base|rev-parse|ls-files|merge|rebase|rm)(%s|$)''
         ''rtk git'' [''git'', ''yadm''] ''Git'' 70 [(''diff'', 80), (''show'', 80), (''blame'', 80), (''add'', 59),
         (''commit'', 59), (''checkout'', 0), (''cherry-pick'', 0), (''remote'', 0), (''merge-base'', 0), (''rev-parse'',
         0), (''ls-files'', 0), (''merge'', 0), (''rebase'', 0), (''rm'', 0)] [(''checkout'', StatusPassthrough),
         (''cherry-pick'', StatusPassthrough), (''remote'', StatusPassthrough), (''merge-base'', StatusPassthrough),
         (''rev-parse'', StatusPassthrough), (''ls-files'', StatusPassthrough), (''merge'', StatusPassthrough),
         (''rebase'', StatusPassthrough), (''rm'', StatusPassthrough)],
      rule ''^gh%s+(pr|issue|run|repo|api|release)(%s|$)''
         ''rtk gh'' [''gh''] ''GitHub'' 82 [(''pr'', 87), (''run'', 82), (''issue'', 80)] [],
      rule ''^glab%s+(mr|issue|ci|pipeline|api|release)(%s|$)''
         ''rtk glab'' [''glab''] ''GitLab'' 82 [(''mr'', 87), (''ci'', 82), (''issue'', 80)] [],
      rule ''^(?:[^[:space:]]+/)?cargo%s+(?:%+[^[:space:]]+%s+)?(build|test|clippy|check|fmt|install|nextest|run)(%s|$)''
         ''rtk cargo'' [''cargo''] ''Cargo'' 80 [(''test'', 90), (''check'', 80), (''run'', 0)] [(''fmt'',
         StatusPassthrough)],
      rule ''^pnpm%s+(?:(?:--filter|-F|--dir|-C)(?:=%S+|%s+%S+)%s+|(?:-r|--recursive|-w|--workspace-root)%s+)*(exec|i|install|list|ls|outdated|run|run-script|test)(%s|$)''
         ''rtk pnpm'' [''pnpm''] ''PackageManager'' 80 [] [],
      rule ''^npm%s+(run|run-script|rum|urn|test)(%s|$)''
         ''rtk npm'' [''npm run-script'', ''npm run'', ''npm rum'', ''npm urn'', ''npm''] ''PackageManager'' 70 [] [],
      rule ''^npx%s+''
         ''rtk npx'' [''npx''] ''PackageManager'' 70 [] [],
      rule ''^bun%s+([^%s]+)(%s|$)''
         ''rtk bun'' [''bun''] ''PackageManager'' 70 [(''--version'', 0), (''-v'', 0), (''install'', 0), (''add'', 0),
         (''remove'', 0), (''update'', 0), (''upgrade'', 0), (''pm'', 0)] [(''--version'', StatusPassthrough), (''-v'',
         StatusPassthrough), (''install'', StatusPassthrough), (''add'', StatusPassthrough), (''remove'',
         StatusPassthrough), (''update'', StatusPassthrough), (''upgrade'', StatusPassthrough), (''pm'',
         StatusPassthrough)],
      rule ''^(cat|head|tail)%s+''
         ''rtk read'' [''cat'', ''head'', ''tail''] ''Files'' 60 [] [],
      rule ''^(?:[^[:space:]]+/)?(grepai|rgai)%s+search(%s|$)''
         ''rtk rgai'' [''grepai search'', ''rgai search''] ''Files'' 85 [] []]"

definition rules_2 :: "rtk_rule list" where
  "rules_2 =
     [rule ''^(?:[^[:space:]]+/)?rgai%s+''
         ''rtk rgai'' [''rgai''] ''Files'' 85 [] [],
      rule ''^(?:[^[:space:]]+/)?grep%s+''
         ''rtk grep'' [''grep''] ''Files'' 75 [] [],
      rule ''^(?:[^[:space:]]+/)?rg%s+''
         ''rtk rg'' [''rg''] ''Files'' 75 [] [],
      rule ''^ls(%s|$)''
         ''rtk ls'' [''ls''] ''Files'' 65 [] [],
      rule ''^tree(%s|$)''
         ''rtk tree'' [''tree''] ''Files'' 65 [] [],
      rule ''^find%s+''
         ''rtk find'' [''find''] ''Files'' 70 [] [],
      rule ''^(((npx|bunx)%s+)?vue-tsc|vue%s+tsc)(%s|$)''
         ''rtk npx vue-tsc'' [''npx vue-tsc'', ''bunx vue-tsc'', ''vue-tsc''] ''Build'' 83 [] [],
      rule ''^((p?np(m|x)|bunx|p?npm%s+(exec|run|run-script)|npm%s+(rum|urn|x)|pnpm%s+dlx|bun%s+x)%s+)?tsc(%s|$)''
         ''rtk tsc'' [''npm exec tsc'', ''npm rum tsc'', ''npm run tsc'', ''npm run-script tsc'', ''npm tsc'',
         ''npm urn tsc'', ''npm x tsc'', ''npx tsc'', ''pnpm dlx tsc'', ''pnpm exec tsc'', ''pnpm run tsc'',
         ''pnpm run-script tsc'', ''pnpm tsc'', ''pnpx tsc'', ''tsc'', ''bunx tsc'', ''bun x tsc''] ''Build'' 83 [] []]"

definition rules_3 :: "rtk_rule list" where
  "rules_3 =
     [rule ''^((p?np(m|x)|bunx|p?npm%s+(exec|run|run-script)|npm%s+(rum|urn|x)|pnpm%s+dlx|bun%s+x)%s+)?(biome|eslint|lint)(%s|$)''
         ''rtk lint'' [''biome'', ''eslint'', ''lint'', ''npm biome'', ''npm eslint'', ''npm exec biome'',
         ''npm exec eslint'', ''npm lint'', ''npm rum biome'', ''npm rum eslint'', ''npm rum lint'', ''npm run biome'',
         ''npm run eslint'', ''npm run lint'', ''npm run-script biome'', ''npm run-script eslint'',
         ''npm run-script lint'', ''npm urn biome'', ''npm urn eslint'', ''npm urn lint'', ''npm x biome'',
         ''npm x eslint'', ''npx biome'', ''npx eslint'', ''npx lint'', ''pnpm biome'', ''pnpm dlx biome'',
         ''pnpm dlx eslint'', ''pnpm eslint'', ''pnpm exec biome'', ''pnpm exec eslint'', ''pnpm lint'',
         ''pnpm run biome'', ''pnpm run eslint'', ''pnpm run lint'', ''pnpm run-script biome'',
         ''pnpm run-script eslint'', ''pnpm run-script lint'', ''pnpx biome'', ''pnpx eslint'', ''pnpx lint'',
         ''bunx eslint'', ''bun x eslint'', ''bunx biome'', ''bun x biome''] ''Build'' 84 [] [],
      rule ''^((p?np(m|x)|bunx|p?npm%s+(exec|run|run-script)|npm%s+(rum|urn|x)|pnpm%s+dlx|bun%s+x)%s+)?prettier(%s|$)''
         ''rtk prettier'' [''npm exec prettier'', ''npm prettier'', ''npm rum prettier'', ''npm run prettier'',
         ''npm run-script prettier'', ''npm urn prettier'', ''npm x prettier'', ''npx prettier'', ''pnpm dlx prettier'',
         ''pnpm exec prettier'', ''pnpm prettier'', ''pnpm run prettier'', ''pnpm run-script prettier'',
         ''pnpx prettier'', ''prettier'', ''bunx prettier'', ''bun x prettier''] ''Build'' 70 [] [],
      rule ''^((p?np(m|x)|bunx|p?npm%s+(exec|run|run-script)|npm%s+(rum|urn|x)|pnpm%s+dlx|bun%s+x)%s+)?next%s+build(%s|$)''
         ''rtk next'' [''next build'', ''npm exec next build'', ''npm next build'', ''npm rum next build'',
         ''npm run next build'', ''npm run-script next build'', ''npm urn next build'', ''npm x next build'',
         ''npx next build'', ''pnpm dlx next build'', ''pnpm exec next build'', ''pnpm next build'',
         ''pnpm run next build'', ''pnpm run-script next build'', ''pnpx next build''] ''Build'' 87 [] []]"

definition rules_4 :: "rtk_rule list" where
  "rules_4 =
     [rule ''^((p?np(m|x)|bunx|p?npm%s+(exec|run|run-script)|npm%s+(rum|urn|x)|pnpm%s+dlx|bun%s+x)%s+)?jest(%s+run)?(%s|$)''
         ''rtk jest'' [''jest run'', ''jest'', ''npm exec jest run'', ''npm exec jest'', ''npm jest run'', ''npm jest'',
         ''npm rum jest run'', ''npm rum jest'', ''npm run jest run'', ''npm run jest'', ''npm run-script jest run'',
         ''npm run-script jest'', ''npm urn jest run'', ''npm urn jest'', ''npm x jest run'', ''npm x jest'',
         ''npx jest run'', ''npx jest'', ''pnpm dlx jest run'', ''pnpm dlx jest'', ''pnpm exec jest run'',
         ''pnpm exec jest'', ''pnpm jest run'', ''pnpm jest'', ''pnpm run jest run'', ''pnpm run jest'',
         ''pnpm run-script jest run'', ''pnpm run-script jest'', ''pnpx jest run'', ''pnpx jest'', ''bunx jest'',
         ''bun x jest''] ''Tests'' 99 [] [],
      rule ''^((p?np(m|x)|bunx|p?npm%s+(exec|run|run-script)|npm%s+(rum|urn|x)|pnpm%s+dlx|bun%s+x)%s+)?vitest(%s+run)?(%s|$)''
         ''rtk vitest'' [''npm exec vitest run'', ''npm exec vitest'', ''npm rum vitest run'', ''npm rum vitest'',
         ''npm run vitest run'', ''npm run vitest'', ''npm run-script vitest run'', ''npm run-script vitest'',
         ''npm urn vitest run'', ''npm urn vitest'', ''npm vitest run'', ''npm vitest'', ''npm x vitest run'',
         ''npm x vitest'', ''npx vitest run'', ''npx vitest'', ''pnpm dlx vitest run'', ''pnpm dlx vitest'',
         ''pnpm exec vitest run'', ''pnpm exec vitest'', ''pnpm run vitest run'', ''pnpm run vitest'',
         ''pnpm run-script vitest run'', ''pnpm run-script vitest'', ''pnpm vitest run'', ''pnpm vitest'',
         ''pnpx vitest run'', ''pnpx vitest'', ''vitest run'', ''vitest'', ''bunx vitest'',
         ''bun x vitest''] ''Tests'' 99 [] [],
      rule ''^((p?np(m|x)|bunx|p?npm%s+(exec|run|run-script)|npm%s+(rum|urn|x)|pnpm%s+dlx|bun%s+x)%s+)?playwright(%s|$)''
         ''rtk playwright'' [''npm exec playwright'', ''npm playwright'', ''npm rum playwright'', ''npm run playwright'',
         ''npm run-script playwright'', ''npm urn playwright'', ''npm x playwright'', ''npx playwright'', ''playwright'',
         ''pnpm dlx playwright'', ''pnpm exec playwright'', ''pnpm playwright'', ''pnpm run playwright'',
         ''pnpm run-script playwright'', ''pnpx playwright'', ''bunx playwright'',
         ''bun x playwright''] ''Tests'' 94 [] [],
      rule ''^((p?np(m|x)|bunx|p?npm%s+(exec|run|run-script)|npm%s+(rum|urn|x)|pnpm%s+dlx|bun%s+x)%s+)?prisma(%s|$)''
         ''rtk prisma'' [''npm exec prisma'', ''npm prisma'', ''npm rum prisma'', ''npm run prisma'',
         ''npm run-script prisma'', ''npm urn prisma'', ''npm x prisma'', ''npx prisma'', ''pnpm dlx prisma'',
         ''pnpm exec prisma'', ''pnpm prisma'', ''pnpm run prisma'', ''pnpm run-script prisma'', ''pnpx prisma'',
         ''prisma'', ''bunx prisma'', ''bun x prisma''] ''Build'' 88 [] []]"

definition rules_5 :: "rtk_rule list" where
  "rules_5 =
     [rule ''^docker%s+(ps|images|logs|run|exec|build|compose%s+(ps|logs|build))(%s|$)''
         ''rtk docker'' [''docker''] ''Infra'' 85 [] [],
      rule ''^kubectl%s+(get|logs|describe|apply)(%s|$)''
         ''rtk kubectl'' [''kubectl''] ''Infra'' 85 [] [],
      rule ''^oc%s+(get|logs|describe|apply|status|adm)(%s|$)''
         ''rtk oc'' [''oc''] ''Infra'' 85 [] [],
      rule ''^tree(%s|$)''
         ''rtk tree'' [''tree''] ''Files'' 70 [] [],
      rule ''^deno%s+(lint|check|test)(%s|$)''
         ''rtk deno'' [''deno''] ''Build'' 60 [] [],
      rule ''^diff%s+''
         ''rtk diff'' [''diff''] ''Files'' 60 [] [],
      rule ''^curl%s+''
         ''rtk curl'' [''curl''] ''Network'' 70 [] [],
      rule ''^ssh%s+''
         ''rtk ssh'' [''ssh''] ''Network'' 75 [] [],
      rule ''^lsof(%s|$)''
         ''rtk lsof'' [''lsof''] ''Network'' 90 [] [],
      rule ''^diff%s+''
         ''rtk diff'' [''diff''] ''Files'' 70 [] [],
      rule ''^wget%s+''
         ''rtk wget'' [''wget''] ''Network'' 65 [] [],
      rule ''^(python3?%s+-m%s+)?mypy(%s|$)''
         ''rtk mypy'' [''python3 -m mypy'', ''python -m mypy'', ''mypy''] ''Build'' 80 [] [],
      rule ''^ruff%s+(check|format)(%s|$)''
         ''rtk ruff'' [''ruff''] ''Python'' 80 [(''check'', 80), (''format'', 75)] [],
      rule ''^(python[0-9.]*%s+-m%s+)?pytest(%s|$)''
         ''rtk pytest'' [''python3 -m pytest'', ''python -m pytest'', ''pytest''] ''Python'' 90 [] [],
      rule ''^(?:[^[:space:]]+/)?(pip3?|uv%s+pip)%s+(list|outdated|install|show|uninstall)(%s|$)''
         ''rtk pip'' [''pip3'', ''pip'', ''uv pip''] ''Python'' 75 [(''list'', 75), (''outdated'', 80)] []]"

definition rules_6 :: "rtk_rule list" where
  "rules_6 =
     [rule ''^go%s+(test|build|vet)(%s|$)''
         ''rtk go'' [''go''] ''Go'' 85 [(''test'', 90), (''build'', 80), (''vet'', 75)] [],
      rule ''^(?:golangci-lint|golangci)%s+(run)(?:%s|$)''
         ''rtk golangci-lint run'' [''golangci-lint run'', ''golangci run''] ''Go'' 85 [] [],
      rule ''^bundle%s+(install|update)%b''
         ''rtk bundle'' [''bundle''] ''Ruby'' 70 [] [],
      rule ''^(?:bundle%s+exec%s+)?(?:bin/)?(?:rake|rails)%s+test(%s|$)''
         ''rtk rake'' [''bundle exec rails'', ''bundle exec rake'', ''bin/rails'', ''rails'',
         ''rake''] ''Ruby'' 85 [(''test'', 90)] [],
      rule ''^(?:bundle%s+exec%s+)?rspec(?:%s|$)''
         ''rtk rspec'' [''bundle exec rspec'', ''bin/rspec'', ''rspec''] ''Tests'' 65 [] [],
      rule ''^(?:bundle%s+exec%s+)?rubocop(?:%s|$)''
         ''rtk rubocop'' [''bundle exec rubocop'', ''rubocop''] ''Build'' 65 [] [],
      rule ''^aws%s+''
         ''rtk aws'' [''aws''] ''Infra'' 80 [(''sts'', 80), (''s3'', 60), (''ec2'', 85), (''ecs'', 90), (''rds'', 80),
         (''cloudformation'', 90), (''logs'', 88), (''lambda'', 90), (''iam'', 85), (''dynamodb'', 70), (''s3api'', 75),
         (''eks'', 87), (''sqs'', 78), (''secretsmanager'', 75)] [],
      rule ''^psql(%s|$)''
         ''rtk psql'' [''psql''] ''Infra'' 75 [] [],
      rule ''^ansible-playbook%b''
         ''rtk ansible-playbook'' [''ansible-playbook''] ''Infra'' 70 [] [],
      rule ''^brew%s+(install|upgrade)%b''
         ''rtk brew'' [''brew''] ''PackageManager'' 65 [] [],
      rule ''^composer%s+(install|update|require)%b''
         ''rtk composer'' [''composer''] ''PackageManager'' 65 [] [],
      rule ''^df(%s|$)''
         ''rtk df'' [''df''] ''System'' 60 [] [],
      rule ''^dotnet%s+build%b''
         ''rtk dotnet'' [''dotnet''] ''Build'' 70 [] []]"

definition rules_7 :: "rtk_rule list" where
  "rules_7 =
     [rule ''^du%b''
         ''rtk du'' [''du''] ''System'' 60 [] [],
      rule ''^fail2ban-client%b''
         ''rtk fail2ban-client'' [''fail2ban-client''] ''Infra'' 60 [] [],
      rule ''^gcloud%b''
         ''rtk gcloud'' [''gcloud''] ''Infra'' 65 [] [],
      rule ''^(?:%./gradlew|gradlew%.bat|gradlew|gradle)(?:%s+(test|build|clean|assemble%w*|install%w*|check|lint%w*|dependencies))?(%s|$)''
         ''rtk gradlew'' [''./gradlew'', ''gradlew.bat'', ''gradlew'', ''gradle''] ''Build'' 75 [(''test'', 90),
         (''build'', 80), (''check'', 80)] [],
      rule ''^hadolint%b''
         ''rtk hadolint'' [''hadolint''] ''Build'' 65 [] [],
      rule ''^helm%b''
         ''rtk helm'' [''helm''] ''Infra'' 65 [] [],
      rule ''^iptables%b''
         ''rtk iptables'' [''iptables''] ''Infra'' 60 [] [],
      rule ''^make%b''
         ''rtk make'' [''make''] ''Build'' 65 [] [],
      rule ''^markdownlint%b''
         ''rtk markdownlint'' [''markdownlint''] ''Build'' 65 [] [],
      rule ''^mix%s+(compile|format)(%s|$)''
         ''rtk mix'' [''mix''] ''Build'' 65 [] [],
      rule ''^(?:%./mvnw|mvnw%.cmd|mvnw|mvn)%b(?:%s+%S+)*?%s+(compile|test|integration-test|package|install|verify|deploy)%b''
         ''rtk mvn'' [''./mvnw'', ''mvnw.cmd'', ''mvnw'', ''mvn''] ''Build'' 82 [] [],
      rule ''^ping%b''
         ''rtk ping'' [''ping''] ''Network'' 60 [] [],
      rule ''^pio%s+run(%s|$)''
         ''rtk pio'' [''pio''] ''Build'' 65 [] [],
      rule ''^poetry%s+(install|lock|update)%b''
         ''rtk poetry'' [''poetry''] ''Python'' 65 [] [],
      rule ''^pre-commit%b''
         ''rtk pre-commit'' [''pre-commit''] ''Build'' 65 [] []]"

definition rules_8 :: "rtk_rule list" where
  "rules_8 =
     [rule ''^ps(%s|$)''
         ''rtk ps'' [''ps''] ''System'' 60 [] [],
      rule ''^quarto%s+render(%s|$)''
         ''rtk quarto'' [''quarto''] ''Build'' 65 [] [],
      rule ''^rsync%b''
         ''rtk rsync'' [''rsync''] ''Network'' 65 [] [],
      rule ''^shellcheck%b''
         ''rtk shellcheck'' [''shellcheck''] ''Build'' 65 [] [],
      rule ''^shopify%s+theme%s+(push|pull)(%s|$)''
         ''rtk shopify'' [''shopify''] ''Build'' 65 [] [],
      rule ''^sops%b''
         ''rtk sops'' [''sops''] ''Infra'' 60 [] [],
      rule ''^swift%s+(build|test)%b''
         ''rtk swift'' [''swift''] ''Build'' 65 [(''test'', 90)] [],
      rule ''^systemctl%s+status%b''
         ''rtk systemctl'' [''systemctl''] ''System'' 65 [] [],
      rule ''^terraform%s+plan(%s|$)''
         ''rtk terraform'' [''terraform''] ''Infra'' 70 [] [],
      rule ''^tofu%s+(fmt|init|plan|validate)(%s|$)''
         ''rtk tofu'' [''tofu''] ''Infra'' 70 [] [],
      rule ''^trunk%s+build(%s|$)''
         ''rtk trunk'' [''trunk''] ''Build'' 65 [] [],
      rule ''^uv%s+(sync|pip%s+install)%b''
         ''rtk uv'' [''uv''] ''Python'' 65 [] [],
      rule ''^yamllint%b''
         ''rtk yamllint'' [''yamllint''] ''Build'' 65 [] [],
      rule ''^wc(%s|$)''
         ''rtk wc'' [''wc''] ''Files'' 60 [] [],
      rule ''^gt%s+''
         ''rtk gt'' [''gt''] ''Git'' 70 [] []]"

definition rules_9 :: "rtk_rule list" where
  "rules_9 =
     [rule ''^liquibase(?:%s|$)''
         ''rtk liquibase'' [''liquibase''] ''Infra'' 65 [] []]"

definition RULES :: "rtk_rule list" where
  "RULES = rules_1 @ rules_2 @ rules_3 @ rules_4 @ rules_5 @ rules_6 @ rules_7 @ rules_8 @ rules_9"

definition IGNORED_PREFIXES :: "rstr list" where
  "IGNORED_PREFIXES =
     [lit ''#'', lit ''cd '', lit ''cd'' @ [c_tab], lit ''echo '', lit ''printf '', lit ''export '', lit ''source '',
      lit ''mkdir '', lit ''rm '', lit ''mv '', lit ''cp '', lit ''chmod '', lit ''chown '', lit ''touch '',
      lit ''which '', lit ''type '', lit ''test '', lit ''true'', lit ''false'', lit ''sleep '', lit ''wait'',
      lit ''kill '', lit ''set '', lit ''unset '', lit ''sort '', lit ''uniq '', lit ''tr '', lit ''cut '',
      lit ''awk '', lit ''sed '', lit ''python3 -c'', lit ''python -c'', lit ''node -e'', lit ''ruby -e'',
      lit ''rtk '', lit ''pwd'', lit ''bash '', lit ''sh '', lit ''then'' @ [c_newline], lit ''then '',
      lit ''else'' @ [c_newline], lit ''else '', lit ''do'' @ [c_newline], lit ''do '', lit ''for '', lit ''while '',
      lit ''if '', lit ''case '']"

definition IGNORED_EXACT :: "rstr list" where
  "IGNORED_EXACT = [lit ''cd'', lit ''echo'', lit ''true'', lit ''false'', lit ''wait'', lit ''pwd'', lit ''bash'',
     lit ''sh'', lit ''fi'', lit ''done'']"

definition RTK_META_COMMANDS :: "rstr list" where
  "RTK_META_COMMANDS = [lit ''gain'', lit ''discover'', lit ''learn'', lit ''init'', lit ''config'', lit ''proxy'',
     lit ''hook-audit'', lit ''cc-economics'', lit ''write'', lit ''read'', lit ''rgai'', lit ''memory'',
     lit ''smart'', lit ''summary'', lit ''rewrite'', lit ''pipe'', lit ''trust'', lit ''untrust'', lit ''verify'']"

section \<open>Normalization\<close>

definition ENV_PREFIX :: rstr where
  \<open>ENV_PREFIX = pat ''^(?:sudo%s+|(?:(?:/usr)?/bin/)?env%s+|[A-Z_][A-Z0-9_]*=(?:"(?:[^"%%]|%%.)*"|'(?:[^'%%]|%%.)*'|[^%s]*)%s+)+''\<close>

definition GIT_GLOBAL_OPT :: rstr where
  "GIT_GLOBAL_OPT = pat ''^(?:(?:-C%s+%S+|-c%s+%S+|--git-dir(?:=%S+|%s+%S+)|--work-tree(?:=%S+|%s+%S+)|--no-pager|--no-optional-locks|--bare|--literal-pathspecs)%s+)+''"

definition strip_git_global_opts :: "rewrite_env \<Rightarrow> rstr \<Rightarrow> rstr option" where
  "strip_git_global_opts env cmd =
     (case strip_prefix cmd (lit ''git '') of
        None \<Rightarrow> Some cmd
      | Some after_git \<Rightarrow> do { stripped \<leftarrow> remove_match env GIT_GLOBAL_OPT after_git; Some (lit ''git '' @ trim stripped) })"

text \<open>Words with their byte ranges.\<close>

fun token_spans_loop :: "rstr \<Rightarrow> nat \<Rightarrow> (nat \<times> rstr) option \<Rightarrow> (rstr \<times> nat \<times> nat) list" where
  "token_spans_loop [] pos st = (case st of None \<Rightarrow> [] | Some (a, w) \<Rightarrow> [(w, a, pos)])"
| "token_spans_loop (c # s) pos st =
     (if is_whitespace c
      then (case st of None \<Rightarrow> token_spans_loop s (pos + len_utf8 c) None
            | Some (a, w) \<Rightarrow> (w, a, pos) # token_spans_loop s (pos + len_utf8 c) None)
      else token_spans_loop s (pos + len_utf8 c)
             (case st of None \<Rightarrow> Some (pos, [c]) | Some (a, w) \<Rightarrow> Some (a, w @ [c])))"

definition split_token_spans :: "rstr \<Rightarrow> (rstr \<times> nat \<times> nat) list" where
  "split_token_spans cmd = token_spans_loop cmd 0 None"

definition GOLANGCI_GLOBAL_OPT_WITH_VALUE :: "rstr list" where
  "GOLANGCI_GLOBAL_OPT_WITH_VALUE = [lit ''-c'', lit ''--color'', lit ''--config'', lit ''--cpu-profile-path'',
     lit ''--mem-profile-path'', lit ''--trace-path'']"

definition split_golangci_flag_name :: "rstr \<Rightarrow> rstr option" where
  "split_golangci_flag_name arg =
     (if starts_with arg (lit ''--'')
      then Some (case split_once (\<lambda>c. c = c_eq) arg of Some (flag, _) \<Rightarrow> flag | None \<Rightarrow> arg)
      else if starts_with arg [c_minus] then Some arg else None)"

definition golangci_flag_takes_separate_value :: "rstr \<Rightarrow> rstr \<Rightarrow> bool" where
  "golangci_flag_takes_separate_value arg flag =
     (flag \<in> set GOLANGCI_GLOBAL_OPT_WITH_VALUE \<and> \<not> (starts_with arg (lit ''--'') \<and> c_eq \<in> set arg))"

text \<open>The loop over the words after the program; the segments before and from \<open>run\<close>.\<close>

fun golangci_scan ::
  "rstr \<Rightarrow> nat \<Rightarrow> bool \<Rightarrow> (rstr \<times> nat \<times> nat) list \<Rightarrow> (rstr \<times> rstr) option option" where
  "golangci_scan cmd start_offset is_first [] = Some None"
| "golangci_scan cmd start_offset is_first ((tok, a, b) # ts) =
     (if tok = lit ''--'' then Some None
      else if \<not> starts_with tok [c_minus]
      then (if tok = lit ''run''
            then do {
              global_segment \<leftarrow> (if is_first then Some [] else map_option trim (str_slice cmd start_offset a));
              run_segment \<leftarrow> str_from cmd a;
              Some (Some (global_segment, trim run_segment))
            }
            else Some None)
      else if (case split_golangci_flag_name tok of Some flag \<Rightarrow> golangci_flag_takes_separate_value tok flag | None \<Rightarrow> False)
      then (case ts of [] \<Rightarrow> Some None | _ # ts' \<Rightarrow> golangci_scan cmd start_offset False ts')
      else golangci_scan cmd start_offset False ts)"

definition parse_golangci_run_parts :: "rstr \<Rightarrow> (rstr \<times> rstr) option option" where
  "parse_golangci_run_parts cmd =
     (case split_token_spans cmd of
        [] \<Rightarrow> Some None
      | (w, _) # ts \<Rightarrow>
          if w \<noteq> lit ''golangci-lint'' \<and> w \<noteq> lit ''golangci'' then Some None
          else (case ts of [] \<Rightarrow> Some None | (_, a, _) # _ \<Rightarrow> golangci_scan cmd a True ts))"

definition strip_golangci_global_opts :: "rstr \<Rightarrow> rstr option" where
  "strip_golangci_global_opts cmd =
     map_option (\<lambda>parts. case parts of Some (_, run_segment) \<Rightarrow> lit ''golangci-lint '' @ run_segment | None \<Rightarrow> cmd)
       (parse_golangci_run_parts cmd)"

definition strip_absolute_path :: "rewrite_env \<Rightarrow> rstr \<Rightarrow> rstr" where
  "strip_absolute_path env cmd =
     (let first_word = takeWhile (\<lambda>c. c \<noteq> c_space) cmd; rest = dropWhile (\<lambda>c. c \<noteq> c_space) cmd
      in if starts_with first_word [c_slash]
         then (let basename = last (split_on (\<lambda>c. c = c_slash) first_word)
               in if basename = [] \<or> \<not> absolute_matches_path_executable (rw_gate env) first_word basename
                  then cmd else basename @ rest)
         else cmd)"

text \<open>The first word, or the first two when the second looks like a subcommand.\<close>

definition extract_base_command :: "rstr \<Rightarrow> rstr" where
  "extract_base_command cmd =
     (let word = takeWhile (\<lambda>c. \<not> is_whitespace c); first_word = word cmd; after = dropWhile (\<lambda>c. \<not> is_whitespace c) cmd
      in if after = [] then cmd
         else let second = word (tl after)
              in if \<not> starts_with second [c_minus] \<and> c_slash \<notin> set second \<and> c_dot \<notin> set second
                 then first_word @ takeWhile is_whitespace after @ word (dropWhile is_whitespace after)
                 else first_word)"

section \<open>Classification\<close>

datatype classification = Supported rstr rstr nat rtk_status | Unsupported rstr | Ignored

text \<open>\<open>REGEX_SET.matches\<close>: the indices of the rules that match; the last one counts.\<close>

definition matching_rules :: "rewrite_env \<Rightarrow> rstr \<Rightarrow> nat list" where
  "matching_rules env cmd = filter (\<lambda>i. is_match env (rule_pattern (RULES ! i)) cmd) [0..<length RULES]"

definition rule_class :: "rewrite_env \<Rightarrow> rtk_rule \<Rightarrow> rstr \<Rightarrow> classification" where
  "rule_class env r cmd =
     (let (savings, status) =
        (case rw_group env (rule_pattern r) cmd of
           Some sub \<Rightarrow>
             (case map_of (rule_subcmd_savings r) sub of Some pct \<Rightarrow> pct | None \<Rightarrow> rule_savings_pct r,
              case map_of (rule_subcmd_status r) sub of Some st \<Rightarrow> st | None \<Rightarrow> StatusExisting)
         | None \<Rightarrow> (rule_savings_pct r, StatusExisting))
      in Supported (rule_rtk_cmd r) (rule_category r) savings status)"

definition reads_with_redirect :: "rstr \<Rightarrow> bool" where
  "reads_with_redirect cmd =
     ((starts_with cmd (lit ''cat '') \<or> starts_with cmd (lit ''head '') \<or> starts_with cmd (lit ''tail '')) \<and>
      list_ex (\<lambda>t. starts_with t [c_gt] \<or> t = [c_lt] \<or> starts_with t [c_gt, c_gt]) (drop 1 (split_whitespace cmd)))"

definition normalize_for_rules :: "rewrite_env \<Rightarrow> rstr \<Rightarrow> rstr option" where
  "normalize_for_rules env cmd = do {
     x \<leftarrow> strip_git_global_opts env (strip_absolute_path env cmd);
     strip_golangci_global_opts x
   }"

definition classify_command :: "rewrite_env \<Rightarrow> rstr \<Rightarrow> classification option" where
  "classify_command env cmd =
     (let trimmed = trim cmd
      in if trimmed = [] \<or> trimmed \<in> set IGNORED_EXACT \<or> list_ex (starts_with trimmed) IGNORED_PREFIXES
         then Some Ignored
         else do {
           stripped \<leftarrow> remove_match env ENV_PREFIX trimmed;
           (if trim stripped = [] then Some Ignored
            else do {
              clean \<leftarrow> normalize_for_rules env (trim stripped);
              Some (if reads_with_redirect clean
                    then Unsupported (case split_whitespace clean of w # _ \<Rightarrow> w | [] \<Rightarrow> lit ''cat'')
                    else if matching_rules env clean \<noteq> []
                    then rule_class env (RULES ! last (matching_rules env clean)) clean
                    else let base = extract_base_command clean
                         in if base = [] then Ignored else Unsupported base)
            })
         })"

definition existing_route :: "rewrite_env \<Rightarrow> rstr \<Rightarrow> (rstr \<times> rstr) option option" where
  "existing_route env cmd =
     map_option (\<lambda>c. case c of Supported rtk_equivalent category _ StatusExisting \<Rightarrow> Some (rtk_equivalent, category)
                 | _ \<Rightarrow> None) (classify_command env cmd)"

text \<open>Whether the command has an environment prefix that turns the rewriter off.\<close>

definition strip_disabled_prefix :: "rewrite_env \<Rightarrow> rstr \<Rightarrow> (rstr \<times> rstr) option" where
  "strip_disabled_prefix env cmd = do {
     stripped \<leftarrow> remove_match env ENV_PREFIX (trim cmd);
     prefix_part \<leftarrow> str_upto (trim cmd) (blen (trim cmd) - blen stripped);
     rest \<leftarrow> str_from (trim cmd) (blen (trim cmd) - blen stripped);
     Some (prefix_part, trim rest)
   }"

definition prefix_contains_rtk_disabled :: "rstr \<Rightarrow> bool" where
  "prefix_contains_rtk_disabled prefix_part = str_contains prefix_part (lit ''RTK_DISABLED='')"

definition cmd_has_rtk_disabled_prefix :: "rewrite_env \<Rightarrow> rstr \<Rightarrow> bool option" where
  "cmd_has_rtk_disabled_prefix env cmd = map_option (prefix_contains_rtk_disabled \<circ> fst) (strip_disabled_prefix env cmd)"

section \<open>Exclusions\<close>

datatype exclude_pattern = ExcludeRegex rstr | ExcludePrefix rstr

definition compile_exclude_pattern :: "rewrite_env \<Rightarrow> rstr \<Rightarrow> exclude_pattern option" where
  "compile_exclude_pattern env pattern =
     (let trimmed = trim pattern
      in if trimmed = [] \<or> trimmed = lit ''^'' then None
         else let anchored = (if starts_with trimmed (lit ''^'') then trimmed
                else lit ''^'' @ rw_escape env trimmed @ pat ''($|%s)'')
              in Some (if rw_compiles env anchored then ExcludeRegex anchored else ExcludePrefix trimmed))"

definition compile_exclude_patterns :: "rewrite_env \<Rightarrow> rstr list \<Rightarrow> exclude_pattern list" where
  "compile_exclude_patterns env patterns = List.map_filter (compile_exclude_pattern env) patterns"

definition is_excluded :: "rewrite_env \<Rightarrow> rstr \<Rightarrow> exclude_pattern list \<Rightarrow> bool" where
  "is_excluded env cmd excluded =
     list_ex (\<lambda>p. case p of ExcludeRegex re \<Rightarrow> is_match env re cmd | ExcludePrefix pre \<Rightarrow> starts_with cmd pre) excluded"

section \<open>Privileges\<close>

text \<open>The words a privilege may hide behind are assignments and \<open>env\<close>.\<close>

fun privilege_scan :: "rstr list \<Rightarrow> rstr option" where
  "privilege_scan [] = None"
| "privilege_scan (word # ws) =
     (let base = last (split_on (\<lambda>c. c = c_slash) word)
      in if base \<in> {lit ''sudo'', lit ''doas'', lit ''pkexec''} then Some base
         else if (case split_once (\<lambda>c. c = c_eq) word of
                    Some (name, _) \<Rightarrow> name \<noteq> [] \<and> \<not> list_ex is_whitespace name
                  | None \<Rightarrow> False) \<or> base = lit ''env''
         then privilege_scan ws
         else None)"

definition privilege_prefix :: "rstr \<Rightarrow> rstr option" where
  "privilege_prefix cmd = privilege_scan (split_whitespace cmd)"

section \<open>Redirects at the end\<close>

text \<open>Walking back from the last token: the offset of the first token of the trailing redirects.\<close>

fun trailing_redirects :: "parsed_token list \<Rightarrow> nat option \<Rightarrow> nat option" where
  "trailing_redirects [] boundary = boundary"
| "trailing_redirects (t # ts) boundary =
     (if tok_kind t = Redirect then trailing_redirects ts (Some (tok_offset t))
      else if tok_kind t = Arg
      then (case ts of
              r # ts' \<Rightarrow> if tok_kind r = Redirect then trailing_redirects ts' (Some (tok_offset r)) else boundary
            | [] \<Rightarrow> boundary)
      else boundary)"

definition strip_trailing_redirects :: "rstr \<Rightarrow> (rstr \<times> rstr) option" where
  "strip_trailing_redirects cmd =
     (case trailing_redirects (rev (tokenize cmd)) None of
        None \<Rightarrow> Some (cmd, [])
      | Some boundary \<Rightarrow> do {
          front \<leftarrow> str_upto cmd boundary;
          let cmd_part = trim_end front;
          redir_part \<leftarrow> str_from cmd (blen cmd_part);
          Some (cmd_part, redir_part)
        })"

definition has_heredoc :: "rstr \<Rightarrow> bool" where
  "has_heredoc cmd = list_ex (\<lambda>t. tok_kind t = Redirect \<and> starts_with (tok_value t) (lit ''<<'')) (tokenize cmd)"

definition split_command_chain :: "rstr \<Rightarrow> rstr list option" where
  "split_command_chain cmd =
     (let trimmed = trim cmd
      in if trimmed = [] then Some []
         else if has_heredoc trimmed \<or> str_contains trimmed (lit ''$(('') then Some [trimmed]
         else split_on_operators trimmed True)"

end
