(* ===== verification/Rewrite_Reads.thy ===== *)
theory Rewrite_Reads
  imports Rewrite_Rules
begin

text \<open>
  Commands the rewriter turns into typed ones by reading their words: bounded reads of one file (\<open>head\<close>,
  \<open>tail\<close>, \<open>sed -n\<close>, \<open>nl -ba\<close>, \<open>cat\<close> into \<open>head\<close>), one \<open>SELECT\<close> of \<open>sqlite3\<close>, listings of \<open>tar\<close> and remote
  \<open>docker logs\<close> (\<open>discover/registry.rs\<close>, with the validators of \<open>sqlite_cmd.rs\<close>, \<open>tar_cmd.rs\<close> and
  \<open>remote_logs_cmd.rs\<close>, all under \<open>fork-core/rtk/src\<close>).
\<close>

section \<open>One file operand\<close>

definition quoted_literal :: "rchar \<Rightarrow> rstr \<Rightarrow> bool" where
  "quoted_literal q word =
     (blen word \<ge> 2 \<and> starts_with word [q] \<and> ends_with word [q] \<and> q \<notin> set (tl (butlast word)))"

definition is_name_byte :: "rchar \<Rightarrow> bool" where
  "is_name_byte c = (is_ascii_alphanumeric c \<or> c = c_underscore)"

definition is_operand_char :: "rchar \<Rightarrow> bool" where
  "is_operand_char c = (is_ascii_alphanumeric c \<or>
     c \<in> {c_dot, c_underscore, c_slash, c_minus, c_tilde, c_plus, 64, c_colon, 44, c_eq} \<or> c \<ge> 128)"

text \<open>The walk over an unquoted word; \<open>$NAME\<close> and \<open>${NAME}\<close> are allowed.\<close>

function operand_chars :: "rstr \<Rightarrow> bool" where
  "operand_chars [] = True"
| "operand_chars (c # s) =
     (if c = c_dollar
      then (if starts_with s [c_lbrace]
            then (let name = takeWhile (\<lambda>d. d \<noteq> c_rbrace) (tl s); rest = dropWhile (\<lambda>d. d \<noteq> c_rbrace) (tl s)
                  in rest \<noteq> [] \<and> name \<noteq> [] \<and> list_all is_name_byte name \<and> operand_chars (tl rest))
            else operand_chars s)
      else is_operand_char c \<and> operand_chars s)"
  by pat_completeness auto
termination
  by (relation "measure length")
    (auto simp: le_imp_less_Suc le_trans [OF diff_le_self] le_trans [OF length_dropWhile_le])

definition is_single_file_operand :: "rstr \<Rightarrow> bool" where
  "is_single_file_operand word =
     (if word = [] \<or> starts_with word [c_minus] \<or> starts_with word [c_hash] then False
      else if quoted_literal c_squote word then True
      else if quoted_literal c_dquote word then c_backslash \<notin> set (tl (butlast word))
      else operand_chars word)"

section \<open>Bounded reads\<close>

definition decimal_line_count :: "rstr \<Rightarrow> rstr option" where
  "decimal_line_count v = (if v \<noteq> [] \<and> list_all is_ascii_digit v then Some v else None)"

fun first_stripped :: "rstr \<Rightarrow> rstr list \<Rightarrow> rstr option" where
  "first_stripped s [] = None"
| "first_stripped s (p # ps) = (case strip_prefix s p of Some r \<Rightarrow> Some r | None \<Rightarrow> first_stripped s ps)"

definition parse_line_count :: "rstr \<Rightarrow> rstr option" where
  "parse_line_count flag = Option.bind (first_stripped flag [lit ''--lines='', [c_minus]]) decimal_line_count"

definition head_tail_operands :: "rstr list \<Rightarrow> (rstr \<times> rstr) option" where
  "head_tail_operands rest =
     (case rest of
        [file_word] \<Rightarrow> Some (lit ''10'', file_word)
      | [flag, file_word] \<Rightarrow> do {
          count \<leftarrow> first_stripped flag [lit ''--lines='', lit ''-n'', [c_minus]];
          lines \<leftarrow> decimal_line_count count;
          Some (lines, file_word)
        }
      | [flag, count, file_word] \<Rightarrow>
          if flag = lit ''-n'' \<or> flag = lit ''--lines''
          then map_option (\<lambda>lines. (lines, file_word)) (decimal_line_count count)
          else None
      | _ \<Rightarrow> None)"

definition head_tail_window :: "rstr \<Rightarrow> rstr option" where
  "head_tail_window tool =
     (if tool = lit ''head'' then Some (lit ''--head-lines'')
      else if tool = lit ''tail'' then Some (lit ''--tail-lines'') else None)"

definition rewrite_head_tail :: "rstr list \<Rightarrow> rstr option \<Rightarrow> rstr option" where
  "rewrite_head_tail words path =
     (case words of
        [] \<Rightarrow> None
      | tool # rest \<Rightarrow> do {
          window \<leftarrow> head_tail_window tool;
          (lines, file_word) \<leftarrow> head_tail_operands rest;
          let operand = (case path of Some p \<Rightarrow> p | None \<Rightarrow> file_word);
          (if is_single_file_operand operand
           then Some (lit ''rtk read '' @ operand @ [c_space] @ window @ [c_space] @ lines) else None)
        })"

definition parse_sed_read_span :: "rstr \<Rightarrow> (rstr \<times> rstr) option" where
  "parse_sed_read_span v = do {
     body \<leftarrow> strip_suffix v (lit ''p'');
     (from_text, to) \<leftarrow> split_once (\<lambda>c. c = 44) body;
     from_line \<leftarrow> parse_usize from_text;
     to_line \<leftarrow> parse_usize to;
     (if from_line > 0 \<and> from_line \<le> to_line then Some (from_text, to) else None)
   }"

definition span_text :: "rstr \<Rightarrow> nat \<times> nat \<Rightarrow> rstr option" where
  "span_text cmd span = str_slice cmd (fst span) (snd span)"

text \<open>The text of the last shell word.\<close>

definition last_word_text :: "rstr \<Rightarrow> rstr option option" where
  "last_word_text cmd =
     (case shell_word_spans cmd of [] \<Rightarrow> Some None | spans \<Rightarrow> map_option Some (span_text cmd (last spans)))"

definition plain_or_variable :: "parsed_token \<Rightarrow> bool" where
  "plain_or_variable t = (tok_kind t = Arg \<or>
     (tok_kind t = Shellism \<and> starts_with (tok_value t) [c_dollar] \<and> \<not> starts_with (tok_value t) (lit ''$('')))"

definition sed_or_nl_read :: "rstr list \<Rightarrow> rstr option \<Rightarrow> rstr option" where
  "sed_or_nl_read words path =
     (let operand = (\<lambda>file_word. case path of Some p \<Rightarrow> p | None \<Rightarrow> file_word)
      in case words of
           [tool, flag, span, file_word] \<Rightarrow>
             if tool = lit ''sed'' \<and> flag = lit ''-n''
             then map_option (\<lambda>(a, b). lit ''rtk read '' @ operand file_word @ lit '' --from '' @ a @ lit '' --to '' @ b)
                    (parse_sed_read_span span)
             else None
         | [tool, flag, file_word] \<Rightarrow>
             if tool = lit ''nl'' \<and> flag = lit ''-ba'' then Some (lit ''rtk read '' @ operand file_word @ lit '' -n'') else None
         | _ \<Rightarrow> None)"

definition rewrite_line_range :: "rstr \<Rightarrow> rstr option option" where
  "rewrite_line_range cmd =
     (if starts_with cmd (lit ''head'') \<or> starts_with cmd (lit ''tail'')
      then (if list_all plain_or_variable (tokenize cmd)
            then map_option (rewrite_head_tail (shell_split cmd)) (last_word_text cmd)
            else Some None)
      else if list_all (\<lambda>t. tok_kind t = Arg) (tokenize cmd)
      then map_option (sed_or_nl_read (shell_split cmd)) (last_word_text cmd)
      else Some None)"

section \<open>Bounded pipelines\<close>

definition consumer_window :: "rstr \<Rightarrow> rstr \<Rightarrow> rstr list \<Rightarrow> rstr option" where
  "consumer_window file_text window args =
     (let bounded = map_option (\<lambda>lines. lit ''rtk read '' @ file_text @ [c_space] @ window @ [c_space] @ lines)
      in case args of
           [flag] \<Rightarrow> bounded (parse_line_count flag)
         | [flag, lines] \<Rightarrow>
             if flag = lit ''-n'' \<or> flag = lit ''--lines'' then bounded (decimal_line_count lines) else None
         | _ \<Rightarrow> None)"

definition consumer_read :: "rstr \<Rightarrow> rstr list \<Rightarrow> rstr option" where
  "consumer_read file_text words =
     (case words of
        [] \<Rightarrow> None
      | tool # args \<Rightarrow>
          if tool = lit ''cat'' \<and> args = [] then Some (lit ''rtk read '' @ file_text)
          else if tool = lit ''head'' then consumer_window file_text (lit ''--head-lines'') args
          else if tool = lit ''tail'' then consumer_window file_text (lit ''--tail-lines'') args
          else None)"

definition rewrite_bounded_read_pipeline :: "rewrite_env \<Rightarrow> rstr \<Rightarrow> rstr option option" where
  "rewrite_bounded_read_pipeline env command =
     (let tokens = tokenize command; pipes = filter (\<lambda>t. tok_kind t = Pipe PipeStdout) tokens
      in case pipes of
           [pipe] \<Rightarrow>
             if list_ex (\<lambda>t. tok_kind t \<in> {Operator, Redirect, Pipe PipeStdoutAndStderr}) tokens then Some None
             else do {
               producer_text \<leftarrow> str_upto command (tok_offset pipe);
               consumer_text \<leftarrow> str_from command (tok_offset pipe + blen (tok_value pipe));
               let producer = trim producer_text;
               (case shell_split (strip_absolute_path env producer) of
                  [w0, w1] \<Rightarrow>
                    if w0 \<noteq> lit ''cat'' \<or> w1 = [c_minus] \<or> length (shell_word_spans producer) < 2 then Some None
                    else do {
                      file_text \<leftarrow> span_text producer (shell_word_spans producer ! 1);
                      Some (if is_single_file_operand file_text
                            then consumer_read file_text (shell_split (strip_absolute_path env (trim consumer_text)))
                            else None)
                    }
                | _ \<Rightarrow> Some None)
             }
         | _ \<Rightarrow> Some None)"

section \<open>Queries and listings\<close>

definition ascii_lower :: "rstr \<Rightarrow> rstr" where
  "ascii_lower s = map (\<lambda>c. if is_ascii_uppercase c then c + 32 else c) s"

text \<open>A call of a function: the name, not preceded by an identifier character, then \<open>(\<close>.\<close>

fun contains_call_from :: "rchar option \<Rightarrow> rstr \<Rightarrow> rstr \<Rightarrow> bool" where
  "contains_call_from prev [] function_name = False"
| "contains_call_from prev (c # s) function_name =
     (if starts_with (c # s) function_name
      then (let after = drop (length function_name - 1) s
            in \<not> (case prev of Some d \<Rightarrow> d = c_underscore \<or> is_ascii_alphanumeric d | None \<Rightarrow> False) \<and>
                 starts_with (trim_start after) [c_lparen] \<or>
               contains_call_from (Some (last function_name)) after function_name)
      else contains_call_from (Some c) s function_name)"

definition contains_function_call :: "rstr \<Rightarrow> rstr \<Rightarrow> bool" where
  "contains_function_call query function_name = contains_call_from None query function_name"

definition ascii_words :: "rstr \<Rightarrow> rstr list" where
  "ascii_words s = filter (\<lambda>w. w \<noteq> []) (split_on is_ascii_whitespace s)"

definition validate_single_select :: "rstr \<Rightarrow> bool" where
  "validate_single_select raw =
     (let q = trim raw; query = trim_end (case strip_suffix q [c_semi] of Some r \<Rightarrow> r | None \<Rightarrow> q); lowercase = ascii_lower query
      in query \<noteq> [] \<and> c_semi \<notin> set query \<and>
         (case ascii_words query of w # _ \<Rightarrow> ascii_lower w = lit ''select'' | [] \<Rightarrow> False) \<and>
         \<not> str_contains lowercase (lit ''--'') \<and> \<not> str_contains lowercase (lit ''/*'') \<and>
         \<not> list_ex (contains_function_call lowercase)
           [lit ''load_extension'', lit ''writefile'', lit ''readfile'', lit ''fts3_tokenizer'', lit ''zipfile'',
            lit ''fsdir'', lit ''edit''])"

definition rewrite_sqlite_select :: "rewrite_env \<Rightarrow> rstr \<Rightarrow> rstr option" where
  "rewrite_sqlite_select env command =
     (let words = shell_split command; spans = shell_word_spans command
      in if words = [] \<or> executable_name (rw_gate env) (hd words) \<noteq> lit ''sqlite3'' then None
         else let i = (if length words > 1 \<and> words ! 1 = lit ''-readonly'' then 2 else 1)
              in if length words \<noteq> i + 2 \<or> words ! i = [] \<or> starts_with (words ! i) [c_minus] \<or>
                    \<not> validate_single_select (words ! (i + 1)) then None
                 else if length spans \<le> i + 1 then None
                 else do {
                   database \<leftarrow> span_text command (spans ! i);
                   query \<leftarrow> span_text command (spans ! (i + 1));
                   Some (lit ''rtk sqlite3 '' @ database @ [c_space] @ query @ lit '' --max-rows 50 --max-tokens 2048'')
                 })"

definition valid_short_cluster :: "rstr \<Rightarrow> bool" where
  "valid_short_cluster flags = list_all (\<lambda>c. c \<in> set (lit ''tzvf'')) flags"

text \<open>The loop over the arguments of \<open>tar\<close>: whether it lists and whether an archive was named. A flag that
  takes the archive consumes the next word.\<close>

fun listing_loop :: "bool \<Rightarrow> rstr list \<Rightarrow> bool \<Rightarrow> bool \<Rightarrow> bool" where
  "listing_loop is_first [] listing archive = (listing \<and> archive)"
| "listing_loop is_first (arg # args) listing archive =
     (let named = (\<lambda>listing'. case args of
            v # args' \<Rightarrow> if starts_with v [c_minus] then False else listing_loop False args' listing' True
          | [] \<Rightarrow> False)
      in if is_first \<and> \<not> starts_with arg [c_minus]
         then (if \<not> valid_short_cluster arg then False
               else if 102 \<in> set arg then named (listing \<or> 116 \<in> set arg)
               else listing_loop False args (listing \<or> 116 \<in> set arg) archive)
         else if arg = lit ''--list'' then listing_loop False args True archive
         else if arg = lit ''--gzip'' \<or> arg = lit ''--verbose'' then listing_loop False args listing archive
         else (case strip_prefix arg (lit ''--file='') of
                 Some path \<Rightarrow> listing_loop False args listing (path \<noteq> [])
               | None \<Rightarrow>
                   if arg = lit ''--file'' then named listing
                   else (case strip_prefix arg [c_minus] of
                           Some flags \<Rightarrow>
                             if flags = [] \<or> \<not> valid_short_cluster flags then False
                             else if 102 \<in> set flags then named (listing \<or> 116 \<in> set flags)
                             else listing_loop False args (listing \<or> 116 \<in> set flags) archive
                         | None \<Rightarrow> if \<not> archive then False else listing_loop False args listing archive)))"

definition validate_listing :: "rstr list \<Rightarrow> bool" where
  "validate_listing args = (args \<noteq> [] \<and> listing_loop True args False False)"

definition rewrite_tar_listing :: "rewrite_env \<Rightarrow> rstr \<Rightarrow> rstr option" where
  "rewrite_tar_listing env command =
     (let words = shell_split command
      in if length words < 3 \<or> executable_name (rw_gate env) (hd words) \<noteq> lit ''tar'' \<or> \<not> validate_listing (tl words)
         then None
         else (case filter (\<lambda>t. tok_kind t = Arg) (tokenize command) of
                 _ # t # _ \<Rightarrow> map_option (\<lambda>s. lit ''rtk tar --max-entries 100 '' @ trim s) (str_from command (tok_offset t))
               | _ \<Rightarrow> None))"

definition validate_safe_value :: "rstr \<Rightarrow> rstr \<Rightarrow> bool" where
  "validate_safe_value v punctuation =
     (v \<noteq> [] \<and> \<not> starts_with v [c_minus] \<and> list_all (\<lambda>c. is_ascii_alphanumeric c \<or> c \<in> set punctuation) v)"

record logs_args =
  la_tail :: "rstr option"
  la_since :: "rstr option"
  la_timestamps :: bool

text \<open>The loop over the options; the last word is the container.\<close>

fun logs_loop :: "rstr list \<Rightarrow> logs_args \<Rightarrow> (logs_args \<times> rstr) option" where
  "logs_loop [] st = None"
| "logs_loop [container] st = Some (st, container)"
| "logs_loop (w # v # ws) st =
     (if (w = lit ''--tail'' \<or> w = lit ''-n'') \<and> la_tail st = None then logs_loop ws (st\<lparr>la_tail := Some v\<rparr>)
      else if starts_with w (lit ''--tail='') \<and> la_tail st = None
      then logs_loop (v # ws) (st\<lparr>la_tail := strip_prefix w (lit ''--tail='')\<rparr>)
      else if w = lit ''--since'' \<and> la_since st = None then logs_loop ws (st\<lparr>la_since := Some v\<rparr>)
      else if starts_with w (lit ''--since='') \<and> la_since st = None
      then logs_loop (v # ws) (st\<lparr>la_since := strip_prefix w (lit ''--since='')\<rparr>)
      else if (w = lit ''--timestamps'' \<or> w = lit ''-t'') \<and> \<not> la_timestamps st
      then logs_loop (v # ws) (st\<lparr>la_timestamps := True\<rparr>)
      else None)"

definition logs_command :: "rstr \<Rightarrow> logs_args \<Rightarrow> rstr \<Rightarrow> rstr" where
  "logs_command host st container =
     lit ''rtk logs '' @ host @ [c_space] @ container @ lit '' --tail '' @
       (case la_tail st of Some t \<Rightarrow> t | None \<Rightarrow> lit ''100'') @
     (case la_since st of Some s \<Rightarrow> lit '' --since '' @ s | None \<Rightarrow> []) @
     (if la_timestamps st then lit '' --timestamps'' else [])"

definition rewrite_remote_docker_logs :: "rewrite_env \<Rightarrow> rstr \<Rightarrow> rstr option" where
  "rewrite_remote_docker_logs env command =
     (let words = shell_split command
      in if length words < 5 \<or> executable_name (rw_gate env) (hd words) \<noteq> lit ''ssh'' \<or>
            words ! 2 \<noteq> lit ''docker'' \<or> words ! 3 \<noteq> lit ''logs'' \<or> \<not> validate_safe_value (words ! 1) (lit ''._@:-'')
         then None
         else (case logs_loop (drop 4 words) \<lparr>la_tail = None, la_since = None, la_timestamps = False\<rparr> of
                 None \<Rightarrow> None
               | Some (st, container) \<Rightarrow>
                   if (case parse_usize (case la_tail st of Some t \<Rightarrow> t | None \<Rightarrow> lit ''100'') of
                         Some n \<Rightarrow> 1 \<le> n \<and> n \<le> 1000 | None \<Rightarrow> False) \<and>
                      validate_safe_value container (lit ''_.-'') \<and>
                      (case la_since st of Some s \<Rightarrow> validate_safe_value s (lit ''_.:+-TZ'') | None \<Rightarrow> True)
                   then Some (logs_command (words ! 1) st container)
                   else None))"

definition rewrite_typed_gap :: "rewrite_env \<Rightarrow> rstr \<Rightarrow> rstr option" where
  "rewrite_typed_gap env command =
     (case rewrite_sqlite_select env command of
        Some r \<Rightarrow> Some r
      | None \<Rightarrow> (case rewrite_tar_listing env command of
          Some r \<Rightarrow> Some r
        | None \<Rightarrow> rewrite_remote_docker_logs env command))"

end
