(* ===== verification/Rewrite_Segment.thy ===== *)
theory Rewrite_Segment
  imports Rewrite_Reads
begin

text \<open>
  Rewriting one segment of a command (\<open>rewrite_segment_inner\<close> of
  \<open>fork-core/rtk/src/discover/registry.rs\<close>): prefixes are peeled, the rest is routed, and the prefixes are put
  back. A script behind \<open>-c\<close> is rewritten by the rewriter itself, which is an argument here
  (\<open>rewrite_script\<close>). The outer option is a panic, the inner one the function's own \<open>None\<close>.
\<close>

type_synonym rewriting = "rstr option option"

definition map_rewriting :: "(rstr \<Rightarrow> rstr) \<Rightarrow> rewriting \<Rightarrow> rewriting" where
  "map_rewriting f r = map_option (map_option f) r"

lemma map_rewriting_simps [simp]:
  "map_rewriting f None = None" "map_rewriting f (Some None) = Some None" "map_rewriting f (Some (Some x)) = Some (Some (f x))"
  by (simp_all add: map_rewriting_def)

lemma map_rewriting_Some: "map_rewriting f r = Some (Some y) \<longleftrightarrow> (\<exists>x. r = Some (Some x) \<and> y = f x)"
  by (auto simp: map_rewriting_def)

lemma map_rewriting_None: "map_rewriting f r = None \<longleftrightarrow> r = None"
  by (simp add: map_rewriting_def)

datatype rewrite_context = NormalContext | PipelineFinal | PipelineProducer

section \<open>Rules\<close>

definition search_uses_pattern_file :: "rstr \<Rightarrow> bool" where
  "search_uses_pattern_file cmd =
     list_ex (\<lambda>arg. arg = lit ''--file'' \<or> starts_with arg (lit ''--file='') \<or>
       (case strip_prefix arg [c_minus] of
          Some flags \<Rightarrow> \<not> starts_with flags [c_minus] \<and> 102 \<in> set flags
        | None \<Rightarrow> False))
       (takeWhile (\<lambda>arg. arg \<noteq> lit ''--'') (drop 1 (shell_split cmd)))"

definition rule_pipeline_final_safe :: "rstr \<Rightarrow> bool" where
  "rule_pipeline_final_safe rtk_cmd = (rtk_cmd = lit ''rtk grep'' \<or> rtk_cmd = lit ''rtk rg'')"

definition pipeline_final_command_is_safe :: "rstr \<Rightarrow> rstr \<Rightarrow> bool" where
  "pipeline_final_command_is_safe rtk_cmd cmd =
     (\<not> (rtk_cmd = lit ''rtk grep'' \<or> rtk_cmd = lit ''rtk rg'') \<or> \<not> search_uses_pattern_file cmd)"

text \<open>No character outside ASCII has one of the letters of these options as its lower case.\<close>

definition gh_structured :: "rewrite_env \<Rightarrow> rstr \<Rightarrow> bool" where
  "gh_structured env cmd =
     (let args_lower = ascii_lower cmd
      in str_contains args_lower (lit ''--jq'') \<or> str_contains args_lower (lit ''--template'') \<or>
         (str_contains args_lower (lit ''--json'') \<and> (\<not> rw_gh_pack_json env \<or> c_gt \<in> set cmd)))"

definition runner_command :: "rtk_rule \<Rightarrow> rstr \<Rightarrow> rstr" where
  "runner_command r pre =
     (case strip_prefix (rule_rtk_cmd r) (lit ''rtk '') of
        Some tool \<Rightarrow>
          if starts_with pre (lit ''bunx '') \<or> starts_with pre (lit ''bun x '')
          then lit ''rtk --js-runner bunx '' @ tool else rule_rtk_cmd r
      | None \<Rightarrow> rule_rtk_cmd r)"

fun rewrite_by_prefix :: "rtk_rule \<Rightarrow> rstr list \<Rightarrow> rstr \<Rightarrow> rstr \<Rightarrow> rstr option" where
  "rewrite_by_prefix r [] cmd redirect_suffix = None"
| "rewrite_by_prefix r (p # ps) cmd redirect_suffix =
     (case strip_word_prefix cmd p of
        Some rest \<Rightarrow>
          Some (if rest = [] then runner_command r p @ redirect_suffix
                else runner_command r p @ [c_space] @ rest @ redirect_suffix)
      | None \<Rightarrow> rewrite_by_prefix r ps cmd redirect_suffix)"

text \<open>The golangci form leaves the redirects out.\<close>

definition apply_rule ::
  "rewrite_env \<Rightarrow> rewrite_context \<Rightarrow> rstr \<Rightarrow> rstr \<Rightarrow> rstr \<Rightarrow> rewriting" where
  "apply_rule env context cmd redirect_suffix rtk_equivalent =
     (case find (\<lambda>r. rule_rtk_cmd r = rtk_equivalent) RULES of
        None \<Rightarrow> Some None
      | Some r \<Rightarrow>
          if context = PipelineFinal \<and>
             (\<not> rule_pipeline_final_safe (rule_rtk_cmd r) \<or> \<not> pipeline_final_command_is_safe (rule_rtk_cmd r) cmd)
          then Some None
          else if context = PipelineProducer \<and> rule_rtk_cmd r = lit ''rtk read'' then Some None
          else do {
            parts \<leftarrow> parse_golangci_run_parts cmd;
            Some (case parts of
                Some (global_segment, run_segment) \<Rightarrow>
                  Some (if global_segment = [] then lit ''rtk golangci-lint '' @ run_segment
                        else lit ''rtk golangci-lint '' @ global_segment @ [c_space] @ run_segment)
              | None \<Rightarrow>
                  if rule_rtk_cmd r = lit ''rtk gh'' \<and> gh_structured env cmd then None
                  else rewrite_by_prefix r (rule_rewrite_prefixes r) cmd redirect_suffix)
          })"

definition rewrite_classified ::
  "rewrite_env \<Rightarrow> exclude_pattern list \<Rightarrow> rewrite_context \<Rightarrow> rstr \<Rightarrow> rstr \<Rightarrow> rewriting" where
  "rewrite_classified env excluded context cmd redirect_suffix = do {
     class \<leftarrow> classify_command env cmd;
     (case class of
        Supported rtk_equivalent _ _ _ \<Rightarrow> do {
          stripped \<leftarrow> remove_match env ENV_PREFIX cmd;
          (if is_excluded env (trim stripped) excluded then Some None
           else apply_rule env context cmd redirect_suffix rtk_equivalent)
        }
      | Unsupported _ \<Rightarrow>
          let normalized = strip_absolute_path env (trim cmd);
              base = (case split_whitespace normalized of w # _ \<Rightarrow> w | [] \<Rightarrow> [])
          in Some (if context = PipelineFinal \<or> rw_toml_disabled env \<or> is_excluded env normalized excluded \<or>
                      base \<in> set RTK_META_COMMANDS \<or> \<not> rw_matches_filter env normalized
                   then None else Some (lit ''rtk '' @ cmd @ redirect_suffix))
      | Ignored \<Rightarrow> Some None)
   }"

section \<open>Routing a bare command\<close>

text \<open>Forms of \<open>cat\<close> that \<open>rtk read\<close> cannot stand for.\<close>

definition cat_not_readable :: "rstr \<Rightarrow> bool option" where
  "cat_not_readable cmd =
     (case strip_prefix cmd (lit ''cat '') of
        None \<Rightarrow> Some False
      | Some cmd_args \<Rightarrow>
          let args = trim_start cmd_args
          in if starts_with args [c_minus] \<and> \<not> starts_with args (lit ''-n '') \<and> \<not> starts_with args (lit ''-n'' @ [c_tab])
             then Some True
             else map_option (\<lambda>words. length (filter (\<lambda>w. w \<noteq> lit ''-n'') words) \<noteq> 1)
                    (map_m (span_text args) (shell_word_spans args)))"

definition reads_lines :: "rstr \<Rightarrow> bool" where
  "reads_lines cmd = (starts_with cmd (lit ''head '') \<or> starts_with cmd (lit ''tail '') \<or>
     starts_with cmd (lit ''sed -n '') \<or> starts_with cmd (lit ''nl -ba ''))"

definition rewrite_plain ::
  "rewrite_env \<Rightarrow> exclude_pattern list \<Rightarrow> rewrite_context \<Rightarrow> rstr \<Rightarrow> rstr \<Rightarrow> rewriting" where
  "rewrite_plain env excluded context cmd redirect_suffix =
     (case rewrite_typed_gap env cmd of
        Some rewritten \<Rightarrow> Some (Some (rewritten @ redirect_suffix))
      | None \<Rightarrow>
          if context = NormalContext \<and> reads_lines cmd
          then (if is_excluded env (trim cmd) excluded then Some None
                else map_rewriting (\<lambda>r. r @ redirect_suffix) (rewrite_line_range cmd))
          else do {
            skip \<leftarrow> cat_not_readable cmd;
            (if skip then Some None else rewrite_classified env excluded context cmd redirect_suffix)
          })"

definition is_rtk :: "rstr \<Rightarrow> bool" where
  "is_rtk cmd = (starts_with cmd (lit ''rtk '') \<or> cmd = lit ''rtk'')"

text \<open>A segment without prefixes: redirects at the end are set aside, then a script, an \<open>rtk\<close> command or a
  command to route.\<close>

definition rewrite_core ::
  "rewrite_env \<Rightarrow> (rstr \<Rightarrow> rewriting) \<Rightarrow> exclude_pattern list \<Rightarrow> rewrite_context \<Rightarrow> rstr \<Rightarrow> rewriting" where
  "rewrite_core env rewrite_script excluded context trimmed = do {
     (cmd_part, redirect_suffix) \<leftarrow> strip_trailing_redirects trimmed;
     wrapper \<leftarrow> parse_shell_command_wrapper cmd_part;
     (case wrapper of
        Parsed payload \<Rightarrow> do {
          r \<leftarrow> rewrite_script (payload_command payload);
          (case r of
             None \<Rightarrow> Some None
           | Some rewritten \<Rightarrow> map_option (\<lambda>s. Some (s @ redirect_suffix)) (replace_in payload cmd_part rewritten))
        }
      | Ambiguous \<Rightarrow> Some None
      | NotWrapper \<Rightarrow>
          if is_rtk cmd_part then Some (Some trimmed)
          else rewrite_plain env excluded context (strip_absolute_path env cmd_part) redirect_suffix)
   }"

section \<open>Prefixes\<close>

definition max_prefix_depth :: nat where
  "max_prefix_depth = 10"

fun strip_first_prefix :: "rstr \<Rightarrow> rstr list \<Rightarrow> (rstr \<times> rstr) option" where
  "strip_first_prefix cmd [] = None"
| "strip_first_prefix cmd (p # ps) =
     (case strip_word_prefix cmd p of Some rest \<Rightarrow> Some (p, rest) | None \<Rightarrow> strip_first_prefix cmd ps)"

text \<open>What is peeled from a command: the text put back in front and the rest; a refusal; or nothing.\<close>

datatype peel = PeelRefuse | Peeled rstr rstr | PeelNone

definition peel_prefix :: "rewrite_env \<Rightarrow> rstr list \<Rightarrow> rstr \<Rightarrow> peel option" where
  "peel_prefix env transparent_prefixes trimmed = do {
     (env_prefix, rest_after_env) \<leftarrow> strip_disabled_prefix env trimmed;
     (if env_prefix \<noteq> []
      then Some (if prefix_contains_rtk_disabled env_prefix then PeelRefuse else Peeled env_prefix rest_after_env)
      else do {
        ep \<leftarrow> execution_prefix (rw_gate env) trimmed;
        Some (case ep of
            Some (p, rest) \<Rightarrow> Peeled (p @ [c_space]) rest
          | None \<Rightarrow>
              (case strip_first_prefix trimmed (builtin_transparent_prefixes @ transparent_prefixes) of
                 Some (p, rest) \<Rightarrow> if rest = [] then PeelRefuse else Peeled (p @ [c_space]) rest
               | None \<Rightarrow> PeelNone))
      })
   }"

text \<open>The recursion over the prefixes, with the depth that is left.\<close>

primrec rewrite_segment_loop ::
  "rewrite_env \<Rightarrow> (rstr \<Rightarrow> rewriting) \<Rightarrow> exclude_pattern list \<Rightarrow> rstr list \<Rightarrow> rewrite_context \<Rightarrow> nat \<Rightarrow> rstr \<Rightarrow>
   rewriting" where
  "rewrite_segment_loop env rewrite_script excluded transparent_prefixes context 0 seg = Some None"
| "rewrite_segment_loop env rewrite_script excluded transparent_prefixes context (Suc n) seg =
     (let trimmed = trim seg
      in if trimmed = [] \<or> privilege_prefix trimmed \<noteq> None then Some None
         else do {
           p \<leftarrow> peel_prefix env transparent_prefixes trimmed;
           (case p of
              PeelRefuse \<Rightarrow> Some None
            | Peeled front rest \<Rightarrow>
                map_rewriting ((@) front)
                  (rewrite_segment_loop env rewrite_script excluded transparent_prefixes context n rest)
            | PeelNone \<Rightarrow> rewrite_core env rewrite_script excluded context trimmed)
         })"

definition rewrite_segment_inner ::
  "rewrite_env \<Rightarrow> (rstr \<Rightarrow> rewriting) \<Rightarrow> exclude_pattern list \<Rightarrow> rstr list \<Rightarrow> rewrite_context \<Rightarrow> nat \<Rightarrow> rstr \<Rightarrow>
   rewriting" where
  "rewrite_segment_inner env rewrite_script excluded transparent_prefixes context depth seg =
     rewrite_segment_loop env rewrite_script excluded transparent_prefixes context (max_prefix_depth - depth) seg"

definition rewrite_segment ::
  "rewrite_env \<Rightarrow> (rstr \<Rightarrow> rewriting) \<Rightarrow> exclude_pattern list \<Rightarrow> rstr list \<Rightarrow> rstr \<Rightarrow> rewriting" where
  "rewrite_segment env rewrite_script excluded transparent_prefixes seg =
     rewrite_segment_inner env rewrite_script excluded transparent_prefixes NormalContext 0 seg"

end
