(* ===== verification/Rewrite_Command.thy ===== *)
theory Rewrite_Command
  imports Rewrite_Segment
begin

text \<open>
  The rewriter of whole commands (\<open>fork-core/rtk/src/discover/registry.rs\<close>): compound commands and pipelines,
  blocks of lines, and the outcome with its policy checks. Offsets are byte offsets of tokens; a slice that is
  not on character boundaries would be the outer \<open>None\<close>, a panic.
\<close>

section \<open>Compound commands\<close>

text \<open>The trimmed text of \<open>cmd[a..b]\<close> replaced, the white space around it kept.\<close>

definition splice_text :: "rstr \<Rightarrow> nat \<Rightarrow> nat \<Rightarrow> rstr \<Rightarrow> rstr option" where
  "splice_text cmd a b rewritten = do {
     region \<leftarrow> str_slice cmd a b;
     let lead = blen region - blen (trim_start region);
     let body_end = max (blen (trim_end region)) lead;
     front \<leftarrow> str_upto region lead;
     back \<leftarrow> str_from region body_end;
     Some (front @ rewritten @ back)
   }"

record pipeline_analysis =
  pa_end_offset :: nat
  pa_next_clause_offset :: "nat option"
  pa_final_stage_start :: "nat option"
  pa_all_consumers_safe :: bool

definition is_safe_pipe_consumer :: "rstr \<Rightarrow> bool" where
  "is_safe_pipe_consumer stage =
     (case split_whitespace stage of w # _ \<Rightarrow> w \<in> {lit ''head'', lit ''tail'', lit ''cat''} | [] \<Rightarrow> False)"

definition is_background :: "parsed_token \<Rightarrow> bool" where
  "is_background t = (tok_kind t = Shellism \<and> tok_value t = lit ''&'')"

definition is_pipe :: "parsed_token \<Rightarrow> bool" where
  "is_pipe t = (case tok_kind t of Pipe _ \<Rightarrow> True | _ \<Rightarrow> False)"

definition is_clause_end :: "parsed_token \<Rightarrow> bool" where
  "is_clause_end t = (tok_kind t = Operator \<or> is_background t)"

record stage_state =
  ss_stage_start :: nat
  ss_final_stage_start :: "nat option"
  ss_supported :: bool
  ss_safe :: bool

text \<open>The loop over the tokens of a pipeline.\<close>

fun stage_loop :: "rstr \<Rightarrow> nat \<Rightarrow> nat \<Rightarrow> parsed_token list \<Rightarrow> stage_state \<Rightarrow> stage_state option" where
  "stage_loop cmd first_pipe end_offset [] st = Some st"
| "stage_loop cmd first_pipe end_offset (t # ts) st =
     (if tok_offset t \<ge> end_offset then Some st
      else if tok_offset t < first_pipe then stage_loop cmd first_pipe end_offset ts st
      else case tok_kind t of
        Redirect \<Rightarrow> stage_loop cmd first_pipe end_offset ts (st\<lparr>ss_safe := False\<rparr>)
      | Pipe kind \<Rightarrow> do {
          stage \<leftarrow> str_slice cmd (ss_stage_start st) (tok_offset t);
          stage_loop cmd first_pipe end_offset ts
            (st\<lparr>ss_supported := ss_supported st \<and> trim stage \<noteq> [] \<and> kind \<noteq> PipeStdoutAndStderr,
                ss_safe := ss_safe st \<and> (tok_offset t \<le> first_pipe \<or> is_safe_pipe_consumer (trim stage)),
                ss_stage_start := tok_end t, ss_final_stage_start := Some (tok_end t)\<rparr>)
        }
      | _ \<Rightarrow> stage_loop cmd first_pipe end_offset ts st)"

definition analyze_pipeline :: "rstr \<Rightarrow> parsed_token list \<Rightarrow> nat \<Rightarrow> nat \<Rightarrow> pipeline_analysis option" where
  "analyze_pipeline cmd tokens segment_start first_pipe =
     (let next_clause = map_option tok_offset (find (\<lambda>t. tok_offset t > first_pipe \<and> is_clause_end t) tokens);
          end_offset = (case next_clause of Some n \<Rightarrow> n | None \<Rightarrow> blen cmd)
      in do {
        st \<leftarrow> stage_loop cmd first_pipe end_offset tokens
          \<lparr>ss_stage_start = segment_start, ss_final_stage_start = None, ss_supported = True, ss_safe = True\<rparr>;
        final_stage \<leftarrow> str_slice cmd (ss_stage_start st) end_offset;
        let supported = (ss_supported st \<and> trim final_stage \<noteq> []);
        let safe = (ss_safe st \<and> (trim final_stage = [] \<or> is_safe_pipe_consumer (trim final_stage)));
        Some \<lparr>pa_end_offset = end_offset, pa_next_clause_offset = next_clause,
              pa_final_stage_start = (if supported then ss_final_stage_start st else None),
              pa_all_consumers_safe = (supported \<and> safe)\<rparr>
      })"

text \<open>The rewriter of segments, in a context.\<close>

type_synonym segment_rewriter = "rewrite_context \<Rightarrow> rstr \<Rightarrow> rewriting"

definition rewrite_pipeline_final_stage ::
  "segment_rewriter \<Rightarrow> rstr \<Rightarrow> nat \<Rightarrow> pipeline_analysis \<Rightarrow> rewriting" where
  "rewrite_pipeline_final_stage rewrite cmd segment_start analysis =
     (case pa_final_stage_start analysis of
        None \<Rightarrow> Some None
      | Some final_stage_start \<Rightarrow> do {
          region \<leftarrow> str_slice cmd final_stage_start (pa_end_offset analysis);
          r \<leftarrow> rewrite PipelineFinal (trim region);
          (case r of
             None \<Rightarrow> Some None
           | Some rewritten \<Rightarrow>
               if rewritten = trim region then Some None
               else do {
                 front \<leftarrow> str_slice cmd segment_start final_stage_start;
                 stage \<leftarrow> splice_text cmd final_stage_start (pa_end_offset analysis) rewritten;
                 Some (Some (front @ stage))
               })
        })"

definition reordering_producers :: "rstr list" where
  "reordering_producers = [lit ''ls'', lit ''find'', lit ''tree'', lit ''wc'', lit ''grep'', lit ''rg'', lit ''du'']"

definition producer_program :: "rewrite_env \<Rightarrow> rstr \<Rightarrow> rstr option" where
  "producer_program env producer = do {
     stripped \<leftarrow> remove_match env ENV_PREFIX producer;
     Some (case shell_split (trim stripped) of w # _ \<Rightarrow> executable_name (rw_gate env) w | [] \<Rightarrow> [])
   }"

definition rewrite_pipeline_producer ::
  "rewrite_env \<Rightarrow> segment_rewriter \<Rightarrow> rstr \<Rightarrow> nat \<Rightarrow> nat \<Rightarrow> pipeline_analysis \<Rightarrow> rewriting" where
  "rewrite_pipeline_producer env rewrite cmd segment_start first_pipe analysis =
     (if \<not> pa_all_consumers_safe analysis then Some None
      else do {
        region \<leftarrow> str_slice cmd segment_start first_pipe;
        program \<leftarrow> producer_program env (trim region);
        (if program \<in> set reordering_producers then Some None
         else do {
           r \<leftarrow> rewrite PipelineProducer (trim region);
           (case r of
              None \<Rightarrow> Some None
            | Some rewritten \<Rightarrow>
                if rewritten = trim region then Some None
                else do {
                  stage \<leftarrow> splice_text cmd segment_start first_pipe rewritten;
                  back \<leftarrow> str_slice cmd first_pipe (pa_end_offset analysis);
                  Some (Some (stage @ back))
                })
         })
      })"

text \<open>A segment of a compound command: its text with the white space around it, and whether it changed.\<close>

definition rewrite_clause :: "segment_rewriter \<Rightarrow> rstr \<Rightarrow> nat \<Rightarrow> nat \<Rightarrow> (rstr \<times> bool) option" where
  "rewrite_clause rewrite cmd a b = do {
     region \<leftarrow> str_slice cmd a b;
     r \<leftarrow> rewrite NormalContext (trim region);
     let rewritten = (case r of Some x \<Rightarrow> x | None \<Rightarrow> trim region);
     out \<leftarrow> splice_text cmd a b rewritten;
     Some (out, rewritten \<noteq> trim region)
   }"

definition rewrite_pipeline ::
  "rewrite_env \<Rightarrow> segment_rewriter \<Rightarrow> rstr \<Rightarrow> nat \<Rightarrow> nat \<Rightarrow> pipeline_analysis \<Rightarrow> (rstr \<times> bool) option" where
  "rewrite_pipeline env rewrite cmd seg_start first_pipe analysis = do {
     final_stage \<leftarrow> rewrite_pipeline_final_stage rewrite cmd seg_start analysis;
     r \<leftarrow> (case final_stage of
        Some x \<Rightarrow> Some (Some x)
      | None \<Rightarrow> rewrite_pipeline_producer env rewrite cmd seg_start first_pipe analysis);
     region \<leftarrow> str_slice cmd seg_start (pa_end_offset analysis);
     Some (case r of Some x \<Rightarrow> (x, True) | None \<Rightarrow> (region, False))
   }"

fun compound_loop ::
  "rewrite_env \<Rightarrow> segment_rewriter \<Rightarrow> rstr \<Rightarrow> parsed_token list \<Rightarrow> parsed_token list \<Rightarrow> nat \<Rightarrow> rstr \<Rightarrow> bool \<Rightarrow> rewriting" where
  "compound_loop env rewrite cmd tokens [] seg_start out changed = do {
     (x, c) \<leftarrow> rewrite_clause rewrite cmd seg_start (blen cmd);
     Some (if changed \<or> c then Some (out @ x) else None)
   }"
| "compound_loop env rewrite cmd tokens (t # ts) seg_start out changed =
     (if tok_offset t < seg_start then compound_loop env rewrite cmd tokens ts seg_start out changed
      else if is_clause_end t then do {
        (x, c) \<leftarrow> rewrite_clause rewrite cmd seg_start (tok_offset t);
        compound_loop env rewrite cmd tokens ts (tok_end t) (out @ x @ tok_value t) (changed \<or> c)
      }
      else if is_pipe t then do {
        analysis \<leftarrow> analyze_pipeline cmd tokens seg_start (tok_offset t);
        (x, c) \<leftarrow> rewrite_pipeline env rewrite cmd seg_start (tok_offset t) analysis;
        (case pa_next_clause_offset analysis of
           Some n \<Rightarrow> compound_loop env rewrite cmd tokens ts n (out @ x) (changed \<or> c)
         | None \<Rightarrow> Some (if changed \<or> c then Some (out @ x) else None))
      }
      else compound_loop env rewrite cmd tokens ts seg_start out changed)"

definition opaque_grouping :: "parsed_token \<Rightarrow> bool" where
  "opaque_grouping t = (tok_kind t = Shellism \<and> tok_value t \<in> {[c_lparen], [c_rparen], [c_lbrace], [c_rbrace]})"

definition rewrite_compound :: "rewrite_env \<Rightarrow> segment_rewriter \<Rightarrow> rstr \<Rightarrow> rewriting" where
  "rewrite_compound env rewrite cmd =
     (let tokens = tokenize cmd
      in if list_ex is_pipe tokens \<and> list_ex opaque_grouping tokens then Some None
         else compound_loop env rewrite cmd tokens tokens 0 [] False)"

section \<open>One command\<close>

text \<open>A script behind \<open>-c\<close> is rewritten as a command of its own. The recursion is on scripts inside scripts,
  each shorter than the one it is in; it is counted by fuel.\<close>

definition has_compound :: "rstr \<Rightarrow> bool" where
  "has_compound s = (str_contains s (lit ''&&'') \<or> str_contains s (lit ''||'') \<or> c_semi \<in> set s \<or> c_pipe \<in> set s \<or>
     str_contains s (lit '' & ''))"

definition rewrite_single_with ::
  "rewrite_env \<Rightarrow> exclude_pattern list \<Rightarrow> rstr list \<Rightarrow> (rstr \<Rightarrow> rewriting) \<Rightarrow> rstr \<Rightarrow> rewriting" where
  "rewrite_single_with env excluded transparent_prefixes rewrite_script trimmed =
     (if \<not> has_compound trimmed \<and> is_rtk trimmed then Some (Some trimmed)
      else do {
        r \<leftarrow> rewrite_bounded_read_pipeline env trimmed;
        (case r of
           Some x \<Rightarrow> Some (Some x)
         | None \<Rightarrow> rewrite_compound env
             (\<lambda>context. rewrite_segment_inner env rewrite_script excluded transparent_prefixes context 0) trimmed)
      })"

primrec rewrite_single_fuel ::
  "nat \<Rightarrow> rewrite_env \<Rightarrow> exclude_pattern list \<Rightarrow> rstr list \<Rightarrow> rstr \<Rightarrow> rewriting" where
  "rewrite_single_fuel 0 env excluded transparent_prefixes trimmed = None"
| "rewrite_single_fuel (Suc n) env excluded transparent_prefixes trimmed =
     rewrite_single_with env excluded transparent_prefixes (rewrite_single_fuel n env excluded transparent_prefixes) trimmed"

definition rewrite_single :: "rewrite_env \<Rightarrow> exclude_pattern list \<Rightarrow> rstr list \<Rightarrow> rstr \<Rightarrow> rewriting" where
  "rewrite_single env excluded transparent_prefixes trimmed =
     rewrite_single_fuel (Suc (length trimmed)) env excluded transparent_prefixes trimmed"

section \<open>Blocks of lines\<close>

text \<open>\<open>QuoteScan\<close>: the bytes it yields, each with its predecessor, its successors and the quote state before
  it.\<close>

record quote_item =
  qi_prev :: "nat option"
  qi_byte :: nat
  qi_next :: "nat list"
  qi_single :: bool
  qi_double :: bool
  qi_offset :: nat

fun quote_items :: "nat \<Rightarrow> nat option \<Rightarrow> nat list \<Rightarrow> bool \<Rightarrow> bool \<Rightarrow> quote_item list" where
  "quote_items i prev [] in_single in_double = []"
| "quote_items i prev (b # bs) in_single in_double =
     (if b = c_backslash \<and> \<not> in_single
      then (case bs of [] \<Rightarrow> [] | b' # bs' \<Rightarrow> quote_items (i + 2) (Some b') bs' in_single in_double)
      else \<lparr>qi_prev = prev, qi_byte = b, qi_next = bs, qi_single = in_single, qi_double = in_double, qi_offset = i\<rparr> #
           quote_items (i + 1) (Some b) bs (toggle_single b in_single in_double) (toggle_double b in_single in_double))"

definition scan_items :: "rstr \<Rightarrow> quote_item list" where
  "scan_items s = quote_items 0 None (as_bytes s) False False"

definition unquoted_item :: "quote_item \<Rightarrow> bool" where
  "unquoted_item q = (\<not> qi_single q \<and> \<not> qi_double q)"

text \<open>The quote state at the end.\<close>

definition scan_balanced :: "rstr \<Rightarrow> bool" where
  "scan_balanced s =
     (case scan_items s of
        [] \<Rightarrow> True
      | items \<Rightarrow>
          let q = last items
          in \<not> toggle_single (qi_byte q) (qi_single q) (qi_double q) \<and>
             \<not> toggle_double (qi_byte q) (qi_single q) (qi_double q))"

definition comment_start :: "rstr \<Rightarrow> nat option" where
  "comment_start line =
     map_option qi_offset (find (\<lambda>q. qi_byte q = c_hash \<and> unquoted_item q \<and>
       (case qi_prev q of None \<Rightarrow> True
        | Some b \<Rightarrow> is_ascii_whitespace b \<or> b \<in> {c_pipe, c_amp, c_semi, c_lparen, c_rparen})) (scan_items line))"

fun grouping_scan :: "quote_item list \<Rightarrow> int \<Rightarrow> int \<Rightarrow> bool" where
  "grouping_scan [] paren brace = (paren \<noteq> 0 \<or> brace \<noteq> 0)"
| "grouping_scan (q # qs) paren brace =
     (if \<not> unquoted_item q then grouping_scan qs paren brace
      else let paren' = (if qi_byte q = c_lparen then paren + 1 else if qi_byte q = c_rparen then paren - 1 else paren);
               brace' = (if qi_byte q = c_lbrace then brace + 1 else if qi_byte q = c_rbrace then brace - 1 else brace)
           in paren' < 0 \<or> brace' < 0 \<or> grouping_scan qs paren' brace')"

definition line_has_unbalanced_grouping :: "rstr \<Rightarrow> bool" where
  "line_has_unbalanced_grouping code = grouping_scan (scan_items code) 0 0"

fun bracket_scan :: "quote_item list \<Rightarrow> int \<Rightarrow> bool" where
  "bracket_scan [] depth = (depth \<noteq> 0)"
| "bracket_scan (q # qs) depth =
     (if unquoted_item q \<and> qi_byte q \<in> {c_lbracket, c_rbracket} \<and>
         (case qi_prev q of None \<Rightarrow> True | Some b \<Rightarrow> is_ascii_whitespace b) \<and>
         (case qi_next q of b # bs \<Rightarrow> b = qi_byte q \<and> (case bs of c # _ \<Rightarrow> is_ascii_whitespace c | [] \<Rightarrow> True) | [] \<Rightarrow> False)
      then (let depth' = depth + (if qi_byte q = c_lbracket then 1 else -1) in depth' < 0 \<or> bracket_scan qs depth')
      else bracket_scan qs depth)"

definition line_has_unbalanced_test_brackets :: "rstr \<Rightarrow> bool" where
  "line_has_unbalanced_test_brackets code = bracket_scan (scan_items code) 0"

datatype line_role = Passive | Independent | ContinuesNext | Unsafe

definition block_keywords :: "rstr list" where
  "block_keywords = [lit ''for'', lit ''while'', lit ''until'', lit ''if'', lit ''then'', lit ''else'', lit ''elif'',
     lit ''fi'', lit ''do'', lit ''done'', lit ''case'', lit ''esac'', lit ''select'', lit ''function'', lit ''coproc'',
     [c_lbrace], [c_rbrace], [c_lparen], [c_rparen]]"

definition continuation_ops :: "rstr list" where
  "continuation_ops = [lit ''&&'', lit ''||'', lit ''|&'', lit ''|'']"

definition classify_line :: "rstr \<Rightarrow> line_role option" where
  "classify_line line =
     (if line = [] \<or> starts_with line [c_hash] then Some Passive
      else do {
        code \<leftarrow> (case comment_start line of None \<Rightarrow> Some line | Some i \<Rightarrow> map_option trim_end (str_upto line i));
        Some (if (case split_whitespace code of w # _ \<Rightarrow> w | [] \<Rightarrow> []) \<in> set block_keywords then Unsafe
              else if list_ex (starts_with code) continuation_ops \<or> starts_with code (lit ''(('') \<or>
                      ends_with code (lit ''))'') \<or> line_has_unbalanced_grouping code \<or>
                      line_has_unbalanced_test_brackets code then Unsafe
              else if list_ex (ends_with code) continuation_ops
              then (if comment_start line \<noteq> None then Unsafe else ContinuesNext)
              else Independent)
      })"

definition newline_offsets :: "rstr \<Rightarrow> nat list" where
  "newline_offsets cmd =
     map tok_offset (filter (\<lambda>t. tok_kind t = Operator \<and> tok_value t = [c_newline]) (tokenize_with_newlines cmd))"

fun raw_breaks :: "nat list \<Rightarrow> nat" where
  "raw_breaks [] = 0"
| "raw_breaks (b # bs) =
     (if b = c_newline \<or> (b = c_return \<and> bs \<noteq> [] \<and> hd bs = c_newline) then 1 else 0) + raw_breaks bs"

text \<open>The lines between the breaks, with their offsets.\<close>

fun block_lines :: "rstr \<Rightarrow> nat \<Rightarrow> nat list \<Rightarrow> (nat \<times> rstr) list option" where
  "block_lines cmd a [] = map_option (\<lambda>s. [(a, s)]) (str_from cmd a)"
| "block_lines cmd a (b # bs) = do {
     s \<leftarrow> str_slice cmd a b;
     rest \<leftarrow> block_lines cmd (b + 1) bs;
     Some ((a, s) # rest)
   }"

text \<open>The last line of the unit that starts at a line: a line that continues takes in the next line that is
  not blank. \<open>None\<close> is the refusal of a continuation into a passive line.\<close>

function unit_end :: "(nat \<times> rstr) list \<Rightarrow> line_role list \<Rightarrow> nat \<Rightarrow> nat option" where
  "unit_end segments roles i =
     (if i < length roles \<and> roles ! i = ContinuesNext
      then (case find (\<lambda>j. trim (snd (segments ! j)) \<noteq> []) [i + 1..<length segments] of
              None \<Rightarrow> Some i
            | Some j \<Rightarrow> if roles ! j = Passive then None else unit_end segments roles j)
      else Some i)"
  by auto
termination
proof (relation "measure (\<lambda>(segments, roles, i). length segments - i)")
  fix segments :: "(nat \<times> rstr) list" and roles :: "line_role list" and i j
  assume "find (\<lambda>j. trim (snd (segments ! j)) \<noteq> []) [i + 1..<length segments] = Some j"
  then have "j \<in> set [i + 1..<length segments]" by (auto simp: find_Some_iff)
  then show "((segments, roles, j), segments, roles, i) \<in> measure (\<lambda>(segments, roles, i). length segments - i)"
    by auto
qed auto

text \<open>One unit: its source, what replaces it, and whether it changed.\<close>

definition rewrite_unit ::
  "(rstr \<Rightarrow> rewriting) \<Rightarrow> rstr \<Rightarrow> (nat \<times> rstr) list \<Rightarrow> nat \<Rightarrow> nat \<Rightarrow> (rstr \<times> bool) option" where
  "rewrite_unit rewrite cmd segments i e = do {
     unit_text \<leftarrow> (if e = i then Some (snd (segments ! i))
       else str_slice cmd (fst (segments ! i)) (fst (segments ! e) + blen (snd (segments ! e))));
     r \<leftarrow> rewrite (trim unit_text);
     (case r of
        Some rewritten \<Rightarrow>
          if rewritten \<noteq> trim unit_text
          then do {
            let line = snd (segments ! i);
            indent \<leftarrow> str_upto line (blen line - blen (trim_start line));
            Some (indent @ rewritten, True)
          }
          else Some (unit_text, False)
      | None \<Rightarrow> Some (unit_text, False))
   }"

text \<open>The loop over the lines, with the lines that are left as fuel: every round moves on.\<close>

primrec block_loop ::
  "(rstr \<Rightarrow> rewriting) \<Rightarrow> rstr \<Rightarrow> nat list \<Rightarrow> (nat \<times> rstr) list \<Rightarrow> line_role list \<Rightarrow> nat \<Rightarrow> nat \<Rightarrow> rstr \<Rightarrow> bool \<Rightarrow>
   rewriting" where
  "block_loop rewrite cmd offsets segments roles 0 i out changed = Some (if changed then Some out else None)"
| "block_loop rewrite cmd offsets segments roles (Suc n) i out changed =
     (if i \<ge> length segments then Some (if changed then Some out else None)
      else do {
        gap \<leftarrow> (if i > 0 then str_slice cmd (offsets ! (i - 1)) (offsets ! (i - 1) + 1) else Some []);
        (if roles ! i = Passive
         then block_loop rewrite cmd offsets segments roles n (i + 1) (out @ gap @ snd (segments ! i)) changed
         else (case unit_end segments roles i of
                 None \<Rightarrow> Some None
               | Some e \<Rightarrow> do {
                   (x, c) \<leftarrow> rewrite_unit rewrite cmd segments i e;
                   block_loop rewrite cmd offsets segments roles n (e + 1) (out @ gap @ x) (changed \<or> c)
                 }))
      })"

definition rewrite_multiline_block :: "(rstr \<Rightarrow> rewriting) \<Rightarrow> rstr \<Rightarrow> rewriting" where
  "rewrite_multiline_block rewrite cmd =
     (let offsets = newline_offsets cmd
      in if ansi_c_quote_defeats_lexer cmd then Some None
         else if raw_breaks (as_bytes cmd) \<noteq> length offsets
         then (if offsets = [] \<and> scan_balanced cmd then rewrite cmd else Some None)
         else do {
           segments \<leftarrow> block_lines cmd 0 offsets;
           roles \<leftarrow> map_m (\<lambda>s. classify_line (trim (snd s))) segments;
           (if Unsafe \<in> set roles then Some None
            else block_loop rewrite cmd offsets segments roles (length segments) 0 [] False)
         })"

section \<open>Whole commands\<close>

definition LINE_CONTINUATION_RE :: rstr where
  "LINE_CONTINUATION_RE = pat ''(?m)[ %t%x0B%x0C]*%%%r?%n[ %t%x0B%x0C]*''"

definition BASH_JOIN_RE :: rstr where
  "BASH_JOIN_RE = pat ''%%%r?%n''"

definition collapse_line_continuations :: "rewrite_env \<Rightarrow> rstr \<Rightarrow> rstr" where
  "collapse_line_continuations env s = rw_replace_all env LINE_CONTINUATION_RE s [c_space]"

definition unrewritable :: "rstr \<Rightarrow> bool" where
  "unrewritable s = (has_heredoc s \<or> str_contains s (lit ''$((''))"

definition rewrite_command_impl :: "rewrite_env \<Rightarrow> rstr \<Rightarrow> rstr list \<Rightarrow> rstr list \<Rightarrow> rewriting" where
  "rewrite_command_impl env cmd excluded transparent_prefixes =
     (let trimmed = trim (collapse_line_continuations env cmd);
          compiled = compile_exclude_patterns env excluded;
          prefixes' = normalize_transparent_prefixes transparent_prefixes
      in if c_backslash \<in> set cmd \<and> unrewritable (rw_replace_all env BASH_JOIN_RE cmd []) then Some None
         else if trimmed = [] \<or> unrewritable trimmed then Some None
         else do {
           to_file \<leftarrow> has_stdout_file_redirect trimmed;
           (if to_file then Some None
            else if c_newline \<in> set trimmed
            then rewrite_multiline_block (rewrite_single env compiled prefixes') trimmed
            else rewrite_single env compiled prefixes' trimmed)
         })"

end
