(* ===== verification/Rewrite_Structure.thy ===== *)
theory Rewrite_Structure
  imports Rewrite_Command
begin

text \<open>
  What rewriting does to the structure of a compound command: it replaces segments and keeps the rest. The
  rewriter of segments is an argument of every statement.
\<close>

section \<open>Boundaries and pieces\<close>

definition boundary_at :: "rstr \<Rightarrow> nat \<Rightarrow> bool" where
  "boundary_at cmd n \<longleftrightarrow> (\<exists>p q. cmd = p @ q \<and> n = blen p)"

lemma boundary_atI: "cmd = p @ q \<Longrightarrow> boundary_at cmd (blen p)"
  by (auto simp: boundary_at_def)

lemma boundary_at_0 [simp]: "boundary_at cmd 0"
  by (auto simp: boundary_at_def intro: exI [of _ "[]"])

lemma boundary_at_end [simp]: "boundary_at cmd (blen cmd)"
  by (auto simp: boundary_at_def intro: exI [of _ "[]"])

lemma boundary_region:
  assumes "boundary_at cmd a" and "boundary_at cmd b" and "a \<le> b"
  obtains p m q where "cmd = p @ m @ q" and "a = blen p" and "b = blen p + blen m"
proof -
  from assms(1,2) obtain p x p' y where c: "cmd = p @ x" "a = blen p" "cmd = p' @ y" "b = blen p'"
    unfolding boundary_at_def by blast
  then have "p @ x = p' @ y" by simp
  then consider us where "p' = p @ us" "x = us @ y" | us where "p = p' @ us"
    by (auto simp: append_eq_append_conv2)
  then show thesis
  proof cases
    case (1 us)
    with c show ?thesis using that [of p us y] by simp
  next
    case (2 us)
    with c assms(3) have "us = []" by simp
    with 2 c show ?thesis using that [of p "[]" x] by simp
  qed
qed

lemma token_boundaries:
  assumes "t \<in> set (tokenize cmd)"
  shows "boundary_at cmd (tok_offset t)" and "boundary_at cmd (tok_end t)" and "tok_offset t < tok_end t"
    and "tok_end t \<le> blen cmd"
proof -
  obtain p src q where s: "cmd = p @ src @ q" "token_text False t src" "tok_offset t = blen p"
    using words.token_in_input [OF assms] by blast
  then have e: "tok_end t = blen (p @ src)" and ne: "src \<noteq> []"
    by (auto simp: tok_end_def token_text_def)
  show "boundary_at cmd (tok_offset t)" using s by (auto simp: boundary_at_def)
  show "boundary_at cmd (tok_end t)" using s(1) e by (metis append_assoc boundary_at_def)
  show "tok_offset t < tok_end t" using s(3) e blen_pos [OF ne] by simp
  show "tok_end t \<le> blen cmd" using s(1) e by simp
qed

lemma token_value_slice:
  assumes "t \<in> set (tokenize cmd)"
  obtains p q where "cmd = p @ tok_value t @ q" and "tok_offset t = blen p" and "tok_end t = blen p + blen (tok_value t)"
  using words.token_in_input [OF assms] by (auto simp: token_text_def tok_end_def)

lemma token_order:
  assumes "t \<in> set (tokenize cmd)" and "u \<in> set (tokenize cmd)" and "tok_offset t < tok_offset u"
  shows "tok_end t \<le> tok_offset u"
proof -
  obtain i j where ij: "i < length (tokenize cmd)" "tokenize cmd ! i = t" "j < length (tokenize cmd)" "tokenize cmd ! j = u"
    using assms(1,2) by (auto simp: in_set_conv_nth)
  consider "i < j" | "j < i" | "i = j" by linarith
  then show ?thesis
  proof cases
    case 1
    then show ?thesis using sorted_wrt_nth_less [OF words.tokens_ordered 1] ij by auto
  next
    case 2
    then have "tok_end u \<le> tok_offset t" using sorted_wrt_nth_less [OF words.tokens_ordered 2] ij by auto
    with assms(3) token_boundaries(3) [OF assms(2)] show ?thesis by simp
  qed (use assms(3) ij in auto)
qed

text \<open>A piece of a command: kept as it is, or a segment with the white space around it, rewritten in a
  context.\<close>

datatype piece = Kept rstr | Changed rewrite_context rstr rstr rstr rstr

fun piece_source :: "piece \<Rightarrow> rstr" where
  "piece_source (Kept s) = s"
| "piece_source (Changed c l old new r) = l @ old @ r"

fun piece_target :: "piece \<Rightarrow> rstr" where
  "piece_target (Kept s) = s"
| "piece_target (Changed c l old new r) = l @ new @ r"

fun is_change :: "piece \<Rightarrow> bool" where
  "is_change (Kept s) = False"
| "is_change (Changed c l old new r) = True"

definition pieces_source :: "piece list \<Rightarrow> rstr" where
  "pieces_source ps = concat (map piece_source ps)"

definition pieces_target :: "piece list \<Rightarrow> rstr" where
  "pieces_target ps = concat (map piece_target ps)"

lemma piece_texts [simp]:
  "pieces_source [] = []" "pieces_source (p # ps) = piece_source p @ pieces_source ps" "pieces_source (ps @ qs) = pieces_source ps @ pieces_source qs"
  "pieces_target [] = []" "pieces_target (p # ps) = piece_target p @ pieces_target ps" "pieces_target (ps @ qs) = pieces_target ps @ pieces_target qs"
  by (simp_all add: pieces_source_def pieces_target_def)

definition is_separator :: "parsed_token \<Rightarrow> bool" where
  "is_separator t = (is_clause_end t \<or> is_pipe t)"

definition no_separator :: "parsed_token list \<Rightarrow> nat \<Rightarrow> nat \<Rightarrow> bool" where
  "no_separator tokens a b = list_all (\<lambda>t. is_separator t \<longrightarrow> \<not> (a \<le> tok_offset t \<and> tok_offset t < b)) tokens"

text \<open>Every change is a change of the rewriter of segments, on text with no operator, pipe or background
  token in it.\<close>

fun change_ok :: "parsed_token list \<Rightarrow> segment_rewriter \<Rightarrow> nat \<Rightarrow> piece \<Rightarrow> bool" where
  "change_ok tokens rewrite n (Kept s) = True"
| "change_ok tokens rewrite n (Changed c l old new r) =
     (list_all is_whitespace l \<and> list_all is_whitespace r \<and> rewrite c old = Some (Some new) \<and> new \<noteq> old \<and>
      no_separator tokens n (n + blen (l @ old @ r)))"

fun pieces_ok :: "parsed_token list \<Rightarrow> segment_rewriter \<Rightarrow> nat \<Rightarrow> piece list \<Rightarrow> bool" where
  "pieces_ok tokens rewrite n [] = True"
| "pieces_ok tokens rewrite n (p # ps) =
     (change_ok tokens rewrite n p \<and> pieces_ok tokens rewrite (n + blen (piece_source p)) ps)"

lemma pieces_ok_append [simp]:
  "pieces_ok tokens rewrite n (ps @ qs) \<longleftrightarrow>
   pieces_ok tokens rewrite n ps \<and> pieces_ok tokens rewrite (n + blen (pieces_source ps)) qs"
  by (induction ps arbitrary: n) (auto simp: add.assoc)

section \<open>Splicing\<close>

lemma trim_parts:
  obtains l r where "m = l @ trim m @ r" and "list_all is_whitespace l" and "list_all is_whitespace r"
    and "blen l = blen m - blen (trim_start m)" and "blen (l @ trim m) = max (blen (trim_end m)) (blen l)"
proof (cases "trim m = []")
  case True
  then have w: "\<forall>c \<in> set m. is_whitespace c" by (simp add: trim_Nil_iff)
  then have "trim_start m = []" "trim_end m = []"
    by (auto simp: trim_start_def trim_end_def dropWhile_eq_Nil_conv)
  with w True show ?thesis by (intro that [of m "[]"]) (auto simp: list_all_iff)
next
  case False
  obtain l where l: "m = l @ trim_start m" "\<forall>c \<in> set l. is_whitespace c" using trim_start_split by blast
  obtain r where r: "trim_start m = trim_end (trim_start m) @ r" "\<forall>c \<in> set r. is_whitespace c"
    using trim_end_split by blast
  have t: "trim m = trim_end (trim_start m)" by (simp add: trim_def)
  have m: "m = l @ trim m @ r" using l(1) r(1) t by simp
  have "trim_end m = l @ trim m"
  proof -
    have "trim_end (l @ trim m) = l @ trim m"
      using False last_trim_end [of "trim_start m"] t by (intro trim_end_id) simp
    moreover have "trim_end ((l @ trim m) @ r) = trim_end (l @ trim m)"
      using r(2) dropWhile_append2 [of "rev r" is_whitespace "rev (trim m) @ rev l"] by (simp add: trim_end_def)
    ultimately show ?thesis using m by simp
  qed
  moreover have "blen l = blen m - blen (trim_start m)" using arg_cong [OF l(1), of blen] by simp
  ultimately show ?thesis using m l(2) r(2) by (intro that [of l r]) (auto simp: list_all_iff)
qed

lemma splice_region:
  assumes "m = l @ trim m @ r" and "blen l = blen m - blen (trim_start m)"
    and "blen (l @ trim m) = max (blen (trim_end m)) (blen l)"
  shows "splice_text (p @ m @ q) (blen p) (blen p + blen m) new = Some (l @ new @ r)"
proof -
  have "str_upto m (blen l) = Some l" using assms(1) str_upto_append by metis
  moreover have "str_from m (blen (l @ trim m)) = Some r" using assms(1) str_from_append [of "l @ trim m" r] by simp
  ultimately show ?thesis by (simp add: splice_text_def assms(2) [symmetric] assms(3) [symmetric] Let_def)
qed

text \<open>Rewriting a region with no separator in it gives one piece.\<close>

lemma rewrite_region:
  assumes "cmd = p @ m @ q" and "no_separator tokens (blen p) (blen p + blen m)"
    and "rewrite c (trim m) = Some (Some new)" and "new \<noteq> trim m"
  obtains l r where "splice_text cmd (blen p) (blen p + blen m) new = Some (piece_target (Changed c l (trim m) new r))"
    and "piece_source (Changed c l (trim m) new r) = m" and "change_ok tokens rewrite (blen p) (Changed c l (trim m) new r)"
proof -
  obtain l r where lr: "m = l @ trim m @ r" "list_all is_whitespace l" "list_all is_whitespace r"
    "blen l = blen m - blen (trim_start m)" "blen (l @ trim m) = max (blen (trim_end m)) (blen l)"
    by (rule trim_parts)
  have "splice_text cmd (blen p) (blen p + blen m) new = Some (l @ new @ r)"
    unfolding assms(1) by (rule splice_region [OF lr(1,4,5)])
  moreover have "change_ok tokens rewrite (blen p) (Changed c l (trim m) new r)"
    using assms(2-4) lr(2,3) arg_cong [OF lr(1), of blen] by simp
  moreover have "piece_source (Changed c l (trim m) new r) = m" using lr(1) by simp
  ultimately show thesis by (intro that [of l r]) (simp_all only: piece_target.simps)
qed

lemma splice_same: "splice_text (p @ m @ q) (blen p) (blen p + blen m) (trim m) = Some m"
proof -
  obtain l r where lr: "m = l @ trim m @ r" "list_all is_whitespace l" "list_all is_whitespace r"
    "blen l = blen m - blen (trim_start m)" "blen (l @ trim m) = max (blen (trim_end m)) (blen l)"
    by (rule trim_parts)
  have "splice_text (p @ m @ q) (blen p) (blen p + blen m) (trim m) = Some (l @ trim m @ r)"
    by (rule splice_region [OF lr(1,4,5)])
  with lr(1) show ?thesis by simp
qed


section \<open>Clauses and pipelines\<close>

text \<open>A result over a region: a panic only of the rewriter of segments, or the pieces of the region.\<close>

definition region_ok ::
  "parsed_token list \<Rightarrow> segment_rewriter \<Rightarrow> nat \<Rightarrow> rstr \<Rightarrow> (rstr \<times> bool) option \<Rightarrow> bool" where
  "region_ok tokens rewrite n m res \<longleftrightarrow>
     (case res of
        None \<Rightarrow> \<exists>c s. rewrite c s = None
      | Some (x, changed) \<Rightarrow> \<exists>ps. pieces_source ps = m \<and> pieces_target ps = x \<and> pieces_ok tokens rewrite n ps \<and>
          (changed \<longleftrightarrow> list_ex is_change ps))"

lemma region_okI:
  assumes "pieces_source ps = m" and "pieces_ok tokens rewrite n ps"
  shows "region_ok tokens rewrite n m (Some (pieces_target ps, list_ex is_change ps))"
  using assms by (auto simp: region_ok_def)

lemma rewrite_clause_ok:
  assumes "cmd = p @ m @ q" and "no_separator tokens (blen p) (blen p + blen m)"
  shows "region_ok tokens rewrite (blen p) m (rewrite_clause rewrite cmd (blen p) (blen p + blen m))"
proof (cases "rewrite NormalContext (trim m)")
  case None
  then show ?thesis by (auto simp: region_ok_def rewrite_clause_def assms(1))
next
  case (Some r)
  show ?thesis
  proof (cases "\<exists>new. r = Some new \<and> new \<noteq> trim m")
    case True
    then obtain new where new: "rewrite NormalContext (trim m) = Some (Some new)" "new \<noteq> trim m" using Some by auto
    obtain l t where lt: "splice_text cmd (blen p) (blen p + blen m) new = Some (piece_target (Changed NormalContext l (trim m) new t))"
      "piece_source (Changed NormalContext l (trim m) new t) = m"
      "change_ok tokens rewrite (blen p) (Changed NormalContext l (trim m) new t)"
      by (rule rewrite_region [where rewrite = rewrite and c = NormalContext, OF assms new])
    have "rewrite_clause rewrite cmd (blen p) (blen p + blen m) =
        Some (pieces_target [Changed NormalContext l (trim m) new t], list_ex is_change [Changed NormalContext l (trim m) new t])"
      using new lt(1) by (simp add: rewrite_clause_def assms(1) Let_def)
    with lt(2,3) show ?thesis using region_okI [of "[Changed NormalContext l (trim m) new t]" m] by simp
  next
    case False
    then have "rewrite_clause rewrite cmd (blen p) (blen p + blen m) = Some (pieces_target [Kept m], list_ex is_change [Kept m])"
      using Some splice_same [of p m q] by (cases r) (auto simp: rewrite_clause_def assms(1) Let_def)
    then show ?thesis using region_okI [of "[Kept m]" m] by simp
  qed
qed

text \<open>The stages of a pipeline: the last one starts behind the last pipe before its end.\<close>

definition stages_ok :: "rstr \<Rightarrow> nat \<Rightarrow> nat \<Rightarrow> nat \<Rightarrow> parsed_token list \<Rightarrow> parsed_token list \<Rightarrow> stage_state \<Rightarrow> bool" where
  "stages_ok cmd a first_pipe e us ts st \<longleftrightarrow> tokenize cmd = us @ ts \<and> boundary_at cmd (ss_stage_start st) \<and>
     a \<le> ss_stage_start st \<and> ss_stage_start st \<le> e \<and>
     (\<forall>t \<in> set ts. first_pipe \<le> tok_offset t \<longrightarrow> ss_stage_start st \<le> tok_offset t) \<and>
     (ss_final_stage_start st = None \<or>
       ss_final_stage_start st = Some (ss_stage_start st) \<and> first_pipe < ss_stage_start st \<and>
       (\<forall>t \<in> set us. is_pipe t \<longrightarrow> tok_offset t < ss_stage_start st))"

lemma tokens_before:
  assumes "tokenize cmd = us @ t # ts"
  shows "u \<in> set us \<Longrightarrow> tok_offset u < tok_offset t" and "u \<in> set ts \<Longrightarrow> tok_end t \<le> tok_offset u"
proof -
  have s: "sorted_wrt (\<lambda>t u. tok_end t \<le> tok_offset u) (us @ t # ts)"
    using words.tokens_ordered [of cmd] assms by simp
  show "u \<in> set us \<Longrightarrow> tok_offset u < tok_offset t"
    using s token_boundaries(3) [of u cmd] assms by (fastforce simp: sorted_wrt_append)
  show "u \<in> set ts \<Longrightarrow> tok_end t \<le> tok_offset u"
    using s by (auto simp: sorted_wrt_append)
qed

lemma stage_loop_ok:
  assumes "e = blen cmd \<or> e \<in> tok_offset ` set (tokenize cmd)" and "stages_ok cmd a first_pipe e us ts st"
  shows "\<exists>st' us' ts'. stage_loop cmd first_pipe e ts st = Some st' \<and> stages_ok cmd a first_pipe e us' ts' st' \<and>
    (\<forall>t \<in> set ts'. e \<le> tok_offset t)"
  using assms
proof (induction ts arbitrary: us st)
  case Nil
  then show ?case by (intro exI [of _ st] exI [of _ us] exI [of _ "[]"]) simp
next
  case (Cons t ts)
  note ok = Cons.prems(2) [unfolded stages_ok_def]
  then have tk: "tokenize cmd = us @ t # ts" by simp
  then have t: "t \<in> set (tokenize cmd)" by simp
  have keep: "stages_ok cmd a first_pipe e (us @ [t]) ts (st\<lparr>ss_safe := b\<rparr>)"
    if "tok_offset t < first_pipe \<or> \<not> is_pipe t" for b
    using ok that by (auto simp: stages_ok_def)
  have keep': "stages_ok cmd a first_pipe e (us @ [t]) ts st" if "tok_offset t < first_pipe \<or> \<not> is_pipe t"
    using ok that by (auto simp: stages_ok_def)
  show ?case
  proof (cases "e \<le> tok_offset t \<or> tok_offset t < first_pipe \<or> \<not> is_pipe t")
    case True
    have "\<forall>u \<in> set (t # ts). e \<le> tok_offset u" if "e \<le> tok_offset t"
      using that tokens_before(2) [OF tk] token_boundaries(3) [OF t] by fastforce
    then have "e \<le> tok_offset t \<Longrightarrow> ?thesis" using Cons.prems(2) by (intro exI [of _ st] exI [of _ us] exI [of _ "t # ts"]) simp
    moreover have "tok_offset t < e \<Longrightarrow> ?thesis"
      using True Cons.IH [OF Cons.prems(1) keep] Cons.IH [OF Cons.prems(1) keep']
      by (cases "tok_kind t") (auto simp: is_pipe_def)
    ultimately show ?thesis by fastforce
  next
    case False
    then obtain k where k: "tok_kind t = Pipe k" by (cases "tok_kind t") (auto simp: is_pipe_def)
    have le: "ss_stage_start st \<le> tok_offset t" using ok False by auto
    obtain p' m q where "cmd = p' @ m @ q" "ss_stage_start st = blen p'" "tok_offset t = blen p' + blen m"
      using ok le boundary_region [OF _ token_boundaries(1) [OF t]] by metis
    then have slice: "str_slice cmd (ss_stage_start st) (tok_offset t) = Some m" by simp
    let ?st = "st\<lparr>ss_supported := ss_supported st \<and> trim m \<noteq> [] \<and> k \<noteq> PipeStdoutAndStderr,
      ss_safe := ss_safe st \<and> (tok_offset t \<le> first_pipe \<or> is_safe_pipe_consumer (trim m)),
      ss_stage_start := tok_end t, ss_final_stage_start := Some (tok_end t)\<rparr>"
    have "tok_end t \<le> e" using False Cons.prems(1) token_boundaries(4) [OF t] token_order [OF t] by auto
    moreover have "tok_offset u < tok_end t" if "u \<in> set (us @ [t])" for u
      using that tokens_before(1) [OF tk] token_boundaries(3) [OF t] by fastforce
    moreover have "a \<le> tok_end t" "first_pipe < tok_end t" using ok le False token_boundaries(3) [OF t] by auto
    ultimately have "stages_ok cmd a first_pipe e (us @ [t]) ts ?st"
      using tk token_boundaries(2) [OF t] tokens_before(2) [OF tk] by (auto simp: stages_ok_def)
    from Cons.IH [OF Cons.prems(1) this] show ?thesis using False k slice by simp
  qed
qed

text \<open>Between the first pipe and the next clause no operator and no background token stands.\<close>

lemma next_clause_first:
  assumes "u \<in> set (tokenize cmd)" and "is_clause_end u" and "tok_offset t < tok_offset u"
  shows "(case map_option tok_offset (find (\<lambda>u. tok_offset u > tok_offset t \<and> is_clause_end u) (tokenize cmd)) of
    Some n \<Rightarrow> n | None \<Rightarrow> blen cmd) \<le> tok_offset u"
proof (cases "find (\<lambda>u. tok_offset u > tok_offset t \<and> is_clause_end u) (tokenize cmd)")
  case None
  then show ?thesis using assms by (auto simp: find_None_iff)
next
  case (Some v)
  then obtain i where i: "i < length (tokenize cmd)" "tokenize cmd ! i = v"
    "\<And>j. j < i \<Longrightarrow> \<not> (tok_offset (tokenize cmd ! j) > tok_offset t \<and> is_clause_end (tokenize cmd ! j))"
    by (auto simp: find_Some_iff)
  from assms(1) obtain j where j: "j < length (tokenize cmd)" "tokenize cmd ! j = u" by (auto simp: in_set_conv_nth)
  with i(3) [of j] assms have "\<not> j < i" by auto
  then have "u = v \<or> tok_end v \<le> tok_offset u"
    using sorted_wrt_nth_less [OF words.tokens_ordered, of i j cmd] i j by (cases "i = j") auto
  moreover have "tok_offset v < tok_end v" using token_boundaries(3) i by (metis nth_mem)
  ultimately show ?thesis using Some by auto
qed

text \<open>The analysis of a pipeline that starts at \<open>a\<close> and has its first pipe at \<open>first_pipe\<close>.\<close>

lemma analyze_pipeline_ok:
  assumes tk: "tokenize cmd = us @ t # ts" and "boundary_at cmd a" and "a \<le> tok_offset t"
  obtains an where "analyze_pipeline cmd (tokenize cmd) a (tok_offset t) = Some an"
    and "boundary_at cmd (pa_end_offset an)" and "tok_offset t \<le> pa_end_offset an"
    and "\<forall>n. pa_next_clause_offset an = Some n \<longrightarrow> n = pa_end_offset an \<and> tok_offset t < n"
    and "pa_next_clause_offset an = None \<longrightarrow> pa_end_offset an = blen cmd"
    and "\<forall>s. pa_final_stage_start an = Some s \<longrightarrow> boundary_at cmd s \<and> a \<le> s \<and> s \<le> pa_end_offset an \<and>
      no_separator (tokenize cmd) s (pa_end_offset an)"
proof -
  define nxt where "nxt = map_option tok_offset (find (\<lambda>u. tok_offset u > tok_offset t \<and> is_clause_end u) (tokenize cmd))"
  define e where "e = (case nxt of Some n \<Rightarrow> n | None \<Rightarrow> blen cmd)"
  let ?st0 = "\<lparr>ss_stage_start = a, ss_final_stage_start = None, ss_supported = True, ss_safe = True\<rparr>"
  have t: "t \<in> set (tokenize cmd)" using tk by simp
  have n: "\<exists>u \<in> set (tokenize cmd). n = tok_offset u \<and> tok_offset t < n" if "nxt = Some n" for n
    using that by (fastforce simp: nxt_def find_Some_iff)
  have e: "e = blen cmd \<or> e \<in> tok_offset ` set (tokenize cmd)" using n by (cases nxt) (auto simp: e_def)
  have te: "tok_offset t < e" using n token_boundaries(3,4) [OF t] by (cases nxt) (auto simp: e_def)
  have be: "boundary_at cmd e" using e token_boundaries(1) by auto
  note noclause = next_clause_first [where t = t and cmd = cmd, folded nxt_def, folded e_def]
  have init: "stages_ok cmd a (tok_offset t) e [] (tokenize cmd) ?st0"
    using assms(2,3) te by (simp add: stages_ok_def)
  from stage_loop_ok [OF e init] obtain st us' ts' where st:
    "stage_loop cmd (tok_offset t) e (tokenize cmd) ?st0 = Some st" "stages_ok cmd a (tok_offset t) e us' ts' st"
    "\<forall>u \<in> set ts'. e \<le> tok_offset u" by blast
  note ok = st(2) [unfolded stages_ok_def]
  obtain p m q where m: "cmd = p @ m @ q" "ss_stage_start st = blen p" "e = blen p + blen m"
    using ok boundary_region [OF _ be] by metis
  then have slice: "str_slice cmd (ss_stage_start st) e = Some m" by simp
  have final: "boundary_at cmd s \<and> a \<le> s \<and> s \<le> e \<and> no_separator (tokenize cmd) s e"
    if "ss_final_stage_start st = Some s" for s
  proof -
    have s: "s = ss_stage_start st" "tok_offset t < s" and us: "\<forall>t \<in> set us'. is_pipe t \<longrightarrow> tok_offset t < s"
      using ok that by auto
    have "\<not> (s \<le> tok_offset u \<and> tok_offset u < e)" if "u \<in> set (tokenize cmd)" "is_separator u" for u
    proof (cases "is_pipe u")
      case True
      have "u \<in> set us' \<or> u \<in> set ts'" using that(1) ok by auto
      then show ?thesis using True us st(3) by auto
    next
      case False
      then show ?thesis using that noclause [of u] s(2) by (fastforce simp: is_separator_def)
    qed
    then show ?thesis using ok s(1) by (auto simp: no_separator_def list_all_iff)
  qed
  let ?supported = "ss_supported st \<and> trim m \<noteq> []"
  let ?an = "\<lparr>pa_end_offset = e, pa_next_clause_offset = nxt,
    pa_final_stage_start = (if ?supported then ss_final_stage_start st else None),
    pa_all_consumers_safe = (?supported \<and> ss_safe st \<and> (trim m = [] \<or> is_safe_pipe_consumer (trim m)))\<rparr>"
  have "analyze_pipeline cmd (tokenize cmd) a (tok_offset t) = Some ?an"
    unfolding analyze_pipeline_def nxt_def [symmetric] by (simp add: Let_def e_def [symmetric] st(1) slice)
  then show thesis
    by (rule that) (use be te n final in \<open>auto simp: e_def split: if_splits\<close>)
qed

lemma remove_match_total:
  assumes "regex_ranges env"
  obtains r where "remove_match env p s = Some r"
proof (cases "rw_find env p s")
  case (Some ab)
  obtain a b where ab: "ab = (a, b)" by (cases ab) auto
  from assms [unfolded regex_ranges_def, rule_format, OF Some [unfolded ab]]
  obtain x m y where "s = x @ m @ y" "a = blen x" "b = blen (x @ m)" by auto
  then have "str_upto s a = Some x" "str_from s b = Some y" using str_from_append [of "x @ m" y] by simp_all
  with Some ab that show ?thesis by (simp add: remove_match_def)
qed (simp add: remove_match_def that)

text \<open>What a stage may give: a panic only of the rewriter of segments, no change, or a change in pieces.\<close>

definition stage_ok :: "parsed_token list \<Rightarrow> segment_rewriter \<Rightarrow> nat \<Rightarrow> rstr \<Rightarrow> rewriting \<Rightarrow> bool" where
  "stage_ok tokens rewrite n m res \<longleftrightarrow>
     (case res of
        None \<Rightarrow> \<exists>c s. rewrite c s = None
      | Some None \<Rightarrow> True
      | Some (Some x) \<Rightarrow> \<exists>ps. pieces_source ps = m \<and> pieces_target ps = x \<and> pieces_ok tokens rewrite n ps \<and> list_ex is_change ps)"

lemma stage_okI:
  assumes "pieces_source ps = m" and "pieces_ok tokens rewrite n ps" and "list_ex is_change ps"
  shows "stage_ok tokens rewrite n m (Some (Some (pieces_target ps)))"
  using assms by (auto simp: stage_ok_def)

lemma stage_ok_None [simp]: "stage_ok tokens rewrite n m (Some None)"
  by (simp add: stage_ok_def)

lemma final_stage_ok:
  assumes "cmd = p @ m @ q" and "pa_end_offset an = blen p + blen m"
    and "\<And>s. pa_final_stage_start an = Some s \<Longrightarrow> boundary_at cmd s \<and> blen p \<le> s \<and> s \<le> pa_end_offset an \<and>
      no_separator tokens s (pa_end_offset an)"
  shows "stage_ok tokens rewrite (blen p) m (rewrite_pipeline_final_stage rewrite cmd (blen p) an)"
proof (cases "pa_final_stage_start an")
  case None
  then show ?thesis by (simp add: stage_ok_def rewrite_pipeline_final_stage_def)
next
  case (Some s)
  note f = assms(3) [OF Some]
  have bp: "boundary_at cmd (blen p)" using assms(1) by (auto simp: boundary_at_def)
  obtain p' m1 q' where 1: "cmd = p' @ m1 @ q'" "blen p = blen p'" "s = blen p' + blen m1"
    by (rule boundary_region [OF bp, of s]) (use f in auto)
  then have p': "p' = p" "m1 @ q' = m @ q" using assms(1) blen_append_cancel [of p "m @ q" p' "m1 @ q'"] by auto
  have be: "boundary_at cmd (blen p + blen m)" using assms(1) boundary_atI [of cmd "p @ m" q] by simp
  obtain p2 m2 q2 where 2: "cmd = p2 @ m2 @ q2" "s = blen p2" "blen p + blen m = blen p2 + blen m2"
    by (rule boundary_region [of cmd s "blen p + blen m"]) (use f be assms(2) in auto)
  have "p2 @ m2 @ q2 = (p @ m1) @ q'" using 1(1) 2(1) p'(1) by (metis append_assoc)
  then have p2: "p2 = p @ m1" by (rule blen_append_cancel) (use 1(3) 2(2) p'(1) in simp)
  have "(p @ m) @ q = (p2 @ m2) @ q2" using assms(1) 2(1) by (metis append_assoc)
  then have "p @ m = p2 @ m2" by (rule blen_append_cancel) (use 2(3) in simp)
  with p2 have m: "m = m1 @ m2" by simp
  have e: "pa_end_offset an = blen p2 + blen m2" and c: "cmd = p2 @ m2 @ q" using assms(1,2) m p2 by simp_all
  have slice: "str_slice cmd s (pa_end_offset an) = Some m2" "str_slice cmd (blen p) s = Some m1"
    using e 2(2) p2 str_slice_append [of p m1 "m2 @ q"] str_slice_append [of p2 m2 q] by (simp_all add: assms(1) m)
  have ns: "no_separator tokens (blen p2) (blen p2 + blen m2)" using f e 2(2) by simp
  show ?thesis
  proof (cases "\<exists>new. rewrite PipelineFinal (trim m2) = Some (Some new) \<and> new \<noteq> trim m2")
    case True
    then obtain new where new: "rewrite PipelineFinal (trim m2) = Some (Some new)" "new \<noteq> trim m2" by blast
    obtain l r where lr: "splice_text cmd (blen p2) (blen p2 + blen m2) new = Some (piece_target (Changed PipelineFinal l (trim m2) new r))"
      "piece_source (Changed PipelineFinal l (trim m2) new r) = m2"
      "change_ok tokens rewrite (blen p2) (Changed PipelineFinal l (trim m2) new r)"
      by (rule rewrite_region [where rewrite = rewrite and c = PipelineFinal, OF c ns new])
    let ?ps = "[Kept m1, Changed PipelineFinal l (trim m2) new r]"
    have "rewrite_pipeline_final_stage rewrite cmd (blen p) an = Some (Some (pieces_target ?ps))"
      using Some slice new lr(1) 2(2) e by (simp add: rewrite_pipeline_final_stage_def)
    moreover have "pieces_source ?ps = m" using lr(2) m by simp
    moreover have "pieces_ok tokens rewrite (blen p) ?ps" using lr(3) p2 by simp
    ultimately show ?thesis using stage_okI [of ?ps] by simp
  next
    case False
    then show ?thesis using Some slice
      by (cases "rewrite PipelineFinal (trim m2)")
        (auto simp: stage_ok_def rewrite_pipeline_final_stage_def split: option.splits)
  qed
qed

lemma producer_ok:
  assumes "regex_ranges env" and "cmd = p @ m1 @ m2 @ q" and "pa_end_offset an = blen p + blen (m1 @ m2)"
    and "no_separator tokens (blen p) (blen p + blen m1)"
  shows "stage_ok tokens rewrite (blen p) (m1 @ m2) (rewrite_pipeline_producer env rewrite cmd (blen p) (blen p + blen m1) an)"
proof -
  obtain stripped where "remove_match env ENV_PREFIX (trim m1) = Some stripped"
    by (rule remove_match_total [OF assms(1)])
  then obtain prog where prog: "producer_program env (trim m1) = Some prog" by (simp add: producer_program_def)
  have slice: "str_slice cmd (blen p) (blen p + blen m1) = Some m1"
    "str_slice cmd (blen p + blen m1) (pa_end_offset an) = Some m2"
    using str_slice_append [of "p @ m1" m2 q] by (simp_all add: assms(2,3) add.assoc)
  show ?thesis
  proof (cases "\<exists>new. rewrite PipelineProducer (trim m1) = Some (Some new) \<and> new \<noteq> trim m1")
    case True
    then obtain new where new: "rewrite PipelineProducer (trim m1) = Some (Some new)" "new \<noteq> trim m1" by blast
    obtain l r where lr: "splice_text cmd (blen p) (blen p + blen m1) new = Some (piece_target (Changed PipelineProducer l (trim m1) new r))"
      "piece_source (Changed PipelineProducer l (trim m1) new r) = m1"
      "change_ok tokens rewrite (blen p) (Changed PipelineProducer l (trim m1) new r)"
      by (rule rewrite_region [where rewrite = rewrite and c = PipelineProducer, OF assms(2,4) new])
    let ?ps = "[Changed PipelineProducer l (trim m1) new r, Kept m2]"
    have "rewrite_pipeline_producer env rewrite cmd (blen p) (blen p + blen m1) an \<in> {Some None, Some (Some (pieces_target ?ps))}"
      using slice prog new lr(1) by (simp add: rewrite_pipeline_producer_def)
    moreover have "pieces_source ?ps = m1 @ m2" "pieces_ok tokens rewrite (blen p) ?ps" using lr(2,3) by simp_all
    then have "stage_ok tokens rewrite (blen p) (m1 @ m2) (Some (Some (pieces_target ?ps)))" by (intro stage_okI) simp_all
    ultimately show ?thesis by (elim insertE) (simp_all del: piece_texts)
  next
    case False
    then show ?thesis using slice prog
      by (cases "rewrite PipelineProducer (trim m1)")
        (auto simp: stage_ok_def rewrite_pipeline_producer_def split: option.splits)
  qed
qed

lemma rewrite_pipeline_ok:
  assumes "regex_ranges env" and "cmd = p @ m1 @ m2 @ q" and "pa_end_offset an = blen p + blen (m1 @ m2)"
    and "no_separator tokens (blen p) (blen p + blen m1)"
    and "\<And>s. pa_final_stage_start an = Some s \<Longrightarrow> boundary_at cmd s \<and> blen p \<le> s \<and> s \<le> pa_end_offset an \<and>
      no_separator tokens s (pa_end_offset an)"
  shows "region_ok tokens rewrite (blen p) (m1 @ m2) (rewrite_pipeline env rewrite cmd (blen p) (blen p + blen m1) an)"
proof -
  let ?f = "rewrite_pipeline_final_stage rewrite cmd (blen p) an"
  let ?g = "rewrite_pipeline_producer env rewrite cmd (blen p) (blen p + blen m1) an"
  have f: "stage_ok tokens rewrite (blen p) (m1 @ m2) ?f"
    by (rule final_stage_ok [where q = q]) (use assms(2,3,5) in simp_all)
  have g: "stage_ok tokens rewrite (blen p) (m1 @ m2) ?g" by (rule producer_ok [OF assms(1-4)])
  have slice: "str_slice cmd (blen p) (pa_end_offset an) = Some (m1 @ m2)"
    using str_slice_append [of p "m1 @ m2" q] by (simp add: assms(2,3))
  have kept: "region_ok tokens rewrite (blen p) (m1 @ m2) (Some (m1 @ m2, False))"
    using region_okI [of "[Kept (m1 @ m2)]" "m1 @ m2"] by simp
  show ?thesis
  proof (cases ?f)
    case None
    then show ?thesis using f by (simp add: stage_ok_def region_ok_def rewrite_pipeline_def)
  next
    case (Some r)
    show ?thesis
    proof (cases r)
      case None
      with Some g slice kept show ?thesis
        by (cases ?g) (auto simp: stage_ok_def region_ok_def rewrite_pipeline_def split: option.splits)
    next
      case (Some x)
      with \<open>?f = Some r\<close> f slice show ?thesis by (auto simp: stage_ok_def region_ok_def rewrite_pipeline_def)
    qed
  qed
qed

section \<open>The loop over the clauses\<close>

text \<open>What is done is in pieces up to \<open>seg_start\<close>; the tokens behind have no separator from there on.\<close>

definition clauses_ok ::
  "segment_rewriter \<Rightarrow> rstr \<Rightarrow> parsed_token list \<Rightarrow> parsed_token list \<Rightarrow> nat \<Rightarrow> rstr \<Rightarrow> bool \<Rightarrow> bool" where
  "clauses_ok rewrite cmd us ts seg_start out changed \<longleftrightarrow> tokenize cmd = us @ ts \<and>
     list_all (\<lambda>u. is_separator u \<longrightarrow> tok_offset u < seg_start) us \<and>
     (\<exists>ps q. cmd = pieces_source ps @ q \<and> seg_start = blen (pieces_source ps) \<and> out = pieces_target ps \<and>
        pieces_ok (tokenize cmd) rewrite 0 ps \<and> (changed \<longleftrightarrow> list_ex is_change ps))"

lemma clauses_ok_region:
  assumes "clauses_ok rewrite cmd us ts seg_start out changed" and "cmd = p @ m @ q" and "blen p = seg_start"
    and "region_ok (tokenize cmd) rewrite seg_start m (Some (x, c))"
    and "tokenize cmd = us' @ ts'" and "list_all (\<lambda>u. is_separator u \<longrightarrow> tok_offset u < seg_start + blen m) us'"
  shows "clauses_ok rewrite cmd us' ts' (seg_start + blen m) (out @ x) (changed \<or> c)"
proof -
  obtain ps q' where ps: "cmd = pieces_source ps @ q'" "seg_start = blen (pieces_source ps)" "out = pieces_target ps"
    "pieces_ok (tokenize cmd) rewrite 0 ps" "changed \<longleftrightarrow> list_ex is_change ps"
    using assms(1) by (auto simp: clauses_ok_def)
  obtain rs where rs: "pieces_source rs = m" "pieces_target rs = x" "pieces_ok (tokenize cmd) rewrite seg_start rs"
    "c \<longleftrightarrow> list_ex is_change rs" using assms(4) by (auto simp: region_ok_def)
  have "p = pieces_source ps" using blen_append_cancel [of p "m @ q" "pieces_source ps" q'] ps(1,2) assms(2,3) by simp
  then have "cmd = pieces_source (ps @ rs) @ q" using assms(2) rs(1) by simp
  moreover have "pieces_ok (tokenize cmd) rewrite 0 (ps @ rs)" using ps(2,4) rs(3) by simp
  ultimately show ?thesis unfolding clauses_ok_def using assms(5,6) ps rs
    by (intro conjI exI [of _ "ps @ rs"] exI [of _ q]) auto
qed

definition compound_ok :: "segment_rewriter \<Rightarrow> rstr \<Rightarrow> rewriting \<Rightarrow> bool" where
  "compound_ok rewrite cmd res \<longleftrightarrow>
     (case res of
        None \<Rightarrow> \<exists>c s. rewrite c s = None
      | Some None \<Rightarrow> True
      | Some (Some r) \<Rightarrow> \<exists>ps. pieces_source ps = cmd \<and> pieces_target ps = r \<and> pieces_ok (tokenize cmd) rewrite 0 ps \<and>
          list_ex is_change ps)"

lemma compound_ok_end:
  assumes "clauses_ok rewrite cmd us ts (blen cmd) out changed"
  shows "compound_ok rewrite cmd (Some (if changed then Some out else None))"
proof -
  obtain ps q where ps: "cmd = pieces_source ps @ q" "blen cmd = blen (pieces_source ps)" "out = pieces_target ps"
    "pieces_ok (tokenize cmd) rewrite 0 ps" "changed \<longleftrightarrow> list_ex is_change ps"
    using assms by (auto simp: clauses_ok_def)
  then have "q = []" using arg_cong [OF ps(1), of blen] by simp
  with ps show ?thesis by (auto simp: compound_ok_def)
qed

lemma clauses_ok_no_separator:
  assumes "clauses_ok rewrite cmd us ts seg_start out changed" and "\<forall>t \<in> set ts. n \<le> tok_offset t"
  shows "no_separator (tokenize cmd) seg_start n"
  using assms by (fastforce simp: clauses_ok_def no_separator_def list_all_iff)

lemma clauses_ok_boundary: "clauses_ok rewrite cmd us ts seg_start out changed \<Longrightarrow> boundary_at cmd seg_start \<and> seg_start \<le> blen cmd"
  unfolding clauses_ok_def by (auto simp: boundary_at_def)

lemma clauses_ok_tokens:
  assumes "clauses_ok rewrite cmd us (t # ts) seg_start out changed"
  shows "tokenize cmd = us @ t # ts" and "t \<in> set (tokenize cmd)"
    and "u \<in> set (us @ [t]) \<Longrightarrow> tok_offset u \<le> tok_offset t" and "u \<in> set (t # ts) \<Longrightarrow> tok_offset t \<le> tok_offset u"
proof -
  show tk: "tokenize cmd = us @ t # ts" using assms by (simp add: clauses_ok_def)
  then show t: "t \<in> set (tokenize cmd)" by simp
  show "u \<in> set (us @ [t]) \<Longrightarrow> tok_offset u \<le> tok_offset t"
    using tokens_before(1) [OF tk] by (fastforce intro: less_imp_le)
  show "u \<in> set (t # ts) \<Longrightarrow> tok_offset t \<le> tok_offset u"
    using tokens_before(2) [OF tk] token_boundaries(3) [OF t] by fastforce
qed

lemma last_clause:
  assumes "clauses_ok rewrite cmd us [] seg_start out changed"
  shows "case rewrite_clause rewrite cmd seg_start (blen cmd) of
      None \<Rightarrow> \<exists>c s. rewrite c s = None
    | Some (x, c) \<Rightarrow> clauses_ok rewrite cmd us [] (blen cmd) (out @ x) (changed \<or> c)"
proof -
  obtain p m q where m: "cmd = p @ m @ q" "seg_start = blen p" "blen cmd = blen p + blen m"
    using clauses_ok_boundary [OF assms] boundary_region [OF _ boundary_at_end] by metis
  have "no_separator (tokenize cmd) (blen p) (blen p + blen m)"
    using clauses_ok_no_separator [OF assms, of "blen p + blen m"] m(2) by simp
  from rewrite_clause_ok [where rewrite = rewrite, OF m(1) this]
  have r: "region_ok (tokenize cmd) rewrite seg_start m (rewrite_clause rewrite cmd seg_start (blen cmd))"
    using m(2,3) by simp
  have us: "tok_offset u < seg_start + blen m" if "u \<in> set (tokenize cmd)" for u
    using that token_boundaries(3,4) [of u cmd] m(2,3) by fastforce
  have "clauses_ok rewrite cmd us [] (seg_start + blen m) (out @ x) (changed \<or> c)"
    if "rewrite_clause rewrite cmd seg_start (blen cmd) = Some (x, c)" for x c
    using assms r that us m by (intro clauses_ok_region [OF assms m(1)]) (auto simp: clauses_ok_def list_all_iff)
  then show ?thesis using r m by (auto simp: region_ok_def split: option.splits)
qed

lemma clause_step:
  assumes ok: "clauses_ok rewrite cmd us (t # ts) seg_start out changed" and le: "seg_start \<le> tok_offset t"
  shows "case rewrite_clause rewrite cmd seg_start (tok_offset t) of
      None \<Rightarrow> \<exists>c s. rewrite c s = None
    | Some (x, c) \<Rightarrow> clauses_ok rewrite cmd (us @ [t]) ts (tok_end t) (out @ x @ tok_value t) (changed \<or> c)"
proof -
  note tk = clauses_ok_tokens [OF ok]
  obtain p m q where m: "cmd = p @ m @ q" "seg_start = blen p" "tok_offset t = blen p + blen m"
    using clauses_ok_boundary [OF ok] boundary_region [OF _ token_boundaries(1) [OF tk(2)] le] by metis
  obtain p' q' where v: "cmd = p' @ tok_value t @ q'" "tok_offset t = blen p'" "tok_end t = blen p' + blen (tok_value t)"
    by (rule token_value_slice [OF tk(2)])
  have "(p @ m) @ q = p' @ tok_value t @ q'" using m(1) v(1) by (metis append_assoc)
  then have pm: "p @ m = p'" by (rule blen_append_cancel) (use m(3) v(2) in simp)
  then have cm: "cmd = p @ (m @ tok_value t) @ q'" and e: "seg_start + blen (m @ tok_value t) = tok_end t"
    using v(1,3) m(2) by auto
  have r: "region_ok (tokenize cmd) rewrite seg_start m (rewrite_clause rewrite cmd seg_start (tok_offset t))"
    using rewrite_clause_ok [where rewrite = rewrite, OF m(1)] clauses_ok_no_separator [OF ok, of "tok_offset t"] tk(4) m(2,3)
    by simp
  have "clauses_ok rewrite cmd (us @ [t]) ts (seg_start + blen (m @ tok_value t)) (out @ (x @ tok_value t)) (changed \<or> c)"
    if rc: "rewrite_clause rewrite cmd seg_start (tok_offset t) = Some (x, c)" for x c
  proof (rule clauses_ok_region [OF ok cm m(2) [symmetric]])
    obtain ps where ps: "pieces_source ps = m" "pieces_target ps = x" "pieces_ok (tokenize cmd) rewrite seg_start ps"
      "c \<longleftrightarrow> list_ex is_change ps" using r rc by (auto simp: region_ok_def)
    then show "region_ok (tokenize cmd) rewrite seg_start (m @ tok_value t) (Some (x @ tok_value t, c))"
      using region_okI [of "ps @ [Kept (tok_value t)]" "m @ tok_value t" "tokenize cmd" rewrite seg_start] by simp
  qed (use tk(1,3) e token_boundaries(3) [OF tk(2)] in \<open>fastforce simp: list_all_iff\<close>)+
  then show ?thesis using r e by (auto simp: region_ok_def split: option.splits)
qed

lemma pipeline_step:
  assumes "regex_ranges env" and ok: "clauses_ok rewrite cmd us (t # ts) seg_start out changed" and le: "seg_start \<le> tok_offset t"
  obtains an where "analyze_pipeline cmd (tokenize cmd) seg_start (tok_offset t) = Some an"
    and "case rewrite_pipeline env rewrite cmd seg_start (tok_offset t) an of
        None \<Rightarrow> \<exists>c s. rewrite c s = None
      | Some (x, c) \<Rightarrow> clauses_ok rewrite cmd (us @ [t]) ts
          (case pa_next_clause_offset an of Some n \<Rightarrow> n | None \<Rightarrow> blen cmd) (out @ x) (changed \<or> c)"
proof -
  note tk = clauses_ok_tokens [OF ok]
  note bs = conjunct1 [OF clauses_ok_boundary [OF ok]]
  obtain an where an: "analyze_pipeline cmd (tokenize cmd) seg_start (tok_offset t) = Some an"
    and be: "boundary_at cmd (pa_end_offset an)" and te: "tok_offset t \<le> pa_end_offset an"
    and nx: "\<forall>n. pa_next_clause_offset an = Some n \<longrightarrow> n = pa_end_offset an \<and> tok_offset t < n"
    and nx0: "pa_next_clause_offset an = None \<longrightarrow> pa_end_offset an = blen cmd"
    and fin: "\<forall>s. pa_final_stage_start an = Some s \<longrightarrow> boundary_at cmd s \<and> seg_start \<le> s \<and> s \<le> pa_end_offset an \<and>
      no_separator (tokenize cmd) s (pa_end_offset an)"
    by (rule analyze_pipeline_ok [OF tk(1) bs le])
  obtain p m q where m: "cmd = p @ m @ q" "seg_start = blen p" "tok_offset t = blen p + blen m"
    by (rule boundary_region [OF bs token_boundaries(1) [OF tk(2)] le])
  obtain p2 m2 q2 where 2: "cmd = p2 @ m2 @ q2" "tok_offset t = blen p2" "pa_end_offset an = blen p2 + blen m2"
    by (rule boundary_region [OF token_boundaries(1) [OF tk(2)] be te])
  have "p2 @ m2 @ q2 = (p @ m) @ q" using m(1) 2(1) by (metis append_assoc)
  then have "p2 = p @ m" by (rule blen_append_cancel) (use m(3) 2(2) in simp)
  then have cm: "cmd = p @ m @ m2 @ q2" and e: "pa_end_offset an = blen p + blen (m @ m2)" using 2 by auto
  have r: "region_ok (tokenize cmd) rewrite seg_start (m @ m2) (rewrite_pipeline env rewrite cmd seg_start (tok_offset t) an)"
    using rewrite_pipeline_ok [where rewrite = rewrite, OF assms(1) cm e]
      clauses_ok_no_separator [OF ok, of "tok_offset t"] tk(4) fin m(2,3) by simp
  have cm': "cmd = p @ (m @ m2) @ q2" using cm by simp
  have n: "(case pa_next_clause_offset an of Some n \<Rightarrow> n | None \<Rightarrow> blen cmd) = seg_start + blen (m @ m2)"
    and lt: "tok_offset t < seg_start + blen (m @ m2)"
    using nx nx0 e m(2) token_boundaries(3,4) [OF tk(2)] by (auto split: option.splits)
  have "clauses_ok rewrite cmd (us @ [t]) ts (seg_start + blen (m @ m2)) (out @ x) (changed \<or> c)"
    if "rewrite_pipeline env rewrite cmd seg_start (tok_offset t) an = Some (x, c)" for x c
    by (rule clauses_ok_region [OF ok cm' m(2) [symmetric]])
      (use r that tk(1,3) lt in \<open>fastforce simp: list_all_iff\<close>)+
  then have "case rewrite_pipeline env rewrite cmd seg_start (tok_offset t) an of
      None \<Rightarrow> \<exists>c s. rewrite c s = None
    | Some (x, c) \<Rightarrow> clauses_ok rewrite cmd (us @ [t]) ts (seg_start + blen (m @ m2)) (out @ x) (changed \<or> c)"
    using r by (auto simp: region_ok_def split: option.splits)
  then show thesis by (intro that [OF an]) (simp only: n)
qed

lemma compound_ok_panic: "\<exists>c s. rewrite c s = None \<Longrightarrow> compound_ok rewrite cmd None"
  by (simp add: compound_ok_def)

lemma compound_loop_ok:
  assumes "regex_ranges env" and "clauses_ok rewrite cmd us ts seg_start out changed"
  shows "compound_ok rewrite cmd (compound_loop env rewrite cmd (tokenize cmd) ts seg_start out changed)"
  using assms(2)
proof (induction ts arbitrary: us seg_start out changed)
  case Nil
  from last_clause [OF Nil] show ?case
    by (auto intro: compound_ok_panic dest: compound_ok_end split: option.splits prod.splits)
next
  case (Cons t ts)
  consider "tok_offset t < seg_start \<or> \<not> is_separator t" | "seg_start \<le> tok_offset t" "is_clause_end t"
    | "seg_start \<le> tok_offset t" "is_pipe t" "\<not> is_clause_end t"
    by (metis is_separator_def not_less)
  then show ?case
  proof cases
    case 1
    then have "clauses_ok rewrite cmd (us @ [t]) ts seg_start out changed"
      using Cons.prems by (auto simp: clauses_ok_def)
    from Cons.IH [OF this] 1 show ?thesis by (auto simp: is_separator_def)
  next
    case 2
    from clause_step [OF Cons.prems 2(1)] 2 Cons.IH show ?thesis
      by (auto intro: compound_ok_panic split: option.splits prod.splits)
  next
    case 3
    obtain an where an: "analyze_pipeline cmd (tokenize cmd) seg_start (tok_offset t) = Some an"
      and p: "case rewrite_pipeline env rewrite cmd seg_start (tok_offset t) an of
        None \<Rightarrow> \<exists>c s. rewrite c s = None
      | Some (x, c) \<Rightarrow> clauses_ok rewrite cmd (us @ [t]) ts
          (case pa_next_clause_offset an of Some n \<Rightarrow> n | None \<Rightarrow> blen cmd) (out @ x) (changed \<or> c)"
      by (rule pipeline_step [OF assms(1) Cons.prems 3(1)])
    show ?thesis
    proof (cases "rewrite_pipeline env rewrite cmd seg_start (tok_offset t) an")
      case None
      with p an 3 show ?thesis by (auto intro: compound_ok_panic)
    next
      case (Some xc)
      with p an 3 Cons.IH show ?thesis
        by (cases xc; cases "pa_next_clause_offset an") (auto dest: compound_ok_end)
    qed
  qed
qed

lemma rewrite_compound_ok:
  assumes "regex_ranges env"
  shows "compound_ok rewrite cmd (rewrite_compound env rewrite cmd)"
proof -
  have "clauses_ok rewrite cmd [] (tokenize cmd) 0 [] False"
    by (simp add: clauses_ok_def) (intro exI [of _ "[]"], simp)
  from compound_loop_ok [OF assms this] show ?thesis
    by (simp add: rewrite_compound_def Let_def compound_ok_def)
qed

section \<open>Scripts are shorter than the command they are in\<close>

lemma scan_wrapper_options_flag: "scan_wrapper_options ts = Some (ScanFlag us) \<Longrightarrow> set us \<subseteq> set ts"
  by (induction ts rule: scan_wrapper_options.induct)
    (auto split: bind_splits option.splits if_splits list.splits)

lemma scan_wrapper_options_return: "scan_wrapper_options ts = Some (ScanReturn r) \<Longrightarrow> r \<noteq> Parsed pl"
  by (induction ts rule: scan_wrapper_options.induct)
    (auto split: bind_splits option.splits if_splits list.splits)

lemma wrapper_payload_length:
  assumes "wrapper_payload s t = Some (Parsed pl)" and "t \<in> set (tokenize s)"
  shows "length (payload_command pl) \<le> length (tok_value t)"
proof -
  have raw: "str_slice s (tok_offset t) (tok_offset t + blen (tok_value t)) = Some (tok_value t)"
    using words.token_slice [OF assms(2)] by (auto simp: token_text_def tok_end_def)
  have "length x \<le> length v" if "str_slice v a b = Some x" for v x :: rstr and a b
    using that by (auto simp: str_slice_def split: if_splits bind_splits dest!: str_upto_Some str_from_Some)
  with assms(1) raw show ?thesis
    by (auto simp: wrapper_payload_def split: if_splits bind_splits)
qed

lemma payload_shorter:
  assumes "parse_shell_command_wrapper s = Some (Parsed pl)"
  shows "length (payload_command pl) < length s"
proof (cases "tokenize s")
  case Nil
  with assms show ?thesis by (simp add: parse_shell_command_wrapper_def)
next
  case (Cons program rest)
  from assms Cons obtain t us where f: "scan_wrapper_options rest = Some (ScanFlag (t # us))"
    and w: "wrapper_payload s t = Some (Parsed pl)"
    by (auto simp: parse_shell_command_wrapper_def dest: scan_wrapper_options_return
        split: bind_splits if_splits wrapper_scan.splits list.splits)
  have t: "t \<in> set rest" using scan_wrapper_options_flag [OF f] by simp
  obtain u src v where v: "s = u @ src @ v" "\<forall>c \<in> set u. is_whitespace c" "token_text False program src"
    "tok_offset program = 0 + blen u" "tok_end program = 0 + blen (u @ src)" and tl: "tiles False (0 + blen (u @ src)) rest v"
    by (rule tiles_Cons_split [OF words.lex_tiles [of s, unfolded Cons]])
  from tiles_member [OF tl t] have "length (tok_value t) \<le> length v" by (auto simp: token_text_def)
  moreover have "length (payload_command pl) \<le> length (tok_value t)"
    using wrapper_payload_length [OF w] t Cons by simp
  moreover have "0 < length src" using v(3) by (auto simp: token_text_def)
  moreover have "length s = length u + length src + length v" using v(1) by simp
  ultimately show ?thesis by linarith
qed

section \<open>The rewriter only looks at shorter scripts\<close>

lemma strip_trailing_redirects_split:
  assumes "strip_trailing_redirects cmd = Some (c, r)"
  shows "cmd = c @ r"
proof (cases "trailing_redirects (rev (tokenize cmd)) None")
  case None
  with assms show ?thesis by (simp add: strip_trailing_redirects_def)
next
  case (Some n)
  with assms obtain front where f: "str_upto cmd n = Some front" "c = trim_end front" "str_from cmd (blen c) = Some r"
    by (auto simp: strip_trailing_redirects_def Let_def split: bind_splits)
  obtain q where q: "cmd = front @ q" using str_upto_Some [OF f(1)] by blast
  obtain w where w: "front = c @ w" using trim_end_split [of front] f(2) by blast
  obtain p' where p': "cmd = p' @ r" "blen c = blen p'" using str_from_Some [OF f(3)] by blast
  have "c @ (w @ q) = p' @ r" using q w p'(1) by simp
  then have "c = p'" by (rule blen_append_cancel) (rule p'(2))
  then show ?thesis using p'(1) by simp
qed

definition agree_below :: "nat \<Rightarrow> (rstr \<Rightarrow> rewriting) \<Rightarrow> (rstr \<Rightarrow> rewriting) \<Rightarrow> bool" where
  "agree_below n f g \<longleftrightarrow> (\<forall>s. length s < n \<longrightarrow> f s = g s)"

lemma rewrite_core_cong:
  assumes "agree_below n f g" and "length s \<le> n"
  shows "rewrite_core env f excluded context s = rewrite_core env g excluded context s"
proof -
  have "f (payload_command pl) = g (payload_command pl)"
    if "strip_trailing_redirects s = Some (c, r)" and "parse_shell_command_wrapper c = Some (Parsed pl)" for c r pl
  proof -
    have "length c \<le> length s" using strip_trailing_redirects_split [OF that(1)] by simp
    with payload_shorter [OF that(2)] assms show ?thesis by (auto simp: agree_below_def)
  qed
  note same = this
  show ?thesis
  proof (cases "strip_trailing_redirects s")
    case (Some cr)
    obtain c r where cr: "cr = (c, r)" by (cases cr)
    show ?thesis
    proof (cases "parse_shell_command_wrapper c")
      case (Some w)
      with \<open>strip_trailing_redirects s = Some cr\<close> cr same show ?thesis by (cases w) (simp_all add: rewrite_core_def)
    qed (use Some cr in \<open>simp add: rewrite_core_def\<close>)
  qed (simp add: rewrite_core_def)
qed

end
