(* ===== verification/Rewrite_Routing.thy ===== *)
theory Rewrite_Routing
  imports Rewrite_Structure
begin

text \<open>
  The rewriter as a whole: it returns, scripts are rewritten by the same rewriter, and what a rewritten segment
  runs. The properties of compound commands hold for the rewriter of segments of this program.
\<close>

section \<open>Enough fuel\<close>

lemma str_slice_length: "str_slice s a b = Some m \<Longrightarrow> length m \<le> length s"
  by (auto simp: str_slice_def split: if_splits bind_splits dest!: str_upto_Some str_from_Some)

lemma slice_trim_length: "str_slice s a b = Some m \<Longrightarrow> length (trim m) \<le> length s"
  using str_slice_length [of s a b m] length_trim [of m] by simp

lemma peel_prefix_shorter:
  assumes "peel_prefix env ps s = Some (Peeled front rest)"
  shows "length rest \<le> length s"
proof -
  obtain e r where er: "strip_disabled_prefix env s = Some (e, r)"
    using assms by (auto simp: peel_prefix_def split: bind_splits)
  show ?thesis
  proof (cases "e = []")
    case True
    obtain ep where ep: "execution_prefix (rw_gate env) s = Some ep"
      "\<forall>a b. ep = Some (a, b) \<longrightarrow> suffix b s" using execution_prefix_total by blast
    show ?thesis
    proof (cases ep)
      case (Some ab)
      with assms er True ep show ?thesis by (cases ab) (auto simp: peel_prefix_def dest: suffix_length_le)
    next
      case None
      have "length b \<le> length s" if "strip_first_prefix s qs = Some (a, b)" for a b qs
        using that by (induction qs) (auto dest!: strip_word_prefix_suffix dest: suffix_length_le split: option.splits)
      with assms er True ep None show ?thesis by (auto simp: peel_prefix_def split: option.splits if_splits)
    qed
  next
    case False
    with assms er have "rest = r" by (auto simp: peel_prefix_def split: if_splits)
    from er obtain n y where y: "str_from (trim s) n = Some y" "r = trim y"
      by (auto simp: strip_disabled_prefix_def split: bind_splits)
    have "length y \<le> length (trim s)" using str_from_Some [OF y(1)] by auto
    then show ?thesis using y(2) \<open>rest = r\<close> length_trim [of y] length_trim [of s] by simp
  qed
qed

lemma rewrite_segment_loop_cong:
  assumes "agree_below n f g" and "length s \<le> n"
  shows "rewrite_segment_loop env f excluded ps context k s = rewrite_segment_loop env g excluded ps context k s"
  using assms(2)
proof (induction k arbitrary: s)
  case (Suc k)
  have t: "length (trim s) \<le> n" using Suc.prems length_trim [of s] by simp
  show ?case
  proof (cases "peel_prefix env ps (trim s)")
    case (Some p)
    have "length rest \<le> n" if "p = Peeled front rest" for front rest
      using peel_prefix_shorter [of env ps "trim s" front rest] Some that t by simp
    with Suc.IH Some show ?thesis by (cases p) (simp_all add: Let_def rewrite_core_cong [OF assms(1) t])
  qed (simp add: Let_def)
qed simp

definition agree_upto :: "nat \<Rightarrow> segment_rewriter \<Rightarrow> segment_rewriter \<Rightarrow> bool" where
  "agree_upto n f g \<longleftrightarrow> (\<forall>c s. length s \<le> n \<longrightarrow> f c s = g c s)"

lemma agree_uptoD: "agree_upto (length cmd) f g \<Longrightarrow> str_slice cmd a b = Some m \<Longrightarrow> f c (trim m) = g c (trim m)"
  by (auto simp: agree_upto_def dest: slice_trim_length)

lemma rewrite_parts_cong:
  assumes "agree_upto (length cmd) f g"
  shows "rewrite_clause f cmd a b = rewrite_clause g cmd a b"
    and "rewrite_pipeline env f cmd a b an = rewrite_pipeline env g cmd a b an"
proof -
  note eq = agree_uptoD [OF assms]
  show "rewrite_clause f cmd a b = rewrite_clause g cmd a b"
    using eq [of a b] by (cases "str_slice cmd a b") (simp_all add: rewrite_clause_def)
  have "rewrite_pipeline_final_stage f cmd a an = rewrite_pipeline_final_stage g cmd a an"
  proof (cases "pa_final_stage_start an")
    case (Some s)
    then show ?thesis using eq [of s "pa_end_offset an"]
      by (cases "str_slice cmd s (pa_end_offset an)") (simp_all add: rewrite_pipeline_final_stage_def)
  qed (simp add: rewrite_pipeline_final_stage_def)
  moreover have "rewrite_pipeline_producer env f cmd a b an = rewrite_pipeline_producer env g cmd a b an"
    using eq [of a b] by (cases "str_slice cmd a b") (simp_all add: rewrite_pipeline_producer_def cong: if_cong)
  ultimately show "rewrite_pipeline env f cmd a b an = rewrite_pipeline env g cmd a b an"
    by (simp add: rewrite_pipeline_def cong: option.case_cong)
qed

lemma rewrite_compound_cong:
  assumes "agree_upto (length cmd) f g"
  shows "rewrite_compound env f cmd = rewrite_compound env g cmd"
proof -
  have "compound_loop env f cmd tokens ts a out ch = compound_loop env g cmd tokens ts a out ch" for tokens ts a out ch
    by (induction ts arbitrary: a out ch) (simp_all add: rewrite_parts_cong [OF assms] cong: option.case_cong)
  then show ?thesis by (simp add: rewrite_compound_def Let_def)
qed

lemma rewrite_single_with_cong:
  assumes "agree_below (length s) f g"
  shows "rewrite_single_with env excluded ps f s = rewrite_single_with env excluded ps g s"
proof -
  have "rewrite_compound env (\<lambda>c. rewrite_segment_inner env f excluded ps c 0) s =
      rewrite_compound env (\<lambda>c. rewrite_segment_inner env g excluded ps c 0) s"
    by (rule rewrite_compound_cong)
      (simp add: agree_upto_def rewrite_segment_inner_def rewrite_segment_loop_cong [OF assms])
  then show ?thesis by (simp add: rewrite_single_with_def)
qed

lemma fuel_enough:
  "length s < n \<Longrightarrow> length s < m \<Longrightarrow> rewrite_single_fuel n env excluded ps s = rewrite_single_fuel m env excluded ps s"
proof (induction "length s" arbitrary: s n m rule: less_induct)
  case less
  then obtain n' m' where nm: "n = Suc n'" "m = Suc m'" by (meson less_imp_Suc_add)
  have "agree_below (length s) (rewrite_single_fuel n' env excluded ps) (rewrite_single_fuel m' env excluded ps)"
    unfolding agree_below_def by (intro allI impI less.hyps) (use less.prems nm in simp_all)
  from rewrite_single_with_cong [OF this] show ?case by (simp add: nm)
qed

text \<open>The equation of the source.\<close>

lemma rewrite_single_eq:
  "rewrite_single env excluded ps s = rewrite_single_with env excluded ps (rewrite_single env excluded ps) s"
proof -
  have "agree_below (length s) (rewrite_single_fuel (length s) env excluded ps) (rewrite_single env excluded ps)"
    unfolding agree_below_def rewrite_single_def by (intro allI impI fuel_enough) simp_all
  from rewrite_single_with_cong [OF this] show ?thesis by (simp add: rewrite_single_def)
qed

section \<open>What a rewritten segment runs\<close>















text \<open>The prefixes in front of a command, in the order they are looked for: assignments, unless one of them turns
  the rewriter off; a wrapper program; a transparent prefix with a command behind it. The list is what is put
  back. At the end nothing is left to take off. Nothing is peeled at a privilege elevation.\<close>

inductive peels :: "rewrite_env \<Rightarrow> rstr list \<Rightarrow> rstr \<Rightarrow> rstr list \<Rightarrow> rstr \<Rightarrow> bool" for env ps where
  peels_end: "\<lbrakk>trim seg \<noteq> []; privilege_prefix (trim seg) = None; strip_disabled_prefix env (trim seg) = Some ([], rest);
     execution_prefix (rw_gate env) (trim seg) = Some None;
     list_all (\<lambda>p. strip_word_prefix (trim seg) p = None) (builtin_transparent_prefixes @ ps)\<rbrakk> \<Longrightarrow>
   peels env ps seg [] (trim seg)"
| peels_assignments: "\<lbrakk>privilege_prefix (trim seg) = None; strip_disabled_prefix env (trim seg) = Some (front, rest); front \<noteq> [];
     \<not> prefix_contains_rtk_disabled front; peels env ps rest fronts core\<rbrakk> \<Longrightarrow>
   peels env ps seg (front # fronts) core"
| peels_execution: "\<lbrakk>privilege_prefix (trim seg) = None; strip_disabled_prefix env (trim seg) = Some ([], rest0);
     execution_prefix (rw_gate env) (trim seg) = Some (Some (p, rest)); peels env ps rest fronts core\<rbrakk> \<Longrightarrow>
   peels env ps seg ((p @ [c_space]) # fronts) core"
| peels_prefix: "\<lbrakk>privilege_prefix (trim seg) = None; strip_disabled_prefix env (trim seg) = Some ([], rest0);
     execution_prefix (rw_gate env) (trim seg) = Some None; p \<in> set (builtin_transparent_prefixes @ ps);
     strip_word_prefix (trim seg) p = Some rest; rest \<noteq> []; peels env ps rest fronts core\<rbrakk> \<Longrightarrow>
   peels env ps seg ((p @ [c_space]) # fronts) core"






section \<open>Values that reach a remote shell\<close>

lemma parse_usize_chars: "parse_usize s = Some n \<Longrightarrow> list_all (\<lambda>c. is_ascii_digit c \<or> c = c_plus) s"
  by (cases s) (auto simp: parse_usize_def Let_def list_all_iff split: if_splits)

definition remote_safe :: "rchar \<Rightarrow> bool" where
  "remote_safe c = (is_ascii_alphanumeric c \<or> c \<in> set (lit '' ._@:+-''))"

lemma remote_safe_value:
  assumes "validate_safe_value v p" and "set p \<subseteq> {c. remote_safe c}"
  shows "list_all remote_safe v"
  using assms by (auto simp: validate_safe_value_def list_all_iff remote_safe_def)

lemma remote_safe_punctuation:
  "set (lit ''._@:-'') \<subseteq> {c. remote_safe c}" "set (lit ''_.-'') \<subseteq> {c. remote_safe c}"
  "set (lit ''_.:+-TZ'') \<subseteq> {c. remote_safe c}"
  by (auto simp: remote_safe_def lit_def is_ascii_alphanumeric_def is_ascii_alphabetic_def)

lemma remote_safe_words:
  "list_all remote_safe (lit ''rtk logs '')" "list_all remote_safe (lit '' --tail '')" "list_all remote_safe (lit '' --since '')"
  "list_all remote_safe (lit '' --timestamps'')" "list_all remote_safe (lit ''100'')" "remote_safe c_space"
  by code_simp+

section \<open>Properties\<close>

text \<open>C4: Rewriting a compound command is local: the result is the command in pieces, of which some segments are
  replaced by what the rewriter of segments gives for them, with the white space around them kept, and all
  else, operators and pipes included, is copied; no replaced segment contains an operator, a pipe or a
  background token. A result has at least one change, and the slices never fail: only the rewriter of
  segments can.\<close>

theorem rewrite_compound_local:
  assumes "regex_ranges env"
  shows "case rewrite_compound env rewrite cmd of
      None \<Rightarrow> \<exists>c s. rewrite c s = None
    | Some None \<Rightarrow> True
    | Some (Some r) \<Rightarrow> \<exists>ps. pieces_source ps = cmd \<and> pieces_target ps = r \<and>
        pieces_ok (tokenize cmd) rewrite 0 ps \<and> list_ex is_change ps"
  using rewrite_compound_ok [OF assms, of rewrite cmd] by (simp add: compound_ok_def)

text \<open>C36: The rewriter of a command ends: its recursion into scripts behind \<open>-c\<close> has exactly one solution, which
  is the rewriter, since each script is shorter than the command it stands in.\<close>

theorem rewrite_single_unique:
  "f = rewrite_single env excluded ps \<longleftrightarrow> (\<forall>s. f s = rewrite_single_with env excluded ps f s)"
proof
  assume eq: "\<forall>s. f s = rewrite_single_with env excluded ps f s"
  have "f s = rewrite_single env excluded ps s" for s
  proof (induction "length s" arbitrary: s rule: less_induct)
    case less
    then have "agree_below (length s) f (rewrite_single env excluded ps)" by (simp add: agree_below_def)
    from rewrite_single_with_cong [OF this] eq show ?case by (metis rewrite_single_eq)
  qed
  then show "f = rewrite_single env excluded ps" by auto
qed (metis rewrite_single_eq)


text \<open>A remote log command that is rewritten carries nothing the remote shell could interpret: it consists of
  letters, digits, blanks and the characters \<open>._@:+-\<close> only.\<close>

lemma remote_logs_safe:
  assumes "rewrite_remote_docker_logs env command = Some r"
  shows "list_all remote_safe r"
proof -
  from assms obtain host st container where r: "r = logs_command host st container"
    and h: "validate_safe_value host (lit ''._@:-'')" and c: "validate_safe_value container (lit ''_.-'')"
    and s: "\<forall>s. la_since st = Some s \<longrightarrow> validate_safe_value s (lit ''_.:+-TZ'')"
    and t: "\<forall>t. la_tail st = Some t \<longrightarrow> (\<exists>n. parse_usize t = Some n)"
    by (auto simp: rewrite_remote_docker_logs_def Let_def split: if_splits option.splits)
  have "list_all remote_safe t" if "la_tail st = Some t" for t
    using t that parse_usize_chars [of t]
    by (auto simp: list_all_iff remote_safe_def lit_def is_ascii_alphanumeric_def)
  moreover have "list_all remote_safe s'" if "la_since st = Some s'" for s'
    using s that remote_safe_value remote_safe_punctuation(3) by blast
  moreover have "list_all remote_safe host" "list_all remote_safe container"
    using h c remote_safe_value remote_safe_punctuation by blast+
  ultimately show ?thesis unfolding r logs_command_def
    by (auto simp: remote_safe_words split: option.splits)
qed

section \<open>Samples\<close>

text \<open>An environment in which no pattern matches, and one in which a single pattern does.\<close>

definition bare_env :: rewrite_env where
  "bare_env = \<lparr>rw_gate = plain_env, rw_find = \<lambda>p s. None, rw_group = \<lambda>p s. None, rw_replace_all = \<lambda>p s r. s,
     rw_compiles = \<lambda>p. True, rw_escape = id, rw_toml_disabled = True, rw_matches_filter = \<lambda>s. False,
     rw_gh_pack_json = False, rw_path_finds_rtk = \<lambda>s. True\<rparr>"

definition one_match :: "rstr \<Rightarrow> rewrite_env" where
  "one_match p = bare_env\<lparr>rw_find := \<lambda>q s. if q = p then Some (0, 0) else None\<rparr>"

definition sample_rewriter :: segment_rewriter where
  "sample_rewriter c = rewrite_segment_inner bare_env (rewrite_single bare_env [] []) [] [] c 0"

lemma bare_env_ranges: "regex_ranges bare_env"
  by (simp add: regex_ranges_def bare_env_def)

theorem rewrite_compound_local_witness:
  "\<exists>ps. pieces_source ps = lit ''tar -tf a && ls'' \<and> pieces_target ps = lit ''rtk tar --max-entries 100 -tf a && ls'' \<and>
     pieces_ok (tokenize (lit ''tar -tf a && ls'')) sample_rewriter 0 ps \<and> list_ex is_change ps"
proof -
  have "rewrite_compound bare_env sample_rewriter (lit ''tar -tf a && ls'') =
      Some (Some (lit ''rtk tar --max-entries 100 -tf a && ls''))" by code_simp
  with rewrite_compound_local [OF bare_env_ranges, of sample_rewriter "lit ''tar -tf a && ls''"] show ?thesis by simp
qed


text \<open>A segment that turns the rewriter off, or elevates privileges, has no such reading at all.\<close>

inductive_cases peelsE: "peels env ps seg fronts core"

lemma disabled_never_peels:
  assumes "strip_disabled_prefix env (trim seg) = Some (front, rest)" and "front \<noteq> []"
    and "prefix_contains_rtk_disabled front"
  shows "\<not> peels env ps seg fronts core"
  using assms by (auto elim: peelsE)

lemma privilege_never_peels: "privilege_prefix (trim seg) \<noteq> None \<Longrightarrow> \<not> peels env ps seg fronts core"
  by (auto elim: peelsE)

lemma remote_logs_safe_witness:
  "rewrite_remote_docker_logs bare_env (lit ''ssh h docker logs -t c'') = Some (lit ''rtk logs h c --tail 100 --timestamps'') \<and>
   list_all remote_safe (lit ''rtk logs h c --tail 100 --timestamps'')"
proof -
  have "rewrite_remote_docker_logs bare_env (lit ''ssh h docker logs -t c'') = Some (lit ''rtk logs h c --tail 100 --timestamps'')"
    by code_simp
  with remote_logs_safe show ?thesis by blast
qed

section \<open>Where the rewriter departs from its comments\<close>

text \<open>The redirects at the end of a golangci command are dropped: the result is the same for every suffix.\<close>

lemma golangci_parts: "parse_golangci_run_parts (lit ''golangci-lint run'') = Some (Some ([], lit ''run''))"
  by code_simp

lemma golangci_ruled: "\<not> list_all (\<lambda>r. rule_rtk_cmd r \<noteq> lit ''rtk golangci-lint run'') RULES"
  by code_simp

lemma golangci_redirect_lost:
  "apply_rule env NormalContext (lit ''golangci-lint run'') redirect_suffix (lit ''rtk golangci-lint run'') =
     Some (Some (lit ''rtk golangci-lint run''))"
proof -
  obtain r where r: "find (\<lambda>r. rule_rtk_cmd r = lit ''rtk golangci-lint run'') RULES = Some r"
    using golangci_ruled by (cases "find (\<lambda>r. rule_rtk_cmd r = lit ''rtk golangci-lint run'') RULES")
      (auto simp only: find_None_iff list_all_iff)
  have "lit ''rtk golangci-lint '' @ lit ''run'' = lit ''rtk golangci-lint run''" by code_simp
  then show ?thesis by (simp only: apply_rule_def r golangci_parts option.case rewrite_context.distinct
      simp_thms if_True if_False Option.bind.bind_lunit prod.case)
qed

text \<open>Several rules carry the same command, \<open>rtk rgai\<close> among them; a search takes the first of them, which has no
  prefix for the commands of the others.\<close>

lemma rgai_rule_unreachable:
  "apply_rule bare_env NormalContext (lit ''rgai foo'') [] (lit ''rtk rgai'') = Some None \<and>
   list_ex (\<lambda>r. rule_rtk_cmd r = lit ''rtk rgai'' \<and> lit ''rgai'' \<in> set (rule_rewrite_prefixes r)) RULES"
  by (intro conjI; code_simp)

text \<open>The typed forms are rewritten before the exclusion list is asked.\<close>

lemma typed_forms_ignore_exclusions:
  "rewrite_typed_gap env cmd = Some r \<Longrightarrow> rewrite_plain env excluded context cmd sfx = Some (Some (r @ sfx))"
  by (simp add: rewrite_plain_def)

text \<open>A command whose output goes to a file is left alone, but not inside a script.\<close>

lemma script_output_redirected:
  "rewrite_command_impl bare_env (lit ''tar -tf a >f'') [] [] = Some None \<and>
   rewrite_command_impl bare_env (lit ''sh -c 'tar -tf a >f'' @ [c_squote]) [] [] =
     Some (Some (lit ''sh -c 'rtk tar --max-entries 100 -tf a >f'' @ [c_squote]))"
  by (intro conjI; code_simp)

end
