(* ===== verification/Rewrite_Outcome.thy ===== *)
theory Rewrite_Outcome
  imports Rewrite_Routing
begin

text \<open>
  What the rewriter decides for a command (\<open>rewrite_command_outcome_with_fidelity\<close> of
  \<open>fork-core/rtk/src/discover/registry.rs\<close>): the three walks through prefixes and scripts that come before and
  after the rewriting itself. One asks whether a shell wrapper cannot be read, one whether a command needs the
  operator's consent, and one, on the rewritten text, whether an assignment to \<open>PATH\<close> hides the managed
  executable.

  The walks recurse on the rest of the command. The configured prefixes reach them as they are written in the
  configuration, and with an empty one among them two of the walks do not end; so they carry fuel, and running
  out of it is a result of its own.
\<close>

section \<open>Results of the walks\<close>

datatype 'a run = OutOfFuel | Panicked | Returned 'a

primrec any_run :: "('a \<Rightarrow> bool run) \<Rightarrow> 'a list \<Rightarrow> bool run" where
  "any_run f [] = Returned False"
| "any_run f (x # xs) = (case f x of Returned b \<Rightarrow> if b then Returned True else any_run f xs | r \<Rightarrow> r)"

primrec all_run :: "('a \<Rightarrow> bool run) \<Rightarrow> 'a list \<Rightarrow> bool run" where
  "all_run f [] = Returned True"
| "all_run f (x # xs) = (case f x of Returned b \<Rightarrow> if b then all_run f xs else Returned False | r \<Rightarrow> r)"

lemma any_run_False: "any_run f xs = Returned False \<longleftrightarrow> (\<forall>x \<in> set xs. f x = Returned False)"
  by (induction xs) (auto split: run.splits if_splits)

lemma all_run_True: "all_run f xs = Returned True \<longleftrightarrow> (\<forall>x \<in> set xs. f x = Returned True)"
  by (induction xs) (auto split: run.splits if_splits)

lemma any_run_fuel: "any_run f xs = OutOfFuel \<Longrightarrow> \<exists>x \<in> set xs. f x = OutOfFuel"
  by (induction xs) (auto split: run.splits if_splits)

lemma all_run_fuel: "all_run f xs = OutOfFuel \<Longrightarrow> \<exists>x \<in> set xs. f x = OutOfFuel"
  by (induction xs) (auto split: run.splits if_splits)

lemma any_run_cong [fundef_cong]: "xs = ys \<Longrightarrow> (\<And>x. x \<in> set ys \<Longrightarrow> f x = g x) \<Longrightarrow> any_run f xs = any_run g ys"
  by (induction xs arbitrary: ys) (auto split: run.splits)

lemma all_run_cong [fundef_cong]: "xs = ys \<Longrightarrow> (\<And>x. x \<in> set ys \<Longrightarrow> f x = g x) \<Longrightarrow> all_run f xs = all_run g ys"
  by (induction xs arbitrary: ys) (auto split: run.splits)

section \<open>One step of a walk\<close>

datatype walked = AfterEnv rstr | AfterExecution rstr | AfterPrefix rstr | WalkedCore

fun walked_rest :: "walked \<Rightarrow> rstr option" where
  "walked_rest (AfterEnv rest) = Some rest"
| "walked_rest (AfterExecution rest) = Some rest"
| "walked_rest (AfterPrefix rest) = Some rest"
| "walked_rest WalkedCore = None"

text \<open>The environment in front of the command, and what is peeled from it.\<close>

definition walk :: "rewrite_env \<Rightarrow> rstr list \<Rightarrow> rstr \<Rightarrow> (rstr \<times> walked) option" where
  "walk env transparent_prefixes trimmed = do {
     (environment, command) \<leftarrow> strip_disabled_prefix env trimmed;
     (if command \<noteq> trimmed then Some (environment, AfterEnv command)
      else do {
        ep \<leftarrow> execution_prefix (rw_gate env) trimmed;
        Some (environment,
          case ep of
            Some (_, child) \<Rightarrow> AfterExecution child
          | None \<Rightarrow>
              (case strip_first_prefix trimmed (builtin_transparent_prefixes @ transparent_prefixes) of
                 Some (_, rest) \<Rightarrow> AfterPrefix rest
               | None \<Rightarrow> WalkedCore))
      })
   }"

section \<open>Wrappers that cannot be read\<close>

definition max_shell_wrapper_depth :: nat where
  "max_shell_wrapper_depth = 3"

primrec shell_segment_is_ambiguous ::
  "nat \<Rightarrow> rewrite_env \<Rightarrow> rstr list \<Rightarrow> nat \<Rightarrow> rstr \<Rightarrow> bool run" where
  "shell_segment_is_ambiguous 0 env transparent_prefixes depth segment = OutOfFuel"
| "shell_segment_is_ambiguous (Suc n) env transparent_prefixes depth segment =
     (let trimmed = trim segment
      in case walk env transparent_prefixes trimmed of
           None \<Rightarrow> Panicked
         | Some (_, w) \<Rightarrow>
             (case w of
                AfterEnv after_env \<Rightarrow> shell_segment_is_ambiguous n env transparent_prefixes depth after_env
              | AfterExecution child \<Rightarrow> shell_segment_is_ambiguous n env transparent_prefixes (depth + 1) child
              | AfterPrefix rest \<Rightarrow> shell_segment_is_ambiguous n env transparent_prefixes depth rest
              | WalkedCore \<Rightarrow>
                  (case parse_shell_command_wrapper trimmed of
                     None \<Rightarrow> Panicked
                   | Some Ambiguous \<Rightarrow> Returned True
                   | Some (Parsed payload) \<Rightarrow>
                       if max_shell_wrapper_depth \<le> depth then Returned True
                       else (case split_on_operators (payload_command payload) False of
                               None \<Rightarrow> Panicked
                             | Some segments \<Rightarrow>
                                 any_run (shell_segment_is_ambiguous n env transparent_prefixes (depth + 1)) segments)
                   | Some NotWrapper \<Rightarrow> Returned False)))"

definition shell_wrapper_is_ambiguous :: "rewrite_env \<Rightarrow> rstr \<Rightarrow> rstr list \<Rightarrow> nat \<Rightarrow> bool run" where
  "shell_wrapper_is_ambiguous env command transparent_prefixes depth =
     (case split_on_operators command False of
        None \<Rightarrow> Panicked
      | Some segments \<Rightarrow>
          any_run (shell_segment_is_ambiguous (length command + 1) env transparent_prefixes depth) segments)"

section \<open>Commands that need consent\<close>

definition looks_like_remote_logs :: "rstr list \<Rightarrow> bool" where
  "looks_like_remote_logs words =
     (list_ex (\<lambda>(a, b). a = lit ''docker'' \<and> b = lit ''logs'') (zip words (tl words)) \<or>
      list_ex (\<lambda>word. take 2 (ascii_words word) = [lit ''docker'', lit ''logs'']) (tl words))"

definition typed_gap_requires_ask :: "rewrite_env \<Rightarrow> rstr \<Rightarrow> bool" where
  "typed_gap_requires_ask env command =
     (case shell_split command of
        [] \<Rightarrow> False
      | word # words \<Rightarrow>
          let program = executable_name (rw_gate env) word
          in if program = lit ''sqlite3'' then rewrite_sqlite_select env command = None
             else if program = lit ''tar'' then rewrite_tar_listing env command = None
             else if program = lit ''ssh'' \<and> looks_like_remote_logs (word # words)
             then rewrite_remote_docker_logs env command = None
             else False)"

fun redirected_files :: "parsed_token list \<Rightarrow> rstr list" where
  "redirected_files [] = []"
| "redirected_files (t # ts) =
     (if tok_kind t = Redirect \<and> tok_value t \<in> {lit ''>'', lit ''1>'', lit ''>>''}
      then (case ts of u # _ \<Rightarrow> if tok_kind u = Arg then [tok_value u] else [] | [] \<Rightarrow> []) else []) @
     redirected_files ts"

definition tails_one_of :: "rewrite_env \<Rightarrow> rstr list \<Rightarrow> rstr \<Rightarrow> bool" where
  "tails_one_of env files segment =
     (let words = shell_split segment
      in words \<noteq> [] \<and> executable_name (rw_gate env) (hd words) = lit ''tail'' \<and> last words \<in> set files)"

definition temp_log_requires_ask :: "rewrite_env \<Rightarrow> rstr \<Rightarrow> bool option" where
  "temp_log_requires_ask env command =
     (let files = redirected_files (tokenize command)
      in if files = [] then Some False
         else map_option (list_ex (tails_one_of env files)) (split_on_operators command False))"

text \<open>The depth that is left bounds the walk. A script is asked about as a command of its own.\<close>

primrec segment_asks :: "rewrite_env \<Rightarrow> rstr list \<Rightarrow> nat \<Rightarrow> rstr \<Rightarrow> bool option" where
  "segment_asks env transparent_prefixes 0 segment = Some True"
| "segment_asks env transparent_prefixes (Suc n) segment =
     (let trimmed = trim segment
      in do {
        (_, w) \<leftarrow> walk env transparent_prefixes trimmed;
        (case walked_rest w of
           Some rest \<Rightarrow> segment_asks env transparent_prefixes n rest
         | None \<Rightarrow> do {
             wrapper \<leftarrow> parse_shell_command_wrapper trimmed;
             (case wrapper of
                Parsed payload \<Rightarrow> do {
                  logs \<leftarrow> temp_log_requires_ask env (payload_command payload);
                  (if logs then Some True
                   else do {
                     segments \<leftarrow> split_on_operators (payload_command payload) False;
                     any_m (segment_asks env transparent_prefixes n) segments
                   })
                }
              | _ \<Rightarrow> Some (typed_gap_requires_ask env trimmed))
           })
      })"

definition segment_requires_ask :: "rewrite_env \<Rightarrow> rstr \<Rightarrow> rstr list \<Rightarrow> nat \<Rightarrow> bool option" where
  "segment_requires_ask env segment transparent_prefixes depth =
     segment_asks env transparent_prefixes (max_prefix_depth - depth) segment"

definition opaque_wrapper_requires_ask :: "rewrite_env \<Rightarrow> rstr \<Rightarrow> rstr list \<Rightarrow> nat \<Rightarrow> bool option" where
  "opaque_wrapper_requires_ask env command transparent_prefixes depth = do {
     logs \<leftarrow> temp_log_requires_ask env command;
     (if logs then Some True
      else do {
        segments \<leftarrow> split_on_operators command False;
        any_m (\<lambda>s. segment_requires_ask env s transparent_prefixes depth) segments
      })
   }"

section \<open>Assignments to \<open>PATH\<close>\<close>

text \<open>The last assignment decides; whether its directories hold the managed executable is an argument.\<close>

definition path_override_resolves_rtk :: "rewrite_env \<Rightarrow> rstr \<Rightarrow> bool option" where
  "path_override_resolves_rtk env environment =
     (case List.map_filter (\<lambda>word. strip_prefix word (lit ''PATH='')) (rev (shell_split environment)) of
        [] \<Rightarrow> None
      | path # _ \<Rightarrow> Some (rw_path_finds_rtk env path))"

primrec rewritten_segment_path_resolves_rtk ::
  "nat \<Rightarrow> rewrite_env \<Rightarrow> rstr list \<Rightarrow> nat \<Rightarrow> rstr \<Rightarrow> bool run" where
  "rewritten_segment_path_resolves_rtk 0 env transparent_prefixes depth segment = OutOfFuel"
| "rewritten_segment_path_resolves_rtk (Suc n) env transparent_prefixes depth segment =
     (let trimmed = trim segment
      in case walk env transparent_prefixes trimmed of
           None \<Rightarrow> Panicked
         | Some (environment, w) \<Rightarrow>
             if path_override_resolves_rtk env environment = Some False then Returned False
             else (case walked_rest w of
                Some rest \<Rightarrow> rewritten_segment_path_resolves_rtk n env transparent_prefixes (depth + 1) rest
              | None \<Rightarrow>
                  (case parse_shell_command_wrapper trimmed of
                     None \<Rightarrow> Panicked
                   | Some (Parsed payload) \<Rightarrow>
                       if max_prefix_depth \<le> depth + 1 then Returned False
                       else (case split_on_operators (payload_command payload) False of
                               None \<Rightarrow> Panicked
                             | Some segments \<Rightarrow>
                                 all_run (rewritten_segment_path_resolves_rtk n env transparent_prefixes (depth + 1))
                                   segments)
                   | Some Ambiguous \<Rightarrow> Returned False
                   | Some NotWrapper \<Rightarrow> Returned True)))"

definition rewritten_path_resolves_rtk :: "rewrite_env \<Rightarrow> rstr \<Rightarrow> rstr list \<Rightarrow> nat \<Rightarrow> bool run" where
  "rewritten_path_resolves_rtk env command transparent_prefixes depth =
     (if max_prefix_depth \<le> depth then Returned False
      else (case split_on_operators command False of
              None \<Rightarrow> Panicked
            | Some segments \<Rightarrow>
                all_run (rewritten_segment_path_resolves_rtk (length command + 1) env transparent_prefixes depth)
                  segments))"

section \<open>The outcome\<close>

datatype rewrite_outcome = Rewritten rstr | ByteFidelityProxy | NoEquivalent | AmbiguousShell | PolicyAsk

definition checked_rewriting :: "rewrite_env \<Rightarrow> rstr list \<Rightarrow> bool \<Rightarrow> rstr option \<Rightarrow> rewrite_outcome run" where
  "checked_rewriting env transparent_prefixes byte_fidelity r =
     (case r of
        None \<Rightarrow> Returned NoEquivalent
      | Some command \<Rightarrow>
          (case rewritten_path_resolves_rtk env command transparent_prefixes 0 of
             Returned ok \<Rightarrow>
               Returned (if \<not> ok then PolicyAsk else if byte_fidelity then ByteFidelityProxy else Rewritten command)
           | OutOfFuel \<Rightarrow> OutOfFuel
           | Panicked \<Rightarrow> Panicked))"

definition rewrite_command_outcome_with_fidelity ::
  "rewrite_env \<Rightarrow> rstr \<Rightarrow> rstr list \<Rightarrow> rstr list \<Rightarrow> bool \<Rightarrow> rewrite_outcome run" where
  "rewrite_command_outcome_with_fidelity env cmd excluded transparent_prefixes byte_fidelity =
     (case shell_wrapper_is_ambiguous env cmd transparent_prefixes 0 of
        Returned ambiguous \<Rightarrow>
          if ambiguous then Returned AmbiguousShell
          else (case opaque_wrapper_requires_ask env cmd transparent_prefixes 0 of
                  None \<Rightarrow> Panicked
                | Some ask \<Rightarrow>
                    if ask then Returned PolicyAsk
                    else (case rewrite_command_impl env cmd excluded transparent_prefixes of
                            None \<Rightarrow> Panicked
                          | Some r \<Rightarrow> checked_rewriting env transparent_prefixes byte_fidelity r))
      | OutOfFuel \<Rightarrow> OutOfFuel
      | Panicked \<Rightarrow> Panicked)"

section \<open>The walks get shorter\<close>

lemma strip_disabled_shorter:
  assumes "strip_disabled_prefix env (trim s) = Some (e, r)" and "r \<noteq> trim s"
  shows "length r < length (trim s)"
proof -
  obtain n y where y: "str_from (trim s) n = Some y" "r = trim y"
    using assms(1) by (auto simp: strip_disabled_prefix_def split: bind_splits)
  obtain p where p: "trim s = p @ y" using str_from_Some [OF y(1)] by auto
  show ?thesis
  proof (cases "p = []")
    case True
    then show ?thesis using p y(2) assms(2) by (metis append_Nil trim_idem)
  next
    case False
    then have "length y < length (trim s)" using p by simp
    then show ?thesis using y(2) length_trim [of y] by simp
  qed
qed

lemma execution_prefix_child:
  assumes "execution_prefix env cmd = Some (Some (a, b))"
  obtains p args c r where "filter (\<lambda>t. tok_kind t = Arg) (tokenize cmd) = p # args" and "c \<in> set args"
    and "str_from cmd (tok_offset c) = Some r" and "b = trim_start r"
proof -
  obtain p args where f: "filter (\<lambda>t. tok_kind t = Arg) (tokenize cmd) = p # args"
    using assms by (cases "filter (\<lambda>t. tok_kind t = Arg) (tokenize cmd)") (simp_all add: execution_prefix_def)
  obtain c more where c: "prefix_child (executable_name env (tok_value p)) args = Some (c # more)"
    using assms by (simp add: execution_prefix_def f split: option.splits list.splits)
  obtain r where r: "str_from cmd (tok_offset c) = Some r" "b = trim_start r"
    using assms by (simp add: execution_prefix_def f c split: bind_splits)
  have "c \<in> set args" using prefix_child_set [OF c] by simp
  then show thesis by (rule that [OF f _ r])
qed

lemma execution_prefix_shorter:
  assumes "execution_prefix env cmd = Some (Some (a, b))"
  shows "length b < length cmd"
proof -
  obtain p args c r where f: "filter (\<lambda>t. tok_kind t = Arg) (tokenize cmd) = p # args" and c: "c \<in> set args"
    and r: "str_from cmd (tok_offset c) = Some r" "b = trim_start r"
    using assms by (rule execution_prefix_child)
  have "sorted_wrt (\<lambda>t u. tok_end t \<le> tok_offset u) (p # args)"
    using sorted_wrt_filter [OF words.tokens_ordered [of cmd], of "\<lambda>t. tok_kind t = Arg"] unfolding f .
  then have "tok_end p \<le> tok_offset c" using c by simp
  moreover have "p \<in> set (tokenize cmd)"
    using f filter_is_subset [of "\<lambda>t. tok_kind t = Arg" "tokenize cmd"] by (metis list.set_intros(1) subsetD)
  ultimately have "0 < tok_offset c" using token_boundaries(3) [of p cmd] by linarith
  then obtain q where q: "cmd = q @ r" "q \<noteq> []" using str_from_Some [OF r(1)] by (metis blen_eq_0 less_numeral_extra(3))
  then have "length r < length cmd" by simp
  then show ?thesis using r(2) length_trim_start [of r] by simp
qed

lemma strip_word_prefix_shorter:
  assumes s: "strip_word_prefix cmd p = Some r" and p: "p \<noteq> []"
  shows "length r < length cmd"
proof -
  have "length (trim_start x) < length cmd" if "cmd = p @ c # x" for c x
    using that length_trim_start [of x] by simp
  with s p show ?thesis
    by (auto simp: strip_word_prefix_def strip_prefix_Some_iff split: if_splits option.splits list.splits)
qed

lemma strip_first_prefix_shorter:
  "strip_first_prefix cmd ps = Some (p, r) \<Longrightarrow> [] \<notin> set ps \<Longrightarrow> length r < length cmd"
  by (induction ps) (auto split: option.splits dest: strip_word_prefix_shorter)

lemma builtin_not_empty: "[] \<notin> set builtin_transparent_prefixes"
  by (simp add: builtin_transparent_prefixes_def lit_def)

lemma walk_shorter:
  assumes "walk env ps (trim s) = Some (e, w)" and "walked_rest w = Some r" and "[] \<notin> set ps"
  shows "length r < length (trim s)"
proof -
  obtain c where c: "strip_disabled_prefix env (trim s) = Some (e, c)"
    using assms(1) by (auto simp: walk_def split: bind_splits if_splits)
  show ?thesis
  proof (cases "c = trim s")
    case False
    with assms(1,2) c have "r = c" by (auto simp: walk_def)
    with strip_disabled_shorter [OF c False] show ?thesis by simp
  next
    case True
    obtain ep where ep: "execution_prefix (rw_gate env) (trim s) = Some ep" using execution_prefix_total by blast
    with assms(1) c True have w: "w = (case ep of Some (_, child) \<Rightarrow> AfterExecution child
        | None \<Rightarrow> (case strip_first_prefix (trim s) (builtin_transparent_prefixes @ ps) of
            Some (_, rest) \<Rightarrow> AfterPrefix rest | None \<Rightarrow> WalkedCore))"
      by (simp add: walk_def)
    show ?thesis
    proof (cases ep)
      case (Some ab)
      with w assms(2) execution_prefix_shorter [of "rw_gate env" "trim s" "fst ab" "snd ab"] ep show ?thesis
        by (cases ab) simp
    next
      case None
      with w assms(2,3) show ?thesis
        by (auto dest: strip_first_prefix_shorter simp: builtin_not_empty split: option.splits)
    qed
  qed
qed

lemma operator_loop_lengths:
  "operator_loop s stop_pipe ts n rs = Some segs \<Longrightarrow> x \<in> set segs \<Longrightarrow> \<forall>y \<in> set rs. length y \<le> length s \<Longrightarrow>
   length x \<le> length s"
proof (induction s stop_pipe ts n rs rule: operator_loop.induct)
  case (1 s stop_pipe n rs)
  from "1.prems"(1) obtain y where y: "str_from s n = Some y" by (auto split: bind_splits)
  then have "length (trim y) \<le> length s" using str_from_Some [OF y] length_trim [of y] by auto
  with 1 y show ?case by (auto split: if_splits)
next
  case (2 s stop_pipe t ts n rs)
  have push: "\<forall>y \<in> set rs'. length y \<le> length s" if "push_segment s n (tok_offset t) rs = Some rs'" for rs'
    using that "2.prems"(3) slice_trim_length by (auto simp: push_segment_def split: bind_splits if_splits)
  show ?case
    by (cases "tok_kind t") (use 2 push in \<open>auto split: bind_splits if_splits\<close>)
qed

lemma split_lengths: "split_on_operators cmd b = Some segs \<Longrightarrow> x \<in> set segs \<Longrightarrow> length x \<le> length cmd"
  using operator_loop_lengths [of "trim cmd" b "tokenize (trim cmd)" 0 "[]" segs x] length_trim [of cmd]
  by (auto simp: split_on_operators_def Let_def split: if_splits)

lemma script_segment_shorter:
  assumes "parse_shell_command_wrapper (trim s) = Some (Parsed pl)"
    and "split_on_operators (payload_command pl) False = Some segs" and "x \<in> set segs"
  shows "length x < length s"
  using payload_shorter [OF assms(1)] split_lengths [OF assms(2,3)] length_trim [of s] by simp

section \<open>Enough fuel for every command, but for an empty prefix\<close>

lemma ambiguous_returns:
  "[] \<notin> set ps \<Longrightarrow> length seg < n \<Longrightarrow> shell_segment_is_ambiguous n env ps depth seg \<noteq> OutOfFuel"
proof (induction n arbitrary: depth seg)
  case (Suc n)
  have peel: "shell_segment_is_ambiguous n env ps d r \<noteq> OutOfFuel"
    if "walk env ps (trim seg) = Some (e, w)" "walked_rest w = Some r" for d r e w
    using Suc.IH [OF Suc.prems(1), of r d] walk_shorter [OF that Suc.prems(1)] length_trim [of seg] Suc.prems(2) by simp
  have script: "any_run (shell_segment_is_ambiguous n env ps d) segs \<noteq> OutOfFuel"
    if "parse_shell_command_wrapper (trim seg) = Some (Parsed pl)"
      "split_on_operators (payload_command pl) False = Some segs" for pl segs d
    using Suc.IH [OF Suc.prems(1)] script_segment_shorter [OF that] Suc.prems(2)
      any_run_fuel [of "shell_segment_is_ambiguous n env ps d" segs] by fastforce
  show ?case
    by (auto simp: Let_def peel script split: option.splits walked.splits shell_wrapper_parse.splits)
qed simp

lemma path_resolves_returns:
  "[] \<notin> set ps \<Longrightarrow> length seg < n \<Longrightarrow> rewritten_segment_path_resolves_rtk n env ps depth seg \<noteq> OutOfFuel"
proof (induction n arbitrary: depth seg)
  case (Suc n)
  have peel: "rewritten_segment_path_resolves_rtk n env ps d r \<noteq> OutOfFuel"
    if "walk env ps (trim seg) = Some (e, w)" "walked_rest w = Some r" for d r e w
    using Suc.IH [OF Suc.prems(1), of r d] walk_shorter [OF that Suc.prems(1)] length_trim [of seg] Suc.prems(2) by simp
  have script: "all_run (rewritten_segment_path_resolves_rtk n env ps d) segs \<noteq> OutOfFuel"
    if "parse_shell_command_wrapper (trim seg) = Some (Parsed pl)"
      "split_on_operators (payload_command pl) False = Some segs" for pl segs d
    using Suc.IH [OF Suc.prems(1)] script_segment_shorter [OF that] Suc.prems(2)
      all_run_fuel [of "rewritten_segment_path_resolves_rtk n env ps d" segs] by fastforce
  show ?case
    by (auto simp: Let_def peel script split: option.splits shell_wrapper_parse.splits)
qed simp

lemma wrapper_ambiguous_returns:
  assumes "[] \<notin> set ps" shows "shell_wrapper_is_ambiguous env cmd ps depth \<noteq> OutOfFuel"
proof (cases "split_on_operators cmd False")
  case (Some segs)
  have "shell_segment_is_ambiguous (length cmd + 1) env ps depth x \<noteq> OutOfFuel" if "x \<in> set segs" for x
    using split_lengths [OF Some that] by (intro ambiguous_returns [OF assms]) simp
  then have "any_run (shell_segment_is_ambiguous (length cmd + 1) env ps depth) segs \<noteq> OutOfFuel"
    using any_run_fuel by blast
  then show ?thesis by (simp add: shell_wrapper_is_ambiguous_def Some)
qed (simp add: shell_wrapper_is_ambiguous_def)

lemma rewritten_path_returns:
  assumes "[] \<notin> set ps" shows "rewritten_path_resolves_rtk env cmd ps depth \<noteq> OutOfFuel"
proof (cases "split_on_operators cmd False")
  case (Some segs)
  have "rewritten_segment_path_resolves_rtk (length cmd + 1) env ps depth x \<noteq> OutOfFuel" if "x \<in> set segs" for x
    using split_lengths [OF Some that] by (intro path_resolves_returns [OF assms]) simp
  then have "all_run (rewritten_segment_path_resolves_rtk (length cmd + 1) env ps depth) segs \<noteq> OutOfFuel"
    using all_run_fuel by blast
  then show ?thesis by (simp add: rewritten_path_resolves_rtk_def Some)
qed (simp add: rewritten_path_resolves_rtk_def)

section \<open>What a walk visits\<close>

text \<open>The commands that a segment runs: itself without the white space around it, what is left after a prefix,
  and the segments of a script.\<close>

inductive visits :: "rewrite_env \<Rightarrow> rstr list \<Rightarrow> rstr \<Rightarrow> rstr \<Rightarrow> bool" for env ps where
  visits_here: "visits env ps seg (trim seg)"
| visits_rest: "\<lbrakk>walk env ps (trim seg) = Some (e, w); walked_rest w = Some rest; visits env ps rest t\<rbrakk> \<Longrightarrow>
    visits env ps seg t"
| visits_script: "\<lbrakk>walk env ps (trim seg) = Some (e, WalkedCore); parse_shell_command_wrapper (trim seg) = Some (Parsed pl);
    split_on_operators (payload_command pl) False = Some segs; s \<in> set segs; visits env ps s t\<rbrakk> \<Longrightarrow>
    visits env ps seg t"

text \<open>What holds of a visited command when the first two walks find nothing: a shell wrapper is readable, and what
  is no shell wrapper needs no consent.\<close>

lemma not_ambiguous_visits:
  assumes "visits env ps seg t" and "shell_segment_is_ambiguous n env ps depth seg = Returned False"
    and "walk env ps t = Some (e, WalkedCore)"
  shows "parse_shell_command_wrapper t \<noteq> Some Ambiguous"
  using assms
proof (induction arbitrary: n depth rule: visits.induct)
  case (visits_here seg)
  then show ?case by (cases n) (auto simp: Let_def split: option.splits)
next
  case (visits_rest seg e' w rest t)
  then show ?case
    by (cases n; cases w) (auto simp: Let_def)
next
  case (visits_script seg e' pl segs s t)
  then obtain m where "n = Suc m" by (cases n) auto
  with visits_script have "shell_segment_is_ambiguous m env ps (depth + 1) s = Returned False"
    by (simp add: Let_def any_run_False split: if_splits)
  with visits_script show ?case by blast
qed

lemma no_ask_visits:
  assumes "visits env ps seg t" and "segment_asks env ps n seg = Some False"
    and "walk env ps t = Some (e, WalkedCore)" and "\<And>pl. parse_shell_command_wrapper t \<noteq> Some (Parsed pl)"
  shows "\<not> typed_gap_requires_ask env t"
  using assms
proof (induction arbitrary: n rule: visits.induct)
  case (visits_here seg)
  then show ?case
    by (cases n) (auto simp: Let_def split: bind_splits shell_wrapper_parse.splits)
next
  case (visits_rest seg e' w rest t)
  then show ?case by (cases n) (auto simp: Let_def)
next
  case (visits_script seg e' pl segs s t)
  then obtain m where "n = Suc m" by (cases n) auto
  with visits_script.prems(1) visits_script.hyps(1-3) have "any_m (segment_asks env ps m) segs = Some False"
    by (simp add: Let_def split: bind_splits if_splits)
  then have "segment_asks env ps m s = Some False" using visits_script.hyps(4) by (rule any_m_False)
  then show ?case using visits_script.prems(2,3) by (rule visits_script.IH)
qed

lemma path_resolves_visits:
  assumes "visits env ps seg t" and "rewritten_segment_path_resolves_rtk n env ps depth seg = Returned True"
    and "walk env ps t = Some (e, w')"
  shows "path_override_resolves_rtk env e \<noteq> Some False"
  using assms
proof (induction arbitrary: n depth rule: visits.induct)
  case (visits_here seg)
  then show ?case by (cases n) (auto simp: Let_def split: if_splits)
next
  case (visits_rest seg e' w rest t)
  then show ?case by (cases n) (auto simp: Let_def split: if_splits)
next
  case (visits_script seg e' pl segs s t)
  then obtain m where "n = Suc m" by (cases n) auto
  with visits_script have "rewritten_segment_path_resolves_rtk m env ps (depth + 1) s = Returned True"
    by (simp add: Let_def all_run_True split: if_splits)
  with visits_script show ?case by blast
qed

text \<open>The commands a command line runs.\<close>

definition reaches :: "rewrite_env \<Rightarrow> rstr list \<Rightarrow> rstr \<Rightarrow> rstr \<Rightarrow> bool" where
  "reaches env ps cmd t \<longleftrightarrow> (\<exists>segs s. split_on_operators cmd False = Some segs \<and> s \<in> set segs \<and> visits env ps s t)"

lemma outcome_Rewritten:
  assumes "rewrite_command_outcome_with_fidelity env cmd excluded ps bf = Returned (Rewritten out)"
  shows "shell_wrapper_is_ambiguous env cmd ps 0 = Returned False"
    and "opaque_wrapper_requires_ask env cmd ps 0 = Some False"
    and "rewrite_command_impl env cmd excluded ps = Some (Some out)" and "\<not> bf"
    and "rewritten_path_resolves_rtk env out ps 0 = Returned True"
  using assms
  by (auto simp: rewrite_command_outcome_with_fidelity_def checked_rewriting_def split: run.splits if_splits option.splits)

section \<open>The recursions without fuel\<close>

text \<open>A recursion whose calls are on shorter texts: its fuelled form, with fuel for the text, is its only
  solution.\<close>

lemma shorter_recursion_unique:
  assumes step: "\<And>n d s. fuelled (Suc n) d s = body (fuelled n) d s"
    and shorter: "\<And>f g d s. (\<And>e r. length r < length s \<Longrightarrow> f e r = g e r) \<Longrightarrow> body f d s = body g d s"
  shows "h = (\<lambda>d (s :: rstr). fuelled (length s + 1) d s) \<longleftrightarrow> (\<forall>d s. h d s = body h d s)"
proof -
  have same: "fuelled n d s = fuelled m d s" if "length s < n" "length s < m" for n m d s
    using that
  proof (induction "length s" arbitrary: s n m d rule: less_induct)
    case less
    then obtain n' m' where nm: "n = Suc n'" "m = Suc m'" by (meson less_imp_Suc_add)
    have "body (fuelled n') d s = body (fuelled m') d s"
      by (rule shorter, rule less.hyps) (use less.prems nm in simp_all)
    then show ?case by (simp add: nm step)
  qed
  show ?thesis
  proof (intro iffI allI)
    fix d s
    assume "h = (\<lambda>d s. fuelled (length s + 1) d s)"
    moreover have "body (fuelled (length s)) d s = body (\<lambda>d s. fuelled (length s + 1) d s) d s"
      by (rule shorter, rule same) simp_all
    ultimately show "h d s = body h d s" by (simp add: step)
  next
    assume eq: "\<forall>d s. h d s = body h d s"
    have "h d s = fuelled (length s + 1) d s" for d s
    proof (induction "length s" arbitrary: d s rule: less_induct)
      case less
      have "h e r = fuelled (length s) e r" if "length r < length s" for e r
        using less [OF that, of e] same [of r "length r + 1" "length s" e] that by simp
      then have "body h d s = body (fuelled (length s)) d s" by (rule shorter)
      with eq show ?case by (simp add: step)
    qed
    then show "h = (\<lambda>d s. fuelled (length s + 1) d s)" by auto
  qed
qed

text \<open>The bodies of the two walks as the source has them, over the recursive call.\<close>

definition ambiguity_body ::
  "rewrite_env \<Rightarrow> rstr list \<Rightarrow> (nat \<Rightarrow> rstr \<Rightarrow> bool run) \<Rightarrow> nat \<Rightarrow> rstr \<Rightarrow> bool run" where
  "ambiguity_body env transparent_prefixes call depth segment =
     (let trimmed = trim segment
      in case walk env transparent_prefixes trimmed of
           None \<Rightarrow> Panicked
         | Some (_, AfterEnv after_env) \<Rightarrow> call depth after_env
         | Some (_, AfterExecution child) \<Rightarrow> call (depth + 1) child
         | Some (_, AfterPrefix rest) \<Rightarrow> call depth rest
         | Some (_, WalkedCore) \<Rightarrow>
             (case parse_shell_command_wrapper trimmed of
                None \<Rightarrow> Panicked
              | Some Ambiguous \<Rightarrow> Returned True
              | Some (Parsed payload) \<Rightarrow>
                  if max_shell_wrapper_depth \<le> depth then Returned True
                  else (case split_on_operators (payload_command payload) False of
                          None \<Rightarrow> Panicked
                        | Some segments \<Rightarrow> any_run (call (depth + 1)) segments)
              | Some NotWrapper \<Rightarrow> Returned False))"

definition resolution_body ::
  "rewrite_env \<Rightarrow> rstr list \<Rightarrow> (nat \<Rightarrow> rstr \<Rightarrow> bool run) \<Rightarrow> nat \<Rightarrow> rstr \<Rightarrow> bool run" where
  "resolution_body env transparent_prefixes call depth segment =
     (let trimmed = trim segment
      in case walk env transparent_prefixes trimmed of
           None \<Rightarrow> Panicked
         | Some (environment, w) \<Rightarrow>
             if path_override_resolves_rtk env environment = Some False then Returned False
             else (case walked_rest w of
                Some rest \<Rightarrow> call (depth + 1) rest
              | None \<Rightarrow>
                  (case parse_shell_command_wrapper trimmed of
                     None \<Rightarrow> Panicked
                   | Some (Parsed payload) \<Rightarrow>
                       if max_prefix_depth \<le> depth + 1 then Returned False
                       else (case split_on_operators (payload_command payload) False of
                               None \<Rightarrow> Panicked
                             | Some segments \<Rightarrow> all_run (call (depth + 1)) segments)
                   | Some Ambiguous \<Rightarrow> Returned False
                   | Some NotWrapper \<Rightarrow> Returned True)))"

lemma ambiguity_body_shorter:
  assumes "[] \<notin> set ps" and "\<And>e r. length r < length s \<Longrightarrow> f e r = g e r"
  shows "ambiguity_body env ps f d s = ambiguity_body env ps g d s"
proof -
  have walked: "f e r = g e r" if "walk env ps (trim s) = Some (x, w)" "walked_rest w = Some r" for e r x w
    using walk_shorter [OF that assms(1)] length_trim [of s] by (intro assms(2)) simp
  have script: "any_run (f e) segs = any_run (g e) segs"
    if "parse_shell_command_wrapper (trim s) = Some (Parsed pl)"
      "split_on_operators (payload_command pl) False = Some segs" for pl segs e
    using script_segment_shorter [OF that] assms(2) by (intro any_run_cong) auto
  show ?thesis
    by (auto simp: ambiguity_body_def Let_def script walked split: option.splits walked.splits shell_wrapper_parse.splits)
qed

lemma resolution_body_shorter:
  assumes "[] \<notin> set ps" and "\<And>e r. length r < length s \<Longrightarrow> f e r = g e r"
  shows "resolution_body env ps f d s = resolution_body env ps g d s"
proof -
  have walked: "f e r = g e r" if "walk env ps (trim s) = Some (x, w)" "walked_rest w = Some r" for e r x w
    using walk_shorter [OF that assms(1)] length_trim [of s] by (intro assms(2)) simp
  have script: "all_run (f e) segs = all_run (g e) segs"
    if "parse_shell_command_wrapper (trim s) = Some (Parsed pl)"
      "split_on_operators (payload_command pl) False = Some segs" for pl segs e
    using script_segment_shorter [OF that] assms(2) by (intro all_run_cong) auto
  show ?thesis
    by (auto simp: resolution_body_def Let_def script walked split: option.splits shell_wrapper_parse.splits)
qed

lemma ambiguous_body: "shell_segment_is_ambiguous (Suc n) env ps d s = ambiguity_body env ps (shell_segment_is_ambiguous n env ps) d s"
  by (auto simp: ambiguity_body_def Let_def split: option.splits walked.splits)

lemma resolution_body:
  "rewritten_segment_path_resolves_rtk (Suc n) env ps d s = resolution_body env ps (rewritten_segment_path_resolves_rtk n env ps) d s"
  by (simp add: resolution_body_def Let_def)

lemma outcome_not_out_of_fuel:
  assumes "[] \<notin> set ps"
  shows "rewrite_command_outcome_with_fidelity env cmd excluded ps byte_fidelity \<noteq> OutOfFuel"
  using wrapper_ambiguous_returns [OF assms, of env cmd 0] rewritten_path_returns [OF assms, of env _ 0]
  by (auto simp: rewrite_command_outcome_with_fidelity_def checked_rewriting_def split: run.splits option.splits)

text \<open>C38: The walks that decide the outcome of a command end, as long as no configured prefix is empty: each of
  the two recursions of the source has exactly one solution, the one its fuelled form computes, because every
  call is on a shorter text; so the decision ends, with an outcome or with a panic of the code it calls, and
  the fuel never runs out.\<close>

theorem rewrite_outcome_returns:
  assumes "[] \<notin> set transparent_prefixes"
  shows "(ambiguity = (\<lambda>depth s. shell_segment_is_ambiguous (length s + 1) env transparent_prefixes depth s) \<longleftrightarrow>
      (\<forall>depth s. ambiguity depth s = ambiguity_body env transparent_prefixes ambiguity depth s)) \<and>
    (resolution = (\<lambda>depth s. rewritten_segment_path_resolves_rtk (length s + 1) env transparent_prefixes depth s) \<longleftrightarrow>
      (\<forall>depth s. resolution depth s = resolution_body env transparent_prefixes resolution depth s)) \<and>
    (case rewrite_command_outcome_with_fidelity env cmd excluded transparent_prefixes byte_fidelity of
       OutOfFuel \<Rightarrow> False | Panicked \<Rightarrow> True | Returned outcome \<Rightarrow> True)"
proof (intro conjI)
  show "ambiguity = (\<lambda>depth s. shell_segment_is_ambiguous (length s + 1) env transparent_prefixes depth s) \<longleftrightarrow>
      (\<forall>depth s. ambiguity depth s = ambiguity_body env transparent_prefixes ambiguity depth s)"
    by (rule shorter_recursion_unique [where fuelled = "\<lambda>n. shell_segment_is_ambiguous n env transparent_prefixes"
          and body = "ambiguity_body env transparent_prefixes"])
      (rule ambiguous_body, rule ambiguity_body_shorter [OF assms], blast)
  show "resolution = (\<lambda>depth s. rewritten_segment_path_resolves_rtk (length s + 1) env transparent_prefixes depth s) \<longleftrightarrow>
      (\<forall>depth s. resolution depth s = resolution_body env transparent_prefixes resolution depth s)"
    by (rule shorter_recursion_unique [where fuelled = "\<lambda>n. rewritten_segment_path_resolves_rtk n env transparent_prefixes"
          and body = "resolution_body env transparent_prefixes"])
      (rule resolution_body, rule resolution_body_shorter [OF assms], blast)
  show "case rewrite_command_outcome_with_fidelity env cmd excluded transparent_prefixes byte_fidelity of
       OutOfFuel \<Rightarrow> False | Panicked \<Rightarrow> True | Returned outcome \<Rightarrow> True"
    using outcome_not_out_of_fuel [OF assms] by (auto split: run.splits)
qed

lemma rewritten_source_vetted:
  assumes "rewrite_command_outcome_with_fidelity env cmd excluded ps byte_fidelity = Returned (Rewritten out)"
    and "reaches env ps cmd t" and w: "walk env ps t = Some (e, WalkedCore)"
  shows "parse_shell_command_wrapper t \<noteq> Some Ambiguous"
    and "parse_shell_command_wrapper t = Some NotWrapper \<Longrightarrow> \<not> typed_gap_requires_ask env t"
proof -
  obtain segs s where s: "split_on_operators cmd False = Some segs" "s \<in> set segs" "visits env ps s t"
    using assms(2) by (auto simp: reaches_def)
  have "shell_segment_is_ambiguous (length cmd + 1) env ps 0 s = Returned False"
    using outcome_Rewritten(1) [OF assms(1)] s(1,2) by (simp add: shell_wrapper_is_ambiguous_def any_run_False)
  then show "parse_shell_command_wrapper t \<noteq> Some Ambiguous" by (rule not_ambiguous_visits [OF s(3) _ w])
  have "segment_requires_ask env s ps 0 = Some False"
    using outcome_Rewritten(2) [OF assms(1)] s(1,2)
    by (auto simp: opaque_wrapper_requires_ask_def split: bind_splits if_splits dest: any_m_False)
  then show "\<not> typed_gap_requires_ask env t" if "parse_shell_command_wrapper t = Some NotWrapper"
    using no_ask_visits [OF s(3) _ w] that by (simp add: segment_requires_ask_def)
qed

lemma rewritten_target_vetted:
  assumes "rewrite_command_outcome_with_fidelity env cmd excluded ps byte_fidelity = Returned (Rewritten out)"
    and "reaches env ps out t" and w: "walk env ps t = Some (e, w)"
  shows "path_override_resolves_rtk env e \<noteq> Some False"
proof -
  obtain segs s where s: "split_on_operators out False = Some segs" "s \<in> set segs" "visits env ps s t"
    using assms(2) by (auto simp: reaches_def)
  have "rewritten_segment_path_resolves_rtk (length out + 1) env ps 0 s = Returned True"
    using outcome_Rewritten(5) [OF assms(1)] s(1,2)
    by (simp add: rewritten_path_resolves_rtk_def all_run_True max_prefix_depth_def)
  then show ?thesis by (rule path_resolves_visits [OF s(3) _ w])
qed

text \<open>C6: a command is rewritten only when every shell wrapper it reaches can be read, no command it reaches,
  behind whatever prefixes and scripts, is an unbounded use of \<open>sqlite3\<close>, \<open>tar\<close> or remote logs, and no assignment
  to \<open>PATH\<close> in the rewritten text hides the managed executable.\<close>

theorem rewrite_outcome_vetted:
  assumes "rewrite_command_outcome_with_fidelity env cmd excluded ps byte_fidelity = Returned (Rewritten out)"
  shows "(\<forall>t e. reaches env ps cmd t \<and> walk env ps t = Some (e, WalkedCore) \<longrightarrow>
      parse_shell_command_wrapper t \<noteq> Some Ambiguous \<and>
      (parse_shell_command_wrapper t = Some NotWrapper \<longrightarrow> \<not> typed_gap_requires_ask env t)) \<and>
    (\<forall>t e w. reaches env ps out t \<and> walk env ps t = Some (e, w) \<longrightarrow> path_override_resolves_rtk env e \<noteq> Some False)"
  using rewritten_source_vetted [OF assms] rewritten_target_vetted [OF assms] by blast

section \<open>Samples\<close>

theorem rewrite_outcome_returns_witness:
  "(\<forall>depth s. shell_segment_is_ambiguous (length s + 1) bare_env [lit ''poetry run''] depth s =
      ambiguity_body bare_env [lit ''poetry run'']
        (\<lambda>depth s. shell_segment_is_ambiguous (length s + 1) bare_env [lit ''poetry run''] depth s) depth s) \<and>
   rewrite_command_outcome_with_fidelity bare_env (lit ''exec'') [] [lit ''poetry run''] False \<noteq> OutOfFuel"
proof -
  have "[] \<notin> set [lit ''poetry run'']" by code_simp
  note r = rewrite_outcome_returns [OF this, of "\<lambda>depth s. shell_segment_is_ambiguous (length s + 1) bare_env [lit ''poetry run''] depth s"
      bare_env _ "lit ''exec''" "[]" False]
  show ?thesis
  proof
    show "\<forall>depth s. shell_segment_is_ambiguous (length s + 1) bare_env [lit ''poetry run''] depth s =
      ambiguity_body bare_env [lit ''poetry run'']
        (\<lambda>depth s. shell_segment_is_ambiguous (length s + 1) bare_env [lit ''poetry run''] depth s) depth s"
      using r [THEN conjunct1] by (rule iffD1) (rule refl)
    show "rewrite_command_outcome_with_fidelity bare_env (lit ''exec'') [] [lit ''poetry run''] False \<noteq> OutOfFuel"
      using r [THEN conjunct2, THEN conjunct2] by (rule contrapos_pn) (simp only: run.case not_False_eq_True)
  qed
qed

text \<open>A configured prefix that is empty: the walk from a prefix word with nothing behind it never ends, however much
  fuel it has.\<close>

lemma empty_walk: "walk bare_env [[]] [] = Some ([], AfterPrefix [])"
  by code_simp

lemma exec_walk: "walk bare_env [[]] (lit ''exec'') = Some ([], AfterPrefix [])"
  by code_simp

lemma empty_prefix_walks_on: "shell_segment_is_ambiguous n bare_env [[]] depth [] = OutOfFuel"
proof (induction n)
  case (Suc n)
  have "trim [] = []" by (simp add: trim_Nil_iff)
  with Suc show ?case by (simp add: empty_walk)
qed simp

text \<open>With an empty string among the configured prefixes the decision about a bare \<open>exec\<close> is never
  made: the first walk runs out of every amount of fuel.\<close>

lemma empty_prefix_never_returns:
  "shell_segment_is_ambiguous n bare_env [[]] 0 (lit ''exec'') = OutOfFuel"
proof (cases n)
  case (Suc m)
  have "trim (lit ''exec'') = lit ''exec''" by code_simp
  then show ?thesis by (simp add: Suc exec_walk empty_prefix_walks_on)
qed simp

theorem rewrite_outcome_vetted_witness:
  "(parse_shell_command_wrapper (lit ''tar -tf a'') \<noteq> Some Ambiguous \<and> \<not> typed_gap_requires_ask bare_env (lit ''tar -tf a'')) \<and>
   path_override_resolves_rtk bare_env [] \<noteq> Some False"
proof -
  have r: "rewrite_command_outcome_with_fidelity bare_env (lit ''tar -tf a'') [] [] False =
      Returned (Rewritten (lit ''rtk tar --max-entries 100 -tf a''))" by code_simp
  have t: "trim (lit ''tar -tf a'') = lit ''tar -tf a''"
    "trim (lit ''rtk tar --max-entries 100 -tf a'') = lit ''rtk tar --max-entries 100 -tf a''" by (code_simp, code_simp)
  have "split_on_operators (lit ''tar -tf a'') False = Some [lit ''tar -tf a'']"
    "split_on_operators (lit ''rtk tar --max-entries 100 -tf a'') False = Some [lit ''rtk tar --max-entries 100 -tf a'']"
    by (code_simp, code_simp)
  with visits_here [of bare_env "[]" "lit ''tar -tf a''"] visits_here [of bare_env "[]" "lit ''rtk tar --max-entries 100 -tf a''"] t
  have v: "reaches bare_env [] (lit ''tar -tf a'') (lit ''tar -tf a'')"
    "reaches bare_env [] (lit ''rtk tar --max-entries 100 -tf a'') (lit ''rtk tar --max-entries 100 -tf a'')"
    by (auto simp: reaches_def)
  have w: "walk bare_env [] (lit ''tar -tf a'') = Some ([], WalkedCore)"
    "walk bare_env [] (lit ''rtk tar --max-entries 100 -tf a'') = Some ([], WalkedCore)" by (code_simp, code_simp)
  have p: "parse_shell_command_wrapper (lit ''tar -tf a'') = Some NotWrapper" by code_simp
  show ?thesis using rewrite_outcome_vetted [OF r] v w p by blast
qed

end
