(* ===== verification/Engine_Contract.thy ===== *)
theory Engine_Contract
  imports Rust_Prelude
begin

text \<open>
  The contract between the control plane and the managed engine (\<open>crates/hzr-engine-contract/src/lib.rs\<close>): the
  closed vocabularies with their wire names, the rewrite plan, the accounting receipt, and the checks the receiver
  makes of both. Numbers have the width of the source.
\<close>

section \<open>Vocabularies\<close>

datatype accounting_failure_kind =
    TrackerOpen | OperationRecord | ReceiptAppend

datatype accounting_channel =
    ChannelHookCli | ChannelMcp | ChannelNativeHost

datatype accounting_measurement =
    Estimated | Unmeasured

datatype accounting_route =
    RouteOptimized | RouteBypassed | RouteNativeUnaccounted

datatype accounting_operation_kind =
    KindSearch | KindRead | KindWrite | KindContext | KindMemory | KindCodec | KindExec | KindObservability
    | KindDoctor

fun accounting_operation_kind_as_str :: "accounting_operation_kind \<Rightarrow> rstr" where
  "accounting_operation_kind_as_str KindSearch = lit ''search''"
| "accounting_operation_kind_as_str KindRead = lit ''read''"
| "accounting_operation_kind_as_str KindWrite = lit ''write''"
| "accounting_operation_kind_as_str KindContext = lit ''context''"
| "accounting_operation_kind_as_str KindMemory = lit ''memory''"
| "accounting_operation_kind_as_str KindCodec = lit ''codec''"
| "accounting_operation_kind_as_str KindExec = lit ''exec''"
| "accounting_operation_kind_as_str KindObservability = lit ''observability''"
| "accounting_operation_kind_as_str KindDoctor = lit ''doctor''"

datatype accounting_operation_mode =
    ModeSearchAuto | ModeSearchSemantic | ModeSearchExact | ModeSearchBuiltin | ModeReadFull
    | ModeReadFiltered | ModeReadRange | ModeReadHead | ModeReadTail | ModeReadOutline | ModeReadSymbols
    | ModeReadChanged | ModeReadSince | ModeWrite | ModeContextPlan | ModeMemoryRecall | ModeMemoryStore
    | ModeMemoryForget | ModeMemoryUpdate | ModeMemoryPrune | ModeCodecCompile | ModeExecRun
    | ModeObservabilitySnapshot | ModeDoctorCheck

fun accounting_operation_mode_as_str :: "accounting_operation_mode \<Rightarrow> rstr" where
  "accounting_operation_mode_as_str ModeSearchAuto = lit ''search_auto''"
| "accounting_operation_mode_as_str ModeSearchSemantic = lit ''search_semantic''"
| "accounting_operation_mode_as_str ModeSearchExact = lit ''search_exact''"
| "accounting_operation_mode_as_str ModeSearchBuiltin = lit ''search_builtin''"
| "accounting_operation_mode_as_str ModeReadFull = lit ''read_full''"
| "accounting_operation_mode_as_str ModeReadFiltered = lit ''read_filtered''"
| "accounting_operation_mode_as_str ModeReadRange = lit ''read_range''"
| "accounting_operation_mode_as_str ModeReadHead = lit ''read_head''"
| "accounting_operation_mode_as_str ModeReadTail = lit ''read_tail''"
| "accounting_operation_mode_as_str ModeReadOutline = lit ''read_outline''"
| "accounting_operation_mode_as_str ModeReadSymbols = lit ''read_symbols''"
| "accounting_operation_mode_as_str ModeReadChanged = lit ''read_changed''"
| "accounting_operation_mode_as_str ModeReadSince = lit ''read_since''"
| "accounting_operation_mode_as_str ModeWrite = lit ''write''"
| "accounting_operation_mode_as_str ModeContextPlan = lit ''context_plan''"
| "accounting_operation_mode_as_str ModeMemoryRecall = lit ''memory_recall''"
| "accounting_operation_mode_as_str ModeMemoryStore = lit ''memory_store''"
| "accounting_operation_mode_as_str ModeMemoryForget = lit ''memory_forget''"
| "accounting_operation_mode_as_str ModeMemoryUpdate = lit ''memory_update''"
| "accounting_operation_mode_as_str ModeMemoryPrune = lit ''memory_prune''"
| "accounting_operation_mode_as_str ModeCodecCompile = lit ''codec_compile''"
| "accounting_operation_mode_as_str ModeExecRun = lit ''exec_run''"
| "accounting_operation_mode_as_str ModeObservabilitySnapshot = lit ''observability_snapshot''"
| "accounting_operation_mode_as_str ModeDoctorCheck = lit ''doctor_check''"

fun accounting_operation_mode_operation :: "accounting_operation_mode \<Rightarrow> accounting_operation_kind" where
  "accounting_operation_mode_operation ModeSearchAuto = KindSearch"
| "accounting_operation_mode_operation ModeSearchSemantic = KindSearch"
| "accounting_operation_mode_operation ModeSearchExact = KindSearch"
| "accounting_operation_mode_operation ModeSearchBuiltin = KindSearch"
| "accounting_operation_mode_operation ModeReadFull = KindRead"
| "accounting_operation_mode_operation ModeReadFiltered = KindRead"
| "accounting_operation_mode_operation ModeReadRange = KindRead"
| "accounting_operation_mode_operation ModeReadHead = KindRead"
| "accounting_operation_mode_operation ModeReadTail = KindRead"
| "accounting_operation_mode_operation ModeReadOutline = KindRead"
| "accounting_operation_mode_operation ModeReadSymbols = KindRead"
| "accounting_operation_mode_operation ModeReadChanged = KindRead"
| "accounting_operation_mode_operation ModeReadSince = KindRead"
| "accounting_operation_mode_operation ModeWrite = KindWrite"
| "accounting_operation_mode_operation ModeContextPlan = KindContext"
| "accounting_operation_mode_operation ModeMemoryRecall = KindMemory"
| "accounting_operation_mode_operation ModeMemoryStore = KindMemory"
| "accounting_operation_mode_operation ModeMemoryForget = KindMemory"
| "accounting_operation_mode_operation ModeMemoryUpdate = KindMemory"
| "accounting_operation_mode_operation ModeMemoryPrune = KindMemory"
| "accounting_operation_mode_operation ModeCodecCompile = KindCodec"
| "accounting_operation_mode_operation ModeExecRun = KindExec"
| "accounting_operation_mode_operation ModeObservabilitySnapshot = KindObservability"
| "accounting_operation_mode_operation ModeDoctorCheck = KindDoctor"

datatype accounting_stage =
    StageInternalTransport | StageFinalDelivery | StageStandaloneDelivery | StageControlPlane

fun accounting_stage_as_str :: "accounting_stage \<Rightarrow> rstr" where
  "accounting_stage_as_str StageInternalTransport = lit ''internal_transport''"
| "accounting_stage_as_str StageFinalDelivery = lit ''final_delivery''"
| "accounting_stage_as_str StageStandaloneDelivery = lit ''standalone_delivery''"
| "accounting_stage_as_str StageControlPlane = lit ''control_plane''"

datatype accounting_filter_level =
    FilterNone | FilterMinimal | FilterAggressive

fun accounting_filter_level_as_str :: "accounting_filter_level \<Rightarrow> rstr" where
  "accounting_filter_level_as_str FilterNone = lit ''none''"
| "accounting_filter_level_as_str FilterMinimal = lit ''minimal''"
| "accounting_filter_level_as_str FilterAggressive = lit ''aggressive''"

datatype accounting_search_strategy =
    ForkRgaiAdaptive | ForkRgaiBuiltin | ForkRgaiGrepai | ForkRgaiRipgrep | ForkRgaiFiles

fun accounting_search_strategy_as_str :: "accounting_search_strategy \<Rightarrow> rstr" where
  "accounting_search_strategy_as_str ForkRgaiAdaptive = lit ''fork_rgai_adaptive''"
| "accounting_search_strategy_as_str ForkRgaiBuiltin = lit ''fork_rgai_builtin''"
| "accounting_search_strategy_as_str ForkRgaiGrepai = lit ''fork_rgai_grepai''"
| "accounting_search_strategy_as_str ForkRgaiRipgrep = lit ''fork_rgai_ripgrep''"
| "accounting_search_strategy_as_str ForkRgaiFiles = lit ''fork_rgai_files''"

datatype search_fallback_code =
    LegacyIndexRequiresMigration | SemanticIndexUnavailable | GrepaiUnavailable | RipgrepUnavailable

fun search_fallback_code_as_str :: "search_fallback_code \<Rightarrow> rstr" where
  "search_fallback_code_as_str LegacyIndexRequiresMigration = lit ''legacy_index_requires_migration''"
| "search_fallback_code_as_str SemanticIndexUnavailable = lit ''semantic_index_unavailable''"
| "search_fallback_code_as_str GrepaiUnavailable = lit ''grepai_unavailable''"
| "search_fallback_code_as_str RipgrepUnavailable = lit ''ripgrep_unavailable''"

datatype evasion_class =
    E1QuotedCoveredCommand | E2ShellWrapper | E3InterpreterRead | E4ExecutablePath | E5PipelineOrRedirect
    | E6NestedUnboundedReader | E7FidelityHatch | E8NativeTool | E9DiagnosticBypass | E10CapabilityGap
    | E11PrivilegedPrefix

fun evasion_class_as_str :: "evasion_class \<Rightarrow> rstr" where
  "evasion_class_as_str E1QuotedCoveredCommand = lit ''e1''"
| "evasion_class_as_str E2ShellWrapper = lit ''e2''"
| "evasion_class_as_str E3InterpreterRead = lit ''e3''"
| "evasion_class_as_str E4ExecutablePath = lit ''e4''"
| "evasion_class_as_str E5PipelineOrRedirect = lit ''e5''"
| "evasion_class_as_str E6NestedUnboundedReader = lit ''e6''"
| "evasion_class_as_str E7FidelityHatch = lit ''e7''"
| "evasion_class_as_str E8NativeTool = lit ''e8''"
| "evasion_class_as_str E9DiagnosticBypass = lit ''e9''"
| "evasion_class_as_str E10CapabilityGap = lit ''e10''"
| "evasion_class_as_str E11PrivilegedPrefix = lit ''e11''"

fun evasion_class_ledger_str :: "evasion_class \<Rightarrow> rstr" where
  "evasion_class_ledger_str E1QuotedCoveredCommand = lit ''e1_quoted_covered_command''"
| "evasion_class_ledger_str E2ShellWrapper = lit ''e2_shell_wrapper''"
| "evasion_class_ledger_str E3InterpreterRead = lit ''e3_interpreter_read''"
| "evasion_class_ledger_str E4ExecutablePath = lit ''e4_executable_path''"
| "evasion_class_ledger_str E5PipelineOrRedirect = lit ''e5_pipeline_or_redirect''"
| "evasion_class_ledger_str E6NestedUnboundedReader = lit ''e6_nested_unbounded_reader''"
| "evasion_class_ledger_str E7FidelityHatch = lit ''e7_fidelity_hatch''"
| "evasion_class_ledger_str E8NativeTool = lit ''e8_native_tool''"
| "evasion_class_ledger_str E9DiagnosticBypass = lit ''e9_diagnostic_bypass''"
| "evasion_class_ledger_str E10CapabilityGap = lit ''e10_capability_gap''"
| "evasion_class_ledger_str E11PrivilegedPrefix = lit ''e11_privileged_prefix''"

fun evasion_class_construct :: "evasion_class \<Rightarrow> rstr" where
  "evasion_class_construct E1QuotedCoveredCommand = lit ''quoted covered command''"
| "evasion_class_construct E2ShellWrapper = lit ''shell wrapper''"
| "evasion_class_construct E3InterpreterRead = lit ''interpreter file read''"
| "evasion_class_construct E4ExecutablePath = lit ''executable path form''"
| "evasion_class_construct E5PipelineOrRedirect = lit ''pipeline or redirect''"
| "evasion_class_construct E6NestedUnboundedReader = lit ''nested unbounded reader''"
| "evasion_class_construct E7FidelityHatch = lit ''raw fidelity request''"
| "evasion_class_construct E8NativeTool = lit ''host-native file tool''"
| "evasion_class_construct E9DiagnosticBypass = lit ''direct HZR diagnostic access''"
| "evasion_class_construct E10CapabilityGap = lit ''no first-class route''"
| "evasion_class_construct E11PrivilegedPrefix = lit ''privilege elevation prefix''"

fun evasion_class_prescription :: "evasion_class \<Rightarrow> rstr" where
  "evasion_class_prescription E1QuotedCoveredCommand = lit ''re-issue the inner command directly so HZR can route it''"
| "evasion_class_prescription E2ShellWrapper = lit ''re-issue the inner command directly so HZR can route it''"
| "evasion_class_prescription E4ExecutablePath = lit ''re-issue the inner command directly so HZR can route it''"
| "evasion_class_prescription E3InterpreterRead =
     lit ''read files with `hzr read <file>` and scan them with `hzr search '<pattern>'`; keep the interpreter for computation that has no managed route''"
| "evasion_class_prescription E5PipelineOrRedirect =
     lit ''run each stage through its own managed route, for example `hzr read <file> --max-lines N` instead of piping a full read into a limiter''"
| "evasion_class_prescription E6NestedUnboundedReader =
     lit ''read the matched files with `hzr read <file>` instead of embedding an unbounded reader in the command''"
| "evasion_class_prescription E7FidelityHatch =
     lit ''supply a fidelity reason that matches the command, or use the bounded managed route when exact bytes are not required''"
| "evasion_class_prescription E8NativeTool = lit ''use the equivalent `hzr` file operation''"
| "evasion_class_prescription E9DiagnosticBypass =
     lit ''use `hzr stats` (add `--since` or `--workspace`) instead of reading HZR state directly; this is an HZR policy decision surfaced through the harness approval channel, not a harness permission''"
| "evasion_class_prescription E10CapabilityGap =
     lit ''no managed route covers this command; approving runs it as tracked raw''"
| "evasion_class_prescription E11PrivilegedPrefix =
     lit ''elevation was granted to one binary; HZR stays out of it and runs the command verbatim '' @ [8212] @ lit '' drop the elevation to get a managed route''"

datatype evasion_interpreter =
    InterpShell | InterpPython | InterpJavascript | InterpRuby | InterpPerl | InterpAwk | InterpSed

fun evasion_interpreter_as_str :: "evasion_interpreter \<Rightarrow> rstr" where
  "evasion_interpreter_as_str InterpShell = lit ''shell''"
| "evasion_interpreter_as_str InterpPython = lit ''python''"
| "evasion_interpreter_as_str InterpJavascript = lit ''javascript''"
| "evasion_interpreter_as_str InterpRuby = lit ''ruby''"
| "evasion_interpreter_as_str InterpPerl = lit ''perl''"
| "evasion_interpreter_as_str InterpAwk = lit ''awk''"
| "evasion_interpreter_as_str InterpSed = lit ''sed''"

datatype evasion_path_form =
    PathBare | PathAbsoluteSystem | PathRelative | PathResolvedAlias

fun evasion_path_form_as_str :: "evasion_path_form \<Rightarrow> rstr" where
  "evasion_path_form_as_str PathBare = lit ''bare''"
| "evasion_path_form_as_str PathAbsoluteSystem = lit ''absolute_system''"
| "evasion_path_form_as_str PathRelative = lit ''relative''"
| "evasion_path_form_as_str PathResolvedAlias = lit ''resolved_alias''"

datatype enforcement_tier =
    T0TransparentRewrite | T1NamedCorrection | T2DenyWithPrescription | T3BudgetExhaustion
    | T4HatchQuarantine

fun enforcement_tier_as_str :: "enforcement_tier \<Rightarrow> rstr" where
  "enforcement_tier_as_str T0TransparentRewrite = lit ''t0''"
| "enforcement_tier_as_str T1NamedCorrection = lit ''t1''"
| "enforcement_tier_as_str T2DenyWithPrescription = lit ''t2''"
| "enforcement_tier_as_str T3BudgetExhaustion = lit ''t3''"
| "enforcement_tier_as_str T4HatchQuarantine = lit ''t4''"

fun enforcement_tier_ledger_str :: "enforcement_tier \<Rightarrow> rstr" where
  "enforcement_tier_ledger_str T0TransparentRewrite = lit ''t0_transparent_rewrite''"
| "enforcement_tier_ledger_str T1NamedCorrection = lit ''t1_named_correction''"
| "enforcement_tier_ledger_str T2DenyWithPrescription = lit ''t2_deny_with_prescription''"
| "enforcement_tier_ledger_str T3BudgetExhaustion = lit ''t3_budget_exhaustion''"
| "enforcement_tier_ledger_str T4HatchQuarantine = lit ''t4_hatch_quarantine''"

datatype fidelity_reason =
    ReasonBinary | ReasonChecksum | ReasonMachineProtocol | ReasonCompleteLog | ReasonFullPatch
    | ReasonVerbatimSource

fun fidelity_reason_as_str :: "fidelity_reason \<Rightarrow> rstr" where
  "fidelity_reason_as_str ReasonBinary = lit ''binary''"
| "fidelity_reason_as_str ReasonChecksum = lit ''checksum''"
| "fidelity_reason_as_str ReasonMachineProtocol = lit ''machine_protocol''"
| "fidelity_reason_as_str ReasonCompleteLog = lit ''complete_log''"
| "fidelity_reason_as_str ReasonFullPatch = lit ''full_patch''"
| "fidelity_reason_as_str ReasonVerbatimSource = lit ''verbatim_source''"

datatype fidelity_validation =
    FidelityNotRequested | FidelityValid | FidelityMissingReason | FidelityInvalidReason
    | FidelityContradicted | FidelityProvenEquivalent | FidelityBudgetExhausted

fun fidelity_validation_as_str :: "fidelity_validation \<Rightarrow> rstr" where
  "fidelity_validation_as_str FidelityNotRequested = lit ''not_requested''"
| "fidelity_validation_as_str FidelityValid = lit ''valid''"
| "fidelity_validation_as_str FidelityMissingReason = lit ''missing_reason''"
| "fidelity_validation_as_str FidelityInvalidReason = lit ''invalid_reason''"
| "fidelity_validation_as_str FidelityContradicted = lit ''contradicted''"
| "fidelity_validation_as_str FidelityProvenEquivalent = lit ''proven_equivalent''"
| "fidelity_validation_as_str FidelityBudgetExhausted = lit ''budget_exhausted''"

datatype policy_decision =
    DecideAsk | DecideDeny | DecideCorrection

fun policy_decision_as_str :: "policy_decision \<Rightarrow> rstr" where
  "policy_decision_as_str DecideAsk = lit ''ask''"
| "policy_decision_as_str DecideDeny = lit ''deny''"
| "policy_decision_as_str DecideCorrection = lit ''correction''"

datatype rewrite_plan_decision =
    PlanRewrite | PlanProxy | PlanAsk | PlanDeny

datatype rewrite_plan_reason =
    PermissionPolicy | CanonicalPolicy

datatype host_permission_verdict =
    HostAllow | HostAsk | HostDeny | HostDefault

text \<open>\<open>FidelityReason::parse\<close>.\<close>

definition fidelity_reason_parse :: "rstr \<Rightarrow> fidelity_reason option" where
  "fidelity_reason_parse v =
     (if v = lit ''binary'' then Some ReasonBinary
      else if v = lit ''checksum'' then Some ReasonChecksum
      else if v = lit ''machine_protocol'' then Some ReasonMachineProtocol
      else if v = lit ''complete_log'' then Some ReasonCompleteLog
      else if v = lit ''full_patch'' then Some ReasonFullPatch
      else if v = lit ''verbatim_source'' then Some ReasonVerbatimSource
      else None)"

section \<open>Attributions\<close>

record evasion_attribution =
  ev_class :: evasion_class
  ev_wrapper_depth :: "8 word"
  ev_interpreter :: "evasion_interpreter option"
  ev_path_form :: evasion_path_form
  ev_stage_count :: "16 word"
  ev_hatch_marker :: bool
  ev_avoidable :: bool
  ev_tier :: enforcement_tier
  ev_fidelity_reason :: "fidelity_reason option"
  ev_fidelity_validation :: fidelity_validation

definition evasion_is_valid :: "evasion_attribution \<Rightarrow> bool" where
  "evasion_is_valid a =
     (ev_wrapper_depth a \<le> 3 \<and> 0 < ev_stage_count a \<and>
      (ev_hatch_marker a \<or> ev_fidelity_reason a = None) \<and>
      (ev_hatch_marker a \<or> ev_fidelity_validation a = FidelityNotRequested))"

record accounting_attribution =
  at_operation :: accounting_operation_kind
  at_mode :: accounting_operation_mode
  at_stage :: accounting_stage
  at_requested_mode :: "accounting_operation_mode option"
  at_effective_mode :: "accounting_operation_mode option"
  at_search_strategy :: "accounting_search_strategy option"
  at_search_fallback_code :: "search_fallback_code option"
  at_include_content :: "bool option"
  at_limit :: "64 word option"
  at_path_scope_count :: "64 word option"
  at_filter_level :: "accounting_filter_level option"
  at_from_line :: "64 word option"
  at_to_line :: "64 word option"
  at_source_bytes :: "64 word option"
  at_evasion :: "evasion_attribution option"

section \<open>Plans\<close>

record rewrite_plan =
  plan_decision :: rewrite_plan_decision
  plan_proposed :: "rstr option"
  plan_attribution :: "evasion_attribution option"
  plan_reason :: "rewrite_plan_reason option"
  plan_host_permission :: "host_permission_verdict option"

definition plan_metadata_matches :: "rewrite_plan \<Rightarrow> bool" where
  "plan_metadata_matches p =
     (case plan_decision p of
        PlanRewrite \<Rightarrow> plan_proposed p \<noteq> None \<and> plan_reason p = None
      | PlanProxy \<Rightarrow> plan_proposed p = None \<and> plan_reason p = None
      | PlanAsk \<Rightarrow> plan_reason p = Some PermissionPolicy \<or> plan_reason p = Some CanonicalPolicy
      | PlanDeny \<Rightarrow> plan_proposed p = None \<and> plan_reason p = Some PermissionPolicy)"

definition plan_is_consistent :: "rewrite_plan \<Rightarrow> bool" where
  "plan_is_consistent p =
     (plan_metadata_matches p \<and> (case plan_attribution p of Some a \<Rightarrow> evasion_is_valid a | None \<Rightarrow> True))"

section \<open>Receipts\<close>

definition engine_contract_version :: "16 word" where
  "engine_contract_version = 1"

record engine_contract_identity =
  id_contract_version :: "16 word"
  id_engine_version :: rstr
  id_manifest_sha256 :: rstr
  id_content_manifest_sha256 :: rstr

record accounting_receipt =
  rc_contract_version :: "16 word"
  rc_engine :: engine_contract_identity
  rc_correlation_id :: rstr
  rc_sequence :: "64 word"
  rc_occurred_at_unix_ms :: int
  rc_baseline_tokens :: "64 word"
  rc_delivered_tokens :: "64 word"
  rc_execution_ms :: "64 word"
  rc_measurement :: accounting_measurement
  rc_route :: accounting_route
  rc_attribution :: accounting_attribution
  rc_host_grant_applied :: bool

definition is_ascii_hexdigit :: "nat \<Rightarrow> bool" where
  "is_ascii_hexdigit b = (48 \<le> b \<and> b \<le> 57 \<or> 65 \<le> b \<and> b \<le> 70 \<or> 97 \<le> b \<and> b \<le> 102)"

definition valid_correlation_id :: "rstr \<Rightarrow> bool" where
  "valid_correlation_id v = (blen v = 32 \<and> list_all is_ascii_hexdigit (as_bytes v))"

definition receipt_is_valid_for :: "accounting_receipt \<Rightarrow> engine_contract_identity \<Rightarrow> bool" where
  "receipt_is_valid_for r expected =
     (rc_contract_version r = engine_contract_version \<and> rc_engine r = expected \<and>
      valid_correlation_id (rc_correlation_id r) \<and>
      at_operation (rc_attribution r) = accounting_operation_mode_operation (at_mode (rc_attribution r)) \<and>
      (case rc_measurement r of
         Estimated \<Rightarrow> True
       | Unmeasured \<Rightarrow> rc_baseline_tokens r = 0 \<and> rc_delivered_tokens r = 0) \<and>
      (case rc_route r of
         RouteOptimized \<Rightarrow> True
       | _ \<Rightarrow> rc_baseline_tokens r = rc_delivered_tokens r) \<and>
      (case at_evasion (rc_attribution r) of Some a \<Rightarrow> evasion_is_valid a | None \<Rightarrow> True))"

record accounting_failure_event =
  fe_contract_version :: "16 word"
  fe_engine :: engine_contract_identity
  fe_correlation_id :: rstr
  fe_occurred_at_unix_ms :: "64 word"
  fe_kind :: accounting_failure_kind

datatype accounting_write_status = WriteDisabled | WriteRecorded | WriteFailed accounting_failure_kind

section \<open>Names\<close>

lemma fidelity_reason_parse_iff: "fidelity_reason_parse v = Some r \<longleftrightarrow> v = fidelity_reason_as_str r"
  by (cases r) (auto simp: fidelity_reason_parse_def lit_def)

text \<open>Different values of a vocabulary have different names, so a name in the ledger stands for one value.\<close>

lemma inj_of_names: "set xs = UNIV \<Longrightarrow> distinct (map f xs) \<Longrightarrow> inj f"
  by (simp add: distinct_map)

definition all_evasion_class :: "evasion_class list" where
  "all_evasion_class =
      [E1QuotedCoveredCommand, E2ShellWrapper, E3InterpreterRead, E4ExecutablePath, E5PipelineOrRedirect,
       E6NestedUnboundedReader, E7FidelityHatch, E8NativeTool, E9DiagnosticBypass, E10CapabilityGap,
       E11PrivilegedPrefix]"

lemma all_evasion_class_UNIV: "set all_evasion_class = UNIV"
proof (rule UNIV_eq_I [symmetric])
  fix x :: evasion_class show "x \<in> set all_evasion_class" by (cases x) (simp_all add: all_evasion_class_def)
qed

lemma evasion_class_as_str_inj: "inj evasion_class_as_str"
  by (rule inj_of_names [OF all_evasion_class_UNIV]) code_simp

lemma evasion_class_ledger_str_inj: "inj evasion_class_ledger_str"
  by (rule inj_of_names [OF all_evasion_class_UNIV]) code_simp

lemma evasion_class_construct_inj: "inj evasion_class_construct"
  by (rule inj_of_names [OF all_evasion_class_UNIV]) code_simp

definition all_enforcement_tier :: "enforcement_tier list" where
  "all_enforcement_tier =
      [T0TransparentRewrite, T1NamedCorrection, T2DenyWithPrescription, T3BudgetExhaustion, T4HatchQuarantine]"

lemma all_enforcement_tier_UNIV: "set all_enforcement_tier = UNIV"
proof (rule UNIV_eq_I [symmetric])
  fix x :: enforcement_tier show "x \<in> set all_enforcement_tier" by (cases x) (simp_all add: all_enforcement_tier_def)
qed

lemma enforcement_tier_as_str_inj: "inj enforcement_tier_as_str"
  by (rule inj_of_names [OF all_enforcement_tier_UNIV]) code_simp

lemma enforcement_tier_ledger_str_inj: "inj enforcement_tier_ledger_str"
  by (rule inj_of_names [OF all_enforcement_tier_UNIV]) code_simp

definition all_accounting_operation_mode :: "accounting_operation_mode list" where
  "all_accounting_operation_mode =
      [ModeSearchAuto, ModeSearchSemantic, ModeSearchExact, ModeSearchBuiltin, ModeReadFull, ModeReadFiltered,
       ModeReadRange, ModeReadHead, ModeReadTail, ModeReadOutline, ModeReadSymbols, ModeReadChanged,
       ModeReadSince, ModeWrite, ModeContextPlan, ModeMemoryRecall, ModeMemoryStore, ModeMemoryForget,
       ModeMemoryUpdate, ModeMemoryPrune, ModeCodecCompile, ModeExecRun, ModeObservabilitySnapshot,
       ModeDoctorCheck]"

lemma all_accounting_operation_mode_UNIV: "set all_accounting_operation_mode = UNIV"
proof (rule UNIV_eq_I [symmetric])
  fix x :: accounting_operation_mode show "x \<in> set all_accounting_operation_mode" by (cases x) (simp_all add: all_accounting_operation_mode_def)
qed

lemma accounting_operation_mode_as_str_inj: "inj accounting_operation_mode_as_str"
  by (rule inj_of_names [OF all_accounting_operation_mode_UNIV]) code_simp

end
