(* ===== verification/Rewrite_Plan.thy ===== *)
theory Rewrite_Plan
  imports Rewrite_Outcome Engine_Contract Permission_Gate Unix_Path
begin

text \<open>
  The rewrite command: the permission verdict and the outcome of the rewriter put together
  (\<open>fork-core/rtk/src/rewrite_cmd.rs\<close>), and the attribution that goes with a plan
  (\<open>canonical_attribution\<close> of \<open>discover/registry.rs\<close>). Printing and serialization are not modelled: a run is its
  printed text and exit code, a plan the record that is serialized.
\<close>

section \<open>Signals\<close>

record fidelity_signals =
  fs_requested :: bool
  fs_reason :: "fidelity_reason option"
  fs_validation :: fidelity_validation

fun fidelity_words :: "rstr list \<Rightarrow> bool \<Rightarrow> fidelity_reason option \<Rightarrow> bool \<Rightarrow> bool \<times> fidelity_reason option \<times> bool" where
  "fidelity_words [] requested reason invalid = (requested, reason, invalid)"
| "fidelity_words (word # ws) requested reason invalid =
     (if word = lit ''HZR_RAW_FIDELITY=1'' then fidelity_words ws True reason invalid
      else case strip_prefix word (lit ''HZR_RAW_FIDELITY_REASON='') of
        Some v \<Rightarrow>
          (case fidelity_reason_parse v of
             Some parsed \<Rightarrow> fidelity_words ws requested (Some parsed) (invalid \<or> reason \<noteq> None)
           | None \<Rightarrow> fidelity_words ws requested reason True)
      | None \<Rightarrow>
          if c_eq \<notin> set word then (requested, reason, invalid) else fidelity_words ws requested reason invalid)"

definition fidelity_signal :: "rstr \<Rightarrow> fidelity_signals" where
  "fidelity_signal command =
     (case fidelity_words (shell_split command) False None False of
        (requested, reason, invalid) \<Rightarrow>
          \<lparr>fs_requested = requested, fs_reason = reason,
           fs_validation =
             (if \<not> requested then FidelityNotRequested
              else if invalid then FidelityInvalidReason
              else if reason = None then FidelityMissingReason
              else FidelityValid)\<rparr>)"

text \<open>Levels of shell wrappers, as far as the depth that is left.\<close>

primrec wrapper_levels :: "rewrite_env \<Rightarrow> nat \<Rightarrow> rstr \<Rightarrow> nat option" where
  "wrapper_levels env 0 command = Some 0"
| "wrapper_levels env (Suc n) command = do {
     (_, rest) \<leftarrow> strip_disabled_prefix env (trim command);
     wrapper \<leftarrow> parse_shell_command_wrapper rest;
     (case wrapper of
        Parsed payload \<Rightarrow> map_option Suc (wrapper_levels env n (payload_command payload))
      | Ambiguous \<Rightarrow> Some 1
      | NotWrapper \<Rightarrow> Some 0)
   }"

definition wrapper_depth :: "rewrite_env \<Rightarrow> rstr \<Rightarrow> nat \<Rightarrow> nat option" where
  "wrapper_depth env command depth = map_option ((+) depth) (wrapper_levels env (max_shell_wrapper_depth - depth) command)"

definition word_interpreter :: "rewrite_env \<Rightarrow> rstr \<Rightarrow> evasion_interpreter option" where
  "word_interpreter env word =
     (let name = executable_name (rw_gate env) word
      in if name \<in> {lit ''sh'', lit ''bash'', lit ''dash'', lit ''ksh'', lit ''zsh''} then Some InterpShell
         else if name = lit ''python'' \<or> starts_with name (lit ''python3'') then Some InterpPython
         else if name = lit ''node'' then Some InterpJavascript
         else if name = lit ''ruby'' then Some InterpRuby
         else if name = lit ''perl'' then Some InterpPerl
         else if name = lit ''awk'' then Some InterpAwk
         else if name = lit ''sed'' then Some InterpSed
         else None)"

definition interpreter_signal :: "rewrite_env \<Rightarrow> rstr \<Rightarrow> evasion_interpreter option" where
  "interpreter_signal env command =
     (case List.map_filter (word_interpreter env) (shell_split command) of i # _ \<Rightarrow> Some i | [] \<Rightarrow> None)"

definition path_form :: "rewrite_env \<Rightarrow> rstr \<Rightarrow> evasion_path_form option" where
  "path_form env command = do {
     (environment, _) \<leftarrow> strip_disabled_prefix env (trim command);
     Some (if path_override_resolves_rtk env environment \<noteq> None then PathResolvedAlias
       else case shell_split command of
         [] \<Rightarrow> PathBare
       | program # _ \<Rightarrow>
           if starts_with program [c_slash] \<and> executable_name (rw_gate env) program \<noteq> program then PathAbsoluteSystem
           else if length (components program) > 1 then PathRelative
           else PathBare)
   }"

section \<open>What a command does\<close>

fun inline_code :: "rstr list \<Rightarrow> rstr \<Rightarrow> rstr option" where
  "inline_code [] flag = None"
| "inline_code (w # ws) flag = (if w = flag then (case ws of c # _ \<Rightarrow> Some c | [] \<Rightarrow> None) else inline_code ws flag)"

definition managed_children :: "rstr list" where
  "managed_children =
     [lit ''git '', lit ''rg '', lit ''grep '', lit ''cat '', lit ''sed '', lit ''head '', lit ''tail '', lit ''bun '',
      lit ''cargo '', lit ''npm '', lit ''pnpm '']"

definition python_code_requires_ask :: "rstr \<Rightarrow> bool" where
  "python_code_requires_ask code =
     (let emits_file =
            (str_contains code (lit ''open('') \<or> str_contains code (lit ''read_text('') \<or> str_contains code (lit ''json.load('')) \<and>
            (str_contains code (lit ''print('') \<or> str_contains code (lit ''stdout''));
          launches_child =
            (str_contains code (lit ''subprocess'') \<or> str_contains code (lit ''os.system('')) \<and>
            list_ex (str_contains code) managed_children
      in emits_file \<or> launches_child)"

definition inline_asks :: "rstr list \<Rightarrow> rstr \<Rightarrow> (rstr \<Rightarrow> bool) \<Rightarrow> bool" where
  "inline_asks ws flag asks =
     (flag \<in> set ws \<and> (case inline_code ws flag of None \<Rightarrow> True | Some code \<Rightarrow> asks code))"

definition interpreter_reads_or_launches_children :: "rewrite_env \<Rightarrow> rstr \<Rightarrow> bool" where
  "interpreter_reads_or_launches_children env command =
     (case shell_split command of
        [] \<Rightarrow> False
      | word # rest \<Rightarrow>
          let ws = word # rest; program = executable_name (rw_gate env) word
          in if program = lit ''python'' \<or> starts_with program (lit ''python3'')
             then (if has_heredoc command then python_code_requires_ask command
                   else inline_asks ws (lit ''-c'') python_code_requires_ask)
             else if program = lit ''node''
             then inline_asks ws (lit ''-e'')
                    (\<lambda>code. str_contains code (lit ''readFileSync'') \<and>
                       (str_contains code (lit ''console.log'') \<or> str_contains code (lit ''stdout.write'')))
             else if program = lit ''ruby''
             then inline_asks ws (lit ''-e'')
                    (\<lambda>code. str_contains code (lit ''File.read'') \<and>
                       (str_contains code (lit ''puts'') \<or> str_contains code (lit ''print'')))
             else if program = lit ''perl''
             then list_ex (\<lambda>w. starts_with w (lit ''-n'') \<or> starts_with w (lit ''-p'')) ws \<and>
                  list_ex (\<lambda>w. str_contains w (lit ''print'')) ws
             else if program = lit ''awk''
             then (case rest of code # f # _ \<Rightarrow> str_contains code (lit ''print'') \<and> f \<noteq> lit ''-'' | _ \<Rightarrow> False)
             else False)"

definition dump_readers :: "rstr list" where
  "dump_readers = [lit ''cat'', lit ''nl'', lit ''head'', lit ''tail'', lit ''tar'']"

definition aggregate_dump :: "rewrite_env \<Rightarrow> rstr \<Rightarrow> bool" where
  "aggregate_dump env command =
     (case shell_split command of
        [] \<Rightarrow> False
      | word # rest \<Rightarrow>
          let program = executable_name (rw_gate env) word;
              reader = (\<lambda>w. executable_name (rw_gate env) w \<in> set dump_readers)
          in if program = lit ''find''
             then list_ex (\<lambda>(w, child). (w = lit ''-exec'' \<or> w = lit ''-execdir'') \<and> reader child) (zip (word # rest) rest)
             else if program = lit ''xargs'' then list_ex reader rest
             else if program = lit ''tar''
             then list_ex (\<lambda>w. let flags = dropWhile (\<lambda>c. c = c_minus) w in 99 \<in> set flags \<and> 102 \<in> set flags) rest \<and>
                  lit ''-'' \<in> set rest
             else False)"

definition ledger_sqlite_query :: "rewrite_env \<Rightarrow> rstr \<Rightarrow> bool" where
  "ledger_sqlite_query env command =
     (case shell_split command of
        [] \<Rightarrow> False
      | program # arguments \<Rightarrow>
          executable_name (rw_gate env) program = lit ''sqlite3'' \<and>
          list_ex (\<lambda>a. ends_with a (lit ''/ledger/hzr.sqlite'') \<or> a = lit ''ledger/hzr.sqlite'') arguments)"

section \<open>Attribution\<close>

definition is_rewritten :: "rewrite_outcome \<Rightarrow> bool" where
  "is_rewritten outcome = (case outcome of Rewritten _ \<Rightarrow> True | _ \<Rightarrow> False)"

definition stage_token :: "parsed_token \<Rightarrow> bool" where
  "stage_token t = (is_clause_end t \<or> is_pipe t)"

definition stage_count :: "rstr \<Rightarrow> 16 word" where
  "stage_count command = of_nat (min (length (filter stage_token (tokenize command)) + 1) 65535)"

definition attribution_class ::
  "rewrite_env \<Rightarrow> rstr \<Rightarrow> nat \<Rightarrow> evasion_path_form \<Rightarrow> rewrite_outcome \<Rightarrow> evasion_class option" where
  "attribution_class env command depth form outcome =
     (if privilege_prefix command \<noteq> None then Some E11PrivilegedPrefix
      else if fs_requested (fidelity_signal command) then Some E7FidelityHatch
      else if ledger_sqlite_query env command then Some E9DiagnosticBypass
      else if aggregate_dump env command then Some E6NestedUnboundedReader
      else if interpreter_signal env command \<noteq> None \<and> interpreter_reads_or_launches_children env command
      then Some E3InterpreterRead
      else if 0 < depth then Some E2ShellWrapper
      else if list_ex (\<lambda>t. tok_kind t = Operator \<or> is_pipe t \<or> tok_kind t = Redirect) (tokenize command)
      then Some E5PipelineOrRedirect
      else if form = PathAbsoluteSystem \<or> form = PathResolvedAlias then Some E4ExecutablePath
      else if (c_squote \<in> set command \<or> c_dquote \<in> set command) \<and> is_rewritten outcome then Some E1QuotedCoveredCommand
      else if outcome \<in> {NoEquivalent, PolicyAsk, AmbiguousShell} then Some E10CapabilityGap
      else None)"

definition attribution_avoidable :: "evasion_class \<Rightarrow> rewrite_outcome \<Rightarrow> bool" where
  "attribution_avoidable cls outcome =
     (cls \<notin> {E7FidelityHatch, E10CapabilityGap, E11PrivilegedPrefix} \<and> is_rewritten outcome)"

definition attribution_tier :: "evasion_class \<Rightarrow> rewrite_outcome \<Rightarrow> enforcement_tier" where
  "attribution_tier cls outcome =
     (if cls = E7FidelityHatch then T4HatchQuarantine
      else if outcome \<in> {PolicyAsk, AmbiguousShell} then T2DenyWithPrescription
      else if attribution_avoidable cls outcome \<and> is_rewritten outcome then T1NamedCorrection
      else T0TransparentRewrite)"

definition canonical_attribution :: "rewrite_env \<Rightarrow> rstr \<Rightarrow> rewrite_outcome \<Rightarrow> evasion_attribution option option" where
  "canonical_attribution env command outcome = do {
     depth \<leftarrow> wrapper_depth env command 0;
     form \<leftarrow> path_form env command;
     (let hatch = fidelity_signal command
      in Some (map_option (\<lambda>cls.
           \<lparr>ev_class = cls, ev_wrapper_depth = of_nat depth, ev_interpreter = interpreter_signal env command,
            ev_path_form = form, ev_stage_count = stage_count command, ev_hatch_marker = fs_requested hatch,
            ev_avoidable = attribution_avoidable cls outcome, ev_tier = attribution_tier cls outcome,
            ev_fidelity_reason = fs_reason hatch, ev_fidelity_validation = fs_validation hatch\<rparr>)
           (attribution_class env command depth form outcome)))
   }"

section \<open>The two commands\<close>

text \<open>The configuration and the permission settings as they were read, and the switch in the environment.\<close>

record rewrite_setup =
  su_excluded :: "rstr list"
  su_transparent_prefixes :: "rstr list"
  su_deny :: "rstr list"
  su_ask :: "rstr list"
  su_allow :: "rstr list"
  su_byte_fidelity :: bool

definition setup_verdict :: "rewrite_env \<Rightarrow> rewrite_setup \<Rightarrow> rstr \<Rightarrow> permission_verdict option" where
  "setup_verdict env su cmd =
     check_command_with_prefixes (rw_gate env) cmd (su_deny su) (su_ask su) (su_allow su) (su_transparent_prefixes su)"

definition setup_outcome :: "rewrite_env \<Rightarrow> rewrite_setup \<Rightarrow> rstr \<Rightarrow> rewrite_outcome run" where
  "setup_outcome env su cmd =
     rewrite_command_outcome_with_fidelity env cmd (su_excluded su) (su_transparent_prefixes su) (su_byte_fidelity su)"

text \<open>The exit code and the printed text for a verdict and an outcome; a denied command does not get here.\<close>

definition run_exit :: "permission_verdict \<Rightarrow> rewrite_outcome \<Rightarrow> rstr \<times> nat" where
  "run_exit verdict outcome =
     (case outcome of
        Rewritten rewritten \<Rightarrow> (rewritten, if verdict = Allow then 0 else 3)
      | NoEquivalent \<Rightarrow> ([], 1)
      | ByteFidelityProxy \<Rightarrow> ([], if verdict = Allow then 1 else 4)
      | AmbiguousShell \<Rightarrow> ([], 4)
      | PolicyAsk \<Rightarrow> ([], 4))"

definition rewrite_run :: "rewrite_env \<Rightarrow> rewrite_setup \<Rightarrow> rstr \<Rightarrow> (rstr \<times> nat) run" where
  "rewrite_run env su cmd =
     (case setup_verdict env su cmd of
        None \<Rightarrow> Panicked
      | Some verdict \<Rightarrow>
          if verdict = Deny then Returned ([], 2)
          else (case setup_outcome env su cmd of
                  OutOfFuel \<Rightarrow> OutOfFuel
                | Panicked \<Rightarrow> Panicked
                | Returned outcome \<Rightarrow> Returned (run_exit verdict outcome)))"

fun host_permission_verdict_of :: "permission_verdict \<Rightarrow> host_permission_verdict" where
  "host_permission_verdict_of Allow = HostAllow"
| "host_permission_verdict_of Ask = HostAsk"
| "host_permission_verdict_of Deny = HostDeny"
| "host_permission_verdict_of Default = HostDefault"

text \<open>Decision, proposal and reason.\<close>

definition plan_choice ::
  "permission_verdict \<Rightarrow> rewrite_outcome \<Rightarrow> rewrite_plan_decision \<times> rstr option \<times> rewrite_plan_reason option" where
  "plan_choice verdict outcome =
     (if verdict = Deny then (PlanDeny, None, Some PermissionPolicy)
      else case outcome of
        Rewritten command \<Rightarrow>
          if verdict = Ask then (PlanAsk, Some command, Some PermissionPolicy) else (PlanRewrite, Some command, None)
      | NoEquivalent \<Rightarrow> (PlanProxy, None, None)
      | ByteFidelityProxy \<Rightarrow> if verdict = Allow then (PlanProxy, None, None) else (PlanAsk, None, Some CanonicalPolicy)
      | AmbiguousShell \<Rightarrow> (PlanAsk, None, Some CanonicalPolicy)
      | PolicyAsk \<Rightarrow> (PlanAsk, None, Some CanonicalPolicy))"

definition run_plan :: "rewrite_env \<Rightarrow> rewrite_setup \<Rightarrow> rstr \<Rightarrow> rewrite_plan run" where
  "run_plan env su cmd =
     (case setup_verdict env su cmd of
        None \<Rightarrow> Panicked
      | Some verdict \<Rightarrow>
          (case setup_outcome env su cmd of
             OutOfFuel \<Rightarrow> OutOfFuel
           | Panicked \<Rightarrow> Panicked
           | Returned outcome \<Rightarrow>
               (case canonical_attribution env cmd outcome of
                  None \<Rightarrow> Panicked
                | Some attribution \<Rightarrow>
                    (case plan_choice verdict outcome of
                       (decision, proposed, reason) \<Rightarrow>
                         Returned \<lparr>plan_decision = decision, plan_proposed = proposed, plan_attribution = attribution,
                           plan_reason = reason, plan_host_permission = Some (host_permission_verdict_of verdict)\<rparr>))))"

section \<open>Plans are consistent\<close>

lemma wrapper_levels_le: "wrapper_levels env n command = Some d \<Longrightarrow> d \<le> n"
  by (induction n arbitrary: command d) (fastforce split: bind_splits shell_wrapper_parse.splits)+

lemma wrapper_depth_le: "wrapper_depth env command 0 = Some d \<Longrightarrow> d \<le> 3"
  by (auto simp: wrapper_depth_def max_shell_wrapper_depth_def dest: wrapper_levels_le)

lemma stage_count_pos: "0 < stage_count command"
proof -
  have "unat (stage_count command) = min (length (filter stage_token (tokenize command)) + 1) 65535"
    unfolding stage_count_def by (subst unat_of_nat) (simp add: take_bit_eq_mod)
  then show ?thesis by (simp add: word_less_nat_alt)
qed

lemma plan_choice_metadata:
  "plan_choice verdict outcome = (d, p, r) \<Longrightarrow>
   plan_metadata_matches \<lparr>plan_decision = d, plan_proposed = p, plan_attribution = a, plan_reason = r, plan_host_permission = h\<rparr>"
  by (auto simp: plan_choice_def plan_metadata_matches_def split: rewrite_outcome.splits if_splits)

lemma small_word_of_nat: "d \<le> 3 \<Longrightarrow> (of_nat d :: 8 word) \<le> 3"
proof -
  assume "d \<le> 3"
  then have "d = 0 \<or> d = 1 \<or> d = 2 \<or> d = 3" by linarith
  then show ?thesis by auto
qed

lemma canonical_attribution_valid:
  assumes "canonical_attribution env command outcome = Some (Some a)"
  shows "evasion_is_valid a \<longleftrightarrow> fs_requested (fidelity_signal command) \<or> fs_reason (fidelity_signal command) = None"
proof -
  obtain depth form cls where d: "wrapper_depth env command 0 = Some depth"
    and a: "a = \<lparr>ev_class = cls, ev_wrapper_depth = of_nat depth, ev_interpreter = interpreter_signal env command,
            ev_path_form = form, ev_stage_count = stage_count command, ev_hatch_marker = fs_requested (fidelity_signal command),
            ev_avoidable = attribution_avoidable cls outcome, ev_tier = attribution_tier cls outcome,
            ev_fidelity_reason = fs_reason (fidelity_signal command),
            ev_fidelity_validation = fs_validation (fidelity_signal command)\<rparr>"
    using assms by (auto simp: canonical_attribution_def Let_def split: bind_splits)
  have "fs_validation (fidelity_signal command) = FidelityNotRequested" if "\<not> fs_requested (fidelity_signal command)"
    using that by (auto simp: fidelity_signal_def split: prod.splits)
  with small_word_of_nat [OF wrapper_depth_le [OF d]] stage_count_pos [of command] show ?thesis
    unfolding evasion_is_valid_def a by auto
qed

text \<open>C37: a plan is accepted by the receiver's consistency check exactly when it carries no attribution, or the
  command does not give a fidelity reason without requesting fidelity: decision, proposal and reason always fit
  together.\<close>

theorem run_plan_consistent_iff:
  assumes "run_plan env su cmd = Returned plan"
  shows "plan_is_consistent plan \<longleftrightarrow>
    plan_attribution plan = None \<or> fs_requested (fidelity_signal cmd) \<or> fs_reason (fidelity_signal cmd) = None"
proof -
  obtain verdict outcome attribution d p r where
    "canonical_attribution env cmd outcome = Some attribution" "plan_choice verdict outcome = (d, p, r)"
    "plan = \<lparr>plan_decision = d, plan_proposed = p, plan_attribution = attribution, plan_reason = r,
       plan_host_permission = Some (host_permission_verdict_of verdict)\<rparr>"
    using assms by (auto simp: run_plan_def split: option.splits run.splits prod.splits)
  then show ?thesis
    using plan_choice_metadata [of verdict outcome d p r] canonical_attribution_valid [of env cmd outcome]
    by (auto simp: plan_is_consistent_def split: option.splits)
qed

section \<open>What the two commands promise\<close>

lemma rewrite_run_allowed:
  assumes "rewrite_run env su cmd = Returned (out, 0)"
  shows "setup_verdict env su cmd = Some Allow" and "setup_outcome env su cmd = Returned (Rewritten out)"
  using assms
  by (auto simp: rewrite_run_def run_exit_def split: option.splits run.splits if_splits rewrite_outcome.splits)

text \<open>C3: the exit code says what may be done with the printed text. Code 0 comes only with the rewriting of a
  command whose every segment an allow rule names as written and no deny or ask rule names in any reading; code 3
  only with the rewriting of a command that is not denied; code 2 exactly for denied commands; and every other code
  with no text.\<close>

theorem rewrite_run_exit_sound:
  assumes "rewrite_run env su cmd = Returned (out, code)"
  shows "(code = 2 \<longleftrightarrow> setup_verdict env su cmd = Some Deny) \<and>
    (code \<in> {0, 3} \<or> out = []) \<and>
    (code \<in> {0, 3} \<longrightarrow> setup_outcome env su cmd = Returned (Rewritten out)) \<and>
    (code = 0 \<longrightarrow> (\<exists>segs rds. split_for_permissions cmd = Some segs \<and> segs \<noteq> [] \<and>
       map_m (read_segment (rw_gate env) (reads_past_prefixes (su_deny su) (su_ask su))
         (gate_prefixes (su_transparent_prefixes su))) segs = Some rds \<and>
       list_all (\<lambda>seg. \<exists>p. p \<in> set (su_allow su) \<and> rule_matches seg p) segs \<and>
       list_all (\<lambda>(seg, rd). list_all (\<lambda>p. \<not> names seg rd p) (su_deny su @ su_ask su)) rds))"
proof -
  have "code = 2 \<longleftrightarrow> setup_verdict env su cmd = Some Deny" "code \<in> {0, 3} \<or> out = []"
    "code \<in> {0, 3} \<longrightarrow> setup_outcome env su cmd = Returned (Rewritten out)"
    using assms by (auto simp: rewrite_run_def run_exit_def split: option.splits run.splits if_splits rewrite_outcome.splits)
  moreover have "\<exists>segs rds. split_for_permissions cmd = Some segs \<and> segs \<noteq> [] \<and>
       map_m (read_segment (rw_gate env) (reads_past_prefixes (su_deny su) (su_ask su))
         (gate_prefixes (su_transparent_prefixes su))) segs = Some rds \<and>
       list_all (\<lambda>seg. \<exists>p. p \<in> set (su_allow su) \<and> rule_matches seg p) segs \<and>
       list_all (\<lambda>(seg, rd). list_all (\<lambda>p. \<not> names seg rd p) (su_deny su @ su_ask su)) rds" if "code = 0"
  proof -
    have "setup_verdict env su cmd = Some Allow" using rewrite_run_allowed(1) assms that by blast
    then show ?thesis using allow_verdict_readings unfolding setup_verdict_def by (fastforce simp: list_all_iff)
  qed
  ultimately show ?thesis by blast
qed

definition sample_setup :: rewrite_setup where
  "sample_setup = \<lparr>su_excluded = [], su_transparent_prefixes = [], su_deny = [lit ''rm''], su_ask = [],
     su_allow = [lit ''tar''], su_byte_fidelity = False\<rparr>"

theorem rewrite_run_exit_sound_witness:
  "rewrite_run bare_env sample_setup (lit ''tar -tf a'') = Returned (lit ''rtk tar --max-entries 100 -tf a'', 0) \<and>
   setup_outcome bare_env sample_setup (lit ''tar -tf a'') = Returned (Rewritten (lit ''rtk tar --max-entries 100 -tf a'')) \<and>
   (\<exists>segs. split_for_permissions (lit ''tar -tf a'') = Some segs \<and>
      list_all (\<lambda>seg. \<exists>p. p \<in> set (su_allow sample_setup) \<and> rule_matches seg p) segs)"
proof -
  have r: "rewrite_run bare_env sample_setup (lit ''tar -tf a'') = Returned (lit ''rtk tar --max-entries 100 -tf a'', 0)"
    by code_simp
  show ?thesis using r rewrite_run_exit_sound [OF r] by blast
qed

text \<open>A reason without the request: the plan is what the rewriter means, and the receiver refuses it.\<close>

definition reasoned_command :: rstr where
  "reasoned_command = lit ''HZR_RAW_FIDELITY_REASON=binary sudo ls''"

definition reasoned_plan :: rewrite_plan where
  "reasoned_plan = \<lparr>plan_decision = PlanProxy, plan_proposed = None,
     plan_attribution = Some \<lparr>ev_class = E11PrivilegedPrefix, ev_wrapper_depth = 0, ev_interpreter = None,
       ev_path_form = PathBare, ev_stage_count = 1, ev_hatch_marker = False, ev_avoidable = False,
       ev_tier = T0TransparentRewrite, ev_fidelity_reason = Some ReasonBinary,
       ev_fidelity_validation = FidelityNotRequested\<rparr>,
     plan_reason = None, plan_host_permission = Some HostDefault\<rparr>"

lemma reasoned_plan_made: "run_plan bare_env sample_setup reasoned_command = Returned reasoned_plan"
  by code_simp

theorem run_plan_consistent_iff_witness:
  "run_plan bare_env sample_setup reasoned_command = Returned reasoned_plan \<and> \<not> plan_is_consistent reasoned_plan"
proof -
  have "plan_attribution reasoned_plan \<noteq> None" by (simp add: reasoned_plan_def)
  moreover have "\<not> fs_requested (fidelity_signal reasoned_command)" by code_simp
  moreover have "fs_reason (fidelity_signal reasoned_command) \<noteq> None" by code_simp
  ultimately show ?thesis using reasoned_plan_made run_plan_consistent_iff [OF reasoned_plan_made] by simp
qed

end
