(* ===== verification/Json_Pack.thy ===== *)
theory Json_Pack
  imports Decimal
begin

text \<open>
  The lossless repacking of JSON (\<open>fork-core/rtk/src/jsonpack.rs\<close>): an array of objects becomes a table of
  comma-separated rows, and inside an object a dense array of flat objects becomes a table value. The result is
  decoded and compared before it is used.

  Objects keep their keys in order of insertion, as the map of the JSON library does with the feature the crate
  turns on, and are compared without regard to that order. The type of floating-point numbers is a parameter of
  the values; the parser and the printer of the library are arguments. Messages of errors are not modelled: the
  inner option is a decoding error, the outer one the panic of \<open>insert_path\<close>.
\<close>

abbreviation (input) c_comma :: rchar where "c_comma \<equiv> 44"

section \<open>Values\<close>

datatype 'f jvalue =
    JNull | JBool bool | JInt int | JFloat 'f | JText rstr | JArray "'f jvalue list" | JObject "(rstr \<times> 'f jvalue) list"

type_synonym 'f jentries = "(rstr \<times> 'f jvalue) list"

text \<open>Equality of values: objects as sets of entries.\<close>

fun same_json :: "'f jvalue \<Rightarrow> 'f jvalue \<Rightarrow> bool" where
  "same_json (JArray xs) (JArray ys) = list_all2 same_json xs ys"
| "same_json (JObject ms) (JObject ns) =
     (length ms = length ns \<and>
      list_all (\<lambda>(k, v). case map_of ns k of None \<Rightarrow> False | Some w \<Rightarrow> same_json v w) ms)"
| "same_json v w = (v = w)"

text \<open>No key twice in an object.\<close>

fun wf_json :: "'f jvalue \<Rightarrow> bool" where
  "wf_json (JArray xs) = list_all wf_json xs"
| "wf_json (JObject ms) = (distinct (map fst ms) \<and> list_all (\<lambda>(k, v). wf_json v) ms)"
| "wf_json v = True"

text \<open>Insertion into a map that keeps the order of first insertion.\<close>

fun index_insert :: "rstr \<Rightarrow> 'f jvalue \<Rightarrow> 'f jentries \<Rightarrow> 'f jentries" where
  "index_insert k v [] = [(k, v)]"
| "index_insert k v ((k', v') # m) = (if k' = k then (k, v) # m else (k', v') # index_insert k v m)"

definition as_object :: "'f jvalue \<Rightarrow> 'f jentries option" where
  "as_object v = (case v of JObject m \<Rightarrow> Some m | _ \<Rightarrow> None)"

definition max_columns :: nat where
  "max_columns = 512"

definition cols_key :: rstr where "cols_key = lit ''_cols''"

definition rows_key :: rstr where "rows_key = lit ''_rows''"

definition flat_key :: rstr where "flat_key = lit ''_flat''"

definition min_table_rows :: nat where
  "min_table_rows = 2"

section \<open>Columns\<close>

datatype column_kind = IntColumn | FloatColumn | BoolColumn | StringColumn | JsonColumn

fun column_kind_as_str :: "column_kind \<Rightarrow> rstr" where
  "column_kind_as_str IntColumn = lit ''int''"
| "column_kind_as_str FloatColumn = lit ''float''"
| "column_kind_as_str BoolColumn = lit ''bool''"
| "column_kind_as_str StringColumn = lit ''string''"
| "column_kind_as_str JsonColumn = lit ''json''"

definition column_kind_from_str :: "rstr \<Rightarrow> column_kind option" where
  "column_kind_from_str s =
     (if s = lit ''int'' then Some IntColumn
      else if s = lit ''float'' then Some FloatColumn
      else if s = lit ''bool'' then Some BoolColumn
      else if s = lit ''string'' then Some StringColumn
      else if s = lit ''json'' then Some JsonColumn
      else None)"

fun column_kind_of :: "'f jvalue \<Rightarrow> column_kind" where
  "column_kind_of (JBool _) = BoolColumn"
| "column_kind_of (JInt _) = IntColumn"
| "column_kind_of (JFloat _) = FloatColumn"
| "column_kind_of (JText _) = StringColumn"
| "column_kind_of _ = JsonColumn"

definition column_kind_merge :: "column_kind \<Rightarrow> column_kind \<Rightarrow> column_kind" where
  "column_kind_merge a b =
     (if a = b then a
      else if a = IntColumn \<and> b = FloatColumn \<or> a = FloatColumn \<and> b = IntColumn then FloatColumn
      else JsonColumn)"

record column =
  col_name :: rstr
  col_path :: "rstr list"
  col_kind :: column_kind
  col_nullable :: bool
  col_present_rows :: nat

text \<open>A leaf: its column is updated, or added at the end, unless there are too many. The table from names to
  positions that the code keeps beside the columns is their order here.\<close>

fun update_column :: "rstr \<Rightarrow> 'f jvalue \<Rightarrow> column list \<Rightarrow> column list option" where
  "update_column name v [] = None"
| "update_column name v (c # cs) =
     (if col_name c = name
      then Some (c\<lparr>col_kind := column_kind_merge (col_kind c) (column_kind_of v),
                   col_nullable := col_nullable c \<or> v = JNull, col_present_rows := col_present_rows c + 1\<rparr> # cs)
      else map_option ((#) c) (update_column name v cs))"

definition collect_leaf :: "rstr list \<Rightarrow> 'f jvalue \<Rightarrow> column list \<Rightarrow> column list option" where
  "collect_leaf path v columns =
     (let name = join [c_dot] path
      in case update_column name v columns of
           Some updated \<Rightarrow> Some updated
         | None \<Rightarrow>
             let added = columns @ [\<lparr>col_name = name, col_path = path, col_kind = column_kind_of v,
                           col_nullable = v = JNull, col_present_rows = 1\<rparr>]
             in if max_columns < length added then None else Some added)"

definition bad_key :: "rstr \<Rightarrow> bool" where
  "bad_key key = (c_dot \<in> set key \<or> c_comma \<in> set key \<or> starts_with key [c_underscore])"

definition inner_object :: "'f jvalue \<Rightarrow> 'f jentries option" where
  "inner_object v = (case v of JObject m \<Rightarrow> if m = [] then None else Some m | _ \<Rightarrow> None)"

lemma inner_object_size: "inner_object v = Some m \<Longrightarrow> size_list (size_prod (\<lambda>_. 0) (size_jvalue f)) m < size_jvalue f v"
  by (auto simp: inner_object_def split: jvalue.splits if_splits)

function collect_from :: "'f jentries \<Rightarrow> rstr list \<Rightarrow> column list \<Rightarrow> column list option" where
  "collect_from [] path columns = Some columns"
| "collect_from ((key, v) # rest) path columns =
     (if bad_key key then None
      else do {
        columns' \<leftarrow> (case inner_object v of
            Some inner \<Rightarrow> collect_from inner (path @ [key]) columns
          | None \<Rightarrow> collect_leaf (path @ [key]) v columns);
        collect_from rest path columns'
      })"
  by pat_completeness auto
termination
  by (relation "measure (\<lambda>(es, _, _). size_list (size_prod (\<lambda>_. 0) (size_jvalue (\<lambda>_. 0))) es)")
    (auto dest: inner_object_size [where f = "\<lambda>_. 0"])

fun collect_rows :: "'f jentries list \<Rightarrow> column list \<Rightarrow> column list option" where
  "collect_rows [] columns = Some columns"
| "collect_rows (r # rs) columns = (case collect_from r [] columns of None \<Rightarrow> None | Some cs \<Rightarrow> collect_rows rs cs)"

definition collect_columns :: "'f jentries list \<Rightarrow> column list option" where
  "collect_columns objects =
     map_option (map (\<lambda>c. c\<lparr>col_nullable := col_nullable c \<or> col_present_rows c < length objects\<rparr>))
       (collect_rows objects [])"

section \<open>Tables\<close>

fun lookup_path :: "'f jentries \<Rightarrow> rstr list \<Rightarrow> 'f jvalue option" where
  "lookup_path m [] = None"
| "lookup_path m [k] = map_of m k"
| "lookup_path m (k # ks) =
     (case map_of m k of None \<Rightarrow> None | Some v \<Rightarrow> (case as_object v of None \<Rightarrow> None | Some inner \<Rightarrow> lookup_path inner ks))"

definition needs_quote :: "rstr \<Rightarrow> bool" where
  "needs_quote s =
     (s = [] \<or> s = lit ''null'' \<or> c_comma \<in> set s \<or> c_dquote \<in> set s \<or> c_newline \<in> set s \<or> c_return \<in> set s \<or>
      starts_with s [c_space] \<or> ends_with s [c_space])"

definition escape_quotes :: "rstr \<Rightarrow> rstr" where
  "escape_quotes s = concat (map (\<lambda>c. if c = c_dquote then [c_dquote, c_dquote] else [c]) s)"

definition csv_quote :: "rstr \<Rightarrow> rstr" where
  "csv_quote s = (if needs_quote s then [c_dquote] @ escape_quotes s @ [c_dquote] else s)"

definition encode_cell :: "('f jvalue \<Rightarrow> rstr) \<Rightarrow> 'f jentries \<Rightarrow> column \<Rightarrow> rstr" where
  "encode_cell to_string m c =
     (case lookup_path m (col_path c) of
        None \<Rightarrow> []
      | Some JNull \<Rightarrow> lit ''null''
      | Some (JText s) \<Rightarrow> if col_kind c = StringColumn then csv_quote s else csv_quote (to_string (JText s))
      | Some v \<Rightarrow> csv_quote (to_string v))"

definition column_header :: "column \<Rightarrow> rstr" where
  "column_header c = col_name c @ [c_colon] @ column_kind_as_str (col_kind c) @ (if col_nullable c then [c_question] else [])"

definition pack_top_level_array :: "('f jvalue \<Rightarrow> rstr) \<Rightarrow> 'f jvalue list \<Rightarrow> rstr option" where
  "pack_top_level_array to_string rows =
     (if length rows < min_table_rows then None
      else case map_m as_object rows of
        None \<Rightarrow> None
      | Some objects \<Rightarrow>
          (case collect_columns objects of
             None \<Rightarrow> None
           | Some columns \<Rightarrow>
               if columns = [] then None
               else Some ([c_lbracket] @ show_nat (length rows) @ [c_rbracket, c_lbrace] @
                      join [c_comma] (map column_header columns) @ [c_rbrace, c_newline] @
                      concat (map (\<lambda>m. join [c_comma] (map (encode_cell to_string m) columns) @ [c_newline]) objects))))"

datatype cell = AbsentCell | QuotedCell rstr | BareCell rstr

text \<open>The text of a quoted cell after its opening quote, and what follows its closing quote.\<close>

fun quoted_text :: "rstr \<Rightarrow> (rstr \<times> rstr) option" where
  "quoted_text [] = None"
| "quoted_text (c # s) =
     (if c = c_dquote
      then (case s of
              d # s' \<Rightarrow> if d = c_dquote then map_option (\<lambda>(t, r). (c_dquote # t, r)) (quoted_text s') else Some ([], s)
            | [] \<Rightarrow> Some ([], []))
      else map_option (\<lambda>(t, r). (c # t, r)) (quoted_text s))"

definition read_cell :: "rstr \<Rightarrow> (cell \<times> rstr) option" where
  "read_cell s =
     (if starts_with s [c_dquote] then map_option (\<lambda>(t, r). (QuotedCell t, r)) (quoted_text (tl s))
      else let t = takeWhile (\<lambda>c. c \<noteq> c_comma) s
           in Some (if t = [] then AbsentCell else BareCell t, dropWhile (\<lambda>c. c \<noteq> c_comma) s))"

lemma quoted_text_shorter: "quoted_text s = Some (t, r) \<Longrightarrow> length r < length s"
  by (induction s arbitrary: t r rule: quoted_text.induct) (fastforce split: if_splits list.splits)+

lemma read_cell_shorter: "read_cell s = Some (c, r) \<Longrightarrow> length r \<le> length s"
  using length_dropWhile_le [of "\<lambda>c. c \<noteq> c_comma" s]
  by (auto simp: read_cell_def Let_def split: if_splits dest!: quoted_text_shorter)

function csv_cells :: "rstr \<Rightarrow> cell list option" where
  "csv_cells s =
     (case read_cell s of
        None \<Rightarrow> None
      | Some (c, []) \<Rightarrow> Some [c]
      | Some (c, x # rest) \<Rightarrow> if x = c_comma then map_option ((#) c) (csv_cells rest) else None)"
  by pat_completeness auto
termination
  by (relation "measure length") (auto dest!: read_cell_shorter)

declare csv_cells.simps [simp del]

definition split_csv_row :: "rstr \<Rightarrow> nat \<Rightarrow> cell list option" where
  "split_csv_row line expected =
     (case csv_cells line of None \<Rightarrow> None | Some cells \<Rightarrow> if length cells = expected then Some cells else None)"

definition decode_cell :: "(rstr \<Rightarrow> 'f jvalue option) \<Rightarrow> cell \<Rightarrow> column \<Rightarrow> 'f jvalue option option" where
  "decode_cell from_str c col =
     (case c of
        AbsentCell \<Rightarrow> Some None
      | BareCell s \<Rightarrow>
          if s = lit ''null'' then Some (Some JNull)
          else if col_kind col = StringColumn then Some (Some (JText s))
          else map_option Some (from_str s)
      | QuotedCell s \<Rightarrow>
          if col_kind col = StringColumn then Some (Some (JText s)) else map_option Some (from_str s))"

text \<open>Missing objects on the way are created; a value on the way that is no object is a panic.\<close>

fun insert_path :: "'f jentries \<Rightarrow> rstr list \<Rightarrow> 'f jvalue \<Rightarrow> 'f jentries option" where
  "insert_path m [] v = Some m"
| "insert_path m [k] v = Some (index_insert k v m)"
| "insert_path m (k # ks) v =
     (case map_of m k of
        None \<Rightarrow> map_option (\<lambda>inner. index_insert k (JObject inner) m) (insert_path [] ks v)
      | Some (JObject inner) \<Rightarrow> map_option (\<lambda>inner'. index_insert k (JObject inner') m) (insert_path inner ks v)
      | Some _ \<Rightarrow> None)"

text \<open>\<open>Some (Some m)\<close> is the object, \<open>Some None\<close> an error, \<open>None\<close> the panic.\<close>

fun decode_row :: "(rstr \<Rightarrow> 'f jvalue option) \<Rightarrow> (column \<times> cell) list \<Rightarrow> 'f jentries \<Rightarrow> 'f jentries option option" where
  "decode_row from_str [] m = Some (Some m)"
| "decode_row from_str ((col, c) # rest) m =
     (case decode_cell from_str c col of
        None \<Rightarrow> Some None
      | Some None \<Rightarrow> decode_row from_str rest m
      | Some (Some v) \<Rightarrow>
          (case insert_path m (col_path col) v of None \<Rightarrow> None | Some m' \<Rightarrow> decode_row from_str rest m'))"

fun decode_rows :: "(rstr \<Rightarrow> 'f jvalue option) \<Rightarrow> column list \<Rightarrow> rstr list \<Rightarrow> 'f jvalue list option option" where
  "decode_rows from_str columns [] = Some (Some [])"
| "decode_rows from_str columns (line # rest) =
     (case split_csv_row line (length columns) of
        None \<Rightarrow> Some None
      | Some cells \<Rightarrow>
          (case decode_row from_str (zip columns cells) [] of
             None \<Rightarrow> None
           | Some None \<Rightarrow> Some None
           | Some (Some m) \<Rightarrow> map_option (map_option ((#) (JObject m))) (decode_rows from_str columns rest)))"

fun split_once_str :: "rstr \<Rightarrow> rstr \<Rightarrow> (rstr \<times> rstr) option" where
  "split_once_str sep [] = (if sep = [] then Some ([], []) else None)"
| "split_once_str sep (c # s) =
     (if starts_with (c # s) sep then Some ([], drop (length sep) (c # s))
      else map_option (\<lambda>(a, b). (c # a, b)) (split_once_str sep s))"

definition rsplit_once :: "rchar \<Rightarrow> rstr \<Rightarrow> (rstr \<times> rstr) option" where
  "rsplit_once c s = map_option (\<lambda>(a, b). (rev b, rev a)) (split_once (\<lambda>x. x = c) (rev s))"

definition parse_column :: "rstr \<Rightarrow> column option" where
  "parse_column spec =
     (case rsplit_once c_colon spec of
        None \<Rightarrow> None
      | Some (name, kind_text) \<Rightarrow>
          let (kind_text, nullable) =
                (case strip_suffix kind_text [c_question] of Some stripped \<Rightarrow> (stripped, True) | None \<Rightarrow> (kind_text, False))
          in map_option (\<lambda>kind. \<lparr>col_name = name, col_path = split_on (\<lambda>c. c = c_dot) name, col_kind = kind,
                 col_nullable = nullable, col_present_rows = 0\<rparr>) (column_kind_from_str kind_text))"

definition unpack_table :: "(rstr \<Rightarrow> 'f jvalue option) \<Rightarrow> rstr \<Rightarrow> 'f jvalue option option" where
  "unpack_table from_str rest =
     (case split_once (\<lambda>c. c = c_rbracket) rest of
        None \<Rightarrow> Some None
      | Some (count_text, after_count) \<Rightarrow>
          (case parse_usize count_text of
             None \<Rightarrow> Some None
           | Some declared \<Rightarrow>
               (case strip_prefix after_count [c_lbrace] of
                  None \<Rightarrow> Some None
                | Some after_count \<Rightarrow>
                    (case split_once_str [c_rbrace, c_newline] after_count of
                       None \<Rightarrow> Some None
                     | Some (header, body) \<Rightarrow>
                         (case map_m parse_column (split_on (\<lambda>c. c = c_comma) header) of
                            None \<Rightarrow> Some None
                          | Some columns \<Rightarrow>
                              (case decode_rows from_str columns (str_lines body) of
                                 None \<Rightarrow> None
                               | Some None \<Rightarrow> Some None
                               | Some (Some rows) \<Rightarrow>
                                   Some (if length rows = declared then Some (JArray rows) else None)))))))"

section \<open>Envelopes\<close>

fun contains_marker_keys :: "'f jvalue \<Rightarrow> bool" where
  "contains_marker_keys (JObject m) =
     (map_of m cols_key \<noteq> None \<or> map_of m rows_key \<noteq> None \<or> map_of m flat_key \<noteq> None \<or>
      list_ex (\<lambda>(k, v). contains_marker_keys v) m)"
| "contains_marker_keys (JArray xs) = list_ex contains_marker_keys xs"
| "contains_marker_keys _ = False"

text \<open>The keys of all rows in the order they are met; a key with an underscore in front, or too many of them,
  gives up.\<close>

fun table_keys :: "rstr list \<Rightarrow> rstr list \<Rightarrow> rstr list option" where
  "table_keys [] columns = Some columns"
| "table_keys (key # keys) columns =
     (if starts_with key [c_underscore] then None
      else if key \<in> set columns then table_keys keys columns
      else if max_columns < length columns + 1 then None
      else table_keys keys (columns @ [key]))"

definition table_value :: "rstr list \<Rightarrow> 'f jentries list \<Rightarrow> 'f jvalue" where
  "table_value columns objects =
     JObject [(cols_key, JArray (map JText columns)),
              (rows_key, JArray (map (\<lambda>m. JArray (map (\<lambda>k. the (map_of m k)) columns)) objects))]"

definition table_form :: "'f jvalue list \<Rightarrow> 'f jvalue option" where
  "table_form items =
     (if length items < min_table_rows then None
      else case map_m as_object items of
        None \<Rightarrow> None
      | Some objects \<Rightarrow>
          if list_ex (list_ex (\<lambda>(k, v). as_object v \<noteq> None)) objects then None
          else (case table_keys (concat (map (map fst) objects)) [] of
                  None \<Rightarrow> None
                | Some columns \<Rightarrow>
                    if list_ex (\<lambda>m. length m \<noteq> length columns) objects then None
                    else Some (table_value columns objects)))"

text \<open>The code returns an option that is never \<open>None\<close>.\<close>

fun tabulate :: "'f jvalue \<Rightarrow> 'f jvalue" where
  "tabulate (JObject m) = JObject (map (\<lambda>(k, v). (k, tabulate v)) m)"
| "tabulate (JArray xs) = (case table_form xs of Some t \<Rightarrow> t | None \<Rightarrow> JArray (map tabulate xs))"
| "tabulate v = v"

definition as_text :: "'f jvalue \<Rightarrow> rstr option" where
  "as_text v = (case v of JText s \<Rightarrow> Some s | _ \<Rightarrow> None)"

text \<open>The columns and rows of a value that is a table.\<close>

definition table_parts :: "'f jentries \<Rightarrow> (rstr list \<times> 'f jvalue list) option" where
  "table_parts m =
     (case (map_of m cols_key, map_of m rows_key) of
        (Some (JArray cols), Some (JArray rows)) \<Rightarrow>
          if length m = 2 then (case map_m as_text cols of Some names \<Rightarrow> Some (names, rows) | None \<Rightarrow> None) else None
      | _ \<Rightarrow> None)"

lemma map_of_size: "map_of m k = Some v \<Longrightarrow> size_jvalue f v < Suc (size_list (size_prod (\<lambda>_. 0) (size_jvalue f)) m)"
  by (induction m) (auto split: if_splits)

lemma table_parts_size:
  assumes "table_parts m = Some (names, rows)" and "row \<in> set rows" and "row = JArray cells" and "c \<in> set cells"
  shows "size_jvalue f c < Suc (size_list (size_prod (\<lambda>_. 0) (size_jvalue f)) m)"
proof -
  have "map_of m rows_key = Some (JArray rows)"
    using assms(1) by (auto simp: table_parts_def split: option.splits jvalue.splits if_splits)
  from map_of_size [OF this, of f] have "size_list (size_jvalue f) rows < size_list (size_prod (\<lambda>_. 0) (size_jvalue f)) m" by simp
  moreover have "size_jvalue f row \<le> size_list (size_jvalue f) rows" using assms(2) by (rule size_list_estimation') simp
  moreover have "size_jvalue f c \<le> size_list (size_jvalue f) cells" using assms(4) by (rule size_list_estimation') simp
  ultimately show ?thesis using assms(3) by simp
qed

lemma entry_size: "(k, v) \<in> set m \<Longrightarrow> size_jvalue f v < Suc (size_list (size_prod (\<lambda>_. 0) (size_jvalue f)) m)"
  by (induction m) auto

function detabulate :: "'f jvalue \<Rightarrow> 'f jvalue" where
  "detabulate (JObject m) =
     (case table_parts m of
        Some (names, rows) \<Rightarrow>
          JArray (map (\<lambda>row. JObject (case row of
              JArray cells \<Rightarrow> fold (\<lambda>(n, c) m. index_insert n (detabulate c) m) (zip names cells) []
            | _ \<Rightarrow> [])) rows)
      | None \<Rightarrow> JObject (map (\<lambda>(k, v). (k, detabulate v)) m))"
| "detabulate (JArray xs) = JArray (map detabulate xs)"
| "detabulate JNull = JNull"
| "detabulate (JBool b) = JBool b"
| "detabulate (JInt i) = JInt i"
| "detabulate (JFloat x) = JFloat x"
| "detabulate (JText s) = JText s"
  by pat_completeness auto
termination
  by (relation "measure (size_jvalue (\<lambda>_. 0))")
    (auto dest!: set_zip_rightD dest: table_parts_size intro: le_imp_less_Suc size_list_estimation' entry_size)

section \<open>Packing\<close>

text \<open>The JSON library: its parser and its printer without white space.\<close>

record 'f json_env =
  je_parse :: "rstr \<Rightarrow> 'f jvalue option"
  je_print :: "'f jvalue \<Rightarrow> rstr"

definition pack_envelope :: "'f json_env \<Rightarrow> 'f jvalue \<Rightarrow> rstr option" where
  "pack_envelope env v =
     (if contains_marker_keys v then None
      else let tabulated = tabulate v
           in if same_json tabulated v then Some (je_print env v) else Some (je_print env tabulated))"

definition unpack :: "'f json_env \<Rightarrow> rstr \<Rightarrow> 'f jvalue option option" where
  "unpack env packed =
     (case strip_prefix packed [c_lbracket] of
        Some rest \<Rightarrow> unpack_table (je_parse env) rest
      | None \<Rightarrow> Some (map_option detabulate (je_parse env packed)))"

definition pack_value :: "'f json_env \<Rightarrow> 'f jvalue \<Rightarrow> rstr option" where
  "pack_value env parsed =
     (case parsed of
        JArray rows \<Rightarrow> pack_top_level_array (je_print env) rows
      | JObject _ \<Rightarrow> pack_envelope env parsed
      | _ \<Rightarrow> None)"

definition pack :: "'f json_env \<Rightarrow> rstr \<Rightarrow> rstr option option" where
  "pack env input =
     (case je_parse env input of
        None \<Rightarrow> Some None
      | Some parsed \<Rightarrow>
          (case pack_value env parsed of
             None \<Rightarrow> Some None
           | Some packed \<Rightarrow>
               (case unpack env packed of
                  None \<Rightarrow> None
                | Some None \<Rightarrow> Some None
                | Some (Some decoded) \<Rightarrow>
                    Some (if \<not> same_json decoded parsed then None
                          else if blen packed \<ge> blen input then None
                          else Some packed))))"

section \<open>Envelopes come back\<close>

lemma same_json_refl: "wf_json v \<Longrightarrow> same_json v v"
proof (induction v)
  case (JArray xs)
  then show ?case by (auto simp: list_all2_same list_all_iff)
next
  case (JObject m)
  have "map_of m k = Some v \<and> same_json v v" if "(k, v) \<in> set m" for k v
    using JObject that by (auto simp: list_all_iff)
  then show ?case by (auto simp: list_all_iff)
qed simp_all

lemma not_marked_parts: "map_of m cols_key = None \<Longrightarrow> table_parts m = None"
  by (simp add: table_parts_def)

lemma detabulate_unmarked: "\<not> contains_marker_keys v \<Longrightarrow> detabulate v = v"
proof (induction v)
  case (JArray xs)
  then have "map detabulate xs = xs" by (auto simp: list_ex_iff intro: map_idI)
  then show ?case by simp
next
  case (JObject m)
  then have "detabulate v = v" if "(k, v) \<in> set m" for k v using that by (auto simp: list_ex_iff)
  then have "map (\<lambda>(k, v). (k, detabulate v)) m = m" by (intro map_idI) auto
  with JObject.prems show ?case by (simp add: not_marked_parts)
qed simp_all

lemma table_keys_collects:
  "table_keys keys columns = Some out \<Longrightarrow> distinct columns \<Longrightarrow> distinct out \<and> set out = set columns \<union> set keys"
  by (induction keys columns rule: table_keys.induct) (auto split: if_splits)

lemma index_insert_new: "k \<notin> fst ` set m \<Longrightarrow> index_insert k v m = m @ [(k, v)]"
  by (induction m) auto

lemma fold_index_insert:
  "distinct ks \<Longrightarrow> set ks \<inter> fst ` set m = {} \<Longrightarrow>
   fold (\<lambda>(n, c) m. index_insert n (f c) m) (zip ks (map g ks)) m = m @ map (\<lambda>k. (k, f (g k))) ks"
  by (induction ks arbitrary: m) (auto simp: index_insert_new)

lemma map_m_JObject [simp]: "map_m as_object (map JObject ms) = Some ms"
  by (induction ms) (simp_all add: as_object_def)

lemma map_m_as_object: "map_m as_object xs = Some ms \<Longrightarrow> xs = map JObject ms"
proof (induction xs arbitrary: ms)
  case (Cons x xs)
  then show ?case by (cases x) (auto simp: as_object_def split: bind_splits)
qed simp

lemma map_m_as_text [simp]: "map_m as_text (map JText cs) = Some cs"
  by (induction cs) (simp_all add: as_text_def)

lemma detabulate_table:
  fixes objects :: "'f jentries list"
  assumes "distinct columns"
  shows "detabulate (table_value columns objects) =
    JArray (map (\<lambda>m. JObject (map (\<lambda>k. (k, detabulate (the (map_of m k)))) columns)) objects)"
proof -
  have "table_parts [(cols_key, JArray (map JText columns)), (rows_key, JArray rows)] = Some (columns, rows)"
    for rows :: "'f jvalue list"
    by (simp add: table_parts_def cols_key_def rows_key_def lit_def)
  then show ?thesis
    by (simp add: table_value_def fold_index_insert [OF assms, of "[]" detabulate, simplified])
qed

lemma row_same:
  assumes "wf_json (JObject m)" and "\<not> contains_marker_keys (JObject m)" and "distinct columns"
    and "fst ` set m \<subseteq> set columns" and "length m = length columns"
  shows "same_json (JObject (map (\<lambda>k. (k, detabulate (the (map_of m k)))) columns)) (JObject m)"
proof -
  have "card (set (map fst m)) = length (map fst m)" using assms(1) by (intro distinct_card) simp
  then have "card (fst ` set m) = card (set columns)" using assms(5) distinct_card [OF assms(3)] by simp
  then have keys: "fst ` set m = set columns" using assms(4) by (simp add: card_subset_eq)
  have "case map_of m k of None \<Rightarrow> False | Some w \<Rightarrow> same_json (detabulate (the (map_of m k))) w" if k: "k \<in> set columns" for k
  proof -
    obtain w where w: "map_of m k = Some w"
      using k keys by (cases "map_of m k") (auto simp: map_of_eq_None_iff)
    then have "(k, w) \<in> set m" by (rule map_of_SomeD)
    then have "\<not> contains_marker_keys w" "wf_json w" using assms(1,2) by (auto simp: list_all_iff list_ex_iff)
    then show ?thesis using w by (simp add: detabulate_unmarked same_json_refl)
  qed
  then show ?thesis using assms(5) by (simp add: list_all_iff)
qed

lemma table_form_same:
  assumes "table_form xs = Some t" and "list_all wf_json xs" and "\<not> list_ex contains_marker_keys xs"
  shows "same_json (detabulate t) (JArray xs)"
proof -
  from assms(1) obtain objects columns where o: "xs = map JObject objects"
    and c: "table_keys (concat (map (map fst) objects)) [] = Some columns"
    and l: "\<forall>m \<in> set objects. length m = length columns" and t: "t = table_value columns objects"
    by (auto simp: table_form_def list_ex_iff split: if_splits option.splits dest: map_m_as_object)
  have d: "distinct columns" and k: "set columns = (\<Union>m \<in> set objects. fst ` set m)"
    using table_keys_collects [OF c] by auto
  have "same_json (JObject (map (\<lambda>k. (k, detabulate (the (map_of m k)))) columns)) (JObject m)" if "m \<in> set objects" for m
    using that assms(2,3) o l k d by (intro row_same) (auto simp: list_all_iff list_ex_iff)
  then show ?thesis
    by (auto simp: t detabulate_table [OF d] o list_all2_map1 list_all2_map2 list_all2_same)
qed

lemma detabulate_tabulate: "wf_json v \<Longrightarrow> \<not> contains_marker_keys v \<Longrightarrow> same_json (detabulate (tabulate v)) v"
proof (induction v)
  case (JArray xs)
  show ?case
  proof (cases "table_form xs")
    case None
    with JArray show ?thesis by (auto simp: list_all2_map1 list_all2_same list_all_iff list_ex_iff)
  next
    case (Some t)
    with JArray.prems show ?thesis by (simp add: table_form_same)
  qed
next
  case (JObject m)
  have "map_of (map (\<lambda>(k, v). (k, tabulate v)) m) cols_key = None"
    using JObject.prems by (force simp: map_of_eq_None_iff)
  then have "detabulate (tabulate (JObject m)) = JObject (map (\<lambda>(k, v). (k, detabulate (tabulate v))) m)"
    by (simp add: not_marked_parts comp_def case_prod_beta)
  moreover have "map_of m k = Some v \<and> same_json (detabulate (tabulate v)) v" if "(k, v) \<in> set m" for k v
    using JObject that by (fastforce simp: list_all_iff list_ex_iff)
  ultimately show ?case by (auto simp: list_all_iff)
qed simp_all

text \<open>C39: an object is packed exactly when it has no key of the table notation and its table form is shorter: the
  check that decodes the packed text never rejects it, and the decoded value is the input, up to the order of
  keys.\<close>

theorem pack_envelope_exact:
  assumes "je_parse env input = Some (JObject m)" and "wf_json (JObject m)"
    and "je_parse env (je_print env (tabulate (JObject m))) = Some (tabulate (JObject m))"
    and "je_parse env (je_print env (JObject m)) = Some (JObject m)"
    and "\<not> starts_with (je_print env (tabulate (JObject m))) [c_lbracket]"
    and "\<not> starts_with (je_print env (JObject m)) [c_lbracket]"
  defines "packed \<equiv> je_print env (if same_json (tabulate (JObject m)) (JObject m) then JObject m else tabulate (JObject m))"
  shows "pack env input =
      Some (if contains_marker_keys (JObject m) \<or> blen input \<le> blen packed then None else Some packed) \<and>
    (\<not> contains_marker_keys (JObject m) \<longrightarrow> (\<exists>v. unpack env packed = Some (Some v) \<and> same_json v (JObject m)))"
proof -
  have un: "\<exists>v. unpack env packed = Some (Some v) \<and> same_json v (JObject m)" if "\<not> contains_marker_keys (JObject m)"
  proof (cases "same_json (tabulate (JObject m)) (JObject m)")
    case True
    have "detabulate (JObject m) = JObject m" using that by (rule detabulate_unmarked)
    with True assms(4,6) same_json_refl [OF assms(2)] show ?thesis
      by (simp add: packed_def unpack_def starts_with_def del: same_json.simps detabulate.simps)
  next
    case False
    with assms(3,5) detabulate_tabulate [OF assms(2) that] show ?thesis
      by (simp add: packed_def unpack_def starts_with_def del: same_json.simps detabulate.simps tabulate.simps)
  qed
  moreover have "pack_value env (JObject m) = (if contains_marker_keys (JObject m) then None else Some packed)"
    by (simp add: pack_value_def pack_envelope_def packed_def Let_def)
  ultimately show ?thesis using assms(1) by (auto simp: pack_def)
qed

section \<open>Rows come back\<close>

text \<open>The text of a cell, and the cells that have one.\<close>

fun cell_text :: "cell \<Rightarrow> rstr" where
  "cell_text AbsentCell = []"
| "cell_text (QuotedCell s) = [c_dquote] @ escape_quotes s @ [c_dquote]"
| "cell_text (BareCell s) = s"

fun cell_ok :: "cell \<Rightarrow> bool" where
  "cell_ok (BareCell s) = (s \<noteq> [] \<and> c_comma \<notin> set s \<and> hd s \<noteq> c_dquote)"
| "cell_ok _ = True"

lemma quoted_text_escape:
  "rest = [] \<or> hd rest \<noteq> c_dquote \<Longrightarrow> quoted_text (escape_quotes s @ c_dquote # rest) = Some (s, rest)"
proof (induction s)
  case Nil
  then show ?case by (cases rest) (auto simp: escape_quotes_def)
next
  case (Cons c s)
  then show ?case by (simp add: escape_quotes_def)
qed

lemma read_cell_text:
  assumes "cell_ok c" and "rest = [] \<or> hd rest = c_comma"
  shows "read_cell (cell_text c @ rest) = Some (c, rest)"
proof (cases c)
  case AbsentCell
  with assms(2) show ?thesis by (cases rest) (auto simp: read_cell_def starts_with_iff)
next
  case (QuotedCell s)
  have "quoted_text (escape_quotes s @ c_dquote # rest) = Some (s, rest)"
    using assms(2) by (intro quoted_text_escape) auto
  with QuotedCell show ?thesis by (simp add: read_cell_def starts_with_iff)
next
  case (BareCell s)
  with assms(1) have s: "s \<noteq> []" "c_comma \<notin> set s" "hd s \<noteq> c_dquote" by auto
  then have "takeWhile (\<lambda>c. c \<noteq> c_comma) s = s" "dropWhile (\<lambda>c. c \<noteq> c_comma) s = []" by (auto simp: takeWhile_eq_all_conv)
  moreover have "takeWhile (\<lambda>c. c \<noteq> c_comma) rest = []" "dropWhile (\<lambda>c. c \<noteq> c_comma) rest = rest"
    using assms(2) by (cases rest; simp)+
  moreover have "\<forall>x \<in> set s. x \<noteq> c_comma" using s(2) by blast
  ultimately show ?thesis using s BareCell
    by (cases s) (auto simp: read_cell_def starts_with_iff takeWhile_append dropWhile_append)
qed

lemma csv_cells_text:
  "cells \<noteq> [] \<Longrightarrow> list_all cell_ok cells \<Longrightarrow> csv_cells (join [c_comma] (map cell_text cells)) = Some cells"
proof (induction cells rule: induct_list012)
  case (2 c)
  then show ?case using read_cell_text [of c "[]"] by (simp add: csv_cells.simps)
next
  case (3 c d cells)
  then have "csv_cells (join [c_comma] (map cell_text (d # cells))) = Some (d # cells)" by simp
  moreover have "read_cell (cell_text c @ c_comma # join [c_comma] (map cell_text (d # cells))) =
      Some (c, c_comma # join [c_comma] (map cell_text (d # cells)))"
    using 3 by (intro read_cell_text) auto
  ultimately show ?case by (subst csv_cells.simps) simp
qed simp

definition csv_cell :: "rstr \<Rightarrow> cell" where
  "csv_cell s = (if needs_quote s then QuotedCell s else BareCell s)"

lemma csv_quote_cell: "csv_quote s = cell_text (csv_cell s)" and csv_cell_ok: "cell_ok (csv_cell s)"
  by (auto simp: csv_quote_def csv_cell_def needs_quote_def) (cases s; auto)

end
