(* ===== verification/Json_Table.thy ===== *)
theory Json_Table
  imports Json_Pack
begin

text \<open>
  Tables of flat rows come back from their text: the header, the rows and the cells that \<open>pack_top_level_array\<close>
  writes are the ones \<open>unpack_table\<close> reads. Rows with nested objects are where the encoder goes wrong; the last
  section shows how.
\<close>

section \<open>Texts\<close>

lemma split_on_free: "list_all (\<lambda>c. \<not> P c) w \<Longrightarrow> split_on P w = [w]"
  by (induction w) auto

lemma split_on_head: "list_all (\<lambda>c. \<not> P c) w \<Longrightarrow> P c \<Longrightarrow> split_on P (w @ c # s) = w # split_on P s"
  by (induction w) auto

lemma split_on_join:
  "ws \<noteq> [] \<Longrightarrow> list_all (list_all (\<lambda>c. \<not> P c)) ws \<Longrightarrow> P c \<Longrightarrow> split_on P (join [c] ws) = ws"
  by (induction ws rule: induct_list012) (auto simp: split_on_free split_on_head)

lemma split_once_head: "list_all (\<lambda>c. \<not> P c) w \<Longrightarrow> P c \<Longrightarrow> split_once P (w @ c # s) = Some (w, s)"
  by (induction w) auto

lemma rsplit_once_last: "c \<notin> set t \<Longrightarrow> rsplit_once c (s @ c # t) = Some (s, t)"
proof -
  assume "c \<notin> set t"
  then have "list_all (\<lambda>x. x \<noteq> c) (rev t)" by (auto simp: list_all_iff)
  from split_once_head [OF this, of c "rev s"] show ?thesis by (simp add: rsplit_once_def)
qed

lemma split_once_str_header:
  "c_newline \<notin> set h \<Longrightarrow> split_once_str [c_rbrace, c_newline] (h @ [c_rbrace, c_newline] @ body) = Some (h, body)"
proof (induction h)
  case Nil
  then show ?case by (simp add: starts_with_iff)
next
  case (Cons c h)
  then have "\<not> starts_with ((c # h) @ [c_rbrace, c_newline] @ body) [c_rbrace, c_newline]"
    by (cases h) (auto simp: starts_with_iff)
  with Cons show ?case by simp
qed

lemma split_inclusive_line: "c_newline \<notin> set l \<Longrightarrow> split_inclusive (l @ c_newline # s) = (l @ [c_newline]) # split_inclusive s"
  by (induction l) auto

lemma str_lines_concat:
  "list_all (\<lambda>l. c_newline \<notin> set l \<and> c_return \<notin> set l) ls \<Longrightarrow> str_lines (concat (map (\<lambda>l. l @ [c_newline]) ls)) = ls"
proof (induction ls)
  case (Cons l ls)
  have "strip_suffix (l @ [c_newline]) [c_newline] = Some l" by (simp add: strip_suffix_Some_iff)
  moreover have "strip_suffix l [c_return] = None"
    using Cons.prems by (cases "strip_suffix l [c_return]") (auto simp: strip_suffix_Some_iff)
  ultimately show ?case using Cons by (simp add: str_lines_def split_inclusive_line)
qed (simp add: str_lines_def)

section \<open>Headers\<close>

lemma kind_names: "column_kind_from_str (column_kind_as_str k) = Some k"
  by (cases k) (simp_all add: column_kind_from_str_def lit_def)

lemma kind_name_chars:
  "c \<in> set (column_kind_as_str k) \<Longrightarrow> c \<noteq> c_colon \<and> c \<noteq> c_question \<and> c \<noteq> c_comma \<and> c \<noteq> c_newline"
  by (cases k) (auto simp: lit_def)

lemma parse_column_header:
  assumes "\<not> bad_key (col_name c)" and "col_path c = [col_name c]"
  shows "parse_column (column_header c) = Some (c\<lparr>col_present_rows := 0\<rparr>)"
proof -
  let ?q = "if col_nullable c then [c_question] else []"
  have "rsplit_once c_colon (column_header c) = Some (col_name c, column_kind_as_str (col_kind c) @ ?q)"
  proof -
    have "c_colon \<notin> set (column_kind_as_str (col_kind c) @ ?q)" using kind_name_chars by auto
    from rsplit_once_last [OF this] show ?thesis by (simp add: column_header_def)
  qed
  moreover have "strip_suffix (column_kind_as_str k) [c_question] = None" for k
    using kind_name_chars [of c_question k] by (cases "strip_suffix (column_kind_as_str k) [c_question]")
      (auto simp: strip_suffix_Some_iff)
  moreover have "strip_suffix (s @ [c_question]) [c_question] = Some s" for s by (simp add: strip_suffix_Some_iff)
  moreover have "split_on (\<lambda>c. c = c_dot) (col_name c) = [col_name c]"
    using assms(1) by (intro split_on_free) (auto simp: bad_key_def list_all_iff)
  ultimately show ?thesis using assms(2) by (simp add: parse_column_def kind_names)
qed

section \<open>Columns of flat rows\<close>

definition flat_row :: "'f jentries \<Rightarrow> bool" where
  "flat_row m = list_all (\<lambda>(k, v). inner_object v = None) m"

text \<open>What is known of the columns after some entries: one for each key, named by it, and a column of texts has only
  texts.\<close>

definition columns_for :: "column list \<Rightarrow> (rstr \<times> 'f jvalue) list \<Rightarrow> bool" where
  "columns_for cs es \<longleftrightarrow> distinct (map col_name cs) \<and> col_name ` set cs = fst ` set es \<and>
     (\<forall>c \<in> set cs. col_path c = [col_name c] \<and> \<not> bad_key (col_name c) \<and>
        (col_kind c = StringColumn \<longrightarrow> (\<forall>v. (col_name c, v) \<in> set es \<longrightarrow> column_kind_of v = StringColumn)))"

lemma merge_String: "column_kind_merge a b = StringColumn \<longleftrightarrow> a = StringColumn \<and> b = StringColumn"
  by (auto simp: column_kind_merge_def)

lemma update_column_names: "update_column k v cs = Some cs' \<Longrightarrow> map col_name cs' = map col_name cs \<and> k \<in> col_name ` set cs"
  by (induction cs arbitrary: cs') (auto split: if_splits)

lemma update_column_None: "update_column k v cs = None \<longleftrightarrow> k \<notin> col_name ` set cs"
  by (induction cs) (auto split: if_splits)

lemma update_column_member:
  "update_column k v cs = Some cs' \<Longrightarrow> distinct (map col_name cs) \<Longrightarrow> c \<in> set cs' \<Longrightarrow>
   \<exists>d \<in> set cs. col_name c = col_name d \<and> col_path c = col_path d \<and>
     (col_name c = k \<and> col_kind c = column_kind_merge (col_kind d) (column_kind_of v) \<or> col_name c \<noteq> k \<and> c = d)"
proof (induction cs arbitrary: cs')
  case (Cons d cs)
  show ?case
  proof (cases "col_name d = k")
    case True
    have "k \<notin> col_name ` set cs" using Cons.prems(2) True by auto
    then have "col_name c \<noteq> k" if "c \<in> set cs" using that by blast
    moreover have "c \<in> set cs \<or> col_name c = col_name d \<and> col_path c = col_path d \<and>
        col_kind c = column_kind_merge (col_kind d) (column_kind_of v)"
      using True Cons.prems(1,3) by auto
    ultimately show ?thesis using True by auto
  next
    case False
    with Cons.prems obtain ds where ds: "update_column k v cs = Some ds" "cs' = d # ds" by auto
    then show ?thesis using Cons.IH [OF ds(1)] Cons.prems(2,3) False by auto
  qed
qed simp

lemma collect_leaf_columns:
  assumes "collect_leaf [k] v cs = Some cs'" and "columns_for cs es" and "\<not> bad_key k"
  shows "columns_for cs' (es @ [(k, v)])"
proof (cases "update_column k v cs")
  case (Some ds)
  with assms(1) have ds: "cs' = ds" by (simp add: collect_leaf_def)
  have names: "map col_name ds = map col_name cs" "k \<in> col_name ` set cs" using update_column_names [OF Some] by auto
  have "col_name ` set ds = col_name ` set cs" using names(1) by (metis set_map)
  moreover have "col_path c = [col_name c] \<and> \<not> bad_key (col_name c) \<and>
      (col_kind c = StringColumn \<longrightarrow> (\<forall>w. (col_name c, w) \<in> set (es @ [(k, v)]) \<longrightarrow> column_kind_of w = StringColumn))"
    if c: "c \<in> set ds" for c
  proof -
    obtain d where d: "d \<in> set cs" "col_name c = col_name d" "col_path c = col_path d"
      "col_name c = k \<and> col_kind c = column_kind_merge (col_kind d) (column_kind_of v) \<or> col_name c \<noteq> k \<and> c = d"
      using update_column_member [OF Some _ c] assms(2) by (auto simp: columns_for_def)
    with assms(2) show ?thesis by (auto simp: columns_for_def merge_String)
  qed
  ultimately show ?thesis using assms(2) names ds by (auto simp: columns_for_def)
next
  case None
  then have k: "k \<notin> col_name ` set cs" by (simp add: update_column_None)
  then have es: "(k, w) \<notin> set es" for w using assms(2) by (metis columns_for_def fst_conv image_eqI)
  obtain new where new: "cs' = cs @ [new]" "col_name new = k" "col_path new = [k]" "col_kind new = column_kind_of v"
    using None assms(1) by (auto simp: collect_leaf_def Let_def split: if_splits)
  have old: "col_name c \<noteq> k" if "c \<in> set cs" for c using k that by blast
  have "distinct (map col_name cs')" "col_name ` set cs' = fst ` set (es @ [(k, v)])"
    using new k assms(2) by (simp_all add: columns_for_def)
  moreover have "col_path c = [col_name c] \<and> \<not> bad_key (col_name c) \<and>
      (col_kind c = StringColumn \<longrightarrow> (\<forall>w. (col_name c, w) \<in> set (es @ [(k, v)]) \<longrightarrow> column_kind_of w = StringColumn))"
    if "c \<in> set cs'" for c
  proof (cases "c = new")
    case True
    then show ?thesis using new es assms(3) by auto
  next
    case False
    then have "c \<in> set cs" using that new(1) by simp
    then show ?thesis using old assms(2) by (simp add: columns_for_def)
  qed
  ultimately show ?thesis by (simp add: columns_for_def)
qed

lemma collect_from_columns:
  "collect_from m [] cs = Some cs' \<Longrightarrow> flat_row m \<Longrightarrow> columns_for cs es \<Longrightarrow> columns_for cs' (es @ m)"
proof (induction m arbitrary: cs es)
  case (Cons e m)
  obtain k v where e: "e = (k, v)" by (cases e)
  with Cons.prems obtain ds where "\<not> bad_key k" "collect_leaf [k] v cs = Some ds" "collect_from m [] ds = Some cs'"
    by (auto simp: flat_row_def split: if_splits bind_splits)
  with Cons e collect_leaf_columns [of k v cs ds es] show ?case
    using Cons.IH [of ds "es @ [(k, v)]"] by (simp add: flat_row_def)
qed simp

lemma collect_rows_columns:
  "collect_rows ms cs = Some cs' \<Longrightarrow> list_all flat_row ms \<Longrightarrow> columns_for cs es \<Longrightarrow> columns_for cs' (es @ concat ms)"
proof (induction ms arbitrary: cs es)
  case (Cons m ms)
  then obtain ds where "collect_from m [] cs = Some ds" "collect_rows ms ds = Some cs'" by (auto split: option.splits)
  with Cons collect_from_columns [of m cs ds es] show ?case using Cons.IH [of ds "es @ m"] by simp
qed simp

lemma collect_columns_for:
  assumes "collect_columns ms = Some cs" and "list_all flat_row ms"
  shows "columns_for cs (concat ms)"
proof -
  obtain ds where ds: "collect_rows ms [] = Some ds"
    "cs = map (\<lambda>c. c\<lparr>col_nullable := col_nullable c \<or> col_present_rows c < length ms\<rparr>) ds"
    using assms(1) by (auto simp: collect_columns_def)
  have "columns_for ds ([] @ concat ms)" by (rule collect_rows_columns [OF ds(1) assms(2)]) (simp add: columns_for_def)
  then show ?thesis by (auto simp: ds(2) columns_for_def comp_def image_image)
qed

section \<open>Cells and rows\<close>

text \<open>What the library has to do with a value of a row: print it on one line and parse it back.\<close>

definition cell_prints :: "'f json_env \<Rightarrow> 'f jvalue \<Rightarrow> bool" where
  "cell_prints env v \<longleftrightarrow> je_parse env (je_print env v) = Some v \<and>
     c_newline \<notin> set (je_print env v) \<and> c_return \<notin> set (je_print env v) \<and>
     (case v of JText s \<Rightarrow> c_newline \<notin> set s \<and> c_return \<notin> set s | _ \<Rightarrow> True)"

definition row_cell :: "'f json_env \<Rightarrow> 'f jentries \<Rightarrow> column \<Rightarrow> cell" where
  "row_cell env m c =
     (case map_of m (col_name c) of
        None \<Rightarrow> AbsentCell
      | Some JNull \<Rightarrow> BareCell (lit ''null'')
      | Some (JText s) \<Rightarrow> csv_cell (if col_kind c = StringColumn then s else je_print env (JText s))
      | Some v \<Rightarrow> csv_cell (je_print env v))"

lemma encode_row_cell:
  "col_path c = [col_name c] \<Longrightarrow> encode_cell (je_print env) m c = cell_text (row_cell env m c)"
  by (auto simp: encode_cell_def row_cell_def csv_quote_cell split: option.splits jvalue.splits)

lemma row_cell_ok: "cell_ok (row_cell env m c)"
  by (auto simp: row_cell_def csv_cell_ok lit_def split: option.splits jvalue.splits)

lemma csv_quote_chars: "c \<in> set (csv_quote s) \<Longrightarrow> c \<in> set s \<or> c = c_dquote"
  by (auto simp: csv_quote_def escape_quotes_def split: if_splits)

lemma encode_cell_line:
  assumes "col_path c = [col_name c]" and "\<forall>v \<in> snd ` set m. cell_prints env v" and "x = c_newline \<or> x = c_return"
  shows "x \<notin> set (encode_cell (je_print env) m c)"
proof (cases "map_of m (col_name c)")
  case None
  with assms(1) show ?thesis by (simp add: encode_cell_def)
next
  case (Some v)
  then have "cell_prints env v" using assms(2) by (force dest: map_of_SomeD)
  with Some assms(1,3) show ?thesis
    by (auto simp: encode_cell_def cell_prints_def lit_def split: jvalue.splits if_splits dest!: csv_quote_chars)
qed

lemma decode_csv_String: "decode_cell from_str (csv_cell s) c = Some (Some (JText s))" if "col_kind c = StringColumn"
  using that by (auto simp: csv_cell_def decode_cell_def needs_quote_def)

lemma decode_csv_other: "decode_cell from_str (csv_cell s) c = map_option Some (from_str s)" if "col_kind c \<noteq> StringColumn"
  using that by (auto simp: csv_cell_def decode_cell_def needs_quote_def)

lemma decode_row_cell:
  assumes "\<forall>v \<in> snd ` set m. cell_prints env v"
    and "col_kind c = StringColumn \<longrightarrow> (\<forall>v. (col_name c, v) \<in> set m \<longrightarrow> column_kind_of v = StringColumn)"
  shows "decode_cell (je_parse env) (row_cell env m c) c = Some (map_of m (col_name c))"
proof (cases "map_of m (col_name c)")
  case None
  then show ?thesis by (simp add: row_cell_def decode_cell_def)
next
  case (Some v)
  then have v: "(col_name c, v) \<in> set m" by (rule map_of_SomeD)
  then have p: "je_parse env (je_print env v) = Some v" using assms(1) by (force simp: cell_prints_def)
  show ?thesis
  proof (cases "col_kind c = StringColumn")
    case True
    with assms(2) v have "column_kind_of v = StringColumn" by blast
    with True Some show ?thesis by (cases v) (simp_all add: row_cell_def decode_csv_String)
  next
    case False
    with Some p show ?thesis by (cases v) (simp_all add: row_cell_def decode_csv_other, simp add: decode_cell_def)
  qed
qed

text \<open>The entries a decoded row has, in the order of the columns.\<close>

definition row_entries :: "'f jentries \<Rightarrow> column list \<Rightarrow> 'f jentries" where
  "row_entries m cs = [(k, v). k \<leftarrow> map col_name cs, v \<leftarrow> case map_of m k of Some v \<Rightarrow> [v] | None \<Rightarrow> []]"

lemma row_entries_Nil [simp]: "row_entries m [] = []"
  by (simp add: row_entries_def)

lemma row_entries_Cons [simp]:
  "row_entries m (c # cs) = (case map_of m (col_name c) of Some v \<Rightarrow> [(col_name c, v)] | None \<Rightarrow> []) @ row_entries m cs"
  by (simp add: row_entries_def split: option.splits)

lemma decode_row_entries:
  assumes "\<forall>v \<in> snd ` set m. cell_prints env v" and "distinct (map col_name cs)"
    and "\<forall>c \<in> set cs. col_path c = [col_name c] \<and>
      (col_kind c = StringColumn \<longrightarrow> (\<forall>v. (col_name c, v) \<in> set m \<longrightarrow> column_kind_of v = StringColumn))"
    and "col_name ` set cs \<inter> fst ` set m0 = {}"
  shows "decode_row (je_parse env) (zip cs (map (row_cell env m) cs)) m0 = Some (Some (m0 @ row_entries m cs))"
  using assms(2-)
proof (induction cs arbitrary: m0)
  case (Cons c cs)
  have d: "decode_cell (je_parse env) (row_cell env m c) c = Some (map_of m (col_name c))"
    using assms(1) Cons.prems(2) by (intro decode_row_cell) auto
  show ?case
  proof (cases "map_of m (col_name c)")
    case None
    with d Cons show ?thesis by simp
  next
    case (Some v)
    have "insert_path m0 (col_path c) v = Some (m0 @ [(col_name c, v)])"
      using Cons.prems(2,3) by (simp add: index_insert_new)
    moreover have "decode_row (je_parse env) (zip cs (map (row_cell env m) cs)) (m0 @ [(col_name c, v)]) =
        Some (Some ((m0 @ [(col_name c, v)]) @ row_entries m cs))"
      using Cons.prems by (intro Cons.IH) auto
    ultimately show ?thesis using d Some by simp
  qed
qed simp

lemma row_entries_same:
  assumes "wf_json (JObject m)" and "distinct (map col_name cs)" and "fst ` set m \<subseteq> col_name ` set cs"
  shows "same_json (JObject (row_entries m cs)) (JObject m)"
proof -
  have mem: "(k, v) \<in> set (row_entries m cs) \<longleftrightarrow> k \<in> col_name ` set cs \<and> map_of m k = Some v" for k v
    by (induction cs) (auto split: option.splits)
  have "map fst (row_entries m cs) = filter (\<lambda>k. map_of m k \<noteq> None) (map col_name cs)"
    by (induction cs) (auto split: option.splits)
  then have d: "distinct (map fst (row_entries m cs))" using assms(2) by simp
  have "set (row_entries m cs) = set m"
  proof (intro set_eqI, rename_tac e)
    fix e :: "rstr \<times> 'a jvalue"
    have "map_of m (fst e) = Some (snd e) \<longleftrightarrow> e \<in> set m" using assms(1) by (cases e) simp
    then show "e \<in> set (row_entries m cs) \<longleftrightarrow> e \<in> set m"
      using mem [of "fst e" "snd e"] assms(3) by (cases e) (auto dest: imageI [of _ "set m" fst])
  qed
  moreover have "length (row_entries m cs) = length m"
    using calculation d assms(1) by (metis distinct_card distinct_map wf_json.simps(2))
  moreover have "same_json v v" if "(k, v) \<in> set m" for k v
    using assms(1) that by (intro same_json_refl) (auto simp: list_all_iff)
  ultimately show ?thesis using mem by (fastforce simp: list_all_iff)
qed

section \<open>The table\<close>

lemma decode_rows_entries:
  assumes "columns_for cs es" and "cs \<noteq> []"
    and "list_all (\<lambda>m. set m \<subseteq> set es \<and> (\<forall>v \<in> snd ` set m. cell_prints env v)) ms"
  shows "decode_rows (je_parse env) (map (\<lambda>c. c\<lparr>col_present_rows := 0\<rparr>) cs)
      (map (\<lambda>m. join [c_comma] (map (encode_cell (je_print env) m) cs)) ms) =
    Some (Some (map (\<lambda>m. JObject (row_entries m cs)) ms))"
  using assms(3)
proof (induction ms)
  case (Cons m ms)
  let ?cs = "map (\<lambda>c. c\<lparr>col_present_rows := 0\<rparr>) cs"
  have cells: "map (encode_cell (je_print env) m) cs = map cell_text (map (row_cell env m) cs)"
    using assms(1) by (auto simp: columns_for_def encode_row_cell)
  have "csv_cells (join [c_comma] (map (encode_cell (je_print env) m) cs)) = Some (map (row_cell env m) cs)"
    unfolding cells using assms(2) by (intro csv_cells_text) (auto simp: list_all_iff row_cell_ok)
  then have split: "split_csv_row (join [c_comma] (map (encode_cell (je_print env) m) cs)) (length ?cs) =
      Some (map (row_cell env m) cs)" by (simp add: split_csv_row_def)
  have same: "map (row_cell env m) ?cs = map (row_cell env m) cs"
    by (auto simp: row_cell_def split: option.splits jvalue.splits)
  have r: "decode_row (je_parse env) (zip ?cs (map (row_cell env m) ?cs)) [] = Some (Some ([] @ row_entries m ?cs))"
    using assms(1) Cons.prems by (intro decode_row_entries) (auto simp: columns_for_def comp_def)
  have "row_entries m ?cs = row_entries m cs" by (simp add: row_entries_def comp_def)
  then show ?case using Cons split r [unfolded same] by simp
qed simp

definition header_ok :: "'f jentries \<Rightarrow> bool" where
  "header_ok m = list_all (\<lambda>(k, v). c_newline \<notin> set k) m"

lemma header_chars:
  assumes "columns_for cs es" and "list_all (\<lambda>(k, v). c_newline \<notin> set k) es"
  shows "list_all (\<lambda>h. c_newline \<notin> set h \<and> c_comma \<notin> set h) (map column_header cs)"
proof -
  have "c_newline \<notin> set (column_header c) \<and> c_comma \<notin> set (column_header c)" if c: "c \<in> set cs" for c
  proof -
    have "col_name c \<in> fst ` set es" using assms(1) c by (metis columns_for_def image_eqI)
    then have "c_newline \<notin> set (col_name c)" using assms(2) by (auto simp: list_all_iff)
    moreover have "c_comma \<notin> set (col_name c)" using assms(1) c by (auto simp: columns_for_def bad_key_def)
    ultimately show ?thesis using kind_name_chars by (auto simp: column_header_def)
  qed
  then show ?thesis by (simp add: list_all_iff)
qed

lemma join_chars: "x \<in> set (join [c] ws) \<Longrightarrow> x = c \<or> (\<exists>w \<in> set ws. x \<in> set w)"
  by (induction ws rule: induct_list012) auto

lemma headers_parse:
  assumes "columns_for cs es" and "cs \<noteq> []" and "list_all (\<lambda>(k, v). c_newline \<notin> set k) es"
  shows "map_m parse_column (split_on (\<lambda>c. c = c_comma) (join [c_comma] (map column_header cs))) =
    Some (map (\<lambda>c. c\<lparr>col_present_rows := 0\<rparr>) cs)"
proof -
  have "split_on (\<lambda>c. c = c_comma) (join [c_comma] (map column_header cs)) = map column_header cs"
    using header_chars [OF assms(1,3)] assms(2) by (intro split_on_join) (auto simp: list_all_iff)
  moreover have "parse_column (column_header c) = Some (c\<lparr>col_present_rows := 0\<rparr>)" if "c \<in> set cs" for c
    using assms(1) that by (intro parse_column_header) (auto simp: columns_for_def)
  ultimately show ?thesis by (auto simp: map_m_Some_iff list_all2_map1 list_all2_map2 list_all2_same)
qed

lemma table_text:
  assumes "pack_top_level_array (je_print env) (map JObject ms) = Some packed"
  obtains cs where "collect_columns ms = Some cs" and "cs \<noteq> []"
    and "packed = [c_lbracket] @ show_nat (length ms) @ [c_rbracket, c_lbrace] @ join [c_comma] (map column_header cs) @
      [c_rbrace, c_newline] @ concat (map (\<lambda>l. l @ [c_newline])
        (map (\<lambda>m. join [c_comma] (map (encode_cell (je_print env) m) cs)) ms))"
  using assms by (auto simp: pack_top_level_array_def comp_def split: if_splits option.splits)

lemma row_lines:
  assumes "columns_for cs es" and "list_all (\<lambda>m. \<forall>v \<in> snd ` set m. cell_prints env v) ms"
  shows "list_all (\<lambda>l. c_newline \<notin> set l \<and> c_return \<notin> set l)
    (map (\<lambda>m. join [c_comma] (map (encode_cell (je_print env) m) cs)) ms)"
proof -
  have "x \<notin> set (join [c_comma] (map (encode_cell (je_print env) m) cs))" if "m \<in> set ms" "x = c_newline \<or> x = c_return" for m x
    using assms that encode_cell_line [of _ m env x] by (fastforce simp: columns_for_def list_all_iff dest!: join_chars)
  then show ?thesis by (auto simp: list_all_iff)
qed

lemma unpack_flat_table:
  assumes "pack_top_level_array (je_print env) (map JObject ms) = Some packed"
    and "list_all (\<lambda>m. wf_json (JObject m) \<and> flat_row m \<and> header_ok m \<and> (\<forall>v \<in> snd ` set m. cell_prints env v)) ms"
    and "length ms < 2 ^ 64"
  shows "\<exists>v. unpack env packed = Some (Some v) \<and> same_json v (JArray (map JObject ms))"
proof -
  obtain cs where cs: "collect_columns ms = Some cs" "cs \<noteq> []"
    and p: "packed = [c_lbracket] @ show_nat (length ms) @ [c_rbracket, c_lbrace] @ join [c_comma] (map column_header cs) @
      [c_rbrace, c_newline] @ concat (map (\<lambda>l. l @ [c_newline])
        (map (\<lambda>m. join [c_comma] (map (encode_cell (je_print env) m) cs)) ms))"
    using assms(1) by (rule table_text)
  let ?lines = "map (\<lambda>m. join [c_comma] (map (encode_cell (je_print env) m) cs)) ms"
  let ?body = "concat (map (\<lambda>l. l @ [c_newline]) ?lines)" and ?header = "join [c_comma] (map column_header cs)"
  have cf: "columns_for cs (concat ms)" using cs(1) assms(2) by (intro collect_columns_for) (auto simp: list_all_iff)
  have keys: "list_all (\<lambda>(k, v). c_newline \<notin> set k) (concat ms)"
    using assms(2) by (auto simp: list_all_iff header_ok_def)
  have "c_newline \<notin> set ?header" using header_chars [OF cf keys] by (auto simp: list_all_iff dest!: join_chars)
  then have header: "split_once_str [c_rbrace, c_newline] (?header @ [c_rbrace, c_newline] @ ?body) = Some (?header, ?body)"
    by (rule split_once_str_header)
  have count: "split_once (\<lambda>c. c = c_rbracket) (show_nat (length ms) @ c_rbracket # s) = Some (show_nat (length ms), s)" for s
    using show_nat_no [of c_rbracket "length ms"] by (intro split_once_head) (auto simp: list_all_iff is_ascii_digit_def)
  have lines: "str_lines ?body = ?lines"
    using assms(2) by (intro str_lines_concat row_lines [OF cf]) (auto simp: list_all_iff)
  have rows: "decode_rows (je_parse env) (map (\<lambda>c. c\<lparr>col_present_rows := 0\<rparr>) cs) ?lines =
      Some (Some (map (\<lambda>m. JObject (row_entries m cs)) ms))"
    using assms(2) by (intro decode_rows_entries [OF cf cs(2)]) (auto simp: list_all_iff)
  have "unpack env packed = Some (Some (JArray (map (\<lambda>m. JObject (row_entries m cs)) ms)))"
    using header lines rows headers_parse [OF cf cs(2) keys] parse_show [OF assms(3)]
    by (simp add: p unpack_def unpack_table_def count)
  moreover have "same_json (JObject (row_entries m cs)) (JObject m)" if "m \<in> set ms" for m
    using assms(2) cf that by (intro row_entries_same) (auto simp: list_all_iff columns_for_def)
  then have "same_json (JArray (map (\<lambda>m. JObject (row_entries m cs)) ms)) (JArray (map JObject ms))"
    by (simp add: list_all2_map1 list_all2_map2 list_all2_same del: same_json.simps(2))
  ultimately show ?thesis by blast
qed

text \<open>C24: an array of flat rows whose keys and texts have no line break is packed exactly when it has a table and
  the table is shorter, and the table decodes to it up to the order of keys: quotes, commas, spaces, empty texts,
  texts that look like null and absent keys all come back. The rows have no key twice, there are fewer than
  \<open>2 ^ 64\<close>, and the library prints each value on one line and parses it back. A row with a line break in a text
  is written over two lines, which the decoding check notices, and the array stays raw.\<close>

theorem pack_flat_table_exact:
  assumes "je_parse env input = Some (JArray (map JObject ms))"
    and "list_all (\<lambda>m. wf_json (JObject m) \<and> flat_row m \<and> header_ok m \<and> (\<forall>v \<in> snd ` set m. cell_prints env v)) ms"
    and "length ms < 2 ^ 64"
  shows "pack env input =
      Some (case pack_top_level_array (je_print env) (map JObject ms) of
              None \<Rightarrow> None
            | Some packed \<Rightarrow> if blen input \<le> blen packed then None else Some packed) \<and>
    (\<forall>packed. pack_top_level_array (je_print env) (map JObject ms) = Some packed \<longrightarrow>
       (\<exists>v. unpack env packed = Some (Some v) \<and> same_json v (JArray (map JObject ms))))"
proof (cases "pack_top_level_array (je_print env) (map JObject ms)")
  case None
  with assms(1) show ?thesis by (simp add: pack_def pack_value_def)
next
  case (Some packed)
  with unpack_flat_table [OF Some assms(2,3)] assms(1) show ?thesis
    by (auto simp: pack_def pack_value_def)
qed

section \<open>Samples\<close>

text \<open>A printer that is enough for the samples, and a parser that knows a few texts.\<close>

fun sample_print :: "unit jvalue \<Rightarrow> rstr" where
  "sample_print JNull = lit ''null''"
| "sample_print (JBool b) = (if b then lit ''true'' else lit ''false'')"
| "sample_print (JInt i) = show_nat (nat i)"
| "sample_print (JFloat x) = lit ''0.5''"
| "sample_print (JText s) = [c_dquote] @ s @ [c_dquote]"
| "sample_print (JArray xs) = [c_lbracket] @ join [c_comma] (map sample_print xs) @ [c_rbracket]"
| "sample_print (JObject m) =
     [c_lbrace] @ join [c_comma] (map (\<lambda>(k, v). [c_dquote] @ k @ [c_dquote, c_colon] @ sample_print v) m) @ [c_rbrace]"

definition sample_json :: "unit jvalue list \<Rightarrow> unit json_env" where
  "sample_json vs = \<lparr>je_parse = \<lambda>s. map_of (map (\<lambda>v. (sample_print v, v)) vs) s, je_print = sample_print\<rparr>"

definition sample_row :: "rstr \<Rightarrow> int \<Rightarrow> unit jvalue" where
  "sample_row s i = JObject [(lit ''name'', JText s), (lit ''number'', JInt i)]"

definition sample_rows :: "unit jvalue list" where
  "sample_rows = [sample_row (lit ''a, b'') 1, sample_row (lit ''null'') 2, sample_row [] 3]"

definition sample_table :: rstr where
  "sample_table = lit ''[3]{name:string,number:int}'' @ [c_newline] @ [c_dquote] @ lit ''a, b'' @ [c_dquote] @ lit '',1'' @ [c_newline] @
     [c_dquote] @ lit ''null'' @ [c_dquote] @ lit '',2'' @ [c_newline] @ [c_dquote, c_dquote] @ lit '',3'' @ [c_newline]"

lemma sample_rows_objects: "sample_rows = map JObject (map (\<lambda>v. the (as_object v)) sample_rows)"
  by code_simp

definition sample_rows_env :: "unit json_env" where
  "sample_rows_env = sample_json [JArray sample_rows, JText (lit ''a, b''), JText (lit ''null''), JText [], JInt 1, JInt 2, JInt 3]"

lemma sample_rows_prints:
  "list_all (\<lambda>m. wf_json (JObject m) \<and> flat_row m \<and> header_ok m \<and> (\<forall>v \<in> snd ` set m. cell_prints sample_rows_env v))
     (map (\<lambda>v. the (as_object v)) sample_rows)"
proof -
  have "list_all (\<lambda>m. wf_json (JObject m) \<and> flat_row m \<and> header_ok m \<and>
      list_all (\<lambda>v. je_parse sample_rows_env (je_print sample_rows_env v) = Some v \<and>
        c_newline \<notin> set (je_print sample_rows_env v) \<and> c_return \<notin> set (je_print sample_rows_env v) \<and>
        (case v of JText s \<Rightarrow> c_newline \<notin> set s \<and> c_return \<notin> set s | _ \<Rightarrow> True)) (map snd m))
     (map (\<lambda>v. the (as_object v)) sample_rows)" by code_simp
  then show ?thesis by (simp add: list_all_iff cell_prints_def)
qed

theorem pack_flat_table_exact_witness:
  "pack sample_rows_env (sample_print (JArray sample_rows)) = Some (Some sample_table) \<and>
   (\<exists>v. unpack sample_rows_env sample_table = Some (Some v) \<and> same_json v (JArray sample_rows))"
proof -
  let ?ms = "map (\<lambda>v. the (as_object v)) sample_rows"
  have "je_parse sample_rows_env (sample_print (JArray sample_rows)) = Some (JArray sample_rows)" by code_simp
  moreover have "length ?ms < 2 ^ 64" by (simp add: sample_rows_def)
  moreover have t: "pack_top_level_array (je_print sample_rows_env) sample_rows = Some sample_table" by code_simp
  moreover have "blen sample_table < blen (sample_print (JArray sample_rows))" by code_simp
  ultimately show ?thesis
    using pack_flat_table_exact [of sample_rows_env "sample_print (JArray sample_rows)" ?ms] sample_rows_prints
    unfolding sample_rows_objects [symmetric] by simp
qed

definition sample_envelope :: "(rstr \<times> unit jvalue) list" where
  "sample_envelope = [(lit ''total'', JInt 3), (lit ''items'', JArray sample_rows)]"

definition sample_envelope_env :: "unit json_env" where
  "sample_envelope_env = sample_json [JObject sample_envelope, tabulate (JObject sample_envelope)]"

theorem pack_envelope_exact_witness:
  "pack sample_envelope_env (sample_print (JObject sample_envelope)) =
     Some (Some (sample_print (tabulate (JObject sample_envelope)))) \<and>
   (\<exists>v. unpack sample_envelope_env (sample_print (tabulate (JObject sample_envelope))) = Some (Some v) \<and>
     same_json v (JObject sample_envelope))"
proof -
  let ?v = "JObject sample_envelope"
  have p: "je_print sample_envelope_env = sample_print" by (simp add: sample_envelope_env_def sample_json_def)
  have "je_parse sample_envelope_env (sample_print ?v) = Some ?v"
    "je_parse sample_envelope_env (sample_print (tabulate ?v)) = Some (tabulate ?v)"
    "wf_json ?v" "\<not> starts_with (sample_print ?v) [c_lbracket]" "\<not> starts_with (sample_print (tabulate ?v)) [c_lbracket]"
    by (code_simp, code_simp, code_simp, code_simp, code_simp)
  note h = this
  have "\<not> same_json (tabulate ?v) ?v" "\<not> contains_marker_keys ?v"
    "\<not> blen (sample_print ?v) \<le> blen (sample_print (tabulate ?v))" by (code_simp, code_simp, code_simp)
  then show ?thesis
    using pack_envelope_exact [of sample_envelope_env "sample_print ?v" sample_envelope, unfolded p, OF h(1,3,2,1,5,4)] by simp
qed

section \<open>Rows with line breaks\<close>

definition broken_rows :: "unit jvalue list" where
  "broken_rows = [sample_row [120, c_newline, 121] 1, sample_row (lit ''b'') 2, sample_row (lit ''c'') 3, sample_row (lit ''d'') 4]"

lemma line_breaks_stay_raw:
  "pack (sample_json (JArray broken_rows # map JInt [1, 2, 3, 4])) (sample_print (JArray broken_rows)) = Some None \<and>
   (case pack_top_level_array sample_print broken_rows of
      None \<Rightarrow> False | Some packed \<Rightarrow> blen packed < blen (sample_print (JArray broken_rows)))"
  by (intro conjI; code_simp)

section \<open>Rows of different shapes\<close>

text \<open>A key with a text in one row and an object in the other: the text column is written with the printed object,
  read back as a text, and the nested column then finds no object on its way.\<close>

definition mixed_rows :: "unit jvalue" where
  "mixed_rows = JArray [JObject [(lit ''a'', JText (lit ''x''))], JObject [(lit ''a'', JObject [(lit ''b'', JInt 1)])]]"

lemma pack_panics_on_mixed_rows:
  "pack (sample_json [mixed_rows, JInt 1]) (sample_print mixed_rows) = None"
  by code_simp

end
