(* ===== verification/Float32.thy ===== *)
theory Float32
  imports Rust_Prelude "HOL-Library.Log_Nat"
begin

text \<open>
  Single-precision numbers of the standard library, \<open>f32\<close>, as their bits. Every finite one is a whole number of
  units of \<open>2\<^sup>-\<^sup>1\<^sup>4\<^sup>9\<close>, so an operation is computed exactly on whole numbers and rounded once, to
  nearest with ties to even. An invalid operation gives the quiet NaN without sign, as the hardware does by
  default; the language leaves its sign and payload open.
\<close>

type_synonym f32 = "32 word"
type_synonym f64 = "64 word"

section \<open>Reading the bits\<close>

definition f32_sign :: "f32 \<Rightarrow> bool" where
  "f32_sign x = (2 ^ 31 \<le> unat x)"

definition f32_magnitude :: "f32 \<Rightarrow> nat" where
  "f32_magnitude x = unat x mod 2 ^ 31"

definition is_nan :: "f32 \<Rightarrow> bool" where
  "is_nan x = (255 * 2 ^ 23 < f32_magnitude x)"

definition is_infinite :: "f32 \<Rightarrow> bool" where
  "is_infinite x = (f32_magnitude x = 255 * 2 ^ 23)"

definition is_finite :: "f32 \<Rightarrow> bool" where
  "is_finite x = (f32_magnitude x < 255 * 2 ^ 23)"

text \<open>The absolute value in units; an infinite one comes out above every finite one.\<close>

definition units_of_magnitude :: "nat \<Rightarrow> nat" where
  "units_of_magnitude m =
     (let e = m div 2 ^ 23; frac = m mod 2 ^ 23
      in if e = 0 then frac else (2 ^ 23 + frac) * 2 ^ (e - 1))"

definition f32_units :: "f32 \<Rightarrow> nat" where
  "f32_units x = units_of_magnitude (f32_magnitude x)"

definition f32_int :: "f32 \<Rightarrow> int" where
  "f32_int x = (if f32_sign x then - int (f32_units x) else int (f32_units x))"

section \<open>Rounding\<close>

definition f32_nan :: f32 where
  "f32_nan = 0x7FC00000"

definition with_sign :: "bool \<Rightarrow> nat \<Rightarrow> f32" where
  "with_sign s m = of_nat (if s then 2 ^ 31 + m else m)"

definition infinite_magnitude :: nat where
  "infinite_magnitude = 255 * 2 ^ 23"

text \<open>A quotient to the nearest whole number, ties to the even one.\<close>

definition round_half_even :: "nat \<Rightarrow> nat \<Rightarrow> nat" where
  "round_half_even n d =
     (let m = n div d; r = n mod d
      in if d < 2 * r \<or> 2 * r = d \<and> odd m then m + 1 else m)"

text \<open>\<open>n / d\<close> units: the shift leaves 24 significant bits.\<close>

definition round_shift :: "nat \<Rightarrow> nat \<Rightarrow> nat" where
  "round_shift n d = floorlog 2 (n div d) - 24"

definition round_units :: "nat \<Rightarrow> nat \<Rightarrow> nat" where
  "round_units n d =
     (let k = round_shift n d
      in min infinite_magnitude (k * 2 ^ 23 + round_half_even n (d * 2 ^ k)))"

section \<open>Operations\<close>

definition f32_of_nat :: "nat \<Rightarrow> f32" where
  "f32_of_nat n = with_sign False (round_units (n * 2 ^ 149) 1)"

text \<open>A decimal literal \<open>n / d\<close>.\<close>

definition f32_ratio :: "nat \<Rightarrow> nat \<Rightarrow> f32" where
  "f32_ratio n d = with_sign False (round_units (n * 2 ^ 149) d)"

definition f32_lt :: "f32 \<Rightarrow> f32 \<Rightarrow> bool" where
  "f32_lt a b = (\<not> is_nan a \<and> \<not> is_nan b \<and> f32_int a < f32_int b)"

definition f32_le :: "f32 \<Rightarrow> f32 \<Rightarrow> bool" where
  "f32_le a b = (\<not> is_nan a \<and> \<not> is_nan b \<and> f32_int a \<le> f32_int b)"

text \<open>Of two zeros of different sign \<open>max\<close> may return either.\<close>

definition f32_max :: "f32 \<Rightarrow> f32 \<Rightarrow> f32" where
  "f32_max a b = (if is_nan a then b else if is_nan b then a else if f32_lt a b then b else a)"

definition f32_clamp :: "f32 \<Rightarrow> f32 \<Rightarrow> f32 \<Rightarrow> f32" where
  "f32_clamp x lo hi =
     (let x1 = (if f32_lt x lo then lo else x)
      in if f32_lt hi x1 then hi else x1)"

definition f32_neg :: "f32 \<Rightarrow> f32" where
  "f32_neg x = with_sign (\<not> f32_sign x) (f32_magnitude x)"

definition f32_add :: "f32 \<Rightarrow> f32 \<Rightarrow> f32" where
  "f32_add a b =
     (if is_nan a \<or> is_nan b \<or> is_infinite a \<and> is_infinite b \<and> f32_sign a \<noteq> f32_sign b then f32_nan
      else if is_infinite a then a
      else if is_infinite b then b
      else let s = f32_int a + f32_int b
           in if s = 0 then with_sign (f32_sign a \<and> f32_sign b) 0
              else with_sign (s < 0) (round_units (nat \<bar>s\<bar>) 1))"

definition f32_sub :: "f32 \<Rightarrow> f32 \<Rightarrow> f32" where
  "f32_sub a b = f32_add a (f32_neg b)"

definition f32_mul :: "f32 \<Rightarrow> f32 \<Rightarrow> f32" where
  "f32_mul a b =
     (let s = (f32_sign a \<noteq> f32_sign b)
      in if is_nan a \<or> is_nan b \<or> is_infinite a \<and> f32_units b = 0 \<or> is_infinite b \<and> f32_units a = 0 then f32_nan
         else if is_infinite a \<or> is_infinite b then with_sign s infinite_magnitude
         else with_sign s (round_units (f32_units a * f32_units b) (2 ^ 149)))"

definition f32_div :: "f32 \<Rightarrow> f32 \<Rightarrow> f32" where
  "f32_div a b =
     (let s = (f32_sign a \<noteq> f32_sign b)
      in if is_nan a \<or> is_nan b \<or> is_infinite a \<and> is_infinite b \<or> f32_units a = 0 \<and> f32_units b = 0 then f32_nan
         else if is_infinite a \<or> f32_units b = 0 then with_sign s infinite_magnitude
         else if is_infinite b then with_sign s 0
         else with_sign s (round_units (f32_units a * 2 ^ 149) (f32_units b)))"

text \<open>\<open>iter().sum::<f32>()\<close>, which starts from the negative zero.\<close>

definition f32_sum :: "f32 list \<Rightarrow> f32" where
  "f32_sum xs = foldl f32_add (with_sign True 0) xs"

text \<open>\<open>as u64\<close>: truncated, saturating, and zero for a NaN.\<close>

definition f32_to_u64 :: "f32 \<Rightarrow> u64" where
  "f32_to_u64 x = (if is_nan x \<or> f32_sign x then 0 else of_nat (min (2 ^ 64 - 1) (f32_units x div 2 ^ 149)))"

text \<open>\<open>f64 as f32\<close>: a finite double is a whole number of units of \<open>2\<^sup>-\<^sup>1\<^sup>0\<^sup>7\<^sup>4\<close>.\<close>

definition f64_units :: "f64 \<Rightarrow> nat" where
  "f64_units x =
     (let m = unat x mod 2 ^ 63; e = m div 2 ^ 52; frac = m mod 2 ^ 52
      in if e = 0 then frac else (2 ^ 52 + frac) * 2 ^ (e - 1))"

definition f64_to_f32 :: "f64 \<Rightarrow> f32" where
  "f64_to_f32 x =
     (let s = (2 ^ 63 \<le> unat x); m = unat x mod 2 ^ 63
      in if 2047 * 2 ^ 52 < m then f32_nan
         else if m = 2047 * 2 ^ 52 then with_sign s infinite_magnitude
         else with_sign s (round_units (f64_units x) (2 ^ 925)))"

text \<open>\<open>total_cmp\<close> orders the bits as signed numbers, the magnitude of a negative one turned around.\<close>

definition total_key :: "f32 \<Rightarrow> int" where
  "total_key x = (if f32_sign x then - int (f32_magnitude x) - 1 else int (f32_magnitude x))"

section \<open>Facts\<close>

lemma f32_magnitude_cases: "f32_magnitude x = (if f32_sign x then unat x - 2 ^ 31 else unat x)"
proof -
  have b: "unat x < 2 ^ 32" using unat_less [of x] by simp
  have "unat x mod 2 ^ 31 = unat x - 2 ^ 31" if "2 ^ 31 \<le> unat x"
    using that b by (simp add: le_mod_geq)
  then show ?thesis by (simp add: f32_magnitude_def f32_sign_def)
qed

lemma total_key_inj: "total_key x = total_key y \<longleftrightarrow> x = y"
proof
  assume k: "total_key x = total_key y"
  then have s: "f32_sign x = f32_sign y" by (simp add: total_key_def split: if_splits)
  with k have "f32_magnitude x = f32_magnitude y" by (simp add: total_key_def split: if_splits)
  with s have "unat x = unat y"
    by (simp add: f32_magnitude_cases f32_sign_def split: if_splits)
  then show "x = y" by (rule word_unat_eq_iff [THEN iffD2])
qed simp

text \<open>The shift leaves at most 24 bits, and no more than is needed.\<close>

lemma round_shift_bound: "n div d < 2 ^ (24 + round_shift n d)"
proof (cases "n div d = 0")
  case False
  then have "n div d < 2 ^ floorlog 2 (n div d)" by (simp add: floorlog_bounds)
  also have "\<dots> \<le> 2 ^ (24 + round_shift n d)" by (rule power_increasing) (simp_all add: round_shift_def)
  finally show ?thesis .
qed simp

lemma round_shift_least: "0 < round_shift n d \<Longrightarrow> 2 ^ (23 + round_shift n d) \<le> n div d"
proof -
  assume k: "0 < round_shift n d"
  then have "n div d \<noteq> 0" by (cases "n div d = 0") (simp_all add: round_shift_def floorlog_def)
  then have "2 ^ (floorlog 2 (n div d) - 1) \<le> n div d" using floorlog_bounds [of "n div d" 2] by auto
  moreover have "floorlog 2 (n div d) - 1 = 23 + round_shift n d" using k by (simp add: round_shift_def)
  ultimately show ?thesis by simp
qed

lemma round_half_even_bounds:
  assumes "0 < d"
  shows "2 * (round_half_even n d * d) \<le> 2 * n + d" and "2 * n \<le> 2 * (round_half_even n d * d) + d"
proof -
  define m r where "m = n div d" and "r = n mod d"
  have n: "n = m * d + r" and r: "r < d" using assms by (simp_all add: m_def r_def)
  show "2 * (round_half_even n d * d) \<le> 2 * n + d" "2 * n \<le> 2 * (round_half_even n d * d) + d"
    using n r by (auto simp: round_half_even_def Let_def m_def [symmetric] r_def [symmetric] algebra_simps)
qed

lemma round_half_even_le: "n div d < b \<Longrightarrow> round_half_even n d \<le> b"
  by (simp add: round_half_even_def Let_def)

lemma round_half_even_ge: "n div d \<le> round_half_even n d"
  by (simp add: round_half_even_def Let_def)

text \<open>The bits made from a shift and a significand stand for their product.\<close>

lemma units_of_scaled:
  assumes "k = 0 \<or> 2 ^ 23 \<le> m" "m \<le> 2 ^ 24"
  shows "units_of_magnitude (k * 2 ^ 23 + m) = m * 2 ^ k"
proof -
  consider "m < 2 ^ 23" "k = 0" | "2 ^ 23 \<le> m" "m < 2 ^ 24" | "m = 2 ^ 24" using assms by linarith
  then show ?thesis
  proof cases
    case 1
    then show ?thesis by (simp add: units_of_magnitude_def)
  next
    case 2
    then obtain r where r: "m = 2 ^ 23 + r" "r < 2 ^ 23" using le_iff_add [of "2 ^ 23" m] by auto
    then have "k * 2 ^ 23 + m = r + (k + 1) * 2 ^ 23" by simp
    then have "(k * 2 ^ 23 + m) div 2 ^ 23 = k + 1" "(k * 2 ^ 23 + m) mod 2 ^ 23 = r"
      using r(2) by (simp_all only: div_mult_self1_is_m mod_mult_self1 div_mult_self3 div_less mod_less)
        (simp_all add: div_less)
    then show ?thesis using r by (simp add: units_of_magnitude_def)
  next
    case 3
    then have "(k * 2 ^ 23 + m) div 2 ^ 23 = k + 2" "(k * 2 ^ 23 + m) mod 2 ^ 23 = 0" by simp_all
    then show ?thesis using 3 by (simp add: units_of_magnitude_def)
  qed
qed

lemma div_shift: "n div (d * 2 ^ k) = n div d div (2::nat) ^ k"
  by (simp add: div_mult2_eq)

lemma round_significand:
  "round_half_even n (d * 2 ^ round_shift n d) \<le> 2 ^ 24"
  "round_shift n d = 0 \<or> 2 ^ 23 \<le> round_half_even n (d * 2 ^ round_shift n d)"
proof -
  define k where "k = round_shift n d"
  have "n div d < 2 ^ 24 * 2 ^ k" using round_shift_bound [of n d] by (simp add: k_def power_add)
  then have "round_half_even n (d * 2 ^ k) \<le> 2 ^ 24"
    by (intro round_half_even_le) (simp add: div_shift less_mult_imp_div_less)
  then show "round_half_even n (d * 2 ^ round_shift n d) \<le> 2 ^ 24" by (simp only: k_def)
  have "2 ^ 23 \<le> n div (d * 2 ^ k)" if "0 < k"
    using round_shift_least [of n d] that by (simp add: div_shift k_def power_add less_eq_div_iff_mult_less_eq)
  then show "round_shift n d = 0 \<or> 2 ^ 23 \<le> round_half_even n (d * 2 ^ round_shift n d)"
    using round_half_even_ge [of n "d * 2 ^ k"] by (fastforce simp: k_def)
qed

lemma round_units_value:
  assumes "n div d < 2 ^ 276"
  shows "units_of_magnitude (round_units n d) =
      round_half_even n (d * 2 ^ round_shift n d) * 2 ^ round_shift n d"
    and "round_units n d < infinite_magnitude"
proof -
  define k where "k = round_shift n d"
  have "k \<le> 252" using floorlog_leI [OF assms] by (simp add: k_def round_shift_def)
  then have "k * 2 ^ 23 + round_half_even n (d * 2 ^ k) < infinite_magnitude"
    using round_significand(1) [of n d] by (simp add: k_def infinite_magnitude_def)
  then have e: "round_units n d = k * 2 ^ 23 + round_half_even n (d * 2 ^ k)" "round_units n d < infinite_magnitude"
    by (simp_all add: round_units_def k_def [symmetric] Let_def)
  show "round_units n d < infinite_magnitude" by (rule e(2))
  show "units_of_magnitude (round_units n d) =
      round_half_even n (d * 2 ^ round_shift n d) * 2 ^ round_shift n d"
    using units_of_scaled round_significand [of n d] by (simp add: e(1) k_def)
qed

text \<open>Rounding is off by at most a part in \<open>2\<^sup>2\<^sup>4\<close>.\<close>

lemma round_units_error:
  assumes "0 < d" "n div d < 2 ^ 276" "2 ^ 24 \<le> n div d"
  shows "2 ^ 24 * (units_of_magnitude (round_units n d) * d) \<le> (2 ^ 24 + 1) * n"
    and "2 ^ 24 * n \<le> 2 ^ 24 * (units_of_magnitude (round_units n d) * d) + n"
proof -
  define k where "k = round_shift n d"
  define m where "m = round_half_even n (d * 2 ^ k)"
  have "25 \<le> floorlog 2 (n div d)" using assms(3) by (intro floorlog_geI) simp_all
  then have "0 < k" by (simp add: k_def round_shift_def)
  then have "2 ^ (23 + k) * d \<le> n div d * d" using round_shift_least [of n d] by (intro mult_right_mono) (simp_all add: k_def)
  also have "\<dots> \<le> n" by (rule div_times_less_eq_dividend)
  finally have D: "2 ^ 23 * (d * 2 ^ k) \<le> n" by (simp add: power_add mult.commute mult.left_commute)
  have d: "0 < d * 2 ^ k" using assms(1) by simp
  have u: "units_of_magnitude (round_units n d) * d = m * (d * 2 ^ k)"
    using round_units_value(1) [OF assms(2)] by (simp add: m_def k_def mult_ac)
  show "2 ^ 24 * (units_of_magnitude (round_units n d) * d) \<le> (2 ^ 24 + 1) * n"
    using round_half_even_bounds(1) [OF d, of n] D unfolding u m_def by simp
  show "2 ^ 24 * n \<le> 2 ^ 24 * (units_of_magnitude (round_units n d) * d) + n"
    using round_half_even_bounds(2) [OF d, of n] D unfolding u m_def by simp
qed

lemma floorlog_eqI: "2 ^ k \<le> x \<Longrightarrow> x < 2 ^ Suc k \<Longrightarrow> floorlog 2 x = Suc k"
  using floorlog_leI [of x 2 "Suc k"] floorlog_geI [of 2 "Suc k" x] by simp

lemma round_units_less: "round_units n d < 2 ^ 31"
  by (simp add: round_units_def Let_def infinite_magnitude_def min_def)

lemma magnitude_with_sign:
  assumes "m < 2 ^ 31"
  shows "f32_magnitude (with_sign s m) = m" "f32_sign (with_sign s m) = s"
proof -
  have "unat (with_sign s m) = (if s then 2 ^ 31 + m else m)"
    using assms unfolding with_sign_def by (simp add: unsigned_of_nat take_bit_nat_eq_self_iff)
  then show "f32_magnitude (with_sign s m) = m" "f32_sign (with_sign s m) = s"
    using assms by (simp_all add: f32_magnitude_def f32_sign_def)
qed

lemmas round_with_sign = magnitude_with_sign [OF round_units_less]

lemma f32_one: "f32_of_nat 1 = 0x3F800000"
proof -
  have "floorlog 2 (1 * 2 ^ 149 :: nat) = floorlog 2 (1::nat) + 149" by (rule floorlog_power) simp_all
  then have "round_shift (1 * 2 ^ 149) 1 = 126" by (simp add: round_shift_def floorlog_def)
  then show ?thesis
    by (simp add: f32_of_nat_def round_units_def round_half_even_def with_sign_def infinite_magnitude_def)
qed

text \<open>For evaluation: the shift is known from the size of the quotient.\<close>

lemma round_evaluated:
  assumes "2 ^ (k + 23) \<le> n div d" "n div d < 2 ^ (k + 24)"
  shows "round_units n d = min infinite_magnitude (k * 2 ^ 23 + round_half_even n (d * 2 ^ k))"
proof -
  have "floorlog 2 (n div d) = Suc (k + 23)" using assms by (intro floorlog_eqI) (simp_all add: add.commute)
  then show ?thesis by (simp add: round_units_def round_shift_def Let_def)
qed

lemmas f32_bits = f32_units_def f32_magnitude_def units_of_magnitude_def f32_sign_def is_nan_def is_infinite_def is_finite_def
  infinite_magnitude_def with_sign_def round_half_even_def

end
