(* ===== verification/Memory_Namespace.thy ===== *)
theory Memory_Namespace
  imports Memory_Circuit Float32 Sort_By Decimal
begin

text \<open>
  Which memories a request may reach (\<open>crates/hzr-memory/src/namespace.rs\<close>, with the records of
  \<open>types.rs\<close>). One database holds the memories of every repository and of the user; a record says where it belongs by
  the end of its topic, the identity of a repository or the word \<open>global\<close>.
\<close>

section \<open>Records\<close>

datatype memory_source =
    ClaudeCode (session_id: rstr) (cc_file_path: "rstr option")
  | Conversation (thread_id: rstr)
  | Manual

datatype memory_scope = ScopeUser | ScopeProject | ScopeOrg

record memory_record =
  mr_score :: "f32 option"
  mr_id :: rstr
  mr_created_at :: rstr
  mr_updated_at :: rstr
  mr_last_accessed :: rstr
  mr_access_count :: u32
  mr_weight :: f32
  mr_topic :: rstr
  mr_summary :: rstr
  mr_raw_excerpt :: "rstr option"
  mr_keywords :: "rstr list"
  mr_importance :: importance
  mr_source :: memory_source
  mr_related_ids :: "rstr list"
  mr_scope :: memory_scope

datatype memory_namespace = ProjectOnly | GlobalOnly | ProjectAndGlobal

section \<open>Topics\<close>

definition max_memory_kind_bytes :: nat where "max_memory_kind_bytes = 64"

definition project_token_bytes :: nat where "project_token_bytes = 64"

definition global_scope_token :: rstr where "global_scope_token = lit ''global''"

definition is_kind_letter :: "nat \<Rightarrow> bool" where
  "is_kind_letter b = (97 \<le> b \<and> b \<le> 122 \<or> is_ascii_digit b)"

fun double_hyphen :: "nat list \<Rightarrow> bool" where
  "double_hyphen (a # b # s) = (a = c_minus \<and> b = c_minus \<or> double_hyphen (b # s))"
| "double_hyphen s = False"

definition validate_memory_kind :: "rstr \<Rightarrow> memory_error + unit" where
  "validate_memory_kind kind =
     (let bytes = as_bytes kind
      in if bytes = [] \<or> max_memory_kind_bytes < length bytes
         then Inl (InvalidRequest (lit ''memory topic kind must contain between 1 and '' @
                show_nat max_memory_kind_bytes @ lit '' bytes''))
         else if \<not> list_all (\<lambda>b. is_kind_letter b \<or> b = c_minus) bytes \<or> \<not> is_kind_letter (hd bytes) \<or>
                 \<not> is_kind_letter (last bytes) \<or> double_hyphen bytes
         then Inl (InvalidRequest (lit ''memory topic kind must use lowercase ASCII letters, digits, and single interior hyphens''))
         else Inr ())"

definition validate_project_token :: "rstr \<Rightarrow> memory_error + unit" where
  "validate_project_token project =
     (if blen project \<noteq> project_token_bytes \<or>
         \<not> list_all (\<lambda>b. is_ascii_digit b \<or> 97 \<le> b \<and> b \<le> 102) (as_bytes project)
      then Inl (InvalidRequest (lit ''memory project token must be a lowercase SHA-256 repository identity''))
      else Inr ())"

definition namespaced_topic :: "rstr \<Rightarrow> rstr \<Rightarrow> memory_error + rstr" where
  "namespaced_topic kind project =
     (case validate_memory_kind kind of
        Inl e \<Rightarrow> Inl e
      | Inr _ \<Rightarrow>
          (case validate_project_token project of
             Inl e \<Rightarrow> Inl e
           | Inr _ \<Rightarrow> Inr (kind @ [c_minus] @ project)))"

definition global_topic :: "rstr \<Rightarrow> memory_error + rstr" where
  "global_topic kind =
     (case validate_memory_kind kind of
        Inl e \<Rightarrow> Inl e
      | Inr _ \<Rightarrow>
          if kind \<noteq> lit ''preferences'' \<and> kind \<noteq> lit ''architecture-global'' \<and>
             (case strip_prefix kind (lit ''user-'') of None \<Rightarrow> True | Some s \<Rightarrow> s = [])
          then Inl (InvalidRequest (lit ''global memory topic must be `preferences`, `architecture-global`, or start with `user-`''))
          else Inr (kind @ [c_minus] @ global_scope_token))"

text \<open>The kind of a topic that ends in a hyphen and a token.\<close>

definition kind_before :: "rstr \<Rightarrow> rstr \<Rightarrow> rstr option" where
  "kind_before token topic = Option.bind (strip_suffix topic token) (\<lambda>front. strip_suffix front [c_minus])"

definition topic_is_global :: "rstr \<Rightarrow> bool" where
  "topic_is_global topic =
     (case kind_before global_scope_token topic of
        None \<Rightarrow> False
      | Some kind \<Rightarrow> validate_memory_kind kind = Inr ())"

definition topic_belongs_to_project :: "rstr \<Rightarrow> rstr \<Rightarrow> bool" where
  "topic_belongs_to_project topic project =
     (validate_project_token project = Inr () \<and>
      (case kind_before project topic of
         None \<Rightarrow> False
       | Some kind \<Rightarrow> kind \<noteq> lit ''legacy-import'' \<and> validate_memory_kind kind = Inr ()))"

section \<open>Isolation and merging\<close>

fun reachable_in :: "memory_namespace \<Rightarrow> rstr \<Rightarrow> rstr \<Rightarrow> bool" where
  "reachable_in ProjectOnly project topic = topic_belongs_to_project topic project"
| "reachable_in GlobalOnly project topic = topic_is_global topic"
| "reachable_in ProjectAndGlobal project topic = (topic_belongs_to_project topic project \<or> topic_is_global topic)"

definition isolate_memories ::
  "memory_record list \<Rightarrow> rstr \<Rightarrow> memory_namespace \<Rightarrow> rstr option \<Rightarrow> nat \<Rightarrow> memory_record list" where
  "isolate_memories records project namespace exact_topic limit =
     take limit (filter (\<lambda>r. reachable_in namespace project (mr_topic r) \<and>
        (case exact_topic of None \<Rightarrow> True | Some topic \<Rightarrow> mr_topic r = topic)) records)"

definition isolate_project_memories ::
  "memory_record list \<Rightarrow> rstr \<Rightarrow> rstr option \<Rightarrow> nat \<Rightarrow> memory_record list" where
  "isolate_project_memories records project exact_topic limit =
     isolate_memories records project ProjectOnly exact_topic limit"

definition neg_infinity :: f32 where
  "neg_infinity = with_sign True infinite_magnitude"

definition score_key :: "memory_record \<Rightarrow> int" where
  "score_key r = total_key (case mr_score r of None \<Rightarrow> neg_infinity | Some s \<Rightarrow> s)"

text \<open>The better score first, then the later update, then the lesser identifier.\<close>

definition memory_le :: "memory_record \<Rightarrow> memory_record \<Rightarrow> bool" where
  "memory_le l r =
     (score_key r < score_key l \<or> score_key r = score_key l \<and>
       (mr_updated_at r < mr_updated_at l \<or> mr_updated_at r = mr_updated_at l \<and> mr_id l \<le> mr_id r))"

fun first_ids :: "rstr set \<Rightarrow> memory_record list \<Rightarrow> memory_record list" where
  "first_ids seen [] = []"
| "first_ids seen (r # rs) =
     (if mr_id r \<in> seen then first_ids seen rs else r # first_ids (insert (mr_id r) seen) rs)"

definition merge_memories :: "memory_record list \<Rightarrow> memory_record list \<Rightarrow> nat \<Rightarrow> memory_record list" where
  "merge_memories project global limit = take limit (first_ids {} (sort_by memory_le (project @ global)))"

text \<open>\<open>saturating_mul\<close> on 64 bits, then the bound of the engine.\<close>

definition recall_candidate_limit :: "nat \<Rightarrow> nat" where
  "recall_candidate_limit requested = min (min (requested * 10) (2 ^ 64 - 1)) 100"

section \<open>Facts\<close>

lemma kind_before_Some: "kind_before token topic = Some kind \<longleftrightarrow> topic = kind @ [c_minus] @ token"
  by (auto simp: kind_before_def bind_eq_Some_conv strip_suffix_Some_iff)

text \<open>The tests read bytes; on the bytes they accept, these are the characters.\<close>

lemma as_bytes_ascii_iff:
  "list_all P (as_bytes s) \<longleftrightarrow> list_all (\<lambda>c. list_all P (utf8_encode c)) s"
  by (simp add: as_bytes_def list_all_iff)

lemma ascii_bytes:
  assumes "list_all P (as_bytes s)" "\<And>b. P b \<Longrightarrow> b < 0x80"
  shows "as_bytes s = s"
  using assms(1)
proof (induction s)
  case (Cons c s)
  have "c < 0x80"
  proof (rule ccontr)
    assume wide: "\<not> c < 0x80"
    obtain b where "b \<in> set (utf8_encode c)" using length_utf8_encode [of c] len_utf8_pos [of c]
      by (metis in_set_conv_nth)
    then have "0x80 \<le> b" "P b" using wide Cons.prems by (auto simp: as_bytes_def list_all_iff dest: utf8_encode_wide)
    then show False using assms(2) [of b] by simp
  qed
  then show ?case using Cons by (simp add: as_bytes_def utf8_encode_ascii)
qed simp

lemma project_token_bytes_hex:
  assumes "validate_project_token p = Inr ()"
  shows "length p = 64" and "list_all (\<lambda>c. is_ascii_digit c \<or> 97 \<le> c \<and> c \<le> 102) p"
proof -
  let ?hex = "\<lambda>c. is_ascii_digit c \<or> 97 \<le> c \<and> c \<le> 102"
  have h: "list_all ?hex (as_bytes p)" and l: "blen p = 64"
    using assms by (auto simp: validate_project_token_def project_token_bytes_def split: if_splits)
  have "as_bytes p = p" by (rule ascii_bytes [OF h]) (auto simp: is_ascii_digit_def)
  then show "length p = 64" "list_all ?hex p" using h l length_as_bytes [of p] by simp_all
qed

lemma topic_belongs_iff:
  "topic_belongs_to_project t p \<longleftrightarrow> validate_project_token p = Inr () \<and>
     (\<exists>k. t = k @ [c_minus] @ p \<and> k \<noteq> lit ''legacy-import'' \<and> validate_memory_kind k = Inr ())"
  unfolding topic_belongs_to_project_def kind_before_Some [symmetric] by (auto split: option.splits)

lemma topic_global_iff:
  "topic_is_global t \<longleftrightarrow> (\<exists>k. t = k @ [c_minus] @ global_scope_token \<and> validate_memory_kind k = Inr ())"
  unfolding topic_is_global_def kind_before_Some [symmetric] by (auto split: option.splits)

text \<open>A topic belongs to one repository at most, and never to one and to the user.\<close>

lemma topic_one_project:
  assumes "topic_belongs_to_project t p" "topic_belongs_to_project t q"
  shows "p = q"
proof -
  obtain k l where t: "t = k @ [c_minus] @ p" "t = l @ [c_minus] @ q"
    using assms unfolding topic_belongs_iff by blast
  have "length p = length q" using assms project_token_bytes_hex(1) by (simp add: topic_belongs_iff)
  with t show ?thesis by auto
qed

lemma topic_project_not_global:
  assumes "topic_belongs_to_project t p"
  shows "\<not> topic_is_global t"
proof
  assume "topic_is_global t"
  then obtain l where l: "t = l @ [c_minus] @ global_scope_token"
    unfolding topic_global_iff by blast
  obtain k where k: "t = k @ [c_minus] @ p" and v: "validate_project_token p = Inr ()"
    using assms unfolding topic_belongs_iff by blast
  have p: "p \<noteq> []" using project_token_bytes_hex(1) [OF v] by auto
  have "last p = last t" using k p by simp
  also have "\<dots> = 108" by (simp add: l global_scope_token_def lit_def)
  finally have "last p = 108" .
  moreover have "is_ascii_digit (last p) \<or> 97 \<le> last p \<and> last p \<le> 102"
    using project_token_bytes_hex(2) [OF v] p by (simp add: list_all_iff)
  ultimately show False by (simp add: is_ascii_digit_def)
qed

text \<open>What a write names, a read of the same namespace reaches, the quarantined kind apart.\<close>

lemma namespaced_topic_reached:
  "namespaced_topic kind p = Inr t \<Longrightarrow>
   topic_belongs_to_project t p \<longleftrightarrow> kind \<noteq> lit ''legacy-import''"
proof -
  assume h: "namespaced_topic kind p = Inr t"
  then have t: "t = kind @ [c_minus] @ p" and v: "validate_project_token p = Inr ()" "validate_memory_kind kind = Inr ()"
    by (auto simp: namespaced_topic_def split: sum.splits)
  have "kind_before p t = Some kind" by (simp only: t kind_before_Some)
  then show ?thesis using v by (simp add: topic_belongs_to_project_def)
qed

lemma global_topic_reached: "global_topic kind = Inr t \<Longrightarrow> topic_is_global t"
proof -
  assume h: "global_topic kind = Inr t"
  then have t: "t = kind @ [c_minus] @ global_scope_token" and v: "validate_memory_kind kind = Inr ()"
    by (auto simp: global_topic_def split: sum.splits if_splits)
  have "kind_before global_scope_token t = Some kind" by (simp only: t kind_before_Some)
  then show ?thesis using v by (simp add: topic_is_global_def)
qed

lemma isolate_memories_mem:
  assumes "r \<in> set (isolate_memories records project namespace exact_topic limit)"
  shows "r \<in> set records" and "reachable_in namespace project (mr_topic r)"
    and "exact_topic = Some topic \<longrightarrow> mr_topic r = topic"
  using assms by (auto simp: isolate_memories_def dest: in_set_takeD)

lemma length_isolate_memories: "length (isolate_memories records project namespace exact_topic limit) \<le> limit"
  by (simp add: isolate_memories_def)

interpretation memory_order: comparison memory_le
  by unfold_locales (auto simp: memory_le_def)

lemma first_ids_subset: "set (first_ids seen rs) \<subseteq> set rs"
  by (induction rs arbitrary: seen) auto

lemma first_ids_ordered: "sorted_wrt memory_le rs \<Longrightarrow> sorted_wrt memory_le (first_ids seen rs)"
  using first_ids_subset by (induction rs arbitrary: seen) (auto, blast)

text \<open>Nothing found is lost but for the limit: every identifier is kept once.\<close>

lemma first_ids_complete: "mr_id ` set (first_ids seen rs) = mr_id ` set rs - seen"
  by (induction rs arbitrary: seen) auto

lemma first_ids_distinct: "distinct (map mr_id (first_ids seen rs))"
  by (induction rs arbitrary: seen) (simp_all add: first_ids_complete)

end
