(* ===== verification/Memory_Handlers.thy ===== *)
theory Memory_Handlers
  imports Memory_Namespace Job_Store
begin

text \<open>
  The memory handlers of the daemon (\<open>memory_get\<close>, \<open>memory_recall\<close>, \<open>memory_store\<close>, \<open>memory_forget\<close>, \<open>memory_update\<close>
  and \<open>memory_prune\<close> of \<open>crates/hzr-daemon/src/api.rs\<close>), with the maintenance calls of the client
  (\<open>crates/hzr-memory/src/client.rs\<close>) and the read by identifier of \<open>snapshot.rs\<close>. The memory engine is an external
  program: what it answers is an argument, and what it is asked is the list of the argument vectors it was run with,
  which every handler carries along. The trace spans the handlers record for the dashboard are left out.
\<close>

section \<open>The engine\<close>

text \<open>\<open>mh_run\<close> has the output of a run, given the vectors of the runs before it; \<open>mh_global_first\<close> tells which of two
  concurrent recalls fails first.\<close>

record memory_env =
  mh_project :: "rstr \<Rightarrow> api_error + rstr"
  mh_error_text :: "memory_error \<Rightarrow> rstr"
  mh_verified :: "memory_error option"
  mh_database :: rstr
  mh_embeddings :: bool
  mh_run :: "rstr list list \<Rightarrow> rstr list \<Rightarrow> memory_error + rstr"
  mh_parse_records :: "rstr \<Rightarrow> memory_error + memory_record list"
  mh_recall :: "recall_request \<Rightarrow> memory_error + memory_record list"
  mh_global_first :: bool
  mh_store :: "store_request \<Rightarrow> memory_error + memory_record store_receipt"

type_synonym cli_runs = "rstr list list"

definition cli_command :: "memory_env \<Rightarrow> rstr list" where
  "cli_command env =
     [lit ''--db'', mh_database env] @ (if mh_embeddings env then [] else [lit ''--no-embeddings''])"

definition run_cli :: "memory_env \<Rightarrow> rstr list \<Rightarrow> cli_runs \<Rightarrow> (memory_error + rstr) \<times> cli_runs" where
  "run_cli env args runs =
     (case mh_verified env of
        Some e \<Rightarrow> (Inl e, runs)
      | None \<Rightarrow> (mh_run env runs (cli_command env @ args), runs @ [cli_command env @ args]))"

definition client_list_all :: "memory_env \<Rightarrow> cli_runs \<Rightarrow> (memory_error + memory_record list) \<times> cli_runs" where
  "client_list_all env runs =
     (case run_cli env [lit ''list'', lit ''--all'', lit ''--limit'', lit ''10000'', lit ''--format'', lit ''json''] runs of
        (Inl e, runs') \<Rightarrow> (Inl e, runs')
      | (Inr out, runs') \<Rightarrow> (mh_parse_records env out, runs'))"

definition client_forget :: "memory_env \<Rightarrow> rstr \<Rightarrow> cli_runs \<Rightarrow> (memory_error + unit) \<times> cli_runs" where
  "client_forget env i runs =
     (if trim i = [] then (Inl (InvalidRequest (lit ''memory id must not be empty'')), runs)
      else case run_cli env [lit ''forget'', i] runs of
        (Inl e, runs') \<Rightarrow> (Inl e, runs')
      | (Inr _, runs') \<Rightarrow> (Inr (), runs'))"

fun importance_text :: "importance \<Rightarrow> rstr" where
  "importance_text Critical = lit ''critical''"
| "importance_text High = lit ''high''"
| "importance_text Medium = lit ''medium''"
| "importance_text Low = lit ''low''"

definition update_args :: "rstr \<Rightarrow> rstr \<Rightarrow> importance option \<Rightarrow> rstr list option \<Rightarrow> rstr list" where
  "update_args i content imp keywords =
     [lit ''update'', i, lit ''--content'', content] @
     (case imp of None \<Rightarrow> [] | Some m \<Rightarrow> [lit ''--importance'', importance_text m]) @
     (case keywords of None \<Rightarrow> [] | Some ks \<Rightarrow> [lit ''--keywords'', join [44] ks])"

definition client_update ::
  "memory_env \<Rightarrow> rstr \<Rightarrow> rstr \<Rightarrow> importance option \<Rightarrow> rstr list option \<Rightarrow> cli_runs \<Rightarrow>
   (memory_error + unit) \<times> cli_runs" where
  "client_update env i content imp keywords runs =
     (if trim i = [] \<or> trim content = []
      then (Inl (InvalidRequest (lit ''memory id and content must not be empty'')), runs)
      else if (case keywords of None \<Rightarrow> False | Some ks \<Rightarrow> list_ex (\<lambda>k. 44 \<in> set k) ks)
      then (Inl (InvalidRequest (lit ''ICM CLI cannot preserve a keyword containing a comma'')), runs)
      else case run_cli env (update_args i content imp keywords) runs of
        (Inl e, runs') \<Rightarrow> (Inl e, runs')
      | (Inr _, runs') \<Rightarrow> (Inr (), runs'))"

section \<open>Requests\<close>

datatype memory_write_scope = WriteProject | WriteGlobal

record memory_recall_request =
  mq_workspace :: rstr
  mq_query :: rstr
  mq_topic :: "rstr option"
  mq_limit :: nat
  mq_keyword :: "rstr option"
  mq_scope :: memory_namespace

record memory_store_api_request =
  ms_workspace :: rstr
  ms_topic :: rstr
  ms_content :: rstr
  ms_scope :: memory_write_scope
  ms_importance :: importance
  ms_keywords :: "rstr list"
  ms_raw :: "rstr option"

record memory_id_request =
  mi_workspace :: rstr
  mi_id :: rstr
  mi_scope :: memory_write_scope

record memory_update_request = memory_id_request +
  mu_content :: rstr
  mu_importance :: "importance option"
  mu_keywords :: "rstr list option"

record memory_prune_request =
  mp_workspace :: rstr
  mp_threshold :: f32
  mp_dry_run :: bool
  mp_scope :: memory_write_scope

record memory_recall_response =
  rr_count :: nat
  rr_total_matches :: nat
  rr_memories :: "memory_record list"

record memory_mutation_response =
  mm_affected_ids :: "rstr list"
  mm_dry_run :: bool

record memory_content =
  mc_id :: rstr
  mc_topic :: rstr
  mc_updated_at :: rstr
  mc_summary :: rstr
  mc_raw_excerpt :: "rstr option"

section \<open>Reading\<close>

definition memory_maintenance_error :: "memory_env \<Rightarrow> memory_error \<Rightarrow> api_error" where
  "memory_maintenance_error env e = service (lit ''memory_unavailable'') (mh_error_text env e) True"

definition validate_memory_id :: "rstr \<Rightarrow> api_error + unit" where
  "validate_memory_id i =
     (if i = [] \<or> 128 < blen i \<or>
         \<not> list_all (\<lambda>b. is_ascii_alphanumeric b \<or> b = c_minus \<or> b = c_underscore) (as_bytes i)
      then Inl (bad_request (lit ''memory id must contain 1..128 ASCII letters, digits, hyphens, or underscores''))
      else Inr ())"

definition memory_not_found :: api_error where
  "memory_not_found = not_found (lit ''memory_not_found'') (lit ''memory does not exist in the requested namespace'')"

text \<open>The row with the identifier, if the database is there; the filter hides a row of another namespace.\<close>

definition read_memory_by_id ::
  "bool \<Rightarrow> (rstr \<Rightarrow> memory_error + memory_content option) \<Rightarrow> rstr \<Rightarrow> rstr \<Rightarrow> bool \<Rightarrow>
   memory_error + memory_content option" where
  "read_memory_by_id present row project i global =
     (if \<not> present then Inl SnapshotUnavailable
      else case row i of
        Inl e \<Rightarrow> Inl e
      | Inr None \<Rightarrow> Inr None
      | Inr (Some c) \<Rightarrow>
          Inr (if (if global then topic_is_global (mc_topic c) else topic_belongs_to_project (mc_topic c) project)
               then Some c else None))"

definition memory_get ::
  "memory_env \<Rightarrow> bool \<Rightarrow> (rstr \<Rightarrow> memory_error + memory_content option) \<Rightarrow> memory_id_request \<Rightarrow>
   api_error + memory_content" where
  "memory_get env present row req =
     (case validate_memory_id (mi_id req) of
        Inl e \<Rightarrow> Inl e
      | Inr _ \<Rightarrow>
     (case mh_project env (mi_workspace req) of
        Inl e \<Rightarrow> Inl e
      | Inr project \<Rightarrow>
     (case read_memory_by_id present row project (mi_id req) (mi_scope req = WriteGlobal) of
        Inl e \<Rightarrow> Inl (memory_maintenance_error env e)
      | Inr None \<Rightarrow> Inl memory_not_found
      | Inr (Some c) \<Rightarrow> Inr c)))"

definition memory_invalid :: "memory_env \<Rightarrow> memory_error + 'a \<Rightarrow> api_error + 'a" where
  "memory_invalid env r = map_sum (\<lambda>e. bad_request (mh_error_text env e)) id r"

text \<open>The topics of the two recalls; a kind that cannot be global leaves the global one out, unless only that was
  asked for.\<close>

definition recall_topics ::
  "memory_env \<Rightarrow> rstr \<Rightarrow> memory_recall_request \<Rightarrow> api_error + rstr option \<times> rstr option" where
  "recall_topics env project req =
     (case mq_topic req of
        None \<Rightarrow> Inr (None, None)
      | Some kind \<Rightarrow>
     (case memory_invalid env (validate_memory_kind kind) of
        Inl e \<Rightarrow> Inl e
      | Inr _ \<Rightarrow>
     (case memory_invalid env (namespaced_topic kind project) of
        Inl e \<Rightarrow> Inl e
      | Inr project_topic \<Rightarrow>
     (case mq_scope req of
        ProjectOnly \<Rightarrow> Inr (Some project_topic, None)
      | GlobalOnly \<Rightarrow>
          (case memory_invalid env (global_topic kind) of
             Inl e \<Rightarrow> Inl e
           | Inr t \<Rightarrow> Inr (Some project_topic, Some t))
      | ProjectAndGlobal \<Rightarrow>
          Inr (Some project_topic, (case global_topic kind of Inl _ \<Rightarrow> None | Inr t \<Rightarrow> Some t))))))"

definition recall_isolated ::
  "memory_env \<Rightarrow> recall_request \<Rightarrow> rstr \<Rightarrow> memory_namespace \<Rightarrow> rstr option \<Rightarrow> memory_error + memory_record list" where
  "recall_isolated env call project namespace topic =
     map_sum id (\<lambda>rs. isolate_memories rs project namespace topic (recall_limit call)) (mh_recall env call)"

definition recall_records ::
  "memory_env \<Rightarrow> memory_recall_request \<Rightarrow> rstr \<Rightarrow> rstr option \<Rightarrow> rstr option \<Rightarrow> memory_error + memory_record list" where
  "recall_records env req project project_topic global_t =
     (let base = (new_recall_request (mq_query req))\<lparr>recall_limit := recall_candidate_limit (mq_limit req),
                   recall_keyword := mq_keyword req\<rparr>;
          project_recall = base\<lparr>recall_project := Some project, recall_topic := project_topic\<rparr>;
          global_recall = base\<lparr>recall_project := Some global_scope_token, recall_topic := global_t\<rparr>;
          skip_global = mq_topic req \<noteq> None \<and> global_t = None;
          in_project = recall_isolated env project_recall project ProjectOnly project_topic;
          in_global = recall_isolated env global_recall project GlobalOnly global_t
      in case mq_scope req of
           ProjectOnly \<Rightarrow> in_project
         | GlobalOnly \<Rightarrow> in_global
         | ProjectAndGlobal \<Rightarrow>
             if skip_global then in_project
             else (case (in_project, in_global) of
                     (Inr ps, Inr gs) \<Rightarrow> Inr (merge_memories ps gs (recall_candidate_limit (mq_limit req)))
                   | (Inl e, Inl f) \<Rightarrow> Inl (if mh_global_first env then f else e)
                   | (Inl e, Inr _) \<Rightarrow> Inl e
                   | (Inr _, Inl f) \<Rightarrow> Inl f))"

definition memory_recall :: "memory_env \<Rightarrow> memory_recall_request \<Rightarrow> api_error + memory_recall_response" where
  "memory_recall env req =
     (if trim (mq_query req) = [] then Inl (bad_request (lit ''memory query must not be empty''))
      else if \<not> (1 \<le> mq_limit req \<and> mq_limit req \<le> 100)
      then Inl (bad_request (lit ''limit must be between 1 and 100''))
      else case mh_project env (mq_workspace req) of
        Inl e \<Rightarrow> Inl e
      | Inr project \<Rightarrow>
     (case recall_topics env project req of
        Inl e \<Rightarrow> Inl e
      | Inr (project_topic, global_t) \<Rightarrow>
     (case recall_records env req project project_topic global_t of
        Inl e \<Rightarrow> Inl (memory_maintenance_error env e)
      | Inr records \<Rightarrow>
          let memories = take (mq_limit req) records
          in Inr \<lparr>rr_count = length memories, rr_total_matches = length records, rr_memories = memories\<rparr>)))"

section \<open>Changing\<close>

definition memory_store ::
  "memory_env \<Rightarrow> memory_store_api_request \<Rightarrow> (api_error + memory_record store_receipt) \<times> store_request option" where
  "memory_store env req =
     (if trim (ms_topic req) = [] then (Inl (bad_request (lit ''memory topic must not be empty'')), None)
      else if trim (ms_content req) = [] then (Inl (bad_request (lit ''memory content must not be empty'')), None)
      else if 32 < length (ms_keywords req)
      then (Inl (bad_request (lit ''memory keywords must contain at most 32 entries'')), None)
      else case mh_project env (ms_workspace req) of
        Inl e \<Rightarrow> (Inl e, None)
      | Inr project \<Rightarrow>
     (case memory_invalid env (case ms_scope req of WriteProject \<Rightarrow> namespaced_topic (ms_topic req) project
                                 | WriteGlobal \<Rightarrow> global_topic (ms_topic req)) of
        Inl e \<Rightarrow> (Inl e, None)
      | Inr topic \<Rightarrow>
          let call = (new_store_request topic (ms_content req))\<lparr>store_importance := ms_importance req,
                        store_keywords := ms_keywords req, store_raw := ms_raw req\<rparr>
          in (map_sum (memory_maintenance_error env) id (mh_store env call), Some call)))"

definition memory_prunable :: "f32 \<Rightarrow> memory_record \<Rightarrow> bool" where
  "memory_prunable limit r = (f32_lt (mr_weight r) limit \<and> (mr_importance r = Medium \<or> mr_importance r = Low))"

fun scope_namespace :: "memory_write_scope \<Rightarrow> memory_namespace" where
  "scope_namespace WriteProject = ProjectOnly"
| "scope_namespace WriteGlobal = GlobalOnly"

text \<open>No list has more elements than \<open>usize::MAX\<close>.\<close>

definition memory_mutation_targets ::
  "memory_record list \<Rightarrow> rstr \<Rightarrow> memory_write_scope \<Rightarrow> f32 option \<Rightarrow> memory_record list" where
  "memory_mutation_targets records project scope limit =
     filter (\<lambda>r. case limit of None \<Rightarrow> True | Some v \<Rightarrow> memory_prunable v r)
       (isolate_memories records project (scope_namespace scope) None (length records))"

definition scoped_memory_records ::
  "memory_env \<Rightarrow> rstr \<Rightarrow> memory_write_scope \<Rightarrow> cli_runs \<Rightarrow> (api_error + memory_record list) \<times> cli_runs" where
  "scoped_memory_records env workspace scope runs =
     (case mh_project env workspace of
        Inl e \<Rightarrow> (Inl e, runs)
      | Inr project \<Rightarrow>
          (case client_list_all env runs of
             (Inl e, runs') \<Rightarrow> (Inl (memory_maintenance_error env e), runs')
           | (Inr records, runs') \<Rightarrow> (Inr (memory_mutation_targets records project scope None), runs')))"

definition memory_forget ::
  "memory_env \<Rightarrow> memory_id_request \<Rightarrow> cli_runs \<Rightarrow> (api_error + memory_mutation_response) \<times> cli_runs" where
  "memory_forget env req runs =
     (case validate_memory_id (mi_id req) of
        Inl e \<Rightarrow> (Inl e, runs)
      | Inr _ \<Rightarrow>
     (case scoped_memory_records env (mi_workspace req) (mi_scope req) runs of
        (Inl e, runs1) \<Rightarrow> (Inl e, runs1)
      | (Inr records, runs1) \<Rightarrow>
          if mi_id req \<notin> set (map mr_id records) then (Inl memory_not_found, runs1)
          else (case client_forget env (mi_id req) runs1 of
                  (Inl e, runs2) \<Rightarrow> (Inl (memory_maintenance_error env e), runs2)
                | (Inr _, runs2) \<Rightarrow> (Inr \<lparr>mm_affected_ids = [mi_id req], mm_dry_run = False\<rparr>, runs2))))"

definition memory_update ::
  "memory_env \<Rightarrow> memory_update_request \<Rightarrow> cli_runs \<Rightarrow> (api_error + memory_mutation_response) \<times> cli_runs" where
  "memory_update env req runs =
     (case validate_memory_id (mi_id req) of
        Inl e \<Rightarrow> (Inl e, runs)
      | Inr _ \<Rightarrow>
     (if trim (mu_content req) = [] then (Inl (bad_request (lit ''memory content must not be empty'')), runs)
      else if (case mu_keywords req of None \<Rightarrow> False | Some ks \<Rightarrow> 32 < length ks)
      then (Inl (bad_request (lit ''memory keywords must contain at most 32 entries'')), runs)
      else case scoped_memory_records env (mi_workspace req) (mi_scope req) runs of
        (Inl e, runs1) \<Rightarrow> (Inl e, runs1)
      | (Inr records, runs1) \<Rightarrow>
          if mi_id req \<notin> set (map mr_id records) then (Inl memory_not_found, runs1)
          else (case client_update env (mi_id req) (mu_content req) (mu_importance req) (mu_keywords req) runs1 of
                  (Inl e, runs2) \<Rightarrow> (Inl (memory_maintenance_error env e), runs2)
                | (Inr _, runs2) \<Rightarrow> (Inr \<lparr>mm_affected_ids = [mi_id req], mm_dry_run = False\<rparr>, runs2))))"

definition prune_partial :: "memory_env \<Rightarrow> nat \<Rightarrow> nat \<Rightarrow> memory_error \<Rightarrow> api_error" where
  "prune_partial env index selected e =
     service (lit ''memory_prune_partial'')
       (lit ''memory prune stopped after deleting '' @ show_nat index @ lit '' of '' @ show_nat selected @
        lit '' selected records; inspect the namespace before retrying: '' @ mh_error_text env e) True"

text \<open>The loop over the identifiers; it stops at the first that cannot be deleted.\<close>

fun prune_loop :: "memory_env \<Rightarrow> nat \<Rightarrow> nat \<Rightarrow> rstr list \<Rightarrow> cli_runs \<Rightarrow> (api_error + unit) \<times> cli_runs" where
  "prune_loop env selected index [] runs = (Inr (), runs)"
| "prune_loop env selected index (i # ids) runs =
     (case client_forget env i runs of
        (Inl e, runs') \<Rightarrow> (Inl (prune_partial env index selected e), runs')
      | (Inr _, runs') \<Rightarrow> prune_loop env selected (Suc index) ids runs')"

definition memory_prune ::
  "memory_env \<Rightarrow> memory_prune_request \<Rightarrow> cli_runs \<Rightarrow> (api_error + memory_mutation_response) \<times> cli_runs" where
  "memory_prune env req runs =
     (if \<not> is_finite (mp_threshold req) \<or> \<not> (f32_le 0 (mp_threshold req) \<and> f32_le (mp_threshold req) (f32_of_nat 1))
      then (Inl (bad_request (lit ''memory prune threshold must be finite and between 0 and 1'')), runs)
      else case scoped_memory_records env (mp_workspace req) (mp_scope req) runs of
        (Inl e, runs1) \<Rightarrow> (Inl e, runs1)
      | (Inr records, runs1) \<Rightarrow>
          let affected = map mr_id (filter (memory_prunable (mp_threshold req)) records);
              response = \<lparr>mm_affected_ids = affected, mm_dry_run = mp_dry_run req\<rparr>
          in if mp_dry_run req then (Inr response, runs1)
             else (case prune_loop env (length affected) 0 affected runs1 of
                     (Inl e, runs2) \<Rightarrow> (Inl e, runs2)
                   | (Inr _, runs2) \<Rightarrow> (Inr response, runs2)))"

section \<open>Which records the engine is asked to change\<close>

definition list_args :: "rstr list" where
  "list_args = [lit ''list'', lit ''--all'', lit ''--limit'', lit ''10000'', lit ''--format'', lit ''json'']"

text \<open>The record a run of the engine changes or deletes.\<close>

definition run_target :: "memory_env \<Rightarrow> rstr list \<Rightarrow> rstr option" where
  "run_target env run =
     (case drop (length (cli_command env)) run of
        verb # i # _ \<Rightarrow> if verb = lit ''forget'' \<or> verb = lit ''update'' then Some i else None
      | _ \<Rightarrow> None)"

definition run_targets :: "memory_env \<Rightarrow> cli_runs \<Rightarrow> rstr list" where
  "run_targets env runs = List.map_filter (run_target env) runs"

lemma run_target_args [simp]:
  "run_target env (cli_command env @ list_args) = None"
  "run_target env (cli_command env @ [lit ''forget'', i]) = Some i"
  "run_target env (cli_command env @ update_args i content imp keywords) = Some i"
  by (simp_all add: run_target_def list_args_def update_args_def lit_def)

lemma run_targets_simps [simp]:
  "run_targets env [] = []"
  "run_targets env (r # rs) = (case run_target env r of None \<Rightarrow> [] | Some i \<Rightarrow> [i]) @ run_targets env rs"
  "run_targets env (rs @ ts) = run_targets env rs @ run_targets env ts"
  by (simp_all add: run_targets_def List.map_filter_def split: option.splits)

lemma run_targets_forget [simp]:
  "run_targets env (map (\<lambda>i. cli_command env @ [lit ''forget'', i]) ids) = ids"
  by (induction ids) simp_all

lemma scoped_runs:
  "\<exists>new. snd (scoped_memory_records env ws scope runs) = runs @ new \<and> run_targets env new = []"
proof -
  have "\<exists>new. snd (client_list_all env runs) = runs @ new \<and> run_targets env new = []"
    by (cases "mh_verified env"; cases "mh_run env runs (cli_command env @ list_args)")
      (simp_all add: client_list_all_def run_cli_def list_args_def [symmetric])
  then show ?thesis
    by (auto simp: scoped_memory_records_def split: sum.splits prod.splits)
qed

lemma scoped_records:
  assumes "scoped_memory_records env ws scope runs = (Inr recs, runs1)"
  obtains p records where "mh_project env ws = Inr p" "client_list_all env runs = (Inr records, runs1)"
    "recs = memory_mutation_targets records p scope None"
  using assms by (auto simp: scoped_memory_records_def split: sum.splits prod.splits)

lemma mutation_target_mem:
  "r \<in> set (memory_mutation_targets records p scope limit) \<longleftrightarrow>
     r \<in> set records \<and> reachable_in (scope_namespace scope) p (mr_topic r) \<and>
     (case limit of None \<Rightarrow> True | Some v \<Rightarrow> memory_prunable v r)"
  by (auto simp: memory_mutation_targets_def isolate_memories_def dest: in_set_takeD)

lemma client_forget_runs:
  "client_forget env i runs = (res, runs') \<Longrightarrow>
   runs' = runs @ [cli_command env @ [lit ''forget'', i]] \<or> runs' = runs \<and> res \<noteq> Inr ()"
  by (auto simp: client_forget_def run_cli_def split: if_splits option.splits sum.splits)

lemma client_update_runs:
  "client_update env i content imp keywords runs = (res, runs') \<Longrightarrow>
   runs' = runs @ [cli_command env @ update_args i content imp keywords] \<or> runs' = runs \<and> res \<noteq> Inr ()"
  by (auto simp: client_update_def run_cli_def split: if_splits option.splits sum.splits)

text \<open>The loop deletes the identifiers in order up to the first failure, which it reports with its position.\<close>

lemma prune_loop_runs:
  assumes "prune_loop env selected index ids runs = (res, runs')"
  shows "\<exists>k. runs' = runs @ map (\<lambda>i. cli_command env @ [lit ''forget'', i]) (take k ids) \<and>
    (case res of
       Inr _ \<Rightarrow> k = length ids
     | Inl e \<Rightarrow> \<exists>n f. n < length ids \<and> e = prune_partial env (index + n) selected f \<and> (k = n \<or> k = Suc n))"
  using assms
proof (induction ids arbitrary: index runs)
  case (Cons i ids)
  show ?case
  proof (cases "client_forget env i runs")
    case (Pair r runs1)
    show ?thesis
    proof (cases r)
      case (Inl f)
      then have res: "res = Inl (prune_partial env (index + 0) selected f)" "runs' = runs1" using Cons.prems Pair by simp_all
      obtain k where k: "runs1 = runs @ map (\<lambda>i. cli_command env @ [lit ''forget'', i]) (take k (i # ids))" "k = 0 \<or> k = Suc 0"
        using client_forget_runs [OF Pair] that [of 0] that [of 1] by auto
      have "\<exists>n g. n < length (i # ids) \<and> prune_partial env (index + 0) selected f = prune_partial env (index + n) selected g \<and>
          (k = n \<or> k = Suc n)"
        using k(2) by (intro exI [of _ 0] exI [of _ f]) simp
      then show ?thesis using k(1) unfolding res sum.case by blast
    next
      case (Inr u)
      then have runs1: "runs1 = runs @ [cli_command env @ [lit ''forget'', i]]" using client_forget_runs [OF Pair] by simp
      have "prune_loop env selected (Suc index) ids runs1 = (res, runs')" using Cons.prems Pair Inr by simp
      from Cons.IH [OF this] obtain k where
        k: "runs' = runs1 @ map (\<lambda>i. cli_command env @ [lit ''forget'', i]) (take k ids)"
          "case res of Inr _ \<Rightarrow> k = length ids
             | Inl e \<Rightarrow> \<exists>n f. n < length ids \<and> e = prune_partial env (Suc index + n) selected f \<and> (k = n \<or> k = Suc n)"
        by blast
      have "case res of Inr _ \<Rightarrow> Suc k = length (i # ids)
             | Inl e \<Rightarrow> \<exists>n f. n < length (i # ids) \<and> e = prune_partial env (index + n) selected f \<and> (Suc k = n \<or> Suc k = Suc n)"
      proof (cases res)
        case (Inl e)
        then obtain n f where "n < length ids" "e = prune_partial env (Suc index + n) selected f" "k = n \<or> k = Suc n"
          using k(2) by auto
        then show ?thesis unfolding Inl sum.case by (intro exI [of _ "Suc n"] exI [of _ f]) auto
      qed (use k(2) in simp)
      then show ?thesis using k(1) runs1 by (intro exI [of _ "Suc k"]) simp
    qed
  qed
qed auto

section \<open>Isolation\<close>

text \<open>What every mutation does to the engine: it asks to change only records of the namespace that the list has.\<close>

definition confined :: "memory_env \<Rightarrow> rstr \<Rightarrow> memory_write_scope \<Rightarrow> cli_runs \<Rightarrow> cli_runs \<Rightarrow> bool" where
  "confined env ws scope runs runs' \<longleftrightarrow>
     (\<exists>new. runs' = runs @ new \<and>
       (\<forall>i \<in> set (run_targets env new).
          \<exists>p records r. mh_project env ws = Inr p \<and> fst (client_list_all env runs) = Inr records \<and> r \<in> set records \<and>
            reachable_in (scope_namespace scope) p (mr_topic r) \<and> mr_id r = i))"

lemma confinedI:
  assumes "scoped_memory_records env ws scope runs = (res, runs1)" "runs' = runs1 @ later"
    and "\<And>i. i \<in> set (run_targets env later) \<Longrightarrow> \<exists>recs. res = Inr recs \<and> i \<in> mr_id ` set recs"
  shows "confined env ws scope runs runs'"
proof -
  obtain new where new: "runs1 = runs @ new" "run_targets env new = []" using scoped_runs [of env ws scope runs] assms(1) by auto
  have "\<exists>p records r. mh_project env ws = Inr p \<and> fst (client_list_all env runs) = Inr records \<and> r \<in> set records \<and>
      reachable_in (scope_namespace scope) p (mr_topic r) \<and> mr_id r = i"
    if i: "i \<in> set (run_targets env (new @ later))" for i
  proof -
    obtain recs where "res = Inr recs" "i \<in> mr_id ` set recs" using assms(3) [of i] i new(2) by auto
    with scoped_records [of env ws scope runs recs runs1] assms(1) show ?thesis
      by (auto simp: mutation_target_mem) (metis fst_conv mutation_target_mem)
  qed
  then show ?thesis unfolding confined_def using assms(2) new(1) by (intro exI [of _ "new @ later"]) simp
qed

lemma confined_refl: "confined env ws scope runs runs"
  by (simp add: confined_def)

lemma memory_forget_confined: "confined env (mi_workspace req) (mi_scope req) runs (snd (memory_forget env req runs))"
proof (cases "validate_memory_id (mi_id req)")
  case (Inr u)
  obtain res runs1 where s: "scoped_memory_records env (mi_workspace req) (mi_scope req) runs = (res, runs1)" by fastforce
  obtain out runs2 where f: "client_forget env (mi_id req) runs1 = (out, runs2)" by fastforce
  have "\<exists>later. snd (memory_forget env req runs) = runs1 @ later \<and>
      (\<forall>i \<in> set (run_targets env later). \<exists>recs. res = Inr recs \<and> i \<in> mr_id ` set recs)"
    using client_forget_runs [OF f]
    by (cases res; cases out) (auto simp: memory_forget_def Inr s f)
  then show ?thesis using confinedI [OF s] by blast
qed (simp add: memory_forget_def confined_refl)

lemma memory_update_confined: "confined env (mi_workspace req) (mi_scope req) runs (snd (memory_update env req runs))"
proof -
  obtain res runs1 where s: "scoped_memory_records env (mi_workspace req) (mi_scope req) runs = (res, runs1)" by fastforce
  obtain out runs2 where
    u: "client_update env (mi_id req) (mu_content req) (mu_importance req) (mu_keywords req) runs1 = (out, runs2)" by fastforce
  have "snd (memory_update env req runs) = runs \<or> (\<exists>later. snd (memory_update env req runs) = runs1 @ later \<and>
      (\<forall>i \<in> set (run_targets env later). \<exists>recs. res = Inr recs \<and> i \<in> mr_id ` set recs))"
    using client_update_runs [OF u]
    by (cases "validate_memory_id (mi_id req)"; cases res; cases out) (auto simp: memory_update_def s u)
  then show ?thesis using confinedI [OF s] confined_refl by metis
qed

lemma memory_prune_confined: "confined env (mp_workspace req) (mp_scope req) runs (snd (memory_prune env req runs))"
proof -
  obtain res runs1 where s: "scoped_memory_records env (mp_workspace req) (mp_scope req) runs = (res, runs1)" by fastforce
  have "snd (memory_prune env req runs) = runs \<or> (\<exists>later. snd (memory_prune env req runs) = runs1 @ later \<and>
      (\<forall>i \<in> set (run_targets env later). \<exists>recs. res = Inr recs \<and> i \<in> mr_id ` set recs))"
  proof (cases res)
    case (Inr recs)
    define ids where "ids = map mr_id (filter (memory_prunable (mp_threshold req)) recs)"
    obtain out runs2 where l: "prune_loop env (length ids) 0 ids runs1 = (out, runs2)" by fastforce
    obtain k where k: "runs2 = runs1 @ map (\<lambda>i. cli_command env @ [lit ''forget'', i]) (take k ids)"
      using prune_loop_runs [OF l] by blast
    have "snd (memory_prune env req runs) \<in> {runs, runs1, runs2}"
      by (cases out) (auto simp: memory_prune_def s Inr ids_def [symmetric] l Let_def)
    moreover have "i \<in> mr_id ` set recs" if "i \<in> set (take k ids)" for i
      using in_set_takeD [OF that] by (auto simp: ids_def)
    ultimately show ?thesis using k Inr by (auto intro: exI [of _ "[]"])
  qed (auto simp: memory_prune_def s intro: exI [of _ "[]"])
  then show ?thesis using confinedI [OF s] confined_refl by metis
qed

lemma confined_spares:
  assumes "confined env ws scope runs runs'" "mh_project env ws = Inr p" "fst (client_list_all env runs) = Inr records"
    and "r \<in> set records" "distinct (map mr_id records)" "\<not> reachable_in (scope_namespace scope) p (mr_topic r)"
  shows "mr_id r \<notin> set (run_targets env (drop (length runs) runs'))"
proof
  assume "mr_id r \<in> set (run_targets env (drop (length runs) runs'))"
  then obtain r' where "r' \<in> set records" "reachable_in (scope_namespace scope) p (mr_topic r')" "mr_id r' = mr_id r"
    using assms(1-3) by (fastforce simp: confined_def)
  moreover from this have "r' = r" using assms(4,5) by (auto simp: distinct_map dest: inj_onD)
  ultimately show False using assms(6) by simp
qed

lemma foreign_unreachable: "topic_belongs_to_project t q \<Longrightarrow> p \<noteq> q \<Longrightarrow> \<not> reachable_in namespace p t"
  using topic_one_project topic_project_not_global by (cases namespace) auto

lemma legacy_unreachable:
  assumes "validate_project_token q = Inr ()"
  shows "\<not> reachable_in namespace p (lit ''legacy-import'' @ [c_minus] @ q)" (is "\<not> reachable_in _ _ ?t")
proof -
  have "\<not> topic_belongs_to_project ?t p"
  proof
    assume "topic_belongs_to_project ?t p"
    then obtain k where k: "?t = k @ [c_minus] @ p" "k \<noteq> lit ''legacy-import''" "validate_project_token p = Inr ()"
      unfolding topic_belongs_iff by blast
    have "length p = length q" using project_token_bytes_hex(1) assms k(3) by simp
    with k(1,2) show False by auto
  qed
  moreover have "\<not> topic_is_global ?t"
  proof
    assume "topic_is_global ?t"
    then obtain l where "?t = l @ [c_minus] @ global_scope_token" unfolding topic_global_iff by blast
    then have "last ?t = 108" by (simp only:) (simp add: global_scope_token_def lit_def)
    moreover have q: "q \<noteq> []" using project_token_bytes_hex(1) [OF assms] by auto
    ultimately have "last q = 108" by simp
    moreover have "is_ascii_digit (last q) \<or> 97 \<le> last q \<and> last q \<le> 102"
      using project_token_bytes_hex(2) [OF assms] q by (simp add: list_all_iff)
    ultimately show False by (simp add: is_ascii_digit_def)
  qed
  ultimately show ?thesis by (cases namespace) simp_all
qed

lemma recall_isolated_mem:
  "recall_isolated env call p namespace topic = Inr rs \<Longrightarrow> r \<in> set rs \<Longrightarrow> reachable_in namespace p (mr_topic r)"
  by (auto simp: recall_isolated_def map_sum_Inr dest: isolate_memories_mem(2))

lemma merge_memories_mem: "r \<in> set (merge_memories ps gs n) \<Longrightarrow> r \<in> set ps \<union> set gs"
  unfolding merge_memories_def using first_ids_subset [of "{}" "sort_by memory_le (ps @ gs)"]
  by (auto dest!: in_set_takeD)

lemma recall_reachable:
  assumes "memory_recall env req = Inr resp" "r \<in> set (rr_memories resp)" "mh_project env (mq_workspace req) = Inr p"
  shows "reachable_in (mq_scope req) p (mr_topic r)"
proof -
  obtain pt gt records where "recall_records env req p pt gt = Inr records" "r \<in> set records"
    using assms by (fastforce simp: memory_recall_def Let_def split: if_splits sum.splits dest: in_set_takeD)
  then show ?thesis
    by (cases "mq_scope req")
      (auto simp: recall_records_def Let_def split: if_splits sum.splits
        dest!: merge_memories_mem dest: recall_isolated_mem)
qed

section \<open>Properties\<close>

text \<open>C11: Memories of one repository stay out of the reach of every other one: a record of another repository is never
  in the answer to a recall, and forgetting, updating and pruning never ask the engine to change it, whatever
  scope they name.\<close>

theorem memory_isolated:
  assumes "mh_project env w = Inr p" "topic_belongs_to_project (mr_topic r) q" "p \<noteq> q"
    and "fst (client_list_all env runs) = Inr records" "r \<in> set records" "distinct (map mr_id records)"
  shows "(\<forall>req resp. mq_workspace req = w \<longrightarrow> memory_recall env req = Inr resp \<longrightarrow> r \<notin> set (rr_memories resp)) \<and>
    (\<forall>req. mi_workspace req = w \<longrightarrow>
       mr_id r \<notin> set (run_targets env (drop (length runs) (snd (memory_forget env req runs))))) \<and>
    (\<forall>req. mi_workspace req = w \<longrightarrow>
       mr_id r \<notin> set (run_targets env (drop (length runs) (snd (memory_update env req runs))))) \<and>
    (\<forall>req. mp_workspace req = w \<longrightarrow>
       mr_id r \<notin> set (run_targets env (drop (length runs) (snd (memory_prune env req runs)))))"
proof -
  have out: "\<not> reachable_in namespace p (mr_topic r)" for namespace by (rule foreign_unreachable [OF assms(2,3)])
  note spared = confined_spares [OF _ assms(1) assms(4-6) out]
  show ?thesis
  proof (intro conjI allI impI)
    fix req :: memory_recall_request and resp assume "mq_workspace req = w" "memory_recall env req = Inr resp"
    then show "r \<notin> set (rr_memories resp)" using recall_reachable assms(1) out by blast
  next
    fix req :: memory_id_request assume "mi_workspace req = w"
    then show "mr_id r \<notin> set (run_targets env (drop (length runs) (snd (memory_forget env req runs))))"
      using spared memory_forget_confined by metis
  next
    fix req :: memory_update_request assume "mi_workspace req = w"
    then show "mr_id r \<notin> set (run_targets env (drop (length runs) (snd (memory_update env req runs))))"
      using spared memory_update_confined by metis
  next
    fix req :: memory_prune_request assume "mp_workspace req = w"
    then show "mr_id r \<notin> set (run_targets env (drop (length runs) (snd (memory_prune env req runs))))"
      using spared memory_prune_confined by metis
  qed
qed

lemma targets_are_filtered:
  "map mr_id (filter P (memory_mutation_targets records p scope None)) =
   map mr_id (filter (\<lambda>r. reachable_in (scope_namespace scope) p (mr_topic r) \<and> P r) records)"
proof -
  have "take (length records) (filter Q records) = filter Q records" for Q by simp
  then show ?thesis by (simp add: memory_mutation_targets_def isolate_memories_def conj_commute)
qed

text \<open>C20: Pruning deletes, in the order of the list, exactly the records of its namespace whose weight is below the
  threshold and whose importance is medium or low, and answers with them; a dry run deletes nothing; when the
  engine refuses one, the records before it are the ones deleted and the error counts them.\<close>

theorem memory_prune_exact:
  assumes "mh_project env (mp_workspace req) = Inr p" "fst (client_list_all env runs) = Inr records"
    and "is_finite (mp_threshold req)" "f32_le 0 (mp_threshold req)" "f32_le (mp_threshold req) (f32_of_nat 1)"
  shows "\<exists>ids k. ids = map mr_id (filter (\<lambda>r. reachable_in (scope_namespace (mp_scope req)) p (mr_topic r) \<and>
        f32_lt (mr_weight r) (mp_threshold req) \<and> mr_importance r \<in> {Medium, Low}) records) \<and>
    run_targets env (drop (length runs) (snd (memory_prune env req runs))) = take k ids \<and>
    (mp_dry_run req \<longrightarrow> k = 0) \<and>
    (case fst (memory_prune env req runs) of
       Inr resp \<Rightarrow> mm_affected_ids resp = ids \<and> mm_dry_run resp = mp_dry_run req \<and> (mp_dry_run req \<or> k = length ids)
     | Inl e \<Rightarrow> \<exists>n f. n < length ids \<and> e = prune_partial env n (length ids) f \<and> (k = n \<or> k = Suc n))"
proof -
  obtain runs1 where l: "client_list_all env runs = (Inr records, runs1)" using assms(2) by (metis prod.collapse)
  define ids where "ids = map mr_id (filter (\<lambda>r. reachable_in (scope_namespace (mp_scope req)) p (mr_topic r) \<and>
        f32_lt (mr_weight r) (mp_threshold req) \<and> mr_importance r \<in> {Medium, Low}) records)"
  define recs where "recs = memory_mutation_targets records p (mp_scope req) None"
  have s: "scoped_memory_records env (mp_workspace req) (mp_scope req) runs = (Inr recs, runs1)"
    by (simp add: scoped_memory_records_def assms(1) l recs_def)
  obtain new where new: "runs1 = runs @ new" "run_targets env new = []"
    using scoped_runs [of env "mp_workspace req" "mp_scope req" runs] s by auto
  have ids: "map mr_id (filter (memory_prunable (mp_threshold req)) recs) = ids"
    unfolding recs_def targets_are_filtered ids_def by (rule arg_cong, rule filter_cong) (auto simp: memory_prunable_def)
  show ?thesis
  proof (cases "mp_dry_run req")
    case True
    then have "memory_prune env req runs = (Inr \<lparr>mm_affected_ids = ids, mm_dry_run = True\<rparr>, runs1)"
      using assms(3-5) by (simp add: memory_prune_def s ids Let_def)
    then show ?thesis using True new by (intro exI [of _ ids] exI [of _ 0]) (simp add: ids_def)
  next
    case False
    obtain out runs2 where loop: "prune_loop env (length ids) 0 ids runs1 = (out, runs2)" by fastforce
    have m: "memory_prune env req runs =
        (map_sum id (\<lambda>_. \<lparr>mm_affected_ids = ids, mm_dry_run = False\<rparr>) out, runs2)"
      using assms(3-5) False by (cases out) (simp_all add: memory_prune_def s ids Let_def loop)
    obtain k where "runs2 = runs1 @ map (\<lambda>i. cli_command env @ [lit ''forget'', i]) (take k ids)"
      "case out of Inr _ \<Rightarrow> k = length ids
         | Inl e \<Rightarrow> \<exists>n f. n < length ids \<and> e = prune_partial env (0 + n) (length ids) f \<and> (k = n \<or> k = Suc n)"
      using prune_loop_runs [OF loop] by blast
    then show ?thesis using False new m
      by (intro exI [of _ ids] exI [of _ k] conjI) (auto simp: ids_def split: sum.splits)
  qed
qed

text \<open>C40: A row that was imported into quarantine cannot be removed: its topic is of no namespace, so forgetting it is
  answered with not found from every workspace and in both scopes, and nothing is deleted.\<close>

theorem legacy_import_unremovable:
  assumes "mh_project env (mi_workspace req) = Inr p" "validate_memory_id (mi_id req) = Inr ()"
    and "fst (client_list_all env runs) = Inr records" "distinct (map mr_id records)"
    and "r \<in> set records" "mr_id r = mi_id req" "mr_topic r = lit ''legacy-import-'' @ q" "validate_project_token q = Inr ()"
  shows "fst (memory_forget env req runs) = Inl memory_not_found \<and>
    run_targets env (drop (length runs) (snd (memory_forget env req runs))) = []"
proof -
  obtain runs1 where l: "client_list_all env runs = (Inr records, runs1)" using assms(3) by (metis prod.collapse)
  define recs where "recs = memory_mutation_targets records p (mi_scope req) None"
  have s: "scoped_memory_records env (mi_workspace req) (mi_scope req) runs = (Inr recs, runs1)"
    by (simp add: scoped_memory_records_def assms(1) l recs_def)
  obtain new where new: "runs1 = runs @ new" "run_targets env new = []"
    using scoped_runs [of env "mi_workspace req" "mi_scope req" runs] s by auto
  have t: "mr_topic r = lit ''legacy-import'' @ [c_minus] @ q" by (simp add: assms(7) lit_def)
  have "mi_id req \<notin> set (map mr_id recs)"
  proof
    assume "mi_id req \<in> set (map mr_id recs)"
    then obtain r' where r': "r' \<in> set records" "mr_id r' = mr_id r" "reachable_in (scope_namespace (mi_scope req)) p (mr_topic r')"
      using assms(6) by (auto simp: recs_def mutation_target_mem)
    then have "r' = r" using assms(4,5) by (auto simp: distinct_map dest: inj_onD)
    then show False using legacy_unreachable [OF assms(8)] r'(3) t by auto
  qed
  then have "memory_forget env req runs = (Inl memory_not_found, runs1)" using assms(2) by (simp add: memory_forget_def s)
  then show ?thesis using new by simp
qed

section \<open>Witnesses\<close>

definition sample_memory :: "rstr \<Rightarrow> rstr \<Rightarrow> importance \<Rightarrow> f32 \<Rightarrow> memory_record" where
  "sample_memory i topic imp weight =
     \<lparr>mr_score = None, mr_id = i, mr_created_at = [], mr_updated_at = [], mr_last_accessed = [], mr_access_count = 0,
      mr_weight = weight, mr_topic = topic, mr_summary = [], mr_raw_excerpt = None, mr_keywords = [],
      mr_importance = imp, mr_source = Manual, mr_related_ids = [], mr_scope = ScopeProject\<rparr>"

definition token_a :: rstr where "token_a = replicate 64 97"

definition token_b :: rstr where "token_b = replicate 64 98"

definition sample_memories :: "memory_record list" where
  "sample_memories =
     [sample_memory (lit ''a1'') (lit ''notes-'' @ token_a) Low 0,
      sample_memory (lit ''a2'') (lit ''notes-'' @ token_a) Critical 0,
      sample_memory (lit ''b1'') (lit ''notes-'' @ token_b) Low 0,
      sample_memory (lit ''q1'') (lit ''legacy-import-'' @ token_a) Low 0]"

definition sample_memory_env :: memory_env where
  "sample_memory_env =
     \<lparr>mh_project = (\<lambda>_. Inr token_a), mh_error_text = (\<lambda>_. []), mh_verified = None, mh_database = lit ''/d'',
      mh_embeddings = True, mh_run = (\<lambda>_ _. Inr []), mh_parse_records = (\<lambda>_. Inr sample_memories),
      mh_recall = (\<lambda>_. Inr sample_memories), mh_global_first = False,
      mh_store = (\<lambda>_. Inl SnapshotUnavailable)\<rparr>"

lemma sample_listing: "fst (client_list_all sample_memory_env runs) = Inr sample_memories"
  by (simp add: client_list_all_def run_cli_def sample_memory_env_def)

lemma sample_distinct: "distinct (map mr_id sample_memories)"
  by (simp add: sample_memories_def sample_memory_def lit_def)

lemma sample_tokens:
  "validate_project_token token_a = Inr ()" "validate_project_token token_b = Inr ()" "token_a \<noteq> token_b"
  by (simp_all add: token_a_def token_b_def validate_project_token_def project_token_bytes_def blen_def as_bytes_def
      utf8_encode_def len_utf8_def numeral_eq_Suc is_ascii_digit_def list_all_iff)

lemma sample_kind: "validate_memory_kind (lit ''notes'') = Inr ()"
  by (simp add: validate_memory_kind_def lit_def as_bytes_def utf8_encode_def max_memory_kind_bytes_def
      is_kind_letter_def)

lemma sample_topics:
  "topic_belongs_to_project (lit ''notes-'' @ token_b) token_b" "topic_belongs_to_project (lit ''notes-'' @ token_a) token_a"
  using sample_tokens sample_kind by (auto simp: topic_belongs_iff lit_def intro!: exI [of _ "lit ''notes''"])

lemma sample_project: "mh_project sample_memory_env w = Inr token_a"
  by (simp add: sample_memory_env_def)

theorem memory_isolated_witness:
  "lit ''b1'' \<notin> set (run_targets sample_memory_env (drop 0 (snd (memory_forget sample_memory_env
     \<lparr>mi_workspace = lit ''/w'', mi_id = lit ''b1'', mi_scope = WriteProject\<rparr> []))))"
proof -
  let ?b = "sample_memory (lit ''b1'') (lit ''notes-'' @ token_b) Low 0"
  have b: "?b \<in> set sample_memories" "mr_id ?b = lit ''b1''" "topic_belongs_to_project (mr_topic ?b) token_b"
    by (simp_all add: sample_memories_def sample_memory_def sample_topics)
  show ?thesis
    using memory_isolated [where r = ?b and runs = "[]", OF sample_project [of "lit ''/w''"] b(3) sample_tokens(3)
        sample_listing b(1) sample_distinct] b(2) by simp
qed

theorem legacy_import_unremovable_witness:
  "fst (memory_forget sample_memory_env \<lparr>mi_workspace = lit ''/w'', mi_id = lit ''q1'', mi_scope = WriteProject\<rparr> []) =
   Inl memory_not_found"
proof -
  let ?q = "sample_memory (lit ''q1'') (lit ''legacy-import-'' @ token_a) Low 0"
  let ?req = "\<lparr>mi_workspace = lit ''/w'', mi_id = lit ''q1'', mi_scope = WriteProject\<rparr>"
  have q: "?q \<in> set sample_memories" "mr_id ?q = mi_id ?req" "mr_topic ?q = lit ''legacy-import-'' @ token_a"
    by (simp_all add: sample_memories_def sample_memory_def)
  have "validate_memory_id (mi_id ?req) = Inr ()"
    by (simp add: validate_memory_id_def lit_def blen_def len_utf8_def as_bytes_def utf8_encode_def
        is_ascii_alphanumeric_def is_ascii_alphabetic_def is_ascii_digit_def)
  with legacy_import_unremovable [of sample_memory_env ?req token_a "[]" sample_memories ?q token_a] q
  show ?thesis using sample_project sample_listing sample_distinct sample_tokens(1) by simp
qed

lemma sample_threshold:
  "is_finite 0x3F000000" "f32_le 0 0x3F000000" "f32_le 0x3F000000 (f32_of_nat 1)" "f32_lt 0 0x3F000000"
  by (simp_all add: f32_one [simplified] is_finite_def f32_le_def f32_lt_def is_nan_def f32_int_def f32_sign_def
      f32_units_def f32_magnitude_def units_of_magnitude_def)

theorem memory_prune_exact_witness:
  "\<exists>k. run_targets sample_memory_env (drop 0 (snd (memory_prune sample_memory_env
     \<lparr>mp_workspace = lit ''/w'', mp_threshold = 0x3F000000, mp_dry_run = False, mp_scope = WriteProject\<rparr> []))) =
   take k [lit ''a1'']"
proof -
  let ?req = "\<lparr>mp_workspace = lit ''/w'', mp_threshold = 0x3F000000, mp_dry_run = False, mp_scope = WriteProject\<rparr>"
  have b: "\<not> topic_belongs_to_project (lit ''notes-'' @ token_b) token_a"
    using topic_one_project sample_topics(1) sample_tokens(3) by blast
  have "map mr_id (filter (\<lambda>r. reachable_in (scope_namespace (mp_scope ?req)) token_a (mr_topic r) \<and>
        f32_lt (mr_weight r) (mp_threshold ?req) \<and> mr_importance r \<in> {Medium, Low}) sample_memories) = [lit ''a1'']"
    using legacy_unreachable [OF sample_tokens(1), of ProjectOnly token_a]
    by (simp add: sample_memories_def sample_memory_def sample_topics sample_threshold b) (simp add: lit_def)
  with memory_prune_exact [where env = sample_memory_env and req = ?req and runs = "[]" and records = sample_memories
      and p = token_a] show ?thesis
    using sample_project sample_listing sample_threshold by auto
qed

end
