(* ===== verification/Budget_Plan.thy ===== *)
theory Budget_Plan
  imports Float32 Sort_By "HOL-Library.Sublist"
begin

text \<open>
  Choosing the evidence of a context plan (\<open>crates/hzr-core/src/budget.rs\<close>, with the candidates and packs of
  \<open>crates/hzr-protocol/src/lib.rs\<close>): scores of several sources are brought to one scale and added up per content, the
  candidates are ordered by utility, and the budget is filled in that order. The hash map of fused scores is the list
  of its entries; the order in which it gives them back is not specified and is an argument, \<open>drain\<close>. Token counts
  are added in 64 bits as the release build does, without a check.
\<close>

section \<open>Data\<close>

datatype token_count_source = Provider | ModelTokenizer | Estimate

record token_count =
  tc_value :: u64
  tc_source :: token_count_source

definition token_estimate :: "u64 \<Rightarrow> token_count" where
  "token_estimate n = \<lparr>tc_value = n, tc_source = Estimate\<rparr>"

record provenance =
  pv_source :: rstr
  pv_content_hash :: rstr
  pv_generation :: "rstr option"
  pv_canonical_ref :: "rstr option"
  pv_derived_by :: "rstr option"

datatype candidate_source = FromExact | FromIndex | FromContext | FromMemory

datatype symbol_unavailable_reason =
    WholeFileCandidate | OutlineUnavailable | NoEnclosingSymbol | NotApplicable

record context_candidate =
  cd_id :: rstr
  cd_source :: candidate_source
  cd_content_ref :: rstr
  cd_path :: "rstr option"
  cd_symbol :: "rstr option"
  cd_symbol_unavailable :: "symbol_unavailable_reason option"
  cd_line_start :: "u32 option"
  cd_line_end :: "u32 option"
  cd_source_rank :: u32
  cd_relevance :: f32
  cd_tokens :: token_count
  cd_freshness :: rstr
  cd_trust :: rstr
  cd_provenance :: provenance

record candidate_decision =
  dc_candidate_id :: rstr
  dc_reason :: rstr

record ranking_diagnostic =
  rd_method :: rstr
  rd_calibrated :: bool

definition uncalibrated_separation :: ranking_diagnostic where
  "uncalibrated_separation = \<lparr>rd_method = lit ''top_candidate_separation_v1'', rd_calibrated = False\<rparr>"

record context_pack =
  pk_selected :: "context_candidate list"
  pk_rejected :: "candidate_decision list"
  pk_used :: token_count
  pk_hard_limit :: u64
  pk_coverage :: f32
  pk_confidence :: f32
  pk_ranking :: ranking_diagnostic
  pk_budget_exceeded :: bool

record fusion_input =
  fi_source_weight :: f32
  fi_candidates :: "context_candidate list"

record budget_planner =
  bp_hard_limit :: u64
  bp_max_per_path :: nat
  bp_min_relevance :: f32

section \<open>Configuration\<close>

definition memory_budget_share :: f32 where "memory_budget_share = f32_ratio 35 100"

definition unlocatable_penalty :: f32 where "unlocatable_penalty = f32_ratio 4 10"

definition new_planner :: "u64 \<Rightarrow> budget_planner" where
  "new_planner hard_limit =
     \<lparr>bp_hard_limit = hard_limit, bp_max_per_path = 2, bp_min_relevance = f32_ratio 5 100\<rparr>"

definition with_max_per_path :: "nat \<Rightarrow> budget_planner \<Rightarrow> budget_planner" where
  "with_max_per_path n p = p\<lparr>bp_max_per_path := max n 1\<rparr>"

definition with_min_relevance :: "f32 \<Rightarrow> budget_planner \<Rightarrow> budget_planner" where
  "with_min_relevance x p = p\<lparr>bp_min_relevance := f32_clamp x 0 (f32_of_nat 1)\<rparr>"

section \<open>Scores\<close>

definition is_locatable :: "context_candidate \<Rightarrow> bool" where
  "is_locatable c =
     (cd_source c = FromMemory \<or> cd_symbol c \<noteq> None \<or> cd_line_start c \<noteq> None \<or> cd_line_end c \<noteq> None)"

fun source_boost :: "candidate_source \<Rightarrow> f32" where
  "source_boost FromExact = f32_ratio 15 10"
| "source_boost FromContext = f32_ratio 12 10"
| "source_boost FromIndex = f32_of_nat 1"
| "source_boost FromMemory = f32_ratio 9 10"

definition utility :: "context_candidate \<Rightarrow> f32" where
  "utility c =
     f32_mul (f32_mul (source_boost (cd_source c)) (cd_relevance c))
       (if is_locatable c then f32_of_nat 1 else unlocatable_penalty)"

definition coverage :: "context_candidate list \<Rightarrow> f32" where
  "coverage cs =
     (if cs = [] then 0 else f32_div (f32_of_nat (length (filter is_locatable cs))) (f32_of_nat (length cs)))"

definition confidence :: "context_candidate list \<Rightarrow> f32" where
  "confidence cs =
     (case cs of
        [] \<Rightarrow> 0
      | leader # rest \<Rightarrow>
          if rest = [] then (if is_locatable leader then f32_of_nat 1 else 0)
          else let best = utility leader
               in if f32_le best 0 then 0
                  else let mean_rest = f32_div (f32_sum (map utility rest)) (f32_of_nat (length rest))
                       in f32_clamp (f32_div (f32_sub best mean_rest) best) 0 (f32_of_nat 1))"

definition aggregate_token_source :: "context_candidate list \<Rightarrow> token_count_source" where
  "aggregate_token_source cs =
     (case cs of
        [] \<Rightarrow> Estimate
      | first # _ \<Rightarrow>
          if list_ex (\<lambda>c. tc_source (cd_tokens c) = Estimate) cs then Estimate
          else if list_all (\<lambda>c. tc_source (cd_tokens c) = tc_source (cd_tokens first)) cs
          then tc_source (cd_tokens first) else ModelTokenizer)"

section \<open>Fusion\<close>

definition best_score :: "context_candidate list \<Rightarrow> f32" where
  "best_score cs = foldl f32_max 0 (filter (\<lambda>x. is_finite x \<and> f32_lt 0 x) (map cd_relevance cs))"

definition normalized_score :: "f32 \<Rightarrow> context_candidate \<Rightarrow> f32" where
  "normalized_score best c =
     (if f32_lt 0 best
      then f32_clamp (f32_div (f32_max (cd_relevance c) 0) best) 0 (f32_of_nat 1)
      else f32_div (f32_of_nat 1) (f32_of_nat (max (unat (cd_source_rank c)) 1)))"

type_synonym fused = "(rstr \<times> context_candidate \<times> f32) list"

text \<open>A new content is entered with its first candidate; one that is there has the contribution added to its score.\<close>

fun fuse_entry :: "context_candidate \<Rightarrow> f32 \<Rightarrow> fused \<Rightarrow> fused" where
  "fuse_entry c contribution [] = [(cd_content_ref c, c, contribution)]"
| "fuse_entry c contribution ((k, d, score) # fs) =
     (if k = cd_content_ref c then (k, d, f32_add score contribution) # fs
      else (k, d, score) # fuse_entry c contribution fs)"

definition fuse_source :: "fused \<Rightarrow> fusion_input \<Rightarrow> fused" where
  "fuse_source fs s =
     (let best = best_score (fi_candidates s)
      in foldl (\<lambda>acc c. fuse_entry c (f32_mul (fi_source_weight s) (normalized_score best c)) acc) fs (fi_candidates s))"

definition fuse_sources :: "fusion_input list \<Rightarrow> fused" where
  "fuse_sources sources = foldl fuse_source [] sources"

definition scored_candidate :: "rstr \<times> context_candidate \<times> f32 \<Rightarrow> context_candidate" where
  "scored_candidate e = (case e of (_, c, score) \<Rightarrow> c\<lparr>cd_relevance := score\<rparr>)"

text \<open>The greater utility first, then the lesser reference.\<close>

definition candidate_le :: "context_candidate \<Rightarrow> context_candidate \<Rightarrow> bool" where
  "candidate_le l r =
     (total_key (utility r) < total_key (utility l) \<or>
      total_key (utility r) = total_key (utility l) \<and> cd_content_ref l \<le> cd_content_ref r)"

definition ranked :: "(fused \<Rightarrow> fused) \<Rightarrow> fusion_input list \<Rightarrow> context_candidate list" where
  "ranked drain sources = sort_by candidate_le (map scored_candidate (drain (fuse_sources sources)))"

section \<open>Filling the budget\<close>

record filling =
  fl_selected :: "context_candidate list"
  fl_rejected :: "candidate_decision list"
  fl_used :: u64
  fl_memory_used :: u64
  fl_paths :: "rstr \<Rightarrow> nat"

definition memory_limit :: "u64 \<Rightarrow> u64" where
  "memory_limit hard_limit = f32_to_u64 (f32_mul (f32_of_nat (unat hard_limit)) memory_budget_share)"

definition path_of :: "context_candidate \<Rightarrow> rstr" where
  "path_of c = (case cd_path c of None \<Rightarrow> [] | Some p \<Rightarrow> p)"

definition reject :: "context_candidate \<Rightarrow> rstr \<Rightarrow> filling \<Rightarrow> filling" where
  "reject c reason f = f\<lparr>fl_rejected := fl_rejected f @ [\<lparr>dc_candidate_id = cd_id c, dc_reason = reason\<rparr>]\<rparr>"

definition accept :: "context_candidate \<Rightarrow> filling \<Rightarrow> filling" where
  "accept c f =
     \<lparr>fl_selected = fl_selected f @ [c], fl_rejected = fl_rejected f,
      fl_used = fl_used f + tc_value (cd_tokens c),
      fl_memory_used = (if cd_source c = FromMemory then fl_memory_used f + tc_value (cd_tokens c) else fl_memory_used f),
      fl_paths = (if path_of c = [] then fl_paths f else (fl_paths f)(path_of c := fl_paths f (path_of c) + 1))\<rparr>"

definition fill_step :: "budget_planner \<Rightarrow> filling \<Rightarrow> context_candidate \<Rightarrow> filling" where
  "fill_step p f c =
     (if f32_lt (cd_relevance c) (bp_min_relevance p) then reject c (lit ''relevance_floor'') f
      else if path_of c \<noteq> [] \<and> bp_max_per_path p \<le> fl_paths f (path_of c) then reject c (lit ''path_diversity_limit'') f
      else if cd_source c = FromMemory \<and> memory_limit (bp_hard_limit p) < fl_memory_used f + tc_value (cd_tokens c)
      then reject c (lit ''memory_budget_share'') f
      else if bp_hard_limit p < fl_used f + tc_value (cd_tokens c) then reject c (lit ''hard_token_budget'') f
      else accept c f)"

definition empty_filling :: filling where
  "empty_filling = \<lparr>fl_selected = [], fl_rejected = [], fl_used = 0, fl_memory_used = 0, fl_paths = (\<lambda>_. 0)\<rparr>"

definition fill :: "budget_planner \<Rightarrow> context_candidate list \<Rightarrow> filling" where
  "fill p cs = foldl (fill_step p) empty_filling cs"

definition plan :: "(fused \<Rightarrow> fused) \<Rightarrow> budget_planner \<Rightarrow> fusion_input list \<Rightarrow> context_pack" where
  "plan drain p sources =
     (let f = fill p (ranked drain sources)
      in \<lparr>pk_selected = fl_selected f, pk_rejected = fl_rejected f,
          pk_used = \<lparr>tc_value = fl_used f, tc_source = aggregate_token_source (fl_selected f)\<rparr>,
          pk_hard_limit = bp_hard_limit p,
          pk_coverage = coverage (fl_selected f), pk_confidence = confidence (fl_selected f),
          pk_ranking = uncalibrated_separation,
          pk_budget_exceeded = list_ex (\<lambda>d. dc_reason d = lit ''hard_token_budget'') (fl_rejected f)\<rparr>)"

definition refresh_selection_diagnostics :: "context_pack \<Rightarrow> context_pack" where
  "refresh_selection_diagnostics pack =
     pack\<lparr>pk_coverage := coverage (pk_selected pack), pk_confidence := confidence (pk_selected pack)\<rparr>"

section \<open>The share of memory\<close>

lemma f32_of_nat_units:
  assumes "0 < n" "n < 2 ^ 64"
  shows "2 ^ 24 * f32_units (f32_of_nat n) \<le> (2 ^ 24 + 1) * (n * 2 ^ 149)"
    and "2 ^ 148 \<le> f32_units (f32_of_nat n)" and "f32_units (f32_of_nat n) < 2 ^ 214"
    and "\<not> is_nan (f32_of_nat n)" "\<not> is_infinite (f32_of_nat n)" "\<not> f32_sign (f32_of_nat n)"
proof -
  let ?N = "n * 2 ^ 149"
  have big: "2 ^ 149 \<le> ?N" "?N < 2 ^ 213" using assms by simp_all
  then have small: "?N div 1 < 2 ^ 276" "2 ^ 24 \<le> ?N div 1" by simp_all
  have u: "f32_units (f32_of_nat n) = units_of_magnitude (round_units ?N 1)"
    by (simp only: f32_units_def f32_of_nat_def round_with_sign)
  note err = round_units_error [OF _ small, folded u]
  show "2 ^ 24 * f32_units (f32_of_nat n) \<le> (2 ^ 24 + 1) * ?N" using err(1) by simp
  show "f32_units (f32_of_nat n) < 2 ^ 214" using err(1) big by simp
  show "2 ^ 148 \<le> f32_units (f32_of_nat n)" using err(2) big by simp
  show "\<not> is_nan (f32_of_nat n)" "\<not> is_infinite (f32_of_nat n)" "\<not> f32_sign (f32_of_nat n)"
    using round_units_value(2) [OF small(1)]
    unfolding is_nan_def is_infinite_def f32_of_nat_def round_with_sign infinite_magnitude_def by simp_all
qed

lemma memory_budget_share_bits: "memory_budget_share = 0x3EB33333"
proof -
  have "floorlog 2 (35 * 2 ^ 149 div 100 :: nat) = Suc 147" by (rule floorlog_eqI) simp_all
  then have "round_shift (35 * 2 ^ 149) 100 = 124" by (simp add: round_shift_def)
  then show ?thesis
    by (simp add: memory_budget_share_def f32_ratio_def round_units_def round_half_even_def with_sign_def
        infinite_magnitude_def)
qed

text \<open>However the limit is rounded, memory gets at most 36 parts in a hundred of it.\<close>

lemma memory_limit_share: "100 * unat (memory_limit h) \<le> 36 * unat h"
proof (cases "unat h = 0")
  case True
  then have "f32_of_nat (unat h) = 0"
    by (simp add: f32_of_nat_def round_units_def round_shift_def floorlog_def round_half_even_def with_sign_def)
  then have "memory_limit h = 0"
    by (simp add: memory_limit_def memory_budget_share_bits f32_mul_def is_nan_def is_infinite_def f32_magnitude_def
        f32_sign_def f32_units_def units_of_magnitude_def f32_to_u64_def round_units_def round_shift_def floorlog_def
        round_half_even_def with_sign_def Let_def)
  then show ?thesis by simp
next
  case False
  define A where "A = f32_units (f32_of_nat (unat h))"
  define c where "c = f32_units memory_budget_share"
  have c: "c = 0xB33333 * 2 ^ 124"
    by (simp add: c_def memory_budget_share_bits f32_units_def f32_magnitude_def units_of_magnitude_def)
  have h: "0 < unat h" "unat h < 2 ^ 64" using False unat_less [of h] by simp_all
  note A = f32_of_nat_units [OF h, folded A_def]
  have share: "\<not> is_nan memory_budget_share" "\<not> is_infinite memory_budget_share" "\<not> f32_sign memory_budget_share"
    by (simp_all add: memory_budget_share_bits is_nan_def is_infinite_def f32_sign_def f32_magnitude_def)
  have prod: "f32_mul (f32_of_nat (unat h)) memory_budget_share = with_sign False (round_units (A * c) (2 ^ 149))"
    using A(4-6) share by (simp add: f32_mul_def A_def [symmetric] c_def [symmetric] Let_def)
  define P where "P = units_of_magnitude (round_units (A * c) (2 ^ 149))"
  have bounds: "A * c div 2 ^ 149 < 2 ^ 276" "2 ^ 24 \<le> A * c div 2 ^ 149"
    using A(2,3) unfolding c by simp_all
  have err: "2 ^ 24 * (P * 2 ^ 149) \<le> (2 ^ 24 + 1) * (A * c)"
    using round_units_error(1) [OF _ bounds] by (simp add: P_def)
  have "unat (memory_limit h) \<le> P div 2 ^ 149"
  proof -
    have "f32_units (with_sign False (round_units (A * c) (2 ^ 149))) = P"
      by (simp only: f32_units_def round_with_sign P_def)
    moreover have "take_bit 64 (min a b) \<le> b" for a b :: nat
      by (meson min.cobounded2 order_trans take_bit_nat_less_eq_self)
    ultimately show ?thesis
      by (simp add: memory_limit_def prod f32_to_u64_def round_with_sign unsigned_of_nat)
  qed
  then have "unat (memory_limit h) * 2 ^ 149 \<le> P" using div_times_less_eq_dividend [of P "2 ^ 149"] by (meson mult_right_mono order_trans zero_le)
  then show ?thesis using err A(1) unfolding c by simp
qed

section \<open>Fusion and ranking\<close>

lemma fuse_entry_keys:
  "map fst (fuse_entry c x fs) =
   (if cd_content_ref c \<in> set (map fst fs) then map fst fs else map fst fs @ [cd_content_ref c])"
proof (induction fs)
  case (Cons e fs)
  then show ?case by (cases e) simp
qed simp

definition keyed :: "fused \<Rightarrow> bool" where
  "keyed fs \<longleftrightarrow> distinct (map fst fs) \<and> list_all (\<lambda>(k, c, _). k = cd_content_ref c) fs"

lemma keyed_entry: "keyed fs \<Longrightarrow> keyed (fuse_entry c x fs)"
proof -
  assume k: "keyed fs"
  have "list_all (\<lambda>(k, c, _). k = cd_content_ref c) fs \<Longrightarrow> list_all (\<lambda>(k, c, _). k = cd_content_ref c) (fuse_entry c x fs)"
    by (induction fs) auto
  with k show ?thesis by (auto simp: keyed_def fuse_entry_keys)
qed

lemma keyed_fold: "keyed fs \<Longrightarrow> keyed (foldl (\<lambda>acc c. fuse_entry c (g c) acc) fs cs)"
  by (induction cs arbitrary: fs) (simp_all add: keyed_entry)

lemma keyed_sources: "keyed (fuse_sources sources)"
proof -
  have "keyed fs \<Longrightarrow> keyed (foldl fuse_source fs sources)" for fs
    by (induction sources arbitrary: fs) (simp_all add: fuse_source_def Let_def keyed_fold)
  then show ?thesis by (simp add: fuse_sources_def keyed_def)
qed

interpretation candidate_order: comparison candidate_le
  by unfold_locales (auto simp: candidate_le_def)

lemma scored_refs: "list_all (\<lambda>(k, c, _). k = cd_content_ref c) fs \<Longrightarrow> map cd_content_ref (map scored_candidate fs) = map fst fs"
  by (induction fs) (auto simp: scored_candidate_def)

text \<open>Every content is ranked once.\<close>

lemma ranked_distinct:
  assumes "mset (drain (fuse_sources sources)) = mset (fuse_sources sources)"
  shows "distinct (map cd_content_ref (ranked drain sources))"
proof -
  have "set (drain (fuse_sources sources)) = set (fuse_sources sources)"
    using assms by (metis set_mset_mset)
  then have "list_all (\<lambda>(k, c, _). k = cd_content_ref c) (drain (fuse_sources sources))"
    using keyed_sources [of sources] by (simp add: keyed_def list_all_iff)
  then have "map cd_content_ref (map scored_candidate (drain (fuse_sources sources))) = map fst (drain (fuse_sources sources))"
    by (rule scored_refs)
  moreover have "distinct (map fst (drain (fuse_sources sources)))"
    using keyed_sources [of sources] assms by (metis keyed_def mset_eq_imp_distinct_iff mset_map)
  ultimately show ?thesis by (simp only: ranked_def distinct_map_sort_by)
qed

lemma ranked_order_free:
  assumes "mset (drain (fuse_sources sources)) = mset (fuse_sources sources)"
    and "mset (drain' (fuse_sources sources)) = mset (fuse_sources sources)"
  shows "ranked drain sources = ranked drain' sources"
proof -
  let ?xs = "map scored_candidate (drain (fuse_sources sources))"
  have inj: "inj_on cd_content_ref (set ?xs)"
    using ranked_distinct [of drain sources, OF assms(1)] unfolding ranked_def distinct_map_sort_by by (simp only: distinct_map)
  have "x = y" if "x \<in> set ?xs" "y \<in> set ?xs" "candidate_le x y" "candidate_le y x" for x y
    using inj_onD [OF inj _ that(1,2)] that(3,4) by (auto simp: candidate_le_def)
  moreover have "mset ?xs = mset (map scored_candidate (drain' (fuse_sources sources)))" using assms by simp
  ultimately show ?thesis unfolding ranked_def by (intro candidate_order.sort_by_order_free) blast+
qed

section \<open>The filling\<close>

abbreviation tokens_of :: "context_candidate \<Rightarrow> nat" where
  "tokens_of c \<equiv> unat (tc_value (cd_tokens c))"

definition token_sum :: "context_candidate list \<Rightarrow> nat" where
  "token_sum cs = sum_list (map tokens_of cs)"

definition memory_tokens :: "context_candidate list \<Rightarrow> nat" where
  "memory_tokens cs = token_sum (filter (\<lambda>c. cd_source c = FromMemory) cs)"

definition path_uses :: "rstr \<Rightarrow> context_candidate list \<Rightarrow> nat" where
  "path_uses path cs = length (filter (\<lambda>c. path_of c = path) cs)"

text \<open>What holds after some candidates: the counters are what they count and within their limits, every candidate is
  selected or rejected, and one rejected for the budget does not fit beside what is selected.\<close>

definition filled :: "budget_planner \<Rightarrow> context_candidate list \<Rightarrow> filling \<Rightarrow> bool" where
  "filled p cs f \<longleftrightarrow>
     unat (fl_used f) = token_sum (fl_selected f) \<and> fl_used f \<le> bp_hard_limit p \<and>
     unat (fl_memory_used f) = memory_tokens (fl_selected f) \<and> fl_memory_used f \<le> memory_limit (bp_hard_limit p) \<and>
     (\<forall>path. path \<noteq> [] \<longrightarrow> fl_paths f path = path_uses path (fl_selected f) \<and> fl_paths f path \<le> bp_max_per_path p) \<and>
     subseq (fl_selected f) cs \<and>
     mset (map cd_id cs) = mset (map cd_id (fl_selected f)) + mset (map dc_candidate_id (fl_rejected f)) \<and>
     list_all (\<lambda>c. \<not> f32_lt (cd_relevance c) (bp_min_relevance p)) (fl_selected f) \<and>
     (\<forall>d \<in> set (fl_rejected f). dc_reason d = lit ''hard_token_budget'' \<longrightarrow>
        (\<exists>c \<in> set cs. cd_id c = dc_candidate_id d \<and> unat (bp_hard_limit p) < token_sum (fl_selected f) + tokens_of c))"

lemma token_sum_simps [simp]:
  "token_sum [] = 0" "token_sum (c # cs) = tokens_of c + token_sum cs" "token_sum (cs @ ds) = token_sum cs + token_sum ds"
  by (simp_all add: token_sum_def)

lemma memory_tokens_simps [simp]:
  "memory_tokens [] = 0" "memory_tokens (cs @ ds) = memory_tokens cs + memory_tokens ds"
  "memory_tokens [c] = (if cd_source c = FromMemory then tokens_of c else 0)"
  by (simp_all add: memory_tokens_def)

lemma path_uses_simps [simp]:
  "path_uses path [] = 0" "path_uses path (cs @ ds) = path_uses path cs + path_uses path ds"
  "path_uses path [c] = (if path_of c = path then 1 else 0)"
  by (simp_all add: path_uses_def)

lemma sorted_wrt_subseq: "subseq xs ys \<Longrightarrow> sorted_wrt P ys \<Longrightarrow> sorted_wrt P xs"
  by (induction rule: list_emb.induct) (auto dest: list_emb_set)

lemma subseq_distinct: "subseq xs ys \<Longrightarrow> distinct ys \<Longrightarrow> distinct xs"
  by (induction rule: list_emb.induct) (auto dest: list_emb_set)

lemma token_sum_subseq: "subseq xs ys \<Longrightarrow> token_sum xs \<le> token_sum ys"
  by (induction rule: list_emb.induct) simp_all

lemma memory_tokens_le: "memory_tokens cs \<le> token_sum cs"
  unfolding memory_tokens_def by (rule token_sum_subseq) (rule subseq_filter_left)

lemma unat_add_fits:
  fixes a b :: u64
  assumes "unat a + unat b < 2 ^ 64"
  shows "unat (a + b) = unat a + unat b"
  using assms by (simp add: unat_word_ariths)

lemma subseq_snoc: "subseq xs ys \<Longrightarrow> subseq xs (ys @ [c])"
  using list_emb_append_mono [of "(=)" xs ys "[]" "[c]"] by simp

lemma filled_reject:
  assumes "filled p cs f"
    and "reason = lit ''hard_token_budget'' \<longrightarrow> unat (bp_hard_limit p) < token_sum (fl_selected f) + tokens_of c"
  shows "filled p (cs @ [c]) (reject c reason f)"
  using assms subseq_snoc [of "fl_selected f" cs c] unfolding filled_def reject_def by auto

lemma filled_accept:
  assumes f: "filled p cs f" and fits: "token_sum (cs @ [c]) < 2 ^ 64"
    and "\<not> f32_lt (cd_relevance c) (bp_min_relevance p)"
    and "path_of c = [] \<or> fl_paths f (path_of c) < bp_max_per_path p"
    and "cd_source c \<noteq> FromMemory \<or> fl_memory_used f + tc_value (cd_tokens c) \<le> memory_limit (bp_hard_limit p)"
    and "fl_used f + tc_value (cd_tokens c) \<le> bp_hard_limit p"
  shows "filled p (cs @ [c]) (accept c f)"
proof -
  let ?s = "fl_selected f"
  have sub: "subseq ?s cs" and used: "unat (fl_used f) = token_sum ?s" "unat (fl_memory_used f) = memory_tokens ?s"
    using f by (simp_all add: filled_def)
  have "token_sum ?s + tokens_of c < 2 ^ 64" using token_sum_subseq [OF sub] fits by simp
  then have u: "unat (fl_used f + tc_value (cd_tokens c)) = token_sum ?s + tokens_of c"
    "unat (fl_memory_used f + tc_value (cd_tokens c)) = memory_tokens ?s + tokens_of c"
    using used memory_tokens_le [of ?s] by (simp_all add: unat_add_fits)
  have "\<exists>b \<in> set (cs @ [c]). cd_id b = dc_candidate_id d \<and> unat (bp_hard_limit p) < token_sum (?s @ [c]) + tokens_of b"
    if "d \<in> set (fl_rejected f)" "dc_reason d = lit ''hard_token_budget''" for d
    using f that unfolding filled_def by (fastforce simp: trans_less_add1)
  then show ?thesis
    using f assms(3-6) u used list_emb_append_mono [OF sub, of "[c]" "[c]"]
    unfolding filled_def accept_def by (auto simp: ac_simps)
qed

lemma filled_step:
  assumes "filled p cs f" "token_sum (cs @ [c]) < 2 ^ 64"
  shows "filled p (cs @ [c]) (fill_step p f c)"
proof -
  have sub: "subseq (fl_selected f) cs" "unat (fl_used f) = token_sum (fl_selected f)" using assms(1) by (simp_all add: filled_def)
  have "token_sum (fl_selected f) + tokens_of c < 2 ^ 64" using token_sum_subseq [OF sub(1)] assms(2) by simp
  then have u: "unat (fl_used f + tc_value (cd_tokens c)) = token_sum (fl_selected f) + tokens_of c"
    using sub(2) by (simp add: unat_add_fits)
  have r: "lit ''relevance_floor'' \<noteq> lit ''hard_token_budget''" "lit ''path_diversity_limit'' \<noteq> lit ''hard_token_budget''"
    "lit ''memory_budget_share'' \<noteq> lit ''hard_token_budget''" by (simp_all add: lit_def)
  show ?thesis
    unfolding fill_step_def
    using assms(2) by (auto intro!: filled_reject filled_accept assms(1) simp: r not_less u [symmetric] word_less_nat_alt [symmetric])
qed

lemma filled_fold:
  assumes "filled p cs f" "token_sum (cs @ ds) < 2 ^ 64"
  shows "filled p (cs @ ds) (foldl (fill_step p) f ds)"
  using assms
proof (induction ds arbitrary: cs f)
  case (Cons d ds)
  have "filled p (cs @ [d]) (fill_step p f d)" using Cons.prems by (intro filled_step) simp_all
  from Cons.IH [OF this] Cons.prems show ?case by simp
qed simp

lemma filled_empty: "filled p [] empty_filling"
  by (simp add: filled_def empty_filling_def)

lemma filled_fill: "token_sum cs < 2 ^ 64 \<Longrightarrow> filled p cs (fill p cs)"
  using filled_fold [OF filled_empty, of cs p] by (simp add: fill_def)

lemma fill_subseq: "subseq (fl_selected (fill p cs)) cs"
proof -
  have "subseq (fl_selected f) as \<Longrightarrow> subseq (fl_selected (foldl (fill_step p) f cs)) (as @ cs)" for f as
  proof (induction cs arbitrary: f as)
    case (Cons c cs)
    have "subseq (fl_selected (fill_step p f c)) (as @ [c])"
      using subseq_snoc [OF Cons.prems, of c] list_emb_append_mono [OF Cons.prems, of "[c]" "[c]"]
      by (simp add: fill_step_def reject_def accept_def)
    from Cons.IH [OF this] show ?case by simp
  qed simp
  from this [of empty_filling "[]"] show ?thesis by (simp add: fill_def empty_filling_def)
qed

lemma token_sum_mset: "mset xs = mset ys \<Longrightarrow> token_sum xs = token_sum ys"
  unfolding token_sum_def by (metis mset_map sum_mset_sum_list)

lemma ranked_ids:
  assumes "mset (drain (fuse_sources sources)) = mset (fuse_sources sources)"
  shows "mset (ranked drain sources) = mset (map scored_candidate (fuse_sources sources))"
  using assms by (simp add: ranked_def)

section \<open>Properties\<close>

text \<open>C14: A plan keeps to its budget: the tokens of the selected evidence are what it reports and at most the hard
  limit, at most 36 in a hundred of them belong to memory, and no file is used more often than allowed. The
  evidence is in order of utility and above the relevance floor. Every fused candidate is selected or rejected, once, and
  none that was rejected for the budget fits beside what was selected.\<close>

theorem plan_within_budget:
  assumes "mset (drain (fuse_sources sources)) = mset (fuse_sources sources)"
    and "token_sum (map scored_candidate (fuse_sources sources)) < 2 ^ 64"
  shows "\<exists>pack. pack = plan drain p sources \<and>
    unat (tc_value (pk_used pack)) = token_sum (pk_selected pack) \<and>
    token_sum (pk_selected pack) \<le> unat (bp_hard_limit p) \<and>
    100 * memory_tokens (pk_selected pack) \<le> 36 * unat (bp_hard_limit p) \<and>
    (\<forall>path. path \<noteq> [] \<longrightarrow> path_uses path (pk_selected pack) \<le> bp_max_per_path p) \<and>
    sorted_wrt candidate_le (pk_selected pack) \<and> distinct (map cd_content_ref (pk_selected pack)) \<and>
    list_all (\<lambda>c. \<not> f32_lt (cd_relevance c) (bp_min_relevance p)) (pk_selected pack) \<and>
    mset (map cd_id (map scored_candidate (fuse_sources sources))) =
      mset (map cd_id (pk_selected pack)) + mset (map dc_candidate_id (pk_rejected pack)) \<and>
    (\<forall>d \<in> set (pk_rejected pack). dc_reason d = lit ''hard_token_budget'' \<longrightarrow>
      (\<exists>c \<in> set (map scored_candidate (fuse_sources sources)). cd_id c = dc_candidate_id d \<and>
         unat (bp_hard_limit p) < token_sum (pk_selected pack) + tokens_of c))"
proof -
  define f where "f = fill p (ranked drain sources)"
  note m = ranked_ids [of drain sources, OF assms(1)]
  have fits: "token_sum (ranked drain sources) < 2 ^ 64" using token_sum_mset [OF m] assms(2) by simp
  have f: "filled p (ranked drain sources) f" unfolding f_def by (rule filled_fill [OF fits])
  then have sub: "subseq (fl_selected f) (ranked drain sources)" by (simp add: filled_def)
  have sorted: "sorted_wrt candidate_le (fl_selected f)"
    using sorted_wrt_subseq [OF sub] candidate_order.ordered_sort_by by (simp add: ranked_def)
  have dist: "distinct (map cd_content_ref (fl_selected f))"
    using subseq_map [OF sub, of cd_content_ref] ranked_distinct [of drain sources, OF assms(1)] subseq_distinct by blast
  have hard: "token_sum (fl_selected f) \<le> unat (bp_hard_limit p)"
    "memory_tokens (fl_selected f) \<le> unat (memory_limit (bp_hard_limit p))"
    using f by (auto simp: filled_def word_le_nat_alt)
  have ids: "mset (map cd_id (map scored_candidate (fuse_sources sources))) =
      mset (map cd_id (fl_selected f)) + mset (map dc_candidate_id (fl_rejected f))"
  proof -
    have "mset (map cd_id (ranked drain sources)) = mset (map cd_id (map scored_candidate (fuse_sources sources)))"
      by (simp only: mset_map [of cd_id] m)
    then show ?thesis using f by (simp only: filled_def)
  qed
  have set: "set (ranked drain sources) = set (map scored_candidate (fuse_sources sources))" using m by (metis set_mset_mset)
  have paths: "\<forall>path. path \<noteq> [] \<longrightarrow> path_uses path (fl_selected f) \<le> bp_max_per_path p"
    and used: "unat (fl_used f) = token_sum (fl_selected f)"
    and floor: "list_all (\<lambda>c. \<not> f32_lt (cd_relevance c) (bp_min_relevance p)) (fl_selected f)"
    using f by (auto simp: filled_def)
  have over: "\<forall>d \<in> set (fl_rejected f). dc_reason d = lit ''hard_token_budget'' \<longrightarrow>
      (\<exists>c \<in> set (map scored_candidate (fuse_sources sources)). cd_id c = dc_candidate_id d \<and>
         unat (bp_hard_limit p) < token_sum (fl_selected f) + tokens_of c)"
    using f unfolding filled_def set by blast
  have pack: "pk_selected (plan drain p sources) = fl_selected f" "pk_rejected (plan drain p sources) = fl_rejected f"
    "tc_value (pk_used (plan drain p sources)) = fl_used f" by (simp_all add: plan_def f_def Let_def)
  have share: "100 * memory_tokens (fl_selected f) \<le> 36 * unat (bp_hard_limit p)"
    using hard(2) memory_limit_share [of "bp_hard_limit p"] by linarith
  show ?thesis
    by (intro exI [of _ "plan drain p sources"] conjI, unfold pack)
      (fact refl used hard(1) share paths sorted dist floor ids over)+
qed

text \<open>C22: The plan is a function of the retrieved candidates: the order in which the hash map of fused scores gives its
  entries back makes no difference to what is selected, what is rejected and how the pack is described.\<close>

theorem plan_order_free:
  assumes "mset (drain (fuse_sources sources)) = mset (fuse_sources sources)"
    and "mset (drain' (fuse_sources sources)) = mset (fuse_sources sources)"
  shows "plan drain p sources = plan drain' p sources"
  using ranked_order_free [of drain sources drain', OF assms] by (simp add: plan_def)

section \<open>Witnesses\<close>

definition sample_candidate :: "rstr \<Rightarrow> rstr \<Rightarrow> u64 \<Rightarrow> context_candidate" where
  "sample_candidate name path n =
     \<lparr>cd_id = name, cd_source = FromIndex, cd_content_ref = name, cd_path = Some path, cd_symbol = None,
      cd_symbol_unavailable = Some NotApplicable, cd_line_start = Some 1, cd_line_end = Some 9, cd_source_rank = 1,
      cd_relevance = f32_ratio 8 10, cd_tokens = token_estimate n, cd_freshness = lit ''fresh'',
      cd_trust = lit ''workspace'', cd_provenance = \<lparr>pv_source = lit ''test'', pv_content_hash = name,
        pv_generation = None, pv_canonical_ref = None, pv_derived_by = None\<rparr>\<rparr>"

definition sample_sources :: "fusion_input list" where
  "sample_sources = [\<lparr>fi_source_weight = f32_of_nat 1,
     fi_candidates = [sample_candidate (lit ''a'') (lit ''a.rs'') 100, sample_candidate (lit ''b'') (lit ''b.rs'') 900]\<rparr>]"

lemma sample_fused_tokens: "token_sum (map scored_candidate (fuse_sources sample_sources)) = 1000"
  by (simp add: fuse_sources_def fuse_source_def sample_sources_def sample_candidate_def scored_candidate_def
      token_estimate_def Let_def lit_def)

theorem plan_within_budget_witness:
  "token_sum (pk_selected (plan rev (new_planner 500) sample_sources)) \<le> 500"
  using plan_within_budget [of rev sample_sources "new_planner 500"] sample_fused_tokens
  by (simp add: new_planner_def)

theorem plan_order_free_witness:
  "plan rev (new_planner 500) sample_sources = plan id (new_planner 500) sample_sources"
  using plan_order_free [of rev sample_sources id "new_planner 500"] by simp

end
