(* ===== verification/Context_Candidates.thy ===== *)
theory Context_Candidates
  imports Budget_Plan Memory_Namespace Search_Pages
begin

text \<open>
  From retrieved results to candidates (\<open>crates/hzr-context/src/candidate.rs\<close>, with the errors of \<open>error.rs\<close> and the
  warnings of \<open>crates/hzr-protocol/src/api.rs\<close>): the answers of the fork's planner, of a search and of the memory become
  candidates with their content, its identity and an estimate of its tokens. The digest, the text that the JSON
  library prints for the evidence of a plan and the normalization of paths in a workspace are arguments.
\<close>

section \<open>Data\<close>

text \<open>Errors of the other crates are carried as their text.\<close>

datatype (plugins only: code size) context_error =
    InvalidContextRequest (ce_field: rstr) (ce_reason: rstr)
  | IndexError rstr
  | ForkUnavailable rstr
  | IndexNotReady rstr
  | ForkError rstr
  | AccountingError rstr
  | ForkCommand rstr "int option" rstr
  | InvalidForkOutput rstr rstr
  | InvariantError rstr

datatype context_warning_code =
    PlannerFallback | PlannerUnavailable | SearchDegraded | SearchUnavailable | MemoryUnavailable
  | ContentUnavailable | OutlineUnavailableWarning | WarningsTruncated

record context_warning =
  cw_code :: context_warning_code
  cw_message :: rstr

record fork_symbol =
  fs_name :: rstr
  fs_kind :: rstr
  fs_start_line :: u32
  fs_end_line :: u32

type_synonym fork_symbol_index = "fork_symbol list"

record fork_plan_candidate =
  fp_rel_path :: rstr
  fp_score :: f32
  fp_sources :: "rstr list"
  fp_estimated_tokens :: u32

record retrieved_candidate =
  rc_candidate :: context_candidate
  rc_content :: rstr

record normalized_source =
  ns_candidates :: "retrieved_candidate list"
  ns_warnings :: "context_warning list"

text \<open>What \<open>normalize_plan_evidence\<close> puts into the JSON object of a candidate.\<close>

record plan_evidence =
  pe_path :: rstr
  pe_score :: f32
  pe_sources :: "rstr list"
  pe_estimated_tokens :: u32
  pe_outline :: "fork_symbol list"
  pe_omitted :: "(nat \<times> rstr) option"

text \<open>\<open>ce_normalize_result\<close> is none for a path that is not valid text.\<close>

record context_env =
  ce_sha256 :: "rstr \<Rightarrow> rstr"
  ce_print_evidence :: "plan_evidence \<Rightarrow> rstr"
  ce_normalize_result :: "rstr \<Rightarrow> context_error + rstr option"

section \<open>Contents\<close>

definition max_candidate_symbols :: nat where "max_candidate_symbols = 24"

definition max_memory_content_bytes :: nat where "max_memory_content_bytes = 4 * 1024"

definition is_char_boundary :: "rstr \<Rightarrow> nat \<Rightarrow> bool" where
  "is_char_boundary s n = (str_upto s n \<noteq> None)"

text \<open>The loops that move an offset to a boundary; the second is only run from offsets within the text.\<close>

fun boundary_down :: "rstr \<Rightarrow> nat \<Rightarrow> nat" where
  "boundary_down s 0 = 0"
| "boundary_down s (Suc n) = (if is_char_boundary s (Suc n) then Suc n else boundary_down s n)"

function boundary_up :: "rstr \<Rightarrow> nat \<Rightarrow> nat" where
  "boundary_up s n = (if is_char_boundary s n \<or> blen s \<le> n then n else boundary_up s (Suc n))"
  by pat_completeness auto
termination
  by (relation "measure (\<lambda>(s, n). blen s - n)") auto

definition bounded_marker :: "nat \<Rightarrow> rstr \<Rightarrow> rstr" where
  "bounded_marker n memory_id =
     [c_newline, c_newline] @ lit ''[memory content bounded; '' @ show_nat n @ lit '' bytes omitted; fetch full memory id '' @
     memory_id @ lit '' with `hzr memory get '' @ memory_id @ lit ''`]'' @ [c_newline, c_newline]"

text \<open>None is a panic, a slice that is not at a boundary.\<close>

definition bounded_memory_content :: "rstr \<Rightarrow> rstr \<Rightarrow> rstr option" where
  "bounded_memory_content content memory_id =
     (if blen content \<le> max_memory_content_bytes then Some content
      else let available = max_memory_content_bytes - blen (bounded_marker (blen content) memory_id);
               head_end = boundary_down content (available div 2);
               tail_start = boundary_up content (blen content - (available - head_end))
           in do {
             front \<leftarrow> str_upto content head_end;
             back \<leftarrow> str_from content tail_start;
             Some (front @ bounded_marker (tail_start - head_end) memory_id @ back)
           })"

definition content_identity :: "context_env \<Rightarrow> rstr \<Rightarrow> rstr \<times> rstr" where
  "content_identity env content = (lit ''sha256:'' @ ce_sha256 env content, ce_sha256 env content)"

definition estimate_tokens :: "rstr \<Rightarrow> token_count" where
  "estimate_tokens content = token_estimate (of_nat (max ((min (blen content) (2 ^ 64 - 1) + 3) div 4) 1))"

definition finite_score :: "f32 \<Rightarrow> f32" where
  "finite_score x = (if is_finite x then x else 0)"

definition source_rank :: "nat \<Rightarrow> u32" where
  "source_rank index = (if index + 1 < 2 ^ 32 then of_nat (index + 1) else - 1)"

section \<open>Normalization\<close>

definition omitted_note :: "rstr \<Rightarrow> nat \<Rightarrow> (nat \<times> rstr) option" where
  "omitted_note path n =
     (if n = 0 then None
      else Some (n, show_nat n @ lit '' further symbols omitted; run `hzr rtk -- read '' @ path @
                    lit '' --outline` for all of them''))"

definition normalize_plan_evidence ::
  "context_env \<Rightarrow> rstr \<Rightarrow> f32 \<Rightarrow> rstr list \<Rightarrow> u32 \<Rightarrow> fork_symbol list \<Rightarrow> rstr" where
  "normalize_plan_evidence env path score sources estimated outline =
     (let shown = take max_candidate_symbols outline
      in ce_print_evidence env
           \<lparr>pe_path = path, pe_score = score, pe_sources = sources, pe_estimated_tokens = estimated,
            pe_outline = shown, pe_omitted = omitted_note path (length outline - length shown)\<rparr>)"

definition list_min :: "u32 list \<Rightarrow> u32 option" where
  "list_min xs = (case xs of [] \<Rightarrow> None | y # ys \<Rightarrow> Some (foldl min y ys))"

definition list_max :: "u32 list \<Rightarrow> u32 option" where
  "list_max xs = (case xs of [] \<Rightarrow> None | y # ys \<Rightarrow> Some (foldl max y ys))"

definition plan_candidate ::
  "context_env \<Rightarrow> rstr \<Rightarrow> rstr option \<Rightarrow> nat \<Rightarrow> fork_plan_candidate \<Rightarrow> rstr \<Rightarrow> fork_symbol list \<Rightarrow> retrieved_candidate" where
  "plan_candidate env gen pipeline_version index c path outline =
     (let content = normalize_plan_evidence env path (fp_score c) (fp_sources c) (fp_estimated_tokens c) outline;
          (content_ref, content_hash) = content_identity env content
      in \<lparr>rc_candidate =
            \<lparr>cd_id = lit ''fork-plan:'' @ content_hash, cd_source = FromContext, cd_content_ref = content_ref,
             cd_path = Some path, cd_symbol = None,
             cd_symbol_unavailable = Some (if outline = [] then OutlineUnavailable else WholeFileCandidate),
             cd_line_start = list_min (map fs_start_line outline), cd_line_end = list_max (map fs_end_line outline),
             cd_source_rank = source_rank index, cd_relevance = finite_score (fp_score c),
             cd_tokens = token_estimate (tc_value (estimate_tokens content)), cd_freshness = gen,
             cd_trust = lit ''workspace:untrusted'',
             cd_provenance =
               \<lparr>pv_source = lit ''fork-core/memory-plan'', pv_content_hash = content_hash,
                pv_generation = Some gen, pv_canonical_ref = Some path, pv_derived_by = pipeline_version\<rparr>\<rparr>,
          rc_content = content\<rparr>)"

fun plan_candidates ::
  "context_env \<Rightarrow> rstr \<Rightarrow> rstr option \<Rightarrow> (rstr \<Rightarrow> fork_symbol_index option) \<Rightarrow> nat \<Rightarrow> fork_plan_candidate list \<Rightarrow>
   context_error + retrieved_candidate list" where
  "plan_candidates env gen pipeline_version outlines index [] = Inr []"
| "plan_candidates env gen pipeline_version outlines index (c # cs) =
     (case ce_normalize_result env (fp_rel_path c) of
        Inl e \<Rightarrow> Inl e
      | Inr None \<Rightarrow> Inl (InvalidForkOutput (lit ''memory plan'') (lit ''candidate path is not valid UTF-8''))
      | Inr (Some path) \<Rightarrow>
          let outline = (case outlines path of None \<Rightarrow> [] | Some symbols \<Rightarrow> symbols)
          in map_sum id (Cons (plan_candidate env gen pipeline_version index c path outline))
               (plan_candidates env gen pipeline_version outlines (Suc index) cs))"

definition normalize_plan ::
  "context_env \<Rightarrow> fork_plan_candidate list \<Rightarrow> rstr \<Rightarrow> rstr option \<Rightarrow> (rstr \<Rightarrow> fork_symbol_index option) \<Rightarrow>
   context_error + normalized_source" where
  "normalize_plan env selected gen pipeline_version outlines =
     map_sum id (\<lambda>cs. \<lparr>ns_candidates = cs, ns_warnings = []\<rparr>)
       (plan_candidates env gen pipeline_version outlines 0 selected)"

fun strategy_source :: "search_strategy \<Rightarrow> candidate_source" where
  "strategy_source ForkRgaiBuiltin = FromExact"
| "strategy_source _ = FromIndex"

fun strategy_name :: "search_strategy \<Rightarrow> rstr" where
  "strategy_name ForkRgaiAdaptive = lit ''fork-core/rgai-adaptive''"
| "strategy_name ForkRgaiBuiltin = lit ''fork-core/rgai-builtin''"
| "strategy_name ForkRgaiGrepai = lit ''fork-core/rgai-grepai''"
| "strategy_name ForkRgaiRipgrep = lit ''fork-core/rgai-ripgrep''"
| "strategy_name ForkRgaiFiles = lit ''fork-core/rgai-files''"

text \<open>The narrowest symbol around the lines, the first of several; the spans of those it compares do not underflow.\<close>

fun narrowest :: "fork_symbol list \<Rightarrow> fork_symbol option" where
  "narrowest [] = None"
| "narrowest (s # ss) =
     (case narrowest ss of
        None \<Rightarrow> Some s
      | Some t \<Rightarrow> if fs_end_line t - fs_start_line t < fs_end_line s - fs_start_line s then Some t else Some s)"

definition enclosing_symbol :: "fork_symbol_index option \<Rightarrow> u32 option \<Rightarrow> u32 option \<Rightarrow> rstr option" where
  "enclosing_symbol outline line_start line_end =
     (case (outline, line_start, line_end) of
        (Some symbols, Some a, Some b) \<Rightarrow>
          map_option fs_name (narrowest (filter (\<lambda>s. fs_start_line s \<le> a \<and> b \<le> fs_end_line s) symbols))
      | _ \<Rightarrow> None)"

definition hit_lines :: "search_hit \<Rightarrow> search_line list" where
  "hit_lines h = concat (map ss_lines (sh_snippets h))"

definition hit_content :: "search_hit \<Rightarrow> rstr" where
  "hit_content h =
     join [c_newline] (map (\<lambda>l. lit ''L'' @ show_nat (unat (sl_line l)) @ [c_space] @ sl_text l) (hit_lines h))"

definition u32_or_zero :: "u32 option \<Rightarrow> nat" where
  "u32_or_zero x = (case x of None \<Rightarrow> 0 | Some n \<Rightarrow> unat n)"

definition search_candidate ::
  "context_env \<Rightarrow> search_strategy \<Rightarrow> rstr \<Rightarrow> fork_symbol_index option \<Rightarrow> nat \<Rightarrow> search_hit \<Rightarrow> retrieved_candidate" where
  "search_candidate env strategy gen outline index h =
     (let content = hit_content h;
          (content_ref, content_hash) = content_identity env content;
          line_start = list_min (map sl_line (hit_lines h));
          line_end = list_max (map sl_line (hit_lines h));
          symbol = enclosing_symbol outline line_start line_end
      in \<lparr>rc_candidate =
            \<lparr>cd_id = lit ''fork-rgai:'' @ content_hash, cd_source = strategy_source strategy, cd_content_ref = content_ref,
             cd_path = Some (sh_path h), cd_symbol = symbol,
             cd_symbol_unavailable =
               (if symbol = None then Some (if outline \<noteq> None then NoEnclosingSymbol else OutlineUnavailable) else None),
             cd_line_start = line_start, cd_line_end = line_end, cd_source_rank = source_rank index,
             cd_relevance = finite_score (f64_to_f32 (sh_score h)), cd_tokens = estimate_tokens content,
             cd_freshness = gen, cd_trust = lit ''workspace:untrusted'',
             cd_provenance =
               \<lparr>pv_source = strategy_name strategy, pv_content_hash = content_hash, pv_generation = Some gen,
                pv_canonical_ref = Some (sh_path h @ lit ''#L'' @ show_nat (u32_or_zero line_start) @ lit ''-L'' @
                  show_nat (u32_or_zero line_end)),
                pv_derived_by = Some (lit ''rtk-rgai-1.1.0-fork.1'')\<rparr>\<rparr>,
          rc_content = content\<rparr>)"

definition add_candidate :: "retrieved_candidate \<Rightarrow> normalized_source \<Rightarrow> normalized_source" where
  "add_candidate c n = n\<lparr>ns_candidates := c # ns_candidates n\<rparr>"

definition add_unavailable :: "rstr \<Rightarrow> normalized_source \<Rightarrow> normalized_source" where
  "add_unavailable message n =
     n\<lparr>ns_warnings := \<lparr>cw_code = ContentUnavailable, cw_message = message\<rparr> # ns_warnings n\<rparr>"

definition no_source :: normalized_source where
  "no_source = \<lparr>ns_candidates = [], ns_warnings = []\<rparr>"

fun search_candidates ::
  "context_env \<Rightarrow> search_strategy \<Rightarrow> rstr \<Rightarrow> (rstr \<Rightarrow> fork_symbol_index option) \<Rightarrow> nat \<Rightarrow> search_hit list \<Rightarrow> normalized_source" where
  "search_candidates env strategy gen outlines index [] = no_source"
| "search_candidates env strategy gen outlines index (h # hs) =
     (let later = search_candidates env strategy gen outlines (Suc index) hs
      in if hit_content h = []
         then add_unavailable (lit ''fork rgai result '' @ sh_path h @ lit '' omitted snippet content'') later
         else add_candidate (search_candidate env strategy gen (outlines (sh_path h)) index h) later)"

definition normalize_search ::
  "context_env \<Rightarrow> search_api_response \<Rightarrow> rstr \<Rightarrow> (rstr \<Rightarrow> fork_symbol_index option) \<Rightarrow> normalized_source" where
  "normalize_search env response gen outlines =
     search_candidates env (sr_strategy response) gen outlines 0 (sr_hits response)"

fun source_path :: "memory_source \<Rightarrow> rstr option" where
  "source_path (ClaudeCode _ path) = path"
| "source_path (Conversation _) = None"
| "source_path Manual = None"

fun scope_trust :: "memory_scope \<Rightarrow> rstr" where
  "scope_trust ScopeUser = lit ''icm:user''"
| "scope_trust ScopeProject = lit ''icm:project''"
| "scope_trust ScopeOrg = lit ''icm:org''"

definition memory_relevance :: "memory_record \<Rightarrow> f32" where
  "memory_relevance r =
     (case mr_score r of None \<Rightarrow> mr_weight r | Some s \<Rightarrow> if is_finite s then s else mr_weight r)"

definition memory_candidate :: "context_env \<Rightarrow> nat \<Rightarrow> memory_record \<Rightarrow> rstr \<Rightarrow> retrieved_candidate" where
  "memory_candidate env index r content =
     (let (content_ref, content_hash) = content_identity env content
      in \<lparr>rc_candidate =
            \<lparr>cd_id = lit ''icm:'' @ content_hash, cd_source = FromMemory, cd_content_ref = content_ref,
             cd_path = source_path (mr_source r), cd_symbol = None, cd_symbol_unavailable = Some NotApplicable,
             cd_line_start = None, cd_line_end = None, cd_source_rank = source_rank index,
             cd_relevance = memory_relevance r, cd_tokens = estimate_tokens content, cd_freshness = mr_updated_at r,
             cd_trust = scope_trust (mr_scope r),
             cd_provenance =
               \<lparr>pv_source = lit ''icm'', pv_content_hash = content_hash,
                pv_generation = Some (lit ''icm:'' @ mr_updated_at r),
                pv_canonical_ref = Some (lit ''icm:memory:'' @ mr_id r), pv_derived_by = None\<rparr>\<rparr>,
          rc_content = content\<rparr>)"

fun memory_candidates :: "context_env \<Rightarrow> nat \<Rightarrow> memory_record list \<Rightarrow> normalized_source option" where
  "memory_candidates env index [] = Some no_source"
| "memory_candidates env index (r # rs) =
     (if mr_summary r = []
      then map_option (add_unavailable (lit ''ICM memory '' @ mr_id r @ lit '' has no summary content''))
             (memory_candidates env (Suc index) rs)
      else do {
        content \<leftarrow> bounded_memory_content (mr_summary r) (mr_id r);
        map_option (add_candidate (memory_candidate env index r content)) (memory_candidates env (Suc index) rs)
      })"

definition normalize_memory :: "context_env \<Rightarrow> memory_record list \<Rightarrow> normalized_source option" where
  "normalize_memory env records = memory_candidates env 0 records"

section \<open>Bounded contents\<close>

lemma char_boundary_split: "is_char_boundary s n \<longleftrightarrow> (\<exists>p q. s = p @ q \<and> n = blen p)"
  unfolding is_char_boundary_def using str_upto_Some by force

lemma boundary_down_ok: "boundary_down s n \<le> n \<and> is_char_boundary s (boundary_down s n)"
proof (induction n)
  case 0
  show ?case by (auto simp: char_boundary_split intro: exI [of _ "[]"])
qed auto

declare boundary_up.simps [simp del]

lemma boundary_up_ok:
  "n \<le> blen s \<Longrightarrow> n \<le> boundary_up s n \<and> boundary_up s n \<le> blen s \<and> is_char_boundary s (boundary_up s n)"
proof (induction s n rule: boundary_up.induct)
  case (1 s n)
  have "is_char_boundary s (blen s)" by (auto simp: char_boundary_split intro: exI [of _ "[]"])
  then show ?case using 1 by (cases "n = blen s"; cases "is_char_boundary s n") 
      (simp_all add: boundary_up.simps [of s n] boundary_up.simps [of s "blen s"])
qed

lemma split_between:
  assumes "is_char_boundary s a" "is_char_boundary s b" "a \<le> b"
  obtains front middle rear where "s = front @ middle @ rear" "a = blen front" "b = blen (front @ middle)"
proof -
  obtain p q p' q' where s: "s = p @ q" "a = blen p" "s = p' @ q'" "b = blen p'"
    using assms(1,2) unfolding char_boundary_split by blast
  then have "p @ q = p' @ q'" by simp
  then consider m where "p' = p @ m" | m where "p = p' @ m" by (auto simp: append_eq_append_conv2)
  then have "\<exists>m. p' = p @ m" by cases (use s(2,4) assms(3) in auto)
  then show thesis using s that by auto
qed

lemma bounded_marker_mono: "m \<le> n \<Longrightarrow> blen (bounded_marker m i) \<le> blen (bounded_marker n i)"
proof -
  assume "m \<le> n"
  have "blen (show_nat k) = length (show_nat k)" for k
    using show_nat_digits [of k] by (intro blen_ascii) (auto simp: list_all_iff is_ascii_digit_def)
  then show ?thesis using length_show_mono [OF \<open>m \<le> n\<close>] by (simp add: bounded_marker_def)
qed

text \<open>A long memory keeps its beginning and its end; the note between them counts the bytes that are left out, and the
  whole is within the bound as long as the note is.\<close>

lemma bounded_memory_content_ok:
  obtains front middle rear out where "bounded_memory_content content i = Some out" "content = front @ middle @ rear"
    "out = (if blen content \<le> max_memory_content_bytes then content else front @ bounded_marker (blen middle) i @ rear)"
    "blen (bounded_marker (blen content) i) \<le> max_memory_content_bytes \<longrightarrow> blen out \<le> max_memory_content_bytes"
proof (cases "blen content \<le> max_memory_content_bytes")
  case True
  then show ?thesis using that [of content "[]" "[]" content] by (simp add: bounded_memory_content_def)
next
  case False
  define available where "available = max_memory_content_bytes - blen (bounded_marker (blen content) i)"
  define h where "h = boundary_down content (available div 2)"
  define t where "t = boundary_up content (blen content - (available - h))"
  have h: "h \<le> available div 2" "is_char_boundary content h" using boundary_down_ok by (auto simp: h_def)
  have "available < blen content" using False by (simp add: available_def)
  then have t: "blen content - (available - h) \<le> t" "t \<le> blen content" "is_char_boundary content t" "h \<le> t"
    using boundary_up_ok [of "blen content - (available - h)" content, folded t_def] h(1) by linarith+
  obtain front middle rear where c: "content = front @ middle @ rear" "h = blen front" "t = blen (front @ middle)"
    using split_between [OF h(2) t(3,4)] .
  have slices: "str_upto content h = Some front" "str_from content t = Some rear" "t - h = blen middle"
    using str_upto_append [of front "middle @ rear"] str_from_append [of "front @ middle" rear] by (simp_all add: c)
  let ?out = "front @ bounded_marker (blen middle) i @ rear"
  have some: "bounded_memory_content content i = Some ?out"
    using False slices by (simp add: bounded_memory_content_def Let_def available_def [symmetric] h_def [symmetric] t_def [symmetric])
  have "blen ?out \<le> max_memory_content_bytes" if m: "blen (bounded_marker (blen content) i) \<le> max_memory_content_bytes"
  proof -
    have "blen (bounded_marker (blen middle) i) \<le> blen (bounded_marker (blen content) i)"
      by (rule bounded_marker_mono) (simp add: c(1))
    moreover have "blen front + blen rear \<le> available" using t(1) h(1) \<open>available < blen content\<close> by (simp add: c)
    ultimately show ?thesis using m by (simp add: available_def)
  qed
  then show ?thesis using that [OF some c(1)] False by simp
qed

lemma memory_candidates_total: "\<exists>n. memory_candidates env index rs = Some n"
proof (induction rs arbitrary: index)
  case (Cons r rs)
  then obtain n where "memory_candidates env (Suc index) rs = Some n" by blast
  moreover obtain content where "bounded_memory_content (mr_summary r) (mr_id r) = Some content"
    by (rule bounded_memory_content_ok)
  ultimately show ?case by simp
qed simp

end
