(* ===== verification/Context_Plan.thy ===== *)
theory Context_Plan
  imports Context_Candidates
begin

text \<open>
  Planning context (\<open>crates/hzr-context/src/planner.rs\<close>): the validation of a request, the warnings, the assembly of the
  sources, their fusion with the contents they bring (\<open>fuse\<close>), and the reduction of the response to the token budget
  (\<open>bound_context_response\<close>). What the code planner and the memory answer is an argument of \<open>plan_context\<close>. The map of
  contents is a map of references. The text of an error and the number of bytes of a serialized response are arguments as well;
  a serialization may fail.
\<close>

section \<open>Data\<close>

record fork_planner_metadata =
  pm_pipeline_version :: "rstr option"
  pm_semantic_backend_used :: "rstr option"
  pm_graph_candidate_count :: "nat option"
  pm_semantic_hit_count :: "nat option"
  pm_candidates_total :: nat
  pm_candidates_selected :: nat
  pm_estimated_tokens_used :: u64
  pm_token_budget :: u64

record context_response =
  cr_pack :: context_pack
  cr_contents :: "rstr \<rightharpoonup> rstr"
  cr_warnings :: "context_warning list"
  cr_planner :: "fork_planner_metadata option"

record code_plan_result =
  cp_sources :: "normalized_source list"
  cp_warnings :: "context_warning list"
  cp_planner :: "fork_planner_metadata option"

record plan_request =
  pq_workspace :: rstr
  pq_max_tokens :: "u64 option"
  pq_no_memory :: bool
  pq_intent :: rstr
  pq_path :: "rstr option"
  pq_topic :: "rstr option"
  pq_search_limit :: nat
  pq_memory_limit :: nat

record planner_env = context_env +
  pe_drain :: "fused \<Rightarrow> fused"
  pe_encoded_bytes :: "context_response \<Rightarrow> rstr + nat"
  pe_error_text :: "context_error \<Rightarrow> rstr"
  pe_memory_error_text :: "memory_error \<Rightarrow> rstr"

definition max_intent_bytes :: nat where "max_intent_bytes = 64 * 1024"

definition max_retrieval_results :: nat where "max_retrieval_results = 100"

definition max_warnings :: nat where "max_warnings = 8"

definition max_warning_bytes :: nat where "max_warning_bytes = 512"

definition plan_weight :: f32 where "plan_weight = f32_of_nat 1"

definition memory_weight :: f32 where "memory_weight = f32_ratio 8 10"

section \<open>Validation\<close>

definition validate_text :: "rstr \<Rightarrow> rstr \<Rightarrow> nat \<Rightarrow> context_error + unit" where
  "validate_text field s max_bytes =
     (if trim s = [] then Inl (InvalidContextRequest field (field @ lit '' must not be empty''))
      else if max_bytes < blen s
      then Inl (InvalidContextRequest field (field @ lit '' must not exceed '' @ show_nat max_bytes @ lit '' bytes''))
      else Inr ())"

definition validate_limit :: "rstr \<Rightarrow> nat \<Rightarrow> context_error + unit" where
  "validate_limit field limit =
     (if 1 \<le> limit \<and> limit \<le> max_retrieval_results then Inr ()
      else Inl (InvalidContextRequest field
             (field @ lit '' must be between 1 and '' @ show_nat max_retrieval_results)))"

definition validate_optional_path :: "rstr option \<Rightarrow> context_error + unit" where
  "validate_optional_path path =
     (if path = Some [] then Inl (InvalidContextRequest (lit ''path'') (lit ''path must not be empty'')) else Inr ())"

fun first_error :: "(context_error + unit) list \<Rightarrow> context_error + unit" where
  "first_error [] = Inr ()"
| "first_error (Inl e # rs) = Inl e"
| "first_error (Inr u # rs) = first_error rs"

definition validate_plan_request :: "planner_env \<Rightarrow> plan_request \<Rightarrow> context_error + unit" where
  "validate_plan_request env req =
     first_error
       [validate_text (lit ''intent'') (pq_intent req) max_intent_bytes,
        (if pq_max_tokens req = Some 0 then Inl (InvalidContextRequest (lit ''max_tokens'') (lit ''must be positive'')) else Inr ()),
        validate_limit (lit ''search_limit'') (pq_search_limit req),
        validate_limit (lit ''memory_limit'') (pq_memory_limit req),
        validate_optional_path (pq_path req),
        (case pq_topic req of
           None \<Rightarrow> Inr ()
         | Some topic \<Rightarrow>
             map_sum (\<lambda>e. InvalidContextRequest (lit ''topic'') (pe_memory_error_text env e)) id (validate_memory_kind topic))]"

section \<open>Warnings and sources\<close>

definition bounded_message :: "rstr \<Rightarrow> rstr option" where
  "bounded_message message =
     (if blen message \<le> max_warning_bytes then Some message
      else map_option (\<lambda>front. front @ lit ''...[truncated]'')
             (str_upto message (boundary_down message (max_warning_bytes - blen (lit ''...[truncated]'')))))"

definition push_warning :: "context_warning list \<Rightarrow> context_warning \<Rightarrow> context_warning list option" where
  "push_warning warnings warning =
     map_option (\<lambda>message.
       (let w = warning\<lparr>cw_message := message\<rparr>
        in if length warnings < max_warnings then warnings @ [w]
           else if warnings = [] \<or> cw_code (last warnings) \<noteq> WarningsTruncated
           then warnings[max_warnings - 1 :=
                  \<lparr>cw_code = WarningsTruncated, cw_message = lit ''additional context warnings were omitted''\<rparr>]
           else warnings))
       (bounded_message (cw_message warning))"

fun push_warnings :: "context_warning list \<Rightarrow> context_warning list \<Rightarrow> context_warning list option" where
  "push_warnings warnings [] = Some warnings"
| "push_warnings warnings (w # ws) = Option.bind (push_warning warnings w) (\<lambda>warnings'. push_warnings warnings' ws)"

type_synonym weighted_sources = "(f32 \<times> retrieved_candidate list) list"

definition add_source ::
  "weighted_sources \<times> context_warning list \<Rightarrow> f32 \<Rightarrow> normalized_source \<Rightarrow> (weighted_sources \<times> context_warning list) option" where
  "add_source acc weight n =
     map_option (\<lambda>warnings.
         (if ns_candidates n = [] then fst acc else fst acc @ [(weight, ns_candidates n)], warnings))
       (push_warnings (snd acc) (ns_warnings n))"

fun add_sources ::
  "weighted_sources \<times> context_warning list \<Rightarrow> f32 \<Rightarrow> normalized_source list \<Rightarrow> (weighted_sources \<times> context_warning list) option" where
  "add_sources acc weight [] = Some acc"
| "add_sources acc weight (n # ns) = Option.bind (add_source acc weight n) (\<lambda>acc'. add_sources acc' weight ns)"

section \<open>The response budget\<close>

definition encoded_context_tokens :: "planner_env \<Rightarrow> context_response \<Rightarrow> context_error + u64" where
  "encoded_context_tokens env response =
     (case pe_encoded_bytes env response of
        Inl e \<Rightarrow> Inl (InvariantError (lit ''context response serialization failed: '' @ e))
      | Inr n \<Rightarrow> Inr (of_nat ((n + 3) div 4)))"

definition budget_note :: rstr where
  "budget_note = lit ''Response budget omitted ''"

definition is_budget_warning :: "context_warning \<Rightarrow> bool" where
  "is_budget_warning w = (cw_code w = WarningsTruncated \<and> starts_with (cw_message w) budget_note)"

record omissions =
  om_candidates :: nat
  om_rejections :: nat
  om_warnings :: nat
  om_planner :: bool

definition bool_text :: "bool \<Rightarrow> rstr" where
  "bool_text b = (if b then lit ''true'' else lit ''false'')"

definition budget_warning :: "omissions \<Rightarrow> context_warning" where
  "budget_warning om =
     \<lparr>cw_code = WarningsTruncated,
      cw_message = budget_note @ show_nat (om_candidates om) @ lit '' whole evidence candidates, '' @
        show_nat (om_rejections om) @ lit '' rejection records, '' @ show_nat (om_warnings om) @
        lit '' warnings; planner metadata omitted='' @ bool_text (om_planner om) @
        lit ''. Increase max_tokens for more evidence.''\<rparr>"

definition note_omissions :: "omissions \<Rightarrow> context_response \<Rightarrow> context_response" where
  "note_omissions om r =
     (let kept = filter (\<lambda>w. \<not> is_budget_warning w) (cr_warnings r)
      in r\<lparr>cr_warnings := (if 0 < om_candidates om + om_rejections om + om_warnings om \<or> om_planner om
                             then kept @ [budget_warning om] else kept),
           cr_pack := refresh_selection_diagnostics (cr_pack r)\<rparr>)"

definition set_used :: "u64 \<Rightarrow> context_response \<Rightarrow> context_response" where
  "set_used n r = r\<lparr>cr_pack := (cr_pack r)\<lparr>pk_used := (pk_used (cr_pack r))\<lparr>tc_value := n\<rparr>\<rparr>\<rparr>"

text \<open>At most four rounds towards a count that counts its own digits.\<close>

fun settle_used :: "planner_env \<Rightarrow> nat \<Rightarrow> u64 \<Rightarrow> context_response \<Rightarrow> context_error + u64" where
  "settle_used env 0 estimated r = Inr estimated"
| "settle_used env (Suc n) estimated r =
     (case encoded_context_tokens env (set_used estimated r) of
        Inl e \<Rightarrow> Inl e
      | Inr actual \<Rightarrow> if actual = estimated then Inr estimated else settle_used env n actual r)"

definition measured :: "planner_env \<Rightarrow> context_response \<Rightarrow> context_error + u64" where
  "measured env r =
     (case encoded_context_tokens env r of
        Inl e \<Rightarrow> Inl e
      | Inr estimated \<Rightarrow> settle_used env 4 estimated r)"

fun remove_last :: "('a \<Rightarrow> bool) \<Rightarrow> 'a list \<Rightarrow> 'a list" where
  "remove_last P [] = []"
| "remove_last P (x # xs) = (if \<not> list_ex P xs \<and> P x then xs else x # remove_last P xs)"

definition exceeded :: "context_response \<Rightarrow> context_response" where
  "exceeded r = r\<lparr>cr_pack := (cr_pack r)\<lparr>pk_budget_exceeded := True\<rparr>\<rparr>"

text \<open>What is left out next: the rejections, a warning, the planner's metadata, the last candidate.\<close>

definition omit_next :: "omissions \<times> context_response \<Rightarrow> (omissions \<times> context_response) option" where
  "omit_next s =
     (case s of (om, r) \<Rightarrow>
        let pack = cr_pack r
        in if pk_rejected pack \<noteq> []
           then Some (om\<lparr>om_rejections := om_rejections om + length (pk_rejected pack)\<rparr>,
                      r\<lparr>cr_pack := pack\<lparr>pk_rejected := []\<rparr>\<rparr>)
           else if list_ex (\<lambda>w. \<not> is_budget_warning w) (cr_warnings r)
           then Some (om\<lparr>om_warnings := om_warnings om + 1\<rparr>,
                      r\<lparr>cr_warnings := remove_last (\<lambda>w. \<not> is_budget_warning w) (cr_warnings r)\<rparr>)
           else if cr_planner r \<noteq> None then Some (om\<lparr>om_planner := True\<rparr>, r\<lparr>cr_planner := None\<rparr>)
           else if pk_selected pack \<noteq> []
           then Some (om\<lparr>om_candidates := om_candidates om + 1\<rparr>,
                      r\<lparr>cr_pack := pack\<lparr>pk_selected := butlast (pk_selected pack)\<rparr>,
                        cr_contents := (cr_contents r)(cd_content_ref (last (pk_selected pack)) := None)\<rparr>)
           else None)"

definition too_small :: "u64 \<Rightarrow> context_error" where
  "too_small estimated =
     InvalidContextRequest (lit ''max_tokens'')
       (lit ''budget is too small for complete context metadata; at least '' @ show_nat (unat estimated) @
        lit '' estimated tokens are required'')"

text \<open>What can still be left out.\<close>

definition omissible :: "context_response \<Rightarrow> nat" where
  "omissible r =
     (if pk_rejected (cr_pack r) = [] then 0 else 1) + length (filter (\<lambda>w. \<not> is_budget_warning w) (cr_warnings r)) +
     (if cr_planner r = None then 0 else 1) + length (pk_selected (cr_pack r))"

text \<open>One round of the loop: the response with its size noted, and the size.\<close>

definition bound_round :: "planner_env \<Rightarrow> omissions \<times> context_response \<Rightarrow> context_error + context_response \<times> u64 \<times> u64" where
  "bound_round env s =
     (let r = note_omissions (fst s) (snd s)
      in case measured env r of
           Inl e \<Rightarrow> Inl e
         | Inr estimated \<Rightarrow>
             map_sum id (\<lambda>actual. (set_used estimated r, estimated, actual)) (encoded_context_tokens env (set_used estimated r)))"

lemma filter_remove_last:
  "length (filter P (remove_last P xs)) = (if list_ex P xs then length (filter P xs) - 1 else length (filter P xs))"
proof (induction xs)
  case (Cons x xs)
  then show ?case by (auto simp: list_ex_iff filter_empty_conv)
qed simp

lemma not_budget_filter: "filter (\<lambda>w. \<not> is_budget_warning w) (cr_warnings (note_omissions om r)) = filter (\<lambda>w. \<not> is_budget_warning w) (cr_warnings r)"
  by (simp add: note_omissions_def Let_def is_budget_warning_def budget_warning_def starts_with_iff)

lemma omissible_round: "bound_round env s = Inr (r, estimated, actual) \<Longrightarrow> omissible (exceeded r) = omissible (snd s)"
  using not_budget_filter [of "fst s" "snd s"]
  by (auto simp: bound_round_def Let_def map_sum_Inr omissible_def exceeded_def set_used_def note_omissions_def
      refresh_selection_diagnostics_def split: sum.splits)

lemma omit_next_smaller: "omit_next s = Some s' \<Longrightarrow> omissible (snd s') < omissible (snd s)"
proof -
  assume h: "omit_next s = Some s'"
  obtain om r where s: "s = (om, r)" by (cases s)
  let ?other = "\<lambda>w. \<not> is_budget_warning w"
  have "length (filter ?other (cr_warnings r)) > 0" if "list_ex ?other (cr_warnings r)"
    using that by (auto simp: list_ex_iff filter_empty_conv)
  then show ?thesis
    using h filter_remove_last [of ?other "cr_warnings r"]
    by (auto simp: s omit_next_def Let_def omissible_def split: if_splits)
qed

function bound_loop :: "planner_env \<Rightarrow> u64 \<Rightarrow> omissions \<times> context_response \<Rightarrow> context_error + context_response" where
  "bound_loop env hard_limit s =
     (case bound_round env s of
        Inl e \<Rightarrow> Inl e
      | Inr (r, estimated, actual) \<Rightarrow>
          if actual \<le> hard_limit then Inr r
          else (case omit_next (fst s, exceeded r) of
                  None \<Rightarrow> Inl (too_small estimated)
                | Some s' \<Rightarrow> bound_loop env hard_limit s'))"
  by pat_completeness auto
termination
  by (relation "measure (\<lambda>(env, hard_limit, s). omissible (snd s))")
    (auto dest!: omit_next_smaller omissible_round)

declare bound_loop.simps [simp del]

definition no_omissions :: omissions where
  "no_omissions = \<lparr>om_candidates = 0, om_rejections = 0, om_warnings = 0, om_planner = False\<rparr>"

definition estimated_source :: "context_response \<Rightarrow> context_response" where
  "estimated_source r = r\<lparr>cr_pack := (cr_pack r)\<lparr>pk_used := (pk_used (cr_pack r))\<lparr>tc_source := Estimate\<rparr>\<rparr>\<rparr>"

definition bound_context_response :: "planner_env \<Rightarrow> context_response \<Rightarrow> u64 \<Rightarrow> context_error + context_response" where
  "bound_context_response env response hard_limit = bound_loop env hard_limit (no_omissions, estimated_source response)"

section \<open>Fusion with contents\<close>

text \<open>One content per reference; a reference with two contents is an error.\<close>

fun collect_contents :: "(rstr \<rightharpoonup> rstr) \<Rightarrow> retrieved_candidate list \<Rightarrow> context_error + (rstr \<rightharpoonup> rstr)" where
  "collect_contents contents [] = Inr contents"
| "collect_contents contents (c # cs) =
     (case contents (cd_content_ref (rc_candidate c)) of
        None \<Rightarrow> collect_contents (contents(cd_content_ref (rc_candidate c) \<mapsto> rc_content c)) cs
      | Some old \<Rightarrow>
          if old \<noteq> rc_content c
          then Inl (InvariantError (lit ''one content reference resolved to different content''))
          else collect_contents contents cs)"

fun take_contents ::
  "(rstr \<rightharpoonup> rstr) \<Rightarrow> context_candidate list \<Rightarrow> (rstr \<rightharpoonup> rstr) \<Rightarrow> context_error + (rstr \<rightharpoonup> rstr)" where
  "take_contents contents [] taken = Inr taken"
| "take_contents contents (c # cs) taken =
     (case contents (cd_content_ref c) of
        None \<Rightarrow> Inl (InvariantError (lit ''selected content '' @ cd_content_ref c @ lit '' is unavailable''))
      | Some content \<Rightarrow>
          take_contents (contents(cd_content_ref c := None)) cs (taken(cd_content_ref c \<mapsto> content)))"

definition fusion_inputs :: "weighted_sources \<Rightarrow> fusion_input list" where
  "fusion_inputs sources =
     map (\<lambda>(weight, retrieved). \<lparr>fi_source_weight = weight, fi_candidates = map rc_candidate retrieved\<rparr>) sources"

definition fuse ::
  "planner_env \<Rightarrow> u64 \<Rightarrow> weighted_sources \<Rightarrow> context_warning list \<Rightarrow> fork_planner_metadata option \<Rightarrow>
   context_error + context_response" where
  "fuse env hard_token_limit sources warnings planner =
     (case collect_contents Map.empty (concat (map snd sources)) of
        Inl e \<Rightarrow> Inl e
      | Inr contents \<Rightarrow>
          let pack = plan (pe_drain env) (new_planner hard_token_limit) (fusion_inputs sources)
          in case take_contents contents (pk_selected pack) Map.empty of
               Inl e \<Rightarrow> Inl e
             | Inr selected_contents \<Rightarrow>
                 bound_context_response env
                   \<lparr>cr_pack = pack, cr_contents = selected_contents, cr_warnings = warnings, cr_planner = planner\<rparr>
                   hard_token_limit)"

section \<open>The plan\<close>

definition code_sources ::
  "planner_env \<Rightarrow> context_error + code_plan_result \<Rightarrow>
   ((weighted_sources \<times> context_warning list) \<times> fork_planner_metadata option) option" where
  "code_sources env code_result =
     (case code_result of
        Inr result \<Rightarrow> do {
          warnings \<leftarrow> push_warnings [] (cp_warnings result);
          acc \<leftarrow> add_sources ([], warnings) plan_weight (cp_sources result);
          Some (acc, cp_planner result)
        }
      | Inl e \<Rightarrow>
          map_option (\<lambda>warnings. (([], warnings), None))
            (push_warning [] \<lparr>cw_code = PlannerUnavailable, cw_message = pe_error_text env e\<rparr>))"

definition memory_sources ::
  "planner_env \<Rightarrow> rstr \<Rightarrow> rstr option \<Rightarrow> nat \<Rightarrow> memory_error + memory_record list \<Rightarrow>
   weighted_sources \<times> context_warning list \<Rightarrow> (weighted_sources \<times> context_warning list) option" where
  "memory_sources env project exact_topic limit memory_result acc =
     (case memory_result of
        Inr records \<Rightarrow> do {
          n \<leftarrow> normalize_memory (context_env.truncate env) (isolate_project_memories records project exact_topic limit);
          add_source acc memory_weight n
        }
      | Inl e \<Rightarrow>
          map_option (\<lambda>warnings. (fst acc, warnings))
            (push_warning (snd acc) \<lparr>cw_code = MemoryUnavailable, cw_message = pe_memory_error_text env e\<rparr>))"

text \<open>\<open>identity\<close> is the repository, or why the workspace cannot be read; no memory is asked for when the request says so.\<close>

definition plan_context ::
  "planner_env \<Rightarrow> u64 \<Rightarrow> plan_request \<Rightarrow> context_error + rstr \<Rightarrow> context_error + code_plan_result \<Rightarrow>
   (recall_request \<Rightarrow> memory_error + memory_record list) \<Rightarrow> (context_error + context_response) option" where
  "plan_context env hard_token_limit req identity code_result ask_memory =
     (case validate_plan_request env req of
        Inl e \<Rightarrow> Some (Inl e)
      | Inr _ \<Rightarrow>
     (case identity of
        Inl e \<Rightarrow> Some (Inl e)
      | Inr project \<Rightarrow>
     (case (case pq_topic req of None \<Rightarrow> Inr None | Some kind \<Rightarrow> map_sum id Some (namespaced_topic kind project)) of
        Inl e \<Rightarrow> Some (Inl (InvalidContextRequest (lit ''topic'') (pe_memory_error_text env e)))
      | Inr exact_topic \<Rightarrow> do {
          let call = (new_recall_request (pq_intent req))\<lparr>recall_topic := exact_topic,
                       recall_limit := recall_candidate_limit (pq_memory_limit req), recall_project := Some project\<rparr>;
          let memory_result = (if pq_no_memory req then Inr [] else ask_memory call);
          (acc, planner) \<leftarrow> code_sources env code_result;
          (sources, warnings) \<leftarrow> memory_sources env project exact_topic (pq_memory_limit req) memory_result acc;
          Some (fuse env (min (case pq_max_tokens req of None \<Rightarrow> hard_token_limit | Some n \<Rightarrow> n) hard_token_limit)
                  sources warnings planner)
        })))"

section \<open>The size of a response\<close>

text \<open>What the JSON library does with the token count: it prints it once, in decimal.\<close>

definition prints_used :: "planner_env \<Rightarrow> (context_response \<Rightarrow> nat) \<Rightarrow> bool" where
  "prints_used env base \<longleftrightarrow>
     (\<forall>r n. pe_encoded_bytes env (set_used n r) = Inr (base (set_used 0 r) + length (show_nat (unat n))) \<and>
        base r + 23 < 2 ^ 64)"

lemma length_show_times: "0 < n \<Longrightarrow> length (show_nat (10 * n)) = Suc (length (show_nat n))"
  by (simp add: show_nat.simps [of "10 * n"])

lemma length_show_near: "length (show_nat (n + 5)) \<le> Suc (length (show_nat n))"
proof (cases "n = 0")
  case True
  then show ?thesis by (simp add: show_nat.simps [of 5] show_nat.simps [of 0])
next
  case False
  then have "length (show_nat (n + 5)) \<le> length (show_nat (10 * n))" by (intro length_show_mono) simp
  then show ?thesis using False by (simp add: length_show_times)
qed

text \<open>Counting one's own digits settles within three steps.\<close>

lemma digits_settle:
  fixes b :: nat
  defines "f \<equiv> \<lambda>n. (b + length (show_nat n) + 3) div 4"
  assumes "n < 10 ^ 20" "b + 23 < 2 ^ 64"
  shows "f (f (f n)) = f (f (f (f n)))"
proof -
  define m where "m = (b + 4) div 4"
  define d where "d = length (show_nat m)"
  define F where "F = (\<lambda>k. (b + k + 3) div 4)"
  have mono: "x \<le> y \<Longrightarrow> f x \<le> f y" for x y unfolding f_def by (intro div_le_mono add_mono length_show_mono) simp_all
  have range: "m \<le> f x \<and> f x \<le> m + 5 \<and> f x < 10 ^ 20" if "x < 10 ^ 20" for x
  proof -
    have "1 \<le> length (show_nat x)" using show_nat_digits [of x] by (cases "show_nat x") simp_all
    moreover have "length (show_nat x) \<le> 20" using length_show [of x 19] that by simp
    ultimately have "(b + 4) div 4 \<le> f x" "f x \<le> (b + 4 + 5 * 4) div 4"
      unfolding f_def by (intro div_le_mono; simp)+
    moreover have "(b + 4 + 5 * 4) div 4 = m + 5" by (simp only: m_def div_mult_self1)
    moreover have "m + 5 < 10 ^ 20" using assms(3) by (simp add: m_def)
    ultimately show ?thesis by (simp add: m_def)
  qed
  have two: "f x = F d \<or> f x = F (Suc d)" if "m \<le> x" "x \<le> m + 5" for x
  proof -
    have "d \<le> length (show_nat x)" "length (show_nat x) \<le> Suc d"
      using length_show_mono [OF that(1)] length_show_mono [OF that(2)] length_show_near [of m] by (simp_all add: d_def)
    then have "length (show_nat x) = d \<or> length (show_nat x) = Suc d" by linarith
    then show ?thesis by (auto simp: f_def F_def)
  qed
  define A B C where "A = f n" and "B = f A" and "C = f B"
  have r: "m \<le> A" "A \<le> m + 5" "A < 10 ^ 20" "m \<le> B" "B \<le> m + 5" "B < 10 ^ 20" "m \<le> C" "C \<le> m + 5"
    using range [OF assms(2)] range [of A] range [of B] by (auto simp: A_def B_def C_def)
  have v: "B = F d \<or> B = F (Suc d)" "C = F d \<or> C = F (Suc d)" "f C = F d \<or> f C = F (Suc d)"
    using two r by (simp_all add: B_def C_def)
  have "F d \<le> F (Suc d)" by (simp add: F_def)
  moreover have "B \<le> C \<longrightarrow> C \<le> f C" "C \<le> B \<longrightarrow> f C \<le> C" using mono by (simp_all add: C_def)
  ultimately have "C = f C" using v by (metis le_antisym linorder_linear)
  then show ?thesis by (simp add: A_def B_def C_def)
qed

lemma tokens_of_used:
  assumes "prints_used env base"
  shows "encoded_context_tokens env (set_used n r) =
    Inr (of_nat ((base (set_used 0 r) + length (show_nat (unat n)) + 3) div 4))"
  using assms by (simp add: prints_used_def encoded_context_tokens_def)

lemma set_used_twice [simp]: "set_used n (set_used m r) = set_used n r"
  by (simp add: set_used_def)

lemma set_used_self: "set_used (tc_value (pk_used (cr_pack r))) r = r"
  by (simp add: set_used_def)

text \<open>The loop with its four rounds ends at the exact count.\<close>

lemma measured_exact:
  assumes "prints_used env base"
  obtains e where "measured env r = Inr e" "encoded_context_tokens env (set_used e r) = Inr e"
proof -
  define b where "b = base (set_used 0 r)"
  define f where "f = (\<lambda>n. (b + length (show_nat n) + 3) div 4)"
  define g where "g = (\<lambda>x :: u64. of_nat (f (unat x)) :: u64)"
  have b: "b + 23 < 2 ^ 64" using assms by (simp add: prints_used_def b_def)
  have short: "length (show_nat (unat x)) \<le> 20" for x :: u64
    using length_show [of "unat x" 19] unat_less [of x] by simp
  have u: "unat (g x) = f (unat x)" for x
  proof -
    have "f (unat x) < 2 ^ 64" using short [of x] b by (simp add: f_def)
    then show ?thesis by (simp add: g_def unsigned_of_nat take_bit_nat_eq_self)
  qed
  have enc: "encoded_context_tokens env (set_used x r) = Inr (g x)" for x
    using tokens_of_used [OF assms] by (simp add: g_def f_def b_def)
  define x where "x = tc_value (pk_used (cr_pack r))"
  have start: "encoded_context_tokens env r = Inr (g x)" using enc [of x] by (simp add: x_def set_used_self)
  have "unat x < 10 ^ 20" using unat_less [of x] by simp
  then have "unat (g (g (g x))) = unat (g (g (g (g x))))"
    using digits_settle [of "unat x" b] b unfolding u f_def by simp
  then have stable: "g (g (g (g x))) = g (g (g x))" by (simp add: word_unat_eq_iff)
  have "measured env r = settle_used env 4 (g x) r" by (simp add: measured_def start)
  also have "\<dots> = Inr (if g (g x) = g x then g x else if g (g (g x)) = g (g x) then g (g x) else g (g (g x)))"
    by (simp add: numeral_eq_Suc enc stable)
  finally show thesis by (rule that) (use enc stable in auto)
qed

section \<open>What the budget leaves\<close>

text \<open>A reduction of a response: evidence is dropped whole and from the end, its content goes with it and stays as it is
  otherwise, and none is dropped before everything else is.\<close>

definition reduced :: "context_response \<Rightarrow> omissions \<Rightarrow> context_response \<Rightarrow> bool" where
  "reduced R om r \<longleftrightarrow>
     (\<exists>dropped. pk_selected (cr_pack R) = pk_selected (cr_pack r) @ dropped \<and> length dropped = om_candidates om) \<and>
     cr_contents r = cr_contents R |` (cd_content_ref ` set (pk_selected (cr_pack r))) \<and>
     pk_rejected (cr_pack r) \<in> {[], pk_rejected (cr_pack R)} \<and> cr_planner r \<in> {None, cr_planner R} \<and>
     (0 < om_candidates om \<longrightarrow> pk_rejected (cr_pack r) = [] \<and> cr_planner r = None \<and> list_all is_budget_warning (cr_warnings r))"

lemma is_budget_warning_note [simp]: "is_budget_warning (budget_warning om)"
  by (simp add: is_budget_warning_def budget_warning_def starts_with_iff)

lemma reduced_note: "reduced R om r \<Longrightarrow> reduced R om (set_used n (note_omissions om' r))"
  by (auto simp: reduced_def set_used_def note_omissions_def Let_def refresh_selection_diagnostics_def list_all_iff)

lemma reduced_exceeded: "reduced R om r \<Longrightarrow> reduced R om (exceeded r)"
  by (simp add: reduced_def exceeded_def)

lemma remove_last_none: "\<not> list_ex P xs \<Longrightarrow> remove_last P xs = xs"
  by (induction xs) simp_all

lemma reduced_drop:
  assumes "reduced R om r" "distinct (map cd_content_ref (pk_selected (cr_pack R)))" "pk_selected (cr_pack r) \<noteq> []"
    and "pk_rejected (cr_pack r) = []" "cr_planner r = None" "list_all is_budget_warning (cr_warnings r)"
  shows "reduced R (om\<lparr>om_candidates := om_candidates om + 1\<rparr>)
    (r\<lparr>cr_pack := (cr_pack r)\<lparr>pk_selected := butlast (pk_selected (cr_pack r))\<rparr>,
       cr_contents := (cr_contents r)(cd_content_ref (last (pk_selected (cr_pack r))) := None)\<rparr>)"
proof -
  obtain xs c where s: "pk_selected (cr_pack r) = xs @ [c]" using assms(3) by (metis append_butlast_last_id)
  obtain dropped where d: "pk_selected (cr_pack R) = (xs @ [c]) @ dropped" "length dropped = om_candidates om"
    using assms(1) s by (auto simp: reduced_def)
  have "cd_content_ref c \<notin> cd_content_ref ` set xs" using assms(2) d(1) by auto
  then have "(cr_contents R |` (cd_content_ref ` set (xs @ [c])))(cd_content_ref c := None) =
      cr_contents R |` (cd_content_ref ` set xs)"
    by (auto simp: restrict_map_def fun_eq_iff)
  moreover have "\<exists>dr. pk_selected (cr_pack R) = xs @ dr \<and> length dr = Suc (om_candidates om)"
    using d by (intro exI [of _ "c # dropped"]) simp
  ultimately show ?thesis using assms(1,4-6) s by (simp add: reduced_def)
qed

lemma reduced_omit:
  assumes "reduced R om r" "distinct (map cd_content_ref (pk_selected (cr_pack R)))" "omit_next (om, r) = Some (om', r')"
  shows "reduced R om' r'"
proof (cases "pk_rejected (cr_pack r) = [] \<and> \<not> list_ex (\<lambda>w. \<not> is_budget_warning w) (cr_warnings r) \<and> cr_planner r = None")
  case True
  then have w: "list_all is_budget_warning (cr_warnings r)" by (auto simp: list_all_iff list_ex_iff)
  show ?thesis
    using assms(3) True reduced_drop [OF assms(1,2) _ _ _ w] by (auto simp: omit_next_def Let_def split: if_splits)
next
  case False
  then have "om_candidates om = 0" using assms(1) by (auto simp: reduced_def list_all_iff list_ex_iff)
  then show ?thesis using assms(1,3) False by (auto simp: omit_next_def Let_def reduced_def split: if_splits)
qed

lemma omit_next_None: "omit_next (om, r) = None \<longleftrightarrow> omissible r = 0"
  by (auto simp: omit_next_def Let_def omissible_def list_ex_iff filter_empty_conv)

lemma bound_round_ok:
  assumes "prints_used env base"
  obtains r e where "bound_round env s = Inr (r, e, e)" "encoded_context_tokens env r = Inr e"
    "tc_value (pk_used (cr_pack r)) = e" "r = set_used e (note_omissions (fst s) (snd s))"
proof -
  obtain e where e: "measured env (note_omissions (fst s) (snd s)) = Inr e"
    "encoded_context_tokens env (set_used e (note_omissions (fst s) (snd s))) = Inr e"
    using measured_exact [OF assms] by blast
  then show thesis by (intro that [of "set_used e (note_omissions (fst s) (snd s))" e]) (simp_all add: bound_round_def Let_def set_used_def)
qed

lemma bound_loop_ok:
  assumes "prints_used env base" "distinct (map cd_content_ref (pk_selected (cr_pack R)))" "reduced R (fst s) (snd s)"
  shows "(\<exists>r om. bound_loop env limit s = Inr r \<and> reduced R om r \<and>
      encoded_context_tokens env r = Inr (tc_value (pk_used (cr_pack r))) \<and> tc_value (pk_used (cr_pack r)) \<le> limit) \<or>
    (\<exists>r om. bound_loop env limit s = Inl (too_small (tc_value (pk_used (cr_pack r)))) \<and> reduced R om r \<and> omissible r = 0 \<and>
      encoded_context_tokens env r = Inr (tc_value (pk_used (cr_pack r))) \<and> limit < tc_value (pk_used (cr_pack r)))"
  using assms
proof (induction env limit s rule: bound_loop.induct)
  case (1 env limit s)
  obtain r e where r: "bound_round env s = Inr (r, e, e)" "encoded_context_tokens env r = Inr e"
    "tc_value (pk_used (cr_pack r)) = e" "r = set_used e (note_omissions (fst s) (snd s))"
    by (rule bound_round_ok [OF 1(2), of s])
  have red: "reduced R (fst s) r" unfolding r(4) by (rule reduced_note [OF 1(4)])
  show ?case
  proof (cases "e \<le> limit")
    case True
    then have "bound_loop env limit s = Inr r" by (simp add: bound_loop.simps [of env limit s] r(1))
    then show ?thesis using True red r(2,3) by blast
  next
    case False
    show ?thesis
    proof (cases "omit_next (fst s, exceeded r)")
      case None
      then have "bound_loop env limit s = Inl (too_small e)" using False by (simp add: bound_loop.simps [of env limit s] r(1))
      moreover have "omissible r = 0" using None by (simp add: omit_next_None omissible_def exceeded_def)
      ultimately show ?thesis using False red r(2,3) by (metis not_le)
    next
      case (Some s')
      have "reduced R (fst s') (snd s')"
        using reduced_omit [OF reduced_exceeded [OF red] 1(3), of "fst s'" "snd s'"] Some by simp
      moreover have "bound_loop env limit s = bound_loop env limit s'"
        using False Some by (simp add: bound_loop.simps [of env limit s] r(1))
      ultimately show ?thesis using "1.IH" [OF r(1) refl refl False Some 1(2,3)] by simp
    qed
  qed
qed

section \<open>Contents\<close>

abbreviation ref_of :: "retrieved_candidate \<Rightarrow> rstr" where
  "ref_of c \<equiv> cd_content_ref (rc_candidate c)"

lemma collect_contents_Inr:
  "collect_contents m cs = Inr m' \<Longrightarrow> m \<subseteq>\<^sub>m m' \<and> (\<forall>c \<in> set cs. m' (ref_of c) = Some (rc_content c))"
proof (induction cs arbitrary: m)
  case (Cons c cs)
  show ?case
  proof (cases "m (ref_of c)")
    case None
    then have "collect_contents (m(ref_of c \<mapsto> rc_content c)) cs = Inr m'" using Cons.prems by simp
    note Cons.IH [OF this]
    then show ?thesis using None by (auto simp: map_le_def dom_def split: if_splits)
  next
    case (Some old)
    then have "m \<subseteq>\<^sub>m m'" "\<forall>c \<in> set cs. m' (ref_of c) = Some (rc_content c)" "old = rc_content c"
      using Cons.IH [of m] Cons.prems by (simp_all split: if_splits)
    then show ?thesis using Some by (auto simp: map_le_def dom_def)
  qed
qed simp

definition content_conflict :: context_error where
  "content_conflict = InvariantError (lit ''one content reference resolved to different content'')"

lemma collect_contents_Inl:
  assumes "collect_contents m cs = Inl e" "\<forall>k v. m k = Some v \<longrightarrow> (\<exists>a \<in> A. ref_of a = k \<and> rc_content a = v)"
  shows "e = content_conflict \<and> (\<exists>a b. {a, b} \<subseteq> A \<union> set cs \<and> ref_of a = ref_of b \<and> rc_content a \<noteq> rc_content b)"
  using assms
proof (induction cs arbitrary: m A)
  case (Cons c cs)
  show ?case
  proof (cases "m (ref_of c)")
    case None
    have "\<forall>k v. (m(ref_of c \<mapsto> rc_content c)) k = Some v \<longrightarrow> (\<exists>a \<in> insert c A. ref_of a = k \<and> rc_content a = v)"
      using Cons.prems(2) by auto
    moreover have "collect_contents (m(ref_of c \<mapsto> rc_content c)) cs = Inl e" using Cons.prems(1) None by simp
    ultimately show ?thesis using Cons.IH [of "m(ref_of c \<mapsto> rc_content c)" "insert c A"] by (simp del: fun_upd_apply)
  next
    case (Some old)
    then obtain a where a: "a \<in> A" "ref_of a = ref_of c" "rc_content a = old" using Cons.prems(2) by blast
    show ?thesis
    proof (cases "old = rc_content c")
      case True
      from Cons.IH [of m A] Cons.prems True Some show ?thesis by auto
    next
      case False
      then have "e = content_conflict" using Cons.prems(1) Some by (simp add: content_conflict_def)
      moreover have "{a, c} \<subseteq> A \<union> set (c # cs) \<and> ref_of a = ref_of c \<and> rc_content a \<noteq> rc_content c" using a False by simp
      ultimately show ?thesis by blast
    qed
  qed
qed simp

lemma take_contents_ok:
  assumes "distinct (map cd_content_ref cs)" "cd_content_ref ` set cs \<subseteq> dom contents"
  shows "take_contents contents cs taken = Inr (taken ++ contents |` (cd_content_ref ` set cs))"
  using assms
proof (induction cs arbitrary: contents taken)
  case (Cons c cs)
  obtain v where v: "contents (cd_content_ref c) = Some v" using Cons.prems(2) by auto
  let ?m = "contents(cd_content_ref c := None)"
  have "cd_content_ref ` set cs \<subseteq> dom ?m" using Cons.prems by (simp add: subset_Diff_insert)
  then have "take_contents ?m cs (taken(cd_content_ref c \<mapsto> v)) =
      Inr (taken(cd_content_ref c \<mapsto> v) ++ ?m |` (cd_content_ref ` set cs))"
    by (rule Cons.IH [rotated]) (use Cons.prems(1) in simp)
  moreover have "taken(cd_content_ref c \<mapsto> v) ++ ?m |` (cd_content_ref ` set cs) =
      taken ++ contents |` (cd_content_ref ` set (c # cs))"
    using v Cons.prems(1) by (auto simp: map_add_def restrict_map_def fun_eq_iff split: option.splits)
  ultimately show ?case using v by simp
qed simp

lemma fold_entry_keys:
  "fst ` set (foldl (\<lambda>acc c. fuse_entry c (g c) acc) fs cs) = fst ` set fs \<union> cd_content_ref ` set cs"
proof (induction cs arbitrary: fs)
  case (Cons c cs)
  have "fst ` set (fuse_entry c x fs) = insert (cd_content_ref c) (fst ` set fs)" for x
    using arg_cong [OF fuse_entry_keys [of c x fs], of set] by (auto split: if_splits)
  then show ?case using Cons by auto
qed simp

lemma fused_keys: "fst ` set (fuse_sources sources) = cd_content_ref ` (\<Union>s \<in> set sources. set (fi_candidates s))"
proof -
  have "fst ` set (foldl fuse_source fs sources) = fst ` set fs \<union> cd_content_ref ` (\<Union>s \<in> set sources. set (fi_candidates s))" for fs
    by (induction sources arbitrary: fs) (auto simp: fuse_source_def Let_def fold_entry_keys)
  then show ?thesis by (simp add: fuse_sources_def)
qed

text \<open>What is selected was retrieved.\<close>

lemma selected_refs:
  assumes "mset (drain (fuse_sources inputs)) = mset (fuse_sources inputs)"
  shows "cd_content_ref ` set (pk_selected (plan drain p inputs)) \<subseteq> fst ` set (fuse_sources inputs)"
    and "distinct (map cd_content_ref (pk_selected (plan drain p inputs)))"
proof -
  have "subseq (fl_selected (fill p (ranked drain inputs))) (ranked drain inputs)" by (rule fill_subseq)
  then have sub: "subseq (pk_selected (plan drain p inputs)) (ranked drain inputs)" by (simp add: plan_def Let_def)
  then show "distinct (map cd_content_ref (pk_selected (plan drain p inputs)))"
    using subseq_map [OF sub, of cd_content_ref] ranked_distinct [of drain inputs, OF assms] subseq_distinct by blast
  have "set (pk_selected (plan drain p inputs)) \<subseteq> set (map scored_candidate (fuse_sources inputs))"
    using sub mset_eq_setD [OF ranked_ids [of drain inputs, OF assms]] by (auto dest: list_emb_set)
  moreover have "cd_content_ref ` set (map scored_candidate (fuse_sources inputs)) = fst ` set (fuse_sources inputs)"
  proof -
    have "map cd_content_ref (map scored_candidate (fuse_sources inputs)) = map fst (fuse_sources inputs)"
      using keyed_sources [of inputs] by (intro scored_refs) (simp add: keyed_def)
    from arg_cong [OF this, of set] show ?thesis by (simp only: set_map)
  qed
  ultimately show "cd_content_ref ` set (pk_selected (plan drain p inputs)) \<subseteq> fst ` set (fuse_sources inputs)" by blast
qed

section \<open>Panics\<close>

lemma bounded_message_total: "\<exists>m. bounded_message message = Some m"
  using boundary_down_ok [of message] by (auto simp: bounded_message_def is_char_boundary_def)

lemma push_warnings_total: "\<exists>ws. push_warnings warnings new = Some ws"
proof (induction new arbitrary: warnings)
  case (Cons w new)
  obtain ws where "push_warning warnings w = Some ws"
    using bounded_message_total [of "cw_message w"] by (auto simp: push_warning_def)
  then show ?case using Cons by simp
qed simp

lemma push_warning_total: "\<exists>ws. push_warning warnings w = Some ws"
  using push_warnings_total [of warnings "[w]"] by (auto simp: bind_eq_Some_conv)

lemma add_source_total: "\<exists>acc'. add_source acc weight n = Some acc'"
  using push_warnings_total [of "snd acc" "ns_warnings n"] by (auto simp: add_source_def)

lemma add_sources_total: "\<exists>acc'. add_sources acc weight ns = Some acc'"
proof (induction ns arbitrary: acc)
  case (Cons n ns)
  then show ?case using add_source_total [of acc weight n] by auto
qed simp

lemma code_sources_total: "\<exists>x. code_sources env code_result = Some x"
proof (cases code_result)
  case (Inl e)
  then show ?thesis using push_warning_total by (simp add: code_sources_def)
next
  case (Inr result)
  obtain ws where "push_warnings [] (cp_warnings result) = Some ws" using push_warnings_total by blast
  then show ?thesis using Inr add_sources_total [of "([], ws)" plan_weight "cp_sources result"] by (auto simp: code_sources_def)
qed

lemma memory_sources_total: "\<exists>x. memory_sources env project topic limit memory_result acc = Some x"
proof (cases memory_result)
  case (Inl e)
  then show ?thesis using push_warning_total by (simp add: memory_sources_def)
next
  case (Inr records)
  obtain n where "normalize_memory (context_env.truncate env) (isolate_project_memories records project topic limit) = Some n"
    using memory_candidates_total unfolding normalize_memory_def by blast
  then show ?thesis using Inr add_source_total [of acc memory_weight n] by (auto simp: memory_sources_def)
qed

section \<open>Properties\<close>

lemma reduced_refl: "dom (cr_contents R) = cd_content_ref ` set (pk_selected (cr_pack R)) \<Longrightarrow> reduced R no_omissions (estimated_source R)"
  by (auto simp: reduced_def no_omissions_def estimated_source_def restrict_map_def fun_eq_iff domIff)

text \<open>The response before it is reduced: the pack with the contents of its evidence.\<close>

lemma fuse_unreduced:
  fixes limit warnings planner
  assumes "mset (pe_drain env (fuse_sources (fusion_inputs sources))) = mset (fuse_sources (fusion_inputs sources))"
    and "collect_contents Map.empty (concat (map snd sources)) = Inr contents"
  defines "pack \<equiv> plan (pe_drain env) (new_planner limit) (fusion_inputs sources)"
  defines "R \<equiv> \<lparr>cr_pack = pack, cr_contents = contents |` (cd_content_ref ` set (pk_selected pack)),
      cr_warnings = warnings, cr_planner = planner\<rparr>"
  shows "fuse env limit sources warnings planner = bound_loop env limit (no_omissions, estimated_source R)"
    and "reduced R no_omissions (estimated_source R)" and "distinct (map cd_content_ref (pk_selected pack))"
    and "cd_content_ref ` set (pk_selected pack) \<subseteq> dom contents"
proof -
  have got: "\<forall>c \<in> set (concat (map snd sources)). contents (ref_of c) = Some (rc_content c)"
    using collect_contents_Inr [OF assms(2)] by blast
  have keys: "fst ` set (fuse_sources (fusion_inputs sources)) = ref_of ` set (concat (map snd sources))"
    unfolding fused_keys fusion_inputs_def by (auto simp: image_iff) force+
  note sel = selected_refs [of "pe_drain env" "fusion_inputs sources" "new_planner limit", OF assms(1), folded pack_def]
  show sub: "cd_content_ref ` set (pk_selected pack) \<subseteq> dom contents" using sel(1) got unfolding keys by auto
  show "distinct (map cd_content_ref (pk_selected pack))" by (rule sel(2))
  have taken: "take_contents contents (pk_selected pack) Map.empty = Inr (contents |` (cd_content_ref ` set (pk_selected pack)))"
    using take_contents_ok [OF sel(2) sub, of Map.empty] by simp
  show "fuse env limit sources warnings planner = bound_loop env limit (no_omissions, estimated_source R)"
    unfolding fuse_def assms(2) Let_def sum.case pack_def [symmetric] taken bound_context_response_def R_def ..
  have "dom (cr_contents R) = cd_content_ref ` set (pk_selected (cr_pack R))" using sub by (auto simp: R_def)
  then show "reduced R no_omissions (estimated_source R)" by (rule reduced_refl)
qed

lemma reduced_delivers:
  assumes "reduced R om r" "cr_contents R = contents |` (cd_content_ref ` set (pk_selected (cr_pack R)))"
    and "cd_content_ref ` set (pk_selected (cr_pack R)) \<subseteq> dom contents"
  shows "prefix (pk_selected (cr_pack r)) (pk_selected (cr_pack R)) \<and>
    dom (cr_contents r) = cd_content_ref ` set (pk_selected (cr_pack r)) \<and> cr_contents r \<subseteq>\<^sub>m contents \<and>
    (pk_selected (cr_pack r) = pk_selected (cr_pack R) \<or>
      pk_rejected (cr_pack r) = [] \<and> cr_planner r = None \<and> list_all is_budget_warning (cr_warnings r))"
proof -
  obtain dropped where d: "pk_selected (cr_pack R) = pk_selected (cr_pack r) @ dropped" "length dropped = om_candidates om"
    using assms(1) by (auto simp: reduced_def)
  have "cd_content_ref ` set (pk_selected (cr_pack R)) \<inter> cd_content_ref ` set (pk_selected (cr_pack r)) =
      cd_content_ref ` set (pk_selected (cr_pack r))" using d(1) by auto
  then have contents: "cr_contents r = contents |` (cd_content_ref ` set (pk_selected (cr_pack r)))"
    using assms(1,2) by (simp add: reduced_def)
  moreover have "dom (cr_contents r) = cd_content_ref ` set (pk_selected (cr_pack r))"
    using assms(3) d(1) by (auto simp: contents)
  moreover have "pk_selected (cr_pack r) = pk_selected (cr_pack R) \<or>
      pk_rejected (cr_pack r) = [] \<and> cr_planner r = None \<and> list_all is_budget_warning (cr_warnings r)"
    using assms(1) d by (cases dropped) (auto simp: reduced_def)
  ultimately show ?thesis using d(1) by (auto simp: prefix_def map_le_def restrict_map_def)
qed

lemma fuse_within:
  assumes "prints_used env base" "mset (pe_drain env (fuse_sources (fusion_inputs sources))) = mset (fuse_sources (fusion_inputs sources))"
    and "fuse env limit sources warnings planner = Inr r"
  shows "encoded_context_tokens env r = Inr (tc_value (pk_used (cr_pack r))) \<and> tc_value (pk_used (cr_pack r)) \<le> limit"
    and "prefix (pk_selected (cr_pack r)) (pk_selected (plan (pe_drain env) (new_planner limit) (fusion_inputs sources)))"
proof -
  obtain contents where Inr: "collect_contents Map.empty (concat (map snd sources)) = Inr contents"
    using assms(3) by (cases "collect_contents Map.empty (concat (map snd sources))") (simp_all add: fuse_def)
  let ?pack = "plan (pe_drain env) (new_planner limit) (fusion_inputs sources)"
  let ?R = "\<lparr>cr_pack = ?pack, cr_contents = contents |` (cd_content_ref ` set (pk_selected ?pack)),
      cr_warnings = warnings, cr_planner = planner\<rparr>"
  note un = fuse_unreduced(1,2) [where limit = limit and warnings = warnings and planner = planner, OF assms(2) Inr]
    fuse_unreduced(3) [where limit = limit, OF assms(2) Inr]
  have ok: "encoded_context_tokens env r = Inr (tc_value (pk_used (cr_pack r))) \<and> tc_value (pk_used (cr_pack r)) \<le> limit \<and>
      (\<exists>om. reduced ?R om r)"
    using bound_loop_ok [OF assms(1), of ?R "(no_omissions, estimated_source ?R)" limit] un assms(3) by auto
  then show "encoded_context_tokens env r = Inr (tc_value (pk_used (cr_pack r))) \<and> tc_value (pk_used (cr_pack r)) \<le> limit" by blast
  show "prefix (pk_selected (cr_pack r)) (pk_selected ?pack)" using ok by (auto simp: reduced_def prefix_def)
qed

text \<open>C12: Fusing retrieved sources into a response has three outcomes. The response fits the budget: the tokens it reports are
  exactly those of its own encoding and within the limit; its evidence is a beginning of the plan's, each piece with
  the whole content that was retrieved for it and with no other content; and a piece of evidence is left out only when
  nothing else is left to leave out. Or not even the bare response fits, which is reported with the tokens it needs. Or
  two sources gave different contents for one reference. Selected evidence is never without its content.\<close>

theorem fuse_outcomes:
  assumes "prints_used env base"
    and "mset (pe_drain env (fuse_sources (fusion_inputs sources))) = mset (fuse_sources (fusion_inputs sources))"
  shows "(\<exists>r. fuse env limit sources warnings planner = Inr r \<and>
      encoded_context_tokens env r = Inr (tc_value (pk_used (cr_pack r))) \<and> tc_value (pk_used (cr_pack r)) \<le> limit \<and>
      prefix (pk_selected (cr_pack r)) (pk_selected (plan (pe_drain env) (new_planner limit) (fusion_inputs sources))) \<and>
      dom (cr_contents r) = cd_content_ref ` set (pk_selected (cr_pack r)) \<and>
      (\<forall>c \<in> set (concat (map snd sources)). ref_of c \<in> dom (cr_contents r) \<longrightarrow> cr_contents r (ref_of c) = Some (rc_content c)) \<and>
      (pk_selected (cr_pack r) = pk_selected (plan (pe_drain env) (new_planner limit) (fusion_inputs sources)) \<or>
        pk_rejected (cr_pack r) = [] \<and> cr_planner r = None \<and> list_all is_budget_warning (cr_warnings r))) \<or>
    (\<exists>r. fuse env limit sources warnings planner = Inl (too_small (tc_value (pk_used (cr_pack r)))) \<and> omissible r = 0 \<and>
      encoded_context_tokens env r = Inr (tc_value (pk_used (cr_pack r))) \<and> limit < tc_value (pk_used (cr_pack r))) \<or>
    (\<exists>a b. fuse env limit sources warnings planner = Inl content_conflict \<and> {a, b} \<subseteq> set (concat (map snd sources)) \<and>
      ref_of a = ref_of b \<and> rc_content a \<noteq> rc_content b)"
proof (cases "collect_contents Map.empty (concat (map snd sources))")
  case (Inl e)
  then have "fuse env limit sources warnings planner = Inl e" by (simp add: fuse_def)
  then show ?thesis using collect_contents_Inl [OF Inl, of "{}"] by auto
next
  case (Inr contents)
  let ?pack = "plan (pe_drain env) (new_planner limit) (fusion_inputs sources)"
  define R where "R = \<lparr>cr_pack = ?pack, cr_contents = contents |` (cd_content_ref ` set (pk_selected ?pack)),
      cr_warnings = warnings, cr_planner = planner\<rparr>"
  note un = fuse_unreduced(1,2) [where limit = limit and warnings = warnings and planner = planner, OF assms(2) Inr, folded R_def]
    fuse_unreduced(3,4) [where limit = limit, OF assms(2) Inr]
  have R: "cr_pack R = ?pack" "cr_contents R = contents |` (cd_content_ref ` set (pk_selected (cr_pack R)))"
    by (simp_all add: R_def)
  have got: "\<forall>c \<in> set (concat (map snd sources)). contents (ref_of c) = Some (rc_content c)"
    using collect_contents_Inr [OF Inr] by blast
  consider r om where "fuse env limit sources warnings planner = Inr r" "reduced R om r"
      "encoded_context_tokens env r = Inr (tc_value (pk_used (cr_pack r)))" "tc_value (pk_used (cr_pack r)) \<le> limit"
    | r where "fuse env limit sources warnings planner = Inl (too_small (tc_value (pk_used (cr_pack r))))" "omissible r = 0"
      "encoded_context_tokens env r = Inr (tc_value (pk_used (cr_pack r)))" "limit < tc_value (pk_used (cr_pack r))"
    using bound_loop_ok [OF assms(1), of R "(no_omissions, estimated_source R)" limit] un(2,3) unfolding un(1) R(1) by auto
  then show ?thesis
  proof cases
    case 1
    have sub: "cd_content_ref ` set (pk_selected (cr_pack R)) \<subseteq> dom contents" using un(4) by (simp only: R(1))
    note del = reduced_delivers [OF 1(2) R(2) sub, unfolded R(1)]
    have "\<forall>c \<in> set (concat (map snd sources)). ref_of c \<in> dom (cr_contents r) \<longrightarrow> cr_contents r (ref_of c) = Some (rc_content c)"
      using got del by (auto simp: map_le_def)
    then show ?thesis using 1(1,3,4) del by blast
  qed blast
qed

text \<open>C21: Planning context never panics, and whatever the sources answer, a plan that is given is within the configured
  limit and within the limit of the request, with its size reported exactly.\<close>

theorem plan_context_bounded:
  assumes "prints_used env base" "\<forall>fs. mset (pe_drain env fs) = mset fs"
  shows "\<exists>result. plan_context env limit req identity code_result ask_memory = Some result \<and>
    (\<forall>r. result = Inr r \<longrightarrow>
       encoded_context_tokens env r = Inr (tc_value (pk_used (cr_pack r))) \<and> tc_value (pk_used (cr_pack r)) \<le> limit \<and>
       (\<forall>n. pq_max_tokens req = Some n \<longrightarrow> tc_value (pk_used (cr_pack r)) \<le> n))"
proof -
  have fused: "encoded_context_tokens env r = Inr (tc_value (pk_used (cr_pack r))) \<and> tc_value (pk_used (cr_pack r)) \<le> m"
    if "fuse env m sources warnings planner = Inr r" for m sources warnings planner r
    using fuse_within(1) [OF assms(1) _ that] assms(2) by blast
  show ?thesis
  proof (cases "validate_plan_request env req")
    case (Inr u)
    note valid = Inr
    show ?thesis
    proof (cases identity)
      case project: (Inr project)
      obtain acc pl where c: "code_sources env code_result = Some (acc, pl)" using code_sources_total by fastforce
      show ?thesis
      proof (cases "case pq_topic req of None \<Rightarrow> Inr None | Some kind \<Rightarrow> map_sum id Some (namespaced_topic kind project)")
        case (Inr topic)
        let ?call = "(new_recall_request (pq_intent req))\<lparr>recall_topic := topic,
            recall_limit := recall_candidate_limit (pq_memory_limit req), recall_project := Some project\<rparr>"
        obtain src ws where m: "memory_sources env project topic (pq_memory_limit req)
            (if pq_no_memory req then Inr [] else ask_memory ?call) acc = Some (src, ws)"
          using memory_sources_total by fastforce
        let ?m = "min (case pq_max_tokens req of None \<Rightarrow> limit | Some n \<Rightarrow> n) limit"
        have p: "plan_context env limit req identity code_result ask_memory = Some (fuse env ?m src ws pl)"
          unfolding plan_context_def valid project c sum.case Inr Let_def m by (simp add: c m)
        have "?m \<le> limit" "\<And>n. pq_max_tokens req = Some n \<Longrightarrow> ?m \<le> n" by simp_all
        then show ?thesis using fused [of ?m src ws pl] unfolding p by (blast intro: order_trans)
      qed (simp add: plan_context_def valid project)
    qed (simp add: plan_context_def valid)
  qed (simp add: plan_context_def)
qed

section \<open>Where evidence comes from\<close>

definition fused_candidates :: "fused \<Rightarrow> context_candidate set" where
  "fused_candidates fs = set (map (fst \<circ> snd) fs)"

lemma fuse_entry_mem: "fused_candidates (fuse_entry c x fs) \<subseteq> insert c (fused_candidates fs)"
proof (induction fs)
  case (Cons e fs)
  then show ?case by (cases e) (auto simp: fused_candidates_def)
qed (simp add: fused_candidates_def)

lemma fold_entry_mem:
  "fused_candidates (foldl (\<lambda>acc c. fuse_entry c (g c) acc) fs cs) \<subseteq> set cs \<union> fused_candidates fs"
proof (induction cs arbitrary: fs)
  case (Cons c cs)
  show ?case using Cons.IH [of "fuse_entry c (g c) fs"] fuse_entry_mem [of c "g c" fs] by auto
qed simp

lemma fused_mem: "fused_candidates (fuse_sources sources) \<subseteq> (\<Union>s \<in> set sources. set (fi_candidates s))"
proof -
  have "fused_candidates (foldl fuse_source fs sources) \<subseteq> (\<Union>s \<in> set sources. set (fi_candidates s)) \<union> fused_candidates fs" for fs
  proof (induction sources arbitrary: fs)
    case (Cons s sources)
    have "fused_candidates (fuse_source fs s) \<subseteq> set (fi_candidates s) \<union> fused_candidates fs"
      unfolding fuse_source_def Let_def by (rule fold_entry_mem)
    then show ?case using Cons.IH [of "fuse_source fs s"] by auto
  qed simp
  from this [of "[]"] show ?thesis by (simp add: fuse_sources_def fused_candidates_def)
qed

lemma selected_mem:
  assumes "mset (drain (fuse_sources inputs)) = mset (fuse_sources inputs)" "c \<in> set (pk_selected (plan drain p inputs))"
  shows "\<exists>d s. s \<in> set inputs \<and> d \<in> set (fi_candidates s) \<and> c = d\<lparr>cd_relevance := cd_relevance c\<rparr>"
proof -
  have "c \<in> set (ranked drain inputs)"
    using assms(2) fill_subseq [of p "ranked drain inputs"] by (auto simp: plan_def Let_def dest: list_emb_set)
  then have "c \<in> set (map scored_candidate (fuse_sources inputs))" using mset_eq_setD [OF ranked_ids [of drain inputs, OF assms(1)]] by simp
  then obtain k d y where e: "(k, d, y) \<in> set (fuse_sources inputs)" "c = d\<lparr>cd_relevance := y\<rparr>" by (auto simp: scored_candidate_def)
  then have "d \<in> fused_candidates (fuse_sources inputs)" by (force simp: fused_candidates_def)
  then obtain t where "t \<in> set inputs" "d \<in> set (fi_candidates t)" using fused_mem [of inputs] by auto
  then show ?thesis using e(2) by (intro exI [of _ d] exI [of _ t]) simp
qed

lemma push_warning_sources: "add_source acc weight n = Some acc' \<Longrightarrow>
   set (fst acc') \<subseteq> insert (weight, ns_candidates n) (set (fst acc))"
  by (cases "ns_candidates n = []") (auto simp: add_source_def)

lemma add_sources_mem: "add_sources acc weight ns = Some acc' \<Longrightarrow>
   (w, cs) \<in> set (fst acc') \<Longrightarrow> (w, cs) \<in> set (fst acc) \<or> (\<exists>n \<in> set ns. cs = ns_candidates n)"
proof (induction ns arbitrary: acc)
  case (Cons n ns)
  obtain acc1 where "add_source acc weight n = Some acc1" "add_sources acc1 weight ns = Some acc'"
    using Cons.prems(1) by (auto simp: bind_eq_Some_conv)
  then show ?case using Cons.IH [of acc1] Cons.prems(2) push_warning_sources [of acc weight n acc1] by auto
qed simp

lemma code_sources_mem:
  assumes "code_sources env code_result = Some (acc, pl)" "(w, cs) \<in> set (fst acc)"
  shows "\<exists>result. code_result = Inr result \<and> (\<exists>n \<in> set (cp_sources result). cs = ns_candidates n)"
proof (cases code_result)
  case (Inr result)
  then obtain ws where "add_sources ([], ws) plan_weight (cp_sources result) = Some acc"
    using assms(1) by (auto simp: code_sources_def bind_eq_Some_conv)
  then show ?thesis using add_sources_mem [of "([], ws)" plan_weight "cp_sources result" acc w cs] assms(2) Inr by auto
qed (use assms in \<open>auto simp: code_sources_def\<close>)

lemma memory_candidates_mem:
  "memory_candidates env i rs = Some n \<Longrightarrow> c \<in> set (ns_candidates n) \<Longrightarrow>
   \<exists>j content. \<exists>r \<in> set rs. c = memory_candidate env j r content"
proof (induction rs arbitrary: i n)
  case (Cons r rs)
  show ?case
  proof (cases "mr_summary r = []")
    case True
    then obtain m where "memory_candidates env (Suc i) rs = Some m" "ns_candidates n = ns_candidates m"
      using Cons.prems(1) by (auto simp: add_unavailable_def)
    then have "\<exists>j content. \<exists>r \<in> set rs. c = memory_candidate env j r content" using Cons.IH Cons.prems(2) by simp
    then show ?thesis by auto
  next
    case False
    then obtain m content where m: "memory_candidates env (Suc i) rs = Some m"
      "ns_candidates n = memory_candidate env i r content # ns_candidates m"
      using Cons.prems(1) by (auto simp: add_candidate_def bind_eq_Some_conv)
    have "c = memory_candidate env i r content \<or> (\<exists>j content. \<exists>r \<in> set rs. c = memory_candidate env j r content)"
      using Cons.IH [OF m(1)] Cons.prems(2) m(2) by auto
    then show ?thesis by auto
  qed
qed (simp add: no_source_def)

lemma memory_sources_mem:
  assumes "memory_sources env project topic limit memory_result acc = Some (src, ws)" "(w, cs) \<in> set src" "c \<in> set cs"
    and "(w, cs) \<notin> set (fst acc)"
  shows "\<exists>records. memory_result = Inr records \<and> (\<exists>r \<in> set records. topic_belongs_to_project (mr_topic r) project \<and>
    pv_canonical_ref (cd_provenance (rc_candidate c)) = Some (lit ''icm:memory:'' @ mr_id r))"
proof (cases memory_result)
  case (Inr records)
  let ?rs = "isolate_project_memories records project topic limit"
  obtain n where n: "normalize_memory (context_env.truncate env) ?rs = Some n" "add_source acc memory_weight n = Some (src, ws)"
    using assms(1) Inr by (auto simp: memory_sources_def bind_eq_Some_conv)
  then have "cs = ns_candidates n" using push_warning_sources [OF n(2)] assms(2,4) by auto
  then obtain j content r where r: "r \<in> set ?rs" "c = memory_candidate (context_env.truncate env) j r content"
    using memory_candidates_mem [of "context_env.truncate env" 0 ?rs n c] n(1) assms(3) by (auto simp: normalize_memory_def)
  have "r \<in> set records" "topic_belongs_to_project (mr_topic r) project"
    using isolate_memories_mem(1,2) [of r records project ProjectOnly topic limit] r(1) by (simp_all add: isolate_project_memories_def)
  moreover have "pv_canonical_ref (cd_provenance (rc_candidate c)) = Some (lit ''icm:memory:'' @ mr_id r)"
    by (simp add: r(2) memory_candidate_def content_identity_def)
  ultimately show ?thesis using Inr by blast
qed (use assms in \<open>auto simp: memory_sources_def\<close>)

section \<open>Witnesses\<close>

definition sample_planner_env :: planner_env where
  "sample_planner_env =
     \<lparr>ce_sha256 = id, ce_print_evidence = pe_path, ce_normalize_result = (\<lambda>p. Inr (Some p)), pe_drain = rev,
      pe_encoded_bytes = (\<lambda>r. Inr (100 + length (show_nat (unat (tc_value (pk_used (cr_pack r))))))),
      pe_error_text = (\<lambda>_. []), pe_memory_error_text = (\<lambda>_. [])\<rparr>"

definition sample_weighted :: weighted_sources where
  "sample_weighted =
     [(plan_weight, [\<lparr>rc_candidate = sample_candidate (lit ''a'') (lit ''a.rs'') 100, rc_content = lit ''fn a''\<rparr>,
                     \<lparr>rc_candidate = sample_candidate (lit ''b'') (lit ''b.rs'') 900, rc_content = lit ''fn b''\<rparr>])]"

lemma sample_prints: "prints_used sample_planner_env (\<lambda>_. 100)"
  by (simp add: prints_used_def sample_planner_env_def set_used_def)

lemma sample_drain: "mset (pe_drain sample_planner_env fs) = mset fs"
  by (simp add: sample_planner_env_def)

lemma sample_small:
  assumes "encoded_context_tokens sample_planner_env r = Inr n"
  shows "n < 1000"
proof -
  define l where "l = length (show_nat (unat (tc_value (pk_used (cr_pack r)))))"
  have "l \<le> 20"
    using length_show [of "unat (tc_value (pk_used (cr_pack r)))" 19] unat_less [of "tc_value (pk_used (cr_pack r))"]
    by (simp add: l_def)
  then have k: "(100 + l + 3) div 4 < 1000" by simp
  have n: "n = of_nat ((100 + l + 3) div 4)"
    using assms by (simp add: encoded_context_tokens_def sample_planner_env_def l_def)
  have "unat n = (100 + l + 3) div 4" unfolding n using k by (simp add: unsigned_of_nat take_bit_nat_eq_self)
  then show ?thesis using k by (simp add: word_less_nat_alt)
qed

theorem fuse_outcomes_witness:
  "\<exists>r. fuse sample_planner_env 1000 sample_weighted [] None = Inr r \<and> tc_value (pk_used (cr_pack r)) \<le> 1000"
proof -
  have clash: "\<not> (ref_of a = ref_of b \<and> rc_content a \<noteq> rc_content b)"
    if "{a, b} \<subseteq> set (concat (map snd sample_weighted))" for a b
    using that by (auto simp: sample_weighted_def sample_candidate_def lit_def)
  show ?thesis
    using fuse_outcomes [OF sample_prints sample_drain, where limit = 1000 and sources = sample_weighted and warnings = "[]"
        and planner = None]
  proof (elim disjE exE conjE)
    fix r assume "encoded_context_tokens sample_planner_env r = Inr (tc_value (pk_used (cr_pack r)))"
      "1000 < tc_value (pk_used (cr_pack r))"
    then show ?thesis using sample_small [of r "tc_value (pk_used (cr_pack r))"] by simp
  qed (use clash in blast)+
qed

theorem plan_context_bounded_witness:
  "\<exists>result. plan_context sample_planner_env 1000
     \<lparr>pq_workspace = lit ''/w'', pq_max_tokens = Some 500, pq_no_memory = True, pq_intent = lit ''find a'', pq_path = None,
      pq_topic = None, pq_search_limit = 5, pq_memory_limit = 5\<rparr>
     (Inr []) (Inl (ForkUnavailable [])) (\<lambda>_. Inr []) = Some result"
  using plan_context_bounded [OF sample_prints] sample_drain by blast

end
