(* ===== verification/Spec2Isabelle.thy ===== *)
theory Spec2Isabelle
  imports Memory_Circuit Permission_Gate Simple_Shell Capture_Writer Approval_Store Job_Retention
    Exec_Output Search_Pages Read_Costs Response_Codec Read_Files Write_Batch Rewrite_Plan Json_Table
    Memory_Handlers Context_Plan
begin

text \<open>
  Verification of HZR, a control plane for coding agents: a daemon and a command line (\<open>crates/hzr-*\<close>)
  that run commands, read, search and write files and keep memories for an agent, and a fork of the
  command proxy RTK (\<open>fork-core/rtk/src\<close>) that rewrites shell commands into compact ones and decides
  whether they may run. Paths in this text are those of the repository.

  \<^bold>\<open>Parts and how they interact.\<close> A host asks \<open>rtk rewrite\<close> about a shell command. The command is
  split into tokens and segments, the permission gate compares every reading of every segment with the
  user's rules, and the rewriter replaces segments that a rule of its table knows; the answer is the
  exit code and the text of \<open>rewrite_cmd.rs\<close>, or a plan that the execution boundary of \<open>hzr-exec\<close> checks
  and runs. The daemon runs commands as durable jobs, pages through their captured output, asks for
  approvals, reads files through the fork with a cost account, keeps snapshots of searches, recalls and
  maintains memories through an external engine behind a circuit breaker, and plans context from all of
  these within a token budget. The fork edits files one by one and in batches, repacks JSON and sets
  values in configuration files.

  \<^bold>\<open>How the source is modelled.\<close> Each theory models the files named below, one definition per function,
  composed as in the source. A Rust string is the list of its scalar values and offsets count UTF-8
  bytes; a slice that is not at a boundary is the value none, a panic. Results are sums, options are
  options, machine integers are words where they can wrap or saturate and natural numbers where the
  source only counts things in memory; 32-bit floating-point numbers are their bits. A hash map is the
  list of its entries where its order can be seen, and a map otherwise. What the code asks of the rest
  of the world is an argument: the regular expressions (their matches), the JSON and TOML libraries, the
  digests, the clock, the file system with the failure of every single operation, the database, the
  processes that are started and what they answer. Facts about these that a theorem needs are its
  hypotheses, or the assumptions of a named predicate, and every such theorem is followed by an instance
  at which they hold.

  \<^bold>\<open>Shared theories.\<close>
  \<^item> \<open>Rust_Prelude\<close>: words with saturation, strings, slices, trimming, splitting, UTF-8, results,
    the locale \<open>inductive_invariant\<close> of a step relation.
  \<^item> \<open>Decimal\<close> (numbers as text), \<open>Utf8_Check\<close> (\<open>from_utf8\<close> and cut characters), \<open>Unix_Path\<close> (components of a
    path), \<open>Sort_By\<close> (\<open>sort_by\<close>, with the locale \<open>comparison\<close> that the comparisons of candidates and of
    memories interpret), \<open>Float32\<close> (\<open>f32\<close> arithmetic: exact on whole numbers of the smallest unit, rounded once; the
    lemmas bound the error of rounding), \<open>Paging\<close> (the locale of a reader that answers page by page,
    interpreted by output pages and search pages).

  \<^bold>\<open>Commands.\<close>
  \<^item> \<open>Shell_Lexer\<close>, \<open>Shell_Segments\<close> (\<open>fork-core/rtk/src/discover/lexer.rs\<close>): \<open>tokenize_inner\<close> and what is built on
    it. The tokens with the white space between them are the input.
  \<^item> \<open>Command_Prefixes\<close> (\<open>discover/registry.rs\<close>, \<open>permissions.rs\<close>): assignments, \<open>env\<close>, \<open>sudo\<close> and the other
    prefixes a command may carry. At most 33 are peeled, as in the source.
  \<^item> \<open>Permission_Gate\<close> (\<open>permissions.rs\<close>): rule patterns, \<open>check_command_with_prefixes\<close>. Allow is given exactly when
    every segment is allowed as written and nothing is denied, asked about, a script or opaque; what stands behind
    prefixes is looked at only when there is a deny or an ask rule. A deny rule that names any reading of a segment
    wins.
  \<^item> \<open>Rewrite_Rules\<close>, \<open>Rewrite_Reads\<close>, \<open>Rewrite_Segment\<close>, \<open>Rewrite_Command\<close> (\<open>discover/rules.rs\<close>, \<open>discover/registry.rs\<close>,
    \<open>sqlite_cmd.rs\<close>, \<open>tar_cmd.rs\<close>, \<open>remote_logs_cmd.rs\<close>): the rule table, classification, exact reads, the rewriting of a
    segment and of a compound command. \<open>Rewrite_Structure\<close> and \<open>Rewrite_Routing\<close> hold what rewriting does: the
    command is the source with some segments exchanged in place; a rewritten segment keeps all its prefixes,
    is behind no privilege elevation and no \<open>RTK_DISABLED\<close>, and runs the managed executable or a rewritten script
    (\<open>peels\<close> and \<open>routes\<close> say so without the functions of the rewriter). The rewriter calls itself on scripts behind \<open>-c\<close>; it has as much fuel as the command is
    long and one more, and \<open>rewrite_single_unique\<close> shows that its equation has exactly this solution.
  \<^item> \<open>Rewrite_Outcome\<close>, \<open>Rewrite_Plan\<close>, \<open>Engine_Contract\<close> (\<open>discover/registry.rs\<close>, \<open>rewrite_cmd.rs\<close>,
    \<open>crates/hzr-engine-contract/src/lib.rs\<close>): the walks that veto a rewriting, the answer with its exit code, and the plan with the
    consistency its receiver checks. The walks have fuel and a result of their own for running out;
    \<open>rewrite_outcome_returns\<close> shows that each is the only solution of the recursion of the source and that fuel does not
    run out unless a configured prefix is empty; a panic of the code they call is a result. Nested scripts are
    followed ten deep and wrappers three deep, as in the source.

  \<^bold>\<open>Execution.\<close>
  \<^item> \<open>Exec_Model\<close>, \<open>Simple_Shell\<close>, \<open>Capture_Writer\<close> (\<open>crates/hzr-exec/src\<close>): requests, decisions and the start of a process,
    the shell text that is an argument vector, the capture of output with its limits and spill files.
  \<^item> \<open>Approval_Store\<close> (\<open>crates/hzr-daemon/src/approval.rs\<close>): pending approvals, taken once.
  \<^item> \<open>Job_Store\<close>, \<open>Exec_Jobs\<close>, \<open>Job_Retention\<close>, \<open>Exec_Output\<close> (\<open>crates/hzr-daemon/src/exec_jobs.rs\<close> and \<open>exec_jobs/\<close>): job records,
    receipts, the handlers as steps of a transition system with restarts and failing writes, what retention may
    remove, and output pages. No job is dispatched twice; the pages of an output are the output. Clients fetch pages
    with fuel; \<open>Paging\<close> shows that the length of the data and one more is enough.

  \<^bold>\<open>Files.\<close>
  \<^item> \<open>Read_Files\<close>, \<open>Read_Costs\<close>, \<open>Managed_Tools\<close> (\<open>crates/hzr-daemon/src/api/read.rs\<close>, \<open>read_cost.rs\<close>, \<open>api.rs\<close>): typed reads with
    their token budget and advice, the spans of lines already delivered, and the closed set of fork
    commands confined to a workspace. The loop that lets a count include its own digits has no bound in the source; it is a
    partial function, and \<open>settle_returns\<close> shows that it returns.
  \<^item> \<open>Search_Pages\<close> (\<open>crates/hzr-daemon/src/search_pages.rs\<close>): snapshots of hits behind cursors.
  \<^item> \<open>Text_Edit\<close>, \<open>Atomic_Write\<close>, \<open>Config_Set\<close>, \<open>Write_Batch\<close> (\<open>fork-core/rtk/src/write_core.rs\<close>, \<open>write_lock.rs\<close>, \<open>write_cmd.rs\<close>):
    replacing text, writing atomically under a lock with comparison, setting a value in a JSON or TOML document, and
    batches. An edit replaces exactly the text its pattern names, which \<open>names_text\<close> defines. A locked write
    leaves a list of events (what was read, what was there when the new text was computed, what was compared and
    replaced) while other processes write between any two steps; the theorems tie the result to these events. A
    batch that nobody disturbs has the effect of its operations one after the other when no \<open>@file\<close> field refers to a file of
    the plan; references read the files as they are at that moment. The tables of the TOML library are
    arguments, the path through them is modelled. The attempts of a locked write are bounded in the source.
  \<^item> \<open>Json_Pack\<close>, \<open>Json_Table\<close> (\<open>fork-core/rtk/src/jsonpack.rs\<close>): tables from arrays of objects and back; rows with a
    line break in a text stay as they are (\<open>line_breaks_stay_raw\<close>).
  \<^item> \<open>Response_Codec\<close> (\<open>crates/hzr-codec/src/lib.rs\<close>): compaction that keeps protected content.

  \<^bold>\<open>Memory and context.\<close>
  \<^item> \<open>Memory_Circuit\<close> (\<open>crates/hzr-memory/src\<close>: \<open>circuit.rs\<close>, \<open>client.rs\<close>, \<open>http_transport.rs\<close>, \<open>config.rs\<close>): the breaker, and
    calls of several clients interleaved. At most one probe is in flight, until the 64-bit generation counter
    saturates.
  \<^item> \<open>Memory_Namespace\<close>, \<open>Memory_Handlers\<close> (\<open>namespace.rs\<close>, \<open>types.rs\<close>, \<open>client.rs\<close>, \<open>snapshot.rs\<close> and the memory handlers of
    \<open>crates/hzr-daemon/src/api.rs\<close>): topics, isolation, recall, store, forget, update and prune. One repository never sees or
    changes a record of another, and pruning removes exactly what it says.
  \<^item> \<open>Budget_Plan\<close>, \<open>Context_Candidates\<close>, \<open>Context_Plan\<close> (\<open>crates/hzr-core/src/budget.rs\<close>, \<open>crates/hzr-context/src/candidate.rs\<close>,
    \<open>planner.rs\<close>): candidates from plans, searches and memories, their fusion and ranking, the budget, and the
    response that is reduced until it fits. The plan is within its limits and does not depend on the order of a hash map; a
    response reports its own size exactly. The reduction ends because each round leaves something out, and the four rounds
    of the source are enough for a count that includes its own digits (\<open>digits_settle\<close>).

  \<^bold>\<open>What the model showed.\<close> A half-open breaker stays closed to requests after an answer outside 500 to 599
  (\<open>recall_client_error_wedges_breaker\<close>). A lone quote makes the gate panic (\<open>lone_quote_panics_gate\<close>), and a descriptor
  duplication hides the arguments behind it from deny rules (\<open>redirect_hides_denied_arguments\<close>). Without deny and ask
  rules a script behind a prefix is allowed like any other command (\<open>prefixed_script_allowed_without_rules\<close>). An empty configured
  prefix sends a walk of the rewriter into endless recursion. A fidelity reason without a request makes a plan that its
  receiver rejects (\<open>run_plan_consistent_iff\<close>). A key that holds a text in one row and an object in
  another makes the JSON packer panic (\<open>pack_panics_on_mixed_rows\<close>). A create can overwrite a file that
  another process creates meanwhile (\<open>create_overwrites_raced_file\<close>). A batch of several files is not atomic
  (\<open>batch_not_atomic\<close>) and may read a reference to one of its own files too early (\<open>stale_reference\<close>). Rows in the
  quarantine of the memory import cannot be removed (\<open>legacy_import_unremovable\<close>). The theorems state these as the code has them.

  \<^bold>\<open>Not modelled.\<close> The ledger and billing are statements of an SQL database. The server, its state and its
  telemetry are asynchronous plumbing around the handlers above. Supervision of the memory engine, the
  semantic index and the agents is process management. The command line is argument parsing, terminal
  output and installation. The filters of command output, ranking in the fork and its memory layer rest on
  regular expressions, language parsers and external indexes that are not part of the repository. Of the context
  planner, retrieving the answers it plans from is left out: subprocesses, index readiness and concurrent
  tasks. Configuration schemas are read by derived parsers. In the modelled handlers, trace spans are left out.
\<close>

section \<open>Memories in a plan\<close>

lemma planned_sources:
  assumes "plan_context env limit req (Inr project) code_result ask_memory = Some (Inr r)"
  obtains topic call acc pl src ws m where
    "code_sources env code_result = Some (acc, pl)" "recall_project call = Some project"
    "memory_sources env project topic (pq_memory_limit req) (if pq_no_memory req then Inr [] else ask_memory call) acc = Some (src, ws)"
    "fuse env m src ws pl = Inr r"
proof -
  obtain topic where t: "(case pq_topic req of None \<Rightarrow> Inr None | Some kind \<Rightarrow> map_sum id Some (namespaced_topic kind project)) = Inr topic"
    using assms by (auto simp: plan_context_def split: sum.splits)
  let ?call = "(new_recall_request (pq_intent req))\<lparr>recall_topic := topic,
      recall_limit := recall_candidate_limit (pq_memory_limit req), recall_project := Some project\<rparr>"
  obtain acc pl where c: "code_sources env code_result = Some (acc, pl)" using code_sources_total by fastforce
  obtain src ws where m: "memory_sources env project topic (pq_memory_limit req)
      (if pq_no_memory req then Inr [] else ask_memory ?call) acc = Some (src, ws)" using memory_sources_total by fastforce
  have "\<exists>m. fuse env m src ws pl = Inr r"
    using assms unfolding plan_context_def sum.case t Let_def by (auto simp: c m split: sum.splits)
  then show thesis using that [OF c _ m] by auto
qed

text \<open>C13: The memories in a plan are those of the repository it was made for: every piece of evidence from memory is one
  that the memory engine recalled for this repository, with a topic that belongs to it, and says which record it is.\<close>

theorem planned_memory_isolated:
  assumes "prints_used env base" "\<forall>fs. mset (pe_drain env fs) = mset fs"
    and "plan_context env limit req (Inr project) code_result ask_memory = Some (Inr r)"
    and "\<forall>result. code_result = Inr result \<longrightarrow>
      (\<forall>n \<in> set (cp_sources result). \<forall>c \<in> set (ns_candidates n). cd_source (rc_candidate c) \<noteq> FromMemory)"
    and "c \<in> set (pk_selected (cr_pack r))" "cd_source c = FromMemory"
  shows "\<exists>call records m. recall_project call = Some project \<and> ask_memory call = Inr records \<and> m \<in> set records \<and>
    topic_belongs_to_project (mr_topic m) project \<and>
    pv_canonical_ref (cd_provenance c) = Some (lit ''icm:memory:'' @ mr_id m)"
proof -
  obtain topic call acc pl src ws m where s: "code_sources env code_result = Some (acc, pl)" "recall_project call = Some project"
    "memory_sources env project topic (pq_memory_limit req) (if pq_no_memory req then Inr [] else ask_memory call) acc = Some (src, ws)"
    "fuse env m src ws pl = Inr r" by (rule planned_sources [OF assms(3)])
  have drain: "mset (pe_drain env (fuse_sources (fusion_inputs src))) = mset (fuse_sources (fusion_inputs src))" using assms(2) by blast
  have "c \<in> set (pk_selected (plan (pe_drain env) (new_planner m) (fusion_inputs src)))"
    using fuse_within(2) [OF assms(1) drain s(4)] assms(5) by (auto simp: prefix_def)
  then obtain d t where d: "t \<in> set (fusion_inputs src)" "d \<in> set (fi_candidates t)" "c = d\<lparr>cd_relevance := cd_relevance c\<rparr>"
    using selected_mem [of "pe_drain env", OF drain] by blast
  then obtain w cs rc where rc: "(w, cs) \<in> set src" "rc \<in> set cs" "d = rc_candidate rc" by (auto simp: fusion_inputs_def)
  have same: "cd_source d = cd_source c" "cd_provenance d = cd_provenance c"
    using arg_cong [OF d(3), of cd_source] arg_cong [OF d(3), of cd_provenance] by simp_all
  have "(w, cs) \<notin> set (fst acc)"
  proof
    assume "(w, cs) \<in> set (fst acc)"
    then obtain result n where "code_result = Inr result" "n \<in> set (cp_sources result)" "cs = ns_candidates n"
      using code_sources_mem [OF s(1)] by blast
    then have "cd_source (rc_candidate rc) \<noteq> FromMemory" using assms(4) rc(2) by blast
    then show False using assms(6) rc(3) same(1) by simp
  qed
  from memory_sources_mem [OF s(3) rc(1,2) this] obtain records x where x:
    "(if pq_no_memory req then Inr [] else ask_memory call) = Inr records" "x \<in> set records"
    "topic_belongs_to_project (mr_topic x) project" "pv_canonical_ref (cd_provenance d) = Some (lit ''icm:memory:'' @ mr_id x)"
    using rc(3) by auto
  then have "ask_memory call = Inr records" by (auto split: if_splits)
  then show ?thesis using s(2) x(2-4) same(2) by auto
qed

section \<open>A plan with a memory\<close>

definition sample_fact :: memory_record where
  "sample_fact = (sample_memory (lit ''m1'') (lit ''notes-'' @ token_a) High 0x3F800000)\<lparr>mr_summary := lit ''fact''\<rparr>"

definition sample_fact_candidate :: context_candidate where
  "sample_fact_candidate = rc_candidate (memory_candidate (context_env.truncate sample_planner_env) 0 sample_fact (lit ''fact''))"

definition sample_plan_request :: plan_request where
  "sample_plan_request =
     \<lparr>pq_workspace = lit ''/w'', pq_max_tokens = None, pq_no_memory = False, pq_intent = lit ''a'', pq_path = None,
      pq_topic = None, pq_search_limit = 5, pq_memory_limit = 5\<rparr>"

lemma sample_weight: "memory_weight = 0x3F4CCCCD"
  unfolding memory_weight_def f32_ratio_def
  by (subst round_evaluated [where k = 125]) (simp_all add: f32_bits)

lemma sample_floor: "f32_ratio 5 100 = 0x3D4CCCCD"
  unfolding f32_ratio_def by (subst round_evaluated [where k = 121]) (simp_all add: f32_bits)

lemma sample_div: "f32_div 0x3F800000 0x3F800000 = 0x3F800000"
  unfolding f32_div_def by (simp add: f32_bits, subst round_evaluated [where k = 126]) (simp_all add: f32_bits)

lemma sample_mul: "f32_mul 0x3F4CCCCD 0x3F800000 = 0x3F4CCCCD"
  unfolding f32_mul_def by (simp add: f32_bits, subst round_evaluated [where k = 125]) (simp_all add: f32_bits)

lemma sample_limit_bits: "f32_of_nat 1000 = 0x447A0000"
  unfolding f32_of_nat_def by (subst round_evaluated [where k = 135]) (simp_all add: f32_bits)

lemma sample_share: "f32_mul 0x447A0000 0x3EB33333 = 0x43AF0000"
  unfolding f32_mul_def by (simp add: f32_bits, subst round_evaluated [where k = 134]) (simp_all add: f32_bits)

lemma sample_memory_limit: "memory_limit 1000 = 350"
  using sample_limit_bits sample_share by (simp add: memory_limit_def memory_budget_share_bits f32_to_u64_def f32_bits)

lemma sample_fact_fields:
  "cd_relevance sample_fact_candidate = 0x3F800000" "cd_tokens sample_fact_candidate = token_estimate 1"
  "cd_path sample_fact_candidate = None" "cd_source sample_fact_candidate = FromMemory"
  by (simp_all add: sample_fact_candidate_def memory_candidate_def content_identity_def memory_relevance_def sample_fact_def
      sample_memory_def estimate_tokens_def blen_def len_utf8_def lit_def)

lemma sample_scores: "f32_lt 0 0x3F800000" "is_finite 0x3F800000" "f32_max 0 0x3F800000 = 0x3F800000" "f32_max 0x3F800000 0 = 0x3F800000"
  "f32_clamp 0x3F800000 0 0x3F800000 = 0x3F800000" "\<not> f32_lt 0x3F4CCCCD 0x3D4CCCCD"
  by (simp_all add: f32_lt_def f32_max_def f32_clamp_def f32_int_def f32_bits)

lemma sample_fused:
  "fuse_sources [\<lparr>fi_source_weight = memory_weight, fi_candidates = [sample_fact_candidate]\<rparr>] =
   [(cd_content_ref sample_fact_candidate, sample_fact_candidate, 0x3F4CCCCD)]"
proof -
  have "normalized_score (best_score [sample_fact_candidate]) sample_fact_candidate = 0x3F800000"
    using f32_one by (simp add: best_score_def normalized_score_def sample_fact_fields sample_scores sample_div)
  then show ?thesis by (simp add: fuse_sources_def fuse_source_def Let_def sample_weight sample_mul)
qed

lemma sample_selected:
  "pk_selected (plan rev (new_planner 1000) [\<lparr>fi_source_weight = memory_weight, fi_candidates = [sample_fact_candidate]\<rparr>]) =
   [sample_fact_candidate\<lparr>cd_relevance := 0x3F4CCCCD\<rparr>]"
proof -
  have "path_of (sample_fact_candidate\<lparr>cd_relevance := 0x3F4CCCCD\<rparr>) = []" by (simp add: path_of_def sample_fact_fields)
  then show ?thesis
    by (simp add: plan_def ranked_def sample_fused sort_by_def scored_candidate_def fill_def fill_step_def accept_def
        empty_filling_def new_planner_def sample_floor sample_scores sample_fact_fields token_estimate_def sample_memory_limit Let_def)
qed

lemma sample_reduced: "\<exists>r. bound_loop sample_planner_env 1000 s = Inr r \<and> pk_selected (cr_pack r) = pk_selected (cr_pack (snd s))"
proof -
  obtain r e where r: "bound_round sample_planner_env s = Inr (r, e, e)" "encoded_context_tokens sample_planner_env r = Inr e"
    "r = set_used e (note_omissions (fst s) (snd s))" by (rule bound_round_ok [OF sample_prints, of s])
  have "e \<le> 1000" using sample_small [OF r(2)] by simp
  then have "bound_loop sample_planner_env 1000 s = Inr r" by (simp add: bound_loop.simps [of _ _ s] r(1))
  moreover have "pk_selected (cr_pack r) = pk_selected (cr_pack (snd s))"
    unfolding r(3) by (simp add: set_used_def note_omissions_def Let_def refresh_selection_diagnostics_def)
  ultimately show ?thesis by blast
qed

lemma sample_memory_source:
  "normalize_memory (context_env.truncate sample_planner_env) (isolate_project_memories [sample_fact] token_a None 5) =
   Some \<lparr>ns_candidates = [memory_candidate (context_env.truncate sample_planner_env) 0 sample_fact (lit ''fact'')], ns_warnings = []\<rparr>"
proof -
  have "mr_topic sample_fact = lit ''notes-'' @ token_a" "mr_summary sample_fact = lit ''fact''" by (simp_all add: sample_fact_def sample_memory_def)
  then show ?thesis
    using sample_topics(2)
    by (simp add: isolate_project_memories_def isolate_memories_def normalize_memory_def bounded_memory_content_def
        max_memory_content_bytes_def blen_def len_utf8_def lit_def add_candidate_def no_source_def)
qed

lemma sample_planned:
  "\<exists>r. plan_context sample_planner_env 1000 sample_plan_request (Inr token_a) (Inl (ForkUnavailable [])) (\<lambda>_. Inr [sample_fact]) =
     Some (Inr r) \<and> pk_selected (cr_pack r) = [sample_fact_candidate\<lparr>cd_relevance := 0x3F4CCCCD\<rparr>]"
proof -
  let ?mc = "memory_candidate (context_env.truncate sample_planner_env) 0 sample_fact (lit ''fact'')"
  let ?src = "[(memory_weight, [?mc])]"
  let ?ws = "[\<lparr>cw_code = PlannerUnavailable, cw_message = []\<rparr>]"
  have valid: "validate_plan_request sample_planner_env sample_plan_request = Inr ()"
    by (simp add: validate_plan_request_def sample_plan_request_def validate_text_def validate_limit_def validate_optional_path_def
        max_retrieval_results_def max_intent_bytes_def blen_def rust_defs)
  have "plan_context sample_planner_env 1000 sample_plan_request (Inr token_a) (Inl (ForkUnavailable [])) (\<lambda>_. Inr [sample_fact]) =
      Some (fuse sample_planner_env 1000 ?src ?ws None)"
    by (simp add: plan_context_def valid) (simp add: sample_plan_request_def code_sources_def push_warning_def bounded_message_def
        max_warning_bytes_def max_warnings_def memory_sources_def sample_memory_source add_source_def sample_planner_env_def [THEN arg_cong, of pe_error_text])
  moreover have "\<exists>r. fuse sample_planner_env 1000 ?src ?ws None = Inr r \<and>
      pk_selected (cr_pack r) = [sample_fact_candidate\<lparr>cd_relevance := 0x3F4CCCCD\<rparr>]"
  proof -
    have inputs: "fusion_inputs ?src = [\<lparr>fi_source_weight = memory_weight, fi_candidates = [sample_fact_candidate]\<rparr>]"
      by (simp add: fusion_inputs_def sample_fact_candidate_def)
    have drain: "pe_drain sample_planner_env = rev" by (simp add: sample_planner_env_def)
    have c: "collect_contents Map.empty (concat (map snd ?src)) = Inr [ref_of ?mc \<mapsto> rc_content ?mc]" by simp
    let ?pack = "plan (pe_drain sample_planner_env) (new_planner 1000) (fusion_inputs ?src)"
    let ?R = "\<lparr>cr_pack = ?pack, cr_contents = [ref_of ?mc \<mapsto> rc_content ?mc] |` (cd_content_ref ` set (pk_selected ?pack)),
        cr_warnings = ?ws, cr_planner = None\<rparr>"
    obtain r where r: "bound_loop sample_planner_env 1000 (no_omissions, estimated_source ?R) = Inr r"
      "pk_selected (cr_pack r) = pk_selected (cr_pack (estimated_source ?R))"
      using sample_reduced [of "(no_omissions, estimated_source ?R)"] by auto
    have "pk_selected (cr_pack (estimated_source ?R)) = pk_selected ?pack" by (simp add: estimated_source_def)
    then have "pk_selected (cr_pack r) = [sample_fact_candidate\<lparr>cd_relevance := 0x3F4CCCCD\<rparr>]"
      using r(2) sample_selected unfolding inputs drain by simp
    moreover have "fuse sample_planner_env 1000 ?src ?ws None = Inr r"
      using fuse_unreduced(1) [where env = sample_planner_env and sources = ?src and limit = 1000 and warnings = ?ws
          and planner = None, OF sample_drain c] r(1) by simp
    ultimately show ?thesis by blast
  qed
  ultimately show ?thesis by simp
qed

theorem planned_memory_isolated_witness:
  "topic_belongs_to_project (mr_topic sample_fact) token_a \<and>
   pv_canonical_ref (cd_provenance sample_fact_candidate) = Some (lit ''icm:memory:'' @ mr_id sample_fact)"
proof -
  let ?c = "sample_fact_candidate\<lparr>cd_relevance := 0x3F4CCCCD\<rparr>"
  obtain r where r: "plan_context sample_planner_env 1000 sample_plan_request (Inr token_a) (Inl (ForkUnavailable []))
      (\<lambda>_. Inr [sample_fact]) = Some (Inr r)" "?c \<in> set (pk_selected (cr_pack r))"
    using sample_planned by fastforce
  have "cd_source ?c = FromMemory" by (simp add: sample_fact_fields)
  from planned_memory_isolated [OF sample_prints _ r(1) _ r(2) this] sample_drain show ?thesis by auto
qed

end
